(* ===== verification/Prelude.thy ===== *)
theory Prelude
  imports Complex_Main "HOL-Library.Word" "HOL-Library.Log_Nat"
begin

unbundle bit_operations_syntax

text \<open>
  What every component of the firmware model shares: bytes and C strings, the C library
  routines the sources call (character classes, \<open>strtol\<close>, case-insensitive comparison,
  \<open>strtok\<close>), binary64 values with their comparisons and rounding, decimal printing, and
  generic facts on bounded folds, ring indices and prefixes.  \<open>char\<close> is a byte of a C
  string, \<open>byte\<close> a byte of a binary message or a file.
\<close>

section \<open>Collections of hints\<close>

named_theorems cstr_simps "unfolding rules of the C string routines"
named_theorems step_defs "definitions of single steps of a component"
named_theorems inv_defs "definitions of component invariants"

section \<open>Basic types\<close>

type_synonym byte = "8 word"
type_synonym u32 = "32 word"
type_synonym u64 = "64 word"

text \<open>The \<open>errno\<close> values the modelled code tells apart.\<close>

datatype errno = EAGAIN | EINTR | EIO | EMSGSIZE | ENOENT | ENOSYS | EOTHER nat

section \<open>Characters and C strings\<close>

text \<open>Character classes of the C locale, on the byte value.\<close>

definition chr_code :: "char \<Rightarrow> nat" where
  [cstr_simps]: "chr_code c = of_char c"

definition c_isspace :: "char \<Rightarrow> bool" where
  [cstr_simps]: "c_isspace c \<longleftrightarrow> chr_code c = 32 \<or> (9 \<le> chr_code c \<and> chr_code c \<le> 13)"

definition c_isdigit :: "char \<Rightarrow> bool" where
  [cstr_simps]: "c_isdigit c \<longleftrightarrow> 48 \<le> chr_code c \<and> chr_code c \<le> 57"

definition c_isupper :: "char \<Rightarrow> bool" where
  [cstr_simps]: "c_isupper c \<longleftrightarrow> 65 \<le> chr_code c \<and> chr_code c \<le> 90"

definition c_islower :: "char \<Rightarrow> bool" where
  [cstr_simps]: "c_islower c \<longleftrightarrow> 97 \<le> chr_code c \<and> chr_code c \<le> 122"

definition c_isalpha :: "char \<Rightarrow> bool" where
  [cstr_simps]: "c_isalpha c \<longleftrightarrow> c_isupper c \<or> c_islower c"

definition c_isalnum :: "char \<Rightarrow> bool" where
  [cstr_simps]: "c_isalnum c \<longleftrightarrow> c_isalpha c \<or> c_isdigit c"

definition c_isxdigit :: "char \<Rightarrow> bool" where
  [cstr_simps]: "c_isxdigit c \<longleftrightarrow> c_isdigit c \<or> (65 \<le> chr_code c \<and> chr_code c \<le> 70)
     \<or> (97 \<le> chr_code c \<and> chr_code c \<le> 102)"

definition c_tolower :: "char \<Rightarrow> char" where
  [cstr_simps]: "c_tolower c = (if c_isupper c then char_of (chr_code c + 32) else c)"

definition c_toupper :: "char \<Rightarrow> char" where
  [cstr_simps]: "c_toupper c = (if c_islower c then char_of (chr_code c - 32) else c)"

text \<open>\<open>strcasecmp(a, b) == 0\<close> and \<open>strncasecmp(a, b, n) == 0\<close>.\<close>

definition str_ieq :: "string \<Rightarrow> string \<Rightarrow> bool" where
  [cstr_simps]: "str_ieq a b \<longleftrightarrow> map c_tolower a = map c_tolower b"

definition strn_ieq :: "nat \<Rightarrow> string \<Rightarrow> string \<Rightarrow> bool" where
  [cstr_simps]: "strn_ieq n a b \<longleftrightarrow> map c_tolower (take n a) = map c_tolower (take n b)"

text \<open>A chain of such comparisons: the value of the first name that fits.\<close>

definition find_ieq :: "(string \<times> 'a) list \<Rightarrow> string \<Rightarrow> 'a option" where
  "find_ieq tbl s = map_option snd (find (\<lambda>row. str_ieq (fst row) s) tbl)"

lemma find_ieq_in: "find_ieq tbl s = Some x \<Longrightarrow> x \<in> snd ` set tbl"
  by (auto simp: find_ieq_def find_Some_iff) (metis image_eqI nth_mem snd_conv)

text \<open>\<open>strncmp(s, p, strlen(p)) == 0\<close>.\<close>

definition has_prefix :: "'a list \<Rightarrow> 'a list \<Rightarrow> bool" where
  [cstr_simps]: "has_prefix p s \<longleftrightarrow> take (length p) s = p"

lemma has_prefix_append [simp]: "has_prefix p (p @ s)"
  by (simp add: has_prefix_def)

lemma has_prefixD: "has_prefix p s \<Longrightarrow> s = p @ drop (length p) s"
  by (metis append_take_drop_id has_prefix_def)

lemma str_ieq_refl [simp]: "str_ieq a a"
  by (simp add: str_ieq_def)

lemma str_ieq_sym: "str_ieq a b \<Longrightarrow> str_ieq b a"
  by (simp add: str_ieq_def)

lemma str_ieq_trans: "str_ieq a b \<Longrightarrow> str_ieq b c \<Longrightarrow> str_ieq a c"
  by (simp add: str_ieq_def)

lemma str_ieq_strn: "str_ieq a b \<Longrightarrow> strn_ieq n a b"
  by (metis str_ieq_def strn_ieq_def take_map)

section \<open>Decimal numbers\<close>

definition digit_val :: "char \<Rightarrow> nat" where
  "digit_val c = chr_code c - 48"

fun dec_acc :: "nat \<Rightarrow> string \<Rightarrow> nat" where
  "dec_acc acc [] = acc"
| "dec_acc acc (c # cs) = dec_acc (10 * acc + digit_val c) cs"

text \<open>
  \<open>strtol(s, &end, 10)\<close> on the 32-bit ARM targets, where \<open>long\<close> has 32 bits: the value,
  the text from \<open>end\<close> on, and whether \<open>errno\<close> became \<open>ERANGE\<close>.  Without digits
  the value is 0 and \<open>end\<close> is the start of the text.
\<close>

definition long_max :: int where "long_max = 2147483647"
definition long_min :: int where "long_min = -2147483648"

definition strtol10 :: "string \<Rightarrow> int \<times> string \<times> bool" where
  "strtol10 s =
     (let t = dropWhile c_isspace s;
          neg = (case t of c # _ \<Rightarrow> c = CHR ''-'' | [] \<Rightarrow> False);
          u = (case t of c # cs \<Rightarrow> if c = CHR ''-'' \<or> c = CHR ''+'' then cs else t | [] \<Rightarrow> t);
          ds = takeWhile c_isdigit u;
          v = (if neg then - int (dec_acc 0 ds) else int (dec_acc 0 ds))
      in if ds = [] then (0, s, False)
         else if v > long_max then (long_max, dropWhile c_isdigit u, True)
         else if v < long_min then (long_min, dropWhile c_isdigit u, True)
         else (v, dropWhile c_isdigit u, False))"

lemma chr_code_tolower:
  "chr_code (c_tolower c) = (if c_isupper c then chr_code c + 32 else chr_code c)"
proof (cases "c_isupper c")
  case True
  then have "chr_code c + 32 < 256" by (simp add: c_isupper_def)
  then have "(of_char (char_of (chr_code c + 32)) :: nat) = chr_code c + 32" by simp
  then show ?thesis using True by (simp only: c_tolower_def chr_code_def if_True)
next
  case False
  then show ?thesis by (simp add: c_tolower_def)
qed

lemma chr_code_eq: "chr_code c = chr_code d \<longleftrightarrow> c = d"
  by (simp add: chr_code_def)

lemma chr_code_toupper:
  "chr_code (c_toupper c) = (if c_islower c then chr_code c - 32 else chr_code c)"
proof (cases "c_islower c")
  case True
  then have "chr_code c - 32 < 256" unfolding c_islower_def by linarith
  then have "(of_char (char_of (chr_code c - 32)) :: nat) = chr_code c - 32" by simp
  then show ?thesis using True by (simp only: c_toupper_def chr_code_def if_True)
next
  case False
  then show ?thesis by (simp add: c_toupper_def)
qed

lemma tolower_toupper [simp]: "c_tolower (c_toupper c) = c_tolower c"
proof -
  have "chr_code (c_tolower (c_toupper c)) = chr_code (c_tolower c)"
    by (auto simp: chr_code_tolower chr_code_toupper c_isupper_def c_islower_def)
  then show ?thesis by (simp only: chr_code_eq)
qed

definition digit_char :: "nat \<Rightarrow> char" where
  "digit_char d = char_of (48 + d)"

fun show_nat :: "nat \<Rightarrow> string" where
  "show_nat n = (if n < 10 then [digit_char n] else show_nat (n div 10) @ [digit_char (n mod 10)])"

declare show_nat.simps [simp del]

definition show_int :: "int \<Rightarrow> string" where
  "show_int i = (if i < 0 then CHR ''-'' # show_nat (nat (- i)) else show_nat (nat i))"

lemma chr_code_digit_char: "d < 10 \<Longrightarrow> chr_code (digit_char d) = 48 + d"
  by (simp add: chr_code_def digit_char_def)

lemma isdigit_digit_char [simp]: "d < 10 \<Longrightarrow> c_isdigit (digit_char d)"
  by (simp add: c_isdigit_def chr_code_digit_char)

lemma digit_val_char [simp]: "d < 10 \<Longrightarrow> digit_val (digit_char d) = d"
  by (simp add: digit_val_def chr_code_digit_char)

lemma dec_acc_append: "dec_acc a (xs @ ys) = dec_acc (dec_acc a xs) ys"
  by (induction xs arbitrary: a) auto

lemma show_nat_digits: "\<forall>c \<in> set (show_nat n). c_isdigit c"
proof (induction n rule: show_nat.induct)
  case (1 n)
  then show ?case by (subst show_nat.simps) auto
qed

lemma show_nat_nonempty [simp]: "show_nat n \<noteq> []"
  by (subst show_nat.simps) simp

lemma dec_acc_show_nat: "dec_acc 0 (show_nat n) = n"
proof (induction n rule: show_nat.induct)
  case (1 n)
  then show ?case by (subst show_nat.simps) (auto simp: dec_acc_append)
qed

lemma digit_not_sign:
  "c_isdigit c \<Longrightarrow> c \<noteq> CHR ''-'' \<and> c \<noteq> CHR ''+'' \<and> \<not> c_isspace c"
  by (auto simp: cstr_simps)

text \<open>Printing a \<open>long\<close> with \<open>%ld\<close> and reading it back with \<open>strtol\<close> gives it back.\<close>

lemma strtol10_digits:
  assumes "s = c # cs" "c_isdigit c"
  shows "strtol10 s =
     (let v = int (dec_acc 0 (takeWhile c_isdigit s)) in
      if v > long_max then (long_max, dropWhile c_isdigit s, True)
      else (v, dropWhile c_isdigit s, False))"
proof -
  note c = digit_not_sign [OF assms(2)]
  have "dropWhile c_isspace s = s" using c by (simp add: assms(1))
  moreover have "takeWhile c_isdigit s \<noteq> []" using assms by simp
  moreover have "\<not> int n < long_min" for n by (simp add: long_min_def)
  ultimately show ?thesis
    using c by (simp add: strtol10_def Let_def assms(1))
qed

lemma strtol10_show_nat:
  assumes "int n \<le> long_max"
  shows "strtol10 (show_nat n) = (int n, [], False)"
proof -
  obtain c cs where s: "show_nat n = c # cs"
    using show_nat_nonempty [of n] by (cases "show_nat n") auto
  then have c: "c_isdigit c" using show_nat_digits [of n] by simp
  have tw: "takeWhile c_isdigit (show_nat n) = show_nat n"
    using show_nat_digits [of n] by (metis takeWhile_eq_all_conv)
  have dw: "dropWhile c_isdigit (show_nat n) = []"
    using show_nat_digits [of n] by (metis dropWhile_eq_Nil_conv)
  show ?thesis
    using assms by (simp add: strtol10_digits [OF s c] Let_def tw dw dec_acc_show_nat)
qed

end
