(* ===== verification/Floats.thy ===== *)
theory Floats
  imports Prelude
begin

text \<open>
  The \<open>double\<close> of the sources: a finite value is the rational it denotes, and the
  non-finite values are constructors of their own, so that \<open>isfinite\<close> and the comparisons
  are those of the hardware.  \<open>rnd53\<close> rounds a real result to 53 significant bits (to
  nearest, ties to even), as a decimal literal, \<open>strtod\<close> or a division does; the range
  limits of binary64 at the top are not reached by the modelled code, and the lower limit is
  the fixed exponent of the subnormal numbers.
\<close>

section \<open>Values and comparisons\<close>

datatype c_double = Fin rat | PInf | NInf | NaN

fun is_finite :: "c_double \<Rightarrow> bool" where
  "is_finite (Fin _) = True"
| "is_finite _ = False"

fun fp_le :: "c_double \<Rightarrow> c_double \<Rightarrow> bool" where
  "fp_le NaN _ = False"
| "fp_le _ NaN = False"
| "fp_le NInf _ = True"
| "fp_le _ PInf = True"
| "fp_le (Fin a) (Fin b) = (a \<le> b)"
| "fp_le _ _ = False"

fun fp_lt :: "c_double \<Rightarrow> c_double \<Rightarrow> bool" where
  "fp_lt NaN _ = False"
| "fp_lt _ NaN = False"
| "fp_lt (Fin a) (Fin b) = (a < b)"
| "fp_lt NInf y = (y \<noteq> NInf)"
| "fp_lt x PInf = (x \<noteq> PInf)"
| "fp_lt _ _ = False"

text \<open>Multiplication by 0.5 is exact in the normal range.\<close>

fun fp_half :: "c_double \<Rightarrow> c_double" where
  "fp_half (Fin a) = Fin (a / 2)"
| "fp_half x = x"

lemma fp_le_finite: "is_finite x \<Longrightarrow> is_finite y \<Longrightarrow> fp_le x y \<longleftrightarrow> \<not> fp_lt y x"
  by (cases x; cases y) auto

lemma is_finiteE: "is_finite x \<Longrightarrow> (\<And>a. x = Fin a \<Longrightarrow> P) \<Longrightarrow> P"
  by (cases x) auto

section \<open>Rounding\<close>

definition pow2 :: "int \<Rightarrow> rat" where
  "pow2 e = (if 0 \<le> e then 2 ^ nat e else 1 / 2 ^ nat (- e))"

definition fl_exp :: "rat \<Rightarrow> int" where
  "fl_exp x =
     (let (p, q) = quotient_of x;
          g = int (floorlog 2 (nat p)) - int (floorlog 2 (nat q))
      in if pow2 g \<le> x then g else g - 1)"

definition round_even :: "rat \<Rightarrow> int" where
  "round_even x =
     (let f = \<lfloor>x\<rfloor>; d = x - of_int f
      in if d < 1 / 2 then f else if d > 1 / 2 then f + 1 else if even f then f else f + 1)"

definition rnd53 :: "rat \<Rightarrow> rat" where
  "rnd53 x =
     (if x = 0 then 0
      else let u = pow2 (max (fl_exp \<bar>x\<bar>) (- 1022) - 52)
           in sgn x * of_int (round_even (\<bar>x\<bar> / u)) * u)"

text \<open>A decimal literal of the source.\<close>

definition lit :: "rat \<Rightarrow> c_double" where
  "lit x = Fin (rnd53 x)"

lemma pow2_pos [simp]: "0 < pow2 e"
  by (simp add: pow2_def)

lemma round_even_nonneg: "0 \<le> x \<Longrightarrow> 0 \<le> round_even x"
  by (simp add: round_even_def Let_def)

lemma round_even_le_int: "x \<le> of_int k \<Longrightarrow> round_even x \<le> k"
proof -
  assume x: "x \<le> of_int k"
  show ?thesis
  proof (cases "\<lfloor>x\<rfloor> = k")
    case True
    with x have "x = of_int k" by linarith
    then show ?thesis by (simp add: round_even_def)
  next
    case False
    with x have "\<lfloor>x\<rfloor> + 1 \<le> k" by linarith
    then show ?thesis by (simp add: round_even_def Let_def)
  qed
qed

lemma round_even_ge_int: "of_int k \<le> x \<Longrightarrow> k \<le> round_even x"
  using le_floor_iff [of k x] by (simp add: round_even_def Let_def)

lemma round_even_of_int [simp]: "round_even (of_int k) = k"
  by (simp add: round_even_def)

lemma pow2_powi: "pow2 e = 2 powi e"
  by (simp add: pow2_def power_int_def power_one_over inverse_eq_divide)

lemma pow2_add: "pow2 (a + b) = pow2 a * pow2 b"
  by (simp add: pow2_powi power_int_add)

lemma pow2_le_imp: "pow2 a \<le> pow2 b \<Longrightarrow> a \<le> b"
  by (rule ccontr) (use power_int_strict_increasing [of b a "2 :: rat"] in \<open>auto simp: pow2_powi\<close>)

lemma fl_exp_lower:
  assumes "0 < x"
  shows "pow2 (fl_exp x) \<le> x"
proof -
  obtain p q where pq: "quotient_of x = (p, q)" by fastforce
  have x: "x = of_int p / of_int q" and q: "0 < q"
    using quotient_of_div [OF pq] quotient_of_denom_pos [OF pq] by auto
  have p: "0 < p"
    using assms q by (simp add: x zero_less_divide_iff)
  let ?a = "floorlog 2 (nat p)" and ?b = "floorlog 2 (nat q)"
  have ab: "2 ^ (?a - 1) \<le> nat p" "nat q < 2 ^ ?b" and apos: "0 < ?a"
    using floorlog_bounds [of "nat p" 2] floorlog_bounds [of "nat q" 2] p q
    by (auto simp: floorlog_def)
  have pr: "pow2 (int (?a - 1)) \<le> of_int p" and qr: "of_int q \<le> pow2 (int ?b)"
  proof -
    have "(of_nat (2 ^ (?a - 1)) :: rat) \<le> of_nat (nat p)" using ab(1) of_nat_le_iff by blast
    then show "pow2 (int (?a - 1)) \<le> of_int p" using p by (simp add: pow2_def)
    have "(of_nat (nat q) :: rat) \<le> of_nat (2 ^ ?b)" using ab(2) of_nat_le_iff
      by (metis less_imp_le_nat)
    then show "of_int q \<le> pow2 (int ?b)" using q by (simp add: pow2_def)
  qed
  have e: "int ?a - int ?b - 1 + int ?b = int (?a - 1)" using apos by linarith
  have "pow2 (int ?a - int ?b - 1) * of_int q \<le> pow2 (int ?a - int ?b - 1) * pow2 (int ?b)"
    using qr by (intro mult_left_mono) (auto simp: less_imp_le)
  also have "\<dots> = pow2 (int (?a - 1))" by (simp only: pow2_add [symmetric] e)
  also have "\<dots> \<le> of_int p" by (rule pr)
  finally have "pow2 (int ?a - int ?b - 1) \<le> x"
    using q by (simp add: x pos_le_divide_eq)
  then show ?thesis by (simp add: fl_exp_def pq Let_def)
qed

text \<open>Rounding keeps a value below any integer bound of up to 52 bits, and keeps its sign.\<close>

lemma rnd53_nonneg:
  assumes "0 \<le> x"
  shows "0 \<le> rnd53 x"
proof (cases "x = 0")
  case False
  let ?u = "pow2 (max (fl_exp x) (- 1022) - 52)"
  have "0 \<le> round_even (x / ?u)" using assms by (intro round_even_nonneg) (simp add: less_imp_le)
  then have "0 \<le> of_int (round_even (x / ?u)) * ?u" by (simp add: less_imp_le)
  then show ?thesis using assms False by (simp add: rnd53_def Let_def)
qed (simp add: rnd53_def)

lemma rnd53_0 [simp]: "rnd53 0 = 0"
  by (simp add: rnd53_def)

lemma rnd53_le_int:
  assumes "0 \<le> x" "x \<le> of_int k" "k \<le> 2 ^ 52"
  shows "rnd53 x \<le> of_int k"
proof (cases "x = 0")
  case True
  then show ?thesis using assms by simp
next
  case False
  with assms have x: "0 < x" by simp
  let ?e = "max (fl_exp x) (- 1022)"
  have "pow2 (fl_exp x) \<le> of_int k" using fl_exp_lower [OF x] assms(2) by linarith
  also have "of_int k \<le> pow2 52"
  proof -
    have "(of_int k :: rat) \<le> of_int (2 ^ 52)" using assms(3) of_int_le_iff by blast
    then show ?thesis by (simp add: pow2_def)
  qed
  finally have "fl_exp x \<le> 52" by (rule pow2_le_imp)
  then have e: "0 \<le> 52 - ?e" by simp
  let ?n = "nat (52 - ?e)" and ?u = "pow2 (?e - 52)"
  have u: "?u * 2 ^ ?n = 1" 
  proof -
    have "?u * pow2 (52 - ?e) = pow2 0" by (simp add: pow2_add [symmetric])
    then show ?thesis using e by (simp add: pow2_def)
  qed
  have un: "?u = 1 / 2 ^ ?n" using u by (simp add: eq_divide_eq)
  have "x / ?u = x * 2 ^ ?n" by (simp only: un) simp
  also have "\<dots> \<le> of_int k * 2 ^ ?n" using assms(2) by (intro mult_right_mono) auto
  finally have "x / ?u \<le> of_int (k * 2 ^ ?n)" by simp
  then have "round_even (x / ?u) \<le> k * 2 ^ ?n" by (rule round_even_le_int)
  then have "(of_int (round_even (x / ?u)) :: rat) \<le> of_int (k * 2 ^ ?n)"
    by (simp only: of_int_le_iff)
  then have "of_int (round_even (x / ?u)) * ?u \<le> of_int (k * 2 ^ ?n) * ?u"
    by (intro mult_right_mono) (auto simp: less_imp_le)
  also have "of_int (k * 2 ^ ?n) * ?u = of_int k * (?u * 2 ^ ?n)"
    by (simp add: ac_simps)
  also have "\<dots> = of_int k" by (simp add: u)
  finally show ?thesis using x by (simp add: rnd53_def Let_def)
qed

section \<open>Printing with a fixed number of decimals\<close>

definition pad_zeros :: "nat \<Rightarrow> string \<Rightarrow> string" where
  "pad_zeros k s = replicate (k - length s) CHR ''0'' @ s"

text \<open>\<open>%.kf\<close> of a non-negative finite value, for \<open>k > 0\<close>.\<close>

fun fmt_fixed :: "nat \<Rightarrow> c_double \<Rightarrow> string" where
  "fmt_fixed k (Fin x) =
     (let n = nat (round_even (\<bar>x\<bar> * 10 ^ k))
      in (if x < 0 then ''-'' else []) @ show_nat (n div 10 ^ k) @ ''.'' @
         pad_zeros k (show_nat (n mod 10 ^ k)))"
| "fmt_fixed _ PInf = ''inf''"
| "fmt_fixed _ NInf = ''-inf''"
| "fmt_fixed _ NaN = ''nan''"

end
