(* ===== verification/Motion_Tuning.thy ===== *)
theory Motion_Tuning
  imports Floats
begin

text \<open>
  \<open>src/motiond/motiond/motion_tuning.h\<close>: the sensitivity table, the check of an effective
  configuration, and the start/stop detector.  The flag \<open>active\<close> is a \<open>bool\<close>; clock values
  are unbounded \<open>int\<close> (milliseconds of a 64-bit monotonic clock).
\<close>

section \<open>State\<close>

record motion_stats =
  s_scene :: int
  s_move :: int
  s_moving_level :: int
  s_bin_ratio :: c_double
  s_moving_th :: int

record sens_cfg =
  c_trigger :: c_double
  c_release :: c_double
  c_confirm_samples :: int
  c_quiet_ms :: int
  c_require_zero :: int
  c_level_boost :: int

definition mk_cfg :: "rat \<Rightarrow> rat \<Rightarrow> int \<Rightarrow> int \<Rightarrow> int \<Rightarrow> int \<Rightarrow> sens_cfg" where
  "mk_cfg t r n q z b = \<lparr>c_trigger = lit t, c_release = lit r, c_confirm_samples = n,
     c_quiet_ms = q, c_require_zero = z, c_level_boost = b\<rparr>"

definition cfgs :: "sens_cfg list" where
  "cfgs =
    [mk_cfg 15 (150/100) 5 2000 1 1,
     mk_cfg 10 1 5 2000 1 1,
     mk_cfg 7 (70/100) 4 2000 1 1,
     mk_cfg 5 (50/100) 4 2000 1 1,
     mk_cfg 3 (30/100) 3 2000 1 1,
     mk_cfg 2 (20/100) 3 2000 1 1,
     mk_cfg (120/100) (15/100) 3 2000 1 1,
     mk_cfg (80/100) (15/100) 2 2000 1 1,
     mk_cfg (50/100) (15/100) 2 2000 1 1,
     mk_cfg (25/100) (15/100) 2 2000 1 1]"

record motion_detector =
  d_active :: bool
  d_positives :: int
  d_quiet_since :: int

section \<open>Operations\<close>

definition motion_config_valid :: "sens_cfg \<Rightarrow> int \<Rightarrow> bool" where
  "motion_config_valid c interval_ms \<longleftrightarrow>
     is_finite (c_trigger c) \<and> is_finite (c_release c) \<and>
     fp_le (lit (1/100)) (c_trigger c) \<and> fp_le (c_trigger c) (Fin 100) \<and>
     fp_le (Fin 0) (c_release c) \<and> fp_lt (c_release c) (c_trigger c) \<and>
     1 \<le> c_confirm_samples c \<and> c_confirm_samples c \<le> 50 \<and>
     100 \<le> c_quiet_ms c \<and> c_quiet_ms c \<le> 30000 \<and>
     (c_require_zero c = 0 \<or> c_require_zero c = 1) \<and>
     100 \<le> interval_ms \<and> interval_ms \<le> 2000"

definition stats_bad :: "motion_stats \<Rightarrow> bool" where
  "stats_bad s \<longleftrightarrow> \<not> is_finite (s_bin_ratio s) \<or> fp_lt (s_bin_ratio s) (Fin 0) \<or>
     fp_lt (Fin 100) (s_bin_ratio s) \<or> s_moving_level s < 0"

definition sample_strong :: "sens_cfg \<Rightarrow> motion_stats \<Rightarrow> bool" where
  "sample_strong c s \<longleftrightarrow> fp_le (c_trigger c) (s_bin_ratio s) \<or>
     (c_level_boost c \<noteq> 0 \<and> s_moving_level s \<ge> 2 \<and>
      fp_le (fp_half (c_trigger c)) (s_bin_ratio s))"

definition sample_quiet :: "sens_cfg \<Rightarrow> motion_stats \<Rightarrow> bool" where
  "sample_quiet c s \<longleftrightarrow> fp_le (s_bin_ratio s) (c_release c) \<and>
     (c_require_zero c = 0 \<or> s_moving_level s = 0)"

text \<open>The second component of the result is the transition: START 1, STOP -1, none 0.\<close>

definition motion_update ::
  "motion_detector \<Rightarrow> sens_cfg \<Rightarrow> motion_stats option \<Rightarrow> int \<Rightarrow> motion_detector \<times> int" where
  "motion_update d c so now =
     (case so of
        None \<Rightarrow> (d\<lparr>d_positives := 0, d_quiet_since := -1\<rparr>, 0)
      | Some s \<Rightarrow>
          if stats_bad s then (d\<lparr>d_positives := 0, d_quiet_since := -1\<rparr>, 0)
          else if \<not> d_active d then
            (let p = (if sample_strong c s then d_positives d + 1 else 0);
                 d1 = d\<lparr>d_positives := p\<rparr>
             in if p \<ge> c_confirm_samples c
                then (d1\<lparr>d_active := True, d_quiet_since := -1\<rparr>, 1)
                else (d1, 0))
          else if \<not> sample_quiet c s then (d\<lparr>d_quiet_since := -1\<rparr>, 0)
          else
            (let q = (if d_quiet_since d < 0 then now else d_quiet_since d)
             in if now - q \<ge> c_quiet_ms c
                then (d\<lparr>d_active := False, d_positives := 0, d_quiet_since := -1\<rparr>, -1)
                else (d\<lparr>d_quiet_since := q\<rparr>, 0)))"

text \<open>The detector after a history of observations, from the initial state of \<open>main\<close>.\<close>

definition detector_init :: motion_detector where
  "detector_init = \<lparr>d_active = False, d_positives = 0, d_quiet_since = -1\<rparr>"

type_synonym observation = "motion_stats option \<times> int"

definition detector_after :: "sens_cfg \<Rightarrow> observation list \<Rightarrow> motion_detector" where
  "detector_after c obs = foldl (\<lambda>d (s, now). fst (motion_update d c s now)) detector_init obs"

definition transition_at :: "sens_cfg \<Rightarrow> observation list \<Rightarrow> observation \<Rightarrow> int" where
  "transition_at c obs ob = snd (motion_update (detector_after c obs) c (fst ob) (snd ob))"

section \<open>Auxiliary notions of the properties\<close>

definition obs_strong :: "sens_cfg \<Rightarrow> observation \<Rightarrow> bool" where
  "obs_strong c ob \<longleftrightarrow> (\<exists>s. fst ob = Some s \<and> \<not> stats_bad s \<and> sample_strong c s)"

definition obs_quiet :: "sens_cfg \<Rightarrow> observation \<Rightarrow> bool" where
  "obs_quiet c ob \<longleftrightarrow> (\<exists>s. fst ob = Some s \<and> \<not> stats_bad s \<and> sample_quiet c s)"

definition trailing :: "('a \<Rightarrow> bool) \<Rightarrow> 'a list \<Rightarrow> 'a list" where
  "trailing P xs = rev (takeWhile P (rev xs))"

lemma trailing_snoc: "trailing P (xs @ [x]) = (if P x then trailing P xs @ [x] else [])"
  by (simp add: trailing_def)

lemma trailing_all: "x \<in> set (trailing P xs) \<Longrightarrow> P x"
  by (auto simp: trailing_def dest: set_takeWhileD)

lemma trailing_suffix: "\<exists>ys. xs = ys @ trailing P xs"
  by (metis rev_append rev_rev_ident takeWhile_dropWhile_id trailing_def)

lemma detector_after_Nil [simp]: "detector_after c [] = detector_init"
  by (simp add: detector_after_def)

lemma detector_after_snoc:
  "detector_after c (obs @ [ob]) = fst (motion_update (detector_after c obs) c (fst ob) (snd ob))"
  by (simp add: detector_after_def split_def)

section \<open>Single steps\<close>

lemma motion_update_result: "snd (motion_update d c so now) \<in> {-1, 0, 1}"
  by (auto simp: motion_update_def Let_def split: option.splits)

lemma motion_update_active:
  "d_active (fst (motion_update d c so now)) \<longleftrightarrow>
     (snd (motion_update d c so now) = 1 \<or>
      (d_active d \<and> snd (motion_update d c so now) = 0))"
  by (auto simp: motion_update_def Let_def split: option.splits)

lemma motion_update_start_only_idle: "snd (motion_update d c so now) = 1 \<Longrightarrow> \<not> d_active d"
  by (auto simp: motion_update_def Let_def split: option.splits if_splits)

lemma motion_update_stop_only_active: "snd (motion_update d c so now) = -1 \<Longrightarrow> d_active d"
  by (auto simp: motion_update_def Let_def split: option.splits if_splits)

lemma motion_update_invalid:
  "so = None \<or> (\<exists>s. so = Some s \<and> stats_bad s) \<Longrightarrow>
   motion_update d c so now = (d\<lparr>d_positives := 0, d_quiet_since := -1\<rparr>, 0)"
  by (auto simp: motion_update_def)

section \<open>The detector explains itself by its history\<close>

text \<open>
  What the counters stand for: \<open>positives\<close> never exceeds the number of strong samples at the
  end of the history, and \<open>quiet_since\<close> is the time of a sample of the quiet run at its end.
\<close>

definition history_inv :: "sens_cfg \<Rightarrow> observation list \<Rightarrow> motion_detector \<Rightarrow> bool" where
  [inv_defs]: "history_inv c obs d \<longleftrightarrow>
     0 \<le> d_positives d \<and>
     (\<not> d_active d \<longrightarrow> d_positives d \<le> int (length (trailing (obs_strong c) obs))) \<and>
     (d_active d \<and> 0 \<le> d_quiet_since d \<longrightarrow>
        (\<exists>ob \<in> set (trailing (obs_quiet c) obs). snd ob = d_quiet_since d))"

lemma history_inv_step:
  assumes "history_inv c obs d"
  shows "history_inv c (obs @ [(so, now)]) (fst (motion_update d c so now))"
proof (cases "so = None \<or> (\<exists>s. so = Some s \<and> stats_bad s)")
  case True
  then show ?thesis by (simp add: motion_update_invalid history_inv_def)
next
  case False
  then obtain s where s: "so = Some s" "\<not> stats_bad s" by auto
  then have str: "obs_strong c (Some s, now) = sample_strong c s"
    and qui: "obs_quiet c (Some s, now) = sample_quiet c s"
    by (auto simp: obs_strong_def obs_quiet_def)
  show ?thesis
    using assms s(2)
    by (auto simp: motion_update_def history_inv_def Let_def trailing_snoc str qui s(1))
qed

lemma history_inv_after: "history_inv c obs (detector_after c obs)"
proof (induction obs rule: rev_induct)
  case Nil
  then show ?case by (simp add: history_inv_def detector_init_def trailing_def)
next
  case (snoc ob obs)
  then show ?case using history_inv_step [of c obs _ "fst ob" "snd ob"]
    by (simp add: detector_after_snoc)
qed

text \<open>
  C16.  A START is confirmed: when an observation makes the detector report START, it and the
  observations right before it are at least \<open>confirm_samples\<close> consecutive valid samples that
  reach the (possibly boosted) trigger.
\<close>

theorem start_is_confirmed:
  assumes "transition_at c obs ob = 1"
  shows "c_confirm_samples c \<le> int (length (trailing (obs_strong c) (obs @ [ob])))"
proof -
  obtain so now where ob: "ob = (so, now)" by force
  let ?d = "detector_after c obs"
  have inv: "history_inv c obs ?d" by (rule history_inv_after)
  from assms obtain s where s: "so = Some s" "\<not> stats_bad s" "\<not> d_active ?d"
    and p: "c_confirm_samples c \<le> (if sample_strong c s then d_positives ?d + 1 else 0)"
    by (auto simp: transition_at_def ob motion_update_def Let_def split: option.splits if_splits)
  have "obs_strong c ob = sample_strong c s" using s by (auto simp: obs_strong_def ob)
  then show ?thesis using inv s(3) p by (auto simp: history_inv_def trailing_snoc)
qed

text \<open>
  C17.  A STOP is earned: when an observation makes the detector report STOP, every observation
  since some observation at least \<open>quiet_ms\<close> earlier was valid and quiet (ratio at most
  \<open>release\<close>, level zero where required).
\<close>

theorem stop_after_quiet_period:
  assumes "transition_at c obs ob = -1"
  shows "\<exists>q \<in> set (trailing (obs_quiet c) (obs @ [ob])). c_quiet_ms c \<le> snd ob - snd q"
proof -
  obtain so now where ob: "ob = (so, now)" by force
  let ?d = "detector_after c obs"
  have inv: "history_inv c obs ?d" by (rule history_inv_after)
  from assms obtain s where s: "so = Some s" "\<not> stats_bad s" "d_active ?d" "sample_quiet c s"
    and q: "c_quiet_ms c \<le> now - (if d_quiet_since ?d < 0 then now else d_quiet_since ?d)"
    by (auto simp: transition_at_def ob motion_update_def Let_def split: option.splits if_splits)
  have "obs_quiet c ob" using s by (auto simp: obs_quiet_def ob)
  then have tr: "trailing (obs_quiet c) (obs @ [ob]) = trailing (obs_quiet c) obs @ [ob]"
    by (simp add: trailing_snoc)
  show ?thesis
  proof (cases "d_quiet_since ?d < 0")
    case True
    with q show ?thesis unfolding tr by (intro bexI [of _ ob]) (simp_all add: ob)
  next
    case False
    with inv s(3) obtain r where "r \<in> set (trailing (obs_quiet c) obs)" "snd r = d_quiet_since ?d"
      by (auto simp: history_inv_def)
    with False q show ?thesis by (intro bexI [of _ r]) (simp_all add: tr, simp add: ob)
  qed
qed

section \<open>Transitions over a whole history\<close>

fun transitions :: "sens_cfg \<Rightarrow> observation list \<Rightarrow> observation list \<Rightarrow> int list" where
  "transitions c obs [] = []"
| "transitions c obs (ob # rest) = transition_at c obs ob # transitions c (obs @ [ob]) rest"

lemma transition_at_sum:
  "of_bool (d_active (detector_after c (obs @ [ob]))) =
     of_bool (d_active (detector_after c obs)) + transition_at c obs ob"
  using motion_update_result [of "detector_after c obs" c "fst ob" "snd ob"]
    motion_update_active [of "detector_after c obs" c "fst ob" "snd ob"]
    motion_update_start_only_idle [of "detector_after c obs" c "fst ob" "snd ob"]
    motion_update_stop_only_active [of "detector_after c obs" c "fst ob" "snd ob"]
  by (auto simp: detector_after_snoc transition_at_def)

lemma transitions_sum:
  "of_bool (d_active (detector_after c (obs @ rest))) =
     of_bool (d_active (detector_after c obs)) + sum_list (transitions c obs rest)"
proof (induction rest arbitrary: obs)
  case (Cons ob rest)
  show ?case using Cons.IH [of "obs @ [ob]"] transition_at_sum [of c obs ob] by simp
qed simp

text \<open>
   The reports alternate: for every history the number of STARTs minus the number of STOPs is
  1 exactly while the detector is active and 0 otherwise, so two STARTs never follow each other
  without a STOP between them, and no STOP comes first.
\<close>

theorem starts_and_stops_alternate:
  "sum_list (transitions c [] obs) = of_bool (d_active (detector_after c obs)) \<and>
   set (transitions c [] obs) \<subseteq> {-1, 0, 1}"
proof -
  have "set (transitions c pre obs) \<subseteq> {-1, 0, 1}" for pre
    by (induction obs arbitrary: pre)
       (use motion_update_result in \<open>auto simp: transition_at_def\<close>)
  moreover have "sum_list (transitions c [] obs) = of_bool (d_active (detector_after c obs))"
    using transitions_sum [of c "[]" obs] by (simp add: detector_init_def)
  ultimately show ?thesis by blast
qed

lemma strong_run_counts:
  assumes "\<not> d_active (detector_after c obs)" "\<forall>ob \<in> set ys. obs_strong c ob"
    "\<forall>k < length ys. transition_at c (obs @ take k ys) (ys ! k) \<noteq> 1"
  shows "\<not> d_active (detector_after c (obs @ ys)) \<and>
    d_positives (detector_after c (obs @ ys)) = d_positives (detector_after c obs) + int (length ys)"
  using assms(2,3)
proof (induction ys rule: rev_induct)
  case Nil
  then show ?case using assms(1) by simp
next
  case (snoc y ys)
  let ?d = "detector_after c (obs @ ys)"
  have pre: "\<forall>k < length ys. transition_at c (obs @ take k ys) (ys ! k) \<noteq> 1"
  proof (intro allI impI)
    fix k assume "k < length ys"
    then show "transition_at c (obs @ take k ys) (ys ! k) \<noteq> 1"
      using snoc.prems(2) [rule_format, of k] by (simp add: nth_append)
  qed
  have IH: "\<not> d_active ?d"
    "d_positives ?d = d_positives (detector_after c obs) + int (length ys)"
    using snoc.IH [OF _ pre] snoc.prems(1) by auto
  obtain s where s: "fst y = Some s" "\<not> stats_bad s" "sample_strong c s"
    using snoc.prems(1) by (auto simp: obs_strong_def)
  have "transition_at c (obs @ ys) y \<noteq> 1"
    using snoc.prems(2) [rule_format, of "length ys"] by simp
  then have "d_positives ?d + 1 < c_confirm_samples c"
    using IH(1) s by (auto simp: transition_at_def motion_update_def Let_def split: if_splits)
  then show ?case
    using IH s
    by (simp add: detector_after_snoc motion_update_def Let_def flip: append_assoc)
qed

text \<open>
  Motion is not missed: from any history that leaves the detector idle,
  \<open>confirm_samples\<close> consecutive valid strong samples make one of them report START.
\<close>

theorem strong_run_starts:
  assumes "\<not> d_active (detector_after c obs)" "\<forall>ob \<in> set ys. obs_strong c ob"
    "c_confirm_samples c = int (length ys)" "ys \<noteq> []"
  shows "\<exists>k < length ys. transition_at c (obs @ take k ys) (ys ! k) = 1"
proof (rule ccontr)
  assume "\<not> ?thesis"
  then have no: "\<forall>k < length ys. transition_at c (obs @ take k ys) (ys ! k) \<noteq> 1" by blast
  let ?n = "length ys - 1"
  have n: "?n < length ys" using assms(4) by simp
  let ?pre = "take ?n ys"
  have len: "length ?pre = ?n" by simp
  have pre: "\<forall>k < length ?pre. transition_at c (obs @ take k ?pre) (?pre ! k) \<noteq> 1"
  proof (intro allI impI)
    fix k assume "k < length ?pre"
    then have "k < ?n" by simp
    then have eq: "take k ?pre = take k ys" "?pre ! k = ys ! k" by (simp_all add: min_def)
    show "transition_at c (obs @ take k ?pre) (?pre ! k) \<noteq> 1"
      unfolding eq using no \<open>k < ?n\<close> by simp
  qed
  have str: "\<forall>ob \<in> set ?pre. obs_strong c ob" using assms(2) by (meson in_set_takeD)
  have cnt: "\<not> d_active (detector_after c (obs @ ?pre))"
    "d_positives (detector_after c (obs @ ?pre)) = d_positives (detector_after c obs) + int ?n"
    using strong_run_counts [OF assms(1) str pre] unfolding len by blast+
  obtain s where s: "fst (ys ! ?n) = Some s" "\<not> stats_bad s" "sample_strong c s"
    using assms(2) [rule_format, OF nth_mem [OF n]] by (auto simp: obs_strong_def)
  have "0 \<le> d_positives (detector_after c obs)"
    using history_inv_after [of c obs] by (simp add: history_inv_def)
  then have "c_confirm_samples c \<le> d_positives (detector_after c (obs @ ?pre)) + 1"
    using cnt(2) assms(3) n by linarith
  then have "transition_at c (obs @ ?pre) (ys ! ?n) = 1"
    using cnt(1) s by (simp add: transition_at_def motion_update_def Let_def)
  then show False using no n by blast
qed

text \<open>
  Every one of the ten sensitivity presets is a valid configuration at every admissible
  polling interval.
\<close>

theorem presets_are_valid:
  "length cfgs = 10 \<and>
   (\<forall>n. 100 \<le> n \<and> n \<le> 2000 \<longrightarrow> list_all (\<lambda>c. motion_config_valid c n) cfgs)"
proof -
  have base: "list_all (\<lambda>c. motion_config_valid c 100) cfgs" by code_simp
  have "list_all (\<lambda>c. motion_config_valid c n) cfgs" if "100 \<le> n" "n \<le> 2000" for n
    using base that by (auto simp: list_all_iff motion_config_valid_def)
  moreover have "length cfgs = 10" by (simp add: cfgs_def)
  ultimately show ?thesis by blast
qed

section \<open>Witnesses\<close>

definition wit_cfg :: sens_cfg where
  "wit_cfg = \<lparr>c_trigger = Fin 5, c_release = Fin (1/2), c_confirm_samples = 2, c_quiet_ms = 100,
     c_require_zero = 1, c_level_boost = 0\<rparr>"

definition wit_obs :: "rat \<Rightarrow> int \<Rightarrow> int \<Rightarrow> observation" where
  "wit_obs r l t = (Some \<lparr>s_scene = 0, s_move = 0, s_moving_level = l, s_bin_ratio = Fin r,
     s_moving_th = 0\<rparr>, t)"

lemma start_is_confirmed_witness:
  "transition_at wit_cfg [wit_obs 7 1 0] (wit_obs 8 1 100) = 1 \<and>
   c_confirm_samples wit_cfg \<le>
     int (length (trailing (obs_strong wit_cfg) ([wit_obs 7 1 0] @ [wit_obs 8 1 100])))"
proof -
  have h: "transition_at wit_cfg [wit_obs 7 1 0] (wit_obs 8 1 100) = 1" by code_simp
  show ?thesis using h start_is_confirmed [OF h] by blast
qed

lemma stop_after_quiet_period_witness:
  "\<exists>q \<in> set (trailing (obs_quiet wit_cfg)
        ([wit_obs 7 1 0, wit_obs 8 1 100, wit_obs 0 0 200] @ [wit_obs 0 0 300])).
     c_quiet_ms wit_cfg \<le> snd (wit_obs 0 0 300) - snd q"
proof -
  have h: "transition_at wit_cfg [wit_obs 7 1 0, wit_obs 8 1 100, wit_obs 0 0 200]
      (wit_obs 0 0 300) = -1" by code_simp
  show ?thesis by (rule stop_after_quiet_period [OF h])
qed

lemma strong_run_starts_witness:
  "\<exists>k < length [wit_obs 7 1 0, wit_obs 8 1 100].
     transition_at wit_cfg ([] @ take k [wit_obs 7 1 0, wit_obs 8 1 100])
       ([wit_obs 7 1 0, wit_obs 8 1 100] ! k) = 1"
  by (rule strong_run_starts)
     (simp_all add: detector_init_def obs_strong_def wit_obs_def stats_bad_def sample_strong_def
        wit_cfg_def)

lemma presets_are_valid_witness:
  "list_all (\<lambda>c. motion_config_valid c 200) cfgs"
  using presets_are_valid by simp

end
