(* ===== verification/Motion_Delivery.thy ===== *)
theory Motion_Delivery
  imports Prelude
begin

text \<open>
  \<open>src/motiond/motiond/motion_delivery.h\<close>: delivery of motion START and STOP messages to the
  recorder's POSIX message queue without ever blocking the detector.  A queue is known by its
  device and inode, here its identity \<open>qid\<close>; the open descriptor is \<open>Some q\<close>, the closed one
  (\<open>(mqd_t)-1\<close>) is \<open>None\<close>.  What the kernel answers during one tick is the argument
  \<open>tick_env\<close>; the messages accepted by the kernel and the queues opened are the log of a step.
\<close>

section \<open>State\<close>

type_synonym qid = nat

record delivery =
  v_mq :: "qid option"
  v_name :: string
  v_path :: string
  v_enabled :: bool
  v_wanted :: bool
  v_sent :: bool
  v_start_pending :: bool
  v_reset_pending :: bool
  v_error :: "errno option"
  v_retry_after :: int
  v_check_after :: int

record tick_env =
  e_fstat_ok :: bool
  e_path_queue :: "qid option"       \<comment> \<open>the queue \<open>stat(d->path)\<close> finds\<close>
  e_open :: "errno + qid"
  e_attr :: "errno + nat"            \<comment> \<open>\<open>mq_msgsize\<close>\<close>
  e_send :: "nat \<Rightarrow> errno option"   \<comment> \<open>\<open>mq_send\<close> of the given attempt; \<open>None\<close>: accepted\<close>

datatype dv_log = Opened qid | Sent bool

section \<open>Operations\<close>

definition motion_delivery_init :: "bool \<Rightarrow> string \<Rightarrow> delivery" where
  "motion_delivery_init enabled name =
     \<lparr>v_mq = None, v_name = name, v_path = take 127 (''/dev/mqueue'' @ name), v_enabled = enabled,
      v_wanted = False, v_sent = False, v_start_pending = False, v_reset_pending = enabled,
      v_error = None, v_retry_after = 0, v_check_after = 0\<rparr>"

definition motion_delivery_pending :: "delivery \<Rightarrow> bool" where
  "motion_delivery_pending d \<longleftrightarrow> v_enabled d \<and>
     (v_mq d = None \<or> v_reset_pending d \<or> v_start_pending d \<or> v_sent d \<noteq> v_wanted d)"

definition motion_delivery_want :: "delivery \<Rightarrow> bool \<Rightarrow> delivery" where
  "motion_delivery_want d active =
     (if \<not> v_enabled d then d
      else let d1 = d\<lparr>v_wanted := active\<rparr>
           in if active \<and> \<not> v_sent d then d1\<lparr>v_start_pending := True\<rparr> else d1)"

definition motion_delivery_close :: "delivery \<Rightarrow> delivery" where
  "motion_delivery_close d = d\<lparr>v_mq := None\<rparr>"

text \<open>The message the next send carries, and the state after the kernel accepted it.\<close>

definition next_message :: "delivery \<Rightarrow> bool" where
  "next_message d = (if v_reset_pending d then False
                     else if v_start_pending d then True else v_wanted d)"

definition message_accepted :: "delivery \<Rightarrow> delivery" where
  "message_accepted d =
     (let active = next_message d; d1 = d\<lparr>v_sent := active\<rparr>
      in if v_reset_pending d then d1\<lparr>v_reset_pending := False\<rparr>
         else if active then d1\<lparr>v_start_pending := False\<rparr> else d1)"

text \<open>The bounded send loop: \<open>n\<close> attempts are left and \<open>k\<close> is the number of the next one.\<close>

fun send_loop :: "nat \<Rightarrow> nat \<Rightarrow> tick_env \<Rightarrow> delivery \<Rightarrow> delivery \<times> errno option \<times> dv_log list" where
  "send_loop 0 k e d = (d, None, [])"
| "send_loop (Suc n) k e d =
     (if \<not> motion_delivery_pending d then (d, None, [])
      else case e_send e k of
        Some err \<Rightarrow> (d, Some err, [])
      | None \<Rightarrow>
          (let (d2, r, l) = send_loop n (Suc k) e (message_accepted d)
           in (d2, r, Sent (next_message d) # l)))"

definition reconnect :: "delivery \<Rightarrow> int \<Rightarrow> errno \<Rightarrow> delivery" where
  "reconnect d now err = (motion_delivery_close d)\<lparr>v_error := Some err, v_retry_after := now + 1000\<rparr>"

text \<open>Once a second: drop the descriptor when its queue was replaced.\<close>

definition check_replaced :: "delivery \<Rightarrow> int \<Rightarrow> tick_env \<Rightarrow> delivery" where
  "check_replaced d now e =
     (case v_mq d of
        None \<Rightarrow> d
      | Some q \<Rightarrow>
          if now \<ge> v_check_after d then
            (let d1 = (if \<not> e_fstat_ok e \<or> e_path_queue e \<noteq> Some q then motion_delivery_close d else d)
             in d1\<lparr>v_check_after := now + 1000\<rparr>)
          else d)"

text \<open>The result code is 0 or -1; with -1 comes the value left in \<open>errno\<close>.\<close>

definition send_pending ::
  "delivery \<Rightarrow> int \<Rightarrow> tick_env \<Rightarrow> delivery \<times> int \<times> errno option \<times> dv_log list" where
  "send_pending d now e =
     (let (d1, r, l) = send_loop 2 0 e d
      in case r of
           None \<Rightarrow> (d1\<lparr>v_error := None\<rparr>, 0, None, l)
         | Some err \<Rightarrow>
             if err = EAGAIN \<or> err = EINTR then (d1\<lparr>v_error := Some err\<rparr>, -1, Some err, l)
             else (reconnect d1 now err, -1, Some err, l))"

definition motion_delivery_tick ::
  "delivery \<Rightarrow> int \<Rightarrow> tick_env \<Rightarrow> delivery \<times> int \<times> errno option \<times> dv_log list" where
  "motion_delivery_tick d now e =
     (if \<not> v_enabled d then (d, 0, None, [])
      else
        let d1 = check_replaced d now e in
        case v_mq d1 of
          Some _ \<Rightarrow> send_pending d1 now e
        | None \<Rightarrow>
            if now < v_retry_after d1 then (d1, -1, v_error d1, [])
            else case e_open e of
              Inl err \<Rightarrow> (reconnect d1 now err, -1, Some err, [])
            | Inr q \<Rightarrow>
                (case e_attr e of
                   Inl err \<Rightarrow> (reconnect (d1\<lparr>v_mq := Some q\<rparr>) now err, -1, Some err, [Opened q])
                 | Inr msgsize \<Rightarrow>
                     if msgsize < 16
                     then (reconnect (d1\<lparr>v_mq := Some q\<rparr>) now EMSGSIZE, -1, Some EMSGSIZE, [Opened q])
                     else
                       let d2 = d1\<lparr>v_mq := Some q, v_reset_pending := True,
                             v_start_pending := (v_start_pending d1 \<or> v_wanted d1),
                             v_check_after := now + 1000\<rparr>;
                           (d3, rc, err, l) = send_pending d2 now e
                       in (d3, rc, err, Opened q # l)))"

text \<open>A run of the component: requests of the detector and ticks, in any order.\<close>

datatype dv_event = Want bool | Tick int tick_env

fun dv_step :: "delivery \<Rightarrow> dv_event \<Rightarrow> delivery \<times> dv_log list" where
  "dv_step d (Want b) = (motion_delivery_want d b, [])"
| "dv_step d (Tick now e) = (let (d1, _, _, l) = motion_delivery_tick d now e in (d1, l))"

fun dv_run :: "delivery \<Rightarrow> dv_event list \<Rightarrow> delivery \<times> dv_log list" where
  "dv_run d [] = (d, [])"
| "dv_run d (ev # evs) =
     (let (d1, l1) = dv_step d ev; (d2, l2) = dv_run d1 evs in (d2, l1 @ l2))"

section \<open>The protocol of one connection\<close>

text \<open>
  The recorder's view: on every connection the first message is STOP and then START and STOP
  alternate.  The first argument is the last message of the present connection.
\<close>

fun session_ok :: "bool option \<Rightarrow> dv_log list \<Rightarrow> bool" where
  "session_ok s [] = True"
| "session_ok s (Opened q # l) = session_ok None l"
| "session_ok None (Sent b # l) = (\<not> b \<and> session_ok (Some b) l)"
| "session_ok (Some a) (Sent b # l) = (b \<noteq> a \<and> session_ok (Some b) l)"

fun session_after :: "bool option \<Rightarrow> dv_log list \<Rightarrow> bool option" where
  "session_after s [] = s"
| "session_after s (Opened q # l) = session_after None l"
| "session_after s (Sent b # l) = session_after (Some b) l"

lemma session_ok_append:
  "session_ok s (l @ l') \<longleftrightarrow> session_ok s l \<and> session_ok (session_after s l) l'"
  by (induction s l rule: session_ok.induct) auto

lemma session_after_append: "session_after s (l @ l') = session_after (session_after s l) l'"
  by (induction s l rule: session_after.induct) auto

definition conn_inv :: "bool option \<Rightarrow> delivery \<Rightarrow> bool" where
  [inv_defs]: "conn_inv s d \<longleftrightarrow>
     (v_mq d \<noteq> None \<longrightarrow>
        (if v_reset_pending d then s = None
         else s = Some (v_sent d) \<and> (v_start_pending d \<longrightarrow> \<not> v_sent d)))"

lemma message_accepted_mq [simp]:
  "v_mq (message_accepted d) = v_mq d" "v_enabled (message_accepted d) = v_enabled d"
  "v_wanted (message_accepted d) = v_wanted d"
  by (simp_all add: message_accepted_def Let_def)

lemma message_accepted_conn:
  assumes "conn_inv s d" "v_mq d \<noteq> None" "motion_delivery_pending d"
  shows "conn_inv (Some (next_message d)) (message_accepted d)"
    and "session_ok s [Sent (next_message d)]"
  using assms
  by (auto simp: conn_inv_def message_accepted_def next_message_def motion_delivery_pending_def
      Let_def split: if_splits)

lemma send_loop_conn:
  assumes "conn_inv s d" "v_mq d \<noteq> None" "send_loop n k e d = (d', r, l)"
  shows "conn_inv (session_after s l) d' \<and> session_ok s l \<and> v_mq d' = v_mq d"
  using assms
proof (induction n arbitrary: k d s l)
  case (Suc n)
  show ?case
  proof (cases "\<not> motion_delivery_pending d \<or> e_send e k \<noteq> None")
    case True
    then show ?thesis using Suc.prems by (auto split: if_splits)
  next
    case False
    then obtain l' where rest: "send_loop n (Suc k) e (message_accepted d) = (d', r, l')"
      and l: "l = Sent (next_message d) # l'"
      using Suc.prems(3) by (auto split: prod.splits)
    note acc = message_accepted_conn [OF Suc.prems(1,2)]
    have "conn_inv (session_after (Some (next_message d)) l') d' \<and>
        session_ok (Some (next_message d)) l' \<and> v_mq d' = v_mq d"
      using Suc.IH [OF acc(1) _ rest] False Suc.prems(2) by simp
    moreover have "session_ok s [Sent (next_message d)]" using acc(2) False by simp
    ultimately show ?thesis using session_ok_append [of s "[Sent (next_message d)]" l'] by (simp add: l)
  qed
qed simp

lemma send_loop_enabled: "send_loop n k e d = (d', r, l) \<Longrightarrow> v_enabled d' = v_enabled d \<and> v_wanted d' = v_wanted d"
  by (induction n arbitrary: k d l) (auto split: if_splits option.splits prod.splits)

lemma send_loop_length: "send_loop n k e d = (d', r, l) \<Longrightarrow> length l \<le> n"
  by (induction n arbitrary: k d l) (fastforce split: if_splits option.splits prod.splits)+

lemma send_pending_conn:
  assumes "conn_inv s d" "v_mq d \<noteq> None" "send_pending d now e = (d', rc, err, l)"
  shows "conn_inv (session_after s l) d' \<and> session_ok s l"
proof -
  obtain d1 r l1 where sl: "send_loop 2 0 e d = (d1, r, l1)" by (metis prod_cases3)
  from send_loop_conn [OF assms(1,2) sl] assms(3) show ?thesis
    by (auto simp: send_pending_def sl conn_inv_def reconnect_def motion_delivery_close_def
        split: option.splits if_splits)
qed


lemma check_replaced_fields [simp]:
  "v_enabled (check_replaced d now e) = v_enabled d"
  "v_wanted (check_replaced d now e) = v_wanted d"
  "v_retry_after (check_replaced d now e) = v_retry_after d"
  by (auto simp: check_replaced_def motion_delivery_close_def Let_def split: option.splits)

lemma check_replaced_conn: "conn_inv s d \<Longrightarrow> conn_inv s (check_replaced d now e)"
  by (auto simp: conn_inv_def check_replaced_def motion_delivery_close_def Let_def
      split: option.splits)

lemma conn_inv_closed [simp]: "v_mq d = None \<Longrightarrow> conn_inv s d"
  by (simp add: conn_inv_def)

lemma reconnect_mq [simp]: "v_mq (reconnect d now err) = None" "v_enabled (reconnect d now err) = v_enabled d"
  by (simp_all add: reconnect_def motion_delivery_close_def)

lemma tick_conn:
  assumes "conn_inv s d" "motion_delivery_tick d now e = (d', rc, err, l)"
  shows "conn_inv (session_after s l) d' \<and> session_ok s l"
proof -
  let ?d1 = "check_replaced d now e"
  have inv1: "conn_inv s ?d1" using assms(1) by (rule check_replaced_conn)
  show ?thesis
  proof (cases "\<not> v_enabled d \<or> v_mq ?d1 \<noteq> None")
    case True
    then show ?thesis
      using assms send_pending_conn [OF inv1]
      by (auto simp: motion_delivery_tick_def Let_def split: if_splits option.splits)
  next
    case False
    show ?thesis
    proof (cases "now < v_retry_after ?d1 \<or> (\<exists>x. e_open e = Inl x) \<or> (\<exists>x. e_attr e = Inl x) \<or>
        (\<exists>n < 16. e_attr e = Inr n)")
      case True
      then show ?thesis using assms(2) False inv1
        by (auto simp: motion_delivery_tick_def Let_def split: if_splits sum.splits)
    next
      case opened: False
      then obtain q n where q: "e_open e = Inr q" "e_attr e = Inr n" "\<not> n < 16"
        by (cases "e_open e"; cases "e_attr e") auto
      let ?d2 = "?d1\<lparr>v_mq := Some q, v_reset_pending := True,
          v_start_pending := (v_start_pending ?d1 \<or> v_wanted ?d1), v_check_after := now + 1000\<rparr>"
      obtain l' where sp: "send_pending ?d2 now e = (d', rc, err, l')" and l: "l = Opened q # l'"
        using assms(2) False opened q
        by (auto simp: motion_delivery_tick_def Let_def split: prod.splits)
      have "conn_inv None ?d2" by (simp add: conn_inv_def)
      from send_pending_conn [OF this _ sp] show ?thesis by (simp add: l)
    qed
  qed
qed

lemma want_conn: "conn_inv s d \<Longrightarrow> conn_inv s (motion_delivery_want d b)"
  by (auto simp: conn_inv_def motion_delivery_want_def Let_def)

lemma dv_step_conn:
  assumes "conn_inv s d" "dv_step d ev = (d', l)"
  shows "conn_inv (session_after s l) d' \<and> session_ok s l"
  using assms by (cases ev) (auto simp: want_conn tick_conn split: prod.splits)

lemma dv_run_conn:
  "conn_inv s d \<Longrightarrow> dv_run d evs = (d', l) \<Longrightarrow> conn_inv (session_after s l) d' \<and> session_ok s l"
proof (induction evs arbitrary: s d d' l)
  case (Cons ev evs)
  obtain d1 l1 where st: "dv_step d ev = (d1, l1)" by force
  obtain d2 l2 where run: "dv_run d1 evs = (d2, l2)" by force
  from Cons.prems(2) st run have eq: "d' = d2" "l = l1 @ l2" by auto
  note one = dv_step_conn [OF Cons.prems(1) st]
  with Cons.IH [OF _ run] show ?case
    by (simp add: eq session_ok_append session_after_append)
qed simp

text \<open>
  C4.  Message protocol of the recorder queue: whatever the detector asks for and however the
  kernel answers (queues replaced, opens refused, sends failing at any point), on every connection
  the first message is STOP, clearing stale motion, and after it START and STOP strictly alternate.
\<close>

theorem delivery_protocol:
  "session_ok None (snd (dv_run (motion_delivery_init enabled name) evs))"
proof -
  have "conn_inv None (motion_delivery_init enabled name)"
    by (simp add: motion_delivery_init_def)
  then show ?thesis
    using dv_run_conn [of None "motion_delivery_init enabled name" evs] by (metis prod.collapse)
qed

section \<open>Progress\<close>

text \<open>The messages a connected component still owes.\<close>

definition backlog :: "delivery \<Rightarrow> nat" where
  "backlog d = of_bool (v_reset_pending d) +
     (if v_start_pending d then 1 + of_bool (\<not> v_wanted d)
      else of_bool ((\<not> v_reset_pending d \<and> v_sent d) \<noteq> v_wanted d))"

definition burst_inv :: "delivery \<Rightarrow> bool" where
  [inv_defs]: "burst_inv d \<longleftrightarrow> (v_start_pending d \<longrightarrow> \<not> v_reset_pending d \<longrightarrow> \<not> v_sent d)"

lemma backlog_le: "backlog d \<le> 3"
  by (simp add: backlog_def)

lemma backlog_error [simp]:
  "backlog (d\<lparr>v_error := x\<rparr>) = backlog d" "burst_inv (d\<lparr>v_error := x\<rparr>) = burst_inv d"
  by (simp_all add: backlog_def burst_inv_def)

lemma pending_backlog:
  "v_enabled d \<Longrightarrow> v_mq d \<noteq> None \<Longrightarrow> burst_inv d \<Longrightarrow> motion_delivery_pending d \<longleftrightarrow> backlog d \<noteq> 0"
  by (auto simp: motion_delivery_pending_def backlog_def burst_inv_def)

lemma accepted_backlog:
  assumes "motion_delivery_pending d" "v_mq d \<noteq> None" "burst_inv d"
  shows "Suc (backlog (message_accepted d)) = backlog d" "burst_inv (message_accepted d)"
  using assms
  by (auto simp: motion_delivery_pending_def backlog_def burst_inv_def message_accepted_def
      next_message_def Let_def)

lemma send_loop_accepting:
  assumes "v_enabled d" "v_mq d \<noteq> None" "burst_inv d" "\<forall>k. e_send e k = None"
    "send_loop n k e d = (d', r, l)"
  shows "backlog d' = backlog d - n \<and> r = None \<and> burst_inv d' \<and> v_mq d' = v_mq d \<and>
    v_enabled d' \<and> v_wanted d' = v_wanted d"
  using assms
proof (induction n arbitrary: k d l)
  case (Suc n)
  show ?case
  proof (cases "motion_delivery_pending d")
    case True
    obtain l' where rest: "send_loop n (Suc k) e (message_accepted d) = (d', r, l')"
      using Suc.prems True by (auto split: prod.splits)
    show ?thesis
      using Suc.IH [OF _ _ _ _ rest] Suc.prems accepted_backlog [OF True] by auto
  next
    case False
    then show ?thesis using Suc.prems pending_backlog by auto
  qed
qed simp

definition good_env :: "qid \<Rightarrow> tick_env \<Rightarrow> bool" where
  "good_env q e \<longleftrightarrow> e_fstat_ok e \<and> e_path_queue e = Some q \<and> e_open e = Inr q \<and>
     (\<exists>n \<ge> 16. e_attr e = Inr n) \<and> (\<forall>k. e_send e k = None)"

lemma send_pending_accepting:
  assumes "v_enabled d" "v_mq d = Some q" "burst_inv d" "\<forall>k. e_send e k = None"
    "send_pending d now e = (d', rc, err, l)"
  shows "backlog d' = backlog d - 2 \<and> rc = 0 \<and> burst_inv d' \<and> v_mq d' = Some q \<and>
    v_enabled d' \<and> v_wanted d' = v_wanted d"
proof -
  obtain d1 r l1 where sl: "send_loop 2 0 e d = (d1, r, l1)" by (metis prod_cases3)
  have mq: "v_mq d \<noteq> None" using assms(2) by simp
  note acc = send_loop_accepting [OF assms(1) mq assms(3,4) sl]
  with assms(5) have "d' = d1\<lparr>v_error := None\<rparr>" "rc = 0" by (auto simp: send_pending_def sl)
  then show ?thesis using acc assms(2) by simp
qed

lemma good_tick:
  assumes d: "v_enabled d" "v_mq d = None \<and> v_retry_after d \<le> now \<or> v_mq d = Some q" "burst_inv d"
    and e: "good_env q e" and t: "motion_delivery_tick d now e = (d', rc, err, l)"
  shows "rc = 0 \<and> burst_inv d' \<and> v_mq d' = Some q \<and> v_enabled d' \<and> v_wanted d' = v_wanted d \<and>
    backlog d' \<le> (if v_mq d = None then 1 else backlog d - 2)"
proof (cases "v_mq d")
  case None
  let ?d2 = "d\<lparr>v_mq := Some q, v_reset_pending := True,
      v_start_pending := (v_start_pending d \<or> v_wanted d), v_check_after := now + 1000\<rparr>"
  obtain l' where sp: "send_pending ?d2 now e = (d', rc, err, l')"
    using t None d e
    by (auto simp: motion_delivery_tick_def check_replaced_def good_env_def Let_def
        split: prod.splits)
  have "burst_inv ?d2" by (simp add: burst_inv_def)
  then show ?thesis
    using send_pending_accepting [OF _ _ _ _ sp] d e None backlog_le [of ?d2]
    by (auto simp: good_env_def)
next
  case (Some p)
  with d have p: "p = q" by simp
  let ?d1 = "check_replaced d now e"
  have d1: "v_mq ?d1 = Some q" "backlog ?d1 = backlog d" "burst_inv ?d1"
    using Some p e d(3)
    by (auto simp: check_replaced_def good_env_def backlog_def burst_inv_def Let_def)
  have sp: "send_pending ?d1 now e = (d', rc, err, l)"
    using t d(1) d1(1) by (simp add: motion_delivery_tick_def Let_def)
  show ?thesis
    using send_pending_accepting [OF _ d1(1) d1(3) _ sp] d(1) e Some d1(2)
    by (auto simp: good_env_def)
qed


lemma burst_inv_init: "burst_inv (motion_delivery_init enabled name)"
  by (simp add: burst_inv_def motion_delivery_init_def)

text \<open>
  A short burst is not lost: when the recorder knows the camera as idle, a motion that starts
  and ends before the next tick is still delivered, as START followed by STOP, in that tick.
\<close>

theorem short_burst_is_delivered:
  assumes "v_enabled d" "v_mq d = Some q" "\<not> motion_delivery_pending d" "\<not> v_sent d" "good_env q e"
  shows "\<exists>d'. motion_delivery_tick (motion_delivery_want (motion_delivery_want d True) False) now e =
    (d', 0, None, [Sent True, Sent False]) \<and> \<not> motion_delivery_pending d'"
  using assms
  by (auto simp: motion_delivery_tick_def motion_delivery_want_def motion_delivery_pending_def
      check_replaced_def send_pending_def good_env_def message_accepted_def next_message_def
      Let_def numeral_2_eq_2 split: option.splits)

lemma send_pending_failed:
  assumes "v_enabled d" "send_pending d now e = (d', rc, err, l)" "rc \<noteq> 0"
  shows "rc = -1 \<and> motion_delivery_pending d'"
proof -
  have fail: "send_loop n k e x = (x', Some r, m) \<Longrightarrow> motion_delivery_pending x'" for n k x x' r m
    by (induction n arbitrary: k x m) (auto split: if_splits option.splits prod.splits)
  obtain d1 r l1 where sl: "send_loop 2 0 e d = (d1, r, l1)" by (metis prod_cases3)
  have en: "v_enabled d1" using send_loop_enabled [OF sl] assms(1) by simp
  show ?thesis
    using assms fail [of 2 0 d d1 _ l1] en
    by (auto simp: send_pending_def sl motion_delivery_pending_def split: option.splits if_splits)
qed

text \<open>
  No failure forgets a message: a tick that reports an error has result -1 and the component
  still counts as pending, so the request is retried; and a tick sends at most two messages.
\<close>

theorem failed_tick_stays_pending:
  assumes "motion_delivery_tick d now e = (d', rc, err, l)"
  shows "(rc \<noteq> 0 \<longrightarrow> rc = -1 \<and> motion_delivery_pending d') \<and>
    length (filter (\<lambda>x. \<exists>b. x = Sent b) l) \<le> 2"
proof
  show "rc \<noteq> 0 \<longrightarrow> rc = -1 \<and> motion_delivery_pending d'"
  proof
    assume rc: "rc \<noteq> 0"
    have en: "v_enabled d" using assms rc by (auto simp: motion_delivery_tick_def split: if_splits)
    have closed: "v_enabled x \<Longrightarrow> v_mq x = None \<Longrightarrow> motion_delivery_pending x" for x
      by (simp add: motion_delivery_pending_def)
    show "rc = -1 \<and> motion_delivery_pending d'"
      using assms rc en
      by (auto simp: motion_delivery_tick_def Let_def closed
          split: option.splits if_splits sum.splits prod.splits
          dest!: send_pending_failed [rotated 1, OF _ rc])
  qed
  have sp: "send_pending x t e = (y, r, er, m) \<Longrightarrow> length (filter (\<lambda>x. \<exists>b. x = Sent b) m) \<le> 2"
    for x t y r er m
    by (auto simp: send_pending_def split: prod.splits option.splits if_splits
        dest!: send_loop_length intro: order_trans [OF length_filter_le])
  show "length (filter (\<lambda>x. \<exists>b. x = Sent b) l) \<le> 2"
    using assms
    by (auto simp: motion_delivery_tick_def Let_def
        split: option.splits if_splits sum.splits prod.splits dest: sp)
qed


section \<open>Witnesses\<close>

definition wit_env :: "qid \<Rightarrow> tick_env" where
  "wit_env q = \<lparr>e_fstat_ok = True, e_path_queue = Some q, e_open = Inr q, e_attr = Inr 512,
     e_send = (\<lambda>k. None)\<rparr>"

lemmas tick_eval = motion_delivery_tick_def motion_delivery_init_def motion_delivery_want_def
  motion_delivery_pending_def check_replaced_def send_pending_def message_accepted_def
  next_message_def wit_env_def good_env_def burst_inv_def Let_def numeral_2_eq_2


lemma short_burst_is_delivered_witness:
  "\<exists>d d'. motion_delivery_tick (motion_delivery_want (motion_delivery_want d True) False) 105
      (wit_env 3) = (d', 0, None, [Sent True, Sent False])"
proof -
  let ?d = "fst (motion_delivery_tick (motion_delivery_init True ''/q'') 5 (wit_env 3))"
  have "\<exists>d'. motion_delivery_tick (motion_delivery_want (motion_delivery_want ?d True) False) 105
      (wit_env 3) = (d', 0, None, [Sent True, Sent False]) \<and> \<not> motion_delivery_pending d'"
    by (rule short_burst_is_delivered [of _ 3]) (simp_all add: tick_eval)
  then show ?thesis by blast
qed

lemma failed_tick_stays_pending_witness:
  "motion_delivery_pending
     (fst (motion_delivery_tick (motion_delivery_init True ''/q'') 5
        ((wit_env 3)\<lparr>e_send := (\<lambda>k. Some EAGAIN)\<rparr>)))"
proof -
  obtain d rc er l where t: "motion_delivery_tick (motion_delivery_init True ''/q'') 5
      ((wit_env 3)\<lparr>e_send := (\<lambda>k. Some EAGAIN)\<rparr>) = (d, rc, er, l)"
    by (metis prod_cases4)
  then have "rc \<noteq> 0" by (auto simp: tick_eval)
  with failed_tick_stays_pending [OF t] show ?thesis by (simp add: t)
qed

end
