(* ===== verification/Bounded_Log.thy ===== *)
theory Bounded_Log
  imports Prelude
begin

text \<open>
  The ring buffers of the motion history (512 events) and of the motion levels (512 samples):
  the contents of a ring, the push both components write out by hand, and the contract of a log
  that keeps the latest \<open>cap\<close> accepted entries.  The contract is a locale; the two components
  interpret it on their own operations.
\<close>

definition last_n :: "nat \<Rightarrow> 'a list \<Rightarrow> 'a list" where
  "last_n n xs = drop (length xs - n) xs"

definition ring_contents :: "nat \<Rightarrow> nat \<Rightarrow> 'a list \<Rightarrow> 'a list" where
  "ring_contents first count slots =
     map (\<lambda>i. slots ! ((first + i) mod length slots)) [0..<count]"

definition ring_wf :: "nat \<Rightarrow> nat \<Rightarrow> nat \<Rightarrow> 'a list \<Rightarrow> bool" where
  "ring_wf cap first count slots \<longleftrightarrow> length slots = cap \<and> first < cap \<and> count \<le> cap"

lemma last_n_short: "length xs \<le> n \<Longrightarrow> last_n n xs = xs"
  by (simp add: last_n_def)

lemma length_last_n [simp]: "length (last_n n xs) = min n (length xs)"
  by (simp add: last_n_def)

lemma last_n_append: "last_n n (last_n n xs @ ys) = last_n n (xs @ ys)"
  by (cases "length xs \<le> n") (auto simp: last_n_def add.commute)

lemma length_ring_contents [simp]: "length (ring_contents f c s) = c"
  by (simp add: ring_contents_def)

lemma ring_contents_nth: "i < c \<Longrightarrow> ring_contents f c s ! i = s ! ((f + i) mod length s)"
  by (simp add: ring_contents_def)

text \<open>Distinct offsets below the capacity are distinct slots.\<close>

lemma ring_slot_inj:
  assumes "i < cap" "j < cap" "(f + i) mod cap = (f + j) mod cap"
  shows "i = (j :: nat)"
proof -
  have *: "a = b" if "a \<le> b" "b < cap" "(f + a) mod cap = (f + b) mod cap" for a b :: nat
  proof -
    have "cap dvd (f + b) - (f + a)"
      using that(3) mod_eq_dvd_iff_nat [of "f + a" "f + b" cap] that(1) by simp
    then have "cap dvd b - a" by simp
    then show ?thesis using that(1,2) by (metis diff_is_0_eq' dvd_imp_le le_antisym less_imp_diff_less
          not_less zero_less_diff leD)
  qed
  show ?thesis using * [of i j] * [of j i] assms by (metis nat_le_linear)
qed

lemma ring_contents_append:
  assumes "ring_wf cap f c s" "c < cap"
  shows "ring_contents f (Suc c) (s[(f + c) mod cap := e]) = ring_contents f c s @ [e]"
proof (rule nth_equalityI)
  fix i assume "i < length (ring_contents f (Suc c) (s[(f + c) mod cap := e]))"
  then have i: "i < Suc c" by simp
  have len: "length s = cap" using assms by (simp add: ring_wf_def)
  show "ring_contents f (Suc c) (s[(f + c) mod cap := e]) ! i = (ring_contents f c s @ [e]) ! i"
  proof (cases "i = c")
    case True
    then show ?thesis using assms(2) len by (simp add: ring_contents_nth nth_append)
  next
    case False
    then have "(f + i) mod cap \<noteq> (f + c) mod cap"
      using ring_slot_inj [of i cap c f] i assms(2) by auto
    then show ?thesis using False i len by (simp add: ring_contents_nth nth_append)
  qed
qed simp

lemma ring_contents_drop_first:
  assumes "ring_wf cap f c s" "0 < c"
  shows "ring_contents ((f + 1) mod cap) (c - 1) s = tl (ring_contents f c s)"
proof (rule nth_equalityI)
  fix i assume "i < length (ring_contents ((f + 1) mod cap) (c - 1) s)"
  then show "ring_contents ((f + 1) mod cap) (c - 1) s ! i = tl (ring_contents f c s) ! i"
    using assms by (simp add: ring_contents_nth nth_tl mod_simps ring_wf_def)
qed simp

text \<open>The push: drop the oldest entry of a full ring, then write behind the last.\<close>

definition ring_push :: "nat \<Rightarrow> 'a \<Rightarrow> nat \<times> nat \<times> 'a list \<Rightarrow> nat \<times> nat \<times> 'a list" where
  "ring_push cap e r =
     (case r of (f, c, s) \<Rightarrow>
        let (f1, c1) = (if c = cap then ((f + 1) mod cap, c - 1) else (f, c))
        in (f1, c1 + 1, s[(f1 + c1) mod cap := e]))"

lemma ring_push_correct:
  assumes "ring_wf cap f c s" "0 < cap" "ring_push cap e (f, c, s) = (f', c', s')"
  shows "ring_wf cap f' c' s' \<and>
    ring_contents f' c' s' = last_n cap (ring_contents f c s @ [e])"
proof (cases "c = cap")
  case True
  have wf: "ring_wf cap ((f + 1) mod cap) (c - 1) s" using assms True by (simp add: ring_wf_def)
  have eqs: "f' = (f + 1) mod cap" "c' = Suc (c - 1)" "s' = s[(f' + (c - 1)) mod cap := e]"
    using assms(3) True by (auto simp: ring_push_def Let_def)
  have "ring_contents f' c' s' = ring_contents ((f + 1) mod cap) (c - 1) s @ [e]"
    unfolding eqs using ring_contents_append [OF wf, of e] assms(2) True by simp
  also have "\<dots> = tl (ring_contents f c s) @ [e]"
    using ring_contents_drop_first [OF assms(1)] assms(2) True by simp
  also have "\<dots> = last_n cap (ring_contents f c s @ [e])"
    using True assms(2) by (simp add: last_n_def drop_Suc tl_append split: list.split)
  finally show ?thesis using assms True eqs by (simp add: ring_wf_def)
next
  case False
  then have "f' = f" "c' = Suc c" "s' = s[(f + c) mod cap := e]"
    using assms(3) by (auto simp: ring_push_def Let_def)
  then show ?thesis
    using assms False ring_contents_append [OF assms(1), of e]
    by (simp add: ring_wf_def last_n_short)
qed

section \<open>The contract of a bounded log\<close>

fun accepted :: "('e \<Rightarrow> 'h \<Rightarrow> bool) \<Rightarrow> ('e \<Rightarrow> 'h \<Rightarrow> 'h) \<Rightarrow> 'e list \<Rightarrow> 'h \<Rightarrow> 'e list" where
  "accepted acc add [] h = []"
| "accepted acc add (e # es) h = (if acc e h then [e] else []) @ accepted acc add es (add e h)"

locale bounded_log =
  fixes contents :: "'h \<Rightarrow> 'e list"
    and wf :: "'h \<Rightarrow> bool"
    and acc :: "'e \<Rightarrow> 'h \<Rightarrow> bool"
    and add :: "'e \<Rightarrow> 'h \<Rightarrow> 'h"
    and cap :: nat
  assumes contents_bound: "wf h \<Longrightarrow> length (contents h) \<le> cap"
    and add_wf: "wf h \<Longrightarrow> wf (add e h)"
    and add_contents: "wf h \<Longrightarrow>
      contents (add e h) = (if acc e h then last_n cap (contents h @ [e]) else contents h)"
begin

lemma adds_wf: "wf h \<Longrightarrow> wf (fold add es h)"
  by (induction es arbitrary: h) (auto simp: add_wf)

lemma adds_contents:
  "wf h \<Longrightarrow> contents (fold add es h) = last_n cap (contents h @ accepted acc add es h)"
proof (induction es arbitrary: h)
  case Nil
  then show ?case using contents_bound [of h] by (simp add: last_n_short)
next
  case (Cons e es)
  show ?case
    using Cons.IH [OF add_wf [OF Cons.prems, of e]] Cons.prems
      last_n_append [of cap "contents h @ [e]" "accepted acc add es (add e h)"]
    by (simp add: add_contents)
qed

lemma latest_is_kept:
  assumes "wf h" "acc e h" "0 < cap"
  shows "last (contents (add e h)) = e"
  using assms by (simp add: add_contents last_n_def last_drop)

end

end
