(* ===== verification/Seqlock.thy ===== *)
theory Seqlock
  imports Prelude
begin

text \<open>
  The sequence lock by which one writer publishes a block of shared memory to readers that never
  wait: \<open>motion_metadata_events.c\<close>, \<open>motion_metadata_levels.c\<close>, \<open>motion_map_y623.c\<close>,
  \<open>motion_iva_y28ga.c\<close> (writers) and the bounded readers of \<open>motion_mask.h\<close>,
  \<open>motion_ivactl.c\<close> and the two metadata files.  Memory is a list of cells; the writer makes the
  generation odd, writes cell by cell, and makes it even again, while a reader copies cell by cell
  between two loads of the generation.  The steps of both interleave in any order, with the
  sequentially consistent meaning the fences of the sources give them.  The generation has 32 bits
  and wraps; the number of commits is a ghost that does not wrap.
\<close>

datatype 'a writer_pc = WIdle | WBusy nat "'a list"

text \<open>The ghost \<open>nat\<close> of a reader: the number of commits when it loaded the generation, and at
  the end how many commits happened since.\<close>

datatype 'a reader_pc = RIdle | RCopy u32 nat "'a list" | RDone "'a list" nat

record 'a seqlock =
  q_gen :: u32
  q_mem :: "'a list"
  q_writer :: "'a writer_pc"
  q_reader :: "'a reader_pc"
  q_commits :: nat
  q_committed :: "'a list list"

definition seqlock_init :: "'a list \<Rightarrow> 'a seqlock" where
  "seqlock_init mem = \<lparr>q_gen = 0, q_mem = mem, q_writer = WIdle, q_reader = RIdle,
     q_commits = 0, q_committed = [mem]\<rparr>"

inductive seq_step :: "'a seqlock \<Rightarrow> 'a seqlock \<Rightarrow> bool" where
  w_begin: "q_writer s = WIdle \<Longrightarrow> length new = length (q_mem s) \<Longrightarrow>
     seq_step s (s\<lparr>q_gen := q_gen s + 1, q_writer := WBusy 0 new\<rparr>)"
| w_cell: "q_writer s = WBusy i new \<Longrightarrow> i < length new \<Longrightarrow>
     seq_step s (s\<lparr>q_mem := (q_mem s)[i := new ! i], q_writer := WBusy (Suc i) new\<rparr>)"
| w_commit: "q_writer s = WBusy i new \<Longrightarrow> i = length new \<Longrightarrow>
     seq_step s (s\<lparr>q_gen := q_gen s + 1, q_writer := WIdle, q_commits := Suc (q_commits s),
       q_committed := q_mem s # q_committed s\<rparr>)"
| r_load: "q_reader s = RIdle \<Longrightarrow> q_gen s AND 1 = 0 \<Longrightarrow>
     seq_step s (s\<lparr>q_reader := RCopy (q_gen s) (q_commits s) []\<rparr>)"
| r_cell: "q_reader s = RCopy g c buf \<Longrightarrow> length buf < length (q_mem s) \<Longrightarrow>
     seq_step s (s\<lparr>q_reader := RCopy g c (buf @ [q_mem s ! length buf])\<rparr>)"
| r_accept: "q_reader s = RCopy g c buf \<Longrightarrow> length buf = length (q_mem s) \<Longrightarrow> q_gen s = g \<Longrightarrow>
     seq_step s (s\<lparr>q_reader := RDone buf (q_commits s - c)\<rparr>)"
| r_retry: "q_reader s = RCopy g c buf \<Longrightarrow> length buf = length (q_mem s) \<Longrightarrow> q_gen s \<noteq> g \<Longrightarrow>
     seq_step s (s\<lparr>q_reader := RIdle\<rparr>)"
| r_again: "q_reader s = RDone buf n \<Longrightarrow> seq_step s (s\<lparr>q_reader := RIdle\<rparr>)"

inductive seq_reachable :: "'a list \<Rightarrow> 'a seqlock \<Rightarrow> bool" for mem where
  start: "seq_reachable mem (seqlock_init mem)"
| step: "seq_reachable mem s \<Longrightarrow> seq_step s t \<Longrightarrow> seq_reachable mem t"

section \<open>Invariant\<close>

text \<open>The number of commits after which the 32-bit generation repeats.\<close>

definition gen_span :: nat where "gen_span = 2 ^ 31"

definition writer_busy :: "'a seqlock \<Rightarrow> nat" where
  "writer_busy s = (case q_writer s of WIdle \<Rightarrow> 0 | WBusy _ _ \<Rightarrow> 1)"

text \<open>
  The generation counts the half-steps of the writer; the memory of an idle writer is the latest
  commit; a busy one has written a prefix; and a reader that no commit overtook holds a prefix of
  the memory it will accept, unless the writer became busy.
\<close>

definition writer_inv :: "'a seqlock \<Rightarrow> bool" where
  [inv_defs]: "writer_inv s \<longleftrightarrow>
     q_gen s = of_nat (2 * q_commits s + writer_busy s) \<and>
     (case q_writer s of WIdle \<Rightarrow> q_mem s \<in> set (q_committed s)
      | WBusy i new \<Rightarrow> length new = length (q_mem s) \<and> i \<le> length new)"

definition reader_inv :: "'a seqlock \<Rightarrow> bool" where
  [inv_defs]: "reader_inv s \<longleftrightarrow>
     (case q_reader s of
        RIdle \<Rightarrow> True
      | RCopy g c buf \<Rightarrow> c \<le> q_commits s \<and> g = of_nat (2 * c) \<and>
          (q_commits s = c \<and> q_writer s = WIdle \<longrightarrow> buf = take (length buf) (q_mem s))
      | RDone buf n \<Rightarrow> n < gen_span \<longrightarrow> buf \<in> set (q_committed s))"

definition seq_inv :: "'a seqlock \<Rightarrow> bool" where
  "seq_inv s \<longleftrightarrow> writer_inv s \<and> reader_inv s"

lemma u32_even_iff: "(of_nat n :: u32) AND 1 = 0 \<longleftrightarrow> even n"
  by (simp add: and_one_eq even_iff_mod_2_eq_zero [symmetric] even_of_nat_iff)

lemma u32_generation_eq:
  assumes "(of_nat (2 * a + b) :: u32) = of_nat (2 * c)" "c \<le> a" "a - c < gen_span" "b \<le> 1"
  shows "a = c \<and> b = 0"
proof -
  have "(2 * a + b) mod 2 ^ 32 = (2 * c) mod 2 ^ 32"
    using assms(1) [unfolded word_of_nat_eq_iff take_bit_eq_mod] by simp
  then have "(2 ^ 32 :: nat) dvd (2 * a + b) - 2 * c"
    using assms(2) by (subst mod_eq_dvd_iff_nat [symmetric]) auto
  moreover have "(2 * a + b) - 2 * c < 2 ^ 32"
    using assms(2-4) by (simp add: gen_span_def)
  ultimately have "(2 * a + b) - 2 * c = 0" by (metis dvd_imp_le not_less zero_less_iff_neq_zero)
  then show ?thesis using assms(2) by simp
qed

lemma seq_inv_init: "seq_inv (seqlock_init mem)"
  by (simp add: seq_inv_def writer_inv_def reader_inv_def seqlock_init_def writer_busy_def)

lemma accepted_copy_is_committed:
  assumes "writer_inv s" "reader_inv s" "q_reader s = RCopy g c buf"
    "length buf = length (q_mem s)" "q_gen s = g" "q_commits s - c < gen_span"
  shows "buf \<in> set (q_committed s)"
proof -
  have busy: "writer_busy s \<le> 1" by (simp add: writer_busy_def split: writer_pc.split)
  have c: "c \<le> q_commits s" using assms(2,3) by (simp add: reader_inv_def)
  have "(of_nat (2 * q_commits s + writer_busy s) :: u32) = of_nat (2 * c)"
    using assms(1,2,3,5) by (simp add: writer_inv_def reader_inv_def)
  from u32_generation_eq [OF this c assms(6) busy] have "q_commits s = c" "q_writer s = WIdle"
    by (auto simp: writer_busy_def split: writer_pc.splits)
  then show ?thesis using assms(1-4) by (simp add: writer_inv_def reader_inv_def)
qed

lemma writer_inv_step: "seq_step s t \<Longrightarrow> writer_inv s \<Longrightarrow> writer_inv t"
  by (induction rule: seq_step.induct)
     (auto simp: writer_inv_def writer_busy_def split: writer_pc.splits)

lemma reader_inv_step: "seq_step s t \<Longrightarrow> writer_inv s \<Longrightarrow> reader_inv s \<Longrightarrow> reader_inv t"
proof (induction rule: seq_step.induct)
  case (w_begin s new)
  then show ?case by (auto simp: reader_inv_def split: reader_pc.splits)
next
  case (w_cell s i new)
  then show ?case by (auto simp: reader_inv_def split: reader_pc.splits)
next
  case (w_commit s i new)
  then show ?case by (auto simp: reader_inv_def split: reader_pc.splits)
next
  case (r_load s)
  have "even (2 * q_commits s + writer_busy s)"
    using u32_even_iff [of "2 * q_commits s + writer_busy s"] r_load by (simp add: writer_inv_def)
  then have "writer_busy s = 0" by (auto simp: writer_busy_def split: writer_pc.splits)
  then show ?case using r_load.prems(1) by (simp add: reader_inv_def writer_inv_def)
next
  case (r_cell s g c buf)
  then show ?case by (auto simp: reader_inv_def take_Suc_conv_app_nth)
next
  case (r_accept s g c buf)
  then show ?case using accepted_copy_is_committed [of s g c buf] by (simp add: reader_inv_def)
qed (simp_all add: reader_inv_def)

lemma seq_inv_reachable: "seq_reachable mem s \<Longrightarrow> seq_inv s"
proof (induction rule: seq_reachable.induct)
  case start
  show ?case by (rule seq_inv_init)
next
  case (step s t)
  then show ?case by (auto simp: seq_inv_def dest: writer_inv_step reader_inv_step)
qed

text \<open>
  C19.  Sequence locks never tear: in every interleaving of the writer's and the reader's steps, a
  copy the reader accepts (the generation was even and is unchanged after the copy) is one of the
  blocks the writer committed, the initial one included, provided fewer than \<open>2 ^ 31\<close> commits
  happened during the copy (the 32-bit generation wraps).
\<close>

theorem seqlock_reads_are_coherent:
  assumes "seq_reachable mem s" "q_reader s = RDone buf n" "n < gen_span"
  shows "buf \<in> set (q_committed s)"
  using seq_inv_reachable [OF assms(1)] assms(2,3) by (simp add: seq_inv_def reader_inv_def)

lemma seqlock_reads_are_coherent_witness:
  "\<exists>s. seq_reachable [False] s \<and> q_reader s = RDone [False] 0 \<and> [False] \<in> set (q_committed s)"
proof -
  let ?s0 = "seqlock_init [False] :: bool seqlock"
  let ?s1 = "?s0\<lparr>q_reader := RCopy 0 0 []\<rparr> :: bool seqlock"
  let ?s2 = "?s1\<lparr>q_reader := RCopy 0 0 [False]\<rparr> :: bool seqlock"
  let ?s3 = "?s2\<lparr>q_reader := RDone [False] 0\<rparr> :: bool seqlock"
  have "seq_reachable [False] ?s0" by (rule seq_reachable.start)
  then have "seq_reachable [False] ?s1"
    by (rule seq_reachable.step) (use seq_step.r_load [of ?s0] in \<open>simp add: seqlock_init_def\<close>)
  then have "seq_reachable [False] ?s2"
    by (rule seq_reachable.step)
       (use seq_step.r_cell [of ?s1 0 0 "[]"] in \<open>simp add: seqlock_init_def\<close>)
  then have r: "seq_reachable [False] ?s3"
    by (rule seq_reachable.step)
       (use seq_step.r_accept [of ?s2 0 0 "[False]"] in \<open>simp add: seqlock_init_def\<close>)
  have d: "q_reader ?s3 = RDone [False] 0" by (simp add: seqlock_init_def)
  show ?thesis using r d seqlock_reads_are_coherent [OF r d] by (auto simp: gen_span_def)
qed

end
