(* ===== verification/Bounded_Read.thy ===== *)
theory Bounded_Read
  imports Seqlock
begin

text \<open>
  The bounded reader of a shared file, as \<open>motion_metadata_events.c\<close> and
  \<open>motion_metadata_levels.c\<close> write it: open and stat the file, drop the mapping of a file that
  was replaced, map again, and copy at most four times until a copy lies between two equal even
  generations.  What the loads return is an argument; theory \<open>Seqlock\<close> relates such copies to the
  writer's steps.
\<close>

type_synonym file_id = "nat \<times> nat"

text \<open>One attempt of the copy: the loads it makes and the block it copies.\<close>

record 'h attempt =
  at_before :: u32
  at_copy :: 'h
  at_after :: u32
  at_magic :: u32
  at_version :: u32

text \<open>\<open>re_file\<close>: device and inode when the file opens, stats and has the right size.\<close>

record 'h reader_env =
  re_file :: "file_id option"
  re_mmap_ok :: bool
  re_attempts :: "'h attempt list"

definition attempt_stable :: "'h attempt \<Rightarrow> bool" where
  "attempt_stable a \<longleftrightarrow> at_before a AND 1 = 0 \<and> at_before a = at_after a"

fun first_good :: "('h attempt \<Rightarrow> bool) \<Rightarrow> nat \<Rightarrow> 'h attempt list \<Rightarrow> 'h option" where
  "first_good good 0 as = None"
| "first_good good n [] = None"
| "first_good good (Suc n) (a # as) =
     (if good a then Some (at_copy a) else first_good good n as)"

text \<open>The reader's state is the file its mapping belongs to.\<close>

definition mapped_snapshot ::
  "('h attempt \<Rightarrow> bool) \<Rightarrow> file_id option \<Rightarrow> 'h reader_env \<Rightarrow> file_id option \<times> 'h option" where
  "mapped_snapshot good reader e =
     (case re_file e of
        None \<Rightarrow> (None, None)
      | Some fid \<Rightarrow>
          let reader1 = (if reader = Some fid then reader else None)
          in if reader1 = None \<and> \<not> re_mmap_ok e then (None, None)
             else (Some fid, first_good good 4 (re_attempts e)))"

lemma stable_even: "attempt_stable a \<Longrightarrow> even (at_before a) \<and> at_before a = at_after a"
  by (auto simp: attempt_stable_def and_one_eq mod_2_eq_odd split: if_splits)

lemma mapped_snapshot_first:
  "good a \<Longrightarrow> mapped_snapshot good r
     \<lparr>re_file = Some f, re_mmap_ok = True, re_attempts = a # as\<rparr> = (Some f, Some (at_copy a))"
  by (simp add: mapped_snapshot_def numeral_eq_Suc)

lemma first_good_sound:
  "first_good good n as = Some h \<Longrightarrow> \<exists>a\<in>set (take n as). good a \<and> at_copy a = h"
proof (induction good n as rule: first_good.induct)
  case (3 good n a as)
  then show ?case by (cases "good a") auto
qed simp_all

lemma mapped_snapshot_sound:
  assumes "mapped_snapshot good r e = (r', Some h)"
  shows "r' = re_file e \<and> r' \<noteq> None \<and>
    (\<exists>a. a \<in> set (take 4 (re_attempts e)) \<and> good a \<and> at_copy a = h)"
proof -
  obtain fid where f: "re_file e = Some fid" "r' = Some fid" "first_good good 4 (re_attempts e) = Some h"
    using assms by (auto simp: mapped_snapshot_def Let_def split: option.splits if_splits)
  then show ?thesis using first_good_sound [OF f(3)] by auto
qed

end
