(* ===== verification/Motion_Events.thy ===== *)
theory Motion_Events
  imports Bounded_Log Bounded_Read
begin

text \<open>
  \<open>src/ipc_cmd/ipc_cmd/motion_metadata_events.c\<close> and \<open>.h\<close>: the history of motion state
  changes that the message consumer (\<open>ipc2file\<close>) writes into a shared file and the recorder
  reads when it closes a clip.  The file system and the clock enter as arguments; the shared
  mapping is a record whose sequence word brackets every change (theory \<open>Seqlock\<close> proves what
  that gives a reader).
\<close>

section \<open>State\<close>

definition event_capacity :: nat where "event_capacity = 512"

record motion_event =
  ev_unix_ms :: int
  ev_state :: int

record motion_history =
  h_first :: nat
  h_count :: nat
  h_baseline_state :: int
  h_baseline_is_sample :: bool
  h_baseline_ms :: int
  h_last_state :: int
  h_events :: "motion_event list"

definition history_magic :: u32 where "history_magic = 0x59494d31"

record shared_history =
  sh_magic :: u32
  sh_version :: u32
  sh_sequence :: u32
  sh_history :: motion_history

definition history_path :: "string option \<Rightarrow> string" where
  "history_path value = (case value of
     Some (c # cs) \<Rightarrow> if c = CHR ''/'' then c # cs else ''/tmp/yi-motion-events''
   | _ \<Rightarrow> ''/tmp/yi-motion-events'')"

definition motion_wall_ms :: "int \<Rightarrow> int \<Rightarrow> int" where
  "motion_wall_ms tv_sec tv_usec = tv_sec * 1000 + tv_usec div 1000"

section \<open>Adding and observing\<close>

definition motion_history_add :: "motion_history \<Rightarrow> int \<Rightarrow> int \<Rightarrow> motion_history" where
  "motion_history_add h state unix_ms =
     (if state = h_last_state h then h
      else
        let h1 = (if h_count h = event_capacity
                  then h\<lparr>h_baseline_ms := ev_unix_ms (h_events h ! h_first h),
                         h_baseline_state := ev_state (h_events h ! h_first h),
                         h_baseline_is_sample := False,
                         h_first := (h_first h + 1) mod event_capacity,
                         h_count := h_count h - 1\<rparr>
                  else h);
            index = (h_first h1 + h_count h1) mod event_capacity
        in h1\<lparr>h_count := h_count h1 + 1,
              h_events := (h_events h1)[index := \<lparr>ev_unix_ms = unix_ms, ev_state = state\<rparr>],
              h_last_state := state\<rparr>)"

definition motion_history_observe ::
  "shared_history option \<Rightarrow> int \<Rightarrow> int \<Rightarrow> shared_history option" where
  "motion_history_observe w state unix_ms =
     (case w of
        None \<Rightarrow> None
      | Some s \<Rightarrow>
          if state = h_last_state (sh_history s) then w
          else Some (s\<lparr>sh_sequence := sh_sequence s + 2,
                       sh_history := motion_history_add (sh_history s) state unix_ms\<rparr>))"

section \<open>Starting\<close>

text \<open>What the files and the environment hold when the consumer starts.\<close>

record start_env =
  st_open_ok :: bool
  st_truncate_ok :: bool
  st_mmap_ok :: bool
  st_previous :: u32                    \<comment> \<open>the sequence word already in the file\<close>
  st_wall_ms :: int
  st_model_env :: "string option"       \<comment> \<open>\<open>YI_RECORD_METADATA_MODEL\<close>\<close>
  st_model_file :: "string option"      \<comment> \<open>\<open>model_suffix\<close>, if it opens and reads\<close>
  st_state_byte :: "char option"        \<comment> \<open>first byte of \<open>/tmp/motion.state\<close>\<close>
  st_alarm_file :: bool                 \<comment> \<open>\<open>motion_alarm\<close> exists\<close>

definition start_model :: "start_env \<Rightarrow> string" where
  "start_model e =
     (case st_model_env e of
        Some value \<Rightarrow> take 15 value
      | None \<Rightarrow>
          (case st_model_file e of
             None \<Rightarrow> []
           | Some text \<Rightarrow> takeWhile (\<lambda>c. c \<noteq> CHR 0x0D \<and> c \<noteq> CHR 0x0A \<and> c \<noteq> CHR 0x00) (take 15 text)))"

definition baseline_state :: "start_env \<Rightarrow> int" where
  "baseline_state e =
     (if start_model e = ''y623'' then
        (case st_state_byte e of
           Some c \<Rightarrow> if c = CHR ''0'' then 0 else if c = CHR ''1'' then 1 else -1
         | None \<Rightarrow> -1)
      else if start_model e = ''y28ga'' then (if st_alarm_file e then 1 else 0)
      else -1)"

definition empty_events :: "motion_event list" where
  "empty_events = replicate event_capacity \<lparr>ev_unix_ms = 0, ev_state = 0\<rparr>"

text \<open>\<open>w\<close> is the mapping the writer had before; a failed \<open>mmap\<close> loses it.\<close>

definition motion_history_start ::
  "shared_history option \<Rightarrow> start_env \<Rightarrow> int \<times> shared_history option" where
  "motion_history_start w e =
     (if \<not> st_open_ok e \<or> \<not> st_truncate_ok e then (-1, w)
      else if \<not> st_mmap_ok e then (-1, None)
      else
        let previous = st_previous e + (st_previous e AND 1)
        in (0, Some \<lparr>sh_magic = history_magic, sh_version = 1, sh_sequence = previous + 2,
              sh_history = \<lparr>h_first = 0, h_count = 0, h_baseline_state = baseline_state e,
                h_baseline_is_sample = True, h_baseline_ms = st_wall_ms e,
                h_last_state = baseline_state e, h_events = empty_events\<rparr>\<rparr>))"

section \<open>Reading a snapshot\<close>

definition attempt_good :: "motion_history attempt \<Rightarrow> bool" where
  "attempt_good a \<longleftrightarrow> attempt_stable a \<and> at_magic a = history_magic \<and> at_version a = 1 \<and>
     h_first (at_copy a) < event_capacity \<and> h_count (at_copy a) \<le> event_capacity"

definition read_snapshot ::
  "file_id option \<Rightarrow> motion_history reader_env \<Rightarrow> file_id option \<times> motion_history option" where
  "read_snapshot reader e = mapped_snapshot attempt_good reader e"

definition motion_history_read ::
  "bool \<Rightarrow> file_id option \<Rightarrow> motion_history reader_env \<Rightarrow> file_id option \<times> motion_history option" where
  "motion_history_read lock_taken reader e =
     (if lock_taken then (reader, None) else read_snapshot reader e)"

section \<open>The history as a list\<close>

definition hist_events :: "motion_history \<Rightarrow> motion_event list" where
  "hist_events h = ring_contents (h_first h) (h_count h) (h_events h)"

definition hist_wf :: "motion_history \<Rightarrow> bool" where
  [inv_defs]: "hist_wf h \<longleftrightarrow> ring_wf event_capacity (h_first h) (h_count h) (h_events h)"

definition add_event :: "motion_event \<Rightarrow> motion_history \<Rightarrow> motion_history" where
  "add_event e h = motion_history_add h (ev_state e) (ev_unix_ms e)"

definition is_change :: "motion_event \<Rightarrow> motion_history \<Rightarrow> bool" where
  "is_change e h \<longleftrightarrow> ev_state e \<noteq> h_last_state h"

lemma event_capacity_pos [simp]: "0 < event_capacity"
  by (simp add: event_capacity_def)

lemma add_event_same: "\<not> is_change e h \<Longrightarrow> add_event e h = h"
  by (simp add: add_event_def is_change_def motion_history_add_def)

lemma add_event_push:
  assumes "is_change e h"
  shows "(h_first (add_event e h), h_count (add_event e h), h_events (add_event e h)) =
    ring_push event_capacity e (h_first h, h_count h, h_events h)"
proof -
  obtain t st where e: "e = \<lparr>ev_unix_ms = t, ev_state = st\<rparr>" by (cases e) auto
  show ?thesis using assms unfolding e
    by (simp add: add_event_def is_change_def motion_history_add_def ring_push_def Let_def)
qed

lemma add_event_ring:
  assumes "is_change e h" "hist_wf h"
  shows "hist_wf (add_event e h)"
    and "hist_events (add_event e h) = last_n event_capacity (hist_events h @ [e])"
  using ring_push_correct [OF assms(2) [unfolded hist_wf_def] event_capacity_pos
      add_event_push [OF assms(1), symmetric]]
  by (simp_all add: hist_wf_def hist_events_def)

interpretation hist: bounded_log hist_events hist_wf is_change add_event event_capacity
proof unfold_locales
  fix h e assume wf: "hist_wf h"
  show "length (hist_events h) \<le> event_capacity"
    using wf by (simp add: hist_events_def hist_wf_def ring_wf_def)
  show "hist_wf (add_event e h)"
    using wf add_event_ring(1) add_event_same by (cases "is_change e h") auto
  show "hist_events (add_event e h) =
      (if is_change e h then last_n event_capacity (hist_events h @ [e]) else hist_events h)"
    using wf add_event_ring(2) add_event_same by auto
qed

text \<open>The state changes of a stream of observations, seen from the last known state.\<close>

fun state_changes :: "int \<Rightarrow> motion_event list \<Rightarrow> motion_event list" where
  "state_changes prev [] = []"
| "state_changes prev (e # es) =
     (if ev_state e = prev then state_changes prev es else e # state_changes (ev_state e) es)"

lemma add_event_last_state: "h_last_state (add_event e h) = ev_state e"
  by (simp add: add_event_def motion_history_add_def Let_def)

lemma accepted_state_changes:
  "accepted is_change add_event es h = state_changes (h_last_state h) es"
proof (induction es arbitrary: h)
  case (Cons e es)
  then show ?case
    using add_event_same [of e h] by (simp add: is_change_def add_event_last_state)
qed simp

text \<open>
  C7.  The motion history is exact: after any stream of observations the ring holds, in order, the
  latest 512 state changes, counting those it held before.
\<close>

theorem history_keeps_latest_changes:
  assumes "hist_wf h"
  shows "hist_events (fold add_event es h) =
    last_n event_capacity (hist_events h @ state_changes (h_last_state h) es)"
  using hist.adds_contents [OF assms] by (simp add: accepted_state_changes)

text \<open>
  The baseline is the state before the oldest event that is kept, so the recorder can tell the
  state at any time the ring covers: neighbours always differ, and the last one is the present.
\<close>

definition hist_states :: "motion_history \<Rightarrow> int list" where
  "hist_states h = h_baseline_state h # map ev_state (hist_events h)"

definition hist_inv :: "motion_history \<Rightarrow> bool" where
  [inv_defs]: "hist_inv h \<longleftrightarrow> hist_wf h \<and> h_last_state h = last (hist_states h) \<and>
     distinct_adj (hist_states h)"

lemma ring_contents_hd: "0 < c \<Longrightarrow> f < length s \<Longrightarrow> hd (ring_contents f c s) = s ! f"
  by (simp add: ring_contents_def upt_conv_Cons)

lemma distinct_adj_snoc: "distinct_adj (xs @ [x]) \<longleftrightarrow> distinct_adj xs \<and> (xs \<noteq> [] \<longrightarrow> last xs \<noteq> x)"
  by (auto simp: distinct_adj_append_iff)

lemma add_event_inv:
  assumes "hist_inv h"
  shows "hist_inv (add_event e h)"
proof (cases "is_change e h")
  case False
  then show ?thesis using assms by (simp add: add_event_same)
next
  case True
  have wf: "hist_wf h" using assms by (simp add: hist_inv_def)
  let ?ev = "hist_events h" and ?h = "add_event e h"
  have ev: "hist_events ?h = last_n event_capacity (?ev @ [e])"
    using add_event_ring(2) [OF True wf] .
  have adj: "distinct_adj (hist_states h @ [ev_state e])"
    using assms True unfolding distinct_adj_snoc by (auto simp: hist_inv_def is_change_def)
  show ?thesis
  proof (cases "h_count h = event_capacity")
    case False
    then have "hist_states ?h = hist_states h @ [ev_state e]"
      using wf True ev
      by (simp add: hist_states_def last_n_short hist_wf_def ring_wf_def hist_events_def
          add_event_def motion_history_add_def is_change_def Let_def)
    then show ?thesis using add_event_ring(1) [OF True wf] adj
      by (simp add: hist_inv_def add_event_last_state)
  next
    case full: True
    have len: "length ?ev = event_capacity" using full by (simp add: hist_events_def)
    have base: "h_baseline_state ?h = ev_state (hd ?ev)"
      using full True wf
      by (simp add: add_event_def motion_history_add_def is_change_def Let_def hist_events_def
          ring_contents_hd hist_wf_def ring_wf_def)
    have "?ev \<noteq> []" using len event_capacity_pos by (metis less_nat_zero_code list.size(3))
    then have "hist_states ?h = tl (hist_states h @ [ev_state e])"
      using len base event_capacity_pos by (cases ?ev) (simp_all add: hist_states_def ev last_n_def)
    moreover have "distinct_adj (tl (hist_states h @ [ev_state e]))"
      using adj by (metis distinct_adj_ConsD list.exhaust_sel tl_Nil)
    moreover have "last (tl (hist_states h @ [ev_state e])) = ev_state e"
      by (simp add: hist_states_def)
    ultimately show ?thesis using add_event_ring(1) [OF True wf]
      by (simp add: hist_inv_def add_event_last_state)
  qed
qed

lemma add_events_inv: "hist_inv h \<Longrightarrow> hist_inv (fold add_event es h)"
  by (induction es arbitrary: h) (auto simp: add_event_inv)

lemma start_inv: "motion_history_start w e = (0, Some s) \<Longrightarrow> hist_inv (sh_history s)"
  by (auto simp: motion_history_start_def hist_inv_def hist_wf_def ring_wf_def hist_states_def
      hist_events_def ring_contents_def empty_events_def Let_def split: if_splits)

lemma observe_history:
  "motion_history_observe (Some s) st t =
     Some (s\<lparr>sh_sequence := (if st = h_last_state (sh_history s) then sh_sequence s else sh_sequence s + 2),
             sh_history := add_event \<lparr>ev_unix_ms = t, ev_state = st\<rparr> (sh_history s)\<rparr>)"
  by (simp add: motion_history_observe_def add_event_def motion_history_add_def)

fun observe_all :: "motion_event list \<Rightarrow> shared_history option \<Rightarrow> shared_history option" where
  "observe_all [] w = w"
| "observe_all (e # es) w = observe_all es (motion_history_observe w (ev_state e) (ev_unix_ms e))"

lemma observe_all_history:
  "\<exists>t. observe_all es (Some s) = Some t \<and> sh_history t = fold add_event es (sh_history s) \<and>
     (sh_sequence t AND 1 = sh_sequence s AND 1) \<and> sh_magic t = sh_magic s \<and> sh_version t = sh_version s"
proof (induction es arbitrary: s)
  case (Cons e es)
  have par: "(x + 2) AND 1 = x AND 1" for x :: u32
  proof -
    have "odd (x + 2) = odd x" by simp
    then show ?thesis by (simp add: and_one_eq mod_2_eq_odd)
  qed
  have e: "\<lparr>ev_unix_ms = ev_unix_ms e, ev_state = ev_state e\<rparr> = e" by (cases e) simp
  let ?t = "s\<lparr>sh_sequence := (if ev_state e = h_last_state (sh_history s)
        then sh_sequence s else sh_sequence s + 2), sh_history := add_event e (sh_history s)\<rparr>"
  have "observe_all (e # es) (Some s) = observe_all es (Some ?t)"
    unfolding observe_all.simps observe_history e ..
  moreover have "sh_sequence ?t AND 1 = sh_sequence s AND 1" by (simp add: par)
  ultimately show ?case using Cons.IH [of ?t] by simp
qed simp

text \<open>A copy that no write overlapped, and a reader that gets it.\<close>

definition quiet_attempt :: "shared_history \<Rightarrow> motion_history attempt" where
  "quiet_attempt t = \<lparr>at_before = sh_sequence t, at_copy = sh_history t, at_after = sh_sequence t,
     at_magic = sh_magic t, at_version = sh_version t\<rparr>"

lemma start_even:
  assumes "motion_history_start w e = (0, Some s)"
  shows "sh_sequence s AND 1 = 0" "sh_magic s = history_magic" "sh_version s = 1"
proof -
  have "(x + (x AND 1) + 2) AND 1 = 0" for x :: u32
    by (cases "odd x") (simp_all add: and_one_eq mod_2_eq_odd)
  moreover have "s = \<lparr>sh_magic = history_magic, sh_version = 1,
      sh_sequence = st_previous e + (st_previous e AND 1) + 2, sh_history = sh_history s\<rparr>"
    using assms by (auto simp: motion_history_start_def Let_def split: if_splits)
  ultimately show "sh_sequence s AND 1 = 0" "sh_magic s = history_magic" "sh_version s = 1"
    by (metis shared_history.select_convs(1-3))+
qed

lemma fold_add_last_state:
  "h_last_state (fold add_event es h) = last (h_last_state h # map ev_state es)"
  by (induction es rule: rev_induct) (simp_all add: add_event_last_state)

lemma quiet_attempt_good:
  assumes "hist_inv (sh_history t)" "sh_sequence t AND 1 = 0" "sh_magic t = history_magic" "sh_version t = 1"
  shows "attempt_good (quiet_attempt t)"
  using assms
  by (simp add: attempt_good_def attempt_stable_def quiet_attempt_def hist_inv_def hist_wf_def
      ring_wf_def)

lemma read_first_attempt:
  "attempt_good a \<Longrightarrow> motion_history_read False r
     \<lparr>re_file = Some f, re_mmap_ok = True, re_attempts = a # as\<rparr> = (Some f, Some (at_copy a))"
  by (simp add: motion_history_read_def read_snapshot_def mapped_snapshot_first)

text \<open>
   From the start of the consumer, through any sequence of observed motion messages, the history
  stays well formed: neighbouring states (the baseline, then the kept events) always differ, the
  last is the state observed last, and a reader whose copy no write overlapped gets exactly this
  history, whatever mapping it held before.
\<close>

theorem started_history_is_readable:
  assumes "motion_history_start w e = (0, Some s)"
  shows "\<exists>t. observe_all es (Some s) = Some t \<and>
    distinct_adj (hist_states (sh_history t)) \<and>
    last (hist_states (sh_history t)) = last (baseline_state e # map ev_state es) \<and>
    motion_history_read False r \<lparr>re_file = Some f, re_mmap_ok = True,
      re_attempts = quiet_attempt t # later\<rparr> = (Some f, Some (sh_history t))"
proof -
  obtain t where t: "observe_all es (Some s) = Some t" "sh_history t = fold add_event es (sh_history s)"
    "sh_sequence t AND 1 = sh_sequence s AND 1" "sh_magic t = sh_magic s" "sh_version t = sh_version s"
    using observe_all_history by blast
  have inv: "hist_inv (sh_history t)" using add_events_inv [OF start_inv [OF assms]] t(2) by simp
  have first: "h_last_state (sh_history s) = baseline_state e"
    using assms by (auto simp: motion_history_start_def Let_def split: if_splits)
  have good: "attempt_good (quiet_attempt t)"
    using quiet_attempt_good [OF inv] t(3-5) start_even [OF assms] by simp
  have "last (hist_states (sh_history t)) = last (baseline_state e # map ev_state es)"
    using inv fold_add_last_state [of es "sh_history s"] first by (simp add: t(2) hist_inv_def)
  moreover have "distinct_adj (hist_states (sh_history t))" using inv by (simp add: hist_inv_def)
  moreover have "motion_history_read False r \<lparr>re_file = Some f, re_mmap_ok = True,
      re_attempts = quiet_attempt t # later\<rparr> = (Some f, Some (sh_history t))"
    using read_first_attempt [OF good, of r f later] by (simp add: quiet_attempt_def)
  ultimately show ?thesis using t(1) by blast
qed

text \<open>
  A snapshot that the reader returns was copied in one of its first four attempts, with an even
  generation that did not change during the copy, the right magic and version, and ring indices
  within the capacity (so the recorder's loops stay inside the array); a reader whose mapping
  belonged to another file first maps the present one.
\<close>

theorem read_snapshot_is_checked:
  assumes "motion_history_read locked r e = (r', Some h)"
  shows "\<not> locked \<and> r' = re_file e \<and> r' \<noteq> None \<and>
    (\<exists>a\<in>set (take 4 (re_attempts e)). at_copy a = h \<and> even (at_before a) \<and> at_before a = at_after a \<and>
       h_first h < 512 \<and> h_count h \<le> 512)"
proof -
  have l: "\<not> locked" and r: "mapped_snapshot attempt_good r e = (r', Some h)"
    using assms by (auto simp: motion_history_read_def read_snapshot_def split: if_splits)
  from mapped_snapshot_sound [OF r] obtain a where
    a: "a \<in> set (take 4 (re_attempts e))" "attempt_good a" "at_copy a = h" and
    f: "r' = re_file e" "r' \<noteq> None"
    by blast
  then show ?thesis using l
    by (intro conjI bexI [of _ a]) (auto simp: attempt_good_def event_capacity_def dest: stable_even)
qed

section \<open>Witnesses\<close>

definition sample_start :: start_env where
  "sample_start = \<lparr>st_open_ok = True, st_truncate_ok = True, st_mmap_ok = True, st_previous = 7,
     st_wall_ms = 1000, st_model_env = Some ''y623'', st_model_file = None,
     st_state_byte = Some CHR ''0'', st_alarm_file = False\<rparr>"

definition sample_shared :: shared_history where
  "sample_shared = the (snd (motion_history_start None sample_start))"

lemma sample_started: "motion_history_start None sample_start = (0, Some sample_shared)"
  by (simp add: sample_shared_def motion_history_start_def sample_start_def Let_def)

lemma sample_shared_inv: "hist_inv (sh_history sample_shared)"
  by (rule start_inv [OF sample_started])

lemma history_keeps_latest_changes_witness:
  "hist_events (fold add_event [\<lparr>ev_unix_ms = 1, ev_state = 1\<rparr>] (sh_history sample_shared)) =
   last_n event_capacity (hist_events (sh_history sample_shared) @
     state_changes (h_last_state (sh_history sample_shared)) [\<lparr>ev_unix_ms = 1, ev_state = 1\<rparr>])"
  by (rule history_keeps_latest_changes)
     (use sample_shared_inv in \<open>simp add: hist_inv_def\<close>)

lemma started_history_is_readable_witness:
  "\<exists>t. observe_all [\<lparr>ev_unix_ms = 5, ev_state = 1\<rparr>, \<lparr>ev_unix_ms = 9, ev_state = 0\<rparr>] (Some sample_shared) = Some t \<and>
     last (hist_states (sh_history t)) = 0"
  using started_history_is_readable [OF sample_started,
      of "[\<lparr>ev_unix_ms = 5, ev_state = 1\<rparr>, \<lparr>ev_unix_ms = 9, ev_state = 0\<rparr>]" None "(1, 2)" "[]"]
  by (auto simp del: observe_all.simps)

lemma read_snapshot_is_checked_witness:
  "even (sh_sequence sample_shared) \<and> h_count (sh_history sample_shared) \<le> 512"
proof -
  let ?e = "\<lparr>re_file = Some (1, 2), re_mmap_ok = True, re_attempts = [quiet_attempt sample_shared]\<rparr>"
  have "attempt_good (quiet_attempt sample_shared)"
    by (rule quiet_attempt_good [OF sample_shared_inv]) (rule start_even [OF sample_started])+
  then have "motion_history_read False None ?e = (Some (1, 2), Some (sh_history sample_shared))"
    using read_first_attempt [of "quiet_attempt sample_shared" None "(1, 2)" "[]"]
    by (simp add: quiet_attempt_def)
  from read_snapshot_is_checked [OF this] show ?thesis by (auto simp: quiet_attempt_def)
qed

end
