(* ===== verification/Motion_Levels.thy ===== *)
theory Motion_Levels
  imports Bounded_Log Bounded_Read Floats
begin

text \<open>
  \<open>src/ipc_cmd/ipc_cmd/motion_metadata_levels.c\<close> and \<open>.h\<close>: the ring of detector samples that
  \<open>motiond\<close> shares with the recorder, its sampling schedule, and the restart that keeps a sound
  ring.  The clocks, the file operations and what the file held are arguments.
\<close>

section \<open>State\<close>

definition level_capacity :: nat where "level_capacity = 512"
definition level_interval_ms :: int where "level_interval_ms = 1000"
definition level_burst_samples :: int where "level_burst_samples = 5"
definition level_burst_ms :: int where "level_burst_ms = 200"
definition level_magic :: u32 where "level_magic = 0x59494c31"

record level_sample =
  ls_unix_ms :: int
  ls_bin_ratio :: c_double
  ls_scene :: int
  ls_move :: int
  ls_moving_level :: int
  ls_moving_th :: int

record motion_levels =
  lv_first :: nat
  lv_count :: nat
  lv_started_ms :: int
  lv_discarded_ms :: int
  lv_observed_until_ms :: int
  lv_samples :: "level_sample list"

record shared_levels =
  sl_magic :: u32
  sl_version :: u32
  sl_sequence :: u32
  sl_history :: motion_levels

record levels_state =
  lw_writer :: "shared_levels option"
  lw_last_wall :: int
  lw_last_mono :: int
  lw_active :: bool
  lw_burst :: int
  lw_next_ms :: int

definition levels_path :: "string option \<Rightarrow> string" where
  "levels_path value = (case value of
     Some (c # cs) \<Rightarrow> if c = CHR ''/'' then c # cs else ''/tmp/yi-motion-levels''
   | _ \<Rightarrow> ''/tmp/yi-motion-levels'')"

definition zero_sample :: level_sample where
  "zero_sample = \<lparr>ls_unix_ms = 0, ls_bin_ratio = Fin 0, ls_scene = 0, ls_move = 0,
     ls_moving_level = 0, ls_moving_th = 0\<rparr>"

definition reset_levels :: "int \<Rightarrow> motion_levels" where
  "reset_levels unix_ms = \<lparr>lv_first = 0, lv_count = 0, lv_started_ms = unix_ms,
     lv_discarded_ms = -1, lv_observed_until_ms = unix_ms,
     lv_samples = replicate level_capacity zero_sample\<rparr>"

section \<open>Starting\<close>

record levels_start_env =
  le_open_ok :: bool
  le_truncate_ok :: bool
  le_file :: "shared_levels option"      \<comment> \<open>what \<open>mmap\<close> maps, if it succeeds\<close>
  le_now :: int

definition levels_retain :: "shared_levels \<Rightarrow> int \<Rightarrow> bool" where
  "levels_retain f now \<longleftrightarrow> sl_sequence f AND 1 = 0 \<and> sl_magic f = level_magic \<and>
     sl_version f = 2 \<and> lv_first (sl_history f) < level_capacity \<and>
     lv_count (sl_history f) \<le> level_capacity \<and> lv_observed_until_ms (sl_history f) \<le> now"

definition motion_levels_start ::
  "levels_state \<Rightarrow> levels_start_env \<Rightarrow> int \<times> levels_state" where
  "motion_levels_start w e =
     (if \<not> le_open_ok e \<or> \<not> le_truncate_ok e then (-1, w)
      else case le_file e of
        None \<Rightarrow> (-1, w\<lparr>lw_writer := None\<rparr>)
      | Some f \<Rightarrow>
          let sequence = sl_sequence f + (sl_sequence f AND 1)
          in (0, \<lparr>lw_writer = Some \<lparr>sl_magic = level_magic, sl_version = 2,
                    sl_sequence = sequence + 2,
                    sl_history = (if levels_retain f (le_now e) then sl_history f
                                  else reset_levels (le_now e))\<rparr>,
                  lw_last_wall = 0, lw_last_mono = 0, lw_active = False, lw_burst = 0,
                  lw_next_ms = 0\<rparr>))"

section \<open>Schedule\<close>

definition motion_levels_due ::
  "levels_state \<Rightarrow> bool \<Rightarrow> bool \<Rightarrow> int \<Rightarrow> bool \<times> levels_state" where
  "motion_levels_due w active trigger monotonic_ms =
     (if \<not> active then (False, w\<lparr>lw_active := False, lw_burst := 0\<rparr>)
      else
        let w1 = (if trigger \<or> \<not> lw_active w
                  then w\<lparr>lw_active := True, lw_burst := 0, lw_next_ms := monotonic_ms\<rparr> else w)
        in if monotonic_ms < lw_next_ms w1 then (False, w1)
           else
             let burst = (if lw_burst w1 < level_burst_samples then lw_burst w1 + 1
                          else lw_burst w1)
             in (True, w1\<lparr>lw_burst := burst,
                    lw_next_ms := monotonic_ms +
                      (if burst < level_burst_samples then level_burst_ms
                       else level_interval_ms)\<rparr>))"

section \<open>Samples\<close>

definition sample_kept :: "bool \<Rightarrow> bool \<Rightarrow> level_sample \<Rightarrow> bool" where
  "sample_kept active valid s \<longleftrightarrow> active \<and> valid \<and> is_finite (ls_bin_ratio s) \<and>
     fp_le (Fin 0) (ls_bin_ratio s) \<and> fp_le (ls_bin_ratio s) (Fin 100) \<and> 0 \<le> ls_moving_level s"

definition clock_step :: "int \<Rightarrow> int \<Rightarrow> int \<Rightarrow> int \<Rightarrow> bool" where
  "clock_step last_wall last_mono unix_ms monotonic_ms \<longleftrightarrow> last_mono \<noteq> 0 \<and>
     (unix_ms < last_wall \<or> \<bar>(unix_ms - last_wall) - (monotonic_ms - last_mono)\<bar> > 2000)"

definition store_sample :: "motion_levels \<Rightarrow> level_sample \<Rightarrow> motion_levels" where
  "store_sample h s =
     (let h1 = (if lv_count h = level_capacity
                then h\<lparr>lv_discarded_ms := ls_unix_ms (lv_samples h ! lv_first h),
                       lv_first := (lv_first h + 1) mod level_capacity,
                       lv_count := lv_count h - 1\<rparr>
                else h)
      in h1\<lparr>lv_count := lv_count h1 + 1,
            lv_samples := (lv_samples h1)[(lv_first h1 + lv_count h1) mod level_capacity := s]\<rparr>)"

text \<open>One tick: the flags \<open>active\<close> and \<open>valid\<close>, the sample and the monotonic clock.\<close>

record level_tick =
  lt_active :: bool
  lt_valid :: bool
  lt_sample :: level_sample
  lt_mono :: int

definition motion_levels_tick :: "levels_state \<Rightarrow> level_tick \<Rightarrow> levels_state" where
  "motion_levels_tick w t =
     (case lw_writer w of
        None \<Rightarrow> w
      | Some s \<Rightarrow>
          let unix_ms = ls_unix_ms (lt_sample t);
              h0 = (if clock_step (lw_last_wall w) (lw_last_mono w) unix_ms (lt_mono t)
                    then reset_levels unix_ms else sl_history s);
              h1 = h0\<lparr>lv_observed_until_ms := unix_ms\<rparr>;
              h2 = (if sample_kept (lt_active t) (lt_valid t) (lt_sample t)
                    then store_sample h1 (lt_sample t) else h1)
          in w\<lparr>lw_last_wall := unix_ms, lw_last_mono := lt_mono t,
               lw_writer := Some (s\<lparr>sl_sequence := sl_sequence s + 2, sl_history := h2\<rparr>)\<rparr>)"

section \<open>Reading\<close>

definition levels_good :: "motion_levels attempt \<Rightarrow> bool" where
  "levels_good a \<longleftrightarrow> attempt_stable a \<and> at_magic a = level_magic \<and> at_version a = 2 \<and>
     lv_first (at_copy a) < level_capacity \<and> lv_count (at_copy a) \<le> level_capacity"

definition levels_snapshot ::
  "file_id option \<Rightarrow> motion_levels reader_env \<Rightarrow> file_id option \<times> motion_levels option" where
  "levels_snapshot reader e = mapped_snapshot levels_good reader e"

definition motion_levels_read ::
  "bool \<Rightarrow> file_id option \<Rightarrow> motion_levels reader_env \<Rightarrow> file_id option \<times> motion_levels option" where
  "motion_levels_read lock_taken reader e =
     (if lock_taken then (reader, None) else levels_snapshot reader e)"

section \<open>The schedule's bounds\<close>

text \<open>The polls of an active detector without a new trigger, and the times that sample.\<close>

fun due_times :: "levels_state \<Rightarrow> int list \<Rightarrow> int list" where
  "due_times w [] = []"
| "due_times w (t # ts) =
     (case motion_levels_due w True False t of
        (d, w') \<Rightarrow> (if d then [t] else []) @ due_times w' ts)"

definition due_gap :: "int \<Rightarrow> int" where
  "due_gap k = (if k < 5 then 200 else 1000)"

lemma due_step:
  assumes "lw_active w"
  shows "motion_levels_due w True False t =
    (if t < lw_next_ms w then (False, w)
     else (True, w\<lparr>lw_burst := (if lw_burst w < 5 then lw_burst w + 1 else lw_burst w),
             lw_next_ms := t + due_gap (if lw_burst w < 5 then lw_burst w + 1 else lw_burst w)\<rparr>))"
  using assms
  by (simp add: motion_levels_due_def due_gap_def level_burst_samples_def level_burst_ms_def
      level_interval_ms_def Let_def)

fun gaps_ok :: "int \<Rightarrow> int \<Rightarrow> int list \<Rightarrow> bool" where
  "gaps_ok k prev [] \<longleftrightarrow> True"
| "gaps_ok k prev (t # ts) \<longleftrightarrow> prev + due_gap k \<le> t \<and> gaps_ok (min 5 (k + 1)) t ts"

text \<open>No poll is missed: a poll that does not sample is within the gap of the latest sample.\<close>

fun polls_ok :: "int \<Rightarrow> int \<Rightarrow> int list \<Rightarrow> int list \<Rightarrow> bool" where
  "polls_ok k prev [] due \<longleftrightarrow> due = []"
| "polls_ok k prev (t # ts) due \<longleftrightarrow>
     (if t < prev + due_gap k then polls_ok k prev ts due
      else due \<noteq> [] \<and> hd due = t \<and> polls_ok (min 5 (k + 1)) t ts (tl due))"

lemma due_times_schedule:
  assumes "lw_active w" "lw_burst w \<le> 5" "lw_next_ms w = prev + due_gap (lw_burst w)"
  shows "gaps_ok (lw_burst w) prev (due_times w ts) \<and> polls_ok (lw_burst w) prev ts (due_times w ts)"
  using assms
proof (induction ts arbitrary: w prev)
  case (Cons t ts)
  show ?case
  proof (cases "t < lw_next_ms w")
    case True
    then show ?thesis using Cons by (simp add: due_step)
  next
    case False
    let ?b = "if lw_burst w < 5 then lw_burst w + 1 else lw_burst w"
    have b: "?b = min 5 (lw_burst w + 1)" using Cons.prems(2) by simp
    have "?b \<le> 5" using Cons.prems(2) by auto
    then show ?thesis
      using False Cons.prems Cons.IH [of "w\<lparr>lw_burst := ?b, lw_next_ms := t + due_gap ?b\<rparr>" t]
      by (simp add: due_step b)
  qed
qed simp

lemma gaps_count:
  "gaps_ok k prev ts \<Longrightarrow> 0 \<le> k \<Longrightarrow> k \<le> 5 \<Longrightarrow>
     int (length ts) \<le> 5 - k + (last (prev # ts) - prev) div 1000 \<and> prev \<le> last (prev # ts)"
proof (induction ts arbitrary: k prev)
  case (Cons t ts)
  from Cons.IH [of "min 5 (k + 1)" t] Cons.prems
  have ih: "int (length ts) \<le> 5 - min 5 (k + 1) + (last (t # ts) - t) div 1000"
    "t \<le> last (t # ts)" by simp_all
  have gap: "prev + due_gap k \<le> t" using Cons.prems by simp
  show ?case
  proof (cases "k < 5")
    case True
    have "(last (t # ts) - t) div 1000 \<le> (last (t # ts) - prev) div 1000"
      using gap True by (intro zdiv_mono1) (simp_all add: due_gap_def)
    then show ?thesis using ih gap True by (simp add: due_gap_def)
  next
    case False
    have "(last (t # ts) - t) div 1000 + 1 \<le> (last (t # ts) - prev) div 1000"
      using gap False by (simp add: due_gap_def)
    then show ?thesis using ih gap False Cons.prems by (simp add: due_gap_def)
  qed
qed simp

text \<open>
   The sampling rate: after a trigger at \<open>t0\<close> (which samples at once), the first five samples
  are at least 200 ms apart and the later ones at least 1000 ms, so that up to the last sample no
  more than five samples plus one per second are taken; and no poll is missed, since a poll that does
  not sample falls within the gap after the latest sample.
\<close>

theorem sampling_schedule:
  assumes "motion_levels_due w True True t0 = (d, w')"
  shows "d \<and> gaps_ok 1 t0 (due_times w' ts) \<and> polls_ok 1 t0 ts (due_times w' ts) \<and>
    int (length (t0 # due_times w' ts)) \<le>
      5 + (last (t0 # due_times w' ts) - t0) div 1000"
proof -
  have w': "d" "lw_active w'" "lw_burst w' = 1" "lw_next_ms w' = t0 + due_gap 1"
    using assms
    by (auto simp: motion_levels_due_def due_gap_def level_burst_samples_def level_burst_ms_def
        Let_def)
  have sched: "gaps_ok 1 t0 (due_times w' ts) \<and> polls_ok 1 t0 ts (due_times w' ts)"
    using due_times_schedule [of w' t0 ts] w' by simp
  then show ?thesis using w'(1) gaps_count [of 1 t0 "due_times w' ts"] by simp
qed

lemma sampling_schedule_witness:
  "let w' = snd (motion_levels_due \<lparr>lw_writer = None, lw_last_wall = 0, lw_last_mono = 0,
       lw_active = False, lw_burst = 0, lw_next_ms = 0\<rparr> True True 100)
   in polls_ok 1 100 [200, 310, 500, 800] (due_times w' [200, 310, 500, 800])"
  unfolding Let_def
  by (rule sampling_schedule [THEN conjunct2, THEN conjunct2, THEN conjunct1]) (rule surjective_pairing)

section \<open>What the ring holds\<close>

text \<open>
  The abstract log: when it began, every sample accepted since, and how far it has observed.
\<close>

record level_log =
  lg_started :: int
  lg_samples :: "level_sample list"
  lg_until :: int

definition log_tick :: "bool \<Rightarrow> level_tick \<Rightarrow> level_log \<Rightarrow> level_log" where
  "log_tick stepped t g =
     (let unix_ms = ls_unix_ms (lt_sample t);
          g1 = (if stepped then \<lparr>lg_started = unix_ms, lg_samples = [], lg_until = unix_ms\<rparr> else g)
      in g1\<lparr>lg_until := unix_ms,
            lg_samples := lg_samples g1 @
              (if sample_kept (lt_active t) (lt_valid t) (lt_sample t) then [lt_sample t] else [])\<rparr>)"

definition level_contents :: "motion_levels \<Rightarrow> level_sample list" where
  "level_contents h = ring_contents (lv_first h) (lv_count h) (lv_samples h)"

definition levels_wf :: "motion_levels \<Rightarrow> bool" where
  [inv_defs]: "levels_wf h \<longleftrightarrow> ring_wf level_capacity (lv_first h) (lv_count h) (lv_samples h)"

definition log_discarded :: "level_sample list \<Rightarrow> int" where
  "log_discarded ss = (if length ss \<le> level_capacity then -1
     else ls_unix_ms (ss ! (length ss - level_capacity - 1)))"

definition levels_refine :: "motion_levels \<Rightarrow> level_log \<Rightarrow> bool" where
  "levels_refine h g \<longleftrightarrow> levels_wf h \<and>
     level_contents h = last_n level_capacity (lg_samples g) \<and>
     lv_discarded_ms h = log_discarded (lg_samples g) \<and>
     lv_started_ms h = lg_started g \<and> lv_observed_until_ms h = lg_until g"

lemma level_capacity_pos [simp]: "0 < level_capacity"
  by (simp add: level_capacity_def)

lemma store_push:
  "(lv_first (store_sample h s), lv_count (store_sample h s), lv_samples (store_sample h s)) =
     ring_push level_capacity s (lv_first h, lv_count h, lv_samples h)"
  by (simp add: store_sample_def ring_push_def Let_def)

lemma store_ring:
  assumes "levels_wf h"
  shows "levels_wf (store_sample h s)"
    and "level_contents (store_sample h s) = last_n level_capacity (level_contents h @ [s])"
  using ring_push_correct [OF assms [unfolded levels_wf_def] level_capacity_pos store_push [symmetric]]
  by (simp_all add: levels_wf_def level_contents_def)

text \<open>The ring of samples meets the contract of the bounded log, accepting every sample.\<close>

interpretation levels: bounded_log level_contents levels_wf "\<lambda>s h. True" "\<lambda>s h. store_sample h s"
  level_capacity
proof unfold_locales
  fix h s assume wf: "levels_wf h"
  show "length (level_contents h) \<le> level_capacity"
    using wf by (simp add: level_contents_def levels_wf_def ring_wf_def)
  show "levels_wf (store_sample h s)"
    using store_ring(1) [OF wf] .
  show "level_contents (store_sample h s) =
      (if True then last_n level_capacity (level_contents h @ [s]) else level_contents h)"
    using store_ring(2) [OF wf] by simp
qed

lemma store_other [simp]:
  "lv_started_ms (store_sample h s) = lv_started_ms h"
  "lv_observed_until_ms (store_sample h s) = lv_observed_until_ms h"
  by (simp_all add: store_sample_def Let_def)

lemma store_discarded:
  assumes "levels_refine h g"
  shows "lv_discarded_ms (store_sample h s) = log_discarded (lg_samples g @ [s])"
proof -
  let ?n = "length (lg_samples g)"
  have wf: "levels_wf h" and c: "level_contents h = last_n level_capacity (lg_samples g)"
    and d: "lv_discarded_ms h = log_discarded (lg_samples g)"
    using assms by (simp_all add: levels_refine_def)
  have n: "lv_count h = min level_capacity ?n"
    using arg_cong [OF c, of length] by (simp add: level_contents_def)
  show ?thesis
  proof (cases "?n < level_capacity")
    case True
    then show ?thesis using n d by (simp add: store_sample_def log_discarded_def Let_def)
  next
    case False
    then have full: "lv_count h = level_capacity" using n by simp
    have "lv_samples h ! lv_first h = level_contents h ! 0"
      using wf full by (simp add: level_contents_def ring_contents_nth levels_wf_def ring_wf_def)
    also have "\<dots> = lg_samples g ! (?n - level_capacity)"
      using False by (simp add: c last_n_def)
    finally have eq: "lv_samples h ! lv_first h = lg_samples g ! (?n - level_capacity)" .
    have i: "?n - level_capacity < ?n" using False level_capacity_pos by linarith
    show ?thesis using full False i eq
      
      by (simp add: store_sample_def log_discarded_def Let_def nth_append)
  qed
qed

lemma until_refine: "levels_refine h g \<Longrightarrow> levels_refine (h\<lparr>lv_observed_until_ms := u\<rparr>) (g\<lparr>lg_until := u\<rparr>)"
  by (simp add: levels_refine_def levels_wf_def level_contents_def)

lemma store_refine:
  assumes "levels_refine h g"
  shows "levels_refine (store_sample h s) (g\<lparr>lg_samples := lg_samples g @ [s]\<rparr>)"
proof -
  have wf: "levels_wf h" and c: "level_contents h = last_n level_capacity (lg_samples g)"
    using assms by (simp_all add: levels_refine_def)
  have "level_contents (store_sample h s) = last_n level_capacity (lg_samples g @ [s])"
    using levels.add_contents [OF wf, of s] by (simp add: c last_n_append)
  then show ?thesis
    using assms levels.add_wf [OF wf, of s] store_discarded [OF assms, of s]
    by (simp add: levels_refine_def)
qed

lemma reset_refine: "levels_refine (reset_levels u) \<lparr>lg_started = u, lg_samples = [], lg_until = u\<rparr>"
  by (simp add: levels_refine_def reset_levels_def levels_wf_def ring_wf_def level_contents_def
      ring_contents_def log_discarded_def last_n_def)

definition tick_steps :: "levels_state \<Rightarrow> level_tick \<Rightarrow> bool" where
  "tick_steps w t = clock_step (lw_last_wall w) (lw_last_mono w) (ls_unix_ms (lt_sample t)) (lt_mono t)"

lemma tick_refine:
  assumes "lw_writer w = Some s" "levels_refine (sl_history s) g"
  shows "\<exists>s'. lw_writer (motion_levels_tick w t) = Some s' \<and>
    levels_refine (sl_history s') (log_tick (tick_steps w t) t g) \<and>
    sl_sequence s' = sl_sequence s + 2 \<and> sl_magic s' = sl_magic s \<and> sl_version s' = sl_version s"
proof -
  let ?u = "ls_unix_ms (lt_sample t)"
  let ?h0 = "if tick_steps w t then reset_levels ?u else sl_history s"
  let ?g0 = "if tick_steps w t then \<lparr>lg_started = ?u, lg_samples = [], lg_until = ?u\<rparr> else g"
  have "levels_refine ?h0 ?g0" using assms(2) reset_refine by simp
  note r1 = until_refine [OF this, of ?u]
  have g: "g\<lparr>lg_until := u, lg_samples := lg_samples g\<rparr> = g\<lparr>lg_until := u\<rparr>" for u
    by (cases g) simp
  have r2: "levels_refine (if sample_kept (lt_active t) (lt_valid t) (lt_sample t)
      then store_sample (?h0\<lparr>lv_observed_until_ms := ?u\<rparr>) (lt_sample t)
      else ?h0\<lparr>lv_observed_until_ms := ?u\<rparr>) (log_tick (tick_steps w t) t g)"
    using r1 store_refine [OF r1, of "lt_sample t"]
    by (cases "tick_steps w t") (simp_all add: log_tick_def Let_def g)
  moreover have "lw_writer (motion_levels_tick w t) = Some (s\<lparr>sl_sequence := sl_sequence s + 2,
      sl_history := (if sample_kept (lt_active t) (lt_valid t) (lt_sample t)
        then store_sample (?h0\<lparr>lv_observed_until_ms := ?u\<rparr>) (lt_sample t)
        else ?h0\<lparr>lv_observed_until_ms := ?u\<rparr>)\<rparr>)"
    using assms(1) by (simp add: motion_levels_tick_def Let_def tick_steps_def)
  ultimately show ?thesis by simp
qed

text \<open>A run of ticks, on the shared ring and on the abstract log.\<close>

fun tick_run :: "levels_state \<Rightarrow> level_tick list \<Rightarrow> levels_state" where
  "tick_run w [] = w"
| "tick_run w (t # ts) = tick_run (motion_levels_tick w t) ts"

fun log_run :: "levels_state \<Rightarrow> level_log \<Rightarrow> level_tick list \<Rightarrow> level_log" where
  "log_run w g [] = g"
| "log_run w g (t # ts) = log_run (motion_levels_tick w t) (log_tick (tick_steps w t) t g) ts"

lemma tick_run_refine:
  assumes "lw_writer w = Some s" "levels_refine (sl_history s) g"
  shows "\<exists>s'. lw_writer (tick_run w ts) = Some s' \<and> levels_refine (sl_history s') (log_run w g ts)"
  using assms
proof (induction ts arbitrary: w s g)
  case (Cons t ts)
  from tick_refine [OF Cons.prems, of t] obtain s' where
    "lw_writer (motion_levels_tick w t) = Some s'"
    "levels_refine (sl_history s') (log_tick (tick_steps w t) t g)" by blast
  from Cons.IH [OF this] show ?case by simp
qed simp

text \<open>
  C20.  The sample ring refines an unbounded log: through any ticks, clock steps included, it holds
  in order the latest 512 samples accepted since the log began, \<open>discarded_ms\<close> is the time of the
  newest sample it no longer holds (or -1), and the start and end of the observed span are exact.
\<close>

theorem levels_refine_log:
  assumes "lw_writer w = Some s" "levels_refine (sl_history s) g"
  shows "\<exists>s'. lw_writer (tick_run w ts) = Some s' \<and>
    level_contents (sl_history s') = last_n 512 (lg_samples (log_run w g ts)) \<and>
    lv_discarded_ms (sl_history s') = log_discarded (lg_samples (log_run w g ts)) \<and>
    lv_started_ms (sl_history s') = lg_started (log_run w g ts) \<and>
    lv_observed_until_ms (sl_history s') = lg_until (log_run w g ts)"
  using tick_run_refine [OF assms, of ts] by (auto simp: levels_refine_def level_capacity_def)

section \<open>Restarting\<close>

text \<open>
   Restarting the detector keeps the ring exactly when what the file holds is whole and not from
  the future; then no sample and no bound is lost.  Otherwise coverage begins afresh at the present.
  In both cases readers that hold the mapping see an even generation.
\<close>

theorem levels_restart:
  assumes "le_open_ok e" "le_truncate_ok e" "le_file e = Some f"
  shows "\<exists>w' s. motion_levels_start w e = (0, w') \<and> lw_writer w' = Some s \<and> even (sl_sequence s) \<and>
    sl_history s = (if levels_retain f (le_now e) then sl_history f else reset_levels (le_now e)) \<and>
    (length (lv_samples (sl_history f)) = 512 \<longrightarrow> levels_wf (sl_history s))"
proof -
  have ev: "even (x + (x AND 1) + 2)" for x :: u32
    by (cases "odd x") (simp_all add: and_one_eq mod_2_eq_odd)
  have "levels_wf (reset_levels (le_now e))"
    using reset_refine by (simp add: levels_refine_def)
  then show ?thesis using assms ev
    by (auto simp: motion_levels_start_def Let_def levels_retain_def levels_wf_def ring_wf_def
        level_capacity_def)
qed

section \<open>Witnesses\<close>

definition fresh_levels :: levels_state where
  "fresh_levels = \<lparr>lw_writer = Some \<lparr>sl_magic = level_magic, sl_version = 2, sl_sequence = 2,
     sl_history = reset_levels 10\<rparr>, lw_last_wall = 0, lw_last_mono = 0, lw_active = False,
     lw_burst = 0, lw_next_ms = 0\<rparr>"

definition a_sample :: "int \<Rightarrow> level_sample" where
  "a_sample u = \<lparr>ls_unix_ms = u, ls_bin_ratio = Fin 1, ls_scene = 0, ls_move = 1,
     ls_moving_level = 3, ls_moving_th = 0\<rparr>"

definition a_tick :: "int \<Rightarrow> int \<Rightarrow> level_tick" where
  "a_tick u m = \<lparr>lt_active = True, lt_valid = True, lt_sample = a_sample u, lt_mono = m\<rparr>"

text \<open>The third tick follows a backward step of the clock, so the ring holds it alone.\<close>

lemma levels_refine_log_witness:
  "\<exists>s'. lw_writer (tick_run fresh_levels [a_tick 10 5, a_tick 210 205, a_tick 50 405]) = Some s' \<and>
     level_contents (sl_history s') = [a_sample 50] \<and> lv_started_ms (sl_history s') = 50"
proof -
  let ?g = "\<lparr>lg_started = 10, lg_samples = [], lg_until = 10\<rparr>"
  let ?ts = "[a_tick 10 5, a_tick 210 205, a_tick 50 405]"
  have run: "lg_samples (log_run fresh_levels ?g ?ts) = [a_sample 50]"
    "lg_started (log_run fresh_levels ?g ?ts) = 50"
    by (simp_all add: fresh_levels_def a_tick_def a_sample_def log_tick_def tick_steps_def
        clock_step_def motion_levels_tick_def sample_kept_def Let_def)
  have "lw_writer fresh_levels = Some (the (lw_writer fresh_levels))"
    "levels_refine (sl_history (the (lw_writer fresh_levels))) ?g"
    using reset_refine by (simp_all add: fresh_levels_def)
  from levels_refine_log [OF this, of ?ts] show ?thesis
    unfolding run by (auto simp: last_n_def)
qed

lemma levels_restart_witness:
  "\<exists>w' s. motion_levels_start fresh_levels \<lparr>le_open_ok = True, le_truncate_ok = True,
       le_file = lw_writer fresh_levels, le_now = 20\<rparr> = (0, w') \<and> lw_writer w' = Some s \<and>
     sl_history s = reset_levels 10 \<and> levels_wf (sl_history s)"
  using levels_restart [of "\<lparr>le_open_ok = True, le_truncate_ok = True,
      le_file = lw_writer fresh_levels, le_now = 20\<rparr>" "the (lw_writer fresh_levels)" fresh_levels]
  by (auto simp: fresh_levels_def levels_retain_def reset_levels_def level_capacity_def)

end
