(* ===== verification/Motion_Mask.thy ===== *)
theory Motion_Mask
  imports Bounded_Read Floats
begin

text \<open>
  \<open>src/ipc_cmd/ipc_cmd/motion_map.h\<close> and \<open>src/motiond/motiond/motion_mask.h\<close>: the encoder's
  motion vectors, published by \<open>rmm\<close> in a shared file, and the detector's spatial score over the
  cells the user did not exclude.  What the mapped file holds at each load is an argument of the
  reader; theory \<open>Seqlock\<close> relates the copies to the writer's steps.
\<close>

section \<open>State\<close>

definition map_magic :: u32 where "map_magic = 0x594d4150"
definition map_version :: u32 where "map_version = 2"
definition map_legacy_version :: u32 where "map_legacy_version = 1"
definition map_cols :: nat where "map_cols = 40"
definition map_rows :: nat where "map_rows = 23"
definition map_blocks :: nat where "map_blocks = map_cols * map_rows"
definition mask_cols :: nat where "mask_cols = 20"
definition mask_rows :: nat where "mask_rows = 12"
definition mask_cells :: nat where "mask_cells = mask_cols * mask_rows"

lemmas map_consts = map_cols_def map_rows_def map_blocks_def mask_cols_def mask_rows_def mask_cells_def

record map_frame =
  mf_pid :: u32
  mf_frame :: u32
  mf_p_frame :: u32
  mf_monotonic_ms :: int
  mf_vectors :: "byte list"
  mf_difference :: "byte list"

text \<open>The mapping is a flag: what it shows is an argument of the reader.\<close>

record motion_mask =
  mm_enabled :: bool
  mm_vector_pixels :: int
  mm_difference_threshold :: int
  mm_have_previous :: u32
  mm_cells :: string
  mm_activity :: string
  mm_shared :: bool
  mm_frame :: map_frame
  mm_previous :: "byte list"
  mm_last_pid :: u32
  mm_last_frame :: u32
  mm_source_version :: u32
  mm_previous_ms :: int
  mm_retry_after :: int
  mm_first_map_ms :: int
  mm_last_predicted_ms :: int
  mm_ratio :: c_double
  mm_error :: int
  mm_fallback :: bool

definition motion_mask_valid :: "string \<Rightarrow> bool" where
  "motion_mask_valid cells \<longleftrightarrow> length cells = mask_cells \<and>
     list_all (\<lambda>c. c = CHR ''0'' \<or> c = CHR ''1'') cells"

section \<open>Vectors\<close>

definition motion_mask_signed :: "u32 \<Rightarrow> u32 \<Rightarrow> int" where
  "motion_mask_signed bits sign = sint (bits XOR sign) - sint sign"

definition vector_lo :: "byte list \<Rightarrow> u32" where
  "vector_lo p = ucast (p ! 0) OR push_bit 8 (ucast (p ! 1)) OR push_bit 16 (ucast (p ! 2)) OR
     push_bit 24 (ucast (p ! 3))"

definition vector_hi :: "byte list \<Rightarrow> u32" where
  "vector_hi p = ucast (p ! 4) OR push_bit 8 (ucast (p ! 5)) OR push_bit 16 (ucast (p ! 6))"

definition sub_x :: "byte list \<Rightarrow> nat \<Rightarrow> u32" where
  "sub_x p k = (if k = 3 then drop_bit 3 (ucast (p ! 4)) else drop_bit (k * 10 + 5) (vector_lo p) AND 31)"

definition sub_y :: "byte list \<Rightarrow> nat \<Rightarrow> u32" where
  "sub_y p k = (if k = 3 then push_bit 2 (ucast (p ! 4 AND 7)) OR drop_bit 6 (ucast (p ! 3))
     else drop_bit (k * 10) (vector_lo p) AND 31)"

definition motion_mask_vector :: "byte list \<Rightarrow> int \<Rightarrow> bool" where
  "motion_mask_vector p pixels =
     (if p ! 6 AND 128 \<noteq> 0 then False
      else
        let base_x = motion_mask_signed (drop_bit 15 (vector_hi p) AND 255) 128 * 4;
            base_y = motion_mask_signed (ucast (p ! 5 AND 127)) 64 * 4;
            threshold = pixels * 4
        in list_ex (\<lambda>k.
             let x = base_x + motion_mask_signed (sub_x p k) 16;
                 y = base_y + motion_mask_signed (sub_y p k) 16
             in threshold \<le> x \<or> x \<le> - threshold \<or> threshold \<le> y \<or> y \<le> - threshold) [0..<4])"

section \<open>Score\<close>

definition block_height :: "nat \<Rightarrow> nat" where
  "block_height y = (if y = 22 then 8 else 16)"

definition block_cell :: "nat \<Rightarrow> nat \<Rightarrow> nat" where
  "block_cell y x =
     (let h = block_height y; row = (y * 16 + h div 2) * mask_rows div 360; col = x div 2
      in row * mask_cols + col)"

definition mask_temporal :: "motion_mask \<Rightarrow> map_frame \<Rightarrow> bool" where
  "mask_temporal m s \<longleftrightarrow> mm_have_previous m \<noteq> 0 \<and> mf_pid s = mm_last_pid m \<and>
     mm_previous_ms m < mf_monotonic_ms s \<and> mf_monotonic_ms s - mm_previous_ms m \<le> 500"

definition block_moving :: "motion_mask \<Rightarrow> map_frame \<Rightarrow> nat \<Rightarrow> bool" where
  "block_moving m s i =
     (let p = take 8 (drop (i * 8) (mf_vectors s));
          delta = \<bar>uint (mf_difference s ! i) - uint (mm_previous m ! i)\<bar>
      in mf_p_frame s \<noteq> 0 \<and>
         (motion_mask_vector p (mm_vector_pixels m) \<or>
          (mask_temporal m s \<and> p ! 6 AND 128 \<noteq> 0 \<and> 0 < mm_difference_threshold m \<and>
           mm_difference_threshold m \<le> delta)))"

definition block_order :: "(nat \<times> nat) list" where
  "block_order = List.product [0..<map_rows] [0..<map_cols]"

fun score_blocks ::
  "motion_mask \<Rightarrow> map_frame \<Rightarrow> (nat \<times> nat) list \<Rightarrow> string \<times> nat \<Rightarrow> string \<times> nat" where
  "score_blocks m s [] acc = acc"
| "score_blocks m s ((y, x) # bs) (activity, moving) =
     score_blocks m s bs
       (if block_moving m s (y * map_cols + x)
        then (activity[block_cell y x := CHR ''1''],
              if mm_cells m ! block_cell y x = CHR ''0'' then moving + 16 * block_height y else moving)
        else (activity, moving))"

definition motion_mask_score :: "motion_mask \<Rightarrow> map_frame \<Rightarrow> motion_mask \<times> c_double" where
  "motion_mask_score m s =
     (let (activity, moving) = score_blocks m s block_order (replicate mask_cells CHR ''0'', 0)
      in (m\<lparr>mm_activity := activity, mm_previous := mf_difference s, mm_have_previous := mf_p_frame s,
            mm_previous_ms := mf_monotonic_ms s, mm_last_pid := mf_pid s,
            mm_last_frame := mf_frame s\<rparr>,
          lit (of_nat moving * 100 / (640 * 360))))"

section \<open>Reading the shared frame\<close>

definition motion_mask_close :: "motion_mask \<Rightarrow> motion_mask" where
  "motion_mask_close m = m\<lparr>mm_shared := False\<rparr>"

text \<open>The loads of one attempt, in program order.\<close>

record mask_attempt =
  ma_first :: u32
  ma_version :: u32
  ma_candidate :: map_frame
  ma_second :: u32
  ma_version_again :: u32

record mask_env =
  me_open_ok :: bool
  me_stat_ok :: bool         \<comment> \<open>a regular file of the right size\<close>
  me_mmap_ok :: bool
  me_magic :: u32
  me_version :: u32
  me_attempts :: "mask_attempt list"

definition mask_connect :: "motion_mask \<Rightarrow> int \<Rightarrow> mask_env \<Rightarrow> motion_mask" where
  "mask_connect m now e =
     (if mm_shared m then m
      else if now < mm_retry_after m then m\<lparr>mm_error := 1\<rparr>
      else
        let m1 = m\<lparr>mm_retry_after := now + 1000\<rparr>
        in if \<not> me_open_ok e \<or> \<not> me_stat_ok e \<or> \<not> me_mmap_ok e then m1\<lparr>mm_error := 1\<rparr>
           else if me_magic e \<noteq> map_magic \<or>
             (me_version e \<noteq> map_version \<and> me_version e \<noteq> map_legacy_version)
           then m1\<lparr>mm_error := 1\<rparr>
           else m1\<lparr>mm_shared := True\<rparr>)"

text \<open>What follows the loop when no attempt returned.\<close>

definition mask_overlap :: "motion_mask \<Rightarrow> int \<Rightarrow> motion_mask \<times> int" where
  "mask_overlap m now =
     (if mm_last_pid m \<noteq> 0 \<and> mf_monotonic_ms (mm_frame m) \<le> now \<and>
         now - mf_monotonic_ms (mm_frame m) \<le> 500
      then (m\<lparr>mm_error := 0\<rparr>, 0)
      else (m\<lparr>mm_error := 2\<rparr>, -1))"

definition mask_accept :: "motion_mask \<Rightarrow> int \<Rightarrow> u32 \<Rightarrow> map_frame \<Rightarrow> motion_mask \<times> int" where
  "mask_accept m now version c =
     (let candidate = (if version = map_legacy_version
            then c\<lparr>mf_p_frame := (if mf_p_frame c = 0 then 1 else 0)\<rparr> else c);
          m1 = (if mm_first_map_ms m = 0 then m\<lparr>mm_first_map_ms := now\<rparr> else m);
          m2 = (if mf_p_frame candidate \<noteq> 0 then m1\<lparr>mm_last_predicted_ms := now\<rparr> else m1);
          since = (if mm_last_predicted_ms m2 \<noteq> 0 then mm_last_predicted_ms m2
                   else mm_first_map_ms m2)
      in if 2000 < now - since then (m2\<lparr>mm_error := 3\<rparr>, -1)
         else
           let m3 = m2\<lparr>mm_source_version := version, mm_frame := candidate, mm_error := 0\<rparr>
           in if mf_pid candidate = mm_last_pid m3 \<and> mf_frame candidate = mm_last_frame m3
              then (m3, 0)
              else let (m4, ratio) = motion_mask_score m3 candidate
                   in (m4\<lparr>mm_ratio := ratio\<rparr>, 1))"

fun mask_attempts :: "nat \<Rightarrow> motion_mask \<Rightarrow> int \<Rightarrow> mask_attempt list \<Rightarrow> motion_mask \<times> int" where
  "mask_attempts 0 m now as = mask_overlap m now"
| "mask_attempts n m now [] = mask_overlap m now"
| "mask_attempts (Suc n) m now (a # as) =
     (if ma_first a = 0 \<or> ma_first a AND 1 \<noteq> 0 then mask_attempts n m now as
      else if ma_version a \<noteq> map_version \<and> ma_version a \<noteq> map_legacy_version
      then mask_overlap m now
      else if ma_first a \<noteq> ma_second a then mask_attempts n m now as
      else if ma_version a \<noteq> ma_version_again a then mask_attempts n m now as
      else if mf_pid (ma_candidate a) = 0 \<or> now < mf_monotonic_ms (ma_candidate a) \<or>
        500 < now - mf_monotonic_ms (ma_candidate a)
      then mask_overlap m now
      else mask_accept m now (ma_version a) (ma_candidate a))"

text \<open>
  The result, and the request the reader leaves in the shared file (\<open>reader_ms\<close>, with \<open>enabled\<close>
  set to 1) when it is mapped.
\<close>

definition motion_mask_read :: "motion_mask \<Rightarrow> int \<Rightarrow> mask_env \<Rightarrow> motion_mask \<times> int \<times> u32 option" where
  "motion_mask_read m now e =
     (let m1 = mask_connect m now e
      in if \<not> mm_shared m1 then (m1, -1, None)
         else let (m2, r) = mask_attempts 2 m1 now (me_attempts e) in (m2, r, Some (word_of_int now)))"

section \<open>The vector format\<close>

text \<open>The seven bytes the decoder uses as one little-endian word, and a signed field of it.\<close>

definition packed :: "byte list \<Rightarrow> u64" where
  "packed p = ucast (p ! 0) OR push_bit 8 (ucast (p ! 1)) OR push_bit 16 (ucast (p ! 2)) OR
     push_bit 24 (ucast (p ! 3)) OR push_bit 32 (ucast (p ! 4)) OR push_bit 40 (ucast (p ! 5)) OR
     push_bit 48 (ucast (p ! 6))"

definition packed_field :: "byte list \<Rightarrow> nat \<Rightarrow> nat \<Rightarrow> int" where
  "packed_field p pos n = signed_take_bit (n - 1) (uint (drop_bit pos (packed p)))"

lemma signed_small:
  "list_all (\<lambda>j. motion_mask_signed (word_of_int j) 16 = signed_take_bit 4 j) [0..31]"
  "list_all (\<lambda>j. motion_mask_signed (word_of_int j) 64 = signed_take_bit 6 j) [0..127]"
  "list_all (\<lambda>j. motion_mask_signed (word_of_int j) 128 = signed_take_bit 7 j) [0..255]"
  by code_simp+

lemma signed_eq:
  "motion_mask_signed (word_of_int (take_bit 5 k)) 16 = signed_take_bit 4 k"
  "motion_mask_signed (word_of_int (take_bit 7 k)) 64 = signed_take_bit 6 k"
  "motion_mask_signed (word_of_int (take_bit 8 k)) 128 = signed_take_bit 7 k"
proof -
  have r: "take_bit n k \<in> {0 .. 2 ^ n - 1}" for n :: nat by (simp add: take_bit_int_less_exp order.strict_implies_order zle_diff1_eq)
  have "take_bit 5 k \<in> {0..31}" "take_bit 7 k \<in> {0..127}" "take_bit 8 k \<in> {0..255}"
    using r [of 5] r [of 7] r [of 8] by simp_all
  then have "motion_mask_signed (word_of_int (take_bit 5 k)) 16 = signed_take_bit 4 (take_bit 5 k)"
    "motion_mask_signed (word_of_int (take_bit 7 k)) 64 = signed_take_bit 6 (take_bit 7 k)"
    "motion_mask_signed (word_of_int (take_bit 8 k)) 128 = signed_take_bit 7 (take_bit 8 k)"
    using signed_small [unfolded list_all_iff] by auto
  moreover have "signed_take_bit 4 (take_bit 5 k) = signed_take_bit 4 k"
    "signed_take_bit 6 (take_bit 7 k) = signed_take_bit 6 k"
    "signed_take_bit 7 (take_bit 8 k) = signed_take_bit 7 k"
    by (simp_all add: signed_take_bit_take_bit)
  ultimately show
  "motion_mask_signed (word_of_int (take_bit 5 k)) 16 = signed_take_bit 4 k"
  "motion_mask_signed (word_of_int (take_bit 7 k)) 64 = signed_take_bit 6 k"
  "motion_mask_signed (word_of_int (take_bit 8 k)) 128 = signed_take_bit 7 k" by simp_all
qed

lemma byte_bit_ge: "8 \<le> n \<Longrightarrow> \<not> bit (b :: byte) n"
  using bit_imp_le_length [of b n] by auto

lemma bit_packed_at:
  assumes "r < 8"
  shows "bit (packed p) (8 * i + r) \<longleftrightarrow> i < 7 \<and> bit (p ! i) r"
proof (cases "i < 7")
  case True
  then consider "i = 0" | "i = 1" | "i = 2" | "i = 3" | "i = 4" | "i = 5" | "i = 6" by linarith
  then show ?thesis using assms
    by cases (simp_all add: packed_def bit_simps byte_bit_ge)
next
  case False
  then show ?thesis by (auto simp: packed_def bit_simps byte_bit_ge)
qed

lemma bit_packed: "bit (packed p) n \<longleftrightarrow> n < 56 \<and> bit (p ! (n div 8)) (n mod 8)"
  using bit_packed_at [of "n mod 8" p "n div 8"] by auto

lemma bit_lo: "bit (vector_lo p) n \<longleftrightarrow> n < 32 \<and> bit (packed p) n"
proof (cases "n < 32")
  case True
  then show ?thesis by (auto simp: vector_lo_def packed_def bit_simps byte_bit_ge)
next
  case False
  then show ?thesis using bit_imp_le_length [of "vector_lo p" n] by auto
qed

lemma bit_hi: "bit (vector_hi p) n \<longleftrightarrow> n < 24 \<and> bit (packed p) (n + 32)"
proof (cases "n < 24")
  case True
  then show ?thesis by (auto simp: vector_hi_def packed_def bit_simps byte_bit_ge)
next
  case False
  then show ?thesis by (simp add: vector_hi_def bit_simps byte_bit_ge)
qed

lemma and_low:
  "(x :: u32) AND 31 = take_bit 5 x" "(x :: u32) AND 255 = take_bit 8 x"
  "(y :: byte) AND 7 = take_bit 3 y" "y AND 127 = take_bit 7 y"
  by (simp_all add: take_bit_eq_mask mask_eq_exp_minus_1)

lemma field_bits:
  "bit (word_of_int (take_bit m (uint (drop_bit pos (packed p)))) :: u32) n \<longleftrightarrow>
     n < 32 \<and> n < m \<and> bit (packed p) (pos + n)"
  by (auto simp: bit_simps)

lemma sub_fields:
  assumes "k < 4"
  shows "sub_x p k = word_of_int (take_bit 5 (uint (drop_bit (10 * k + 5) (packed p))))"
    and "sub_y p k = word_of_int (take_bit 5 (uint (drop_bit (10 * k) (packed p))))"
proof -
  show "sub_x p k = word_of_int (take_bit 5 (uint (drop_bit (10 * k + 5) (packed p))))"
  proof (rule bit_word_eqI)
    fix n assume n: "n < LENGTH(32)"
    show "bit (sub_x p k) n = bit (word_of_int (take_bit 5 (uint (drop_bit (10 * k + 5) (packed p)))) :: u32) n"
    proof (cases "k = 3")
      case True
      have d: "(35 + n) div 8 = 4 \<and> (35 + n) mod 8 = 3 + n" if "n < 5" using that by presburger
      have "bit (packed p) (35 + n) \<longleftrightarrow> bit (p ! 4) (3 + n)" if "n < 5"
        unfolding bit_packed using d [OF that] that by simp
      then show ?thesis using True n unfolding field_bits
        by (cases "n < 5") (auto simp: sub_x_def bit_simps byte_bit_ge)
    next
      case False
      then have "k < 3" using assms by simp
      then show ?thesis using n unfolding field_bits
        by (auto simp: sub_x_def bit_simps bit_lo and_low mult.commute add_ac)
    qed
  qed
  show "sub_y p k = word_of_int (take_bit 5 (uint (drop_bit (10 * k) (packed p))))"
  proof (rule bit_word_eqI)
    fix n assume n: "n < LENGTH(32)"
    show "bit (sub_y p k) n = bit (word_of_int (take_bit 5 (uint (drop_bit (10 * k) (packed p)))) :: u32) n"
    proof (cases "k = 3")
      case True
      have d: "(30 + n) div 8 = (if n < 2 then 3 else 4) \<and> (30 + n) mod 8 = (if n < 2 then 6 + n else n - 2)"
        if "n < 5" using that by presburger
      have "bit (packed p) (30 + n) \<longleftrightarrow> (if n < 2 then bit (p ! 3) (6 + n) else bit (p ! 4) (n - 2))"
        if "n < 5"
        unfolding bit_packed using d [OF that] that by simp
      then show ?thesis using True n unfolding field_bits
        by (cases "n < 2"; cases "n < 5") (auto simp: sub_y_def bit_simps and_low byte_bit_ge)
    next
      case False
      then have "k < 3" using assms by simp
      then show ?thesis using n unfolding field_bits
        by (auto simp: sub_y_def bit_simps bit_lo and_low mult.commute add_ac)
    qed
  qed
qed

lemma base_fields:
  "drop_bit 15 (vector_hi p) AND 255 = word_of_int (take_bit 8 (uint (drop_bit 47 (packed p))))"
  "(ucast (p ! 5 AND 127) :: u32) = word_of_int (take_bit 7 (uint (drop_bit 40 (packed p))))"
proof -
  show "drop_bit 15 (vector_hi p) AND 255 = word_of_int (take_bit 8 (uint (drop_bit 47 (packed p))))"
    by (rule bit_word_eqI, unfold field_bits) (auto simp: bit_simps bit_hi and_low add.commute)
  have "bit (packed p) (40 + n) \<longleftrightarrow> bit (p ! 5) n" if "n < 7" for n
    using bit_packed_at [of n p 5] that by simp
  then show "(ucast (p ! 5 AND 127) :: u32) = word_of_int (take_bit 7 (uint (drop_bit 40 (packed p))))"
    by (intro bit_word_eqI, unfold field_bits) (auto simp: bit_simps and_low)
qed

lemma intra_field: "p ! 6 AND 128 = 0 \<longleftrightarrow> \<not> bit (packed p) 55"
proof -
  have "bit (packed p) 55 = bit (p ! 6) 7" using bit_packed_at [of 7 p 6] by simp
  moreover have "(p ! 6 AND 2 ^ 7 = 0) = (\<not> bit (p ! 6) 7)" by (simp only: bit_iff_and_push_bit_not_eq_0 push_bit_of_1 not_not)
  ultimately show ?thesis by simp
qed

text \<open>
  The packed vectors are decoded exactly: a block moves iff it is not intra coded and one of its
  four sub-blocks reaches the threshold in \<open>x\<close> or \<open>y\<close>, where a coordinate is four times a
  signed base (8 bits at bit 47, 7 bits at bit 40 of the little-endian word) plus a signed 5-bit
  offset at bit \<open>10 k + 5\<close> or \<open>10 k\<close>; the special case of the fourth sub-block, whose fields
  straddle two words, follows the same layout.
\<close>

theorem vector_is_decoded:
  "motion_mask_vector p pixels \<longleftrightarrow> \<not> bit (packed p) 55 \<and>
     (\<exists>k<4. 4 * pixels \<le> \<bar>4 * packed_field p 47 8 + packed_field p (10 * k + 5) 5\<bar> \<or>
            4 * pixels \<le> \<bar>4 * packed_field p 40 7 + packed_field p (10 * k) 5\<bar>)"
proof -
  have "motion_mask_signed (sub_x p k) 16 = packed_field p (10 * k + 5) 5"
    "motion_mask_signed (sub_y p k) 16 = packed_field p (10 * k) 5" if "k < 4" for k
    using sub_fields [OF that, of p] by (simp_all add: signed_eq packed_field_def)
  moreover have "motion_mask_signed (drop_bit 15 (vector_hi p) AND 255) 128 = packed_field p 47 8"
    "motion_mask_signed (ucast (p ! 5 AND 127)) 64 = packed_field p 40 7"
    by (simp_all only: base_fields signed_eq packed_field_def) simp_all
  ultimately show ?thesis unfolding motion_mask_vector_def intra_field Let_def list_ex_iff
    by (auto simp: abs_le_iff atLeast0LessThan Bex_def)
qed
section \<open>Bounds of the score\<close>

definition block_area :: "nat \<times> nat \<Rightarrow> nat" where
  "block_area b = 16 * block_height (fst b)"

definition counted :: "motion_mask \<Rightarrow> map_frame \<Rightarrow> nat \<times> nat \<Rightarrow> bool" where
  "counted m s b \<longleftrightarrow> block_moving m s (fst b * map_cols + snd b) \<and>
     mm_cells m ! block_cell (fst b) (snd b) = CHR ''0''"

lemma counted_pair: "counted m s (y, x) \<longleftrightarrow>
    block_moving m s (y * map_cols + x) \<and> mm_cells m ! block_cell y x = CHR ''0''"
  by (simp add: counted_def)

lemma block_area_pair: "block_area (y, x) = 16 * block_height y"
  by (simp add: block_area_def)

lemma score_blocks_area:
  "snd (score_blocks m s bs (a, n)) = n + sum_list (map block_area (filter (counted m s) bs))"
proof (induction bs arbitrary: a n)
  case (Cons b bs)
  then show ?case by (cases b) (simp add: counted_pair block_area_pair)
qed simp

lemma sum_list_product_fst:
  "sum_list (map (\<lambda>b. f (fst b)) (List.product xs ys)) = length ys * sum_list (map f xs :: nat list)"
proof (induction xs)
  case (Cons x xs)
  have "sum_list (map (\<lambda>b. f (fst b)) (map (Pair x) ys)) = length ys * f x"
    by (induction ys) simp_all
  then show ?case using Cons by (simp add: algebra_simps)
qed simp

lemma block_order_area: "sum_list (map block_area block_order) = 640 * 360"
proof -
  have "sum_list (map (\<lambda>y. 16 * block_height y) [0..<23]) = 5760" by code_simp
  moreover have "block_area = (\<lambda>b. 16 * block_height (fst b))"
    by (rule ext) (simp add: block_area_def)
  ultimately show ?thesis
    using sum_list_product_fst [of "\<lambda>y. 16 * block_height y" "[0..<23]" "[0..<40]"]
    by (simp add: block_order_def map_consts)
qed

lemma block_order_iff: "b \<in> set block_order \<longleftrightarrow> fst b < 23 \<and> snd b < 40"
  by (cases b) (auto simp: block_order_def map_consts)

lemma block_rows: "list_all (\<lambda>y. (y * 16 + block_height y div 2) * 12 div 360 < 12) [0..<23]"
  by code_simp

lemma block_order_cells: "b \<in> set block_order \<Longrightarrow> block_cell (fst b) (snd b) < 240"
proof -
  assume "b \<in> set block_order"
  then have "fst b < 23" "snd b < 40" by (simp_all add: block_order_iff)
  moreover have "(fst b * 16 + block_height (fst b) div 2) * 12 div 360 < 12"
    using block_rows \<open>fst b < 23\<close> by (auto simp: list_all_iff)
  ultimately show ?thesis unfolding block_cell_def mask_rows_def mask_cols_def Let_def by linarith
qed

lemma filter_area_mono:
  assumes "\<And>b. b \<in> set bs \<Longrightarrow> P b \<Longrightarrow> Q b"
  shows "sum_list (map block_area (filter P bs)) \<le> sum_list (map block_area (filter Q bs))"
  using assms by (induction bs) (auto intro: add_le_mono trans_le_add2)

definition moving_area :: "motion_mask \<Rightarrow> map_frame \<Rightarrow> nat" where
  "moving_area m s = sum_list (map block_area (filter (counted m s) block_order))"

lemma moving_area_bound: "moving_area m s \<le> 640 * 360"
  using filter_area_mono [of block_order "counted m s" "\<lambda>_. True"] block_order_area
  by (simp add: moving_area_def)

lemma score_value: "snd (motion_mask_score m s) = lit (of_nat (moving_area m s) * 100 / (640 * 360))"
  using score_blocks_area [of m s block_order "replicate mask_cells CHR ''0''" 0]
  by (simp add: motion_mask_score_def moving_area_def case_prod_unfold)

lemma ratio_range: "n \<le> 640 * 360 \<Longrightarrow>
    fp_le (Fin 0) (lit (of_nat n * 100 / (640 * 360))) \<and> fp_le (lit (of_nat n * 100 / (640 * 360))) (Fin 100)"
proof -
  assume n: "n \<le> 640 * 360"
  have "(of_nat n :: rat) \<le> of_nat (640 * 360)" using n by (simp only: of_nat_le_iff)
  then have "(of_nat n * 100 / (640 * 360) :: rat) \<le> of_int 100" by simp
  moreover have "(0 :: rat) \<le> of_nat n * 100 / (640 * 360)" by simp
  ultimately show ?thesis
    using rnd53_nonneg rnd53_le_int [of "of_nat n * 100 / (640 * 360)" 100] by (simp add: lit_def)
qed

lemma length_score_activity:
  "length (fst (score_blocks m s bs (a, n))) = length a"
  by (induction m s bs "(a, n)" arbitrary: a n rule: score_blocks.induct) simp_all

text \<open>The cells shown as active.\<close>

lemma score_activity:
  assumes "list_all (\<lambda>b. block_cell (fst b) (snd b) < length a) bs" "c < length a"
  shows "fst (score_blocks m s bs (a, n)) ! c =
    (if \<exists>b\<in>set bs. block_moving m s (fst b * map_cols + snd b) \<and> block_cell (fst b) (snd b) = c
     then CHR ''1'' else a ! c)"
  using assms
proof (induction m s bs "(a, n)" arbitrary: a n rule: score_blocks.induct)
  case (2 m s y x bs activity moving)
  show ?case
  proof (cases "block_moving m s (y * map_cols + x)")
    case True
    then show ?thesis using "2.prems"
        "2.hyps" [of "activity[block_cell y x := CHR ''1'']"
          "if mm_cells m ! block_cell y x = CHR ''0'' then moving + 16 * block_height y else moving"]
      by (auto simp: nth_list_update)
  next
    case False
    then show ?thesis using "2.prems" "2.hyps" [of activity moving] by auto
  qed
qed simp

text \<open>
  The spatial score: it lies between 0 and 100 percent of the visible image (whose 640 x 360
  pixels the 920 blocks cover exactly); excluding more cells never raises it; excluding all cells
  makes it 0; and the activity map has 240 cells, set exactly where a block moves, excluded or not.
\<close>

theorem mask_score_bounds:
  assumes "motion_mask_score m s = (m', r)"
    and "\<And>c. c < 240 \<Longrightarrow> cells ! c = CHR ''0'' \<Longrightarrow> mm_cells m ! c = CHR ''0''"
  shows "fp_le (Fin 0) r \<and> fp_le r (Fin 100) \<and>
    moving_area (m\<lparr>mm_cells := cells\<rparr>) s \<le> moving_area m s \<and>
    ((\<forall>c<240. mm_cells m ! c \<noteq> CHR ''0'') \<longrightarrow> r = Fin 0) \<and>
    length (mm_activity m') = 240 \<and>
    (\<forall>c<240. mm_activity m' ! c = CHR ''1'' \<longleftrightarrow>
       (\<exists>y<23. \<exists>x<40. block_moving m s (y * 40 + x) \<and> block_cell y x = c))"
proof -
  note cells = block_order_cells
  have r: "r = lit (of_nat (moving_area m s) * 100 / (640 * 360))"
    using score_value [of m s] assms(1) by simp
  have mono: "moving_area (m\<lparr>mm_cells := cells\<rparr>) s \<le> moving_area m s"
    unfolding moving_area_def using cells assms(2)
    by (intro filter_area_mono)
       (auto simp: counted_def block_moving_def mask_temporal_def Let_def)
  have zero: "r = Fin 0" if "\<forall>c<240. mm_cells m ! c \<noteq> CHR ''0''"
  proof -
    have "filter (counted m s) block_order = []"
      using that cells by (auto simp: filter_empty_conv counted_def)
    then show ?thesis by (simp add: r moving_area_def lit_def)
  qed
  have act: "mm_activity m' = fst (score_blocks m s block_order (replicate 240 CHR ''0'', 0))"
    using assms(1) by (auto simp: motion_mask_score_def mask_cells_def mask_rows_def mask_cols_def
        case_prod_unfold Let_def)
  have "mm_activity m' ! c = CHR ''1'' \<longleftrightarrow>
      (\<exists>y<23. \<exists>x<40. block_moving m s (y * 40 + x) \<and> block_cell y x = c)" if "c < 240" for c
    unfolding act using that cells
    by (subst score_activity) (auto simp: list_all_iff Bex_def block_order_iff map_cols_def)
  then show ?thesis
    using mono zero ratio_range [OF moving_area_bound, of m s]
    by (auto simp: r act length_score_activity)
qed

section \<open>What a reader accepts\<close>

definition mask_attempt_ok :: "int \<Rightarrow> mask_attempt \<Rightarrow> bool" where
  "mask_attempt_ok now a \<longleftrightarrow> ma_first a \<noteq> 0 \<and> ma_first a AND 1 = 0 \<and> ma_first a = ma_second a \<and>
     (ma_version a = 2 \<or> ma_version a = 1) \<and> ma_version a = ma_version_again a \<and>
     mf_pid (ma_candidate a) \<noteq> 0 \<and> mf_monotonic_ms (ma_candidate a) \<le> now \<and>
     now - mf_monotonic_ms (ma_candidate a) \<le> 500"

definition published_frame :: "mask_attempt \<Rightarrow> map_frame" where
  "published_frame a = (if ma_version a = 1
     then (ma_candidate a)\<lparr>mf_p_frame := (if mf_p_frame (ma_candidate a) = 0 then 1 else 0)\<rparr>
     else ma_candidate a)"

definition mask_kept :: "motion_mask \<Rightarrow> motion_mask \<Rightarrow> bool" where
  "mask_kept m m' \<longleftrightarrow> mm_ratio m' = mm_ratio m \<and> mm_activity m' = mm_activity m \<and>
     mm_last_pid m' = mm_last_pid m \<and> mm_last_frame m' = mm_last_frame m \<and>
     mm_previous m' = mm_previous m"

definition mask_result_ok :: "motion_mask \<Rightarrow> int \<Rightarrow> mask_attempt list \<Rightarrow> motion_mask \<times> int \<Rightarrow> bool" where
  "mask_result_ok m now as r \<longleftrightarrow> (case r of (m', rc) \<Rightarrow>
     rc \<in> {1, 0, -1} \<and> (rc = -1 \<longleftrightarrow> mm_error m' \<noteq> 0) \<and>
     (rc \<noteq> -1 \<longrightarrow> mf_monotonic_ms (mm_frame m') \<le> now \<and> now - mf_monotonic_ms (mm_frame m') \<le> 500) \<and>
     (rc \<noteq> 1 \<longrightarrow> mask_kept m m') \<and>
     (rc = 1 \<longrightarrow> (\<exists>a\<in>set as. mask_attempt_ok now a \<and> mm_frame m' = published_frame a) \<and>
        (mf_pid (mm_frame m') \<noteq> mm_last_pid m \<or> mf_frame (mm_frame m') \<noteq> mm_last_frame m) \<and>
        mm_last_pid m' = mf_pid (mm_frame m') \<and> mm_last_frame m' = mf_frame (mm_frame m') \<and>
        fp_le (Fin 0) (mm_ratio m') \<and> fp_le (mm_ratio m') (Fin 100)))"

lemma mask_overlap_ok: "mask_result_ok m now as (mask_overlap m now)"
  by (simp add: mask_result_ok_def mask_overlap_def mask_kept_def)

lemma score_fields:
  assumes "motion_mask_score m s = (m', r)"
  shows "mm_frame m' = mm_frame m \<and> mm_error m' = mm_error m \<and> mm_last_pid m' = mf_pid s \<and>
    mm_last_frame m' = mf_frame s \<and> fp_le (Fin 0) r \<and> fp_le r (Fin 100)"
proof -
  have "m' = fst (motion_mask_score m s)" "r = snd (motion_mask_score m s)"
    using assms by simp_all
  then show ?thesis using ratio_range [OF moving_area_bound, of m s]
    unfolding score_value by (simp add: motion_mask_score_def case_prod_unfold Let_def)
qed

lemma mask_accept_ok:
  assumes "mask_attempt_ok now a"
  shows "mask_result_ok m now (a # bs) (mask_accept m now (ma_version a) (ma_candidate a))"
proof -
  let ?c = "published_frame a"
  let ?m1 = "if mm_first_map_ms m = 0 then m\<lparr>mm_first_map_ms := now\<rparr> else m"
  let ?m2 = "if mf_p_frame ?c \<noteq> 0 then ?m1\<lparr>mm_last_predicted_ms := now\<rparr> else ?m1"
  let ?m3 = "?m2\<lparr>mm_source_version := ma_version a, mm_frame := ?c, mm_error := 0\<rparr>"
  have acc: "mask_accept m now (ma_version a) (ma_candidate a) =
      (if 2000 < now - (if mm_last_predicted_ms ?m2 \<noteq> 0 then mm_last_predicted_ms ?m2 else mm_first_map_ms ?m2)
       then (?m2\<lparr>mm_error := 3\<rparr>, -1)
       else if mf_pid ?c = mm_last_pid ?m3 \<and> mf_frame ?c = mm_last_frame ?m3 then (?m3, 0)
       else case motion_mask_score ?m3 ?c of (m4, ratio) \<Rightarrow> (m4\<lparr>mm_ratio := ratio\<rparr>, 1))"
    unfolding mask_accept_def Let_def published_frame_def map_legacy_version_def
    by (simp split del: if_split)
  have c: "mf_monotonic_ms ?c \<le> now" "now - mf_monotonic_ms ?c \<le> 500"
    using assms by (auto simp: mask_attempt_ok_def published_frame_def)
  have kept: "mask_kept m (?m2\<lparr>mm_error := 3\<rparr>)" "mask_kept m ?m3"
    "mm_last_pid ?m3 = mm_last_pid m" "mm_last_frame ?m3 = mm_last_frame m"
    by (auto simp: mask_kept_def)
  obtain m4 ratio where s: "motion_mask_score ?m3 ?c = (m4, ratio)" by fastforce
  note f = score_fields [OF s]
  show ?thesis unfolding acc s using c kept f assms
    by (auto simp: mask_result_ok_def split del: if_split split: if_split_asm)
qed

lemma mask_result_more: "mask_result_ok m now as r \<Longrightarrow> mask_result_ok m now (a # as) r"
  by (auto simp: mask_result_ok_def)

lemma mask_attempts_ok: "mask_result_ok m now (take n as) (mask_attempts n m now as)"
proof (induction n arbitrary: as)
  case 0
  then show ?case by (simp add: mask_overlap_ok)
next
  case (Suc n)
  show ?case
  proof (cases as)
    case Nil
    then show ?thesis by (simp add: mask_overlap_ok)
  next
    case (Cons a bs)
    let ?r = "mask_attempts (Suc n) m now as"
    have "mask_attempt_ok now a \<and> ?r = mask_accept m now (ma_version a) (ma_candidate a) \<or>
        ?r = mask_overlap m now \<or> ?r = mask_attempts n m now bs"
      by (auto simp: Cons mask_attempt_ok_def map_version_def map_legacy_version_def)
    then consider "mask_attempt_ok now a" "?r = mask_accept m now (ma_version a) (ma_candidate a)"
      | "?r = mask_overlap m now" | "?r = mask_attempts n m now bs" by blast
    then show ?thesis
    proof cases
      case 1
      then show ?thesis using mask_accept_ok [of now a m "take n bs"]
        by (cases "mask_accept m now (ma_version a) (ma_candidate a)")
           (auto simp: Cons mask_result_ok_def)
    next
      case 2
      then show ?thesis using mask_overlap_ok by simp
    next
      case 3
      then show ?thesis using Suc [of bs] mask_result_more by (simp add: Cons)
    qed
  qed
qed

lemma mask_connect_kept:
  "\<not> mm_shared (mask_connect m now e) \<Longrightarrow> mm_error (mask_connect m now e) = 1"
  "mask_kept m (mask_connect m now e)"
  "mm_last_pid (mask_connect m now e) = mm_last_pid m" "mm_last_frame (mask_connect m now e) = mm_last_frame m"
  by (auto simp: mask_connect_def mask_kept_def Let_def split: if_splits)

text \<open>
  What the spatial detector uses is fresh: a read returns 1 only for a frame copied in one of
  its first two attempts with an unchanged even generation and a known version, from a live encoder,
  at most 500 ms old, not the frame scored last, and then the ratio lies in 0..100; it returns 0
  only while the kept score is at most 500 ms old, leaving it unchanged; otherwise it returns -1
  with the error set.  The encoder is asked for frames exactly while the file is mapped.
\<close>

theorem mask_read_is_fresh:
  assumes "motion_mask_read m now e = (m', rc, request)"
  shows "mask_result_ok m now (take 2 (me_attempts e)) (m', rc) \<and>
    (request = None \<longrightarrow> rc = -1) \<and> (request \<noteq> None \<longrightarrow> request = Some (word_of_int now))"
proof (cases "mm_shared (mask_connect m now e)")
  case False
  then show ?thesis using assms mask_connect_kept [of m now e]
    by (auto simp: motion_mask_read_def mask_result_ok_def Let_def)
next
  case True
  let ?m1 = "mask_connect m now e"
  have r: "(m', rc) = mask_attempts 2 ?m1 now (me_attempts e)" "request = Some (word_of_int now)"
    using assms True by (auto simp: motion_mask_read_def Let_def case_prod_unfold)
  have "mask_result_ok ?m1 now (take 2 (me_attempts e)) (m', rc)"
    unfolding r by (rule mask_attempts_ok)
  then show ?thesis using r(2) mask_connect_kept(2-4) [of m now e]
    by (auto simp: mask_result_ok_def mask_kept_def)
qed

section \<open>Witnesses\<close>

definition still_frame :: map_frame where
  "still_frame = \<lparr>mf_pid = 7, mf_frame = 1, mf_p_frame = 1, mf_monotonic_ms = 900,
     mf_vectors = replicate 7360 0, mf_difference = replicate 920 0\<rparr>"

definition open_mask :: motion_mask where
  "open_mask = \<lparr>mm_enabled = True, mm_vector_pixels = 1, mm_difference_threshold = 12,
     mm_have_previous = 0, mm_cells = replicate 240 CHR ''1'', mm_activity = [], mm_shared = False,
     mm_frame = still_frame, mm_previous = replicate 920 0, mm_last_pid = 0, mm_last_frame = 0,
     mm_source_version = 0, mm_previous_ms = 0, mm_retry_after = 0, mm_first_map_ms = 0,
     mm_last_predicted_ms = 0, mm_ratio = Fin 0, mm_error = 0, mm_fallback = False\<rparr>"

lemma mask_score_bounds_witness: "snd (motion_mask_score open_mask still_frame) = Fin 0"
  using mask_score_bounds [OF surjective_pairing, of "replicate 240 CHR ''1''" open_mask still_frame]
  by (auto simp: open_mask_def)

definition still_env :: mask_env where
  "still_env = \<lparr>me_open_ok = True, me_stat_ok = True, me_mmap_ok = True,
     me_magic = map_magic, me_version = 2, me_attempts = [\<lparr>ma_first = 4, ma_version = 2,
       ma_candidate = still_frame, ma_second = 4, ma_version_again = 2\<rparr>]\<rparr>"

lemma mask_attempts_first: "mask_attempt_ok now a \<Longrightarrow>
    mask_attempts 2 m now (a # as) = mask_accept m now (ma_version a) (ma_candidate a)"
  unfolding numeral_2_eq_2
  by (auto simp: mask_attempt_ok_def map_version_def map_legacy_version_def)

lemma mask_read_is_fresh_witness:
  "\<exists>m'. motion_mask_read open_mask 1000 still_env = (m', 1, Some 1000) \<and>
     mm_last_pid m' = mf_pid (mm_frame m') \<and> fp_le (mm_ratio m') (Fin 100)"
proof -
  have "\<exists>m'. motion_mask_read open_mask 1000 still_env = (m', 1, Some 1000)"
    by (simp add: motion_mask_read_def still_env_def mask_connect_def open_mask_def still_frame_def
        mask_accept_def map_version_def map_legacy_version_def case_prod_unfold Let_def
        mask_attempts_first mask_attempt_ok_def)
  then obtain m' where r: "motion_mask_read open_mask 1000 still_env = (m', 1, Some 1000)" by blast
  show ?thesis using r mask_read_is_fresh [OF r] by (auto simp: mask_result_ok_def)
qed

end
