(* ===== verification/Ipc2file.thy ===== *)
theory Ipc2file
  imports Motion_Events
begin

text \<open>
  \<open>src/ipc_cmd/ipc_cmd/ipc2file.c\<close> and \<open>.h\<close>: the consumer of the second dispatch queue.  It
  turns 16-byte messages into alarm files for the ONVIF server and records motion in the event
  history.  What the kernel answers (queue attributes, \<open>fopen\<close>, the clock) is an argument of each
  step; the process is driven by a list of events.
\<close>

section \<open>Messages\<close>

datatype ipc_type = IPC_MSG_UNRECOGNIZED | IPC_MSG_MOTION_START | IPC_MSG_MOTION_START_C
  | IPC_MSG_MOTION_STOP | IPC_MSG_AI_HUMAN_DETECTION | IPC_MSG_AI_VEHICLE_DETECTION
  | IPC_MSG_AI_ANIMAL_DETECTION | IPC_MSG_BABY_CRYING | IPC_MSG_SOUND_DETECTION | IPC_MSG_COMMAND
  | IPC_MSG_LAST

fun ipc_type_number :: "ipc_type \<Rightarrow> nat" where
  "ipc_type_number IPC_MSG_UNRECOGNIZED = 0"
| "ipc_type_number IPC_MSG_MOTION_START = 1"
| "ipc_type_number IPC_MSG_MOTION_START_C = 2"
| "ipc_type_number IPC_MSG_MOTION_STOP = 3"
| "ipc_type_number IPC_MSG_AI_HUMAN_DETECTION = 4"
| "ipc_type_number IPC_MSG_AI_VEHICLE_DETECTION = 5"
| "ipc_type_number IPC_MSG_AI_ANIMAL_DETECTION = 6"
| "ipc_type_number IPC_MSG_BABY_CRYING = 7"
| "ipc_type_number IPC_MSG_SOUND_DETECTION = 8"
| "ipc_type_number IPC_MSG_COMMAND = 9"
| "ipc_type_number IPC_MSG_LAST = 10"

text \<open>The enumeration is ordered by its numbers, as C compares it.\<close>

lemma ipc_type_number_inj: "ipc_type_number a = ipc_type_number b \<Longrightarrow> a = b"
proof -
  let ?ts = "[IPC_MSG_UNRECOGNIZED, IPC_MSG_MOTION_START, IPC_MSG_MOTION_START_C, IPC_MSG_MOTION_STOP,
    IPC_MSG_AI_HUMAN_DETECTION, IPC_MSG_AI_VEHICLE_DETECTION, IPC_MSG_AI_ANIMAL_DETECTION,
    IPC_MSG_BABY_CRYING, IPC_MSG_SOUND_DETECTION, IPC_MSG_COMMAND, IPC_MSG_LAST]"
  have "t = ?ts ! ipc_type_number t" for t by (cases t) simp_all
  then show "ipc_type_number a = ipc_type_number b \<Longrightarrow> a = b" by metis
qed

instantiation ipc_type :: linorder
begin

definition less_eq_ipc_type :: "ipc_type \<Rightarrow> ipc_type \<Rightarrow> bool" where
  "less_eq_ipc_type a b \<longleftrightarrow> ipc_type_number a \<le> ipc_type_number b"

definition less_ipc_type :: "ipc_type \<Rightarrow> ipc_type \<Rightarrow> bool" where
  "less_ipc_type a b \<longleftrightarrow> ipc_type_number a < ipc_type_number b"

instance
proof
  fix a b c :: ipc_type
  show "(a < b) = (a \<le> b \<and> \<not> b \<le> a)" by (auto simp: less_ipc_type_def less_eq_ipc_type_def)
  show "a \<le> a" by (simp add: less_eq_ipc_type_def)
  show "a \<le> b \<Longrightarrow> b \<le> c \<Longrightarrow> a \<le> c" by (simp add: less_eq_ipc_type_def)
  show "a \<le> b \<Longrightarrow> b \<le> a \<Longrightarrow> a = b"
    by (simp add: less_eq_ipc_type_def ipc_type_number_inj)
  show "a \<le> b \<or> b \<le> a" by (auto simp: less_eq_ipc_type_def)
qed

end

definition ipc_message_max_size :: nat where "ipc_message_max_size = 512"

definition ipc_motion_start :: "byte list" where
  "ipc_motion_start = [1, 0, 0, 0, 2, 0, 0, 0, 0x7c, 0, 0x7c, 0, 0, 0, 0, 0]"
definition ipc_motion_start_c :: "byte list" where
  "ipc_motion_start_c = [4, 0, 0, 0, 2, 0, 0, 0, 9, 0x70, 9, 0x70, 0, 0, 0, 0]"
definition ipc_motion_stop :: "byte list" where
  "ipc_motion_stop = [1, 0, 0, 0, 2, 0, 0, 0, 0x7d, 0, 0x7d, 0, 0, 0, 0, 0]"
definition ipc_ai_human_detection :: "byte list" where
  "ipc_ai_human_detection = [1, 0, 0, 0, 2, 0, 0, 0, 0xed, 0, 0xed, 0, 0, 0, 0, 0]"
definition ipc_ai_body_detection_c :: "byte list" where
  "ipc_ai_body_detection_c = [4, 0, 0, 0, 2, 0, 0, 0, 6, 0x70, 6, 0x70, 0, 0, 0, 0]"
definition ipc_ai_vehicle_detection_c :: "byte list" where
  "ipc_ai_vehicle_detection_c = [4, 0, 0, 0, 2, 0, 0, 0, 7, 0x70, 7, 0x70, 0, 0, 0, 0]"
definition ipc_ai_animal_detection_c :: "byte list" where
  "ipc_ai_animal_detection_c = [4, 0, 0, 0, 2, 0, 0, 0, 8, 0x70, 8, 0x70, 0, 0, 0, 0]"
definition ipc_baby_crying :: "byte list" where
  "ipc_baby_crying = [4, 0, 0, 0, 2, 0, 0, 0, 2, 0x60, 2, 0x60, 0, 0, 0, 0]"
definition ipc_sound_detection :: "byte list" where
  "ipc_sound_detection = [4, 0, 0, 0, 2, 0, 0, 0, 4, 0x60, 4, 0x60, 0, 0, 0, 0]"

lemmas ipc_message_defs = ipc_motion_start_def ipc_motion_start_c_def ipc_motion_stop_def
  ipc_ai_human_detection_def ipc_ai_body_detection_c_def ipc_ai_vehicle_detection_c_def
  ipc_ai_animal_detection_c_def ipc_baby_crying_def ipc_sound_detection_def

section \<open>State\<close>

definition file_motion_start :: string where
  "file_motion_start = ''/tmp/onvif_notify_server/motion_alarm''"
definition file_ai_human_detection :: string where
  "file_ai_human_detection = ''/tmp/onvif_notify_server/human_detection''"
definition file_ai_vehicle_detection :: string where
  "file_ai_vehicle_detection = ''/tmp/onvif_notify_server/vehicle_detection''"
definition file_ai_animal_detection :: string where
  "file_ai_animal_detection = ''/tmp/onvif_notify_server/animal_detection''"
definition file_baby_crying :: string where
  "file_baby_crying = ''/tmp/onvif_notify_server/baby_crying''"
definition file_sound_detection :: string where
  "file_sound_detection = ''/tmp/onvif_notify_server/sound_detection''"

lemmas alarm_file_defs = file_motion_start_def file_ai_human_detection_def
  file_ai_vehicle_detection_def file_ai_animal_detection_def file_baby_crying_def
  file_sound_detection_def

datatype callback = Callback_motion_generic

text \<open>
  \<open>p_files\<close>: the files that exist; \<open>p_sound_threads\<close>: the detached threads that will remove the
  sound file; \<open>p_backoffs\<close>: the pauses after failed receives.
\<close>

record ipc2file =
  p_callbacks :: "ipc_type \<Rightarrow> callback option"
  p_last_alarm :: "ipc_type option"
  p_files :: "string set"
  p_sound_threads :: nat
  p_history :: "shared_history option"
  p_exit_main :: bool
  p_backoffs :: nat

section \<open>Events to files\<close>

text \<open>\<open>ok\<close>: whether \<open>fopen\<close> of the alarm file succeeds.\<close>

definition create_alarm :: "bool \<Rightarrow> string \<Rightarrow> ipc2file \<Rightarrow> ipc2file option" where
  "create_alarm ok file w = (if ok then Some (w\<lparr>p_files := insert file (p_files w)\<rparr>) else None)"

definition remove_alarm :: "string \<Rightarrow> ipc2file \<Rightarrow> ipc2file" where
  "remove_alarm file w = w\<lparr>p_files := p_files w - {file}\<rparr>"

definition stop_last_alarm :: "ipc2file \<Rightarrow> ipc2file" where
  "stop_last_alarm w =
     (case p_last_alarm w of
        Some IPC_MSG_MOTION_START \<Rightarrow> remove_alarm file_motion_start w
      | Some IPC_MSG_AI_HUMAN_DETECTION \<Rightarrow> remove_alarm file_ai_human_detection w
      | Some IPC_MSG_AI_VEHICLE_DETECTION \<Rightarrow> remove_alarm file_ai_vehicle_detection w
      | Some IPC_MSG_AI_ANIMAL_DETECTION \<Rightarrow> remove_alarm file_ai_animal_detection w
      | Some IPC_MSG_BABY_CRYING \<Rightarrow> remove_alarm file_baby_crying w
      | _ \<Rightarrow> w)"

definition process_event :: "bool \<Rightarrow> ipc_type \<Rightarrow> ipc2file \<Rightarrow> ipc2file" where
  "process_event ok alarm w =
     (let done = (case alarm of
            IPC_MSG_MOTION_START \<Rightarrow> create_alarm ok file_motion_start w
          | IPC_MSG_AI_HUMAN_DETECTION \<Rightarrow> create_alarm ok file_ai_human_detection w
          | IPC_MSG_AI_VEHICLE_DETECTION \<Rightarrow> create_alarm ok file_ai_vehicle_detection w
          | IPC_MSG_AI_ANIMAL_DETECTION \<Rightarrow> create_alarm ok file_ai_animal_detection w
          | IPC_MSG_BABY_CRYING \<Rightarrow> create_alarm ok file_baby_crying w
          | IPC_MSG_SOUND_DETECTION \<Rightarrow>
              map_option (\<lambda>v. v\<lparr>p_sound_threads := p_sound_threads v + 1\<rparr>)
                (create_alarm ok file_sound_detection w)
          | IPC_MSG_MOTION_STOP \<Rightarrow> Some (stop_last_alarm w)
          | _ \<Rightarrow> Some w)
      in case done of
           None \<Rightarrow> w
         | Some v \<Rightarrow>
             if alarm \<noteq> IPC_MSG_SOUND_DETECTION then v\<lparr>p_last_alarm := Some alarm\<rparr> else v)"

text \<open>A detached thread wakes up after its 60 seconds.\<close>

definition sound_stop_thread :: "ipc2file \<Rightarrow> ipc2file" where
  "sound_stop_thread w =
     (if p_sound_threads w = 0 then w
      else (remove_alarm file_sound_detection w)\<lparr>p_sound_threads := p_sound_threads w - 1\<rparr>)"

definition ipc_set_callback :: "ipc_type \<Rightarrow> callback \<Rightarrow> ipc2file \<Rightarrow> int \<times> ipc2file" where
  "ipc_set_callback type f w =
     (if type \<ge> IPC_MSG_LAST then (-1, w)
      else (0, w\<lparr>p_callbacks := (p_callbacks w)(type := Some f)\<rparr>))"

definition call_callback :: "bool \<Rightarrow> ipc_type \<Rightarrow> ipc2file \<Rightarrow> ipc2file" where
  "call_callback ok type w =
     (case p_callbacks w type of
        None \<Rightarrow> w
      | Some Callback_motion_generic \<Rightarrow> process_event ok type w)"

definition handle_ipc_motion_generic :: "bool \<Rightarrow> int \<Rightarrow> ipc_type \<Rightarrow> ipc2file \<Rightarrow> ipc2file" where
  "handle_ipc_motion_generic ok now detect w =
     (let w1 = (if detect = IPC_MSG_MOTION_START \<or> detect = IPC_MSG_MOTION_STOP
          then w\<lparr>p_history := motion_history_observe (p_history w)
                   (if detect = IPC_MSG_MOTION_START then 1 else 0) now\<rparr>
          else w)
      in call_callback ok detect w1)"

definition parse_message :: "bool \<Rightarrow> int \<Rightarrow> byte list \<Rightarrow> ipc2file \<Rightarrow> ipc2file" where
  "parse_message ok now msg w =
     (if has_prefix ipc_motion_start msg
      then handle_ipc_motion_generic ok now IPC_MSG_MOTION_START w
      else if has_prefix ipc_motion_start_c msg
      then handle_ipc_motion_generic ok now IPC_MSG_MOTION_START w
      else if has_prefix ipc_motion_stop msg
      then handle_ipc_motion_generic ok now IPC_MSG_MOTION_STOP w
      else if has_prefix ipc_ai_human_detection msg
      then handle_ipc_motion_generic ok now IPC_MSG_AI_HUMAN_DETECTION w
      else if has_prefix ipc_ai_body_detection_c msg
      then handle_ipc_motion_generic ok now IPC_MSG_AI_HUMAN_DETECTION w
      else if has_prefix ipc_ai_vehicle_detection_c msg
      then handle_ipc_motion_generic ok now IPC_MSG_AI_VEHICLE_DETECTION w
      else if has_prefix ipc_ai_animal_detection_c msg
      then handle_ipc_motion_generic ok now IPC_MSG_AI_ANIMAL_DETECTION w
      else if has_prefix ipc_baby_crying msg
      then handle_ipc_motion_generic ok now IPC_MSG_BABY_CRYING w
      else if has_prefix ipc_sound_detection msg
      then handle_ipc_motion_generic ok now IPC_MSG_SOUND_DETECTION w
      else w)"

section \<open>The queue\<close>

definition queue_path :: "int \<Rightarrow> string" where
  "queue_path queue_number = ''/ipc_dispatch_'' @ show_int queue_number"

text \<open>
  Clearing the queue.  \<open>attr i\<close> tells whether the \<open>i\<close>-th \<open>mq_getattr\<close> succeeds; \<open>msgsize\<close> is
  the queue's message size, above which \<open>mq_receive\<close> with a buffer of 512 bytes fails and takes
  nothing off the queue.  The loop ignores that failure, so it may not end: the value \<open>None\<close>.
\<close>

partial_function (option) clear_loop ::
  "(nat \<Rightarrow> bool) \<Rightarrow> nat \<Rightarrow> nat \<Rightarrow> byte list list \<Rightarrow> (int \<times> byte list list) option" where
  "clear_loop attr msgsize i msgs =
     (if \<not> attr i then Some (-1, msgs)
      else if msgs = [] then Some (0, msgs)
      else clear_loop attr msgsize (i + 1)
             (if msgsize \<le> ipc_message_max_size then tl msgs else msgs))"

definition clear_queue ::
  "(nat \<Rightarrow> bool) \<Rightarrow> nat \<Rightarrow> byte list list \<Rightarrow> (int \<times> byte list list) option" where
  "clear_queue attr msgsize msgs = clear_loop attr msgsize 0 msgs"

definition ipc_init ::
  "bool \<Rightarrow> (nat \<Rightarrow> bool) \<Rightarrow> nat \<Rightarrow> byte list list \<Rightarrow> (int \<times> byte list list) option" where
  "ipc_init open_ok attr msgsize msgs =
     (if \<not> open_ok then Some (-1, msgs)
      else map_option (\<lambda>(r, rest). if r \<noteq> 0 then (-2, rest) else (0, rest))
             (clear_queue attr msgsize msgs))"

section \<open>Becoming a daemon\<close>

text \<open>The pid file: the text of the file (its first line counts) and \<open>kill(pid, 0) == 0\<close>.\<close>

definition pid_line :: "string \<Rightarrow> string" where
  "pid_line text = (let t = take 31 text in
     takeWhile (\<lambda>c. c \<noteq> CHR 0x0A) t)"

definition check_pid :: "string option \<Rightarrow> (int \<Rightarrow> bool) \<Rightarrow> bool" where
  "check_pid file alive =
     (case file of
        None \<Rightarrow> False
      | Some text \<Rightarrow>
          if text = [] then False
          else let line = pid_line text; (pid, rest, _) = strtol10 line
               in if rest = line then False else alive pid)"

definition create_pid :: "bool \<Rightarrow> bool \<Rightarrow> int \<Rightarrow> int \<times> string option" where
  "create_pid open_ok write_ok pid =
     (if \<not> open_ok then (-1, None)
      else if \<not> write_ok then (-2, None)
      else (0, Some (show_int pid @ [CHR 0x0A])))"

datatype fork_result = Fork_fails | Fork_child | Fork_parent
datatype d_result = D_exit | D_return int
datatype d_action = D_umask0 | D_chdir_root | D_close_below int | D_stdin_devnull

definition bd_max_close :: int where "bd_max_close = 8192"

text \<open>
  What the calls of \<open>daemonize\<close> answer: the two forks, \<open>setsid\<close>, \<open>sysconf\<close>, the descriptor that
  \<open>open\<close> of the null device gives, and the results of the two \<open>dup2\<close>.
\<close>

record daemon_env =
  de_fork1 :: fork_result
  de_setsid_ok :: bool
  de_fork2 :: fork_result
  de_maxfd :: int
  de_null_fd :: int
  de_dup_out :: int
  de_dup_err :: int

definition daemon_prepare :: "int \<Rightarrow> daemon_env \<Rightarrow> d_action list" where
  "daemon_prepare flags e =
     (if flags AND 8 = 0 then [D_umask0] else []) @
     (if flags AND 1 = 0 then [D_chdir_root] else []) @
     (if flags AND 2 = 0
      then [D_close_below (if de_maxfd e = -1 then bd_max_close else de_maxfd e)] else [])"

definition daemonize :: "int \<Rightarrow> daemon_env \<Rightarrow> d_result \<times> d_action list" where
  "daemonize flags e =
     (case de_fork1 e of
        Fork_fails \<Rightarrow> (D_return (-1), [])
      | Fork_parent \<Rightarrow> (D_exit, [])
      | Fork_child \<Rightarrow>
          if \<not> de_setsid_ok e then (D_return (-1), [])
          else case de_fork2 e of
            Fork_fails \<Rightarrow> (D_return (-1), [])
          | Fork_parent \<Rightarrow> (D_exit, [])
          | Fork_child \<Rightarrow>
              let acts = daemon_prepare flags e
              in if flags AND 4 \<noteq> 0 then (D_return 0, acts)
                 else if de_null_fd e \<noteq> 0 then (D_return (-1), acts @ [D_stdin_devnull])
                 else if de_dup_out e \<noteq> 1 then (D_return (-2), acts @ [D_stdin_devnull])
                 else if de_dup_err e \<noteq> 2 then (D_return (-3), acts @ [D_stdin_devnull])
                 else (D_return 0, acts @ [D_stdin_devnull]))"

section \<open>The program\<close>

record consumer_options =
  co_pid_file :: string
  co_queue_number :: int
  co_foreground :: bool
  co_debug :: bool

definition default_options :: consumer_options where
  "default_options = \<lparr>co_pid_file = ''/var/run/ipc2file.pid'', co_queue_number = 2,
     co_foreground = False, co_debug = False\<rparr>"

text \<open>The options as \<open>getopt_long\<close> returns them; the result is the exit status or the options.\<close>

fun parse_options ::
  "(char \<times> string) list \<Rightarrow> consumer_options \<Rightarrow> int + consumer_options" where
  "parse_options [] os = Inr os"
| "parse_options ((c, optarg) # opts) os =
     (if c = CHR ''p'' then
        parse_options opts (if length optarg < 1024 then os\<lparr>co_pid_file := optarg\<rparr> else os)
      else if c = CHR ''q'' then
        let (v, rest, erange) = strtol10 optarg
        in if erange \<and> (v = long_max \<or> v = long_min) then Inl 1
           else if v \<le> 0 \<or> v \<ge> 10 then Inl 1
           else if rest = optarg then Inl 1
           else parse_options opts (os\<lparr>co_queue_number := v\<rparr>)
      else if c = CHR ''f'' then parse_options opts (os\<lparr>co_foreground := True\<rparr>)
      else if c = CHR ''d'' then parse_options opts (os\<lparr>co_debug := True\<rparr>)
      else if c = CHR ''h'' then Inl 0
      else if c = CHR ''?'' then parse_options opts os
      else Inl 0)"

text \<open>What happens to the blocked receiver: a message, an error of \<open>mq_receive\<close>, a termination
  signal (which interrupts it), or a sound thread that wakes up.\<close>

datatype consumer_event = Received "byte list" int bool | Receive_error errno | Terminate
  | Sound_timer

definition signal_handler :: "ipc2file \<Rightarrow> ipc2file" where
  "signal_handler w = w\<lparr>p_exit_main := True\<rparr>"

fun consumer_step :: "ipc2file \<Rightarrow> consumer_event \<Rightarrow> ipc2file" where
  "consumer_step w (Received msg now ok) = parse_message ok now msg w"
| "consumer_step w (Receive_error err) =
     (if err \<noteq> EINTR then w\<lparr>p_backoffs := p_backoffs w + 1\<rparr> else w)"
| "consumer_step w Terminate = signal_handler w"
| "consumer_step w Sound_timer = sound_stop_thread w"

fun consumer_loop :: "ipc2file \<Rightarrow> consumer_event list \<Rightarrow> ipc2file" where
  "consumer_loop w [] = w"
| "consumer_loop w (e # es) = (if p_exit_main w then w else consumer_loop (consumer_step w e) es)"

definition register_callbacks :: "ipc2file \<Rightarrow> ipc2file" where
  "register_callbacks w =
     fold (\<lambda>t v. snd (ipc_set_callback t Callback_motion_generic v))
       [IPC_MSG_MOTION_START, IPC_MSG_MOTION_STOP, IPC_MSG_AI_HUMAN_DETECTION,
        IPC_MSG_AI_VEHICLE_DETECTION, IPC_MSG_AI_ANIMAL_DETECTION, IPC_MSG_BABY_CRYING,
        IPC_MSG_SOUND_DETECTION] w"

text \<open>
  What \<open>main\<close> finds: the daemon's calls, the pid file, the queue, and the history's files.  The
  callback table is fresh heap memory, so its first contents are an argument.
\<close>

record consumer_env =
  ce_daemon :: daemon_env
  ce_pid_text :: "string \<Rightarrow> string option"
  ce_alive :: "int \<Rightarrow> bool"
  ce_pid_open_ok :: bool
  ce_pid_write_ok :: bool
  ce_pid :: int
  ce_queue_ok :: "string \<Rightarrow> bool"
  ce_attr_ok :: "nat \<Rightarrow> bool"
  ce_msgsize :: nat
  ce_msgs :: "byte list list"
  ce_start :: start_env
  ce_heap :: "ipc_type \<Rightarrow> callback option"
  ce_files :: "string set"

definition consumer_start :: "consumer_env \<Rightarrow> ipc2file" where
  "consumer_start e = register_callbacks
     \<lparr>p_callbacks = ce_heap e, p_last_alarm = None, p_files = ce_files e, p_sound_threads = 0,
      p_history = snd (motion_history_start None (ce_start e)), p_exit_main = False, p_backoffs = 0\<rparr>"

text \<open>
  \<open>Inl\<close>: the exit status of a start that failed; \<open>Inr\<close>: the state in which the loop ends (its
  exit then removes the pid file); \<open>None\<close>: the start never returns.
\<close>

definition ipc2file_main ::
  "(char \<times> string) list \<Rightarrow> consumer_env \<Rightarrow> consumer_event list \<Rightarrow> (int + ipc2file) option" where
  "ipc2file_main opts e evs =
     (case parse_options opts default_options of
        Inl status \<Rightarrow> Some (Inl status)
      | Inr os \<Rightarrow>
          let d = (if co_foreground os then D_return 0 else fst (daemonize 0 (ce_daemon e)))
          in case d of
               D_exit \<Rightarrow> Some (Inl 0)
             | D_return r \<Rightarrow>
                 if r \<noteq> 0 then Some (Inl 1)
                 else if check_pid (ce_pid_text e (co_pid_file os)) (ce_alive e) then Some (Inl 1)
                 else if fst (create_pid (ce_pid_open_ok e) (ce_pid_write_ok e) (ce_pid e)) < 0
                 then Some (Inl 1)
                 else case ipc_init (ce_queue_ok e (queue_path (co_queue_number os)))
                     (ce_attr_ok e) (ce_msgsize e) (ce_msgs e) of
                   None \<Rightarrow> None
                 | Some (r, _) \<Rightarrow>
                     if r \<noteq> 0 then Some (Inl 1)
                     else Some (Inr (let w = consumer_loop (consumer_start e) evs
                       in w\<lparr>p_files := p_files w - {co_pid_file os}\<rparr>)))"

section \<open>Messages are told apart\<close>

definition message_table :: "(byte list \<times> ipc_type) list" where
  "message_table =
    [(ipc_motion_start, IPC_MSG_MOTION_START), (ipc_motion_start_c, IPC_MSG_MOTION_START),
     (ipc_motion_stop, IPC_MSG_MOTION_STOP), (ipc_ai_human_detection, IPC_MSG_AI_HUMAN_DETECTION),
     (ipc_ai_body_detection_c, IPC_MSG_AI_HUMAN_DETECTION),
     (ipc_ai_vehicle_detection_c, IPC_MSG_AI_VEHICLE_DETECTION),
     (ipc_ai_animal_detection_c, IPC_MSG_AI_ANIMAL_DETECTION),
     (ipc_baby_crying, IPC_MSG_BABY_CRYING), (ipc_sound_detection, IPC_MSG_SOUND_DETECTION)]"

definition message_type :: "byte list \<Rightarrow> ipc_type option" where
  "message_type msg = map_of message_table (take 16 msg)"

lemma message_lengths [simp]:
  "length ipc_motion_start = 16" "length ipc_motion_start_c = 16" "length ipc_motion_stop = 16"
  "length ipc_ai_human_detection = 16" "length ipc_ai_body_detection_c = 16"
  "length ipc_ai_vehicle_detection_c = 16" "length ipc_ai_animal_detection_c = 16"
  "length ipc_baby_crying = 16" "length ipc_sound_detection = 16"
  by (simp_all add: ipc_message_defs)

lemma message_codes_distinct: "distinct (map fst message_table)"
  by (simp add: message_table_def ipc_message_defs)

lemma message_type_code: "(c, t) \<in> set message_table \<Longrightarrow> message_type (c @ rest) = Some t"
proof -
  assume ct: "(c, t) \<in> set message_table"
  then have "length c = 16" by (auto simp: message_table_def)
  then show ?thesis using ct message_codes_distinct by (simp add: message_type_def)
qed

lemma parse_message_by_code':
  "parse_message ok now msg w =
     (case message_type msg of
        None \<Rightarrow> w
      | Some t \<Rightarrow> handle_ipc_motion_generic ok now t w)"
  by (simp add: message_type_def message_table_def parse_message_def has_prefix_def)

text \<open>
  Messages are told apart by their first 16 bytes: the nine codes are distinct, a message that
  begins with one of them is handled as that event whatever follows, and any other message
  (shorter ones included) changes nothing.
\<close>

theorem parse_message_by_code:
  "distinct (map fst message_table) \<and>
   parse_message ok now msg w =
     (case message_type msg of
        None \<Rightarrow> w
      | Some t \<Rightarrow> handle_ipc_motion_generic ok now t w)"
  using message_codes_distinct parse_message_by_code' by blast

section \<open>The alarm file and the history follow the motion messages\<close>

definition callbacks_set :: "ipc2file \<Rightarrow> bool" where
  "callbacks_set w \<longleftrightarrow> (\<forall>t \<in> snd ` set message_table. p_callbacks w t = Some Callback_motion_generic)"

lemma register_callbacks_fields:
  "p_files (register_callbacks w) = p_files w" "p_last_alarm (register_callbacks w) = p_last_alarm w"
  "p_history (register_callbacks w) = p_history w" "p_exit_main (register_callbacks w) = p_exit_main w"
  "p_sound_threads (register_callbacks w) = p_sound_threads w"
  "callbacks_set (register_callbacks w)"
  by (simp_all add: register_callbacks_def ipc_set_callback_def less_eq_ipc_type_def callbacks_set_def
      message_table_def)

text \<open>Events without alarms of other kinds, on a file system that works.\<close>

fun motion_only :: "consumer_event \<Rightarrow> bool" where
  "motion_only (Received msg now ok) \<longleftrightarrow> ok \<and>
     message_type msg \<in> {None, Some IPC_MSG_MOTION_START, Some IPC_MSG_MOTION_STOP,
       Some IPC_MSG_SOUND_DETECTION}"
| "motion_only _ \<longleftrightarrow> True"

fun motion_states :: "consumer_event list \<Rightarrow> bool list" where
  "motion_states [] = []"
| "motion_states (Received msg now ok # es) =
     (if message_type msg = Some IPC_MSG_MOTION_START then True # motion_states es
      else if message_type msg = Some IPC_MSG_MOTION_STOP then False # motion_states es
      else motion_states es)"
| "motion_states (Terminate # es) = []"
| "motion_states (e # es) = motion_states es"

definition follows :: "bool \<Rightarrow> int \<Rightarrow> ipc2file \<Rightarrow> bool" where
  "follows b base w \<longleftrightarrow> callbacks_set w \<and> (file_motion_start \<in> p_files w \<longleftrightarrow> b) \<and>
     (b \<longrightarrow> p_last_alarm w = Some IPC_MSG_MOTION_START) \<and>
     (case p_history w of None \<Rightarrow> True | Some s \<Rightarrow> h_last_state (sh_history s) = base)"

lemma observe_last_state:
  "motion_history_observe w st t = None \<longleftrightarrow> w = None"
  "motion_history_observe w st t = Some s \<Longrightarrow> h_last_state (sh_history s) = st"
proof -
  show "motion_history_observe w st t = None \<longleftrightarrow> w = None"
    by (cases w) (simp_all add: motion_history_observe_def)
  show "h_last_state (sh_history s) = st" if o: "motion_history_observe w st t = Some s"
  proof (cases w)
    case None
    then show ?thesis using o by (simp add: motion_history_observe_def)
  next
    case (Some v)
    have "s = v\<lparr>sh_sequence := sh_sequence s, sh_history := sh_history s\<rparr> \<and>
        sh_history s = add_event \<lparr>ev_unix_ms = t, ev_state = st\<rparr> (sh_history v)"
      using o unfolding Some observe_history by auto
    then show ?thesis by (simp add: add_event_last_state)
  qed
qed

lemma alarm_files_distinct:
  "file_sound_detection \<noteq> file_motion_start" "file_motion_start \<noteq> file_sound_detection"
  "file_motion_start \<noteq> file_ai_human_detection" "file_motion_start \<noteq> file_ai_vehicle_detection"
  "file_motion_start \<noteq> file_ai_animal_detection" "file_motion_start \<noteq> file_baby_crying"
  by (simp_all add: alarm_file_defs)

lemma handle_start:
  assumes "callbacks_set w"
  shows "handle_ipc_motion_generic True now IPC_MSG_MOTION_START w =
    w\<lparr>p_history := motion_history_observe (p_history w) 1 now,
      p_files := insert file_motion_start (p_files w), p_last_alarm := Some IPC_MSG_MOTION_START\<rparr>"
  using assms
  by (simp add: handle_ipc_motion_generic_def call_callback_def callbacks_set_def message_table_def
      process_event_def create_alarm_def)

lemma handle_stop:
  assumes "callbacks_set w"
  shows "handle_ipc_motion_generic ok now IPC_MSG_MOTION_STOP w =
    (stop_last_alarm (w\<lparr>p_history := motion_history_observe (p_history w) 0 now\<rparr>))
      \<lparr>p_last_alarm := Some IPC_MSG_MOTION_STOP\<rparr>"
  using assms
  by (simp add: handle_ipc_motion_generic_def call_callback_def callbacks_set_def message_table_def
      process_event_def)

lemma handle_sound:
  assumes "callbacks_set w"
  shows "handle_ipc_motion_generic True now IPC_MSG_SOUND_DETECTION w =
    w\<lparr>p_files := insert file_sound_detection (p_files w), p_sound_threads := p_sound_threads w + 1\<rparr>"
  using assms
  by (simp add: handle_ipc_motion_generic_def call_callback_def callbacks_set_def message_table_def
      process_event_def create_alarm_def)

lemma stop_last_alarm_fields [simp]:
  "p_callbacks (stop_last_alarm w) = p_callbacks w" "p_history (stop_last_alarm w) = p_history w"
  "p_exit_main (stop_last_alarm w) = p_exit_main w"
  by (simp_all add: stop_last_alarm_def remove_alarm_def split: option.split ipc_type.split)

lemma stop_last_alarm_motion:
  "file_motion_start \<in> p_files (stop_last_alarm w) \<longleftrightarrow>
     file_motion_start \<in> p_files w \<and> p_last_alarm w \<noteq> Some IPC_MSG_MOTION_START"
proof (cases "p_last_alarm w")
  case (Some a)
  then show ?thesis
    by (cases a) (simp_all add: stop_last_alarm_def remove_alarm_def alarm_files_distinct)
qed (simp add: stop_last_alarm_def)

lemma process_event_exit: "p_exit_main (process_event ok t w) = p_exit_main w"
  by (cases t) (simp_all add: process_event_def create_alarm_def)

lemma parse_message_exit: "p_exit_main (parse_message ok now msg w) = p_exit_main w"
proof -
  have "p_exit_main (call_callback ok t v) = p_exit_main v" for t v
    by (simp add: call_callback_def process_event_exit split: option.split callback.split)
  then show ?thesis
    by (simp add: parse_message_by_code' handle_ipc_motion_generic_def Let_def split: option.split)
qed

lemma follows_received:
  assumes "follows b base w" "motion_only (Received msg now True)"
  shows "follows (last (b # motion_states [Received msg now True]))
     (last (base # map of_bool (motion_states [Received msg now True])))
     (parse_message True now msg w)"
proof -
  have cs: "callbacks_set w" using assms(1) by (simp add: follows_def)
  have cs': "callbacks_set (w\<lparr>p_history := h, p_files := f, p_last_alarm := a\<rparr>)"
    "callbacks_set (w\<lparr>p_files := f, p_sound_threads := n\<rparr>)"
    "callbacks_set ((stop_last_alarm (w\<lparr>p_history := h\<rparr>))\<lparr>p_last_alarm := a\<rparr>)" for h f a n
    using cs by (simp_all add: callbacks_set_def)
  consider "message_type msg = None" | "message_type msg = Some IPC_MSG_MOTION_START"
    | "message_type msg = Some IPC_MSG_MOTION_STOP" | "message_type msg = Some IPC_MSG_SOUND_DETECTION"
    using assms(2) by auto
  then show ?thesis
  proof cases
    case 1
    then show ?thesis using assms(1) by (simp add: parse_message_by_code')
  next
    case 2
    then show ?thesis using cs'(1) observe_last_state [of "p_history w" 1 now]
      by (auto simp: parse_message_by_code' handle_start [OF cs] follows_def split: option.split)
  next
    case 3
    then show ?thesis using cs'(3) observe_last_state [of "p_history w" 0 now] assms(1)
      by (auto simp: parse_message_by_code' handle_stop [OF cs] follows_def stop_last_alarm_motion
          split: option.split)
  next
    case 4
    then show ?thesis using cs'(2) assms(1) alarm_files_distinct
      by (auto simp: parse_message_by_code' handle_sound [OF cs] follows_def)
  qed
qed

lemma follows_other:
  assumes "follows b base w"
  shows "follows b base (consumer_step w (Receive_error err))"
    and "follows b base (consumer_step w Sound_timer)"
  using assms alarm_files_distinct
  by (auto simp: follows_def callbacks_set_def sound_stop_thread_def remove_alarm_def)

lemma follows_loop:
  assumes "follows b base w" "list_all motion_only es" "\<not> p_exit_main w"
  shows "follows (last (b # motion_states es)) (last (base # map of_bool (motion_states es)))
    (consumer_loop w es)"
  using assms
proof (induction es arbitrary: b base w)
  case (Cons e es)
  show ?case
  proof (cases e)
    case (Received msg now ok)
    have ok: "ok" "motion_only (Received msg now True)" using Cons.prems(2) Received by auto
    have x: "\<not> p_exit_main (parse_message True now msg w)"
      using Cons.prems(1,3) by (simp add: parse_message_exit)
    show ?thesis
      using Cons.IH [OF follows_received [OF Cons.prems(1) ok(2)] _ x] Cons.prems(2,3) ok(1)
      by (simp add: Received split: if_splits)
  next
    case (Receive_error err)
    then show ?thesis
      using Cons.IH [OF follows_other(1) [OF Cons.prems(1), of err]] Cons.prems(2,3) by simp
  next
    case Terminate
    then show ?thesis using Cons.prems
      by (cases es) (auto simp: signal_handler_def follows_def callbacks_set_def)
  next
    case Sound_timer
    then show ?thesis
      using Cons.IH [OF follows_other(2) [OF Cons.prems(1)]] Cons.prems(2,3)
      by (simp add: sound_stop_thread_def remove_alarm_def)
  qed
qed simp

lemma consumer_follows:
  assumes "list_all motion_only evs" "file_motion_start \<notin> ce_files e"
  shows "\<exists>base. follows (last (False # motion_states evs)) (last (base # map of_bool (motion_states evs)))
      (consumer_loop (consumer_start e) evs)"
proof -
  let ?base = "case p_history (consumer_start e) of None \<Rightarrow> 0 | Some s \<Rightarrow> h_last_state (sh_history s)"
  have "follows False ?base (consumer_start e)"
    using assms(2) by (auto simp: follows_def consumer_start_def register_callbacks_fields
        split: option.split)
  from follows_loop [OF this assms(1)] show ?thesis
    by (intro exI [of _ ?base]) (simp add: consumer_start_def register_callbacks_fields)
qed

text \<open>
  The alarm file and the history follow the motion messages: from the start of the consumer, with
  no alarm file there and through any events without alarms of other kinds (unknown messages,
  sound alarms, receive errors and the sound timer included), up to a termination signal, the file
  \<open>motion_alarm\<close> exists exactly when the last motion message was a START, and the recorded history
  ends in the same state.
\<close>

theorem motion_file_follows_messages:
  assumes "list_all motion_only evs" "file_motion_start \<notin> ce_files e"
  shows "(file_motion_start \<in> p_files (consumer_loop (consumer_start e) evs) \<longleftrightarrow>
      last (False # motion_states evs)) \<and>
    (\<forall>s. p_history (consumer_loop (consumer_start e) evs) = Some s \<longrightarrow> motion_states evs \<noteq> [] \<longrightarrow>
      h_last_state (sh_history s) = of_bool (last (motion_states evs)))"
  using consumer_follows [OF assms] by (auto simp: follows_def last_map split: if_splits)

text \<open>
   Overlapping alarms leave a file behind: when another alarm arrives between START and STOP,
  the STOP removes only that alarm's file, and no sequence of further STOP messages removes
  \<open>motion_alarm\<close>, although the history records that motion ended.
\<close>

theorem overlapped_alarm_is_left:
  assumes "callbacks_set w"
    and "a \<in> {IPC_MSG_AI_HUMAN_DETECTION, IPC_MSG_AI_VEHICLE_DETECTION, IPC_MSG_AI_ANIMAL_DETECTION,
              IPC_MSG_BABY_CRYING}"
  shows "let w1 = handle_ipc_motion_generic True t1 IPC_MSG_MOTION_START w;
             w2 = handle_ipc_motion_generic True t2 a w1;
             w3 = fold (\<lambda>t. handle_ipc_motion_generic True t IPC_MSG_MOTION_STOP) ts w2
         in file_motion_start \<in> p_files w3 \<and>
            (ts \<noteq> [] \<longrightarrow> (\<forall>s. p_history w3 = Some s \<longrightarrow> h_last_state (sh_history s) = 0))"
proof -
  define w1 where "w1 = handle_ipc_motion_generic True t1 IPC_MSG_MOTION_START w"
  define w2 where "w2 = handle_ipc_motion_generic True t2 a w1"
  have w1: "callbacks_set w1" "file_motion_start \<in> p_files w1"
    using assms(1) by (simp_all add: w1_def handle_start) (simp add: callbacks_set_def)
  have w2: "callbacks_set w2 \<and> file_motion_start \<in> p_files w2 \<and> p_last_alarm w2 = Some a"
    using w1 assms(2) by (auto simp: w2_def handle_ipc_motion_generic_def call_callback_def
        callbacks_set_def message_table_def process_event_def create_alarm_def)
  have stops: "file_motion_start \<in> p_files v' \<and> (ts \<noteq> [] \<longrightarrow>
      (\<forall>s. p_history v' = Some s \<longrightarrow> h_last_state (sh_history s) = 0))"
    if "callbacks_set v" "file_motion_start \<in> p_files v" "p_last_alarm v \<noteq> Some IPC_MSG_MOTION_START"
      "v' = fold (\<lambda>t. handle_ipc_motion_generic True t IPC_MSG_MOTION_STOP) ts v" for v v'
    using that
  proof (induction ts arbitrary: v v')
    case (Cons t ts)
    let ?u = "handle_ipc_motion_generic True t IPC_MSG_MOTION_STOP v"
    have u: "callbacks_set ?u" "file_motion_start \<in> p_files ?u" "p_last_alarm ?u \<noteq> Some IPC_MSG_MOTION_START"
      "\<forall>s. p_history ?u = Some s \<longrightarrow> h_last_state (sh_history s) = 0"
      using Cons.prems observe_last_state(2)
      by (simp_all add: handle_stop stop_last_alarm_motion) (simp add: callbacks_set_def)
    show ?case using Cons.IH [OF u(1-3) refl] u(4) Cons.prems(4) by (cases "ts = []") auto
  qed simp
  show ?thesis
    unfolding Let_def w1_def [symmetric] w2_def [symmetric]
    by (rule stops [OF _ _ _ refl]) (use w2 assms(2) in auto)
qed

section \<open>Clearing the queue\<close>

lemma clear_loop_diverges:
  "clear_loop attr msgsize i msgs = Some r \<Longrightarrow>
     (\<forall>j\<ge>i. attr j) \<longrightarrow> ipc_message_max_size < msgsize \<longrightarrow> msgs = []"
  by (rule clear_loop.raw_induct [where P = "\<lambda>attr msgsize i msgs r. (\<forall>j\<ge>i. attr j) \<longrightarrow>
      ipc_message_max_size < msgsize \<longrightarrow> msgs = []"], auto split: if_splits)
     (metis Suc_leD not_le)

lemma clear_loop_ends:
  assumes "\<forall>j. attr j" "msgsize \<le> ipc_message_max_size"
  shows "clear_loop attr msgsize i msgs = Some (0, [])"
proof (induction msgs arbitrary: i)
  case Nil
  show ?case by (subst clear_loop.simps) (simp add: assms(1))
next
  case (Cons m msgs)
  show ?case by (subst clear_loop.simps) (simp add: assms Cons.IH)
qed

text \<open>
  Clearing the queue ends, with the queue empty, exactly when the queue's message size fits the
  512-byte buffer (or there is nothing to clear); otherwise each receive fails, is ignored, and the
  start of the consumer never returns.
\<close>

theorem clear_queue_ends:
  assumes "\<forall>j. attr j"
  shows "clear_queue attr msgsize msgs =
    (if msgsize \<le> 512 \<or> msgs = [] then Some (0, []) else None)"
proof (cases "msgsize \<le> 512")
  case True
  then show ?thesis using clear_loop_ends [OF assms]
    by (simp add: clear_queue_def ipc_message_max_size_def)
next
  case False
  then show ?thesis
    using clear_loop_diverges [of attr msgsize 0 msgs] assms
    by (cases "clear_queue attr msgsize msgs"; cases "msgs = []")
       (auto simp: clear_queue_def ipc_message_max_size_def clear_loop.simps [of attr msgsize 0 "[]"])
qed

section \<open>Witnesses\<close>

definition quiet_consumer :: consumer_env where
  "quiet_consumer = \<lparr>ce_daemon = \<lparr>de_fork1 = Fork_child, de_setsid_ok = True, de_fork2 = Fork_child,
       de_maxfd = 1024, de_null_fd = 0, de_dup_out = 1, de_dup_err = 2\<rparr>,
     ce_pid_text = (\<lambda>_. None), ce_alive = (\<lambda>_. False), ce_pid_open_ok = True, ce_pid_write_ok = True,
     ce_pid = 42, ce_queue_ok = (\<lambda>_. True), ce_attr_ok = (\<lambda>_. True), ce_msgsize = 512, ce_msgs = [],
     ce_start = sample_start, ce_heap = (\<lambda>_. None), ce_files = {}\<rparr>"

lemma motion_file_follows_messages_witness:
  "file_motion_start \<notin> p_files (consumer_loop (consumer_start quiet_consumer)
     [Received ipc_motion_start 5 True, Received [9, 9] 6 True, Received ipc_motion_stop 9 True])"
  using motion_file_follows_messages [of "[Received ipc_motion_start 5 True, Received [9, 9] 6 True,
      Received ipc_motion_stop 9 True]" quiet_consumer]
  by (simp add: quiet_consumer_def message_type_def message_table_def ipc_message_defs)

lemma overlapped_alarm_is_left_witness:
  "file_motion_start \<in> p_files (handle_ipc_motion_generic True 3 IPC_MSG_MOTION_STOP
     (handle_ipc_motion_generic True 2 IPC_MSG_AI_HUMAN_DETECTION
       (handle_ipc_motion_generic True 1 IPC_MSG_MOTION_START (consumer_start quiet_consumer))))"
  using overlapped_alarm_is_left [of "consumer_start quiet_consumer" IPC_MSG_AI_HUMAN_DETECTION 1 2 "[3]"]
  by (simp add: consumer_start_def register_callbacks_fields Let_def)

lemma clear_queue_ends_witness:
  "clear_queue (\<lambda>_. True) 1024 [[1]] = None"
  using clear_queue_ends [of "\<lambda>_. True" 1024 "[[1]]"] by simp

end
