(* ===== verification/Ipc_Messages.thy ===== *)
theory Ipc_Messages
  imports Prelude
begin

text \<open>
  \<open>src/ipc_cmd/ipc_cmd/ipc_cmd.h\<close>: the messages of the dispatch queue and the values of the
  command's options, byte for byte, under the names of the source.
\<close>

definition NONE :: int where "NONE = -1"
definition MAX_PTZ_X :: int where "MAX_PTZ_X = 4100"
definition MAX_PTZ_Y :: int where "MAX_PTZ_Y = 1250"
definition IPC_MOTION_START :: "byte list" where
  "IPC_MOTION_START = [1, 0, 0, 0, 2, 0, 0, 0, 0x7c, 0, 0x7c, 0, 0, 0, 0, 0]"
definition IPC_MOTION_STOP :: "byte list" where
  "IPC_MOTION_STOP = [1, 0, 0, 0, 2, 0, 0, 0, 0x7d, 0, 0x7d, 0, 0, 0, 0, 0]"
definition IPC_SWITCH_OFF :: "byte list" where
  "IPC_SWITCH_OFF = [2, 0, 0, 0, 8, 0, 0, 0, 0x75, 0, 1, 0, 0, 0, 0, 0]"
definition IPC_SWITCH_ON :: "byte list" where
  "IPC_SWITCH_ON = [2, 0, 0, 0, 8, 0, 0, 0, 0x74, 0, 1, 0, 0, 0, 0, 0]"
definition SWITCH_OFF :: int where "SWITCH_OFF = 0"
definition SWITCH_ON :: int where "SWITCH_ON = 1"
definition IPC_SENS_HIGH :: "byte list" where
  "IPC_SENS_HIGH = [1, 0, 0, 0, 8, 0, 0, 0, 0x27, 0x10, 1, 0, 4, 0, 0, 0, 0, 0, 0, 0]"
definition IPC_SENS_MEDIUM :: "byte list" where
  "IPC_SENS_MEDIUM = [1, 0, 0, 0, 8, 0, 0, 0, 0x27, 0x10, 1, 0, 4, 0, 0, 0, 1, 0, 0, 0]"
definition IPC_SENS_LOW :: "byte list" where
  "IPC_SENS_LOW = [1, 0, 0, 0, 8, 0, 0, 0, 0x27, 0x10, 1, 0, 4, 0, 0, 0, 2, 0, 0, 0]"
definition SENSITIVITY_HIGH :: int where "SENSITIVITY_HIGH = 0"
definition SENSITIVITY_MEDIUM :: int where "SENSITIVITY_MEDIUM = 1"
definition SENSITIVITY_LOW :: int where "SENSITIVITY_LOW = 2"
definition IPC_LED_OFF :: "byte list" where
  "IPC_LED_OFF = [2, 0, 0, 0, 8, 0, 0, 0, 0x77, 0, 1, 0, 0, 0, 0, 0]"
definition IPC_LED_ON :: "byte list" where
  "IPC_LED_ON = [2, 0, 0, 0, 8, 0, 0, 0, 0x76, 0, 1, 0, 0, 0, 0, 0]"
definition LED_OFF :: int where "LED_OFF = 0"
definition LED_ON :: int where "LED_ON = 1"
definition IPC_SAVE_ALWAYS :: "byte list" where
  "IPC_SAVE_ALWAYS = [2, 0, 0, 0, 8, 0, 0, 0, 0x79, 0, 1, 0, 0, 0, 0, 0]"
definition IPC_SAVE_DETECT :: "byte list" where
  "IPC_SAVE_DETECT = [2, 0, 0, 0, 8, 0, 0, 0, 0x78, 0, 1, 0, 0, 0, 0, 0]"
definition SAVE_ALWAYS :: int where "SAVE_ALWAYS = 0"
definition SAVE_DETECT :: int where "SAVE_DETECT = 1"
definition IPC_IR_OFF :: "byte list" where
  "IPC_IR_OFF = [2, 0, 0, 0, 8, 0, 0, 0, 0x24, 0x10, 1, 0, 4, 0, 0, 0, 2, 0, 0, 0]"
definition IPC_IR_ON :: "byte list" where
  "IPC_IR_ON = [2, 0, 0, 0, 8, 0, 0, 0, 0x24, 0x10, 1, 0, 4, 0, 0, 0, 1, 0, 0, 0]"
definition IR_OFF :: int where "IR_OFF = 0"
definition IR_ON :: int where "IR_ON = 1"
definition IPC_ROTATE_OFF :: "byte list" where
  "IPC_ROTATE_OFF = [2, 0, 0, 0, 8, 0, 0, 0, 0x7b, 0, 1, 0, 0, 0, 0, 0]"
definition IPC_ROTATE_ON :: "byte list" where
  "IPC_ROTATE_ON = [2, 0, 0, 0, 8, 0, 0, 0, 0x7a, 0, 1, 0, 0, 0, 0, 0]"
definition ROTATE_OFF :: int where "ROTATE_OFF = 0"
definition ROTATE_ON :: int where "ROTATE_ON = 1"
definition IPC_LOW_VENC_OFF :: "byte list" where
  "IPC_LOW_VENC_OFF = [2, 0, 0, 0, 8, 0, 0, 0, 0x38, 0x10, 1, 0, 0, 0, 0, 0]"
definition IPC_LOW_VENC_ON :: "byte list" where
  "IPC_LOW_VENC_ON = [2, 0, 0, 0, 8, 0, 0, 0, 0x39, 0x10, 1, 0, 0, 0, 0, 0]"
definition LOW_VENC_OFF :: int where "LOW_VENC_OFF = 0"
definition LOW_VENC_ON :: int where "LOW_VENC_ON = 1"
definition IPC_MOVE_RIGHT :: "byte list" where
  "IPC_MOVE_RIGHT = [1, 0, 0, 0, 8, 0, 0, 0, 6, 0x40, 6, 0x40, 0x18, 0, 0, 0, 4, 0, 0, 0, 0, 0, 0,
    0]"
definition IPC_MOVE_LEFT :: "byte list" where
  "IPC_MOVE_LEFT = [1, 0, 0, 0, 8, 0, 0, 0, 6, 0x40, 6, 0x40, 0x18, 0, 0, 0, 3, 0, 0, 0, 0, 0, 0,
    0]"
definition IPC_MOVE_DOWN :: "byte list" where
  "IPC_MOVE_DOWN = [1, 0, 0, 0, 8, 0, 0, 0, 6, 0x40, 6, 0x40, 0x18, 0, 0, 0, 2, 0, 0, 0, 0, 0, 0,
    0]"
definition IPC_MOVE_UP :: "byte list" where
  "IPC_MOVE_UP = [1, 0, 0, 0, 8, 0, 0, 0, 6, 0x40, 6, 0x40, 0x18, 0, 0, 0, 1, 0, 0, 0, 0, 0, 0,
    0]"
definition IPC_MOVE_STOP :: "byte list" where
  "IPC_MOVE_STOP = [1, 0, 0, 0, 8, 0, 0, 0, 7, 0x40, 1, 0, 0, 0, 0, 0]"
definition MOVE_STOP :: int where "MOVE_STOP = 0"
definition MOVE_RIGHT :: int where "MOVE_RIGHT = 2"
definition MOVE_LEFT :: int where "MOVE_LEFT = -2"
definition MOVE_UP :: int where "MOVE_UP = 3"
definition MOVE_DOWN :: int where "MOVE_DOWN = -3"
definition IPC_JUMP_POSITION :: "byte list" where
  "IPC_JUMP_POSITION = [1, 0, 0, 0, 8, 0, 0, 0, 9, 0x40, 9, 0x40, 0x18, 0, 0, 0, 0, 0, 0, 0, 0, 0,
    0, 0]"
definition IPC_GOTO_PRESET :: "byte list" where
  "IPC_GOTO_PRESET = [1, 0, 0, 0, 8, 0, 0, 0, 2, 0x40, 1, 0, 4, 0, 0, 0, 0xff, 0, 0, 0]"
definition IPC_ADD_PRESET :: "byte list" where
  "IPC_ADD_PRESET = [1, 0, 0, 0, 8, 0, 0, 0, 0, 0x40, 1, 0, 0, 0, 0, 0]"
definition IPC_REMOVE_PRESET :: "byte list" where
  "IPC_REMOVE_PRESET = [1, 0, 0, 0, 8, 0, 0, 0, 1, 0x40, 1, 0, 4, 0, 0, 0, 0xff, 0, 0, 0]"
definition GOTO_PRESET :: int where "GOTO_PRESET = 0"
definition IPC_CRUISE_OFF :: "byte list" where
  "IPC_CRUISE_OFF = [1, 0, 0, 0, 8, 0, 0, 0, 5, 0x40, 1, 0, 0, 0, 0, 0]"
definition IPC_CRUISE_ON :: "byte list" where
  "IPC_CRUISE_ON = [1, 0, 0, 0, 8, 0, 0, 0, 4, 0x40, 1, 0, 0, 0, 0, 0]"
definition IPC_CRUISE_PRESETS :: "byte list" where
  "IPC_CRUISE_PRESETS = [1, 0, 0, 0, 8, 0, 0, 0, 3, 0x40, 1, 0, 8, 0, 0, 0, 0, 0, 0, 0, 0, 0, 0,
    0]"
definition IPC_CRUISE_360 :: "byte list" where
  "IPC_CRUISE_360 = [1, 0, 0, 0, 8, 0, 0, 0, 3, 0x40, 1, 0, 8, 0, 0, 0, 1, 0, 0, 0, 0, 0, 0, 0]"
definition CRUISE_OFF :: int where "CRUISE_OFF = 0"
definition CRUISE_ON :: int where "CRUISE_ON = 1"
definition CRUISE_PRESETS :: int where "CRUISE_PRESETS = 2"
definition CRUISE_360 :: int where "CRUISE_360 = 3"
definition IPC_XXX_0 :: "byte list" where
  "IPC_XXX_0 = [1, 0, 0, 0, 4, 0, 0, 0, 0x71, 0, 0x71, 0, 0, 0, 0, 0, 0xa1, 0x0e, 0x9a, 0x5e]"
definition IPC_SET_ALERT_ALLOW_STATE_HUMAN :: "byte list" where
  "IPC_SET_ALERT_ALLOW_STATE_HUMAN = [1, 0, 0, 0, 4, 0, 0, 0, 0xfb, 0, 1, 0, 0x18, 0, 0, 0, 1, 0,
    0, 0, 0, 0, 0, 0, 0, 0, 0, 0, 0, 0, 0, 0, 0, 0, 0, 0, 0, 0, 0, 0]"
definition IPC_AI_HUMAN_DETECTION_OFF :: "byte list" where
  "IPC_AI_HUMAN_DETECTION_OFF = [1, 0, 0, 0, 8, 0, 0, 0, 0x3c, 0x10, 1, 0, 4, 0, 0, 0, 0, 0, 0,
    0]"
definition IPC_AI_HUMAN_DETECTION_ON :: "byte list" where
  "IPC_AI_HUMAN_DETECTION_ON = [1, 0, 0, 0, 8, 0, 0, 0, 0x3c, 0x10, 1, 0, 4, 0, 0, 0, 1, 0, 0, 0]"
definition AI_HUMAN_DETECTION_OFF :: int where "AI_HUMAN_DETECTION_OFF = 0"
definition AI_HUMAN_DETECTION_ON :: int where "AI_HUMAN_DETECTION_ON = 1"
definition IPC_AI_VEHICLE_DETECTION_OFF :: "byte list" where
  "IPC_AI_VEHICLE_DETECTION_OFF = [1, 0, 0, 0, 8, 0, 0, 0, 0x40, 0x10, 1, 0, 4, 0, 0, 0, 0, 0, 0,
    0]"
definition IPC_AI_VEHICLE_DETECTION_ON :: "byte list" where
  "IPC_AI_VEHICLE_DETECTION_ON = [1, 0, 0, 0, 8, 0, 0, 0, 0x40, 0x10, 1, 0, 4, 0, 0, 0, 1, 0, 0,
    0]"
definition AI_VEHICLE_DETECTION_OFF :: int where "AI_VEHICLE_DETECTION_OFF = 0"
definition AI_VEHICLE_DETECTION_ON :: int where "AI_VEHICLE_DETECTION_ON = 1"
definition IPC_AI_ANIMAL_DETECTION_OFF :: "byte list" where
  "IPC_AI_ANIMAL_DETECTION_OFF = [1, 0, 0, 0, 8, 0, 0, 0, 0x3f, 0x10, 1, 0, 4, 0, 0, 0, 0, 0, 0,
    0]"
definition IPC_AI_ANIMAL_DETECTION_ON :: "byte list" where
  "IPC_AI_ANIMAL_DETECTION_ON = [1, 0, 0, 0, 8, 0, 0, 0, 0x3f, 0x10, 1, 0, 4, 0, 0, 0, 1, 0, 0,
    0]"
definition AI_ANIMAL_DETECTION_OFF :: int where "AI_ANIMAL_DETECTION_OFF = 0"
definition AI_ANIMAL_DETECTION_ON :: int where "AI_ANIMAL_DETECTION_ON = 1"
definition IPC_AI_MOTION_DETECTION_OFF :: "byte list" where
  "IPC_AI_MOTION_DETECTION_OFF = [1, 0, 0, 0, 8, 0, 0, 0, 0x41, 0x10, 1, 0, 4, 0, 0, 0, 0, 0, 0,
    0]"
definition IPC_AI_MOTION_DETECTION_ON :: "byte list" where
  "IPC_AI_MOTION_DETECTION_ON = [1, 0, 0, 0, 8, 0, 0, 0, 0x41, 0x10, 1, 0, 4, 0, 0, 0, 1, 0, 0,
    0]"
definition AI_MOTION_DETECTION_OFF :: int where "AI_MOTION_DETECTION_OFF = 0"
definition AI_MOTION_DETECTION_ON :: int where "AI_MOTION_DETECTION_ON = 1"
definition IPC_FACE_DETECTION_OFF :: "byte list" where
  "IPC_FACE_DETECTION_OFF = [1, 0, 0, 0, 8, 0, 0, 0, 0x3d, 0x10, 1, 0, 4, 0, 0, 0, 0, 0, 0, 0]"
definition IPC_FACE_DETECTION_ON :: "byte list" where
  "IPC_FACE_DETECTION_ON = [1, 0, 0, 0, 8, 0, 0, 0, 0x3d, 0x10, 1, 0, 4, 0, 0, 0, 1, 0, 0, 0]"
definition FACE_DETECTION_OFF :: int where "FACE_DETECTION_OFF = 0"
definition FACE_DETECTION_ON :: int where "FACE_DETECTION_ON = 1"
definition IPC_MOTION_TRACKING_OFF :: "byte list" where
  "IPC_MOTION_TRACKING_OFF = [1, 0, 0, 0, 8, 0, 0, 0, 0x0b, 0x40, 1, 0, 4, 0, 0, 0, 0, 0, 0, 0]"
definition IPC_MOTION_TRACKING_ON :: "byte list" where
  "IPC_MOTION_TRACKING_ON = [1, 0, 0, 0, 8, 0, 0, 0, 0x0b, 0x40, 1, 0, 4, 0, 0, 0, 1, 0, 0, 0]"
definition MOTION_TRACKING_OFF :: int where "MOTION_TRACKING_OFF = 0"
definition MOTION_TRACKING_ON :: int where "MOTION_TRACKING_ON = 1"
definition IPC_BABYCRYING_OFF :: "byte list" where
  "IPC_BABYCRYING_OFF = [2, 0, 0, 0, 8, 0, 0, 0, 0x29, 0x10, 1, 0, 4, 0, 0, 0, 1, 0, 0, 0]"
definition IPC_BABYCRYING_ON :: "byte list" where
  "IPC_BABYCRYING_ON = [2, 0, 0, 0, 8, 0, 0, 0, 0x29, 0x10, 1, 0, 4, 0, 0, 0, 2, 0, 0, 0]"
definition BABYCRYING_OFF :: int where "BABYCRYING_OFF = 0"
definition BABYCRYING_ON :: int where "BABYCRYING_ON = 1"
definition IPC_MIC_OFF :: "byte list" where
  "IPC_MIC_OFF = [2, 0, 0, 0, 8, 0, 0, 0, 0x2a, 0x10, 1, 0, 4, 0, 0, 0, 0x65, 0, 0, 0]"
definition IPC_MIC_ON :: "byte list" where
  "IPC_MIC_ON = [2, 0, 0, 0, 8, 0, 0, 0, 0x2a, 0x10, 1, 0, 4, 0, 0, 0, 0x64, 0, 0, 0]"
definition MIC_OFF :: int where "MIC_OFF = 0"
definition MIC_ON :: int where "MIC_ON = 1"
definition IPC_SOUND_DETECTION_OFF :: "byte list" where
  "IPC_SOUND_DETECTION_OFF = [2, 0, 0, 0, 8, 0, 0, 0, 0x3a, 0x10, 1, 0, 4, 0, 0, 0, 1, 0, 0, 0]"
definition IPC_SOUND_DETECTION_ON :: "byte list" where
  "IPC_SOUND_DETECTION_ON = [2, 0, 0, 0, 8, 0, 0, 0, 0x3a, 0x10, 1, 0, 4, 0, 0, 0, 2, 0, 0, 0]"
definition SOUND_DETECTION_OFF :: int where "SOUND_DETECTION_OFF = 0"
definition SOUND_DETECTION_ON :: int where "SOUND_DETECTION_ON = 1"
definition IPC_SOUND_SENS_30 :: "byte list" where
  "IPC_SOUND_SENS_30 = [2, 0, 0, 0, 8, 0, 0, 0, 0x3b, 0x10, 1, 0, 4, 0, 0, 0, 0x1e, 0, 0, 0]"
definition IPC_SOUND_SENS_35 :: "byte list" where
  "IPC_SOUND_SENS_35 = [2, 0, 0, 0, 8, 0, 0, 0, 0x3b, 0x10, 1, 0, 4, 0, 0, 0, 0x23, 0, 0, 0]"
definition IPC_SOUND_SENS_40 :: "byte list" where
  "IPC_SOUND_SENS_40 = [2, 0, 0, 0, 8, 0, 0, 0, 0x3b, 0x10, 1, 0, 4, 0, 0, 0, 0x28, 0, 0, 0]"
definition IPC_SOUND_SENS_45 :: "byte list" where
  "IPC_SOUND_SENS_45 = [2, 0, 0, 0, 8, 0, 0, 0, 0x3b, 0x10, 1, 0, 4, 0, 0, 0, 0x2d, 0, 0, 0]"
definition IPC_SOUND_SENS_50 :: "byte list" where
  "IPC_SOUND_SENS_50 = [2, 0, 0, 0, 8, 0, 0, 0, 0x3b, 0x10, 1, 0, 4, 0, 0, 0, 0x32, 0, 0, 0]"
definition IPC_SOUND_SENS_60 :: "byte list" where
  "IPC_SOUND_SENS_60 = [2, 0, 0, 0, 8, 0, 0, 0, 0x3b, 0x10, 1, 0, 4, 0, 0, 0, 0x3c, 0, 0, 0]"
definition IPC_SOUND_SENS_70 :: "byte list" where
  "IPC_SOUND_SENS_70 = [2, 0, 0, 0, 8, 0, 0, 0, 0x3b, 0x10, 1, 0, 4, 0, 0, 0, 0x46, 0, 0, 0]"
definition IPC_SOUND_SENS_80 :: "byte list" where
  "IPC_SOUND_SENS_80 = [2, 0, 0, 0, 8, 0, 0, 0, 0x3b, 0x10, 1, 0, 4, 0, 0, 0, 0x50, 0, 0, 0]"
definition IPC_SOUND_SENS_90 :: "byte list" where
  "IPC_SOUND_SENS_90 = [2, 0, 0, 0, 8, 0, 0, 0, 0x3b, 0x10, 1, 0, 4, 0, 0, 0, 0x5a, 0, 0, 0]"
definition SOUND_SENS_30 :: int where "SOUND_SENS_30 = 30"
definition SOUND_SENS_35 :: int where "SOUND_SENS_35 = 35"
definition SOUND_SENS_40 :: int where "SOUND_SENS_40 = 40"
definition SOUND_SENS_45 :: int where "SOUND_SENS_45 = 45"
definition SOUND_SENS_50 :: int where "SOUND_SENS_50 = 50"
definition SOUND_SENS_60 :: int where "SOUND_SENS_60 = 60"
definition SOUND_SENS_70 :: int where "SOUND_SENS_70 = 70"
definition SOUND_SENS_80 :: int where "SOUND_SENS_80 = 80"
definition SOUND_SENS_90 :: int where "SOUND_SENS_90 = 90"
definition IPC_SAVE_CONFIG :: "byte list" where
  "IPC_SAVE_CONFIG = [0x40, 0, 0, 0, 1, 0, 0, 0, 0xff, 0, 0xff, 0, 0, 0, 0, 0]"

lemmas ipc_value_defs =
  NONE_def MAX_PTZ_X_def MAX_PTZ_Y_def SWITCH_OFF_def SWITCH_ON_def SENSITIVITY_HIGH_def
  SENSITIVITY_MEDIUM_def SENSITIVITY_LOW_def LED_OFF_def LED_ON_def SAVE_ALWAYS_def
  SAVE_DETECT_def IR_OFF_def IR_ON_def ROTATE_OFF_def ROTATE_ON_def LOW_VENC_OFF_def
  LOW_VENC_ON_def MOVE_STOP_def MOVE_RIGHT_def MOVE_LEFT_def MOVE_UP_def MOVE_DOWN_def
  GOTO_PRESET_def CRUISE_OFF_def CRUISE_ON_def CRUISE_PRESETS_def CRUISE_360_def
  AI_HUMAN_DETECTION_OFF_def AI_HUMAN_DETECTION_ON_def AI_VEHICLE_DETECTION_OFF_def
  AI_VEHICLE_DETECTION_ON_def AI_ANIMAL_DETECTION_OFF_def AI_ANIMAL_DETECTION_ON_def
  AI_MOTION_DETECTION_OFF_def AI_MOTION_DETECTION_ON_def FACE_DETECTION_OFF_def
  FACE_DETECTION_ON_def MOTION_TRACKING_OFF_def MOTION_TRACKING_ON_def BABYCRYING_OFF_def
  BABYCRYING_ON_def MIC_OFF_def MIC_ON_def SOUND_DETECTION_OFF_def SOUND_DETECTION_ON_def
  SOUND_SENS_30_def SOUND_SENS_35_def SOUND_SENS_40_def SOUND_SENS_45_def SOUND_SENS_50_def
  SOUND_SENS_60_def SOUND_SENS_70_def SOUND_SENS_80_def SOUND_SENS_90_def

lemmas ipc_command_defs =
  IPC_MOTION_START_def IPC_MOTION_STOP_def IPC_SWITCH_OFF_def IPC_SWITCH_ON_def
  IPC_SENS_HIGH_def IPC_SENS_MEDIUM_def IPC_SENS_LOW_def IPC_LED_OFF_def IPC_LED_ON_def
  IPC_SAVE_ALWAYS_def IPC_SAVE_DETECT_def IPC_IR_OFF_def IPC_IR_ON_def IPC_ROTATE_OFF_def
  IPC_ROTATE_ON_def IPC_LOW_VENC_OFF_def IPC_LOW_VENC_ON_def IPC_MOVE_RIGHT_def
  IPC_MOVE_LEFT_def IPC_MOVE_DOWN_def IPC_MOVE_UP_def IPC_MOVE_STOP_def IPC_JUMP_POSITION_def
  IPC_GOTO_PRESET_def IPC_ADD_PRESET_def IPC_REMOVE_PRESET_def IPC_CRUISE_OFF_def
  IPC_CRUISE_ON_def IPC_CRUISE_PRESETS_def IPC_CRUISE_360_def IPC_XXX_0_def
  IPC_SET_ALERT_ALLOW_STATE_HUMAN_def IPC_AI_HUMAN_DETECTION_OFF_def
  IPC_AI_HUMAN_DETECTION_ON_def IPC_AI_VEHICLE_DETECTION_OFF_def
  IPC_AI_VEHICLE_DETECTION_ON_def IPC_AI_ANIMAL_DETECTION_OFF_def
  IPC_AI_ANIMAL_DETECTION_ON_def IPC_AI_MOTION_DETECTION_OFF_def IPC_AI_MOTION_DETECTION_ON_def
  IPC_FACE_DETECTION_OFF_def IPC_FACE_DETECTION_ON_def IPC_MOTION_TRACKING_OFF_def
  IPC_MOTION_TRACKING_ON_def IPC_BABYCRYING_OFF_def IPC_BABYCRYING_ON_def IPC_MIC_OFF_def
  IPC_MIC_ON_def IPC_SOUND_DETECTION_OFF_def IPC_SOUND_DETECTION_ON_def IPC_SOUND_SENS_30_def
  IPC_SOUND_SENS_35_def IPC_SOUND_SENS_40_def IPC_SOUND_SENS_45_def IPC_SOUND_SENS_50_def
  IPC_SOUND_SENS_60_def IPC_SOUND_SENS_70_def IPC_SOUND_SENS_80_def IPC_SOUND_SENS_90_def
  IPC_SAVE_CONFIG_def

text \<open>The message codes, and that no two commands share one.\<close>

definition command_messages :: "byte list list" where
  "command_messages =
    [IPC_MOTION_START, IPC_MOTION_STOP, IPC_SWITCH_OFF, IPC_SWITCH_ON, IPC_SENS_HIGH,
     IPC_SENS_MEDIUM, IPC_SENS_LOW, IPC_LED_OFF, IPC_LED_ON, IPC_SAVE_ALWAYS, IPC_SAVE_DETECT,
     IPC_IR_OFF, IPC_IR_ON, IPC_ROTATE_OFF, IPC_ROTATE_ON, IPC_LOW_VENC_OFF, IPC_LOW_VENC_ON,
     IPC_MOVE_RIGHT, IPC_MOVE_LEFT, IPC_MOVE_DOWN, IPC_MOVE_UP, IPC_MOVE_STOP,
     IPC_JUMP_POSITION, IPC_GOTO_PRESET, IPC_ADD_PRESET, IPC_REMOVE_PRESET, IPC_CRUISE_OFF,
     IPC_CRUISE_ON, IPC_CRUISE_PRESETS, IPC_CRUISE_360, IPC_XXX_0,
     IPC_SET_ALERT_ALLOW_STATE_HUMAN, IPC_AI_HUMAN_DETECTION_OFF, IPC_AI_HUMAN_DETECTION_ON,
     IPC_AI_VEHICLE_DETECTION_OFF, IPC_AI_VEHICLE_DETECTION_ON, IPC_AI_ANIMAL_DETECTION_OFF,
     IPC_AI_ANIMAL_DETECTION_ON, IPC_AI_MOTION_DETECTION_OFF, IPC_AI_MOTION_DETECTION_ON,
     IPC_FACE_DETECTION_OFF, IPC_FACE_DETECTION_ON, IPC_MOTION_TRACKING_OFF,
     IPC_MOTION_TRACKING_ON, IPC_BABYCRYING_OFF, IPC_BABYCRYING_ON, IPC_MIC_OFF, IPC_MIC_ON,
     IPC_SOUND_DETECTION_OFF, IPC_SOUND_DETECTION_ON, IPC_SOUND_SENS_30, IPC_SOUND_SENS_35,
     IPC_SOUND_SENS_40, IPC_SOUND_SENS_45, IPC_SOUND_SENS_50, IPC_SOUND_SENS_60,
     IPC_SOUND_SENS_70, IPC_SOUND_SENS_80, IPC_SOUND_SENS_90, IPC_SAVE_CONFIG]"

lemma command_messages_distinct: "distinct command_messages"
  by (simp add: command_messages_def ipc_command_defs)

end
