(* ===== verification/Scan.thy ===== *)
theory Scan
  imports Floats
begin

text \<open>
  The parts of \<open>sscanf\<close> and of the binary64 arithmetic that the sources use: literal text, white
  space, \<open>%d\<close>, \<open>%u\<close>, \<open>%lx\<close>, \<open>%s\<close> with a width and \<open>%lf\<close>; and the rounded operations on
  \<open>c_double\<close>.  A conversion returns the value and the text that is left, or \<open>None\<close> for a
  matching failure.  The sign of a zero is not represented.
\<close>

section \<open>Rounded arithmetic\<close>

definition dbl :: "rat \<Rightarrow> c_double" where
  "dbl x = (let r = rnd53 x
            in if 2 ^ 1024 \<le> r then PInf else if r \<le> - (2 ^ 1024) then NInf else Fin r)"

fun fp_neg :: "c_double \<Rightarrow> c_double" where
  "fp_neg (Fin a) = Fin (- a)"
| "fp_neg PInf = NInf"
| "fp_neg NInf = PInf"
| "fp_neg NaN = NaN"

fun fp_add :: "c_double \<Rightarrow> c_double \<Rightarrow> c_double" where
  "fp_add NaN _ = NaN"
| "fp_add _ NaN = NaN"
| "fp_add PInf NInf = NaN"
| "fp_add NInf PInf = NaN"
| "fp_add PInf _ = PInf"
| "fp_add _ PInf = PInf"
| "fp_add NInf _ = NInf"
| "fp_add _ NInf = NInf"
| "fp_add (Fin a) (Fin b) = dbl (a + b)"

definition fp_sub :: "c_double \<Rightarrow> c_double \<Rightarrow> c_double" where
  "fp_sub x y = fp_add x (fp_neg y)"

text \<open>Multiplication and division by a finite, non-zero factor, the only ones the sources use.\<close>

fun fp_scale :: "c_double \<Rightarrow> rat \<Rightarrow> c_double" where
  "fp_scale (Fin a) k = dbl (a * k)"
| "fp_scale PInf k = (if 0 < k then PInf else NInf)"
| "fp_scale NInf k = (if 0 < k then NInf else PInf)"
| "fp_scale NaN k = NaN"

fun fp_over :: "c_double \<Rightarrow> rat \<Rightarrow> c_double" where
  "fp_over (Fin a) k = dbl (a / k)"
| "fp_over PInf k = (if 0 < k then PInf else NInf)"
| "fp_over NInf k = (if 0 < k then NInf else PInf)"
| "fp_over NaN k = NaN"

text \<open>\<open>round\<close>: halves away from zero.\<close>

definition round_away :: "rat \<Rightarrow> int" where
  "round_away x = (if 0 \<le> x then \<lfloor>x + 1 / 2\<rfloor> else - \<lfloor>- x + 1 / 2\<rfloor>)"

fun fp_round :: "c_double \<Rightarrow> c_double" where
  "fp_round (Fin a) = Fin (of_int (round_away a))"
| "fp_round x = x"

text \<open>The conversion to \<open>int\<close>, undefined (\<open>None\<close>) outside the range of \<open>int\<close>.\<close>

fun fp_to_int :: "c_double \<Rightarrow> int option" where
  "fp_to_int (Fin a) =
     (let t = (if 0 \<le> a then \<lfloor>a\<rfloor> else - \<lfloor>- a\<rfloor>)
      in if - (2 ^ 31) \<le> t \<and> t < 2 ^ 31 then Some t else None)"
| "fp_to_int _ = None"

lemma round_away_of_int [simp]: "round_away (of_int k) = k"
proof (cases "0 \<le> k")
  case True
  then show ?thesis by (simp add: round_away_def) linarith
next
  case False
  then show ?thesis by (simp add: round_away_def) linarith
qed

lemma rnd53_pos_int:
  assumes "0 < k" "k \<le> 2 ^ 52"
  shows "rnd53 (of_int k) = of_int k"
proof -
  have x: "(0 :: rat) < of_int k" using assms(1) by simp
  let ?e = "max (fl_exp (of_int k)) (- 1022)"
  have "pow2 (fl_exp (of_int k)) \<le> of_int k" by (rule fl_exp_lower [OF x])
  also have "of_int k \<le> pow2 52"
  proof -
    have "(of_int k :: rat) \<le> of_int (2 ^ 52)" using assms(2) of_int_le_iff by blast
    then show ?thesis by (simp add: pow2_def)
  qed
  finally have "fl_exp (of_int k) \<le> 52" by (rule pow2_le_imp)
  then have e: "0 \<le> 52 - ?e" by simp
  let ?n = "nat (52 - ?e)" and ?u = "pow2 (?e - 52)"
  have u: "?u * 2 ^ ?n = 1"
  proof -
    have "?u * pow2 (52 - ?e) = pow2 0" by (simp add: pow2_add [symmetric])
    then show ?thesis using e by (simp add: pow2_def)
  qed
  have un: "?u = 1 / 2 ^ ?n" using u by (simp add: eq_divide_eq)
  have "of_int k / ?u = of_int (k * 2 ^ ?n)" by (simp only: un) simp
  then have "of_int (round_even (of_int k / ?u)) * ?u = of_int (k * 2 ^ ?n) * ?u"
    by (simp only: round_even_of_int)
  also have "\<dots> = of_int k * (?u * 2 ^ ?n)" by (simp add: ac_simps)
  also have "\<dots> = of_int k" by (simp add: u)
  finally show ?thesis using x by (simp add: rnd53_def Let_def)
qed

lemma rnd53_uminus: "rnd53 (- x) = - rnd53 x"
  by (simp add: rnd53_def Let_def)

lemma rnd53_abs_le:
  assumes "\<bar>x\<bar> \<le> of_int k" "k \<le> 2 ^ 52"
  shows "\<bar>rnd53 x\<bar> \<le> of_int k"
proof -
  have "rnd53 \<bar>x\<bar> \<le> of_int k" "0 \<le> rnd53 \<bar>x\<bar>"
    using rnd53_le_int [of "\<bar>x\<bar>" k] rnd53_nonneg [of "\<bar>x\<bar>"] assms by simp_all
  moreover have "\<bar>rnd53 x\<bar> = \<bar>rnd53 \<bar>x\<bar>\<bar>"
    by (cases "0 \<le> x") (simp_all add: rnd53_uminus)
  ultimately show ?thesis by simp
qed

lemma rnd53_of_int:
  assumes "\<bar>k\<bar> \<le> 2 ^ 52"
  shows "rnd53 (of_int k) = of_int k"
proof (cases "0 < k")
  case True
  then show ?thesis using rnd53_pos_int [of k] assms by simp
next
  case False
  then show ?thesis using rnd53_pos_int [of "- k"] rnd53_uminus [of "of_int (- k)"] assms
    by (cases "k = 0") simp_all
qed

lemma dbl_of_int:
  assumes "\<bar>k\<bar> \<le> 2 ^ 52"
  shows "dbl (of_int k) = Fin (of_int k)"
proof -
  have "(of_int \<bar>k\<bar> :: rat) \<le> of_int (2 ^ 52)" using assms by (simp only: of_int_le_iff)
  also have "(of_int (2 ^ 52) :: rat) < 2 ^ 1024" by simp
  finally have "(of_int \<bar>k\<bar> :: rat) < 2 ^ 1024" .
  then have "\<not> 2 ^ 1024 \<le> (of_int k :: rat)" "\<not> of_int k \<le> - (2 ^ 1024 :: rat)" by linarith+
  then show ?thesis by (simp add: dbl_def rnd53_of_int [OF assms] Let_def)
qed

text \<open>Rounding keeps a value between integers.\<close>

lemma rnd53_ge_int:
  assumes "0 \<le> k" "of_int k \<le> x" "x \<le> 2 ^ 52"
  shows "of_int k \<le> rnd53 x"
proof (cases "x = 0")
  case True
  then show ?thesis using assms by simp
next
  case False
  have "(0 :: rat) \<le> of_int k" using assms(1) by simp
  then have x: "0 < x" using assms(2) False by linarith
  let ?e = "max (fl_exp x) (- 1022)"
  have "pow2 (fl_exp x) \<le> x" by (rule fl_exp_lower [OF x])
  also have "x \<le> pow2 52" using assms(3) by (simp add: pow2_def)
  finally have "fl_exp x \<le> 52" by (rule pow2_le_imp)
  then have e: "0 \<le> 52 - ?e" by simp
  let ?n = "nat (52 - ?e)" and ?u = "pow2 (?e - 52)"
  have u: "?u * 2 ^ ?n = 1"
  proof -
    have "?u * pow2 (52 - ?e) = pow2 0" by (simp add: pow2_add [symmetric])
    then show ?thesis using e by (simp add: pow2_def)
  qed
  have un: "?u = 1 / 2 ^ ?n" using u by (simp add: eq_divide_eq)
  have "(of_int (k * 2 ^ ?n) :: rat) \<le> x / ?u" using assms(2) by (simp add: un)
  then have "k * 2 ^ ?n \<le> round_even (x / ?u)" by (rule round_even_ge_int)
  then have "(of_int (k * 2 ^ ?n) :: rat) \<le> of_int (round_even (x / ?u))" by (simp only: of_int_le_iff)
  then have "of_int (k * 2 ^ ?n) * ?u \<le> of_int (round_even (x / ?u)) * ?u" by (intro mult_right_mono) (simp_all add: less_imp_le)
  moreover have "of_int (k * 2 ^ ?n) * ?u = of_int k * (?u * 2 ^ ?n)" by (simp add: ac_simps)
  ultimately have "of_int k \<le> of_int (round_even (x / ?u)) * ?u" by (simp only: u mult_1_right)
  moreover have "rnd53 x = of_int (round_even (x / ?u)) * ?u" using x by (simp add: rnd53_def Let_def)
  ultimately show ?thesis by (simp only:)
qed

lemma dbl_between:
  assumes "of_int a \<le> x" "x \<le> of_int b" "0 \<le> a" "b \<le> 2 ^ 52"
  shows "\<exists>r. dbl x = Fin r \<and> of_int a \<le> r \<and> r \<le> of_int b"
proof -
  have x: "0 \<le> x" using assms(1,3) by (meson of_int_0_le_iff order_trans)
  have "(of_int b :: rat) \<le> of_int (2 ^ 52)" using assms(4) by (simp only: of_int_le_iff)
  then have b: "x \<le> 2 ^ 52" "(of_int b :: rat) < 2 ^ 1024" using assms(2) by simp_all
  have r: "of_int a \<le> rnd53 x" "rnd53 x \<le> of_int b" "0 \<le> rnd53 x"
    using rnd53_ge_int [OF assms(3,1) b(1)] rnd53_le_int [OF x assms(2,4)] rnd53_nonneg [OF x] by simp_all
  have "(- (2 ^ 1024) :: rat) < 0" by simp
  then have "\<not> 2 ^ 1024 \<le> rnd53 x" "\<not> rnd53 x \<le> - (2 ^ 1024)" using r b(2) by linarith+
  then show ?thesis using r by (simp add: dbl_def Let_def)
qed

text \<open>A value within an integer bound stays within it, so no overflow occurs.\<close>

definition fp_within :: "int \<Rightarrow> c_double \<Rightarrow> bool" where
  "fp_within k v \<longleftrightarrow> (case v of Fin r \<Rightarrow> \<bar>r\<bar> \<le> of_int k | _ \<Rightarrow> False)"

lemma fp_withinE: "fp_within k v \<Longrightarrow> (\<And>r. v = Fin r \<Longrightarrow> \<bar>r\<bar> \<le> of_int k \<Longrightarrow> P) \<Longrightarrow> P"
  by (cases v) (auto simp: fp_within_def)

lemma dbl_within:
  assumes "\<bar>x\<bar> \<le> of_int k" "k \<le> 2 ^ 52"
  shows "fp_within k (dbl x)"
proof -
  have r: "\<bar>rnd53 x\<bar> \<le> of_int k" by (rule rnd53_abs_le [OF assms])
  have "(of_int k :: rat) \<le> of_int (2 ^ 52)" using assms(2) by (simp only: of_int_le_iff)
  also have "(of_int (2 ^ 52) :: rat) < 2 ^ 1024" by simp
  finally have "(of_int k :: rat) < 2 ^ 1024" .
  then have "\<not> 2 ^ 1024 \<le> rnd53 x" "\<not> rnd53 x \<le> - (2 ^ 1024)" using r by linarith+
  then show ?thesis using r by (simp add: dbl_def fp_within_def Let_def)
qed

lemma fp_within_scale:
  assumes "fp_within k v" "\<bar>c\<bar> \<le> of_int m" "0 \<le> k" "k * m \<le> 2 ^ 52"
  shows "fp_within (k * m) (fp_scale v c)"
proof (rule fp_withinE [OF assms(1)])
  fix r assume r: "v = Fin r" "\<bar>r\<bar> \<le> of_int k"
  have "\<bar>r * c\<bar> \<le> of_int k * of_int m"
    unfolding abs_mult using r(2) assms(2,3) by (intro mult_mono) auto
  then have "\<bar>r * c\<bar> \<le> of_int (k * m)" by simp
  from dbl_within [OF this assms(4)] show ?thesis by (simp add: r(1))
qed

lemma fp_within_over:
  assumes "fp_within k v" "0 < d" "k \<le> m * d" "m \<le> 2 ^ 52"
  shows "fp_within m (fp_over v (of_int d))"
proof (rule fp_withinE [OF assms(1)])
  fix r assume r: "v = Fin r" "\<bar>r\<bar> \<le> of_int k"
  have "\<bar>r / of_int d\<bar> = \<bar>r\<bar> / of_int d" using assms(2) by simp
  also have "\<dots> \<le> of_int k / of_int d" using r(2) assms(2) by (simp add: divide_right_mono)
  also have "\<dots> \<le> of_int m"
  proof -
    have "(of_int k :: rat) \<le> of_int (m * d)" using assms(3) by (simp only: of_int_le_iff)
    then show ?thesis using assms(2) by (simp add: divide_le_eq)
  qed
  finally have "\<bar>r / of_int d\<bar> \<le> of_int m" .
  from dbl_within [OF this assms(4)] show ?thesis by (simp add: r(1))
qed

lemma fp_within_add:
  assumes "fp_within k v" "fp_within m w" "k + m \<le> 2 ^ 52"
  shows "fp_within (k + m) (fp_add v w)"
proof -
  obtain r s where r: "v = Fin r" "\<bar>r\<bar> \<le> of_int k" and s: "w = Fin s" "\<bar>s\<bar> \<le> of_int m"
    using assms(1,2) by (metis fp_withinE)
  have "\<bar>r + s\<bar> \<le> of_int (k + m)" using r(2) s(2) by simp
  from dbl_within [OF this assms(3)] show ?thesis by (simp add: r(1) s(1))
qed

lemma fp_within_neg: "fp_within k v \<Longrightarrow> fp_within k (fp_neg v)"
  by (auto simp: fp_within_def split: c_double.splits)

lemma fp_within_sub:
  "fp_within k v \<Longrightarrow> fp_within m w \<Longrightarrow> k + m \<le> 2 ^ 52 \<Longrightarrow> fp_within (k + m) (fp_sub v w)"
  unfolding fp_sub_def by (rule fp_within_add [OF _ fp_within_neg])

lemma round_away_abs: "\<bar>x\<bar> \<le> of_int k \<Longrightarrow> \<bar>round_away x\<bar> \<le> k"
  by (auto simp: round_away_def abs_le_iff floor_le_iff le_floor_iff) linarith+

lemma fp_within_round: "fp_within k v \<Longrightarrow> fp_within k (fp_round v)"
proof (erule fp_withinE)
  fix r assume r: "v = Fin r" "\<bar>r\<bar> \<le> of_int k"
  have "\<bar>(of_int (round_away r) :: rat)\<bar> \<le> of_int k"
    using round_away_abs [OF r(2)] by (simp add: of_int_abs [symmetric] del: of_int_abs)
  then show "fp_within k (fp_round v)" by (simp add: r(1) fp_within_def)
qed

lemma fp_to_int_within:
  assumes "fp_within k v" "k < 2 ^ 31"
  shows "\<exists>n. fp_to_int v = Some n \<and> \<bar>n\<bar> \<le> k"
proof (rule fp_withinE [OF assms(1)])
  fix r assume r: "v = Fin r" "\<bar>r\<bar> \<le> of_int k"
  define t where "t = (if 0 \<le> r then \<lfloor>r\<rfloor> else - \<lfloor>- r\<rfloor>)"
  have "\<bar>t\<bar> \<le> k" using r(2) by (auto simp: t_def abs_le_iff floor_le_iff le_floor_iff) linarith+
  moreover from this have "- (2 ^ 31) \<le> t \<and> t < 2 ^ 31" using assms(2) unfolding abs_le_iff by linarith
  ultimately show ?thesis by (simp add: r(1) t_def [symmetric])
qed

section \<open>Literals, white space and integers\<close>

definition skip_space :: "string \<Rightarrow> string" where
  "skip_space s = dropWhile c_isspace s"

definition scan_lit :: "string \<Rightarrow> string \<Rightarrow> string option" where
  "scan_lit lt s = (if has_prefix lt s then Some (drop (length lt) s) else None)"

definition scan_sign :: "string \<Rightarrow> bool \<times> string" where
  "scan_sign s = (case s of
     c # cs \<Rightarrow> if c = CHR ''-'' then (True, cs) else if c = CHR ''+'' then (False, cs) else (False, s)
   | [] \<Rightarrow> (False, []))"

text \<open>\<open>%d\<close> and \<open>%ld\<close>: saturating, as \<open>strtol\<close> on the targets.\<close>

definition scan_d :: "string \<Rightarrow> (int \<times> string) option" where
  "scan_d s = (let (v, rest, _) = strtol10 s in if rest = s then None else Some (v, rest))"

text \<open>\<open>%*u\<close>: an unsigned number that is skipped.\<close>

definition scan_skip_u :: "string \<Rightarrow> string option" where
  "scan_skip_u s =
     (let u = snd (scan_sign (skip_space s))
      in if takeWhile c_isdigit u = [] then None else Some (dropWhile c_isdigit u))"

text \<open>\<open>%<n>s\<close>\<close>

definition scan_word :: "nat \<Rightarrow> string \<Rightarrow> (string \<times> string) option" where
  "scan_word n s =
     (let t = skip_space s; w = take n (takeWhile (\<lambda>c. \<not> c_isspace c) t)
      in if w = [] then None else Some (w, drop (length w) t))"

definition hex_val :: "char \<Rightarrow> int" where
  "hex_val c = (if c_isdigit c then int (chr_code c) - 48 else int (chr_code (c_tolower c)) - 87)"

fun hex_acc :: "int \<Rightarrow> string \<Rightarrow> int" where
  "hex_acc acc [] = acc"
| "hex_acc acc (c # cs) = hex_acc (16 * acc + hex_val c) cs"

text \<open>An optional \<open>0x\<close> that a hexadecimal digit follows.\<close>

definition hex_prefix :: "string \<Rightarrow> bool" where
  "hex_prefix s = (case s of
     a # b # c # _ \<Rightarrow> a = CHR ''0'' \<and> (b = CHR ''x'' \<or> b = CHR ''X'') \<and> c_isxdigit c
   | _ \<Rightarrow> False)"

text \<open>\<open>%lx\<close> into a 32-bit \<open>unsigned long\<close>: a value above the range saturates, a minus negates.\<close>

definition scan_lx :: "string \<Rightarrow> (int \<times> string) option" where
  "scan_lx s =
     (let (neg, u) = scan_sign (skip_space s);
          h = (if hex_prefix u then drop 2 u else u);
          ds = takeWhile c_isxdigit h; v = hex_acc 0 ds;
          sat = (if 2 ^ 32 \<le> v then 2 ^ 32 - 1 else if neg then (2 ^ 32 - v) mod 2 ^ 32 else v)
      in if ds = [] then None else Some (sat, dropWhile c_isxdigit h))"

section \<open>Floating point\<close>

text \<open>An exponent: its letter, a sign and digits; a letter without digits is a failure.\<close>

definition scan_exponent :: "char \<Rightarrow> string \<Rightarrow> (int \<times> string) option" where
  "scan_exponent letter s = (case s of
     [] \<Rightarrow> Some (0, [])
   | c # cs \<Rightarrow>
       if c_tolower c \<noteq> letter then Some (0, s)
       else let (neg, u) = scan_sign cs; ds = takeWhile c_isdigit u
            in if ds = [] then None
               else Some (if neg then - int (dec_acc 0 ds) else int (dec_acc 0 ds),
                          dropWhile c_isdigit u))"

definition split_point :: "(char \<Rightarrow> bool) \<Rightarrow> string \<Rightarrow> string \<times> string \<times> string" where
  "split_point digit s =
     (let whole = takeWhile digit s; r = dropWhile digit s
      in case r of
           c # cs \<Rightarrow> if c = CHR ''.'' then (whole, takeWhile digit cs, dropWhile digit cs)
                     else (whole, [], r)
         | [] \<Rightarrow> (whole, [], []))"

definition signed_dbl :: "bool \<Rightarrow> rat \<Rightarrow> c_double" where
  "signed_dbl neg x = dbl (if neg then - x else x)"

definition pow10 :: "int \<Rightarrow> rat" where
  "pow10 e = (if 0 \<le> e then 10 ^ nat e else 1 / 10 ^ nat (- e))"

definition scan_decimal :: "bool \<Rightarrow> string \<Rightarrow> (c_double \<times> string) option" where
  "scan_decimal neg s =
     (let (whole, frac, r) = split_point c_isdigit s
      in if whole @ frac = [] then None
         else map_option (\<lambda>(e, r'). (signed_dbl neg
             (of_nat (dec_acc 0 (whole @ frac)) * pow10 (e - int (length frac))), r'))
           (scan_exponent CHR ''e'' r))"

definition scan_hexfloat :: "bool \<Rightarrow> string \<Rightarrow> (c_double \<times> string) option" where
  "scan_hexfloat neg s =
     (let (whole, frac, r) = split_point c_isxdigit s
      in if whole @ frac = [] then None
         else map_option (\<lambda>(e, r'). (signed_dbl neg
             (of_int (hex_acc 0 (whole @ frac)) * pow2 (e - 4 * int (length frac))), r'))
           (scan_exponent CHR ''p'' r))"

text \<open>\<open>%lf\<close>\<close>

definition scan_lf :: "string \<Rightarrow> (c_double \<times> string) option" where
  "scan_lf s =
     (let (neg, u) = scan_sign (skip_space s)
      in if 3 \<le> length u \<and> strn_ieq 3 u ''inf'' then
           (if 4 \<le> length u \<and> c_tolower (u ! 3) = CHR ''i''
            then (if 8 \<le> length u \<and> strn_ieq 8 u ''infinity''
                  then Some (if neg then NInf else PInf, drop 8 u) else None)
            else Some (if neg then NInf else PInf, drop 3 u))
         else if 3 \<le> length u \<and> strn_ieq 3 u ''nan'' then Some (NaN, drop 3 u)
         else if has_prefix ''0x'' u \<or> has_prefix ''0X'' u then scan_hexfloat neg (drop 2 u)
         else scan_decimal neg u)"

end
