(* ===== verification/Text_Lines.thy ===== *)
theory Text_Lines
  imports Scan
begin

text \<open>
  Reading a text file line by line with \<open>fgets\<close>: the pieces it returns, and that they are the lines
  when every line fits the buffer.
\<close>

section \<open>Lines of a file\<close>

fun first_line :: "string \<Rightarrow> string" where
  "first_line [] = []"
| "first_line (c # cs) = (if c = CHR 0x0A then [c] else c # first_line cs)"

definition newline :: char where "newline = CHR 0x0A"
definition nul :: char where "nul = CHR 0x00"

text \<open>The successive results of \<open>fgets\<close> with a buffer of \<open>n + 2\<close> bytes.\<close>

function fgets_all :: "nat \<Rightarrow> string \<Rightarrow> string list" where
  "fgets_all n [] = []"
| "fgets_all n (c # cs) =
     (let l = take (n + 1) (first_line (c # cs)) in l # fgets_all n (drop (length l) (c # cs)))"
  by pat_completeness auto
termination
  by (relation "measure (\<lambda>(n, s). length s)") (auto simp: Let_def)

record text_file =
  tf_text :: string
  tf_error :: bool

lemma first_line_append: "newline \<notin> set l \<Longrightarrow> first_line (l @ newline # s) = l @ [newline]"
  by (induction l) (auto simp: newline_def)

lemma fgets_line:
  assumes "newline \<notin> set l" "length l \<le> n"
  shows "fgets_all n ((l @ [newline]) @ s) = (l @ [newline]) # fgets_all n s"
proof -
  obtain c cs where e: "l @ newline # s = c # cs" by (cases l) auto
  have f: "first_line (c # cs) = l @ [newline]" using first_line_append [OF assms(1), of s] e by simp
  have "drop (length (l @ [newline])) (c # cs) = s" unfolding e [symmetric] by simp
  then have "fgets_all n (c # cs) = (l @ [newline]) # fgets_all n s"
    using assms(2) by (simp only: fgets_all.simps Let_def f) simp
  then show ?thesis unfolding e [symmetric] by (simp del: fgets_all.simps)
qed

lemma newline_space [simp]: "c_isspace newline" "c_isspace CHR '' ''"
  by (simp_all add: newline_def cstr_simps)

lemma skip_space_append: "(\<forall>c\<in>set a. c_isspace c) \<Longrightarrow> skip_space (a @ b) = skip_space b"
  by (simp add: skip_space_def dropWhile_append2)

definition text_of_lines :: "string list \<Rightarrow> string" where
  "text_of_lines ls = concat (map (\<lambda>l. l @ [newline]) ls)"

lemma fgets_text_of_lines:
  "\<forall>l\<in>set ls. newline \<notin> set l \<and> length l \<le> n \<Longrightarrow>
     fgets_all n (text_of_lines ls) = map (\<lambda>l. l @ [newline]) ls"
proof (induction ls)
  case (Cons l ls)
  then show ?case using fgets_line [of l n "text_of_lines ls"] by (simp add: text_of_lines_def)
qed (simp add: text_of_lines_def)

end
