(* ===== verification/Ptz.thy ===== *)
theory Ptz
  imports Text_Lines
begin

text \<open>
  \<open>src/ipc_cmd/ipc_cmd/ptz.c\<close> and \<open>.h\<close>: which camera models can move, the model's name, and the
  position the driver reports.  The files and the driver's answer are arguments.
\<close>

definition MSTAR :: int where "MSTAR = 1"
definition ALLWINNER :: int where "ALLWINNER = 2"
definition ALLWINNER_V2 :: int where "ALLWINNER_V2 = 3"
definition ALLWINNER_V2_ALT :: int where "ALLWINNER_V2_ALT = 4"

lemmas ptz_family_defs = MSTAR_def ALLWINNER_def ALLWINNER_V2_def ALLWINNER_V2_ALT_def

definition is_ptz :: "string \<Rightarrow> int" where
  "is_ptz model =
     (if model = ''h201c'' \<or> model = ''h305r'' \<or> model = ''y30'' \<or> model = ''h307'' then MSTAR
      else if model = ''y30qa'' then ALLWINNER
      else if model = ''r30gb'' \<or> model = ''r35gb'' \<or> model = ''r37gb'' \<or> model = ''r40ga'' \<or>
              model = ''q321br_lsx'' \<or> model = ''qg311r'' \<or> model = ''b091qp'' then ALLWINNER_V2
      else if model = ''h30ga'' \<or> model = ''h51ga'' \<or> model = ''h52ga'' \<or> model = ''h60ga''
           then ALLWINNER_V2_ALT
      else 0)"

text \<open>
  What \<open>fgets\<close> puts into a buffer of \<open>size\<close> bytes: a line with its newline, cut at \<open>size - 1\<close>;
  \<open>None\<close> at the end of the file.
\<close>

definition c_fgets :: "nat \<Rightarrow> string \<Rightarrow> string option" where
  "c_fgets sz text = (if text = [] then None else Some (take (sz - 1) (first_line text)))"

text \<open>\<open>ma\<close> and \<open>a2\<close>: the contents of the two suffix files, if they open.\<close>

definition get_model_suffix :: "string option \<Rightarrow> string option \<Rightarrow> nat \<Rightarrow> int \<times> string" where
  "get_model_suffix ma a2 sz =
     (case (case ma of Some t \<Rightarrow> Some t | None \<Rightarrow> a2) of
        None \<Rightarrow> (-1, [])
      | Some text \<Rightarrow>
          case c_fgets sz text of
            None \<Rightarrow> (-2, [])
          | Some line \<Rightarrow>
              (0, takeWhile (\<lambda>c. c \<noteq> CHR 0x0D \<and> c \<noteq> CHR 0x0A \<and> c \<noteq> CHR 0x00) line))"

definition le32_at :: "byte list \<Rightarrow> nat \<Rightarrow> int" where
  "le32_at bs i = sint ((ucast (bs ! i) OR push_bit 8 (ucast (bs ! (i + 1))) OR
     push_bit 16 (ucast (bs ! (i + 2))) OR push_bit 24 (ucast (bs ! (i + 3)))) :: u32)"

text \<open>The driver: whether \<open>/dev/ssp\<close> opens, and the 32 bytes the request fills in, if it succeeds.\<close>

record ptz_env =
  pz_suffix_ma :: "string option"
  pz_suffix_a2 :: "string option"
  pz_ssp_ok :: bool
  pz_ioctl :: "byte list option"

definition read_ptz :: "ptz_env \<Rightarrow> int + (int \<times> int \<times> int)" where
  "read_ptz e =
     (if \<not> pz_ssp_ok e then Inl (-1)
      else case pz_ioctl e of
        None \<Rightarrow> Inl (-2)
      | Some pos \<Rightarrow> Inr (le32_at pos 0, le32_at pos 4, le32_at pos 20))"

definition ptz_family :: "ptz_env \<Rightarrow> int" where
  "ptz_family e = is_ptz (snd (get_model_suffix (pz_suffix_ma e) (pz_suffix_a2 e) 16))"

end
