(* ===== verification/Ipc_Cmd.thy ===== *)
theory Ipc_Cmd
  imports Ipc_Messages Ptz Ipc2file
begin

text \<open>
  \<open>src/ipc_cmd/ipc_cmd/ipc_cmd.c\<close>: the command line tool that sends messages to the dispatch queue.
  Each option and each block of sends is a definition of its own, in the order of \<open>main\<close>; the
  result is the exit status and the list of what the process did.  \<open>getopt_long\<close> is given by the
  options it returns.
\<close>

section \<open>State\<close>

record cmd_options =
  io_switch_on :: int
  io_sensitivity :: int
  io_led :: int
  io_save :: int
  io_ir :: int
  io_rotate :: int
  io_low_venc :: int
  io_setalertallowstate_human :: int
  io_aihumandetection :: int
  io_aivehicledetection :: int
  io_aianimaldetection :: int
  io_aimotiondetection :: int
  io_facedetection :: int
  io_motiontracking :: int
  io_mic :: int
  io_sounddetection :: int
  io_babycrying :: int
  io_soundsensitivity :: int
  io_move :: int
  io_get_pos :: int
  io_is_moving :: int
  io_jump_abs :: int
  io_jump_rel :: int
  io_x :: c_double
  io_y :: c_double
  io_preset :: int
  io_add_preset :: int
  io_set_home_position :: int
  io_remove_preset :: int
  io_cruise :: int
  io_start :: bool
  io_stop :: bool
  io_save_config :: bool
  io_time_to_stop :: int
  io_file :: string
  io_xxx_0 :: bool

definition no_options :: cmd_options where
  "no_options = \<lparr>io_switch_on = NONE, io_sensitivity = NONE, io_led = NONE,
     io_save = NONE, io_ir = NONE, io_rotate = NONE, io_low_venc = NONE,
     io_setalertallowstate_human = NONE, io_aihumandetection = NONE,
     io_aivehicledetection = NONE, io_aianimaldetection = NONE, io_aimotiondetection = NONE,
     io_facedetection = NONE, io_motiontracking = NONE, io_mic = NONE,
     io_sounddetection = NONE, io_babycrying = NONE, io_soundsensitivity = NONE,
     io_move = NONE, io_get_pos = NONE, io_is_moving = NONE, io_jump_abs = NONE,
     io_jump_rel = NONE, io_x = Fin 0, io_y = Fin 0, io_preset = NONE, io_add_preset = NONE,
     io_set_home_position = NONE, io_remove_preset = NONE, io_cruise = NONE, io_start = False,
     io_stop = False, io_save_config = False, io_time_to_stop = 60, io_file = [],
     io_xxx_0 = False\<rparr>"

section \<open>Options\<close>

text \<open>The words that most options take; \<open>None\<close> is the usage message and a failing exit.\<close>

definition parse_on_off :: "int \<Rightarrow> int \<Rightarrow> string \<Rightarrow> int option" where
  "parse_on_off off on optarg =
     (if str_ieq ''off'' optarg \<or> str_ieq ''no'' optarg then Some off
      else if str_ieq ''on'' optarg \<or> str_ieq ''yes'' optarg then Some on
      else None)"

definition option_switch_on :: "string \<Rightarrow> cmd_options \<Rightarrow> cmd_options option" where
  "option_switch_on optarg c = map_option (\<lambda>v. c\<lparr>io_switch_on := v\<rparr>)
     (parse_on_off SWITCH_OFF SWITCH_ON optarg)"

definition option_led :: "string \<Rightarrow> cmd_options \<Rightarrow> cmd_options option" where
  "option_led optarg c = map_option (\<lambda>v. c\<lparr>io_led := v\<rparr>)
     (parse_on_off LED_OFF LED_ON optarg)"

definition option_ir :: "string \<Rightarrow> cmd_options \<Rightarrow> cmd_options option" where
  "option_ir optarg c = map_option (\<lambda>v. c\<lparr>io_ir := v\<rparr>)
     (parse_on_off IR_OFF IR_ON optarg)"

definition option_rotate :: "string \<Rightarrow> cmd_options \<Rightarrow> cmd_options option" where
  "option_rotate optarg c = map_option (\<lambda>v. c\<lparr>io_rotate := v\<rparr>)
     (parse_on_off ROTATE_OFF ROTATE_ON optarg)"

definition option_low_venc :: "string \<Rightarrow> cmd_options \<Rightarrow> cmd_options option" where
  "option_low_venc optarg c = map_option (\<lambda>v. c\<lparr>io_low_venc := v\<rparr>)
     (parse_on_off LOW_VENC_OFF LOW_VENC_ON optarg)"

definition option_aihumandetection :: "string \<Rightarrow> cmd_options \<Rightarrow> cmd_options option" where
  "option_aihumandetection optarg c = map_option (\<lambda>v. c\<lparr>io_aihumandetection := v\<rparr>)
     (parse_on_off AI_HUMAN_DETECTION_OFF AI_HUMAN_DETECTION_ON optarg)"

definition option_aivehicledetection :: "string \<Rightarrow> cmd_options \<Rightarrow> cmd_options option" where
  "option_aivehicledetection optarg c = map_option (\<lambda>v. c\<lparr>io_aivehicledetection := v\<rparr>)
     (parse_on_off AI_VEHICLE_DETECTION_OFF AI_VEHICLE_DETECTION_ON optarg)"

definition option_aianimaldetection :: "string \<Rightarrow> cmd_options \<Rightarrow> cmd_options option" where
  "option_aianimaldetection optarg c = map_option (\<lambda>v. c\<lparr>io_aianimaldetection := v\<rparr>)
     (parse_on_off AI_ANIMAL_DETECTION_OFF AI_ANIMAL_DETECTION_ON optarg)"

definition option_aimotiondetection :: "string \<Rightarrow> cmd_options \<Rightarrow> cmd_options option" where
  "option_aimotiondetection optarg c = map_option (\<lambda>v. c\<lparr>io_aimotiondetection := v\<rparr>)
     (parse_on_off AI_MOTION_DETECTION_OFF AI_MOTION_DETECTION_ON optarg)"

definition option_facedetection :: "string \<Rightarrow> cmd_options \<Rightarrow> cmd_options option" where
  "option_facedetection optarg c = map_option (\<lambda>v. c\<lparr>io_facedetection := v\<rparr>)
     (parse_on_off FACE_DETECTION_OFF FACE_DETECTION_ON optarg)"

definition option_motiontracking :: "string \<Rightarrow> cmd_options \<Rightarrow> cmd_options option" where
  "option_motiontracking optarg c = map_option (\<lambda>v. c\<lparr>io_motiontracking := v\<rparr>)
     (parse_on_off MOTION_TRACKING_OFF MOTION_TRACKING_ON optarg)"

definition option_mic :: "string \<Rightarrow> cmd_options \<Rightarrow> cmd_options option" where
  "option_mic optarg c = map_option (\<lambda>v. c\<lparr>io_mic := v\<rparr>)
     (parse_on_off MIC_OFF MIC_ON optarg)"

definition option_sounddetection :: "string \<Rightarrow> cmd_options \<Rightarrow> cmd_options option" where
  "option_sounddetection optarg c = map_option (\<lambda>v. c\<lparr>io_sounddetection := v\<rparr>)
     (parse_on_off SOUND_DETECTION_OFF SOUND_DETECTION_ON optarg)"

definition option_sensitivity :: "string \<Rightarrow> cmd_options \<Rightarrow> cmd_options option" where
  "option_sensitivity optarg c =
     (if str_ieq ''low'' optarg then Some (c\<lparr>io_sensitivity := SENSITIVITY_LOW\<rparr>)
      else if str_ieq ''medium'' optarg then Some (c\<lparr>io_sensitivity := SENSITIVITY_MEDIUM\<rparr>)
      else if str_ieq ''high'' optarg then Some (c\<lparr>io_sensitivity := SENSITIVITY_HIGH\<rparr>)
      else None)"

definition option_save :: "string \<Rightarrow> cmd_options \<Rightarrow> cmd_options option" where
  "option_save optarg c =
     (if str_ieq ''always'' optarg \<or> str_ieq ''off'' optarg \<or> str_ieq ''no'' optarg then Some (c\<lparr>io_save := SAVE_ALWAYS\<rparr>)
      else if str_ieq ''detect'' optarg \<or> str_ieq ''on'' optarg \<or> str_ieq ''yes'' optarg then Some (c\<lparr>io_save := SAVE_DETECT\<rparr>)
      else None)"

definition option_soundsensitivity :: "string \<Rightarrow> cmd_options \<Rightarrow> cmd_options option" where
  "option_soundsensitivity optarg c =
     (if str_ieq ''30'' optarg then Some (c\<lparr>io_soundsensitivity := SOUND_SENS_30\<rparr>)
      else if str_ieq ''35'' optarg then Some (c\<lparr>io_soundsensitivity := SOUND_SENS_35\<rparr>)
      else if str_ieq ''40'' optarg then Some (c\<lparr>io_soundsensitivity := SOUND_SENS_40\<rparr>)
      else if str_ieq ''45'' optarg then Some (c\<lparr>io_soundsensitivity := SOUND_SENS_45\<rparr>)
      else if str_ieq ''50'' optarg then Some (c\<lparr>io_soundsensitivity := SOUND_SENS_50\<rparr>)
      else if str_ieq ''60'' optarg then Some (c\<lparr>io_soundsensitivity := SOUND_SENS_60\<rparr>)
      else if str_ieq ''70'' optarg then Some (c\<lparr>io_soundsensitivity := SOUND_SENS_70\<rparr>)
      else if str_ieq ''80'' optarg then Some (c\<lparr>io_soundsensitivity := SOUND_SENS_80\<rparr>)
      else if str_ieq ''90'' optarg then Some (c\<lparr>io_soundsensitivity := SOUND_SENS_90\<rparr>)
      else None)"

definition option_move :: "string \<Rightarrow> cmd_options \<Rightarrow> cmd_options option" where
  "option_move optarg c =
     (if str_ieq ''right'' optarg then Some (c\<lparr>io_move := MOVE_RIGHT\<rparr>)
      else if str_ieq ''left'' optarg then Some (c\<lparr>io_move := MOVE_LEFT\<rparr>)
      else if str_ieq ''down'' optarg then Some (c\<lparr>io_move := MOVE_DOWN\<rparr>)
      else if str_ieq ''up'' optarg then Some (c\<lparr>io_move := MOVE_UP\<rparr>)
      else if str_ieq ''stop'' optarg then Some (c\<lparr>io_move := MOVE_STOP\<rparr>)
      else None)"

definition option_move_reverse :: "string \<Rightarrow> cmd_options \<Rightarrow> cmd_options option" where
  "option_move_reverse optarg c =
     (if str_ieq ''right'' optarg then Some (c\<lparr>io_move := MOVE_LEFT\<rparr>)
      else if str_ieq ''left'' optarg then Some (c\<lparr>io_move := MOVE_RIGHT\<rparr>)
      else if str_ieq ''down'' optarg then Some (c\<lparr>io_move := MOVE_UP\<rparr>)
      else if str_ieq ''up'' optarg then Some (c\<lparr>io_move := MOVE_DOWN\<rparr>)
      else if str_ieq ''stop'' optarg then Some (c\<lparr>io_move := MOVE_STOP\<rparr>)
      else None)"

definition option_cruise :: "string \<Rightarrow> cmd_options \<Rightarrow> cmd_options option" where
  "option_cruise optarg c =
     (if str_ieq ''off'' optarg \<or> str_ieq ''no'' optarg then Some (c\<lparr>io_cruise := CRUISE_OFF\<rparr>)
      else if str_ieq ''on'' optarg \<or> str_ieq ''yes'' optarg then Some (c\<lparr>io_cruise := CRUISE_ON\<rparr>)
      else if str_ieq ''presets'' optarg then Some (c\<lparr>io_cruise := CRUISE_PRESETS\<rparr>)
      else if str_ieq ''360'' optarg then Some (c\<lparr>io_cruise := CRUISE_360\<rparr>)
      else None)"

text \<open>The only option whose unknown words are ignored.\<close>

definition option_babycrying :: "string \<Rightarrow> cmd_options \<Rightarrow> cmd_options option" where
  "option_babycrying optarg c =
     (case parse_on_off BABYCRYING_OFF BABYCRYING_ON optarg of
        Some v \<Rightarrow> Some (c\<lparr>io_babycrying := v\<rparr>)
      | None \<Rightarrow> Some c)"

text \<open>\<open>sscanf(optarg, "%lf,%lf", &x, &y) == 2\<close>\<close>

definition scan_position :: "string \<Rightarrow> (c_double \<times> c_double) option" where
  "scan_position s =
     (case scan_lf s of
        None \<Rightarrow> None
      | Some (x, r) \<Rightarrow>
          case scan_lit '','' r of
            None \<Rightarrow> None
          | Some r' \<Rightarrow> map_option (\<lambda>(y, _). (x, y)) (scan_lf r'))"

definition option_jump_abs :: "string \<Rightarrow> cmd_options \<Rightarrow> cmd_options option" where
  "option_jump_abs optarg c =
     (case scan_position optarg of
        None \<Rightarrow> None
      | Some (x, y) \<Rightarrow>
          if fp_lt x (Fin 0) \<or> fp_lt (Fin 360) x then None
          else if fp_lt y (Fin 0) \<or> fp_lt (Fin 180) y then None
          else Some (c\<lparr>io_jump_abs := 1, io_x := x, io_y := y\<rparr>))"

definition option_jump_rel :: "string \<Rightarrow> cmd_options \<Rightarrow> cmd_options option" where
  "option_jump_rel optarg c =
     (case scan_position optarg of
        None \<Rightarrow> None
      | Some (x, y) \<Rightarrow>
          if fp_lt x (Fin (-360)) \<or> fp_lt (Fin 360) x then None
          else if fp_lt y (Fin (-180)) \<or> fp_lt (Fin 180) y then None
          else Some (c\<lparr>io_jump_rel := 1, io_x := x, io_y := y\<rparr>))"

definition option_preset :: "string \<Rightarrow> cmd_options \<Rightarrow> cmd_options option" where
  "option_preset optarg c =
     (let (v, rest, erange) = strtol10 optarg
      in if erange \<and> (v = long_max \<or> v = long_min) then None
         else if rest = optarg then None
         else Some (c\<lparr>io_preset := v\<rparr>))"

definition option_remove_preset :: "string \<Rightarrow> cmd_options \<Rightarrow> cmd_options option" where
  "option_remove_preset optarg c =
     (if str_ieq ''all'' optarg then Some (c\<lparr>io_remove_preset := 255\<rparr>)
      else
        let (v, rest, erange) = strtol10 optarg
        in if erange \<and> (v = long_max \<or> v = long_min) then None
           else if rest = optarg then None
           else if v \<noteq> 255 \<and> (v < 0 \<or> v > 7) then None
           else Some (c\<lparr>io_remove_preset := v\<rparr>))"

definition option_file :: "string \<Rightarrow> cmd_options \<Rightarrow> cmd_options option" where
  "option_file optarg c = (if length optarg < 1023 then Some (c\<lparr>io_file := optarg\<rparr>) else None)"

definition option_start :: "string \<Rightarrow> cmd_options \<Rightarrow> cmd_options option" where
  "option_start optarg c =
     (let (v, rest, erange) = strtol10 optarg
      in if erange \<and> (v = long_max \<or> v = long_min) then None
         else if v \<le> 0 \<or> v > 300 then None
         else if rest = optarg then None
         else Some (c\<lparr>io_time_to_stop := v, io_start := True\<rparr>))"

text \<open>The flags.\<close>

definition option_flag :: "char \<Rightarrow> cmd_options \<Rightarrow> cmd_options option" where
  "option_flag ch c =
     (if ch = CHR ''1'' then Some (c\<lparr>io_setalertallowstate_human := 1\<rparr>)
      else if ch = CHR ''g'' then Some (c\<lparr>io_get_pos := 1\<rparr>)
      else if ch = CHR ''u'' then Some (c\<lparr>io_is_moving := 1\<rparr>)
      else if ch = CHR ''P'' then Some (c\<lparr>io_add_preset := 1\<rparr>)
      else if ch = CHR ''H'' then Some (c\<lparr>io_set_home_position := 1\<rparr>)
      else if ch = CHR ''T'' then Some (c\<lparr>io_stop := True\<rparr>)
      else if ch = CHR ''w'' then Some (c\<lparr>io_save_config := True\<rparr>)
      else if ch = CHR ''x'' then Some (c\<lparr>io_xxx_0 := True\<rparr>)
      else if ch = CHR ''d'' \<or> ch = CHR ''?'' then Some c
      else None)"

text \<open>The options with an argument, by letter.\<close>

definition option_handlers :: "(char \<times> (string \<Rightarrow> cmd_options \<Rightarrow> cmd_options option)) list" where
  "option_handlers =
    [(CHR ''t'', option_switch_on), (CHR ''l'', option_led), (CHR ''i'', option_ir),
     (CHR ''r'', option_rotate), (CHR ''V'', option_low_venc),
     (CHR ''a'', option_aihumandetection), (CHR ''E'', option_aivehicledetection),
     (CHR ''N'', option_aianimaldetection), (CHR ''O'', option_aimotiondetection),
     (CHR ''c'', option_facedetection), (CHR ''o'', option_motiontracking),
     (CHR ''I'', option_mic), (CHR ''b'', option_sounddetection),
     (CHR ''s'', option_sensitivity), (CHR ''v'', option_save),
     (CHR ''n'', option_soundsensitivity), (CHR ''m'', option_move),
     (CHR ''M'', option_move_reverse), (CHR ''C'', option_cruise),
     (CHR ''B'', option_babycrying), (CHR ''j'', option_jump_abs),
     (CHR ''J'', option_jump_rel), (CHR ''p'', option_preset),
     (CHR ''R'', option_remove_preset), (CHR ''f'', option_file),
     (CHR ''S'', option_start)]"

text \<open>The loop over the options: \<open>Inl\<close> is the exit status.\<close>

fun parse_command :: "(char \<times> string) list \<Rightarrow> cmd_options \<Rightarrow> int + cmd_options" where
  "parse_command [] c = Inr c"
| "parse_command ((ch, optarg) # opts) c =
     (case map_of option_handlers ch of
        Some h \<Rightarrow> (case h optarg c of None \<Rightarrow> Inl 1 | Some c' \<Rightarrow> parse_command opts c')
      | None \<Rightarrow> (case option_flag ch c of None \<Rightarrow> Inl 0 | Some c' \<Rightarrow> parse_command opts c'))"

section \<open>What the process does\<close>

text \<open>
  \<open>Send_worker\<close> goes to the second queue, which \<open>-w\<close> opens; \<open>Undefined\<close> marks where the source
  has no defined behaviour.
\<close>

datatype cmd_action = Send "byte list" | Send_worker "byte list" | Sleep_ms int | Print string
  | Detach | Undefined

text \<open>A block of \<open>main\<close>: what it does, and the status with which it ends the process, if it does.\<close>

type_synonym cmd_block = "cmd_action list \<times> int option"

definition and_then :: "cmd_block \<Rightarrow> cmd_block \<Rightarrow> cmd_block" where
  "and_then a b = (case a of
     (l, Some r) \<Rightarrow> (l, Some r)
   | (l, None) \<Rightarrow> (case b of (l', r) \<Rightarrow> (l @ l', r)))"

section \<open>Settings\<close>

definition send_switch_on :: "cmd_options \<Rightarrow> cmd_action list" where
  "send_switch_on c =
     (if io_switch_on c = SWITCH_ON then [Send IPC_SWITCH_ON]
      else if io_switch_on c = SWITCH_OFF then [Send IPC_SWITCH_OFF]
      else [])"

definition send_sensitivity :: "cmd_options \<Rightarrow> cmd_action list" where
  "send_sensitivity c =
     (if io_sensitivity c = SENSITIVITY_LOW then [Send IPC_SENS_LOW]
      else if io_sensitivity c = SENSITIVITY_MEDIUM then [Send IPC_SENS_MEDIUM]
      else if io_sensitivity c = SENSITIVITY_HIGH then [Send IPC_SENS_HIGH]
      else [])"

definition send_led :: "cmd_options \<Rightarrow> cmd_action list" where
  "send_led c =
     (if io_led c = LED_OFF then [Send IPC_LED_OFF]
      else if io_led c = LED_ON then [Send IPC_LED_ON]
      else [])"

definition send_save :: "cmd_options \<Rightarrow> cmd_action list" where
  "send_save c =
     (if io_save c = SAVE_ALWAYS then [Send IPC_SAVE_ALWAYS]
      else if io_save c = SAVE_DETECT then [Send IPC_SAVE_DETECT]
      else [])"

definition send_ir :: "cmd_options \<Rightarrow> cmd_action list" where
  "send_ir c =
     (if io_ir c = IR_OFF then [Send IPC_IR_OFF]
      else if io_ir c = IR_ON then [Send IPC_IR_ON]
      else [])"

definition send_rotate :: "cmd_options \<Rightarrow> cmd_action list" where
  "send_rotate c =
     (if io_rotate c = ROTATE_OFF then [Send IPC_ROTATE_OFF]
      else if io_rotate c = ROTATE_ON then [Send IPC_ROTATE_ON]
      else [])"

definition send_low_venc :: "cmd_options \<Rightarrow> cmd_action list" where
  "send_low_venc c =
     (if io_low_venc c = LOW_VENC_OFF then [Send IPC_LOW_VENC_OFF]
      else if io_low_venc c = LOW_VENC_ON then [Send IPC_LOW_VENC_ON]
      else [])"

definition send_setalertallowstate_human :: "cmd_options \<Rightarrow> cmd_action list" where
  "send_setalertallowstate_human c =
     (if io_setalertallowstate_human c = 1 then [Send IPC_SET_ALERT_ALLOW_STATE_HUMAN] else [])"

definition send_aihumandetection :: "cmd_options \<Rightarrow> cmd_action list" where
  "send_aihumandetection c =
     (if io_aihumandetection c = AI_HUMAN_DETECTION_OFF then [Send IPC_AI_HUMAN_DETECTION_OFF]
      else if io_aihumandetection c = AI_HUMAN_DETECTION_ON then [Send IPC_AI_HUMAN_DETECTION_ON]
      else [])"

definition send_aivehicledetection :: "cmd_options \<Rightarrow> cmd_action list" where
  "send_aivehicledetection c =
     (if io_aivehicledetection c = AI_VEHICLE_DETECTION_OFF then [Send IPC_AI_VEHICLE_DETECTION_OFF]
      else if io_aivehicledetection c = AI_VEHICLE_DETECTION_ON then [Send IPC_AI_VEHICLE_DETECTION_ON]
      else [])"

definition send_aianimaldetection :: "cmd_options \<Rightarrow> cmd_action list" where
  "send_aianimaldetection c =
     (if io_aianimaldetection c = AI_ANIMAL_DETECTION_OFF then [Send IPC_AI_ANIMAL_DETECTION_OFF]
      else if io_aianimaldetection c = AI_ANIMAL_DETECTION_ON then [Send IPC_AI_ANIMAL_DETECTION_ON]
      else [])"

definition send_aimotiondetection :: "cmd_options \<Rightarrow> cmd_action list" where
  "send_aimotiondetection c =
     (if io_aimotiondetection c = AI_MOTION_DETECTION_OFF then [Send IPC_AI_MOTION_DETECTION_OFF]
      else if io_aimotiondetection c = AI_MOTION_DETECTION_ON then [Send IPC_AI_MOTION_DETECTION_ON]
      else [])"

definition send_facedetection :: "cmd_options \<Rightarrow> cmd_action list" where
  "send_facedetection c =
     (if io_facedetection c = FACE_DETECTION_OFF then [Send IPC_FACE_DETECTION_OFF]
      else if io_facedetection c = FACE_DETECTION_ON then [Send IPC_FACE_DETECTION_ON]
      else [])"

definition send_motiontracking :: "cmd_options \<Rightarrow> cmd_action list" where
  "send_motiontracking c =
     (if io_motiontracking c = MOTION_TRACKING_OFF then [Send IPC_MOTION_TRACKING_OFF]
      else if io_motiontracking c = MOTION_TRACKING_ON then [Send IPC_MOTION_TRACKING_ON]
      else [])"

definition send_mic :: "cmd_options \<Rightarrow> cmd_action list" where
  "send_mic c =
     (if io_mic c = MIC_OFF then [Send IPC_MIC_OFF]
      else if io_mic c = MIC_ON then [Send IPC_MIC_ON]
      else [])"

definition send_sounddetection :: "cmd_options \<Rightarrow> cmd_action list" where
  "send_sounddetection c =
     (if io_sounddetection c = SOUND_DETECTION_OFF then [Send IPC_SOUND_DETECTION_OFF]
      else if io_sounddetection c = SOUND_DETECTION_ON then [Send IPC_SOUND_DETECTION_ON]
      else [])"

definition send_babycrying :: "cmd_options \<Rightarrow> cmd_action list" where
  "send_babycrying c =
     (if io_babycrying c = BABYCRYING_OFF then [Send IPC_BABYCRYING_OFF]
      else if io_babycrying c = BABYCRYING_ON then [Send IPC_BABYCRYING_ON]
      else [])"

definition send_soundsensitivity :: "cmd_options \<Rightarrow> cmd_action list" where
  "send_soundsensitivity c =
     (if io_soundsensitivity c = SOUND_SENS_30 then [Send IPC_SOUND_SENS_30]
      else if io_soundsensitivity c = SOUND_SENS_35 then [Send IPC_SOUND_SENS_35]
      else if io_soundsensitivity c = SOUND_SENS_40 then [Send IPC_SOUND_SENS_40]
      else if io_soundsensitivity c = SOUND_SENS_45 then [Send IPC_SOUND_SENS_45]
      else if io_soundsensitivity c = SOUND_SENS_50 then [Send IPC_SOUND_SENS_50]
      else if io_soundsensitivity c = SOUND_SENS_60 then [Send IPC_SOUND_SENS_60]
      else if io_soundsensitivity c = SOUND_SENS_70 then [Send IPC_SOUND_SENS_70]
      else if io_soundsensitivity c = SOUND_SENS_80 then [Send IPC_SOUND_SENS_80]
      else if io_soundsensitivity c = SOUND_SENS_90 then [Send IPC_SOUND_SENS_90]
      else [])"

definition send_settings :: "cmd_options \<Rightarrow> cmd_action list" where
  "send_settings c =
     send_switch_on c @ send_sensitivity c @ send_led c @ send_save c @ send_ir c @
     send_rotate c @ send_low_venc c @ send_setalertallowstate_human c @
     send_aihumandetection c @ send_aivehicledetection c @ send_aianimaldetection c @
     send_aimotiondetection c @ send_facedetection c @ send_motiontracking c @ send_mic c @
     send_sounddetection c @ send_babycrying c @ send_soundsensitivity c"
section \<open>Movement\<close>

record cmd_env =
  cv_queue_ok :: bool
  cv_worker_ok :: bool
  cv_ptz :: ptz_env
  cv_file :: "string \<Rightarrow> byte list option"   \<comment> \<open>the files that open\<close>
  cv_fread_ok :: bool
  cv_fork1 :: fork_result
  cv_setsid_ok :: bool
  cv_fork2 :: fork_result

definition move_for_model :: "int \<Rightarrow> int \<Rightarrow> int" where
  "move_for_model family move =
     (if family = ALLWINNER_V2 then -1 * move
      else if family = ALLWINNER_V2_ALT \<and> (move = MOVE_LEFT \<or> move = MOVE_RIGHT) then -1 * move
      else move)"

definition send_move :: "cmd_env \<Rightarrow> cmd_options \<Rightarrow> cmd_action list" where
  "send_move e c =
     (if io_move c = NONE then []
      else
        let move = move_for_model (ptz_family (cv_ptz e)) (io_move c)
        in if move = MOVE_RIGHT then [Send IPC_MOVE_RIGHT]
           else if move = MOVE_LEFT then [Send IPC_MOVE_LEFT]
           else if move = MOVE_DOWN then [Send IPC_MOVE_DOWN]
           else if move = MOVE_UP then [Send IPC_MOVE_UP]
           else if move = MOVE_STOP then [Send IPC_MOVE_STOP]
           else [])"

text \<open>The bytes of an \<open>int\<close> in memory, and the message with the two computed coordinates.\<close>

definition store_le32 :: "int \<Rightarrow> byte list" where
  "store_le32 v = map (\<lambda>k. word_of_int (v div 256 ^ k)) [0, 1, 2, 3]"

definition jump_message :: "c_double \<Rightarrow> c_double \<Rightarrow> cmd_action" where
  "jump_message fx fy =
     (case (fp_to_int (fp_round fx), fp_to_int (fp_round fy)) of
        (Some fin_x, Some fin_y) \<Rightarrow>
          Send (take 16 IPC_JUMP_POSITION @ store_le32 fin_x @ store_le32 fin_y)
      | _ \<Rightarrow> Undefined)"

definition ptz_units :: "c_double \<Rightarrow> int \<Rightarrow> rat \<Rightarrow> c_double" where
  "ptz_units v units degrees = fp_round (fp_scale v (rnd53 (of_int units / degrees)))"

definition jump_abs_block :: "cmd_env \<Rightarrow> cmd_options \<Rightarrow> cmd_block" where
  "jump_abs_block e c =
     (if io_jump_abs c = NONE then ([], None)
      else
        let y = (if ptz_family (cv_ptz e) = ALLWINNER_V2_ALT then fp_sub (Fin 180) (io_y c) else io_y c)
        in case read_ptz (cv_ptz e) of
             Inl _ \<Rightarrow> ([], Some (-1))
           | Inr (cur_x, cur_y, _) \<Rightarrow>
               let fx = ptz_units (io_x c) MAX_PTZ_X 360;
                   fx' = fp_add (fp_over (fp_scale (fp_sub fx (Fin (of_int cur_x))) 100) 911) (Fin 50);
                   fy = ptz_units y MAX_PTZ_Y 180;
                   fy' = fp_add (fp_over (fp_scale (fp_sub fy (Fin (of_int cur_y))) 100) 694) (Fin 50)
               in ([jump_message fx' fy'], None))"

definition jump_rel_block :: "cmd_env \<Rightarrow> cmd_options \<Rightarrow> cmd_block" where
  "jump_rel_block e c =
     (if io_jump_rel c = NONE then ([], None)
      else
        let y = (if ptz_family (cv_ptz e) = ALLWINNER_V2_ALT then fp_scale (io_y c) (-1) else io_y c)
        in case read_ptz (cv_ptz e) of
             Inl _ \<Rightarrow> ([], Some (-1))
           | Inr _ \<Rightarrow>
               let fx = ptz_units (io_x c) MAX_PTZ_X 360;
                   fx' = fp_add (fp_over (fp_scale fx 100) 911) (Fin 50);
                   fy = ptz_units y MAX_PTZ_Y 180;
                   fy' = fp_add (fp_over (fp_scale fy 100) 694) (Fin 50)
               in ([jump_message fx' fy'], None))"

section \<open>Presets and position\<close>

definition preset_message :: "byte list \<Rightarrow> int \<Rightarrow> byte list" where
  "preset_message msg n = msg[16 := word_of_int n]"

definition send_preset :: "cmd_options \<Rightarrow> cmd_action list" where
  "send_preset c =
     (if io_preset c \<noteq> NONE then [Send (preset_message IPC_GOTO_PRESET (io_preset c))] else [])"

definition send_add_preset :: "cmd_options \<Rightarrow> cmd_action list" where
  "send_add_preset c = (if io_add_preset c \<noteq> NONE then [Send IPC_ADD_PRESET] else [])"

definition get_pos_block :: "cmd_env \<Rightarrow> cmd_options \<Rightarrow> cmd_block" where
  "get_pos_block e c =
     (if io_get_pos c = NONE then ([], None)
      else case read_ptz (cv_ptz e) of
        Inl _ \<Rightarrow> ([], Some (-1))
      | Inr (cur_x, cur_y, _) \<Rightarrow>
          let fx = fp_scale (fp_over (Fin (of_int cur_x)) (of_int MAX_PTZ_X)) 360;
              fy = fp_scale (fp_over (Fin (of_int cur_y)) (of_int MAX_PTZ_Y)) 180;
              fy' = (if ptz_family (cv_ptz e) = ALLWINNER_V2_ALT then fp_sub (Fin 180) fy else fy)
          in ([Print (fmt_fixed 1 fx @ '','' @ fmt_fixed 1 fy' @ [CHR 0x0A])], None))"

definition is_moving_block :: "cmd_env \<Rightarrow> cmd_options \<Rightarrow> cmd_block" where
  "is_moving_block e c =
     (if io_is_moving c = NONE then ([], None)
      else case read_ptz (cv_ptz e) of
        Inl _ \<Rightarrow> ([], Some (-1))
      | Inr (_, _, cur_i) \<Rightarrow> ([Print (show_int cur_i @ [CHR 0x0A])], None))"

definition send_set_home :: "cmd_options \<Rightarrow> cmd_action list" where
  "send_set_home c =
     (if io_set_home_position c \<noteq> NONE
      then [Send (preset_message IPC_REMOVE_PRESET 0), Sleep_ms 1000, Send IPC_ADD_PRESET] else [])"

definition send_remove_preset :: "cmd_options \<Rightarrow> cmd_action list" where
  "send_remove_preset c =
     (if io_remove_preset c = NONE then []
      else if io_remove_preset c = 255
      then map (\<lambda>i. Send (preset_message IPC_REMOVE_PRESET i)) [0, 1, 2, 3, 4, 5, 6, 7]
      else [Send (preset_message IPC_REMOVE_PRESET (io_remove_preset c))])"

definition send_cruise :: "cmd_options \<Rightarrow> cmd_action list" where
  "send_cruise c =
     (if io_cruise c = CRUISE_OFF then [Send IPC_CRUISE_OFF]
      else if io_cruise c = CRUISE_ON then [Send IPC_CRUISE_ON]
      else if io_cruise c = CRUISE_PRESETS
      then [Send IPC_CRUISE_ON, Sleep_ms 100, Send IPC_CRUISE_PRESETS]
      else if io_cruise c = CRUISE_360
      then [Send IPC_CRUISE_ON, Sleep_ms 100, Send IPC_CRUISE_360]
      else [])"

section \<open>Files, motion events and the configuration\<close>

text \<open>The whole file is read into a buffer of 1024 bytes, whatever its size.\<close>

definition file_block :: "cmd_env \<Rightarrow> cmd_options \<Rightarrow> cmd_block" where
  "file_block e c =
     (if io_file c = [] then ([], None)
      else case cv_file e (io_file c) of
        None \<Rightarrow> ([], Some 1)
      | Some bytes \<Rightarrow>
          if length bytes > 1024 then ([Undefined], Some 1)
          else if \<not> cv_fread_ok e then ([], Some 1)
          else ([Send bytes], None))"

text \<open>After START the process detaches; the parents exit, the grandchild waits and sends STOP.\<close>

definition start_block :: "cmd_env \<Rightarrow> cmd_options \<Rightarrow> cmd_block" where
  "start_block e c =
     (if \<not> io_start c then ([], None)
      else case cv_fork1 e of
        Fork_fails \<Rightarrow> ([Send IPC_MOTION_START], Some 1)
      | Fork_parent \<Rightarrow> ([Send IPC_MOTION_START], Some 0)
      | Fork_child \<Rightarrow>
          if \<not> cv_setsid_ok e then ([Send IPC_MOTION_START], Some 1)
          else case cv_fork2 e of
            Fork_fails \<Rightarrow> ([Send IPC_MOTION_START], Some 1)
          | Fork_parent \<Rightarrow> ([Send IPC_MOTION_START], Some 0)
          | Fork_child \<Rightarrow>
              ([Send IPC_MOTION_START, Detach, Sleep_ms (1000 * io_time_to_stop c),
                Send IPC_MOTION_STOP], None))"

definition send_stop :: "cmd_options \<Rightarrow> cmd_action list" where
  "send_stop c = (if io_stop c then [Send IPC_MOTION_STOP] else [])"

definition save_config_block :: "cmd_env \<Rightarrow> cmd_options \<Rightarrow> cmd_block" where
  "save_config_block e c =
     (if \<not> io_save_config c then ([], None)
      else if \<not> cv_worker_ok e then ([], Some 1)
      else ([Send_worker IPC_SAVE_CONFIG], Some 0))"

definition send_xxx :: "cmd_options \<Rightarrow> cmd_action list" where
  "send_xxx c = (if io_xxx_0 c then [Send IPC_XXX_0] else [])"

definition dispatch :: "cmd_env \<Rightarrow> cmd_options \<Rightarrow> cmd_block" where
  "dispatch e c =
     and_then (send_settings c @ send_move e c, None)
    (and_then (jump_abs_block e c)
    (and_then (jump_rel_block e c)
    (and_then (send_preset c @ send_add_preset c, None)
    (and_then (get_pos_block e c)
    (and_then (is_moving_block e c)
    (and_then (send_set_home c @ send_remove_preset c @ send_cruise c, None)
    (and_then (file_block e c)
    (and_then (start_block e c)
    (and_then (send_stop c, None)
    (and_then (save_config_block e c)
              (send_xxx c, Some 0)))))))))))"

definition ipc_cmd_main :: "nat \<Rightarrow> (char \<times> string) list \<Rightarrow> cmd_env \<Rightarrow> cmd_action list \<times> int" where
  "ipc_cmd_main argc opts e =
     (case parse_command opts no_options of
        Inl status \<Rightarrow> ([], status)
      | Inr c \<Rightarrow>
          if argc = 1 then ([], 0)
          else if \<not> cv_queue_ok e then ([], 1)
          else case dispatch e c of (l, r) \<Rightarrow> (l, case r of Some s \<Rightarrow> s | None \<Rightarrow> 0))"

section \<open>The commands of the settings\<close>

text \<open>Option, word, and what the command must do.\<close>

definition command_table :: "(char \<times> string \<times> cmd_action list) list" where
  "command_table =
    [(CHR ''t'', ''off'', [Send IPC_SWITCH_OFF]),
     (CHR ''t'', ''no'', [Send IPC_SWITCH_OFF]),
     (CHR ''t'', ''on'', [Send IPC_SWITCH_ON]),
     (CHR ''t'', ''yes'', [Send IPC_SWITCH_ON]),
     (CHR ''l'', ''off'', [Send IPC_LED_OFF]),
     (CHR ''l'', ''no'', [Send IPC_LED_OFF]),
     (CHR ''l'', ''on'', [Send IPC_LED_ON]),
     (CHR ''l'', ''yes'', [Send IPC_LED_ON]),
     (CHR ''i'', ''off'', [Send IPC_IR_OFF]),
     (CHR ''i'', ''no'', [Send IPC_IR_OFF]),
     (CHR ''i'', ''on'', [Send IPC_IR_ON]),
     (CHR ''i'', ''yes'', [Send IPC_IR_ON]),
     (CHR ''r'', ''off'', [Send IPC_ROTATE_OFF]),
     (CHR ''r'', ''no'', [Send IPC_ROTATE_OFF]),
     (CHR ''r'', ''on'', [Send IPC_ROTATE_ON]),
     (CHR ''r'', ''yes'', [Send IPC_ROTATE_ON]),
     (CHR ''V'', ''off'', [Send IPC_LOW_VENC_OFF]),
     (CHR ''V'', ''no'', [Send IPC_LOW_VENC_OFF]),
     (CHR ''V'', ''on'', [Send IPC_LOW_VENC_ON]),
     (CHR ''V'', ''yes'', [Send IPC_LOW_VENC_ON]),
     (CHR ''a'', ''off'', [Send IPC_AI_HUMAN_DETECTION_OFF]),
     (CHR ''a'', ''no'', [Send IPC_AI_HUMAN_DETECTION_OFF]),
     (CHR ''a'', ''on'', [Send IPC_AI_HUMAN_DETECTION_ON]),
     (CHR ''a'', ''yes'', [Send IPC_AI_HUMAN_DETECTION_ON]),
     (CHR ''E'', ''off'', [Send IPC_AI_VEHICLE_DETECTION_OFF]),
     (CHR ''E'', ''no'', [Send IPC_AI_VEHICLE_DETECTION_OFF]),
     (CHR ''E'', ''on'', [Send IPC_AI_VEHICLE_DETECTION_ON]),
     (CHR ''E'', ''yes'', [Send IPC_AI_VEHICLE_DETECTION_ON]),
     (CHR ''N'', ''off'', [Send IPC_AI_ANIMAL_DETECTION_OFF]),
     (CHR ''N'', ''no'', [Send IPC_AI_ANIMAL_DETECTION_OFF]),
     (CHR ''N'', ''on'', [Send IPC_AI_ANIMAL_DETECTION_ON]),
     (CHR ''N'', ''yes'', [Send IPC_AI_ANIMAL_DETECTION_ON]),
     (CHR ''O'', ''off'', [Send IPC_AI_MOTION_DETECTION_OFF]),
     (CHR ''O'', ''no'', [Send IPC_AI_MOTION_DETECTION_OFF]),
     (CHR ''O'', ''on'', [Send IPC_AI_MOTION_DETECTION_ON]),
     (CHR ''O'', ''yes'', [Send IPC_AI_MOTION_DETECTION_ON]),
     (CHR ''c'', ''off'', [Send IPC_FACE_DETECTION_OFF]),
     (CHR ''c'', ''no'', [Send IPC_FACE_DETECTION_OFF]),
     (CHR ''c'', ''on'', [Send IPC_FACE_DETECTION_ON]),
     (CHR ''c'', ''yes'', [Send IPC_FACE_DETECTION_ON]),
     (CHR ''o'', ''off'', [Send IPC_MOTION_TRACKING_OFF]),
     (CHR ''o'', ''no'', [Send IPC_MOTION_TRACKING_OFF]),
     (CHR ''o'', ''on'', [Send IPC_MOTION_TRACKING_ON]),
     (CHR ''o'', ''yes'', [Send IPC_MOTION_TRACKING_ON]),
     (CHR ''I'', ''off'', [Send IPC_MIC_OFF]),
     (CHR ''I'', ''no'', [Send IPC_MIC_OFF]),
     (CHR ''I'', ''on'', [Send IPC_MIC_ON]),
     (CHR ''I'', ''yes'', [Send IPC_MIC_ON]),
     (CHR ''b'', ''off'', [Send IPC_SOUND_DETECTION_OFF]),
     (CHR ''b'', ''no'', [Send IPC_SOUND_DETECTION_OFF]),
     (CHR ''b'', ''on'', [Send IPC_SOUND_DETECTION_ON]),
     (CHR ''b'', ''yes'', [Send IPC_SOUND_DETECTION_ON]),
     (CHR ''B'', ''off'', [Send IPC_BABYCRYING_OFF]),
     (CHR ''B'', ''no'', [Send IPC_BABYCRYING_OFF]),
     (CHR ''B'', ''on'', [Send IPC_BABYCRYING_ON]),
     (CHR ''B'', ''yes'', [Send IPC_BABYCRYING_ON]),
     (CHR ''s'', ''low'', [Send IPC_SENS_LOW]),
     (CHR ''s'', ''medium'', [Send IPC_SENS_MEDIUM]),
     (CHR ''s'', ''high'', [Send IPC_SENS_HIGH]),
     (CHR ''v'', ''always'', [Send IPC_SAVE_ALWAYS]),
     (CHR ''v'', ''off'', [Send IPC_SAVE_ALWAYS]),
     (CHR ''v'', ''no'', [Send IPC_SAVE_ALWAYS]),
     (CHR ''v'', ''detect'', [Send IPC_SAVE_DETECT]),
     (CHR ''v'', ''on'', [Send IPC_SAVE_DETECT]),
     (CHR ''v'', ''yes'', [Send IPC_SAVE_DETECT]),
     (CHR ''n'', ''30'', [Send IPC_SOUND_SENS_30]),
     (CHR ''n'', ''35'', [Send IPC_SOUND_SENS_35]),
     (CHR ''n'', ''40'', [Send IPC_SOUND_SENS_40]),
     (CHR ''n'', ''45'', [Send IPC_SOUND_SENS_45]),
     (CHR ''n'', ''50'', [Send IPC_SOUND_SENS_50]),
     (CHR ''n'', ''60'', [Send IPC_SOUND_SENS_60]),
     (CHR ''n'', ''70'', [Send IPC_SOUND_SENS_70]),
     (CHR ''n'', ''80'', [Send IPC_SOUND_SENS_80]),
     (CHR ''n'', ''90'', [Send IPC_SOUND_SENS_90]),
     (CHR ''C'', ''off'', [Send IPC_CRUISE_OFF]),
     (CHR ''C'', ''no'', [Send IPC_CRUISE_OFF]),
     (CHR ''C'', ''on'', [Send IPC_CRUISE_ON]),
     (CHR ''C'', ''yes'', [Send IPC_CRUISE_ON]),
     (CHR ''C'', ''presets'', [Send IPC_CRUISE_ON, Sleep_ms 100, Send IPC_CRUISE_PRESETS]),
     (CHR ''C'', ''360'', [Send IPC_CRUISE_ON, Sleep_ms 100, Send IPC_CRUISE_360])]"

text \<open>Options that take no part in movement, presets, files or events.\<close>

definition plain_options :: "cmd_options \<Rightarrow> bool" where
  "plain_options c \<longleftrightarrow> io_move c = NONE \<and> io_jump_abs c = NONE \<and> io_jump_rel c = NONE \<and>
     io_preset c = NONE \<and> io_add_preset c = NONE \<and> io_get_pos c = NONE \<and> io_is_moving c = NONE \<and>
     io_set_home_position c = NONE \<and> io_remove_preset c = NONE \<and> io_file c = [] \<and> \<not> io_start c \<and>
     \<not> io_stop c \<and> \<not> io_save_config c \<and> \<not> io_xxx_0 c"

lemma dispatch_plain:
  "plain_options c \<Longrightarrow> dispatch e c = (send_settings c @ send_cruise c, Some 0)"
  by (simp add: plain_options_def dispatch_def and_then_def send_move_def jump_abs_block_def
      jump_rel_block_def send_preset_def send_add_preset_def get_pos_block_def is_moving_block_def
      send_set_home_def send_remove_preset_def file_block_def start_block_def send_stop_def
      save_config_block_def send_xxx_def)

text \<open>A handler of words sees only the word, not its case.\<close>

definition word_handler :: "(string \<Rightarrow> cmd_options \<Rightarrow> cmd_options option) \<Rightarrow> bool" where
  "word_handler h \<longleftrightarrow> (\<forall>a b c. str_ieq a b \<longrightarrow> h a c = h b c)"

lemma str_ieq_cong: "str_ieq a b \<Longrightarrow> str_ieq w a = str_ieq w b"
  by (simp add: str_ieq_def)

definition row_ok :: "char \<times> string \<times> cmd_action list \<Rightarrow> bool" where
  "row_ok r = (case r of (ch, wd, acts) \<Rightarrow>
     (case map_of option_handlers ch of
        None \<Rightarrow> False
      | Some h \<Rightarrow>
          (case h wd no_options of
             None \<Rightarrow> False
           | Some c \<Rightarrow> plain_options c \<and> send_settings c @ send_cruise c = acts)))"

lemma command_table_rows: "list_all row_ok command_table"
  by code_simp

lemma word_handlerI:
  assumes "\<And>a b c. (\<And>w. str_ieq w a = str_ieq w b) \<Longrightarrow> h a c = h b c"
  shows "word_handler h"
  unfolding word_handler_def using assms str_ieq_cong by blast

lemma word_handlers:
  "word_handler option_switch_on" "word_handler option_led" "word_handler option_ir"
  "word_handler option_rotate" "word_handler option_low_venc" "word_handler option_aihumandetection"
  "word_handler option_aivehicledetection" "word_handler option_aianimaldetection"
  "word_handler option_aimotiondetection" "word_handler option_facedetection"
  "word_handler option_motiontracking" "word_handler option_mic" "word_handler option_sounddetection"
  "word_handler option_babycrying" "word_handler option_sensitivity" "word_handler option_save"
  "word_handler option_soundsensitivity" "word_handler option_move" "word_handler option_move_reverse"
  "word_handler option_cruise"
  by (rule word_handlerI, simp add: option_switch_on_def option_led_def option_ir_def option_rotate_def
      option_low_venc_def option_aihumandetection_def option_aivehicledetection_def
      option_aianimaldetection_def option_aimotiondetection_def option_facedetection_def
      option_motiontracking_def option_mic_def option_sounddetection_def option_babycrying_def
      option_sensitivity_def option_save_def option_soundsensitivity_def option_move_def
      option_move_reverse_def option_cruise_def parse_on_off_def)+

definition word_letters :: string where
  "word_letters = ''tlirVaENOcoIbsvnmMCB''"

lemma letter_handler:
  assumes "ch \<in> set word_letters" "map_of option_handlers ch = Some h"
  shows "word_handler h"
  using assms word_handlers by (auto simp: word_letters_def option_handlers_def)

lemma command_table_letters: "list_all (\<lambda>r. fst r \<in> set word_letters) command_table"
  by code_simp

lemma main_one_option:
  assumes "map_of option_handlers ch = Some h" "h arg no_options = Some c" "cv_queue_ok e" "argc \<noteq> 1"
  shows "ipc_cmd_main argc [(ch, arg)] e =
    (case dispatch e c of (l, r) \<Rightarrow> (l, case r of Some s \<Rightarrow> s | None \<Rightarrow> 0))"
  using assms by (simp add: ipc_cmd_main_def)

lemma setting_row_sends:
  assumes "(ch, wd, acts) \<in> set command_table" "str_ieq wd arg" "cv_queue_ok e"
  shows "ipc_cmd_main 3 [(ch, arg)] e = (acts, 0)"
proof -
  have "row_ok (ch, wd, acts)" "ch \<in> set word_letters"
    using command_table_rows command_table_letters assms(1) by (auto simp: list_all_iff)
  then obtain h c where h: "map_of option_handlers ch = Some h" "h wd no_options = Some c"
    "plain_options c" "send_settings c @ send_cruise c = acts"
    by (auto simp: row_ok_def split: option.splits)
  have "h arg no_options = Some c"
    using letter_handler [OF \<open>ch \<in> set word_letters\<close> h(1)] assms(2) h(2)
    unfolding word_handler_def by metis
  from main_one_option [OF h(1) this assms(3)] show ?thesis
    by (simp add: dispatch_plain [OF h(3)] h(4))
qed

text \<open>
   Every setting command does what the table says: for each row, the option with the word in any
  mixture of cases sends exactly the row's messages, in order (with the pause of the cruise
  modes), and exits with status 0.
\<close>

theorem setting_commands_send:
  assumes "(ch, wd, acts) \<in> set command_table" "str_ieq wd arg" "cv_queue_ok e"
  shows "ipc_cmd_main 3 [(ch, arg)] e = (acts, 0)"
  using assms by (rule setting_row_sends)

lemma setting_commands_send_witness:
  "ipc_cmd_main 3 [(CHR ''C'', ''Presets'')]
     \<lparr>cv_queue_ok = True, cv_worker_ok = True, cv_ptz = \<lparr>pz_suffix_ma = None, pz_suffix_a2 = None,
        pz_ssp_ok = False, pz_ioctl = None\<rparr>, cv_file = (\<lambda>_. None), cv_fread_ok = True,
      cv_fork1 = Fork_child, cv_setsid_ok = True, cv_fork2 = Fork_child\<rparr> =
   ([Send IPC_CRUISE_ON, Sleep_ms 100, Send IPC_CRUISE_PRESETS], 0)"
proof (rule setting_commands_send)
  show "(CHR ''C'', ''presets'', [Send IPC_CRUISE_ON, Sleep_ms 100, Send IPC_CRUISE_PRESETS]) \<in> set command_table"
    by (simp add: command_table_def)
  show "str_ieq ''presets'' ''Presets''" by code_simp
qed simp

section \<open>Movement\<close>

datatype direction = Go_right | Go_left | Go_down | Go_up | Go_stop

fun direction_word :: "direction \<Rightarrow> string" where
  "direction_word Go_right = ''right''"
| "direction_word Go_left = ''left''"
| "direction_word Go_down = ''down''"
| "direction_word Go_up = ''up''"
| "direction_word Go_stop = ''stop''"

fun direction_message :: "direction \<Rightarrow> byte list" where
  "direction_message Go_right = IPC_MOVE_RIGHT"
| "direction_message Go_left = IPC_MOVE_LEFT"
| "direction_message Go_down = IPC_MOVE_DOWN"
| "direction_message Go_up = IPC_MOVE_UP"
| "direction_message Go_stop = IPC_MOVE_STOP"

fun opposite :: "direction \<Rightarrow> direction" where
  "opposite Go_right = Go_left"
| "opposite Go_left = Go_right"
| "opposite Go_down = Go_up"
| "opposite Go_up = Go_down"
| "opposite Go_stop = Go_stop"

fun horizontal :: "direction \<Rightarrow> bool" where
  "horizontal Go_right = True"
| "horizontal Go_left = True"
| "horizontal _ = False"

lemma dispatch_move:
  assumes "plain_options (c\<lparr>io_move := NONE\<rparr>)" "send_settings c = []" "send_cruise c = []"
  shows "dispatch e c = (send_move e c, Some 0)"
  using assms
  by (simp add: plain_options_def dispatch_def and_then_def jump_abs_block_def
      jump_rel_block_def send_preset_def send_add_preset_def get_pos_block_def is_moving_block_def
      send_set_home_def send_remove_preset_def file_block_def start_block_def send_stop_def
      save_config_block_def send_xxx_def)

lemma no_options_idle:
  "plain_options (no_options\<lparr>io_move := NONE\<rparr>)"
  "send_settings (no_options\<lparr>io_move := v\<rparr>) = []" "send_cruise (no_options\<lparr>io_move := v\<rparr>) = []"
  by (simp_all add: plain_options_def no_options_def send_settings_def send_cruise_def
      send_switch_on_def send_sensitivity_def send_led_def send_save_def send_ir_def send_rotate_def
      send_low_venc_def send_setalertallowstate_human_def send_aihumandetection_def
      send_aivehicledetection_def send_aianimaldetection_def send_aimotiondetection_def
      send_facedetection_def send_motiontracking_def send_mic_def send_sounddetection_def
      send_babycrying_def send_soundsensitivity_def ipc_value_defs)

lemma move_words:
  "option_move (direction_word d) c = Some (c\<lparr>io_move := (case d of Go_right \<Rightarrow> MOVE_RIGHT
     | Go_left \<Rightarrow> MOVE_LEFT | Go_down \<Rightarrow> MOVE_DOWN | Go_up \<Rightarrow> MOVE_UP | Go_stop \<Rightarrow> MOVE_STOP)\<rparr>)"
  "option_move_reverse (direction_word d) c = option_move (direction_word (opposite d)) c"
proof -
  let ?ws = "[''right'', ''left'', ''down'', ''up'', ''stop'']"
  have w: "list_all (\<lambda>a. list_all (\<lambda>b. str_ieq a b = (a = b)) ?ws) ?ws" by code_simp
  have m: "option_move wd c = Some (c\<lparr>io_move := v\<rparr>)"
    "option_move_reverse wd c = Some (c\<lparr>io_move := v'\<rparr>)"
    if "(wd, v, v') \<in> {(''right'', MOVE_RIGHT, MOVE_LEFT), (''left'', MOVE_LEFT, MOVE_RIGHT),
      (''down'', MOVE_DOWN, MOVE_UP), (''up'', MOVE_UP, MOVE_DOWN), (''stop'', MOVE_STOP, MOVE_STOP)}"
    for wd v v'
    using that w by (auto simp: option_move_def option_move_reverse_def)
  show "option_move (direction_word d) c = Some (c\<lparr>io_move := (case d of Go_right \<Rightarrow> MOVE_RIGHT
     | Go_left \<Rightarrow> MOVE_LEFT | Go_down \<Rightarrow> MOVE_DOWN | Go_up \<Rightarrow> MOVE_UP | Go_stop \<Rightarrow> MOVE_STOP)\<rparr>)"
    by (cases d) (simp_all add: m)
  show "option_move_reverse (direction_word d) c = option_move (direction_word (opposite d)) c"
    by (cases d) (simp_all add: m)
qed

text \<open>
   A movement command turns the camera the way it is mounted: \<open>-m\<close> with a direction sends the
  one message of that direction, or of the opposite one on the V2 family, and on the alternative
  V2 family only left and right are swapped; \<open>-M\<close> is \<open>-m\<close> with the opposite direction on every
  model.
\<close>

theorem move_commands_send:
  assumes "str_ieq (direction_word d) arg" "cv_queue_ok e"
  shows "ipc_cmd_main 3 [(CHR ''m'', arg)] e =
      ([Send (direction_message
          (if ptz_family (cv_ptz e) = 3 \<or> ptz_family (cv_ptz e) = 4 \<and> horizontal d
           then opposite d else d))], 0) \<and>
    ipc_cmd_main 3 [(CHR ''M'', arg)] e =
      ipc_cmd_main 3 [(CHR ''m'', direction_word (opposite d))] e"
proof -
  have sent: "send_move e (no_options\<lparr>io_move := (case d of Go_right \<Rightarrow> MOVE_RIGHT
     | Go_left \<Rightarrow> MOVE_LEFT | Go_down \<Rightarrow> MOVE_DOWN | Go_up \<Rightarrow> MOVE_UP | Go_stop \<Rightarrow> MOVE_STOP)\<rparr>) =
     [Send (direction_message
          (if ptz_family (cv_ptz e) = 3 \<or> ptz_family (cv_ptz e) = 4 \<and> horizontal d
           then opposite d else d))]"
    by (cases d) (simp_all add: send_move_def move_for_model_def ptz_family_defs ipc_value_defs)
  have m: "map_of option_handlers CHR ''m'' = Some option_move"
    "map_of option_handlers CHR ''M'' = Some option_move_reverse"
    by (simp_all add: option_handlers_def)
  have "option_move arg no_options = option_move (direction_word d) no_options"
    "option_move_reverse arg no_options = option_move (direction_word (opposite d)) no_options"
    using word_handlers(18,19) assms(1) unfolding word_handler_def move_words(2) [symmetric] by metis+
  moreover have "dispatch e (no_options\<lparr>io_move := v\<rparr>) = (send_move e (no_options\<lparr>io_move := v\<rparr>), Some 0)" for v
    by (rule dispatch_move) (use no_options_idle in simp_all)
  ultimately show ?thesis
    using assms(2) m sent
    by (simp add: ipc_cmd_main_def move_words(1))
qed

definition r30gb_env :: cmd_env where
  "r30gb_env = \<lparr>cv_queue_ok = True, cv_worker_ok = True, cv_ptz = \<lparr>pz_suffix_ma = None,
      pz_suffix_a2 = Some ''r30gb'', pz_ssp_ok = False, pz_ioctl = None\<rparr>,
      cv_file = (\<lambda>_. None), cv_fread_ok = True,
      cv_fork1 = Fork_child, cv_setsid_ok = True, cv_fork2 = Fork_child\<rparr>"

lemma move_commands_send_witness:
  "fst (ipc_cmd_main 3 [(CHR ''m'', ''LEFT'')] r30gb_env) = [Send IPC_MOVE_RIGHT]"
proof -
  have "str_ieq (direction_word Go_left) ''LEFT''" by code_simp
  moreover have "cv_queue_ok r30gb_env" "ptz_family (cv_ptz r30gb_env) = 3"
    by (simp_all add: r30gb_env_def ptz_family_def get_model_suffix_def c_fgets_def is_ptz_def
        ptz_family_defs)
  ultimately show ?thesis using move_commands_send [of Go_left "''LEFT''" r30gb_env] by simp
qed

section \<open>Commands and alarms\<close>

definition quiet_message :: "byte list \<Rightarrow> bool" where
  "quiet_message m \<longleftrightarrow> message_type m = None"

definition quiet_actions :: "cmd_action list \<Rightarrow> bool" where
  "quiet_actions l \<longleftrightarrow> (\<forall>m. Send m \<in> set l \<longrightarrow> quiet_message m)"

lemma quiet_actions_simps [simp]:
  "quiet_actions []"
  "quiet_actions (Send m # l) \<longleftrightarrow> quiet_message m \<and> quiet_actions l"
  "quiet_actions (Sleep_ms n # l) \<longleftrightarrow> quiet_actions l"
  "quiet_actions (Print t # l) \<longleftrightarrow> quiet_actions l"
  "quiet_actions (Send_worker m # l) \<longleftrightarrow> quiet_actions l"
  "quiet_actions (Undefined # l) \<longleftrightarrow> quiet_actions l"
  "quiet_actions (Detach # l) \<longleftrightarrow> quiet_actions l"
  "quiet_actions (l @ l') \<longleftrightarrow> quiet_actions l \<and> quiet_actions l'"
  by (auto simp: quiet_actions_def)

lemma quiet_if [simp]: "quiet_actions (if b then l else l') \<longleftrightarrow> (if b then quiet_actions l else quiet_actions l')"
  by simp

lemma command_messages_quiet:
  "list_all quiet_message (tl (tl command_messages))"
  by code_simp

lemma quiet_commands [simp]:
  "m \<in> set (tl (tl command_messages)) \<Longrightarrow> quiet_message m"
  using command_messages_quiet by (simp add: list_all_iff)

lemma quiet_take: "quiet_message (take 16 m @ r) \<longleftrightarrow> quiet_message m" if "16 \<le> length m"
  using that by (simp add: quiet_message_def message_type_def)

lemma quiet_preset: "length msg = 20 \<Longrightarrow> quiet_message (preset_message msg n) \<longleftrightarrow> quiet_message msg"
  by (simp add: quiet_message_def message_type_def preset_message_def)

lemma quiet_settings: "quiet_actions (send_settings c)"
  by (simp add: send_settings_def send_switch_on_def send_sensitivity_def send_led_def send_save_def send_ir_def send_rotate_def
      send_low_venc_def send_setalertallowstate_human_def send_aihumandetection_def
      send_aivehicledetection_def send_aianimaldetection_def send_aimotiondetection_def
      send_facedetection_def send_motiontracking_def send_mic_def send_sounddetection_def
      send_babycrying_def send_soundsensitivity_def command_messages_def)

lemma quiet_move: "quiet_actions (send_move e c)"
  by (simp add: send_move_def Let_def command_messages_def)

lemma quiet_settings_move: "quiet_actions (send_settings c @ send_move e c)"
  by (simp add: quiet_settings quiet_move)

lemma preset_lengths:
  "length IPC_GOTO_PRESET = 20" "length IPC_REMOVE_PRESET = 20" "16 \<le> length IPC_JUMP_POSITION"
  by (simp_all add: ipc_command_defs)

lemma quiet_jump_message: "quiet_actions [jump_message x y]"
  by (simp add: jump_message_def quiet_take preset_lengths command_messages_def split: option.split)

lemma quiet_blocks:
  "quiet_actions (fst (jump_abs_block e c))" "quiet_actions (fst (jump_rel_block e c))"
  "quiet_actions (send_preset c @ send_add_preset c)"
  "quiet_actions (fst (get_pos_block e c))" "quiet_actions (fst (is_moving_block e c))"
  "quiet_actions (send_set_home c @ send_remove_preset c @ send_cruise c)"
  "quiet_actions (fst (save_config_block e c))" "quiet_actions (send_xxx c)"
  using quiet_jump_message
  by (simp_all add: jump_abs_block_def jump_rel_block_def send_preset_def send_add_preset_def
      get_pos_block_def is_moving_block_def send_set_home_def send_remove_preset_def send_cruise_def
      save_config_block_def send_xxx_def Let_def quiet_preset preset_lengths command_messages_def
      split: sum.split prod.split)

text \<open>The messages that are not quiet satisfy \<open>P\<close>.\<close>

definition loud_within :: "(byte list \<Rightarrow> bool) \<Rightarrow> cmd_action list \<Rightarrow> bool" where
  "loud_within P l \<longleftrightarrow> (\<forall>m. Send m \<in> set l \<longrightarrow> \<not> quiet_message m \<longrightarrow> P m)"

lemma quiet_loud_within: "quiet_actions l \<Longrightarrow> loud_within P l"
  by (simp add: quiet_actions_def loud_within_def)

lemma loud_within_and_then:
  "loud_within P (fst a) \<Longrightarrow> loud_within P (fst b) \<Longrightarrow> loud_within P (fst (and_then a b))"
  by (auto simp: and_then_def loud_within_def split: prod.splits option.splits)

definition event_message :: "cmd_options \<Rightarrow> byte list \<Rightarrow> bool" where
  "event_message c m \<longleftrightarrow> io_start c \<and> m = IPC_MOTION_START \<or>
     (io_start c \<or> io_stop c) \<and> m = IPC_MOTION_STOP"

lemma loud_blocks:
  "io_file c = [] \<Longrightarrow> loud_within P (fst (file_block e c))"
  "loud_within (event_message c) (fst (start_block e c))"
  "loud_within (event_message c) (send_stop c)"
  by (simp_all add: loud_within_def file_block_def start_block_def send_stop_def event_message_def
      split: fork_result.split)

lemma dispatch_loud: "io_file c = [] \<Longrightarrow> loud_within (event_message c) (fst (dispatch e c))"
  unfolding dispatch_def
  by (intro loud_within_and_then)
     (simp_all only: fst_conv loud_blocks quiet_loud_within quiet_settings quiet_move quiet_blocks
       quiet_settings_move simp_thms)

text \<open>What the parser records of the options it saw.\<close>

definition options_seen :: "string \<Rightarrow> cmd_options \<Rightarrow> bool" where
  "options_seen chs c \<longleftrightarrow> (io_file c \<noteq> [] \<longrightarrow> CHR ''f'' \<in> set chs) \<and>
     (io_start c \<longrightarrow> CHR ''S'' \<in> set chs) \<and> (io_stop c \<longrightarrow> CHR ''T'' \<in> set chs)"

definition same_events :: "cmd_options \<Rightarrow> cmd_options \<Rightarrow> bool" where
  "same_events c c' \<longleftrightarrow> io_file c' = io_file c \<and> io_start c' = io_start c \<and> io_stop c' = io_stop c"

definition event_free :: "(string \<Rightarrow> cmd_options \<Rightarrow> cmd_options option) \<Rightarrow> bool" where
  "event_free h \<longleftrightarrow> (\<forall>arg c c'. h arg c = Some c' \<longrightarrow> same_events c c')"

lemma event_freeI: "(\<And>arg c c'. h arg c = Some c' \<Longrightarrow> same_events c c') \<Longrightarrow> event_free h"
  by (simp add: event_free_def)

lemma event_free_words:
  "event_free option_switch_on" "event_free option_led" "event_free option_ir"
  "event_free option_rotate" "event_free option_low_venc" "event_free option_aihumandetection"
  "event_free option_aivehicledetection" "event_free option_aianimaldetection"
  "event_free option_aimotiondetection" "event_free option_facedetection"
  "event_free option_motiontracking" "event_free option_mic" "event_free option_sounddetection"
  by (rule event_freeI, auto simp: same_events_def option_switch_on_def option_led_def option_ir_def
      option_rotate_def option_low_venc_def option_aihumandetection_def
      option_aivehicledetection_def option_aianimaldetection_def
      option_aimotiondetection_def option_facedetection_def option_motiontracking_def option_mic_def
      option_sounddetection_def)+

lemma event_free_others:
  "event_free option_babycrying" "event_free option_sensitivity" "event_free option_save"
  "event_free option_soundsensitivity" "event_free option_move" "event_free option_move_reverse"
  "event_free option_cruise" "event_free option_jump_abs" "event_free option_jump_rel"
  "event_free option_preset" "event_free option_remove_preset"
  by (rule event_freeI, auto simp: same_events_def option_babycrying_def option_sensitivity_def
      option_save_def option_soundsensitivity_def option_move_def option_move_reverse_def
      option_cruise_def option_jump_abs_def option_jump_rel_def option_preset_def
      option_remove_preset_def Let_def split: if_splits option.splits prod.splits)+

lemma handler_events:
  assumes "map_of option_handlers ch = Some h" "ch \<noteq> CHR ''f''" "ch \<noteq> CHR ''S''"
  shows "event_free h"
  using map_of_SomeD [OF assms(1)] assms(2,3) event_free_words event_free_others
  by (auto simp: option_handlers_def)

lemma flag_events:
  "option_flag ch c = Some c' \<Longrightarrow> io_file c' = io_file c \<and> io_start c' = io_start c \<and>
     (io_stop c' \<longrightarrow> io_stop c \<or> ch = CHR ''T'')"
  by (auto simp: option_flag_def split: if_splits)

lemma parse_seen:
  "parse_command opts c = Inr c' \<Longrightarrow> options_seen (seen @ map fst opts) c' \<or> \<not> options_seen seen c"
proof (induction opts c arbitrary: seen rule: parse_command.induct)
  case (2 ch arg opts c)
  have step: ?case if "parse_command opts d = Inr c'" "options_seen seen c \<longrightarrow> options_seen (seen @ [ch]) d"
    "\<And>seen. options_seen (seen @ map fst opts) c' \<or> \<not> options_seen seen d" for d
    using that(2) that(3) [of "seen @ [ch]"] by auto
  show ?case
  proof (cases "map_of option_handlers ch")
    case None
    then obtain d where d: "option_flag ch c = Some d" "parse_command opts d = Inr c'"
      using "2.prems" by (auto split: option.splits)
    show ?thesis using step [OF d(2)] "2.IH"(1) [OF None d] flag_events [OF d(1)]
      by (auto simp: options_seen_def)
  next
    case (Some h)
    then obtain d where d: "h arg c = Some d" "parse_command opts d = Inr c'"
      using "2.prems" by (auto split: option.splits)
    have "options_seen seen c \<longrightarrow> options_seen (seen @ [ch]) d"
    proof (cases "ch = CHR ''f'' \<or> ch = CHR ''S''")
      case True
      then have "h = option_file \<and> ch = CHR ''f'' \<or> h = option_start \<and> ch = CHR ''S''"
        using Some by (auto simp: option_handlers_def)
      then show ?thesis using d(1)
        by (auto simp: options_seen_def option_file_def option_start_def Let_def
            split: if_splits prod.splits)
    next
      case False
      then show ?thesis using handler_events [OF Some] d(1)
        by (auto simp: options_seen_def event_free_def same_events_def)
    qed
    then show ?thesis using step [OF d(2)] "2.IH"(2) [OF Some d] by blast
  qed
qed (auto simp: options_seen_def)

text \<open>
   Only the event options raise alarms: unless \<open>-f\<close> sends a file, a message of the command that
  the alarm consumer reacts to is START, and then \<open>-S\<close> was given, or STOP, and then \<open>-S\<close> or \<open>-T\<close>
  was given; every other message the command can send, whatever the options, the model and the
  position, is one the consumer ignores.
\<close>

theorem only_event_options_raise_alarms:
  assumes "Send m \<in> set (fst (ipc_cmd_main argc opts e))" "CHR ''f'' \<notin> fst ` set opts"
  shows "case message_type m of
      None \<Rightarrow> True
    | Some t \<Rightarrow> t = IPC_MSG_MOTION_START \<and> CHR ''S'' \<in> fst ` set opts \<or>
        t = IPC_MSG_MOTION_STOP \<and> (CHR ''S'' \<in> fst ` set opts \<or> CHR ''T'' \<in> fst ` set opts)"
proof (cases "quiet_message m")
  case True
  then show ?thesis by (simp add: quiet_message_def)
next
  case False
  obtain c where c: "parse_command opts no_options = Inr c" "Send m \<in> set (fst (dispatch e c))"
    using assms(1) by (auto simp: ipc_cmd_main_def split: sum.splits if_splits prod.splits)
  have "options_seen [] no_options" by (simp add: options_seen_def no_options_def)
  with parse_seen [OF c(1), of "[]"] have "options_seen (map fst opts) c" by simp
  then have seen: "io_file c = []" "io_start c \<Longrightarrow> CHR ''S'' \<in> fst ` set opts"
    "io_stop c \<Longrightarrow> CHR ''T'' \<in> fst ` set opts"
    using assms(2) unfolding options_seen_def set_map by blast+
  have types: "message_type IPC_MOTION_START = Some IPC_MSG_MOTION_START"
    "message_type IPC_MOTION_STOP = Some IPC_MSG_MOTION_STOP" by code_simp+
  have "event_message c m"
    using dispatch_loud [OF seen(1), of e] c(2) False by (simp add: loud_within_def)
  then consider "io_start c" "m = IPC_MOTION_START" | "io_start c" "m = IPC_MOTION_STOP"
    | "io_stop c" "m = IPC_MOTION_STOP"
    by (auto simp: event_message_def)
  then show ?thesis using seen(2,3) types by cases simp_all
qed

lemma only_event_options_raise_alarms_witness: "message_type IPC_CRUISE_ON = None"
proof -
  have "(CHR ''C'', ''presets'', [Send IPC_CRUISE_ON, Sleep_ms 100, Send IPC_CRUISE_PRESETS]) \<in> set command_table"
    by (simp add: command_table_def)
  moreover have "str_ieq ''presets'' ''Presets''" by code_simp
  ultimately have "ipc_cmd_main 3 [(CHR ''C'', ''Presets'')] r30gb_env =
      ([Send IPC_CRUISE_ON, Sleep_ms 100, Send IPC_CRUISE_PRESETS], 0)"
    by (rule setting_row_sends) (simp add: r30gb_env_def)
  then have "Send IPC_CRUISE_ON \<in> set (fst (ipc_cmd_main 3 [(CHR ''C'', ''Presets'')] r30gb_env))"
    by simp
  from only_event_options_raise_alarms [OF this] show ?thesis by (simp split: option.splits)
qed
section \<open>Positions\<close>

lemma fp_within_Fin: "\<bar>r\<bar> \<le> of_int k \<Longrightarrow> fp_within k (Fin r)"
  by (simp add: fp_within_def)

lemma fp_within_mono: "fp_within k v \<Longrightarrow> k \<le> m \<Longrightarrow> fp_within m v"
proof (erule fp_withinE)
  fix r assume r: "k \<le> m" "v = Fin r" "\<bar>r\<bar> \<le> of_int k"
  then have "(of_int k :: rat) \<le> of_int m" by (simp only: of_int_le_iff)
  then show "fp_within m v" using r by (simp add: fp_within_def)
qed

lemma ptz_units_within:
  assumes "fp_within 540 v" "0 \<le> u" "u \<le> 12 * d" "0 < d"
  shows "fp_within 6480 (ptz_units v u (of_int d))"
proof -
  have "(of_int u :: rat) \<le> of_int (12 * d)" using assms(3) by (simp only: of_int_le_iff)
  then have "\<bar>of_int u / of_int d :: rat\<bar> \<le> of_int 12"
    using assms(2,4) by (simp add: divide_le_eq)
  then have "\<bar>rnd53 (of_int u / of_int d)\<bar> \<le> of_int 12" by (rule rnd53_abs_le) simp
  from fp_within_scale [OF assms(1) this] have "fp_within 6480 (fp_scale v (rnd53 (of_int u / of_int d)))"
    by simp
  then show ?thesis unfolding ptz_units_def by (rule fp_within_round)
qed

lemma jump_coordinate:
  assumes "fp_within 6480 fx" "\<bar>cur\<bar> \<le> 2 ^ 31" "694 \<le> d"
  shows "\<exists>n. fp_to_int (fp_round (fp_add (fp_over (fp_scale (fp_sub fx (Fin (of_int cur))) 100) (of_int d)) (Fin 50))) = Some n"
proof -
  have "\<bar>of_int cur :: rat\<bar> \<le> of_int (2 ^ 31)" using assms(2) by (simp only: of_int_abs [symmetric] of_int_le_iff)
  then have "fp_within (2 ^ 31) (Fin (of_int cur))" by (rule fp_within_Fin)
  from fp_within_sub [OF assms(1) this]
  have 1: "fp_within (6480 + 2 ^ 31) (fp_sub fx (Fin (of_int cur)))" by simp
  from fp_within_scale [OF 1, of 100 100]
  have 2: "fp_within ((6480 + 2 ^ 31) * 100) (fp_scale (fp_sub fx (Fin (of_int cur))) 100)" by simp
  have "(6480 + 2 ^ 31) * 100 \<le> 309438200 * d" using assms(3) by simp
  from fp_within_over [OF 2 _ this] assms(3)
  have 3: "fp_within 309438200 (fp_over (fp_scale (fp_sub fx (Fin (of_int cur))) 100) (of_int d))" by simp
  have "fp_within 50 (Fin 50)" by (simp add: fp_within_def)
  from fp_within_add [OF 3 this]
  have "fp_within 309438250 (fp_add (fp_over (fp_scale (fp_sub fx (Fin (of_int cur))) 100) (of_int d)) (Fin 50))"
    by simp
  from fp_to_int_within [OF fp_within_round [OF this]] show ?thesis by auto
qed

lemma sint_u32_bound: "\<bar>sint (w :: u32)\<bar> \<le> 2 ^ 31"
  using sint_greater_eq [of w] sint_less [of w] by simp

lemma le32_at_bound: "\<bar>le32_at bs i\<bar> \<le> 2 ^ 31"
  unfolding le32_at_def by (rule sint_u32_bound)

lemma accepted_position:
  assumes "option_jump_abs arg c = Some c'"
  shows "io_jump_abs c' = 1 \<and> (io_x c' = NaN \<or> fp_within 360 (io_x c')) \<and>
    (io_y c' = NaN \<or> fp_within 180 (io_y c'))"
proof -
  obtain x y where xy: "\<not> fp_lt x (Fin 0)" "\<not> fp_lt (Fin 360) x" "\<not> fp_lt y (Fin 0)" "\<not> fp_lt (Fin 180) y"
    "c' = c\<lparr>io_jump_abs := 1, io_x := x, io_y := y\<rparr>"
    using assms by (auto simp: option_jump_abs_def split: option.splits if_splits)
  then show ?thesis by (cases x; cases y) (auto simp: fp_within_def)
qed

lemma nan_jump: "jump_message NaN v = Undefined" "jump_message v NaN = Undefined"
  by (simp_all add: jump_message_def split: option.split)

lemma nan_arith: "fp_add NaN v = NaN" "fp_sub NaN v = NaN" "fp_sub v NaN = NaN"
  by (cases v; simp add: fp_sub_def)+

text \<open>
  A position that \<open>-j\<close> accepts either is numeric, and then for every answer of the driver and
  every model the command computes its two coordinates within the range of \<open>int\<close> and sends one
  24-byte jump message; or one coordinate is a NaN (\<open>nan\<close> passes the range checks), and
  then the conversion to \<open>int\<close> has no defined result.
\<close>

theorem jump_abs_is_defined:
  assumes "option_jump_abs arg c = Some c'" "read_ptz (cv_ptz e) = Inr (cx, cy, ci)"
  shows "if io_x c' = NaN \<or> io_y c' = NaN then jump_abs_block e c' = ([Undefined], None)
    else \<exists>m. jump_abs_block e c' = ([Send m], None) \<and> length m = 24 \<and>
      take 16 m = take 16 IPC_JUMP_POSITION"
proof -
  note acc = accepted_position [OF assms(1)]
  have cur: "\<bar>cx\<bar> \<le> 2 ^ 31" "\<bar>cy\<bar> \<le> 2 ^ 31"
    using assms(2) le32_at_bound by (auto simp: read_ptz_def split: if_splits option.splits)
  define y where "y = (if ptz_family (cv_ptz e) = ALLWINNER_V2_ALT then fp_sub (Fin 180) (io_y c') else io_y c')"
  define fx where "fx = ptz_units (io_x c') MAX_PTZ_X 360"
  define fy where "fy = ptz_units y MAX_PTZ_Y 180"
  let ?gx = "fp_add (fp_over (fp_scale (fp_sub fx (Fin (of_int cx))) 100) 911) (Fin 50)"
  let ?gy = "fp_add (fp_over (fp_scale (fp_sub fy (Fin (of_int cy))) 100) 694) (Fin 50)"
  have block: "jump_abs_block e c' = ([jump_message ?gx ?gy], None)"
    using acc assms(2) by (simp add: jump_abs_block_def NONE_def Let_def y_def fx_def fy_def)
  show ?thesis
  proof (cases "io_x c' = NaN \<or> io_y c' = NaN")
    case True
    then have "fx = NaN \<or> fy = NaN" by (auto simp: fx_def fy_def y_def ptz_units_def nan_arith)
    then have "?gx = NaN \<or> ?gy = NaN" by (auto simp: nan_arith)
    then show ?thesis using True block nan_jump by (auto simp del: fp_add.simps)
  next
    case False
    then have w: "fp_within 360 (io_x c')" "fp_within 180 (io_y c')" using acc by auto
    have "fp_within 180 (Fin 180)" by (simp add: fp_within_def)
    from fp_within_sub [OF this w(2)] have "fp_within 360 (fp_sub (Fin 180) (io_y c'))" by simp
    then have "fp_within 540 y" using w(2) by (auto simp: y_def intro: fp_within_mono)
    then have "fp_within 6480 fx" "fp_within 6480 fy"
      using ptz_units_within [OF fp_within_mono [OF w(1)], of MAX_PTZ_X 360]
        ptz_units_within [of y MAX_PTZ_Y 180]
      by (simp_all add: fx_def fy_def MAX_PTZ_X_def MAX_PTZ_Y_def)
    from jump_coordinate [OF this(1) cur(1), of 911] jump_coordinate [OF this(2) cur(2), of 694]
    obtain n m where "fp_to_int (fp_round ?gx) = Some n" "fp_to_int (fp_round ?gy) = Some m" by auto
    then show ?thesis using False block preset_lengths(3)
      by (simp add: jump_message_def store_le32_def)
  qed
qed

definition moving_env :: cmd_env where
  "moving_env = r30gb_env\<lparr>cv_ptz := \<lparr>pz_suffix_ma = None, pz_suffix_a2 = Some ''h30ga'',
     pz_ssp_ok = True, pz_ioctl = Some (replicate 32 0)\<rparr>\<rparr>"

lemma scan_10_20:
  "scan_position ''nan,20'' = Some (NaN, Fin 20)" "scan_position ''10,20'' = Some (Fin 10, Fin 20)"
  using dbl_of_int [of 20] dbl_of_int [of 10]
  by (simp_all add: scan_position_def scan_lf_def scan_sign_def skip_space_def scan_lit_def cstr_simps
      scan_decimal_def split_point_def scan_exponent_def signed_dbl_def pow10_def Let_def digit_val_def)

lemma jump_abs_is_defined_witness:
  "jump_abs_block moving_env (no_options\<lparr>io_jump_abs := 1, io_x := NaN, io_y := Fin 20\<rparr>) = ([Undefined], None) \<and>
   (\<exists>m. jump_abs_block moving_env (no_options\<lparr>io_jump_abs := 1, io_x := Fin 10, io_y := Fin 20\<rparr>) = ([Send m], None))"
proof -
  have "option_jump_abs ''nan,20'' no_options = Some (no_options\<lparr>io_jump_abs := 1, io_x := NaN, io_y := Fin 20\<rparr>)"
    "option_jump_abs ''10,20'' no_options = Some (no_options\<lparr>io_jump_abs := 1, io_x := Fin 10, io_y := Fin 20\<rparr>)"
    using scan_10_20 by (simp_all add: option_jump_abs_def)
  moreover have "read_ptz (cv_ptz moving_env) = Inr (0, 0, 0)"
    by (simp add: moving_env_def read_ptz_def le32_at_def)
  ultimately show ?thesis
    using jump_abs_is_defined [of "''nan,20''" no_options _ moving_env 0 0 0]
      jump_abs_is_defined [of "''10,20''" no_options _ moving_env 0 0 0] by fastforce
qed

end
