(* ===== verification/Motiond_Input.thy ===== *)
theory Motiond_Input
  imports Motion_Tuning Text_Lines
begin

text \<open>
  The inputs of \<open>src/motiond/motiond/motiond.c\<close>: the memory reserve and the kernel check that
  decide whether the video engine's statistics may be opened, the statistics themselves, the state
  file, and the numbers of the command line.  Files are given by their text and whether reading
  them ended in an error; the clock is an argument.
\<close>

section \<open>The memory reserve\<close>

definition ve_min_order3_units :: int where "ve_min_order3_units = 4"

definition skip_lit :: "string \<Rightarrow> string option \<Rightarrow> string option" where
  "skip_lit lt r = Option.bind r (scan_lit lt)"

text \<open>\<open>"Node %*u, zone %31s %n"\<close>: the zone and the text from the offset on.\<close>

definition scan_zone :: "string \<Rightarrow> (string \<times> string) option" where
  "scan_zone line =
     (let a = Option.bind (skip_lit ''Node'' (Some line)) scan_skip_u;
          b = map_option skip_space (skip_lit '','' a);
          c = map_option skip_space (skip_lit ''zone'' b)
      in map_option (\<lambda>(w, r). (w, skip_space r)) (Option.bind c (scan_word 31)))"

definition ulong_max :: int where "ulong_max = 2 ^ 32 - 1"

lemma dropWhile_shorter: "q \<noteq> [] \<Longrightarrow> P (hd q) \<Longrightarrow> length (dropWhile P q) < length q"
  by (cases q) (auto simp: length_dropWhile_le le_imp_less_Suc)

text \<open>The counts of a line: whether it is invalid, the number of orders and the reserve units.\<close>

function buddy_loop :: "string \<Rightarrow> int \<Rightarrow> int \<Rightarrow> nat \<Rightarrow> bool \<times> nat \<times> int" where
  "buddy_loop p units weight order =
     (let q = skip_space p
      in if q = [] then (False, order, units)
         else if \<not> c_isdigit (hd q) then (True, order, units)
         else
           let ds = takeWhile c_isdigit q; e = dropWhile c_isdigit q; count = int (dec_acc 0 ds)
           in if ulong_max < count \<or> (e \<noteq> [] \<and> \<not> c_isspace (hd e)) then (True, order, units)
              else if 3 \<le> order then
                let capped = (if ve_min_order3_units \<le> count then ve_min_order3_units else count);
                    u = units + capped * weight
                in buddy_loop e (if ve_min_order3_units < u then ve_min_order3_units else u)
                     (if weight < ve_min_order3_units then weight * 2 else weight) (order + 1)
              else buddy_loop e units weight (order + 1))"
  by pat_completeness auto

termination
proof (relation "measure (\<lambda>(p, u, w, k). length p)", goal_cases)
  case 1
  show ?case by simp
next
  case (2 p units weight order q ds e count)
  then show ?case
    using dropWhile_shorter [of q c_isdigit] length_dropWhile_le [of c_isspace p]
    by (simp add: skip_space_def)
next
  case (3 p units weight order q ds e count)
  then show ?case
    using dropWhile_shorter [of q c_isdigit] length_dropWhile_le [of c_isspace p]
    by (simp add: skip_space_def)
qed

declare buddy_loop.simps [simp del]

text \<open>The lines: \<open>None\<close> when one is invalid, else whether a Normal zone has the reserve.\<close>

fun buddy_lines :: "string list \<Rightarrow> bool \<Rightarrow> bool option" where
  "buddy_lines [] reserve = Some reserve"
| "buddy_lines (line # ls) reserve =
     (if newline \<notin> set line then None
      else case scan_zone line of
        None \<Rightarrow> None
      | Some (zone, counts) \<Rightarrow>
          if zone \<noteq> ''Normal'' then buddy_lines ls reserve
          else let (invalid, order, units) = buddy_loop counts 0 1 0
               in if invalid \<or> order < 4 then None
                  else buddy_lines ls (reserve \<or> ve_min_order3_units \<le> units))"

definition ve_order3_reserve_ok :: "text_file option \<Rightarrow> bool" where
  "ve_order3_reserve_ok f =
     (case f of
        None \<Rightarrow> False
      | Some t \<Rightarrow> \<not> tf_error t \<and> buddy_lines (fgets_all 510 (tf_text t)) False = Some True)"

section \<open>The kernel check\<close>

definition ve_symbols :: "(string \<times> int) list" where
  "ve_symbols = [(''ve_debugfs_release'', 0xc018c40e), (''ve_debugfs_open'', 0xc018c41e),
     (''vfree'', 0xc0072f1c), (''vmalloc'', 0xc0073198)]"

text \<open>\<open>"%lx %c %127s"\<close>\<close>

definition scan_symbol :: "string \<Rightarrow> (int \<times> string) option" where
  "scan_symbol line =
     (case scan_lx line of
        None \<Rightarrow> None
      | Some (address, r) \<Rightarrow>
          (case skip_space r of
             [] \<Rightarrow> None
           | t # r' \<Rightarrow> map_option (\<lambda>(nm, _). (address, nm)) (scan_word 127 r')))"

text \<open>The state: the symbols seen so far, in any order, and whether all were as expected.\<close>

definition symbol_step :: "string \<Rightarrow> string set \<times> bool \<Rightarrow> string set \<times> bool" where
  "symbol_step line sv =
     (case scan_symbol line of
        None \<Rightarrow> sv
      | Some (address, nm) \<Rightarrow>
          case map_of ve_symbols nm of
            None \<Rightarrow> sv
          | Some expected \<Rightarrow>
              (insert nm (fst sv), snd sv \<and> address = expected \<and> nm \<notin> fst sv))"

definition kallsyms_ok :: "text_file option \<Rightarrow> bool" where
  "kallsyms_ok f =
     (case f of
        None \<Rightarrow> False
      | Some t \<Rightarrow>
          (case fold symbol_step (fgets_all 254 (tf_text t)) ({}, True) of
             (seen, valid) \<Rightarrow> valid \<and> \<not> tf_error t \<and> seen = set (map fst ve_symbols)))"

text \<open>\<open>" %lx-%lx : %127[^\n]"\<close>\<close>

definition scan_region :: "string \<Rightarrow> (int \<times> int \<times> string) option" where
  "scan_region line =
     (case scan_lx (skip_space line) of
        None \<Rightarrow> None
      | Some (start, r) \<Rightarrow>
          (case Option.bind (scan_lit ''-'' r) scan_lx of
             None \<Rightarrow> None
           | Some (last_address, r') \<Rightarrow>
               (case map_option skip_space (scan_lit '':'' (skip_space r')) of
                  None \<Rightarrow> None
                | Some s \<Rightarrow>
                    let nm = take 127 (takeWhile (\<lambda>c. c \<noteq> newline) s)
                    in if nm = [] then None else Some (start, last_address, nm))))"

definition iomem_ok :: "text_file option \<Rightarrow> bool" where
  "iomem_ok f =
     (case f of
        None \<Rightarrow> False
      | Some t \<Rightarrow>
          let regions = map scan_region (fgets_all 254 (tf_text t))
          in \<not> tf_error t \<and>
             Some (0x40000000, 0x43ffffff, ''System RAM'') \<in> set regions \<and>
             Some (0x40008000, 0x40357fff, ''Kernel code'') \<in> set regions)"

text \<open>\<open>mem\<close>: what \<open>pread\<close> of four bytes returns at an address of physical memory.\<close>

definition ve_vmalloc_verified ::
  "text_file option \<Rightarrow> text_file option \<Rightarrow> (int \<Rightarrow> byte list) option \<Rightarrow> bool" where
  "ve_vmalloc_verified kallsyms iomem mem =
     (if \<not> kallsyms_ok kallsyms then False
      else if \<not> iomem_ok iomem then False
      else case mem of
        None \<Rightarrow> False
      | Some pread \<Rightarrow>
          pread 0x4018c42c = [0xe6, 0xf6, 0xb4, 0xfe] \<and> pread 0x4018c414 = [0xe6, 0xf6, 0x82, 0xfd])"

section \<open>Statistics\<close>

definition ve_pressure_retry_ms :: int where "ve_pressure_retry_ms = 500"
definition ve_open_retry_ms :: int where "ve_open_retry_ms = 1000"

text \<open>\<open>strstr\<close>: the text from the first occurrence on.\<close>

fun find_sub :: "string \<Rightarrow> string \<Rightarrow> string option" where
  "find_sub pat [] = (if pat = [] then Some [] else None)"
| "find_sub pat (c # cs) = (if has_prefix pat (c # cs) then Some (c # cs) else find_sub pat cs)"

definition or_else :: "'a option \<Rightarrow> 'a option \<Rightarrow> 'a option" where
  "or_else a b = (case a of Some x \<Rightarrow> Some x | None \<Rightarrow> b)"

text \<open>
  \<open>"Scene:%d, Move:%d, MovingLevel:%d, BinImgRatio:%lf%%, MovingTh:%d"\<close>
\<close>

definition scan_stats :: "string \<Rightarrow> motion_stats option" where
  "scan_stats line =
     (case Option.bind (skip_lit ''Scene:'' (Some line)) scan_d of
        None \<Rightarrow> None
      | Some (scene, r1) \<Rightarrow>
     (case Option.bind (skip_lit ''Move:'' (map_option skip_space (skip_lit '','' (Some r1)))) scan_d of
        None \<Rightarrow> None
      | Some (move, r2) \<Rightarrow>
     (case Option.bind (skip_lit ''MovingLevel:'' (map_option skip_space (skip_lit '','' (Some r2)))) scan_d of
        None \<Rightarrow> None
      | Some (level, r3) \<Rightarrow>
     (case Option.bind (skip_lit ''BinImgRatio:'' (map_option skip_space (skip_lit '','' (Some r3)))) scan_lf of
        None \<Rightarrow> None
      | Some (ratio, r4) \<Rightarrow>
     (case Option.bind (skip_lit ''MovingTh:'' (map_option skip_space (skip_lit '','' (skip_lit ''%''
             (Some (skip_space r4)))))) scan_d of
        None \<Rightarrow> None
      | Some (th, _) \<Rightarrow>
          Some \<lparr>s_scene = scene, s_move = move, s_moving_level = level, s_bin_ratio = ratio,
                s_moving_th = th\<rparr>)))))"

text \<open>The channel's section of the report, and the line in it: the error code or the numbers.\<close>

definition parse_report :: "string \<Rightarrow> int + motion_stats" where
  "parse_report buf =
     (case or_else (find_sub ''Channal[0]'' buf) (find_sub ''Channel[0]'' buf) of
        None \<Rightarrow> Inl (-2)
      | Some p \<Rightarrow>
          let rest = (case or_else (find_sub ''End Channal[0]'' p) (find_sub ''End Channel[0]'' p) of
                        Some s \<Rightarrow> length s | None \<Rightarrow> 0)
          in case find_sub ''Scene:'' p of
               None \<Rightarrow> Inl (-3)
             | Some line \<Rightarrow>
                 if length line \<le> rest then Inl (-3)
                 else case scan_stats line of None \<Rightarrow> Inl (-4) | Some x \<Rightarrow> Inr x)"

text \<open>
  What \<open>read_stats\<close> meets: the clock at its start and at its end, the reserve, whether the node
  opens, and the bytes \<open>read\<close> returns (\<open>None\<close>: an error).
\<close>

record stats_env =
  se_now :: int
  se_reserve_ok :: bool
  se_open_ok :: bool
  se_read :: "string option"
  se_later :: int

text \<open>\<open>retry\<close> is \<open>ve_retry_after_ms\<close>; the result code comes with the statistics it left.\<close>

definition read_stats :: "bool \<Rightarrow> int \<Rightarrow> stats_env \<Rightarrow> int \<times> int \<times> motion_stats option" where
  "read_stats uses_vmalloc retry e =
     (if se_now e < retry then (retry, -5, None)
      else if \<not> uses_vmalloc \<and> \<not> se_reserve_ok e then (se_now e + ve_pressure_retry_ms, -5, None)
      else if \<not> se_open_ok e then (se_later e + ve_open_retry_ms, -1, None)
      else case se_read e of
        None \<Rightarrow> (se_later e + ve_open_retry_ms, -1, None)
      | Some bytes \<Rightarrow>
          if bytes = [] then (se_later e + ve_open_retry_ms, -1, None)
          else case parse_report (takeWhile (\<lambda>c. c \<noteq> CHR 0x00) bytes) of
            Inl rc \<Rightarrow> (se_later e + ve_open_retry_ms, rc, None)
          | Inr x \<Rightarrow> (0, 0, Some x))"

text \<open>Whether the call opens the video engine's node.\<close>

definition stats_opens :: "bool \<Rightarrow> int \<Rightarrow> stats_env \<Rightarrow> bool" where
  "stats_opens uses_vmalloc retry e \<longleftrightarrow>
     retry \<le> se_now e \<and> (uses_vmalloc \<or> se_reserve_ok e)"

section \<open>The state file\<close>

text \<open>
  Writing a new file and renaming it: the answers of \<open>open\<close>, \<open>write\<close> (its count), \<open>close\<close> and
  \<open>rename\<close>.  The files are the state file and its temporary.
\<close>

record write_env =
  we_open :: bool
  we_write :: "errno + nat"
  we_close :: "errno option"
  we_rename :: "errno option"

record state_files =
  sf_state :: "string option"
  sf_tmp :: "string option"

definition write_state :: "bool \<Rightarrow> write_env \<Rightarrow> state_files \<Rightarrow> int \<times> state_files" where
  "write_state active e f =
     (if \<not> we_open e then (-1, f)
      else
        let v = (if active then CHR ''1'' else CHR ''0'') # [newline];
            wrote = (case we_write e of Inl _ \<Rightarrow> [] | Inr n \<Rightarrow> take n v);
            saved = (case we_write e of Inl err \<Rightarrow> Some err | Inr n \<Rightarrow> if n = 2 then None else Some EIO);
            saved1 = (if saved = None then we_close e else saved);
            saved2 = (if saved1 = None then we_rename e else saved1)
        in if saved2 = None then (0, f\<lparr>sf_state := Some wrote, sf_tmp := None\<rparr>)
           else (-1, f\<lparr>sf_tmp := None\<rparr>))"

section \<open>Numbers of the command line\<close>

definition parse_int_arg :: "string \<Rightarrow> int option" where
  "parse_int_arg text =
     (if text = [] \<or> 5 < length text then None
      else if \<not> list_all c_isdigit text then None
      else Some (fst (strtol10 text)))"

text \<open>The digits before and after the point: \<open>None\<close> for any other character or a second point.\<close>

fun ratio_shape :: "string \<Rightarrow> bool \<Rightarrow> nat \<Rightarrow> nat \<Rightarrow> (bool \<times> nat \<times> nat) option" where
  "ratio_shape [] dot whole fraction = Some (dot, whole, fraction)"
| "ratio_shape (c # cs) dot whole fraction =
     (if c = CHR ''.'' \<and> \<not> dot then ratio_shape cs True whole fraction
      else if \<not> c_isdigit c then None
      else if dot then ratio_shape cs dot whole (fraction + 1)
      else ratio_shape cs dot (whole + 1) fraction)"

text \<open>On digits with one point \<open>strtod\<close> reads the whole text, as \<open>%lf\<close> does.\<close>

definition parse_ratio_arg :: "string \<Rightarrow> c_double option" where
  "parse_ratio_arg text =
     (case ratio_shape text False 0 0 of
        None \<Rightarrow> None
      | Some (dot, whole, fraction) \<Rightarrow>
          if whole < 1 \<or> whole > 3 \<or> fraction > 2 \<or> (dot \<and> fraction = 0) then None
          else case scan_lf text of
            Some (v, _) \<Rightarrow> if is_finite v then Some v else None
          | None \<Rightarrow> None)"

section \<open>Back-off and atomicity\<close>

lemma read_stats_opened:
  "stats_opens v retry e \<Longrightarrow>
     read_stats v retry e \<in> {(se_later e + ve_open_retry_ms, rc, None) | rc. rc \<noteq> 0} \<union> {(0, 0, Some x) | x. True}"
proof -
  have "parse_report b = Inl rc \<Longrightarrow> rc \<noteq> 0" for b rc
    by (auto simp: parse_report_def Let_def split: option.splits if_splits)
  then show "stats_opens v retry e \<Longrightarrow> ?thesis"
    by (auto simp: read_stats_def stats_opens_def split: option.splits sum.splits)
qed

text \<open>
  Opening the video engine is what can exhaust the kernel's memory.  A call that opened it and
  did not return statistics keeps every call of the next second from opening it again: such a call
  reports "try again", with the retry time left as it is.  A call that returned statistics leaves
  no retry time.
\<close>

theorem failed_open_backs_off:
  assumes "stats_opens v retry e" "read_stats v retry e = (retry', rc, x)"
  shows "(rc = 0 \<longleftrightarrow> x \<noteq> None) \<and> (rc = 0 \<longrightarrow> retry' = 0) \<and>
    (rc \<noteq> 0 \<and> se_now e' < se_later e + 1000 \<longrightarrow>
       \<not> stats_opens v' retry' e' \<and> read_stats v' retry' e' = (retry', -5, None))"
  using read_stats_opened [OF assms(1)]
  by (auto simp: assms(2)) (auto simp: stats_opens_def read_stats_def ve_open_retry_ms_def)

definition garbled_report :: stats_env where
  "garbled_report = \<lparr>se_now = 5000, se_reserve_ok = True, se_open_ok = True,
     se_read = Some ''Channal[0] Scene:1, Move:x'', se_later = 5010\<rparr>"

lemma failed_open_backs_off_witness:
  "read_stats False 6010 (garbled_report\<lparr>se_now := 6009\<rparr>) = (6010, -5, None)"
proof -
  have "stats_opens False 0 garbled_report" by code_simp
  moreover have "read_stats False 0 garbled_report = (6010, -4, None)" by code_simp
  ultimately show ?thesis
    using failed_open_backs_off [of False 0 garbled_report 6010 "-4" None "garbled_report\<lparr>se_now := 6009\<rparr>" False]
    by (simp add: garbled_report_def)
qed

text \<open>
  The state file is replaced as a whole or not at all: after a write the state is the complete
  line for the new state, and the call reports success, exactly when the temporary file was opened,
  two bytes were written, and closing and renaming succeeded; otherwise the state file is what it
  was and the call reports failure.  No temporary file is left by a call that could open it.
\<close>

theorem state_file_is_replaced_whole:
  "(let ok = (we_open e \<and> we_write e = Inr 2 \<and> we_close e = None \<and> we_rename e = None);
        line = (if active then [CHR ''1'', newline] else [CHR ''0'', newline])
    in fst (write_state active e f) = (if ok then 0 else -1) \<and>
       sf_state (snd (write_state active e f)) = (if ok then Some line else sf_state f) \<and>
       (we_open e \<longrightarrow> sf_tmp (snd (write_state active e f)) = None))"
  by (cases "we_write e"; cases "we_close e"; cases "we_rename e") (simp_all add: write_state_def Let_def)

lemma state_file_is_replaced_whole_witness:
  "sf_state (snd (write_state True \<lparr>we_open = True, we_write = Inr 1, we_close = None, we_rename = None\<rparr>
     \<lparr>sf_state = Some ''0'', sf_tmp = None\<rparr>)) = Some ''0''"
  using state_file_is_replaced_whole [of
    "\<lparr>we_open = True, we_write = Inr 1, we_close = None, we_rename = None\<rparr>" True
    "\<lparr>sf_state = Some ''0'', sf_tmp = None\<rparr>"]
  by (simp add: Let_def)

end
