(* ===== verification/Reserve.thy ===== *)
theory Reserve
  imports Motiond_Input
begin

text \<open>
  The memory reserve, against the kernel's report: what the reader of
  \<open>src/motiond/motiond/motiond.c\<close> makes of a \<open>/proc/buddyinfo\<close> written the way the kernel
  writes it, with its saturating 32-bit arithmetic replaced by exact sums.
\<close>

section \<open>The reserve that a report shows\<close>

text \<open>
  The kernel's line: the zone's name, then for each order the number of free blocks.
\<close>

definition pad_left :: "nat \<Rightarrow> string \<Rightarrow> string" where
  "pad_left n s = replicate (n - length s) CHR '' '' @ s"

definition render_counts :: "nat list \<Rightarrow> string" where
  "render_counts cs = concat (map (\<lambda>c. pad_left 6 (show_nat c) @ '' '') cs) @ [newline]"

definition render_zone :: "nat \<Rightarrow> string \<Rightarrow> nat list \<Rightarrow> string" where
  "render_zone node zone cs =
     ''Node '' @ show_nat node @ '', zone '' @ pad_left 8 zone @ '' '' @ render_counts cs"

text \<open>Free memory in blocks of order 3, from order 3 on.\<close>

fun order3_units :: "nat \<Rightarrow> nat list \<Rightarrow> int" where
  "order3_units k [] = 0"
| "order3_units k (c # cs) = (if 3 \<le> k then int c * 2 ^ (k - 3) else 0) + order3_units (k + 1) cs"

lemma order3_units_nonneg: "0 \<le> order3_units k cs"
  by (induction k cs rule: order3_units.induct) auto

lemma skip_space_pad: "skip_space (pad_left n s @ b) = skip_space (s @ b)"
  unfolding pad_left_def append_assoc by (rule skip_space_append) simp

lemma digit_not_space: "c_isdigit c \<Longrightarrow> \<not> c_isspace c"
  using digit_not_sign by blast

lemma skip_space_show_nat [simp]: "skip_space (show_nat c @ b) = show_nat c @ b"
proof -
  obtain d ds where "show_nat c = d # ds" by (cases "show_nat c") auto
  moreover then have "c_isdigit d" using show_nat_digits [of c] by simp
  ultimately show ?thesis by (simp add: skip_space_def digit_not_space)
qed

lemma show_nat_span:
  assumes "b = [] \<or> \<not> c_isdigit (hd b)"
  shows "takeWhile c_isdigit (show_nat c @ b) = show_nat c" "dropWhile c_isdigit (show_nat c @ b) = b"
proof -
  have b: "takeWhile c_isdigit b = []" "dropWhile c_isdigit b = b" using assms by (cases b; simp)+
  show "takeWhile c_isdigit (show_nat c @ b) = show_nat c" "dropWhile c_isdigit (show_nat c @ b) = b"
    using show_nat_digits [of c] b by (simp_all add: takeWhile_append2 dropWhile_append2)
qed

lemma space_not_digit: "c_isspace c \<Longrightarrow> \<not> c_isdigit c"
  by (auto simp: cstr_simps)

definition order3_weight :: "nat \<Rightarrow> int" where
  "order3_weight k = (if k \<le> 3 then 1 else min 4 (2 ^ (k - 3)))"

lemma order3_weight_step:
  "3 \<le> k \<Longrightarrow> order3_weight (k + 1) = (if order3_weight k < 4 then order3_weight k * 2 else order3_weight k)"
proof -
  assume k: "3 \<le> k"
  then consider "k = 3" | "k = 4" | "5 \<le> k" by linarith
  then show ?thesis
  proof cases
    case 3
    then have "(2::int) ^ 2 \<le> 2 ^ (k - 3)" "(2::int) ^ 2 \<le> 2 ^ (k + 1 - 3)"
      by (intro power_increasing; simp)+
    then have "order3_weight k = 4" "order3_weight (k + 1) = 4" using 3 by (simp_all add: order3_weight_def)
    then show ?thesis by simp
  qed (simp_all add: order3_weight_def)
qed

lemma saturate:
  assumes "0 \<le> u" "0 \<le> (c :: int)" "3 \<le> k"
  shows "min 4 (min 4 u + min 4 c * order3_weight k) = min 4 (u + c * 2 ^ (k - 3))"
proof -
  have p: "(1 :: int) \<le> 2 ^ (k - 3)" by simp
  have w: "order3_weight k = min 4 (2 ^ (k - 3))" using assms(3) by (simp add: order3_weight_def)
  show ?thesis
  proof (cases "c = 0")
    case False
    then have c: "1 \<le> c" using assms(2) by simp
    show ?thesis
    proof (cases "(2 :: int) ^ (k - 3) \<le> 4 \<and> c \<le> 4")
      case True
      then have "min 4 c * order3_weight k = c * 2 ^ (k - 3)" by (simp add: w)
      moreover have "0 \<le> c * 2 ^ (k - 3)" using c by simp
      ultimately show ?thesis using assms(1) by (simp add: min_def)
    next
      case False
      have "4 \<le> min 4 c * order3_weight k"
      proof (cases "4 \<le> c")
        case True
        have "4 * 1 \<le> min 4 c * order3_weight k" using True p unfolding w by (intro mult_mono) auto
        then show ?thesis by simp
      next
        case c4: False
        then have "4 < (2 :: int) ^ (k - 3)" using False by simp
        then show ?thesis using c by (simp add: w)
      qed
      moreover have "4 \<le> c * 2 ^ (k - 3)"
      proof (cases "4 \<le> c")
        case True
        have "4 * 1 \<le> c * 2 ^ (k - 3)" using True p by (intro mult_mono) auto
        then show ?thesis by simp
      next
        case c4: False
        then have "4 < (2 :: int) ^ (k - 3)" using False by simp
        moreover have "1 * 2 ^ (k - 3) \<le> c * 2 ^ (k - 3)" using c by (intro mult_right_mono) auto
        ultimately show ?thesis by linarith
      qed
      ultimately show ?thesis using assms(1) by (simp add: min_def)
    qed
  qed (use assms in auto)
qed

lemma render_counts_Cons:
  "render_counts (c # cs) = pad_left 6 (show_nat c) @ '' '' @ render_counts cs"
  by (simp add: render_counts_def)

lemma buddy_loop_counts:
  assumes "\<forall>c\<in>set cs. int c \<le> ulong_max" "0 \<le> u" "pre \<in> {[], '' ''}"
  shows "buddy_loop (pre @ render_counts cs) (min 4 u) (order3_weight k) k =
    (False, k + length cs, min 4 (u + order3_units k cs))"
  using assms
proof (induction cs arbitrary: pre u k)
  case Nil
  have "skip_space (pre @ render_counts []) = []"
    using Nil by (auto simp: render_counts_def skip_space_def)
  then show ?case by (subst buddy_loop.simps) simp
next
  case (Cons c cs)
  have q: "skip_space (pre @ render_counts (c # cs)) = show_nat c @ CHR '' '' # render_counts cs"
    using Cons.prems(3) by (auto simp: render_counts_Cons skip_space_append skip_space_pad)
      (metis append.left_neutral append_Cons skip_space_append skip_space_pad skip_space_show_nat newline_space(2)
        list.set_intros(1) set_ConsD singletonD empty_iff list.set(1))
  have nd: "\<not> c_isdigit CHR '' ''" using space_not_digit newline_space by blast
  have span: "takeWhile c_isdigit (show_nat c @ CHR '' '' # render_counts cs) = show_nat c"
    "dropWhile c_isdigit (show_nat c @ CHR '' '' # render_counts cs) = CHR '' '' # render_counts cs"
    using show_nat_span [of "CHR '' '' # render_counts cs" c] nd by auto
  have hd: "c_isdigit (hd (show_nat c @ r))" for r
    using show_nat_digits [of c] by (cases "show_nat c") auto
  have c: "int (dec_acc 0 (show_nat c)) = int c" by (simp add: dec_acc_show_nat)
  have cap: "(if ve_min_order3_units \<le> int c then ve_min_order3_units else int c) = min 4 (int c)"
    "(if ve_min_order3_units < x then ve_min_order3_units else x) = min 4 x" for x
    by (simp_all add: ve_min_order3_units_def)
  have le: "\<not> ulong_max < int c" using Cons.prems(1) by simp
  show ?case
  proof (cases "3 \<le> k")
    case True
    have u: "0 \<le> u + int c * 2 ^ (k - 3)" using Cons.prems(2) by simp
    have "buddy_loop (pre @ render_counts (c # cs)) (min 4 u) (order3_weight k) k =
        buddy_loop ('' '' @ render_counts cs) (min 4 (u + int c * 2 ^ (k - 3))) (order3_weight (k + 1)) (k + 1)"
      unfolding saturate [OF Cons.prems(2) of_nat_0_le_iff True, symmetric] order3_weight_step [OF True]
      by (subst buddy_loop.simps)
         (use True le hd in \<open>simp add: q span c cap Let_def ve_min_order3_units_def [symmetric]\<close>)
    then show ?thesis using Cons.IH [OF _ u, of "'' ''" "k + 1"] Cons.prems(1) True
      by (simp add: add.assoc)
  next
    case False
    have w: "order3_weight (k + 1) = order3_weight k" using False by (simp add: order3_weight_def)
    have "buddy_loop (pre @ render_counts (c # cs)) (min 4 u) (order3_weight k) k =
        buddy_loop ('' '' @ render_counts cs) (min 4 u) (order3_weight (k + 1)) (k + 1)"
      unfolding w
      by (subst buddy_loop.simps) (use False le hd in \<open>simp add: q span c Let_def\<close>)
    then show ?thesis using Cons.IH [OF _ Cons.prems(2), of "'' ''" "k + 1"] Cons.prems(1) False
      by simp
  qed
qed

definition word_ok :: "nat \<Rightarrow> string \<Rightarrow> bool" where
  "word_ok n w \<longleftrightarrow> w \<noteq> [] \<and> length w \<le> n \<and> (\<forall>c\<in>set w. \<not> c_isspace c)"

lemma scan_word_pad:
  assumes "word_ok n w"
  shows "scan_word n (pad_left k w @ CHR '' '' # r) = Some (w, CHR '' '' # r)"
proof -
  obtain d ds where w: "w = d # ds" "\<not> c_isspace d" using assms by (cases w) (auto simp: word_ok_def)
  have "takeWhile (\<lambda>c. \<not> c_isspace c) (w @ CHR '' '' # r) = w"
    using assms by (simp add: word_ok_def takeWhile_append2)
  moreover have "skip_space (w @ x) = w @ x" for x using w by (simp add: skip_space_def)
  moreover have "min (length w) n = length w" "0 < n" using assms w by (auto simp: word_ok_def)
  ultimately show ?thesis
    using assms by (simp add: scan_word_def skip_space_pad Let_def word_ok_def)
qed

lemma skip_space_idem [simp]: "skip_space (skip_space s) = skip_space s"
  by (simp add: skip_space_def dropWhile_idem)

lemma scan_word_skip: "scan_word n (skip_space s) = scan_word n s"
  by (simp add: scan_word_def)

lemma scan_skip_u_show:
  assumes "\<not> c_isdigit d"
  shows "scan_skip_u (CHR '' '' # show_nat n @ d # x) = Some (d # x)"
proof -
  obtain c cs where s: "show_nat n = c # cs" by (cases "show_nat n") auto
  then have c: "c_isdigit c" using show_nat_digits [of n] by simp
  have sk: "skip_space (CHR '' '' # show_nat n @ d # x) = show_nat n @ d # x"
    using skip_space_show_nat [of n "d # x"] skip_space_append [of "'' ''" "show_nat n @ d # x"] by simp
  have sg: "scan_sign (show_nat n @ d # x) = (False, show_nat n @ d # x)"
    using digit_not_sign [OF c] by (simp add: s scan_sign_def)
  show ?thesis
    using show_nat_span [of "d # x" n] assms
    by (simp add: scan_skip_u_def sk sg)
qed

lemma scan_lit_here: "scan_lit p (p @ s) = Some s"
  by (simp add: scan_lit_def)

lemma skip_lits:
  "skip_lit ''Node'' (Some (CHR ''N'' # CHR ''o'' # CHR ''d'' # CHR ''e'' # s)) = Some s"
  "skip_lit '','' (Some (CHR '','' # s)) = Some s"
  "skip_lit ''zone'' (Some (CHR ''z'' # CHR ''o'' # CHR ''n'' # CHR ''e'' # s)) = Some s"
  using scan_lit_here [of "''Node''" s] scan_lit_here [of "'',''" s] scan_lit_here [of "''zone''" s]
  by (simp_all add: skip_lit_def)

lemma scan_zone_render:
  assumes "word_ok 31 zone"
  shows "scan_zone (render_zone node zone cs) = Some (zone, skip_space (render_counts cs))"
proof -
  have comma: "\<not> c_isdigit CHR '',''" by (simp add: cstr_simps)
  have z: "skip_space (CHR ''z'' # s) = CHR ''z'' # s" for s
    by (simp add: skip_space_def cstr_simps)
  have w: "scan_word 31 (skip_space (CHR '' '' # pad_left 8 zone @ CHR '' '' # r)) = Some (zone, CHR '' '' # r)" for r
    using scan_word_pad [OF assms, of 8 r] skip_space_append [of "'' ''" "pad_left 8 zone @ CHR '' '' # r"]
    by (simp add: scan_word_skip)
  have sp: "skip_space (CHR '' '' # r) = skip_space r" for r using skip_space_append [of "'' ''" r] by simp
  show ?thesis
    using w [of "render_counts cs"]
    by (simp add: scan_zone_def render_zone_def skip_lits scan_skip_u_show [OF comma] z sp)
qed

lemma buddy_loop_skip: "buddy_loop (skip_space s) = buddy_loop s"
  by (intro ext) (subst (1 2) buddy_loop.simps, simp)

lemma buddy_line_counts:
  assumes "\<forall>c\<in>set cs. int c \<le> ulong_max"
  shows "buddy_loop (skip_space (render_counts cs)) 0 1 0 = (False, length cs, min 4 (order3_units 0 cs))"
  using buddy_loop_counts [OF assms, of 0 "[]" 0] by (simp add: buddy_loop_skip order3_weight_def)

text \<open>A zone of the report: its node, its name and its counts, within the reader's limits.\<close>

type_synonym zone_info = "nat \<times> string \<times> nat list"

definition zone_ok :: "zone_info \<Rightarrow> bool" where
  "zone_ok z = (case z of (node, zone, cs) \<Rightarrow>
     word_ok 31 zone \<and> (\<forall>c\<in>set cs. int c \<le> ulong_max) \<and> length (render_zone node zone cs) \<le> 511)"

definition render_buddyinfo :: "zone_info list \<Rightarrow> string" where
  "render_buddyinfo zs = concat (map (\<lambda>(node, zone, cs). render_zone node zone cs) zs)"

lemma show_nat_no_newline: "newline \<notin> set (show_nat n)"
proof
  assume "newline \<in> set (show_nat n)"
  then have "c_isdigit newline" using show_nat_digits by blast
  then show False by (simp add: newline_def cstr_simps)
qed

lemma render_counts_newline: "\<exists>l. render_counts cs = l @ [newline] \<and> newline \<notin> set l"
  by (intro exI [of _ "concat (map (\<lambda>c. pad_left 6 (show_nat c) @ '' '') cs)"])
     (auto simp: render_counts_def pad_left_def show_nat_no_newline, auto simp: newline_def)

lemma render_zone_newline:
  assumes "word_ok n zone"
  shows "\<exists>l. render_zone node zone cs = l @ [newline] \<and> newline \<notin> set l"
proof -
  have "newline \<notin> set zone" using assms newline_space(1) by (auto simp: word_ok_def)
  moreover obtain r where "render_counts cs = r @ [newline]" "newline \<notin> set r"
    using render_counts_newline by blast
  ultimately show ?thesis
    by (intro exI [of _ "''Node '' @ show_nat node @ '', zone '' @ pad_left 8 zone @ '' '' @ r"])
       (auto simp: render_zone_def pad_left_def show_nat_no_newline, auto simp: newline_def)
qed

lemma fgets_buddyinfo:
  assumes "\<forall>z\<in>set zs. zone_ok z"
  shows "fgets_all 510 (render_buddyinfo zs) = map (\<lambda>(node, zone, cs). render_zone node zone cs) zs"
  using assms
proof (induction zs)
  case (Cons z zs)
  obtain node zone cs where z: "z = (node, zone, cs)" by (cases z) auto
  have ok: "word_ok 31 zone" "length (render_zone node zone cs) \<le> 511"
    using Cons.prems by (auto simp: z zone_ok_def)
  obtain l where l: "render_zone node zone cs = l @ [newline]" "newline \<notin> set l"
    using render_zone_newline [OF ok(1)] by blast
  have "fgets_all 510 (render_zone node zone cs @ render_buddyinfo zs) =
      render_zone node zone cs # fgets_all 510 (render_buddyinfo zs)"
    unfolding l(1) by (rule fgets_line) (use l ok(2) in auto)
  then show ?case using Cons by (simp add: z render_buddyinfo_def)
qed (simp add: render_buddyinfo_def)

definition normal_zone :: "zone_info \<Rightarrow> bool" where
  "normal_zone z \<longleftrightarrow> fst (snd z) = ''Normal''"

lemma buddy_lines_zones:
  assumes "\<forall>z\<in>set zs. zone_ok z"
  shows "buddy_lines (map (\<lambda>(node, zone, cs). render_zone node zone cs) zs) reserve =
    (if \<exists>z\<in>set zs. normal_zone z \<and> length (snd (snd z)) < 4 then None
     else Some (reserve \<or> (\<exists>z\<in>set zs. normal_zone z \<and> 4 \<le> order3_units 0 (snd (snd z)))))"
  using assms
proof (induction zs arbitrary: reserve)
  case (Cons z zs)
  obtain node zone cs where z: "z = (node, zone, cs)" by (cases z) auto
  have ok: "word_ok 31 zone" "\<forall>c\<in>set cs. int c \<le> ulong_max" using Cons.prems by (auto simp: z zone_ok_def)
  obtain l where l: "render_zone node zone cs = l @ [newline]" using render_zone_newline [OF ok(1)] by blast
  have nl: "newline \<in> set (render_zone node zone cs)" by (simp add: l)
  have m: "ve_min_order3_units \<le> min 4 x \<longleftrightarrow> 4 \<le> x" for x by (simp add: ve_min_order3_units_def)
  have IH: "buddy_lines (map (\<lambda>(node, zone, cs). render_zone node zone cs) zs) r =
    (if \<exists>z\<in>set zs. normal_zone z \<and> length (snd (snd z)) < 4 then None
     else Some (r \<or> (\<exists>z\<in>set zs. normal_zone z \<and> 4 \<le> order3_units 0 (snd (snd z)))))" for r
    using Cons by auto
  show ?case
    by (auto simp: z nl scan_zone_render [OF ok(1)] buddy_line_counts [OF ok(2)] m IH normal_zone_def
          simp del: min_le_iff_disj min.bounded_iff)
qed simp

text \<open>
  A report as the kernel writes it has the reserve exactly when it was read without an error,
  every Normal zone in it shows at least four orders, and some Normal zone holds free memory
  worth four blocks of order 3, counted exactly: no saturation of the reader is visible.
\<close>

theorem reserve_from_buddyinfo:
  assumes "\<forall>z\<in>set zs. zone_ok z"
  shows "ve_order3_reserve_ok (Some \<lparr>tf_text = render_buddyinfo zs, tf_error = err\<rparr>) \<longleftrightarrow>
    \<not> err \<and> (\<forall>z\<in>set zs. normal_zone z \<longrightarrow> 4 \<le> length (snd (snd z))) \<and>
    (\<exists>z\<in>set zs. normal_zone z \<and> 4 \<le> order3_units 0 (snd (snd z)))"
  by (auto simp: ve_order3_reserve_ok_def fgets_buddyinfo [OF assms] buddy_lines_zones [OF assms] not_less)

lemma reserve_from_buddyinfo_witness:
  "ve_order3_reserve_ok (Some \<lparr>tf_text = render_buddyinfo [(0, ''Normal'', [12, 7, 3, 2, 1])], tf_error = False\<rparr>)
   \<and> \<not> ve_order3_reserve_ok (Some \<lparr>tf_text = render_buddyinfo [(0, ''Normal'', [90, 40, 20, 3, 0])], tf_error = False\<rparr>)"
proof -
  have "\<forall>z\<in>set [(0, ''Normal'', [12, 7, 3, 2, 1])]. zone_ok z" "\<forall>z\<in>set [(0, ''Normal'', [90, 40, 20, 3, 0])]. zone_ok z"
    by code_simp+
  from reserve_from_buddyinfo [OF this(1), of False] reserve_from_buddyinfo [OF this(2), of False]
  show ?thesis by (simp add: normal_zone_def)
qed

end
