(* ===== verification/Motiond.thy ===== *)
theory Motiond
  imports Motiond_Input Motion_Delivery Motion_Levels Motion_Mask
begin

text \<open>
  \<open>src/motiond/motiond/motiond.c\<close>: the detector process.  Its options, the settings it prints, the
  telemetry it publishes, one round of its loop, and its shutdown, composed of the detector, the
  delivery of messages, the sample history and the spatial mask.  The kernel's answers in a round
  are one record.
\<close>

section \<open>Options\<close>

record motiond_args =
  ar_sensitivity :: int
  ar_interval_ms :: int
  ar_log_all :: bool
  ar_record_events :: bool
  ar_check_kernel :: bool
  ar_show_settings :: bool
  ar_valid :: bool
  ar_trigger :: "c_double option"
  ar_release :: "c_double option"
  ar_confirm :: "int option"
  ar_quiet_ms :: "int option"
  ar_require_zero :: "int option"
  ar_cells :: "string option"
  ar_vector_pixels :: int
  ar_difference :: int

definition default_args :: motiond_args where
  "default_args = \<lparr>ar_sensitivity = 5, ar_interval_ms = 100, ar_log_all = False,
     ar_record_events = False, ar_check_kernel = False, ar_show_settings = False, ar_valid = True,
     ar_trigger = None, ar_release = None, ar_confirm = None, ar_quiet_ms = None,
     ar_require_zero = None, ar_cells = None, ar_vector_pixels = 1, ar_difference = 12\<rparr>"

text \<open>
  \<open>valid_args &= parse(...)\<close>.  A failed parse leaves the number as it was and the run ends with the
  usage message, so the fields that record which overrides were given hold the parsed value.
\<close>

definition arg_value :: "'a option \<Rightarrow> ('a \<Rightarrow> motiond_args \<Rightarrow> motiond_args) \<Rightarrow> motiond_args \<Rightarrow> motiond_args" where
  "arg_value r upd a = (case r of None \<Rightarrow> a\<lparr>ar_valid := False\<rparr> | Some v \<Rightarrow> upd v a)"

text \<open>One option of \<open>getopt_long\<close>: \<open>Inl\<close> is the exit status after the usage message.\<close>

definition motiond_option :: "char \<Rightarrow> string \<Rightarrow> motiond_args \<Rightarrow> int + motiond_args" where
  "motiond_option opt optarg a =
     (if opt = CHR ''s'' then Inr (arg_value (parse_int_arg optarg) (\<lambda>v a. a\<lparr>ar_sensitivity := v\<rparr>) a)
      else if opt = CHR ''i'' then Inr (arg_value (parse_int_arg optarg) (\<lambda>v a. a\<lparr>ar_interval_ms := v\<rparr>) a)
      else if opt = CHR ''T'' then Inr (arg_value (parse_ratio_arg optarg) (\<lambda>v a. a\<lparr>ar_trigger := Some v\<rparr>) a)
      else if opt = CHR ''R'' then Inr (arg_value (parse_ratio_arg optarg) (\<lambda>v a. a\<lparr>ar_release := Some v\<rparr>) a)
      else if opt = CHR ''C'' then Inr (arg_value (parse_int_arg optarg) (\<lambda>v a. a\<lparr>ar_confirm := Some v\<rparr>) a)
      else if opt = CHR ''Q'' then Inr (arg_value (parse_int_arg optarg) (\<lambda>v a. a\<lparr>ar_quiet_ms := Some v\<rparr>) a)
      else if opt = CHR ''Z'' then Inr (arg_value (parse_int_arg optarg) (\<lambda>v a. a\<lparr>ar_require_zero := Some v\<rparr>) a)
      else if opt = CHR ''J'' then Inr (a\<lparr>ar_show_settings := True\<rparr>)
      else if opt = CHR ''M'' then
        (let valid = ar_valid a \<and> motion_mask_valid optarg
         in Inr (a\<lparr>ar_valid := valid, ar_cells := (if valid then Some optarg else ar_cells a)\<rparr>))
      else if opt = CHR ''P'' then Inr (arg_value (parse_int_arg optarg) (\<lambda>v a. a\<lparr>ar_vector_pixels := v\<rparr>) a)
      else if opt = CHR ''D'' then Inr (arg_value (parse_int_arg optarg) (\<lambda>v a. a\<lparr>ar_difference := v\<rparr>) a)
      else if opt = CHR ''a'' then Inr (a\<lparr>ar_log_all := True\<rparr>)
      else if opt = CHR ''r'' then Inr (a\<lparr>ar_record_events := True\<rparr>)
      else if opt = CHR ''k'' then Inr (a\<lparr>ar_check_kernel := True\<rparr>)
      else if opt = CHR ''h'' then Inl 0
      else Inl 2)"

fun motiond_options :: "(char \<times> string) list \<Rightarrow> motiond_args \<Rightarrow> int + motiond_args" where
  "motiond_options [] a = Inr a"
| "motiond_options ((opt, optarg) # opts) a =
     (case motiond_option opt optarg a of
        Inl status \<Rightarrow> Inl status
      | Inr a' \<Rightarrow> motiond_options opts a')"

definition override :: "'a option \<Rightarrow> 'a \<Rightarrow> 'a" where
  "override r x = (case r of Some v \<Rightarrow> v | None \<Rightarrow> x)"

definition args_custom :: "motiond_args \<Rightarrow> bool" where
  "args_custom a \<longleftrightarrow> ar_trigger a \<noteq> None \<or> ar_release a \<noteq> None \<or> ar_confirm a \<noteq> None \<or>
     ar_quiet_ms a \<noteq> None \<or> ar_require_zero a \<noteq> None"

definition effective_config :: "motiond_args \<Rightarrow> sens_cfg" where
  "effective_config a =
     (let p = cfgs ! nat (ar_sensitivity a - 1)
      in \<lparr>c_trigger = override (ar_trigger a) (c_trigger p),
          c_release = override (ar_release a) (c_release p),
          c_confirm_samples = override (ar_confirm a) (c_confirm_samples p),
          c_quiet_ms = override (ar_quiet_ms a) (c_quiet_ms p),
          c_require_zero = override (ar_require_zero a) (c_require_zero p),
          c_level_boost = (if args_custom a then 0 else c_level_boost p)\<rparr>)"

text \<open>\<open>left\<close>: whether arguments that are not options remain.  The result is the exit status, or the
  arguments with their configuration.\<close>

definition motiond_configure ::
  "(char \<times> string) list \<Rightarrow> bool \<Rightarrow> int + (motiond_args \<times> sens_cfg)" where
  "motiond_configure opts left =
     (case motiond_options opts default_args of
        Inl status \<Rightarrow> Inl status
      | Inr a \<Rightarrow>
          if \<not> ar_valid a \<or> left \<or> ar_sensitivity a < 1 \<or> ar_sensitivity a > 10 \<or>
             ar_vector_pixels a < 1 \<or> ar_vector_pixels a > 16 \<or>
             ar_difference a < 0 \<or> ar_difference a > 255 then Inl 2
          else let c = effective_config a
               in if \<not> motion_config_valid c (ar_interval_ms a) then Inl 2 else Inr (a, c))"

section \<open>Settings and telemetry\<close>

definition json_bool :: "bool \<Rightarrow> string" where
  "json_bool b = (if b then ''true'' else ''false'')"

definition settings_json :: "sens_cfg \<Rightarrow> int \<Rightarrow> bool \<Rightarrow> string" where
  "settings_json c interval custom =
     take 255 (''{\"custom\":'' @ json_bool custom @
       '',\"trigger\":'' @ fmt_fixed 2 (c_trigger c) @
       '',\"release\":'' @ fmt_fixed 2 (c_release c) @
       '',\"confirm_samples\":'' @ show_int (c_confirm_samples c) @
       '',\"quiet_ms\":'' @ show_int (c_quiet_ms c) @
       '',\"interval_ms\":'' @ show_int interval @
       '',\"require_zero\":'' @ json_bool (c_require_zero c \<noteq> 0) @
       '',\"level_boost\":'' @ json_bool (c_level_boost c \<noteq> 0) @ ''}'')"

definition mask_json :: "motion_mask \<Rightarrow> int \<Rightarrow> string" where
  "mask_json m now =
     take 511 (if mm_enabled m \<and> mm_error m = 0
       then ''{\"enabled\":true,\"error\":0,\"ratio\":'' @ fmt_fixed 3 (mm_ratio m) @
         '',\"age_ms\":'' @ show_int (now - mf_monotonic_ms (mm_frame m)) @
         '',\"predicted_frame\":'' @ json_bool (mf_p_frame (mm_frame m) \<noteq> 0) @
         '',\"source_version\":'' @ show_int (uint (mm_source_version m)) @
         '',\"activity\":\"'' @ mm_activity m @ ''\"}''
       else ''{\"enabled\":'' @ json_bool (mm_enabled m) @
         '',\"error\":'' @ show_int (if mm_enabled m then mm_error m else 0) @
         '',\"fallback\":'' @ json_bool (mm_fallback m) @
         '',\"ratio\":null,\"activity\":null}'')"

definition sample_json :: "motion_stats \<Rightarrow> int \<Rightarrow> string" where
  "sample_json s rc =
     take 191 (if rc = 0
       then ''\"scene\":'' @ show_int (s_scene s) @ '',\"move\":'' @ show_int (s_move s) @
         '',\"moving_level\":'' @ show_int (s_moving_level s) @
         '',\"bin_ratio\":'' @ fmt_fixed 2 (s_bin_ratio s) @
         '',\"moving_th\":'' @ show_int (s_moving_th s)
       else ''\"scene\":null,\"move\":null,\"moving_level\":null,\"bin_ratio\":null,\"moving_th\":null'')"

text \<open>\<open>errnum\<close> gives the number of an error value of the platform.\<close>

definition telemetry_json ::
  "(errno option \<Rightarrow> int) \<Rightarrow> motion_detector \<Rightarrow> motion_stats \<Rightarrow> int \<Rightarrow> int \<Rightarrow> string \<Rightarrow> delivery \<Rightarrow>
   bool \<Rightarrow> motion_mask \<Rightarrow> string" where
  "telemetry_json errnum d s rc now settings ipc state_pending m =
     ''{\"monotonic_ms\":'' @ show_int now @ '',\"active\":'' @ json_bool (d_active d) @ '','' @
     sample_json s rc @ '',\"read_error\":'' @ show_int rc @
     '',\"positive_samples\":'' @ show_int (d_positives d) @
     '',\"quiet_elapsed_ms\":'' @
       show_int (if d_quiet_since d < 0 then 0 else now - d_quiet_since d) @
     '',\"ipc_pending\":'' @ json_bool (motion_delivery_pending ipc) @
     '',\"ipc_error\":'' @ show_int (errnum (v_error ipc)) @
     '',\"state_pending\":'' @ json_bool state_pending @
     '',\"effective\":'' @ settings @ '',\"mask\":'' @ mask_json m now @ ''}'' @ [newline]"

text \<open>The telemetry file after the call: the text, written whole and renamed, or the old one.\<close>

definition write_telemetry :: "bool \<Rightarrow> int \<Rightarrow> bool \<Rightarrow> string \<Rightarrow> string option \<Rightarrow> string option" where
  "write_telemetry open_ok written rename_ok text old =
     (if 1600 \<le> length text then old
      else if \<not> open_ok then old
      else if written = int (length text) \<and> rename_ok then Some text else old)"

section \<open>One round of the loop\<close>

text \<open>The bytes of the messages that the delivery sends.\<close>

definition motiond_message :: "bool \<Rightarrow> byte list" where
  "motiond_message active =
     (if active then [1, 0, 0, 0, 2, 0, 0, 0, 0x7c, 0, 0x7c, 0, 0, 0, 0, 0]
      else [1, 0, 0, 0, 2, 0, 0, 0, 0x7d, 0, 0x7d, 0, 0, 0, 0, 0])"

record motiond_state =
  md_detector :: motion_detector
  md_ipc :: delivery
  md_levels :: levels_state
  md_mask :: motion_mask
  md_retry :: int
  md_files :: state_files
  md_telemetry :: "string option"
  md_state_pending :: bool
  md_last_heartbeat :: int
  md_last_telemetry :: int
  md_last_warning :: int
  md_mask_started :: int
  md_prev :: motion_stats

text \<open>What does not change while the process runs.\<close>

record motiond_config =
  mc_args :: motiond_args
  mc_sens :: sens_cfg
  mc_effective :: string
  mc_uses_vmalloc :: bool
  mc_errnum :: "errno option \<Rightarrow> int"

record round_env =
  ro_stats :: stats_env
  ro_now :: int
  ro_mask :: mask_env
  ro_wall_ms :: "int option"
  ro_write :: write_env
  ro_tick :: tick_env
  ro_rewrite :: write_env
  ro_tel_open :: bool
  ro_tel_written :: int
  ro_tel_rename :: bool

definition zero_stats :: motion_stats where
  "zero_stats = \<lparr>s_scene = 0, s_move = 0, s_moving_level = 0, s_bin_ratio = Fin 0, s_moving_th = 0\<rparr>"

text \<open>The spatial source: the mask, what the detector sees, its configuration, whether to skip the
  update, and whether the observation is valid.\<close>

definition spatial_source ::
  "motion_mask \<Rightarrow> int \<Rightarrow> sens_cfg \<Rightarrow> motion_stats \<Rightarrow> bool \<Rightarrow> int \<Rightarrow> mask_env \<Rightarrow>
   motion_mask \<times> motion_stats \<times> sens_cfg \<times> bool \<times> bool" where
  "spatial_source m started c s ok now e =
     (if \<not> mm_enabled m then (m, s, c, False, ok)
      else
        let (m1, map_rc, _) = motion_mask_read m now e;
            m2 = m1\<lparr>mm_fallback := map_rc < 0 \<and> (mm_last_pid m1 \<noteq> 0 \<or> 1000 \<le> now - started)\<rparr>
        in if 0 \<le> map_rc
           then (m2, s\<lparr>s_bin_ratio := mm_ratio m2,
                       s_moving_level := (if fp_le (mm_ratio m2) (c_release c) then 0 else 1)\<rparr>,
                 c\<lparr>c_level_boost := 0\<rparr>, map_rc = 0, ok)
           else (m2, s, c, False, ok \<and> mm_fallback m2))"

definition raw_sample :: "motion_stats \<Rightarrow> int \<Rightarrow> level_sample" where
  "raw_sample s wall = \<lparr>ls_unix_ms = wall, ls_bin_ratio = s_bin_ratio s, ls_scene = s_scene s,
     ls_move = s_move s, ls_moving_level = s_moving_level s, ls_moving_th = s_moving_th s\<rparr>"

definition capture_levels ::
  "levels_state \<Rightarrow> bool \<Rightarrow> int \<Rightarrow> int \<Rightarrow> motion_stats \<Rightarrow> bool \<Rightarrow> int option \<Rightarrow> int \<Rightarrow> levels_state" where
  "capture_levels l active transition now s ok wall last_telemetry =
     (let (capture, l1) = motion_levels_due l active (0 < transition) now
      in if capture \<or> 1000 \<le> now - last_telemetry
         then (case wall of
                 None \<Rightarrow> l1
               | Some w \<Rightarrow> motion_levels_tick l1 \<lparr>lt_active = capture \<and> active, lt_valid = ok,
                   lt_sample = raw_sample s w, lt_mono = now\<rparr>)
         else l1)"

text \<open>A transition: the state file and the wanted message.\<close>

definition announce ::
  "int \<Rightarrow> bool \<Rightarrow> write_env \<Rightarrow> state_files \<Rightarrow> bool \<Rightarrow> delivery \<Rightarrow> state_files \<times> bool \<times> delivery" where
  "announce transition active e files pending ipc =
     (if transition \<noteq> 0
      then let (rc, files') = write_state active e files
           in (files', rc \<noteq> 0, motion_delivery_want ipc active)
      else (files, pending, ipc))"

definition publish ::
  "motiond_config \<Rightarrow> round_env \<Rightarrow> motion_stats \<Rightarrow> int \<Rightarrow> motiond_state \<Rightarrow> motiond_state" where
  "publish g e s rc st =
     (if 1000 \<le> ro_now e - md_last_telemetry st then
        let (rc', files') = write_state (d_active (md_detector st)) (ro_rewrite e) (md_files st);
            st1 = (if md_state_pending st then st\<lparr>md_files := files', md_state_pending := rc' \<noteq> 0\<rparr> else st);
            text = telemetry_json (mc_errnum g) (md_detector st1) s rc (ro_now e) (mc_effective g)
                     (md_ipc st1) (md_state_pending st1) (md_mask st1)
        in st1\<lparr>md_telemetry := write_telemetry (ro_tel_open e) (ro_tel_written e) (ro_tel_rename e) text
                 (md_telemetry st1),
               md_last_telemetry := ro_now e\<rparr>
      else st)"

definition stats_changed :: "motion_stats \<Rightarrow> motion_stats \<Rightarrow> bool" where
  "stats_changed s p \<longleftrightarrow> s_scene s \<noteq> s_scene p \<or> s_move s \<noteq> s_move p \<or>
     s_moving_level s \<noteq> s_moving_level p \<or> s_moving_th s \<noteq> s_moving_th p \<or>
     s_bin_ratio s \<noteq> s_bin_ratio p"

text \<open>The log of samples and read errors keeps its time and the sample it compares with.\<close>

definition heartbeat :: "bool \<Rightarrow> int \<Rightarrow> motion_stats \<Rightarrow> int \<Rightarrow> motiond_state \<Rightarrow> motiond_state" where
  "heartbeat log_all now s rc st =
     (let beat = 2000 \<le> now - md_last_heartbeat st
      in if rc = 0 then
           (if log_all \<or> stats_changed s (md_prev st) \<or> beat then st\<lparr>md_last_heartbeat := now\<rparr> else st)
             \<lparr>md_prev := s\<rparr>
         else if beat then st\<lparr>md_last_heartbeat := now\<rparr> else st)"

text \<open>The state after the round, and what the message queue saw.\<close>

definition motiond_round ::
  "motiond_config \<Rightarrow> motiond_state \<Rightarrow> round_env \<Rightarrow> motiond_state \<times> dv_log list" where
  "motiond_round g st e =
     (let now = ro_now e; c = mc_sens g;
          (retry, rc0, x) = read_stats (mc_uses_vmalloc g) (md_retry st) (ro_stats e);
          s = override x zero_stats;
          rc = (if rc0 = 0 \<and> stats_bad s then -5 else rc0);
          (mask, spatial, dc, skip, ok) =
            spatial_source (md_mask st) (md_mask_started st) c s (rc = 0) now (ro_mask e);
          (d, transition) = (if skip then (md_detector st, 0)
            else motion_update (md_detector st) dc (if ok then Some spatial else None) now);
          levels = capture_levels (md_levels st) (d_active d) transition now s (rc = 0) (ro_wall_ms e)
                     (md_last_telemetry st);
          (files, pending, ipc) = announce transition (d_active d) (ro_write e) (md_files st)
                                    (md_state_pending st) (md_ipc st);
          (ipc', trc, _, l) = motion_delivery_tick ipc now (ro_tick e);
          st1 = st\<lparr>md_detector := d, md_ipc := ipc', md_levels := levels, md_mask := mask,
                   md_retry := retry, md_files := files, md_state_pending := pending,
                   md_last_warning := (if trc \<noteq> 0 \<and> 2000 \<le> now - md_last_warning st then now
                                       else md_last_warning st)\<rparr>
      in (heartbeat (ar_log_all (mc_args g)) now s rc (publish g e s rc st1), l))"

fun motiond_rounds ::
  "motiond_config \<Rightarrow> motiond_state \<Rightarrow> round_env list \<Rightarrow> motiond_state \<times> dv_log list" where
  "motiond_rounds g st [] = (st, [])"
| "motiond_rounds g st (e # es) =
     (let (st1, l1) = motiond_round g st e; (st2, l2) = motiond_rounds g st1 es in (st2, l1 @ l2))"

section \<open>Start and end\<close>

definition zero_frame :: map_frame where
  "zero_frame = \<lparr>mf_pid = 0, mf_frame = 0, mf_p_frame = 0, mf_monotonic_ms = 0,
     mf_vectors = replicate (map_blocks * 8) 0, mf_difference = replicate map_blocks 0\<rparr>"

definition initial_mask :: "motiond_args \<Rightarrow> motion_mask" where
  "initial_mask a = \<lparr>mm_enabled = ar_cells a \<noteq> None, mm_vector_pixels = ar_vector_pixels a,
     mm_difference_threshold = ar_difference a, mm_have_previous = 0,
     mm_cells = override (ar_cells a) [], mm_activity = [], mm_shared = False, mm_frame = zero_frame,
     mm_previous = replicate map_blocks 0, mm_last_pid = 0, mm_last_frame = 0, mm_source_version = 0,
     mm_previous_ms = 0, mm_retry_after = 0, mm_first_map_ms = 0, mm_last_predicted_ms = 0,
     mm_ratio = Fin 0, mm_error = 0, mm_fallback = False\<rparr>"

definition idle_levels :: levels_state where
  "idle_levels = \<lparr>lw_writer = None, lw_last_wall = 0, lw_last_mono = 0, lw_active = False,
     lw_burst = 0, lw_next_ms = 0\<rparr>"

definition ipc_queue_name :: string where "ipc_queue_name = ''/ipc_dispatch''"

record begin_env =
  be_now :: int
  be_files :: state_files
  be_write :: write_env
  be_levels :: levels_start_env
  be_telemetry :: "string option"

definition motiond_begin :: "motiond_config \<Rightarrow> begin_env \<Rightarrow> motiond_state" where
  "motiond_begin g e =
     (let (rc, files) = write_state False (be_write e) (be_files e)
      in \<lparr>md_detector = detector_init,
          md_ipc = motion_delivery_init (ar_record_events (mc_args g)) ipc_queue_name,
          md_levels = snd (motion_levels_start idle_levels (be_levels e)),
          md_mask = initial_mask (mc_args g), md_retry = 0, md_files = files,
          md_telemetry = be_telemetry e, md_state_pending = rc \<noteq> 0, md_last_heartbeat = 0,
          md_last_telemetry = -1000, md_last_warning = -2000, md_mask_started = be_now e,
          md_prev = \<lparr>s_scene = -999, s_move = -999, s_moving_level = -999, s_bin_ratio = Fin (-999),
            s_moving_th = -999\<rparr>\<rparr>)"

text \<open>At most five attempts to deliver the final STOP, each with its own time and answers.\<close>

fun shutdown_ticks :: "nat \<Rightarrow> delivery \<Rightarrow> (int \<times> tick_env) list \<Rightarrow> delivery \<times> dv_log list" where
  "shutdown_ticks 0 d es = (d, [])"
| "shutdown_ticks n d [] = (d, [])"
| "shutdown_ticks (Suc n) d ((now, e) # es) =
     (if \<not> motion_delivery_pending d then (d, [])
      else let (d1, _, _, l1) = motion_delivery_tick d now e; (d2, l2) = shutdown_ticks n d1 es
           in (d2, l1 @ l2))"

definition motiond_shutdown ::
  "motiond_state \<Rightarrow> (int \<times> tick_env) list \<Rightarrow> write_env \<Rightarrow> motiond_state \<times> dv_log list" where
  "motiond_shutdown st es e =
     (let (d, l) = shutdown_ticks 5 (motion_delivery_want (md_ipc st) False) es;
          (_, files) = write_state False e (md_files st)
      in (st\<lparr>md_ipc := motion_delivery_close d, md_files := files, md_telemetry := None,
             md_mask := motion_mask_close (md_mask st)\<rparr>, l))"

section \<open>The parts of the process agree\<close>

definition state_text :: "bool \<Rightarrow> string" where
  "state_text active = (if active then CHR ''1'' else CHR ''0'') # [newline]"

lemma write_state_file:
  assumes "write_state active e f = (rc, f')"
  shows "(rc = 0 \<and> sf_state f' = Some (state_text active)) \<or> (rc = -1 \<and> sf_state f' = sf_state f)"
  using assms
  by (auto simp: write_state_def state_text_def Let_def split: if_splits sum.splits)

lemma send_loop_wanted:
  "send_loop n k e d = (d', r, l) \<Longrightarrow> v_wanted d' = v_wanted d \<and> v_enabled d' = v_enabled d"
  using send_loop_enabled by blast

lemma send_pending_wanted:
  "send_pending d now e = (d', rc, err, l) \<Longrightarrow> v_wanted d' = v_wanted d \<and> v_enabled d' = v_enabled d"
  by (auto simp: send_pending_def reconnect_def motion_delivery_close_def
      split: prod.splits option.splits if_splits dest: send_loop_wanted)

lemma tick_wanted:
  assumes "motion_delivery_tick d now e = (d', rc, err, l)"
  shows "v_wanted d' = v_wanted d \<and> v_enabled d' = v_enabled d"
  using assms
  by (auto simp: motion_delivery_tick_def Let_def reconnect_def motion_delivery_close_def
      split: if_splits option.splits sum.splits prod.splits dest!: send_pending_wanted)

lemma want_wanted:
  "v_enabled (motion_delivery_want d b) = v_enabled d"
  "v_enabled d \<Longrightarrow> v_wanted (motion_delivery_want d b) = b"
  by (simp_all add: motion_delivery_want_def Let_def)

text \<open>The message wanted is the detector's state, and so is the state file unless it is pending.\<close>

definition motiond_inv :: "motiond_state \<Rightarrow> bool" where
  [inv_defs]: "motiond_inv st \<longleftrightarrow>
     (v_enabled (md_ipc st) \<longrightarrow> v_wanted (md_ipc st) = d_active (md_detector st)) \<and>
     (\<not> md_state_pending st \<longrightarrow>
        sf_state (md_files st) = Some (state_text (d_active (md_detector st))))"

definition agrees :: "bool \<Rightarrow> delivery \<Rightarrow> state_files \<Rightarrow> bool \<Rightarrow> bool" where
  "agrees active ipc files pending \<longleftrightarrow> (v_enabled ipc \<longrightarrow> v_wanted ipc = active) \<and>
     (\<not> pending \<longrightarrow> sf_state files = Some (state_text active))"

lemma motiond_inv_agrees:
  "motiond_inv st \<longleftrightarrow> agrees (d_active (md_detector st)) (md_ipc st) (md_files st) (md_state_pending st)"
  by (simp add: motiond_inv_def agrees_def)

lemma announce_agrees:
  assumes "announce tr active e files pending ipc = (files', pending', ipc')"
    "agrees old ipc files pending" "tr = 0 \<longrightarrow> active = old"
  shows "agrees active ipc' files' pending' \<and> v_enabled ipc' = v_enabled ipc"
  using assms write_state_file [of active e files]
  by (auto simp: announce_def agrees_def want_wanted split: if_splits prod.splits)

lemma publish_agrees: "motiond_inv st \<Longrightarrow> motiond_inv (publish g e s rc st)"
  using write_state_file [of "d_active (md_detector st)" "ro_rewrite e" "md_files st"]
  by (auto simp: publish_def motiond_inv_def Let_def split: prod.split)

lemma heartbeat_agrees: "motiond_inv st \<Longrightarrow> motiond_inv (heartbeat log_all now s rc st)"
  by (simp add: heartbeat_def motiond_inv_def Let_def)

lemma publish_ipc [simp]:
  "md_ipc (publish g e s rc st) = md_ipc st" "md_detector (publish g e s rc st) = md_detector st"
  by (simp_all add: publish_def Let_def split: prod.split)

lemma heartbeat_ipc [simp]:
  "md_ipc (heartbeat la now s rc st) = md_ipc st" "md_detector (heartbeat la now s rc st) = md_detector st"
  by (simp_all add: heartbeat_def Let_def)

text \<open>What a round does to the detector and the queue: a possible transition, then one tick.\<close>

lemma motiond_round_parts:
  assumes "motiond_round g st e = (st', l)"
  obtains d tr files pending ipc trc err st1 s rc where
    "tr = 0 \<longrightarrow> d_active d = d_active (md_detector st)"
    "announce tr (d_active d) (ro_write e) (md_files st) (md_state_pending st) (md_ipc st) =
       (files, pending, ipc)"
    "motion_delivery_tick ipc (ro_now e) (ro_tick e) = (md_ipc st1, trc, err, l)"
    "md_detector st1 = d" "md_files st1 = files" "md_state_pending st1 = pending"
    "st' = heartbeat (ar_log_all (mc_args g)) (ro_now e) s rc (publish g e s rc st1)"
proof -
  obtain retry rc0 x where 1: "read_stats (mc_uses_vmalloc g) (md_retry st) (ro_stats e) = (retry, rc0, x)"
    by (metis prod_cases3)
  define s where "s = override x zero_stats"
  define rc where "rc = (if rc0 = 0 \<and> stats_bad s then -5 else rc0)"
  obtain mask spatial dc skip ok where 2: "spatial_source (md_mask st) (md_mask_started st) (mc_sens g) s
      (rc = 0) (ro_now e) (ro_mask e) = (mask, spatial, dc, skip, ok)"
    by (metis prod_cases5)
  obtain d tr where 3: "(if skip then (md_detector st, 0)
      else motion_update (md_detector st) dc (if ok then Some spatial else None) (ro_now e)) = (d, tr)"
    by fastforce
  obtain files pending ipc where 4: "announce tr (d_active d) (ro_write e) (md_files st)
      (md_state_pending st) (md_ipc st) = (files, pending, ipc)"
    by (metis prod_cases3)
  obtain ipc' trc err l' where 5: "motion_delivery_tick ipc (ro_now e) (ro_tick e) = (ipc', trc, err, l')"
    by (metis prod_cases4)
  define st1 where "st1 = st\<lparr>md_detector := d, md_ipc := ipc', md_levels := capture_levels (md_levels st)
      (d_active d) tr (ro_now e) s (rc = 0) (ro_wall_ms e) (md_last_telemetry st), md_mask := mask,
      md_retry := retry, md_files := files, md_state_pending := pending,
      md_last_warning := (if trc \<noteq> 0 \<and> 2000 \<le> ro_now e - md_last_warning st then ro_now e
                          else md_last_warning st)\<rparr>"
  have r: "st' = heartbeat (ar_log_all (mc_args g)) (ro_now e) s rc (publish g e s rc st1)" "l = l'"
    using assms unfolding motiond_round_def Let_def 1 prod.case s_def [symmetric] rc_def [symmetric]
      2 3 4 5 st1_def [symmetric] by simp_all
  have tr: "tr = 0 \<longrightarrow> d_active d = d_active (md_detector st)"
  proof (cases skip)
    case True
    then show ?thesis using 3 by simp
  next
    case False
    then show ?thesis
      using 3 motion_update_active [of "md_detector st" dc "if ok then Some spatial else None" "ro_now e"]
      by simp
  qed
  show thesis
    by (rule that [OF tr 4 _ _ _ _ r(1)]) (use 5 r(2) in \<open>simp_all add: st1_def\<close>)
qed

lemma motiond_round_inv:
  assumes "motiond_inv st" "motiond_round g st e = (st', l)"
  shows "motiond_inv st'"
proof -
  from motiond_round_parts [OF assms(2)] obtain d tr files pending ipc trc err st1 s rc where
    p: "tr = 0 \<longrightarrow> d_active d = d_active (md_detector st)"
    "announce tr (d_active d) (ro_write e) (md_files st) (md_state_pending st) (md_ipc st) =
       (files, pending, ipc)"
    "motion_delivery_tick ipc (ro_now e) (ro_tick e) = (md_ipc st1, trc, err, l)"
    "md_detector st1 = d" "md_files st1 = files" "md_state_pending st1 = pending"
    "st' = heartbeat (ar_log_all (mc_args g)) (ro_now e) s rc (publish g e s rc st1)"
    by metis
  have "agrees (d_active d) ipc files pending"
    using announce_agrees [OF p(2) assms(1) [unfolded motiond_inv_agrees] p(1)] by simp
  then have "motiond_inv st1"
    using tick_wanted [OF p(3)] by (simp add: motiond_inv_agrees agrees_def p(4-6))
  then show ?thesis unfolding p(7) by (intro heartbeat_agrees publish_agrees)
qed

lemma motiond_rounds_inv:
  "motiond_inv st \<Longrightarrow> motiond_rounds g st es = (st', l) \<Longrightarrow> motiond_inv st'"
proof (induction es arbitrary: st st' l)
  case (Cons e es)
  obtain st1 l1 where r: "motiond_round g st e = (st1, l1)" by fastforce
  obtain st2 l2 where rs: "motiond_rounds g st1 es = (st2, l2)" by fastforce
  show ?case using Cons.IH [OF motiond_round_inv [OF Cons.prems(1) r] rs] Cons.prems(2) r rs by simp
qed simp

lemma motiond_rounds_enabled:
  "motiond_rounds g st es = (st', l) \<Longrightarrow> v_enabled (md_ipc st') = v_enabled (md_ipc st)"
proof (induction es arbitrary: st st' l)
  case (Cons e es)
  obtain st1 l1 where r: "motiond_round g st e = (st1, l1)" by fastforce
  obtain st2 l2 where rs: "motiond_rounds g st1 es = (st2, l2)" by fastforce
  have "v_enabled (md_ipc st1) = v_enabled (md_ipc st)"
    by (rule motiond_round_parts [OF r])
       (auto simp: announce_def want_wanted split: if_splits prod.splits dest!: tick_wanted)
  then show ?case using Cons.IH [OF rs] Cons.prems r rs by simp
qed simp

text \<open>The protocol's view of the connection follows the messages of the rounds.\<close>

lemma announce_conn:
  "announce tr active e files pending ipc = (files', pending', ipc') \<Longrightarrow> conn_inv s ipc \<Longrightarrow> conn_inv s ipc'"
  by (auto simp: announce_def want_conn split: if_splits prod.splits)

lemma motiond_rounds_conn:
  "conn_inv s (md_ipc st) \<Longrightarrow> motiond_rounds g st es = (st', l) \<Longrightarrow>
     conn_inv (session_after s l) (md_ipc st')"
proof (induction es arbitrary: st st' l s)
  case (Cons e es)
  obtain st1 l1 where r: "motiond_round g st e = (st1, l1)" by fastforce
  obtain st2 l2 where rs: "motiond_rounds g st1 es = (st2, l2)" by fastforce
  have "conn_inv (session_after s l1) (md_ipc st1)"
    by (rule motiond_round_parts [OF r])
       (use announce_conn [OF _ Cons.prems(1)] tick_conn in fastforce)
  then show ?case using Cons.IH [OF _ rs] Cons.prems(2) r rs by (auto simp: session_after_append)
qed simp

lemma motiond_begin_conn: "conn_inv None (md_ipc (motiond_begin g b))"
  by (simp add: motiond_begin_def motion_delivery_init_def case_prod_unfold Let_def)

lemma motiond_begin_inv: "motiond_inv (motiond_begin g b)"
proof -
  obtain rc f where w: "write_state False (be_write b) (be_files b) = (rc, f)" by fastforce
  show ?thesis using write_state_file [OF w]
    by (auto simp: motiond_begin_def w motiond_inv_def detector_init_def motion_delivery_init_def)
qed

text \<open>
  C21.  The parts of the detector process agree: after its start and any number of rounds, whatever the
  kernel answers, the state that the message delivery is to reach is the detector's state, and the
  state file holds the detector's state unless a write is marked pending (and is then repeated).
\<close>

theorem motiond_state_agrees:
  assumes "motiond_rounds g (motiond_begin g b) es = (st, l)"
  shows "(ar_record_events (mc_args g) \<longrightarrow> v_wanted (md_ipc st) = d_active (md_detector st)) \<and>
    (\<not> md_state_pending st \<longrightarrow>
       sf_state (md_files st) = Some (if d_active (md_detector st) then [CHR ''1'', newline] else [CHR ''0'', newline]))"
proof -
  have "v_enabled (md_ipc st) = ar_record_events (mc_args g)"
    using motiond_rounds_enabled [OF assms]
    by (simp add: motiond_begin_def motion_delivery_init_def case_prod_unfold Let_def)
  then show ?thesis using motiond_rounds_inv [OF motiond_begin_inv assms]
    by (auto simp: motiond_inv_def state_text_def)
qed

section \<open>Witnesses\<close>

definition a_config :: motiond_config where
  "a_config = \<lparr>mc_args = default_args\<lparr>ar_record_events := True\<rparr>, mc_sens = cfgs ! 4,
     mc_effective = [], mc_uses_vmalloc = False, mc_errnum = (\<lambda>_. 0)\<rparr>"

definition a_begin :: begin_env where
  "a_begin = \<lparr>be_now = 0, be_files = \<lparr>sf_state = None, sf_tmp = None\<rparr>,
     be_write = \<lparr>we_open = True, we_write = Inr 2, we_close = None, we_rename = None\<rparr>,
     be_levels = \<lparr>le_open_ok = False, le_truncate_ok = False, le_file = None, le_now = 0\<rparr>,
     be_telemetry = None\<rparr>"

lemma motiond_state_agrees_witness:
  "sf_state (md_files (motiond_begin a_config a_begin)) = Some [CHR ''0'', newline]"
  using motiond_state_agrees [of a_config a_begin "[]" "motiond_begin a_config a_begin" "[]"]
  by (simp add: motiond_begin_def a_begin_def write_state_def detector_init_def)

end
