(* ===== verification/Mqtt_Validate.thy ===== *)
theory Mqtt_Validate
  imports Prelude
begin

text \<open>
  \<open>src/mqtt-config/mqtt-config/validate.c\<close>: the table of the parameters that MQTT messages may set,
  the check of a value against it, and the lookup of a parameter's command.  The table is declared
  with one row more than its initialiser has; that row holds null pointers.
\<close>

section \<open>The table\<close>

definition param_size :: nat where "param_size = 128"
definition param_options :: nat where "param_options = 9"
definition param_num :: nat where "param_num = 76"

definition config_params :: "string list list" where
  "config_params =
    [[''system'', ''HTTPD'', ''bool'', [], [], [], [], [], []],
     [''system'', ''TELNETD'', ''bool'', [], [], [], [], [], []],
     [''system'', ''SSHD'', ''bool'', [], [], [], [], [], []],
     [''system'', ''FTPD'', ''bool'', [], [], [], [], [], []],
     [''system'', ''BUSYBOX_FTPD'', ''bool'', [], [], [], [], [], []],
     [''system'', ''MDNSD'', ''bool'', [], [], [], [], [], []],
     [''system'', ''REC_WITHOUT_CLOUD'', ''bool'', [], [], [], [], [], []],
     [''system'', ''MQTT'', ''bool'', [], [], [], [], [], []],
     [''system'', ''RTSP'', ''bool'', [], [], [], [], [], []],
     [''system'', ''RTSP_ALT'', ''enum'', ''standard'', ''alternative'', ''go2rtc'', [], [], []],
     [''system'', ''RTSP_STREAM'', ''enum'', ''high'', ''low'', ''both'', [], [], []],
     [''system'', ''RTSP_AUDIO'', ''enum'', ''no'', ''pcm'', ''alaw'', ''ulaw'', ''aac'', []],
     [''system'', ''RTSP_AUDIO_NR_LEVEL'', ''int'', ''0'', ''30'', [], [], [], []],
     [''system'', ''SPEAKER_AUDIO'', ''bool'', [], [], [], [], [], []],
     [''system'', ''SNAPSHOT'', ''bool'', [], [], [], [], [], []],
     [''system'', ''SNAPSHOT_VIDEO'', ''bool'', [], [], [], [], [], []],
     [''system'', ''SNAPSHOT_LOW'', ''bool'', [], [], [], [], [], []],
     [''system'', ''TIMELAPSE'', ''bool'', [], [], [], [], [], []],
     [''system'', ''TIMELAPSE_FTP'', ''bool'', [], [], [], [], [], []],
     [''system'', ''TIMELAPSE_FTP_SAME_NAME'', ''bool'', [], [], [], [], [], []],
     [''system'', ''TIMELAPSE_DT'', ''int'', ''1'', ''1440'', [], [], [], []],
     [''system'', ''TIMELAPSE_VDT'', ''string'', ''1'', ''1440'', [], [], [], []],
     [''system'', ''ONVIF'', ''bool'', [], [], [], [], [], []],
     [''system'', ''ONVIF_WSDD'', ''bool'', [], [], [], [], [], []],
     [''system'', ''ONVIF_PROFILE'', ''enum'', ''high'', ''low'', ''both'', [], [], []],
     [''system'', ''ONVIF_WM_SNAPSHOT'', ''bool'', [], [], [], [], [], []],
     [''system'', ''ONVIF_NETIF'', ''string'', [], [], [], [], [], []],
     [''system'', ''ONVIF_AUDIO_BC'', ''enum'', ''NONE'', ''G711'', ''AAC'', [], [], []],
     [''system'', ''ONVIF_ENABLE_MEDIA2'', ''bool'', [], [], [], [], [], []],
     [''system'', ''ONVIF_FAULT_IF_UNKNOWN'', ''bool'', [], [], [], [], [], []],
     [''system'', ''ONVIF_SYNOLOGY_NVR'', ''bool'', [], [], [], [], [], []],
     [''system'', ''TIME_OSD'', ''bool'', [], [], [], [], [], []],
     [''system'', ''NTPD'', ''bool'', [], [], [], [], [], []],
     [''system'', ''NTP_SERVER'', ''string'', [], [], [], [], [], []],
     [''system'', ''PROXYCHAINSNG'', ''bool'', [], [], [], [], [], []],
     [''system'', ''SWAP_FILE'', ''bool'', [], [], [], [], [], []],
     [''system'', ''SWAP_SWAPPINESS'', ''int'', ''0'', ''100'', [], [], [], []],
     [''system'', ''RTSP_PORT'', ''int'', ''1'', ''65535'', [], [], [], []],
     [''system'', ''HTTPD_PORT'', ''int'', ''1'', ''65535'', [], [], [], []],
     [''system'', ''USERNAME'', ''string'', [], [], [], [], [], []],
     [''system'', ''PASSWORD'', ''string'', [], [], [], [], [], []],
     [''system'', ''TIMEZONE'', ''string'', [], [], [], [], [], []],
     [''system'', ''EVENTS_TIME'', ''enum'', ''autodetect'', ''local'', ''gmt'', [], [], []],
     [''system'', ''FREE_SPACE'', ''int'', ''0'', ''100'', [], [], [], []],
     [''system'', ''FTP_UPLOAD'', ''bool'', [], [], [], [], [], []],
     [''system'', ''FTP_HOST'', ''string'', [], [], [], [], [], []],
     [''system'', ''FTP_DIR'', ''string'', [], [], [], [], [], []],
     [''system'', ''FTP_DIR_TREE'', ''bool'', [], [], [], [], [], []],
     [''system'', ''FTP_USERNAME'', ''string'', [], [], [], [], [], []],
     [''system'', ''FTP_PASSWORD'', ''string'', [], [], [], [], [], []],
     [''system'', ''FTP_FILE_DELETE_AFTER_UPLOAD'', ''bool'', [], [], [], [], [], []],
     [''system'', ''SSH_PASSWORD'', ''string'', [], [], [], [], [], []],
     [''system'', ''CRONTAB'', ''string'', [], [], [], [], [], []],
     [''system'', ''DEBUG_LOG'', ''bool'', [], [], [], [], [], []],
     [''system'', ''STATIC_IP'', ''string'', [], [], [], [], [], []],
     [''system'', ''STATIC_MASK'', ''string'', [], [], [], [], [], []],
     [''system'', ''STATIC_GW'', ''string'', [], [], [], [], [], []],
     [''system'', ''STATIC_DNS1'', ''string'', [], [], [], [], [], []],
     [''system'', ''STATIC_DNS2'', ''string'', [], [], [], [], [], []],
     [''camera'', ''SWITCH_ON'', ''bool'', [], [], [], [], [], ''ipc_cmd -t %s''],
     [''camera'', ''SAVE_VIDEO_ON_MOTION'', ''bool'', [], [], [], [], [], []],
     [''camera'', ''MOTION_DETECTION'', ''bool'', [], [], [], [], [], []],
     [''camera'', ''MOTION_SENSITIVITY'', ''int'', ''1'', ''10'', [], [], [], []],
     [''camera'', ''BABY_CRYING_DETECT'', ''bool'', [], [], [], [], [], ''ipc_cmd -B %s''],
     [''camera'', ''LED'', ''bool'', [], [], [], [], [], ''ipc_cmd -l %s''],
     [''camera'', ''ROTATE'', ''bool'', [], [], [], [], [], ''ipc_cmd -r %s''],
     [''camera'', ''IR'', ''bool'', [], [], [], [], [], ''ipc_cmd -i %s''],
     [''camera'', ''SOUND_DETECTION'', ''bool'', [], [], [], [], [], ''ipc_cmd -b %s''],
     [''camera'', ''SOUND_SENSITIVITY'', ''int'', ''30'', ''90'', [], [], [], ''ipc_cmd -n %s''],
     [''camera'', ''CRUISE'', ''enum'', ''no'', ''presets'', ''360'', [], [], ''ipc_cmd -C %s''],
     [''ptz'', ''MOVE'', ''enum'', ''right'', ''left'', ''down'', ''up'', ''stop'', ''QUERY_STRING=\"action=step&dir=%s\" /tmp/sd/yi-hack/www/cgi-bin/ptz.sh''],
     [''ptz'', ''GOTO_PRESET'', ''int'', ''0'', ''7'', [], [], [], ''/tmp/sd/yi-hack/script/ptz_presets.sh -a go_preset -n %s''],
     [''ptz'', ''ADD_PRESET'', ''string'', [], [], [], [], [], ''/tmp/sd/yi-hack/script/ptz_presets.sh -a add_preset -m %s''],
     [''ptz'', ''SET_HOME_POSITION'', ''string'', [], [], [], [], [], ''/tmp/sd/yi-hack/script/ptz_presets.sh -a set_home_position''],
     [''ptz'', ''REMOVE_PRESET'', ''int'', ''0'', ''7'', [], [], [], ''/tmp/sd/yi-hack/script/ptz_presets.sh -a del_preset -n %s'']]"

section \<open>Validation\<close>

text \<open>\<open>strtol\<close> with \<open>errno\<close> and \<open>endptr\<close> checked: a number was read and it was in range.\<close>

definition strtol_ok :: "string \<Rightarrow> bool" where
  "strtol_ok s = (case strtol10 s of (v, rest, range_error) \<Rightarrow> \<not> range_error \<and> rest \<noteq> s)"

definition strtol_value :: "string \<Rightarrow> int" where
  "strtol_value s = fst (strtol10 s)"

definition check_value :: "string list \<Rightarrow> string \<Rightarrow> bool" where
  "check_value row v =
     (if str_ieq ''bool'' (row ! 2) then v = ''yes'' \<or> v = ''no'' \<or> v = ''on'' \<or> v = ''off''
      else if str_ieq ''int'' (row ! 2) then
        strtol_ok (row ! 3) \<and> strtol_ok (row ! 4) \<and> strtol_ok v \<and>
        \<not> strtol_value v < strtol_value (row ! 3) \<and> \<not> strtol_value v > strtol_value (row ! 4)
      else if str_ieq ''string'' (row ! 2) then length v < param_size
      else if str_ieq ''enum'' (row ! 2) then
        v \<in> set (takeWhile (\<lambda>c. c \<noteq> []) (take (param_options - 4) (drop 3 row)))
      else False)"

text \<open>
  The first row that a test on its name selects: \<open>None\<close> when the search reaches a row of null
  pointers, \<open>Some None\<close> when it ends without a row.
\<close>

definition find_row :: "(string \<Rightarrow> bool) \<Rightarrow> string list option option" where
  "find_row p =
     (case find (\<lambda>row. p (row ! 1)) (take param_num config_params) of
        Some row \<Rightarrow> Some (Some row)
      | None \<Rightarrow> if length config_params < param_num then None else Some None)"

text \<open>\<open>None\<close>: undefined, the name of the empty row is read.\<close>

definition validate_param :: "string \<Rightarrow> string \<Rightarrow> string \<Rightarrow> bool option" where
  "validate_param file_name key v =
     (case find_row (strn_ieq 9 key) of
        None \<Rightarrow> None
      | Some None \<Rightarrow> Some False
      | Some (Some row) \<Rightarrow> Some (str_ieq file_name (row ! 0) \<and> check_value row v))"

text \<open>The string copied into \<open>param\<close>, if the call returns 0.\<close>

definition extract_param :: "string \<Rightarrow> string \<Rightarrow> nat \<Rightarrow> string option option" where
  "extract_param file_name key index =
     (case find_row (str_ieq key) of
        None \<Rightarrow> None
      | Some None \<Rightarrow> Some None
      | Some (Some row) \<Rightarrow>
          Some (if str_ieq file_name (row ! 0) then Some (row ! index) else None))"

section \<open>The row that validates a parameter\<close>

lemma config_params_length: "length config_params = 75"
  by (simp add: config_params_def)

lemma take_config_params [simp]: "take param_num config_params = config_params"
  by (simp add: config_params_length param_num_def)

text \<open>The parameters whose first nine characters are the beginning of an earlier row's name.\<close>

definition shadowed_params :: "string list" where
  "shadowed_params = [''RTSP_AUDIO_NR_LEVEL'', ''TIMELAPSE_DT'', ''TIMELAPSE_VDT'']"

definition same_check :: "string list \<Rightarrow> string list \<Rightarrow> bool" where
  "same_check r r' \<longleftrightarrow> r' = r \<or>
     (r' ! 0 = r ! 0 \<and> r' ! 2 = r ! 2 \<and> (r ! 2 = ''bool'' \<or> r ! 2 = ''string''))"

text \<open>On names without lower-case letters the comparisons that ignore case are equality.\<close>

definition no_lower :: "string \<Rightarrow> bool" where
  "no_lower s \<longleftrightarrow> list_all (\<lambda>c. \<not> c_islower c) s"

lemma tolower_inj:
  assumes "\<not> c_islower c" "\<not> c_islower d"
  shows "c_tolower c = c_tolower d \<longleftrightarrow> c = d"
proof -
  have "chr_code (c_tolower c) = chr_code (c_tolower d) \<longleftrightarrow> chr_code c = chr_code d"
    using assms unfolding chr_code_tolower c_isupper_def c_islower_def by auto
  then show ?thesis by (simp only: chr_code_eq)
qed

lemma tolower_map_inj:
  "no_lower a \<Longrightarrow> no_lower b \<Longrightarrow> map c_tolower a = map c_tolower b \<longleftrightarrow> a = b"
proof (induction a arbitrary: b)
  case (Cons x a)
  then show ?case by (cases b) (auto simp: no_lower_def tolower_inj)
qed (auto simp: no_lower_def)

lemma no_lower_take: "no_lower s \<Longrightarrow> no_lower (take n s)"
  by (auto simp: no_lower_def list_all_iff dest: in_set_takeD)

lemma strn_ieq_upper: "no_lower a \<Longrightarrow> no_lower b \<Longrightarrow> strn_ieq n a b \<longleftrightarrow> take n a = take n b"
  by (simp add: strn_ieq_def tolower_map_inj no_lower_take)

lemma str_ieq_upper: "no_lower a \<Longrightarrow> no_lower b \<Longrightarrow> str_ieq a b \<longleftrightarrow> a = b"
  by (simp add: str_ieq_def tolower_map_inj)

lemma names_upper: "list_all (\<lambda>r. no_lower (r ! 1)) config_params"
  by code_simp

lemma find_cong_set: "(\<And>x. x \<in> set xs \<Longrightarrow> P x = Q x) \<Longrightarrow> find P xs = find Q xs"
  by (induction xs) auto

lemma find_validating:
  "no_lower key \<Longrightarrow> find (\<lambda>row. strn_ieq 9 key (row ! 1)) config_params =
     find (\<lambda>row. take 9 key = take 9 (row ! 1)) config_params"
  using names_upper by (intro find_cong_set) (simp add: list_all_iff strn_ieq_upper)

lemma find_exact:
  "no_lower key \<Longrightarrow> find (\<lambda>row. str_ieq key (row ! 1)) config_params =
     find (\<lambda>row. key = row ! 1) config_params"
  using names_upper by (intro find_cong_set) (simp add: list_all_iff str_ieq_upper)

text \<open>The rows whose first nine characters an earlier row has.\<close>

fun repeats :: "string list \<Rightarrow> string list list \<Rightarrow> string list list" where
  "repeats seen [] = []"
| "repeats seen (r # rs) =
     (if take 9 (r ! 1) \<in> set seen then r # repeats seen rs else repeats (take 9 (r ! 1) # seen) rs)"

lemma repeats_seen: "r \<in> set rs \<Longrightarrow> take 9 (r ! 1) \<in> set seen \<Longrightarrow> r \<in> set (repeats seen rs)"
  by (induction seen rs rule: repeats.induct) auto

lemma find_not_repeated:
  "r \<in> set rs \<Longrightarrow> r \<notin> set (repeats seen rs) \<Longrightarrow> take 9 (r ! 1) \<notin> set seen \<Longrightarrow>
     find (\<lambda>row. take 9 (r ! 1) = take 9 (row ! 1)) rs = Some r"
proof (induction rs arbitrary: seen)
  case (Cons x rs)
  then show ?case
    using repeats_seen [of r rs "take 9 (x ! 1) # seen"] by (cases "x = r") (auto split: if_splits)
qed simp

lemma repeated_rows:
  "list_all (\<lambda>r. case find (\<lambda>row. take 9 (r ! 1) = take 9 (row ! 1)) config_params of
       None \<Rightarrow> False
     | Some r' \<Rightarrow>
         if r ! 1 \<in> set shadowed_params
         then r' ! 0 = r ! 0 \<and> check_value r ''1'' \<and> \<not> check_value r' ''1''
         else same_check r r') (repeats [] config_params)"
  by code_simp

lemma shadowed_repeated:
  "filter (\<lambda>r. r ! 1 \<in> set shadowed_params) config_params =
   filter (\<lambda>r. r ! 1 \<in> set shadowed_params) (repeats [] config_params)"
  by code_simp

lemma same_check_value: "same_check r r' \<Longrightarrow> check_value r' v = check_value r v"
proof -
  have ne: "\<not> str_ieq ''bool'' ''string''" "\<not> str_ieq ''int'' ''string''" "str_ieq ''string'' ''string''"
    "str_ieq ''bool'' ''bool''" by code_simp+
  show "same_check r r' \<Longrightarrow> ?thesis"
    by (elim same_check_def [THEN iffD1, THEN disjE]) (auto simp: check_value_def ne)
qed

lemma validating_row:
  assumes "r \<in> set config_params"
  obtains r' where "find (\<lambda>row. take 9 (r ! 1) = take 9 (row ! 1)) config_params = Some r'"
    "if r ! 1 \<in> set shadowed_params
     then r' ! 0 = r ! 0 \<and> check_value r ''1'' \<and> \<not> check_value r' ''1'' else same_check r r'"
proof (cases "r \<in> set (repeats [] config_params)")
  case True
  then show thesis using repeated_rows that by (fastforce simp: list_all_iff split: option.splits)
next
  case False
  have "r \<notin> set (filter (\<lambda>r. r ! 1 \<in> set shadowed_params) config_params)"
    unfolding shadowed_repeated using False by simp
  then have "r ! 1 \<notin> set shadowed_params" using assms by simp
  then show thesis
    using find_not_repeated [OF assms False] that by (simp add: same_check_def)
qed

lemma validate_table_param:
  assumes "r \<in> set config_params"
    "find (\<lambda>row. take 9 (r ! 1) = take 9 (row ! 1)) config_params = Some r'"
  shows "validate_param f (r ! 1) v = Some (str_ieq f (r' ! 0) \<and> check_value r' v)"
proof -
  have "no_lower (r ! 1)" using names_upper assms(1) by (simp add: list_all_iff)
  note found = find_validating [OF this, unfolded assms(2)]
  show ?thesis unfolding validate_param_def find_row_def take_config_params found by simp
qed

lemma validate_own:
  assumes "r \<in> set config_params" "r ! 1 \<notin> set shadowed_params"
  shows "validate_param f (r ! 1) v = Some (str_ieq f (r ! 0) \<and> check_value r v)"
proof -
  obtain r' where r': "find (\<lambda>row. take 9 (r ! 1) = take 9 (row ! 1)) config_params = Some r'"
    "if r ! 1 \<in> set shadowed_params
     then r' ! 0 = r ! 0 \<and> check_value r ''1'' \<and> \<not> check_value r' ''1'' else same_check r r'"
    using validating_row [OF assms(1)] .
  then have "same_check r r'" using assms(2) by simp
  then have "r' ! 0 = r ! 0" "check_value r' v = check_value r v"
    by (auto simp: same_check_def same_check_value)
  then show ?thesis using validate_table_param [OF assms(1) r'(1)] by simp
qed

text \<open>
  A parameter of the table is checked against the kind and the limits of its own row, for every
  value, exactly when it is not one of three: the check compares nine characters of the name only,
  so the noise level of the sound is checked as the audio format, and the two periods of the time
  lapse as its switch.
\<close>

theorem parameters_are_checked_by_their_own_row:
  assumes "r \<in> set config_params"
  shows "(\<forall>v. validate_param (r ! 0) (r ! 1) v = Some (check_value r v)) \<longleftrightarrow>
    r ! 1 \<notin> {''RTSP_AUDIO_NR_LEVEL'', ''TIMELAPSE_DT'', ''TIMELAPSE_VDT''}"
proof -
  obtain r' where r': "find (\<lambda>row. take 9 (r ! 1) = take 9 (row ! 1)) config_params = Some r'"
    "if r ! 1 \<in> set shadowed_params
     then r' ! 0 = r ! 0 \<and> check_value r ''1'' \<and> \<not> check_value r' ''1'' else same_check r r'"
    using validating_row [OF assms] .
  have S: "set shadowed_params = {''RTSP_AUDIO_NR_LEVEL'', ''TIMELAPSE_DT'', ''TIMELAPSE_VDT''}"
    by (simp add: shadowed_params_def)
  show ?thesis
  proof (cases "r ! 1 \<in> set shadowed_params")
    case True
    then have "\<exists>v. validate_param (r ! 0) (r ! 1) v \<noteq> Some (check_value r v)"
      using r'(2) validate_table_param [OF assms r'(1), of "r ! 0" "''1''"] by (intro exI [of _ "''1''"]) simp
    then show ?thesis using True unfolding S by blast
  next
    case False
    then show ?thesis using validate_own [OF assms False] unfolding S by simp
  qed
qed

lemma parameters_are_checked_by_their_own_row_witness:
  "validate_param ''system'' ''HTTPD'' ''yes'' = Some True \<and>
   \<not> (\<forall>v. validate_param ''system'' ''TIMELAPSE_DT'' v =
     Some (check_value [''system'', ''TIMELAPSE_DT'', ''int'', ''1'', ''1440'', [], [], [], []] v))"
proof -
  let ?a = "[''system'', ''HTTPD'', ''bool'', [], [], [], [], [], []]"
  let ?b = "[''system'', ''TIMELAPSE_DT'', ''int'', ''1'', ''1440'', [], [], [], []]"
  have "?a \<in> set config_params" "?b \<in> set config_params" unfolding config_params_def by simp_all
  moreover have "check_value ?a ''yes''" by code_simp
  ultimately show ?thesis
    using parameters_are_checked_by_their_own_row [of ?a] parameters_are_checked_by_their_own_row [of ?b]
    by simp
qed

section \<open>Commands\<close>

lemma names_distinct: "distinct (map (\<lambda>r. r ! 1) config_params)"
  by code_simp

lemma action_rows:
  "list_all (\<lambda>r. r ! 8 = [] \<or> (2 \<le> length (r ! 8) \<and> r ! 1 \<notin> set shadowed_params)) config_params"
  by code_simp

lemma find_by_name:
  "distinct (map (\<lambda>r. r ! 1) rs) \<Longrightarrow> r \<in> set rs \<Longrightarrow> find (\<lambda>row. r ! 1 = row ! 1) rs = Some r"
proof (induction rs)
  case (Cons x rs)
  show ?case
  proof (cases "x = r")
    case False
    then have "r \<in> set rs" using Cons.prems(2) by simp
    then have "r ! 1 \<in> (\<lambda>r. r ! 1) ` set rs" by (rule imageI)
    moreover have "x ! 1 \<notin> (\<lambda>r. r ! 1) ` set rs" using Cons.prems(1) by simp
    ultimately have "r ! 1 \<noteq> x ! 1" by metis
    then show ?thesis using Cons.IH Cons.prems(1) \<open>r \<in> set rs\<close> by simp
  qed simp
qed simp

lemma extract_own:
  assumes "r \<in> set config_params"
  shows "extract_param f (r ! 1) index = Some (if str_ieq f (r ! 0) then Some (r ! index) else None)"
proof -
  have "no_lower (r ! 1)" using names_upper assms by (simp add: list_all_iff)
  note found = find_exact [OF this, unfolded find_by_name [OF names_distinct assms]]
  show ?thesis unfolding extract_param_def find_row_def take_config_params found by simp
qed

lemma extract_cases:
  assumes "no_lower key" "extract_param f key index = Some (Some x)"
  shows "\<exists>r\<in>set config_params. r ! 1 = key \<and> str_ieq f (r ! 0) \<and> x = r ! index"
proof (cases "find (\<lambda>row. key = row ! 1) config_params")
  case None
  then show ?thesis
    using assms(2) unfolding extract_param_def find_row_def take_config_params find_exact [OF assms(1)]
    by (simp split: if_splits)
next
  case (Some r)
  then have "r \<in> set config_params" "r ! 1 = key" by (auto simp: find_Some_iff)
  then show ?thesis
    using assms(2) Some unfolding extract_param_def find_row_def take_config_params find_exact [OF assms(1)]
    by (auto split: if_splits)
qed

lemma validate_unknown:
  assumes "no_lower key" "\<forall>r\<in>set config_params. take 9 key \<noteq> take 9 (r ! 1)"
  shows "validate_param f key v = None"
proof -
  have "find (\<lambda>row. take 9 key = take 9 (row ! 1)) config_params = None"
    using assms(2) by (auto simp: find_None_iff)
  note found = find_validating [OF assms(1), unfolded this]
  show ?thesis unfolding validate_param_def find_row_def take_config_params found
    by (simp add: config_params_length param_num_def)
qed

lemma no_lower_upper: "no_lower (map c_toupper s)"
proof -
  have "\<not> c_islower (c_toupper c)" for c
    unfolding c_islower_def chr_code_toupper by auto
  then show ?thesis by (simp add: no_lower_def list_all_iff)
qed

end
