(* ===== verification/Conf_File.thy ===== *)
theory Conf_File
  imports Text_Lines
begin

text \<open>
  \<open>src/mqtt-config/mqtt-config/config.c\<close>: reading the pairs of a configuration file and replacing a
  value in it.  A file is its text, without NUL characters; \<open>None\<close> is a file that does not open.  A
  conversion into a buffer that is too small is undefined, and the result is then \<open>None\<close>.
\<close>

section \<open>Operations\<close>

definition max_line_length :: nat where "max_line_length = 512"
definition max_key_length :: nat where "max_key_length = 128"
definition max_value_length :: nat where "max_value_length = 128"

definition ucase :: "string \<Rightarrow> string" where "ucase s = map c_toupper s"
definition lcase :: "string \<Rightarrow> string" where "lcase s = map c_tolower s"

text \<open>
  \<open>sscanf(buf, "%[^=] = %s", key, value)\<close> with buffers of 128 bytes: \<open>None\<close> when one overflows,
  \<open>Some None\<close> when fewer than two conversions succeed.
\<close>

definition scan_pair :: "string \<Rightarrow> (string \<times> string) option option" where
  "scan_pair buf =
     (let k = takeWhile (\<lambda>c. c \<noteq> CHR ''='') buf; r = dropWhile (\<lambda>c. c \<noteq> CHR ''='') buf;
          v = takeWhile (\<lambda>c. \<not> c_isspace c) (skip_space (drop 1 r))
      in if k = [] then Some None
         else if max_key_length \<le> length k then None
         else if r = [] \<or> v = [] then Some None
         else if max_value_length \<le> length v then None
         else Some (Some (k, v)))"

definition comment_line :: "string \<Rightarrow> bool" where
  "comment_line buf \<longleftrightarrow> take 1 buf = ''#''"

text \<open>The pairs that the handler is called with, in order.\<close>

fun parse_lines :: "string list \<Rightarrow> (string \<times> string) list option" where
  "parse_lines [] = Some []"
| "parse_lines (buf # ls) =
     (if comment_line buf then parse_lines ls
      else case scan_pair buf of
        None \<Rightarrow> None
      | Some None \<Rightarrow> parse_lines ls
      | Some (Some p) \<Rightarrow> map_option (Cons p) (parse_lines ls))"

definition config_parse :: "string \<Rightarrow> (string \<times> string) list option" where
  "config_parse text = parse_lines (fgets_all (max_line_length - 2) text)"

definition open_conf_file :: "(string \<Rightarrow> string option) \<Rightarrow> string \<Rightarrow> string option" where
  "open_conf_file files path = files path"

definition replace_line :: "string \<Rightarrow> string \<Rightarrow> string \<Rightarrow> string option" where
  "replace_line k v buf =
     (if comment_line buf then Some buf
      else case scan_pair buf of
        None \<Rightarrow> None
      | Some None \<Rightarrow> Some buf
      | Some (Some (k', _)) \<Rightarrow>
          if str_ieq k k' then
            (if max_line_length \<le> length (k @ ''='' @ v @ [newline]) then None
             else Some (k @ ''='' @ v @ [newline]))
          else Some buf)"

fun replace_lines :: "string \<Rightarrow> string \<Rightarrow> string list \<Rightarrow> string option" where
  "replace_lines k v [] = Some []"
| "replace_lines k v (buf # ls) =
     (case (replace_line k v buf, replace_lines k v ls) of
        (Some a, Some b) \<Rightarrow> Some (a @ b)
      | _ \<Rightarrow> None)"

text \<open>Whether the temporary file opens for writing, the file for writing, and the temporary for reading.\<close>

record replace_env =
  re_tmp :: bool
  re_rewrite :: bool
  re_reread :: bool

text \<open>
  The file is rewritten from the temporary one: its text is lost when that does not open again.
  The result is the files after the call, or \<open>None\<close>.
\<close>

definition config_replace ::
  "replace_env \<Rightarrow> string \<Rightarrow> string \<Rightarrow> string \<Rightarrow> (string \<Rightarrow> string option) \<Rightarrow> (string \<Rightarrow> string option) option" where
  "config_replace e path k v files =
     (let path' = lcase path; k' = ucase k
      in case files path' of
           None \<Rightarrow> Some files
         | Some text \<Rightarrow>
             if \<not> re_tmp e then Some files
             else case replace_lines k' v (fgets_all (max_line_length - 2) text) of
               None \<Rightarrow> None
             | Some text' \<Rightarrow>
                 if \<not> re_rewrite e then Some files
                 else if \<not> re_reread e then Some (files(path' := Some []))
                 else Some (files(path' := Some (concat (fgets_all (max_line_length - 2) text')))))"

section \<open>Replacing and reading back\<close>

lemma concat_fgets_all [simp]: "concat (fgets_all n s) = s"
proof (induction n s rule: fgets_all.induct)
  case (2 n c cs)
  have "first_line (c # cs) = take (length (first_line (c # cs))) (c # cs)" for c cs
    by (induction cs arbitrary: c) auto
  then have "take (n + 1) (first_line (c # cs)) = take (min (n + 1) (length (first_line (c # cs)))) (c # cs)"
    by (metis min.commute take_take)
  then have "take (n + 1) (first_line (c # cs)) @
      drop (length (take (n + 1) (first_line (c # cs)))) (c # cs) = c # cs"
    by (metis append_eq_conv_conj append_take_drop_id)
  then show ?case using 2 by (simp only: fgets_all.simps Let_def concat.simps)
qed simp

lemma ucase_ieq: "str_ieq (ucase k) k' \<longleftrightarrow> str_ieq k k'"
  by (simp add: str_ieq_def ucase_def comp_def)

text \<open>Values that the reader gives back: not empty, without white space and not too long.\<close>

definition key_ok :: "string \<Rightarrow> bool" where
  "key_ok k \<longleftrightarrow> k \<noteq> [] \<and> length k < max_key_length \<and> CHR ''='' \<notin> set k \<and> newline \<notin> set k \<and> hd k \<noteq> CHR ''#''"

definition value_ok :: "string \<Rightarrow> bool" where
  "value_ok v \<longleftrightarrow> v \<noteq> [] \<and> length v < max_value_length \<and> (\<forall>c\<in>set v. \<not> c_isspace c)"

lemma scan_pair_line:
  assumes "key_ok k" "value_ok v"
  shows "scan_pair (k @ ''='' @ v @ [newline]) = Some (Some (k, v))" "\<not> comment_line (k @ s)"
proof -
  have ne: "\<forall>c\<in>set k. c \<noteq> CHR ''=''" using assms(1) by (auto simp: key_ok_def)
  then have k: "takeWhile (\<lambda>c. c \<noteq> CHR ''='') (k @ ''='' @ v @ [newline]) = k"
    "dropWhile (\<lambda>c. c \<noteq> CHR ''='') (k @ ''='' @ v @ [newline]) = ''='' @ v @ [newline]"
    by (simp_all add: takeWhile_append2 dropWhile_append2)
  obtain d ds where v: "v = d # ds" "\<not> c_isspace d" using assms(2) by (cases v) (auto simp: value_ok_def)
  have "takeWhile (\<lambda>c. \<not> c_isspace c) (skip_space (v @ [newline])) = v"
    using assms(2) v by (simp add: skip_space_def takeWhile_append2 value_ok_def)
  then show "scan_pair (k @ ''='' @ v @ [newline]) = Some (Some (k, v))"
    unfolding scan_pair_def Let_def k using assms by (simp add: key_ok_def value_ok_def)
  show "\<not> comment_line (k @ s)" using assms(1) by (cases k) (auto simp: comment_line_def key_ok_def)
qed

definition replace_pair :: "string \<Rightarrow> string \<Rightarrow> string \<times> string \<Rightarrow> string \<times> string" where
  "replace_pair k v p = (if str_ieq k (fst p) then (k, v) else p)"

lemma parse_lines_append:
  "parse_lines (a @ b) =
     Option.bind (parse_lines a) (\<lambda>x. map_option (\<lambda>y. x @ y) (parse_lines b))"
proof (induction a)
  case Nil
  show ?case by (cases "parse_lines b") simp_all
next
  case (Cons l a)
  then show ?case by (cases "parse_lines a"; cases "parse_lines b") (simp_all split: option.split)
qed

text \<open>One line: what replaces it is a line again, and its pair is the replaced pair.\<close>

lemma replaced_line:
  assumes "newline \<notin> set l" "length l \<le> 510" "parse_lines [l @ [newline]] = Some ps"
    "key_ok k" "value_ok v"
  shows "\<exists>l'. replace_line k v (l @ [newline]) = Some (l' @ [newline]) \<and> newline \<notin> set l' \<and>
    length l' \<le> 510 \<and> parse_lines [l' @ [newline]] = Some (map (replace_pair k v) ps)"
proof (cases "comment_line (l @ [newline])")
  case True
  then show ?thesis using assms by (intro exI [of _ l]) (simp add: replace_line_def)
next
  case False
  show ?thesis
  proof (cases "scan_pair (l @ [newline])")
    case None
    then show ?thesis using assms(3) False by simp
  next
    case (Some r)
    show ?thesis
    proof (cases r)
      case None
      then show ?thesis using assms Some False by (intro exI [of _ l]) (simp add: replace_line_def)
    next
      case (Some p)
      obtain k' w where p: "p = (k', w)" by fastforce
      note s = \<open>scan_pair (l @ [newline]) = Some r\<close> [unfolded Some p]
      show ?thesis
      proof (cases "str_ieq k k'")
        case True
        let ?l = "k @ ''='' @ v"
        have len: "length k < 128" "length v < 128" "newline \<notin> set k" "newline \<notin> set v"
          using assms(4,5) newline_space(1)
          by (auto simp: key_ok_def value_ok_def max_key_length_def max_value_length_def)
        have nc: "\<not> comment_line (?l @ [newline])"
          using scan_pair_line(2) [OF assms(4,5), of "''='' @ v @ [newline]"] by simp
        have "replace_line k v (l @ [newline]) = Some (?l @ [newline])"
          using False s True len by (simp add: replace_line_def max_line_length_def)
        moreover have "parse_lines [?l @ [newline]] = Some (map (replace_pair k v) ps)"
          using scan_pair_line(1) [OF assms(4,5)] nc s False assms(3) True by (auto simp: replace_pair_def)
        moreover have "newline \<noteq> CHR ''=''" by (simp add: newline_def)
        ultimately show ?thesis using len by (intro exI [of _ ?l]) auto
      next
        case False
        then show ?thesis using assms s \<open>\<not> comment_line _\<close>
          by (intro exI [of _ l]) (auto simp: replace_line_def replace_pair_def)
      qed
    qed
  qed
qed

lemma replaced_lines:
  assumes "\<forall>l\<in>set ls. newline \<notin> set l \<and> length l \<le> 510"
    "parse_lines (map (\<lambda>l. l @ [newline]) ls) = Some ps" "key_ok k" "value_ok v"
  shows "\<exists>ls'. replace_lines k v (map (\<lambda>l. l @ [newline]) ls) = Some (text_of_lines ls') \<and>
    (\<forall>l\<in>set ls'. newline \<notin> set l \<and> length l \<le> 510) \<and>
    parse_lines (map (\<lambda>l. l @ [newline]) ls') = Some (map (replace_pair k v) ps)"
  using assms(1,2)
proof (induction ls arbitrary: ps)
  case Nil
  then show ?case by (intro exI [of _ "[]"]) (simp add: text_of_lines_def)
next
  case (Cons l ls)
  let ?nl = "map (\<lambda>l. l @ [newline])"
  have ap: "parse_lines (l # b) = Option.bind (parse_lines [l]) (\<lambda>x. map_option (\<lambda>y. x @ y) (parse_lines b))"
    for l b using parse_lines_append [of "[l]" b] by simp
  obtain p1 p2 where p: "parse_lines [l @ [newline]] = Some p1" "parse_lines (?nl ls) = Some p2" "ps = p1 @ p2"
    using Cons.prems(2) ap [of "l @ [newline]" "?nl ls"] by (auto simp del: parse_lines.simps simp: bind_eq_Some_conv)
  obtain l' where l': "replace_line k v (l @ [newline]) = Some (l' @ [newline])" "newline \<notin> set l'"
    "length l' \<le> 510" "parse_lines [l' @ [newline]] = Some (map (replace_pair k v) p1)"
    using replaced_line [OF _ _ p(1) assms(3,4)] Cons.prems(1) by auto
  obtain ls' where ls': "replace_lines k v (?nl ls) = Some (text_of_lines ls')"
    "\<forall>l\<in>set ls'. newline \<notin> set l \<and> length l \<le> 510"
    "parse_lines (?nl ls') = Some (map (replace_pair k v) p2)"
    using Cons.IH [OF _ p(2)] Cons.prems(1) by auto
  have "parse_lines (?nl (l' # ls')) = Some (map (replace_pair k v) ps)"
    using ap [of "l' @ [newline]" "?nl ls'"] l'(4) ls'(3) p(3) by (simp del: parse_lines.simps)
  then show ?case using l' ls'
    by (intro exI [of _ "l' # ls'"]) (simp add: text_of_lines_def)
qed



end
