(* ===== verification/Mqtt_Config.thy ===== *)
theory Mqtt_Config
  imports Mqtt_Validate Conf_File "HOL-Library.Word"
begin

text \<open>
  \<open>src/mqtt-config/mqtt-config/mqtt-config.c\<close> and \<open>mqtt_wolf.c\<close>: the configuration of the MQTT
  client, the callback that turns a message into a command or a changed configuration file, and the
  connection to the broker.  The answers of the MQTT library are arguments.
\<close>

section \<open>Configuration\<close>

record mqtt_conf =
  mq_user :: "string option"
  mq_password :: "string option"
  mq_host :: string
  mq_bind_address :: string
  mq_port :: int
  mq_tls :: int
  mq_keepalive :: int
  mq_qos :: int
  mq_client_id :: "string option"
  mq_prefix :: "string option"   \<comment> \<open>\<open>mqtt_prefix_cmnd\<close>\<close>

text \<open>A number is taken unless it is out of range.\<close>

definition number_or :: "int \<Rightarrow> string \<Rightarrow> int" where
  "number_or old v = (case strtol10 v of (n, _, range_error) \<Rightarrow> if range_error then old else n)"

definition handle_config :: "string \<Rightarrow> string \<Rightarrow> mqtt_conf \<Rightarrow> mqtt_conf" where
  "handle_config key v c =
     (if key = ''MQTT_IP'' then (if length v < 128 then c\<lparr>mq_host := v\<rparr> else c)
      else if key = ''MQTT_CLIENT_ID'' then c\<lparr>mq_client_id := Some (v @ ''_c'')\<rparr>
      else if key = ''MQTT_PREFIX'' then c\<lparr>mq_prefix := Some (v @ ''/cmnd/#'')\<rparr>
      else if key = ''MQTT_USER'' then c\<lparr>mq_user := Some v\<rparr>
      else if key = ''MQTT_PASSWORD'' then c\<lparr>mq_password := Some v\<rparr>
      else if key = ''MQTT_PORT'' then c\<lparr>mq_port := number_or (mq_port c) v\<rparr>
      else if key = ''MQTT_TLS'' then c\<lparr>mq_tls := number_or (mq_tls c) v\<rparr>
      else if key = ''MQTT_KEEPALIVE'' then c\<lparr>mq_keepalive := number_or (mq_keepalive c) v\<rparr>
      else if key = ''MQTT_QOS'' then c\<lparr>mq_qos := number_or (mq_qos c) v\<rparr>
      else c)"

definition default_mqtt_conf :: mqtt_conf where
  "default_mqtt_conf = \<lparr>mq_user = None, mq_password = None, mq_host = ''127.0.0.1'',
     mq_bind_address = ''0.0.0.0'', mq_port = 1883, mq_tls = 0, mq_keepalive = 120, mq_qos = 1,
     mq_client_id = None, mq_prefix = None\<rparr>"

definition mqtt_conf_file :: string where "mqtt_conf_file = ''/tmp/sd/yi-hack/etc/mqttv4.conf''"
definition conf_file_path :: string where "conf_file_path = ''/tmp/sd/yi-hack/etc''"
definition conf2mqtt_script :: string where "conf2mqtt_script = ''/tmp/sd/yi-hack/script/conf2mqtt.sh''"

text \<open>The return value and the configuration; \<open>None\<close> when a line of the file overflows a buffer.\<close>

definition mqtt_init_conf :: "(string \<Rightarrow> string option) \<Rightarrow> (int \<times> mqtt_conf) option" where
  "mqtt_init_conf files =
     (case open_conf_file files mqtt_conf_file of
        None \<Rightarrow> Some (-1, default_mqtt_conf)
      | Some text \<Rightarrow>
          map_option (\<lambda>ps. (0, fold (\<lambda>(k, v). handle_config k v) ps default_mqtt_conf))
            (config_parse text))"

section \<open>Messages\<close>

text \<open>
  A message: whether it is new and complete, its topic, and its payload (\<open>None\<close>: no buffer).  The
  library delivers a complete message with its whole payload in the buffer.
\<close>

record mqtt_message =
  msg_whole :: bool
  msg_topic :: string
  msg_payload :: "string option"

datatype mqtt_code = Code_success | Code_bad_arg | Code_failed

datatype mqtt_effect =
    Run_command string
  | Replace_config string string string   \<comment> \<open>path, key and value\<close>

text \<open>Why a call has no defined result.\<close>

datatype mqtt_fault = Topic_overflow | No_prefix | File_overflow | Null_row | Command_overflow

type_synonym callback_result = "mqtt_fault + (mqtt_code \<times> mqtt_effect list)"

text \<open>The parameter's value is checked and applied.  \<open>ipc_cmd_param\<close> holds two bytes.\<close>

definition apply_param :: "string \<Rightarrow> string \<Rightarrow> string \<Rightarrow> callback_result" where
  "apply_param file_name param v =
     (case validate_param file_name param v of
        None \<Rightarrow> Inl Null_row
      | Some False \<Rightarrow> Inr (Code_success, [])
      | Some True \<Rightarrow>
          (case extract_param file_name param 8 of
             None \<Rightarrow> Inl Null_row
           | Some None \<Rightarrow> Inr (Code_success, [])
           | Some (Some cmd) \<Rightarrow>
               if 2 \<le> length cmd then Inl Command_overflow
               else if cmd \<noteq> [] then Inr (Code_success, [Run_command cmd])
               else Inr (Code_success,
                 [Replace_config (conf_file_path @ ''/'' @ file_name @ ''.conf'') param v])))"

text \<open>\<open>topic\<close> with a slash: the file is before it, the parameter after it.\<close>

definition set_param :: "string \<Rightarrow> string option \<Rightarrow> callback_result" where
  "set_param topic payload =
     (let file_name = takeWhile (\<lambda>c. c \<noteq> CHR ''/'') topic;
          param = drop 1 (dropWhile (\<lambda>c. c \<noteq> CHR ''/'') topic)
      in if max_key_length \<le> length file_name then Inr (Code_bad_arg, [])
         else if max_key_length \<le> length param then Inr (Code_bad_arg, [])
         else if param = [] then Inr (Code_bad_arg, [])
         else case payload of
           None \<Rightarrow> Inr (Code_bad_arg, [])
         | Some buffer \<Rightarrow>
             if buffer = [] then Inr (Code_bad_arg, [])
             else if max_value_length - 1 < length buffer then Inr (Code_bad_arg, [])
             else apply_param file_name (map c_toupper param) (takeWhile (\<lambda>c. c \<noteq> nul) buffer))"

text \<open>\<open>topic\<close> without a slash: an empty message asks for the configuration of that file.\<close>

definition dump_config :: "string \<Rightarrow> string option \<Rightarrow> callback_result" where
  "dump_config topic payload =
     (if max_key_length \<le> length topic then Inl File_overflow
      else if topic = [] then Inr (Code_failed, [])
      else if payload = None \<or> payload = Some []
      then Inr (Code_bad_arg, [Run_command (conf2mqtt_script @ '' '' @ topic)])
      else Inr (Code_bad_arg, []))"

definition mqtt_message_cb :: "string option \<Rightarrow> mqtt_message \<Rightarrow> callback_result" where
  "mqtt_message_cb prefix m =
     (if \<not> msg_whole m then Inr (Code_failed, [])
      else if max_line_length < length (msg_topic m) \<or>
        (length (msg_topic m) = max_line_length \<and> nul \<notin> set (msg_topic m)) then Inl Topic_overflow
      else case prefix of
        None \<Rightarrow> Inl No_prefix
      | Some p \<Rightarrow>
          let topic_name = takeWhile (\<lambda>c. c \<noteq> nul) (msg_topic m); len = length p - 2
          in if length p < 2 then Inl No_prefix
             else if max_line_length \<le> len then Inr (Code_failed, [])
             else if \<not> strn_ieq len (take len p) topic_name then Inr (Code_failed, [])
             else if length topic_name < len + 2 then Inr (Code_failed, [])
             else if CHR ''/'' \<notin> set topic_name then Inr (Code_failed, [])
             else
               let topic = drop (len + 1) topic_name
               in if CHR ''/'' \<in> set topic then set_param topic (msg_payload m)
                  else dump_config topic (msg_payload m))"

section \<open>The connection to the broker\<close>

datatype conn_states = CONN_DISCONNECTED | CONN_CONNECTING | CONN_CONNECTED

text \<open>The calls of the library that change the broker's view.\<close>

datatype lib_call = Net_connect | Connect | Subscribe "16 word" | Unsubscribe "16 word" | Disconnect
  | Net_disconnect | Ping | De_init

record mqtt_link =
  lk_state :: conn_states
  lk_packet_id :: "16 word"
  lk_last_ping :: int

text \<open>One pass of the connecting loop: whether the process still runs, and the library's answers.\<close>

record connect_attempt =
  at_run :: bool
  at_net :: bool
  at_connect :: bool
  at_subscribe :: bool

text \<open>\<open>None\<close>: the loop has not ended after these attempts.  \<open>Some False\<close>: told to stop.\<close>

fun connect_loop :: "16 word \<Rightarrow> connect_attempt list \<Rightarrow> bool option \<times> lib_call list" where
  "connect_loop i [] = (None, [])"
| "connect_loop i (a # as) =
     (if \<not> at_run a then (Some False, [])
      else
        let (r, l) = connect_loop i as
        in if \<not> at_net a then (r, Net_connect # l)
           else if \<not> at_connect a then (r, Net_connect # Connect # l)
           else if \<not> at_subscribe a then (r, Net_connect # Connect # Subscribe i # l)
           else (Some True, [Net_connect, Connect, Subscribe i]))"

definition mqtt_connect ::
  "connect_attempt list \<Rightarrow> int \<Rightarrow> mqtt_link \<Rightarrow> (bool \<times> mqtt_link) option \<times> lib_call list" where
  "mqtt_connect as now k =
     (let i = lk_packet_id k + 1; k1 = k\<lparr>lk_packet_id := i, lk_state := CONN_DISCONNECTED\<rparr>;
          (r, l) = connect_loop i as
      in (case r of
            None \<Rightarrow> None
          | Some False \<Rightarrow> Some (False, k1)
          | Some True \<Rightarrow> Some (True, k1\<lparr>lk_state := CONN_CONNECTED, lk_last_ping := now\<rparr>), l))"

text \<open>The link is given up and built again.\<close>

definition mqtt_reconnect ::
  "connect_attempt list \<Rightarrow> int \<Rightarrow> mqtt_link \<Rightarrow> (bool \<times> mqtt_link) option \<times> lib_call list" where
  "mqtt_reconnect as now k =
     (let i = lk_packet_id k + 1;
          (r, l) = mqtt_connect as now (k\<lparr>lk_state := CONN_DISCONNECTED, lk_packet_id := i\<rparr>)
      in (r, Unsubscribe i # Disconnect # Net_disconnect # l))"

datatype wait_result = Wait_message | Wait_timeout | Wait_error

record loop_env =
  lo_wait :: wait_result
  lo_run :: bool
  lo_attempts :: "connect_attempt list"
  lo_connected_at :: int
  lo_now :: int
  lo_ping_at :: int
  lo_ping_ok :: bool
  lo_ping_attempts :: "connect_attempt list"
  lo_ping_connected_at :: int

definition ping_interval :: "mqtt_conf \<Rightarrow> int" where
  "ping_interval c =
     (let i = (if 0 \<le> mq_keepalive c then mq_keepalive c div 2 else - ((- mq_keepalive c) div 2));
          j = (if i > 30 then 30 else i)
      in if j < 1 then 1 else j)"

definition mqtt_ping :: "mqtt_conf \<Rightarrow> loop_env \<Rightarrow> mqtt_link \<Rightarrow> mqtt_link option \<times> lib_call list" where
  "mqtt_ping c e k =
     (if lk_state k = CONN_CONNECTED \<and> ping_interval c \<le> lo_now e - lk_last_ping k then
        let k1 = k\<lparr>lk_last_ping := lo_ping_at e\<rparr>
        in if lo_ping_ok e then (Some k1, [Ping])
           else let (r, l) = mqtt_reconnect (lo_ping_attempts e) (lo_ping_connected_at e) k1
                in (map_option snd r, Ping # l)
      else (Some k, []))"

definition mqtt_loop :: "mqtt_conf \<Rightarrow> loop_env \<Rightarrow> mqtt_link \<Rightarrow> mqtt_link option \<times> lib_call list" where
  "mqtt_loop c e k =
     (if \<not> lo_run e then (Some k, [])
      else if lo_wait e = Wait_error then
        case mqtt_reconnect (lo_attempts e) (lo_connected_at e) k of
          (None, l) \<Rightarrow> (None, l)
        | (Some (False, k1), l) \<Rightarrow> (Some k1, l)
        | (Some (True, k1), l) \<Rightarrow> let (r, l') = mqtt_ping c e k1 in (r, l @ l')
      else mqtt_ping c e k)"

definition stop_mqtt :: "mqtt_link \<Rightarrow> mqtt_link \<times> lib_call list" where
  "stop_mqtt k = (k\<lparr>lk_packet_id := lk_packet_id k + 1\<rparr>,
     [Unsubscribe (lk_packet_id k + 1), Disconnect, Net_disconnect, De_init])"

section \<open>What a message can do\<close>

lemma apply_param_effects:
  assumes "apply_param f (map c_toupper p) v = Inr (code, effs)" "e \<in> set effs"
  shows "e = Replace_config (conf_file_path @ ''/'' @ f @ ''.conf'') (map c_toupper p) v \<and>
    validate_param f (map c_toupper p) v = Some True \<and>
    (\<exists>r\<in>set config_params. r ! 1 = map c_toupper p \<and> str_ieq f (r ! 0) \<and> r ! 8 = [])"
proof -
  let ?k = "map c_toupper p"
  obtain cmd where v: "validate_param f ?k v = Some True" "extract_param f ?k 8 = Some (Some cmd)"
    using assms by (auto simp: apply_param_def split: option.splits bool.splits)
  obtain r where r: "r \<in> set config_params" "r ! 1 = ?k" "str_ieq f (r ! 0)" "cmd = r ! 8"
    using extract_cases [OF no_lower_upper v(2)] by blast
  then have "r ! 8 = []"
    using action_rows assms(1) v by (auto simp: list_all_iff apply_param_def split: if_splits)
  then show ?thesis using assms v r by (auto simp: apply_param_def)
qed

text \<open>
  A message of the broker, when handled without a fault, has one of two effects at most: an
  empty message for a file runs the script that prints that file, whose name is the rest of the
  topic; and a message for a parameter changes that parameter, under its name in the table, in the
  file of its row, to a value that passed the check, is shorter than 128 bytes and has no NUL.  No
  command of the table is ever run.
\<close>

theorem message_effects:
  assumes "mqtt_message_cb prefix m = Inr (code, effs)" "e \<in> set effs"
  shows "(\<exists>f. e = Run_command (conf2mqtt_script @ '' '' @ f) \<and> CHR ''/'' \<notin> set f \<and> length f < 128 \<and>
        msg_payload m \<in> {None, Some []}) \<or>
    (\<exists>f k v. e = Replace_config (conf_file_path @ ''/'' @ f @ ''.conf'') k v \<and>
        validate_param f k v = Some True \<and> length v < 128 \<and> nul \<notin> set v \<and>
        (\<exists>r\<in>set config_params. r ! 1 = k \<and> str_ieq f (r ! 0) \<and> r ! 8 = []))"
proof -
  from assms obtain topic where "set_param topic (msg_payload m) = Inr (code, effs) \<or>
      (CHR ''/'' \<notin> set topic \<and> dump_config topic (msg_payload m) = Inr (code, effs))"
    by (auto simp: mqtt_message_cb_def Let_def split: option.splits if_splits)
  then show ?thesis
  proof
    assume "CHR ''/'' \<notin> set topic \<and> dump_config topic (msg_payload m) = Inr (code, effs)"
    then show ?thesis using assms(2)
      by (intro disjI1) (auto simp: dump_config_def max_key_length_def split: if_splits)
  next
    assume s: "set_param topic (msg_payload m) = Inr (code, effs)"
    let ?f = "takeWhile (\<lambda>c. c \<noteq> CHR ''/'') topic"
    obtain b p where b: "\<not> 127 < length b" "apply_param ?f (map c_toupper p) (takeWhile (\<lambda>c. c \<noteq> nul) b) = Inr (code, effs)"
      using s assms(2) by (auto simp: set_param_def Let_def max_value_length_def split: option.splits if_splits)
    have "nul \<notin> set (takeWhile (\<lambda>c. c \<noteq> nul) b)" by (auto dest: set_takeWhileD)
    moreover have "length (takeWhile (\<lambda>c. c \<noteq> nul) b) < 128"
      using b(1) length_takeWhile_le [of "\<lambda>c. c \<noteq> nul" b] by linarith
    ultimately show ?thesis using apply_param_effects [OF b(2) assms(2)] by blast
  qed
qed

text \<open>The way of a message for a parameter to its check.\<close>

lemma message_to_param:
  assumes "nul \<notin> set (p @ f @ param)" "CHR ''/'' \<notin> set f"
    "length p + length f + length param < 500" "length f < 128" "param \<noteq> []" "length param < 128"
    "v \<noteq> []" "length v < 128" "nul \<notin> set v"
  shows "mqtt_message_cb (Some (p @ ''/#''))
      \<lparr>msg_whole = True, msg_topic = p @ ''/'' @ f @ ''/'' @ param, msg_payload = Some v\<rparr> =
    apply_param f (map c_toupper param) v"
proof -
  let ?t = "p @ ''/'' @ f @ ''/'' @ param"
  have slash: "nul \<noteq> CHR ''/''" by (simp add: nul_def)
  have nn: "takeWhile (\<lambda>c. c \<noteq> nul) ?t = ?t" "takeWhile (\<lambda>c. c \<noteq> nul) v = v"
    using assms(1,9) slash by (auto simp: takeWhile_eq_all_conv)
  have np: "takeWhile (\<lambda>c. c \<noteq> nul) param = param"
    using assms(1) by (auto simp: takeWhile_eq_all_conv)
  have len: "length ?t < 512" "length p < 512" "\<not> length ?t < length p + 2"
    using assms(3,5) by (auto simp: Suc_le_eq)
  have f: "takeWhile (\<lambda>c. c \<noteq> CHR ''/'') (f @ ''/'' @ param) = f"
    "dropWhile (\<lambda>c. c \<noteq> CHR ''/'') (f @ ''/'' @ param) = ''/'' @ param"
  proof -
    have "\<forall>c\<in>set f. c \<noteq> CHR ''/''" using assms(2) by blast
    then show "takeWhile (\<lambda>c. c \<noteq> CHR ''/'') (f @ ''/'' @ param) = f"
      "dropWhile (\<lambda>c. c \<noteq> CHR ''/'') (f @ ''/'' @ param) = ''/'' @ param"
      by (simp_all add: takeWhile_append2 dropWhile_append2)
  qed
  have "mqtt_message_cb (Some (p @ ''/#''))
      \<lparr>msg_whole = True, msg_topic = ?t, msg_payload = Some v\<rparr> = set_param (f @ ''/'' @ param) (Some v)"
    using len by (simp add: mqtt_message_cb_def max_line_length_def Let_def nn(1) [simplified] np strn_ieq_def)
  also have "\<dots> = apply_param f (map c_toupper param) v"
    using assms(4-8) unfolding set_param_def Let_def f
    by (simp add: nn(2) max_key_length_def max_value_length_def)
  finally show ?thesis .
qed

text \<open>
  C23. Two kinds of messages bring the client down. A message for a parameter that is not in the
  table, not even by its first nine characters, makes the search read the row of null pointers
  that the table has at its end. And a message with a correct value for a parameter that has a
  command copies the command, of two characters or more, into a buffer of two bytes: no such
  parameter can be set without the overflow.
\<close>

theorem message_faults:
  assumes "nul \<notin> set (p @ f @ param)" "CHR ''/'' \<notin> set f"
    "length p + length f + length param < 500" "length f < 128" "param \<noteq> []" "length param < 128"
    "v \<noteq> []" "length v < 128" "nul \<notin> set v"
  shows "(let result = mqtt_message_cb (Some (p @ ''/#''))
        \<lparr>msg_whole = True, msg_topic = p @ ''/'' @ f @ ''/'' @ param, msg_payload = Some v\<rparr>;
      key = map c_toupper param
    in ((\<forall>r\<in>set config_params. take 9 key \<noteq> take 9 (r ! 1)) \<longrightarrow> result = Inl Null_row) \<and>
       (\<forall>r\<in>set config_params. r ! 1 = key \<and> r ! 8 \<noteq> [] \<and> str_ieq f (r ! 0) \<and> check_value r v \<longrightarrow>
          result = Inl Command_overflow))"
proof -
  let ?k = "map c_toupper param"
  have "apply_param f ?k v = Inl Null_row" if "\<forall>r\<in>set config_params. take 9 ?k \<noteq> take 9 (r ! 1)"
    unfolding apply_param_def validate_unknown [OF no_lower_upper that] by simp
  moreover have "apply_param f ?k v = Inl Command_overflow"
    if r: "r \<in> set config_params" "r ! 1 = ?k" "r ! 8 \<noteq> []" "str_ieq f (r ! 0)" "check_value r v" for r
  proof -
    have a: "2 \<le> length (r ! 8)" "r ! 1 \<notin> set shadowed_params"
      using action_rows r(1,3) by (auto simp: list_all_iff)
    show ?thesis
      unfolding apply_param_def
      using validate_own [OF r(1) a(2), of f v, unfolded r(2)] extract_own [OF r(1), of f 8, unfolded r(2)] r(4,5) a(1)
      by simp
  qed
  ultimately show ?thesis unfolding message_to_param [OF assms] Let_def by blast
qed

section \<open>Witnesses\<close>

lemma message_effects_witness:
  "\<exists>e. mqtt_message_cb (Some ''cam/cmnd/#'') \<lparr>msg_whole = True, msg_topic = ''cam/cmnd/system/httpd'',
      msg_payload = Some ''no''\<rparr> = Inr (Code_success, [e]) \<and>
    e = Replace_config ''/tmp/sd/yi-hack/etc/system.conf'' ''HTTPD'' ''no''"
proof -
  let ?m = "\<lparr>msg_whole = True, msg_topic = ''cam/cmnd/system/httpd'', msg_payload = Some ''no''\<rparr>"
  have "mqtt_message_cb (Some ''cam/cmnd/#'') ?m =
      Inr (Code_success, [Replace_config ''/tmp/sd/yi-hack/etc/system.conf'' ''HTTPD'' ''no''])"
    by code_simp
  from message_effects [OF this, of "Replace_config ''/tmp/sd/yi-hack/etc/system.conf'' ''HTTPD'' ''no''"] this
  show ?thesis by simp
qed

lemma message_faults_witness:
  "mqtt_message_cb (Some (''cam'' @ ''/#'')) \<lparr>msg_whole = True,
      msg_topic = ''cam'' @ ''/'' @ ''camera'' @ ''/'' @ ''LED'', msg_payload = Some ''on''\<rparr> = Inl Command_overflow"
proof -
  let ?r = "[''camera'', ''LED'', ''bool'', [], [], [], [], [], ''ipc_cmd -l %s'']"
  have r: "?r \<in> set config_params" unfolding config_params_def by simp
  have k: "?r ! 1 = map c_toupper ''LED'' \<and> ?r ! 8 \<noteq> [] \<and> str_ieq ''camera'' (?r ! 0) \<and> check_value ?r ''on''"
    by code_simp
  have "nul \<notin> set (''cam'' @ ''camera'' @ ''LED'')" "CHR ''/'' \<notin> set ''camera''" "nul \<notin> set ''on''"
    by code_simp+
  from message_faults [OF this(1,2) _ _ _ _ _ _ this(3), unfolded Let_def] r k
  show ?thesis by (elim meta_impE conjE) (simp, simp, simp, simp, simp, simp, blast)
qed

end
