(* ===== verification/Mp4_Boxes.thy ===== *)
theory Mp4_Boxes
  imports Prelude
begin

text \<open>
  The container side of \<open>src/ipc_cmd/ipc_cmd/record_metadata.c\<close>: big-endian numbers, reading and
  writing a file at an offset, the search for the movie atom, and the building of nested boxes in a
  buffer.  A file is its bytes.
\<close>

section \<open>Big-endian numbers\<close>

definition be32 :: "byte list \<Rightarrow> u32" where
  "be32 p = push_bit 24 (ucast (p ! 0)) OR push_bit 16 (ucast (p ! 1)) OR
     push_bit 8 (ucast (p ! 2)) OR ucast (p ! 3)"

definition be64 :: "byte list \<Rightarrow> u64" where
  "be64 p = push_bit 32 (ucast (be32 p)) OR ucast (be32 (drop 4 p))"

definition store32 :: "u32 \<Rightarrow> byte list" where
  "store32 v = [ucast (drop_bit 24 v), ucast (drop_bit 16 v), ucast (drop_bit 8 v), ucast v]"

lemma store32_length [simp]: "length (store32 v) = 4"
  by (simp add: store32_def)

lemma be32_store32: "be32 (store32 v @ s) = v"
proof (rule bit_word_eqI)
  fix n
  assume "n < LENGTH(32)"
  then show "bit (be32 (store32 v @ s)) n = bit v n"
    by (cases "n = 16"; cases "n = 24") (auto simp: be32_def store32_def bit_or_iff bit_push_bit_iff bit_ucast_iff bit_drop_bit_eq
        nat_less_le not_less)
qed

section \<open>Files\<close>

text \<open>\<open>read_at\<close>: all the bytes, or a failure at the end of the file.\<close>

definition read_at :: "byte list \<Rightarrow> nat \<Rightarrow> nat \<Rightarrow> byte list option" where
  "read_at f sz off = (if off + sz \<le> length f then Some (take sz (drop off f)) else None)"

text \<open>Bytes written at an offset within the file or at its end.\<close>

definition put_at :: "byte list \<Rightarrow> byte list \<Rightarrow> nat \<Rightarrow> byte list" where
  "put_at f b off = take off f @ b @ drop (off + length b) f"

text \<open>\<open>write_at\<close>: \<open>None\<close>, or the number of bytes after which writing failed.\<close>

definition write_at :: "nat option \<Rightarrow> byte list \<Rightarrow> byte list \<Rightarrow> nat \<Rightarrow> bool \<times> byte list" where
  "write_at failure f b off =
     (case failure of
        None \<Rightarrow> (True, put_at f b off)
      | Some n \<Rightarrow> if length b \<le> n then (True, put_at f b off) else (False, put_at f (take n b) off))"

section \<open>The movie atom\<close>

record movie =
  mv_offset :: nat
  mv_end :: nat
  mv_size :: nat
  mv_start_ms :: int
  mv_duration_ms :: int

definition mp4_epoch :: nat where "mp4_epoch = 2082844800"

definition box_moov :: "byte list" where "box_moov = [0x6d, 0x6f, 0x6f, 0x76]"
definition box_mvhd :: "byte list" where "box_mvhd = [0x6d, 0x76, 0x68, 0x64]"

text \<open>The conversion of a 64-bit value to \<open>int64_t\<close>.\<close>

definition to_int64 :: "nat \<Rightarrow> int" where
  "to_int64 n = (if n < 2 ^ 63 then int n else int n - 2 ^ 64)"

definition mvhd_times :: "nat \<Rightarrow> nat \<Rightarrow> nat \<Rightarrow> (int \<times> int) option" where
  "mvhd_times creation scale duration =
     (if scale = 0 \<or> creation < mp4_epoch \<or> creation - mp4_epoch > (2 ^ 63 - 1) div 1000 \<or>
        duration > (2 ^ 64 - 1) div 1000 then None
      else
        let start = int ((creation - mp4_epoch) * 1000); d = to_int64 (duration * 1000 div scale)
        in if 0 < d \<and> d \<le> 86400000 then Some (start, d) else None)"

definition read_mvhd :: "byte list \<Rightarrow> nat \<Rightarrow> nat \<Rightarrow> (int \<times> int) option" where
  "read_mvhd f child child_size =
     (if child_size < 32 then None
      else case read_at f (if child_size < 40 then child_size else 40) child of
        None \<Rightarrow> None
      | Some h \<Rightarrow>
          if h ! 8 = 0 then mvhd_times (unat (be32 (drop 12 h))) (unat (be32 (drop 20 h))) (unat (be32 (drop 24 h)))
          else if h ! 8 = 1 \<and> 40 \<le> child_size
          then mvhd_times (unat (be64 (drop 12 h))) (unat (be32 (drop 28 h))) (unat (be64 (drop 32 h)))
          else None)"

fun find_mvhd :: "nat \<Rightarrow> byte list \<Rightarrow> nat \<Rightarrow> (int \<times> int) option" where
  "find_mvhd 0 f child = None"
| "find_mvhd (Suc n) f child =
     (if length f < child + 8 then None
      else case read_at f 8 child of
        None \<Rightarrow> None
      | Some h \<Rightarrow>
          let child_size = unat (be32 h)
          in if child_size < 8 \<or> child_size > length f - child then None
             else if take 4 (drop 4 h) = box_mvhd then read_mvhd f child child_size
             else find_mvhd n f (child + child_size))"

text \<open>A box: its size and the length of its size fields.\<close>

definition box_size :: "byte list \<Rightarrow> nat \<Rightarrow> byte list \<Rightarrow> (nat \<times> nat) option" where
  "box_size f off h =
     (if unat (be32 h) = 1
      then map_option (\<lambda>h'. (unat (be64 h'), 16)) (read_at f 8 (off + 8))
      else Some (unat (be32 h), 8))"

fun find_box :: "nat \<Rightarrow> byte list \<Rightarrow> nat \<Rightarrow> movie option" where
  "find_box 0 f off = None"
| "find_box (Suc n) f off =
     (if length f < off + 8 then None
      else case read_at f 8 off of
        None \<Rightarrow> None
      | Some h \<Rightarrow>
          case box_size f off h of
            None \<Rightarrow> None
          | Some (sz, prefix) \<Rightarrow>
              if sz < prefix \<or> sz > length f - off then None
              else if take 4 (drop 4 h) = box_moov then
                (if prefix \<noteq> 8 \<or> 2 ^ 32 - 1 < sz \<or> off + sz \<noteq> length f then None
                 else map_option (\<lambda>(s, d). \<lparr>mv_offset = off, mv_end = length f, mv_size = sz,
                     mv_start_ms = s, mv_duration_ms = d\<rparr>) (find_mvhd 64 f (off + 8)))
              else find_box n f (off + sz))"

definition find_movie :: "byte list \<Rightarrow> movie option" where
  "find_movie f = (if length f < 32 then None else find_box 64 f 0)"

section \<open>Building boxes\<close>

text \<open>The buffer up to \<open>used\<close>, cleared where nothing was stored; the box's start is returned.\<close>

definition begin_box :: "byte list \<Rightarrow> byte list \<Rightarrow> byte list \<times> nat" where
  "begin_box buffer type = (buffer @ store32 0 @ type, length buffer)"

definition end_box :: "byte list \<Rightarrow> nat \<Rightarrow> byte list" where
  "end_box buffer start = put_at buffer (store32 (word_of_nat (length buffer - start))) start"

text \<open>A box as a value.\<close>

definition box :: "byte list \<Rightarrow> byte list \<Rightarrow> byte list" where
  "box type content = store32 (word_of_nat (8 + length content)) @ type @ content"

lemma box_length [simp]: "length type = 4 \<Longrightarrow> length (box type content) = 8 + length content"
  by (simp add: box_def)

lemma end_box_box:
  assumes "length type = 4"
  shows "end_box (buffer @ store32 0 @ type @ content) (length buffer) = buffer @ box type content"
  using assms by (simp add: end_box_def put_at_def box_def)

section \<open>A box appended to the movie atom\<close>

text \<open>The file with bytes appended and the size of the box at an offset replaced.\<close>

definition grown :: "byte list \<Rightarrow> byte list \<Rightarrow> nat \<Rightarrow> u32 \<Rightarrow> byte list" where
  "grown f b p s = put_at (f @ b) (store32 s) p"

lemma put_at_length: "off + length b \<le> length f \<Longrightarrow> length (put_at f b off) = length f"
  by (simp add: put_at_def)

lemma grown_length: "p + 4 \<le> length f \<Longrightarrow> length (grown f b p s) = length f + length b"
  by (simp add: grown_def put_at_length)

lemma read_grown:
  assumes "p + 4 \<le> length f" "off + sz \<le> length f" "off + sz \<le> p \<or> p + 4 \<le> off"
  shows "read_at (grown f b p s) sz off = read_at f sz off"
proof -
  have l: "off + sz \<le> length (grown f b p s)" using assms(1,2) by (simp add: grown_length)
  have n: "grown f b p s ! i = f ! i" if "i < length f" "i < p \<or> p + 4 \<le> i" for i
    using that assms(1) by (auto simp: grown_def put_at_def nth_append min_def)
  have "take sz (drop off (grown f b p s)) = take sz (drop off f)"
    using l assms by (intro nth_equalityI) (auto intro!: n)
  then show ?thesis using l assms(2) by (simp add: read_at_def)
qed

lemma read_grown_header:
  assumes "p + 8 \<le> length f"
  shows "read_at (grown f b p s) 8 p = Some (store32 s @ take 4 (drop (p + 4) f))"
proof -
  have "drop p (grown f b p s) = store32 s @ drop (p + 4) (f @ b)"
    using assms by (simp add: grown_def put_at_def)
  moreover have "take 4 (drop (p + 4) (f @ b)) = take 4 (drop (p + 4) f)"
    using assms by (simp add: take_append)
  ultimately have "take 8 (drop p (grown f b p s)) = store32 s @ take 4 (drop (p + 4) f)"
    by (simp add: take_append)
  then show ?thesis using assms grown_length [of p f b s] by (simp add: read_at_def)
qed

lemma read_at_bound: "read_at f sz off = Some h \<Longrightarrow> off + sz \<le> length f \<and> length h = sz"
  by (auto simp: read_at_def split: if_splits)

lemma read_mvhd_grown:
  assumes "p + 4 \<le> child" "p + 4 \<le> length f" "read_mvhd f child k = Some x"
  shows "read_mvhd (grown f b p s) child k = Some x"
proof -
  let ?k = "if k < 40 then k else 40"
  obtain h where h: "read_at f ?k child = Some h"
    using assms(3) by (auto simp: read_mvhd_def split: if_splits option.splits)
  have "read_at (grown f b p s) ?k child = Some h"
    using read_grown [of p f child ?k b s] read_at_bound [OF h] assms(1,2) h by simp
  then show ?thesis using assms(3) h by (auto simp: read_mvhd_def split: if_splits)
qed

lemma find_mvhd_grown:
  "p + 4 \<le> child \<Longrightarrow> p + 4 \<le> length f \<Longrightarrow> find_mvhd n f child = Some x \<Longrightarrow>
     find_mvhd n (grown f b p s) child = Some x"
proof (induction n f child rule: find_mvhd.induct)
  case (2 n f child)
  from 2(4) obtain h where h: "child + 8 \<le> length f" "read_at f 8 child = Some h"
    "8 \<le> unat (be32 h)" "unat (be32 h) \<le> length f - child"
    by (auto simp: Let_def split: if_splits option.splits)
  have g: "read_at (grown f b p s) 8 child = Some h"
    using read_grown [of p f child 8 b s] h 2(2,3) by simp
  show ?case
  proof (cases "take 4 (drop 4 h) = box_mvhd")
    case True
    then show ?thesis
      using 2(2-4) h g read_mvhd_grown [of p child f "unat (be32 h)" x b s]
      by (simp add: Let_def grown_length)
  next
    case False
    then show ?thesis
      using 2 h g by (simp add: Let_def grown_length)
  qed
qed simp

lemma find_box_bound:
  "find_box n f off = Some m \<Longrightarrow>
     off \<le> mv_offset m \<and> mv_offset m + mv_size m = length f \<and> mv_end m = length f \<and> 8 \<le> mv_size m \<and>
     (\<exists>h. read_at f 8 (mv_offset m) = Some h \<and> mv_size m = unat (be32 h))"
proof (induction n f off rule: find_box.induct)
  case (2 n f off)
  then show ?case
    by (fastforce simp: Let_def box_size_def split: if_splits option.splits)
qed simp

lemma find_box_grown:
  "find_box n f off = Some m \<Longrightarrow> K < 2 ^ 32 \<Longrightarrow> K = mv_size m + length b \<Longrightarrow>
     find_box n (grown f b (mv_offset m) (word_of_nat K)) off =
       Some (m\<lparr>mv_end := mv_end m + length b, mv_size := mv_size m + length b\<rparr>)"
proof (induction n f off rule: find_box.induct)
  case (2 n f off)
  let ?p = "mv_offset m"
  let ?g = "grown f b ?p (word_of_nat K)"
  have k: "unat (word_of_nat K :: u32) = K" using 2(3) by (simp add: unsigned_of_nat take_bit_nat_eq_self)
  obtain h sz prefix where h: "off + 8 \<le> length f" "read_at f 8 off = Some h"
    "box_size f off h = Some (sz, prefix)" "prefix \<le> sz" "sz \<le> length f - off"
    using 2(2) by (auto simp: Let_def split: if_splits option.splits)
  note K = 2(4)
  have bound: "off \<le> ?p" "?p + mv_size m = length f" "8 \<le> mv_size m"
    using find_box_bound [OF 2(2)] by auto
  then have p: "?p + 8 \<le> length f" by linarith
  have k8: "8 \<le> K" using bound(3) K by simp
  have gl: "length ?g = length f + length b" using p by (intro grown_length) simp
  show ?case
  proof (cases "take 4 (drop 4 h) = box_moov")
    case True
    from 2(2) h True obtain s d where m: "prefix = 8" "off + sz = length f" "sz \<le> 2 ^ 32 - 1"
      "find_mvhd 64 f (off + 8) = Some (s, d)"
      "m = \<lparr>mv_offset = off, mv_end = length f, mv_size = sz, mv_start_ms = s, mv_duration_ms = d\<rparr>"
      by (auto split: if_splits)
    have mp: "?p = off" "mv_size m = sz" "mv_end m = length f" by (simp_all add: m(5))
    have tl: "h = take 8 (drop off f)" using h(2) by (simp add: read_at_def split: if_splits)
    have t4: "take 4 (drop (off + 4) f) = box_moov"
    proof -
      have "take 4 (drop 4 h) = take 4 (drop 4 (take 8 (drop off f)))" by (simp only: tl)
      also have "\<dots> = take 4 (drop (off + 4) f)" by (simp add: drop_take add.commute)
      finally show ?thesis using True by simp
    qed
    have r: "read_at ?g 8 off = Some (store32 (word_of_nat K) @ box_moov)"
      using read_grown_header [OF p, of b "word_of_nat K"] by (simp add: mp t4)
    have bs: "box_size ?g off (store32 (word_of_nat K) @ box_moov) = Some (K, 8)"
      using k8 by (simp add: box_size_def be32_store32 k)
    have fm: "find_mvhd 64 ?g (off + 8) = Some (s, d)"
      using find_mvhd_grown [OF _ _ m(4), of ?p b "word_of_nat K"] p by (simp add: mp)
    have "\<not> 2 ^ 32 - 1 < K" using 2(3) by simp
    moreover have "\<not> (K < 8 \<or> K > length ?g - off)" "off + K = length ?g"
      using gl mp m(2) bound(3) K by auto
    ultimately show ?thesis
      using r bs fm gl h(1) K by (simp add: m(5) box_moov_def)
  next
    case False
    have next_box: "find_box n f (off + sz) = Some m" using 2(2) h False by (auto split: if_splits)
    have q: "off + sz \<le> ?p" using find_box_bound [OF next_box] by simp
    have pre: "prefix = 8 \<or> prefix = 16 \<and> unat (be32 h) = 1"
      using h(3) by (auto simp: box_size_def split: if_splits)
    then have o: "off + 8 \<le> ?p" using h(4) q by linarith
    have r: "read_at ?g 8 off = Some h" using read_grown [of ?p f off 8] p o h(1,2) by simp
    have r16: "read_at ?g 8 (off + 8) = read_at f 8 (off + 8)" if "unat (be32 h) = 1"
    proof -
      have "prefix = 16" using that h(3) by (auto simp: box_size_def split: if_splits)
      then show ?thesis using read_grown [of ?p f "off + 8" 8] p h(4) q by simp
    qed
    have bs: "box_size ?g off h = Some (sz, prefix)" using h(3) r16 by (auto simp: box_size_def)
    have "find_box n ?g (off + sz) =
        Some (m\<lparr>mv_end := mv_end m + length b, mv_size := mv_size m + length b\<rparr>)"
      using 2(1) [OF _ h(2,3) refl _ False next_box 2(3,4)] h(1,4,5) by simp
    then show ?thesis
      using r bs gl h(1,4,5) False by simp
  qed
qed simp

lemma find_movie_grown:
  assumes "find_movie f = Some m" "mv_size m + length b < 2 ^ 32"
  shows "find_movie (grown f b (mv_offset m) (word_of_nat (mv_size m + length b))) =
    Some (m\<lparr>mv_end := mv_end m + length b, mv_size := mv_size m + length b\<rparr>)"
proof -
  have fb: "find_box 64 f 0 = Some m" "\<not> length f < 32" using assms(1) by (auto simp: find_movie_def split: if_splits)
  then have "mv_offset m + 4 \<le> length f" using find_box_bound [OF fb(1)] by linarith
  then show ?thesis using find_box_grown [OF fb(1) assms(2) refl] fb(2) by (simp add: find_movie_def grown_length)
qed

end
