(* ===== verification/Record_Metadata.thy ===== *)
theory Record_Metadata
  imports Mp4_Boxes Motion_Events Motion_Levels
begin

text \<open>
  \<open>src/ipc_cmd/ipc_cmd/record_metadata.c\<close>: the library that is loaded into the recorder.  It follows
  the descriptors of recordings, and at the close of one appends a metadata box with the motion of
  the clip to the movie atom.  The results of the functions it wraps are arguments; open flags are a
  record of the bits that are looked at.
\<close>

section \<open>Recordings\<close>

definition record_fds :: nat where "record_fds = 4"

record recorder =
  rec_root :: string
  rec_model :: string
  rec_osd_path :: string
  rec_tracked :: "int list"
  rec_osd_offset :: "int option"     \<comment> \<open>the clip's offset, if valid\<close>

definition recorder_default :: recorder where
  "recorder_default = \<lparr>rec_root = ''/tmp/sd/record'', rec_model = ''unknown'',
     rec_osd_path = ''/tmp/mmap.info'', rec_tracked = replicate record_fds (-1), rec_osd_offset = None\<rparr>"

text \<open>\<open>env\<close>: the values of the environment variables; \<open>path_max\<close> is the platform's limit.\<close>

definition initialize :: "nat \<Rightarrow> (string \<Rightarrow> string option) \<Rightarrow> recorder \<Rightarrow> recorder" where
  "initialize path_max env r =
     (let r1 = (case env ''YI_RECORD_ROOT'' of
                  Some v \<Rightarrow> if take 1 v = ''/'' \<and> length v < path_max - 32 then r\<lparr>rec_root := v\<rparr> else r
                | None \<Rightarrow> r);
          r2 = (case env ''YI_RECORD_METADATA_MODEL'' of
                  Some v \<Rightarrow> if v = ''y623'' \<or> v = ''y28ga'' then r1\<lparr>rec_model := v\<rparr> else r1
                | None \<Rightarrow> r1)
      in case env ''YI_RECORD_OSD_INFO'' of
           Some v \<Rightarrow> if take 1 v = ''/'' then r2\<lparr>rec_osd_path := v\<rparr> else r2
         | None \<Rightarrow> r2)"

datatype access = Acc_rdonly | Acc_wronly | Acc_rdwr | Acc_other

record open_flags =
  fl_creat :: bool
  fl_trunc :: bool
  fl_access :: access
  fl_tmpfile :: bool
  fl_large :: bool

definition ends_with :: "string \<Rightarrow> string \<Rightarrow> bool" where
  "ends_with s suffix \<longleftrightarrow> length suffix \<le> length s \<and> drop (length s - length suffix) s = suffix"

definition recording_path :: "string \<Rightarrow> string \<Rightarrow> open_flags \<Rightarrow> bool" where
  "recording_path dir path fl \<longleftrightarrow>
     fl_creat fl \<and> fl_trunc fl \<and> fl_access fl \<noteq> Acc_rdonly \<and>
     has_prefix (dir @ ''/'') path \<and> (ends_with path ''.mp4.tmp'' \<or> ends_with path ''.mp4'')"

definition needs_mode :: "open_flags \<Rightarrow> bool" where
  "needs_mode fl \<longleftrightarrow> fl_creat fl \<or> fl_tmpfile fl"

fun track_fd :: "int \<Rightarrow> int list \<Rightarrow> int list" where
  "track_fd fd [] = []"
| "track_fd fd (t # ts) = (if t = -1 then fd # ts else t # track_fd fd ts)"

fun untrack_fd :: "int \<Rightarrow> int list \<Rightarrow> bool \<times> int list" where
  "untrack_fd fd [] = (False, [])"
| "untrack_fd fd (t # ts) =
     (if t = fd then (True, -1 # ts) else let (b, ts') = untrack_fd fd ts in (b, t # ts'))"

text \<open>A little-endian \<open>int32_t\<close>; \<open>info\<close> are the bytes of the file, if it opens.\<close>

definition le_int32 :: "byte list \<Rightarrow> int" where
  "le_int32 p = sint (ucast (p ! 0) OR push_bit 8 (ucast (p ! 1)) OR push_bit 16 (ucast (p ! 2)) OR
     push_bit 24 (ucast (p ! 3)) :: u32)"

definition read_osd_offset :: "byte list option \<Rightarrow> int option" where
  "read_osd_offset info =
     (case info of
        None \<Rightarrow> None
      | Some f \<Rightarrow>
          (case read_at f 4 0x4e0 of
             None \<Rightarrow> None
           | Some b \<Rightarrow> if le_int32 b < -86400 \<or> le_int32 b > 86400 then None else Some (le_int32 b)))"

text \<open>\<open>real_open\<close> maps the path, the flags and the mode to a descriptor; \<open>None\<close>: not found.\<close>

definition recording_open ::
  "(string \<Rightarrow> open_flags \<Rightarrow> nat \<Rightarrow> int) option \<Rightarrow> byte list option \<Rightarrow> string \<Rightarrow> open_flags \<Rightarrow> nat \<Rightarrow>
   recorder \<Rightarrow> int \<times> recorder" where
  "recording_open real_open info path fl mode_bits r =
     (case real_open of
        None \<Rightarrow> (-1, r)
      | Some do_open \<Rightarrow>
          let recording = recording_path (rec_root r) path fl;
              fl' = (if recording then fl\<lparr>fl_access := Acc_rdwr\<rparr> else fl);
              fd = do_open path fl' mode_bits
          in if recording \<and> 0 \<le> fd then
               let r1 = (if rec_model r = ''y28ga'' then r\<lparr>rec_osd_offset := read_osd_offset info\<rparr> else r)
               in (fd, r1\<lparr>rec_tracked := track_fd fd (rec_tracked r1)\<rparr>)
             else (fd, r))"

definition metadata_open ::
  "(string \<Rightarrow> open_flags \<Rightarrow> nat \<Rightarrow> int) option \<Rightarrow> byte list option \<Rightarrow> string \<Rightarrow> open_flags \<Rightarrow> nat \<Rightarrow>
   recorder \<Rightarrow> int \<times> recorder" where
  "metadata_open real_open info path fl mode_bits r =
     recording_open real_open info path fl (if needs_mode fl then mode_bits else 0) r"

definition metadata_open64 ::
  "(string \<Rightarrow> open_flags \<Rightarrow> nat \<Rightarrow> int) option \<Rightarrow> byte list option \<Rightarrow> string \<Rightarrow> open_flags \<Rightarrow> nat \<Rightarrow>
   recorder \<Rightarrow> int \<times> recorder" where
  "metadata_open64 real_open info path fl mode_bits r =
     recording_open real_open info path (fl\<lparr>fl_large := True\<rparr>) (if needs_mode fl then mode_bits else 0) r"

text \<open>\<open>fits\<close>: the values of \<open>time_t\<close>; \<open>caller\<close> is the return address.\<close>

definition recording_calendar_time :: "(int \<Rightarrow> bool) \<Rightarrow> recorder \<Rightarrow> int \<Rightarrow> nat \<Rightarrow> int" where
  "recording_calendar_time fits r v caller =
     (if rec_model r \<noteq> ''y28ga'' \<or> caller \<noteq> 0x12678 then v
      else case rec_osd_offset r of
        None \<Rightarrow> v
      | Some off \<Rightarrow> if fits (v - off) then v - off else v)"

section \<open>The text\<close>

definition json_capacity :: nat where "json_capacity = 32768"

definition append_text :: "string \<Rightarrow> string \<Rightarrow> string option" where
  "append_text text s = (if json_capacity - length text \<le> length s then None else Some (text @ s))"

text \<open>Rows with a comma before every row but the first; \<open>included\<close> rows are there already.\<close>

fun append_rows :: "string \<Rightarrow> nat \<Rightarrow> string list \<Rightarrow> string option" where
  "append_rows text included [] = Some text"
| "append_rows text included (row # rows) =
     (case append_text text ((if 0 < included then '','' else []) @ row) of
        None \<Rightarrow> None
      | Some text' \<Rightarrow> append_rows text' (included + 1) rows)"

definition sample_row :: "(c_double \<Rightarrow> string) \<Rightarrow> level_sample \<Rightarrow> string" where
  "sample_row fmt_g s = ''['' @ show_int (ls_unix_ms s) @ '','' @ show_int (ls_scene s) @ '','' @
     show_int (ls_move s) @ '','' @ show_int (ls_moving_level s) @ '','' @ fmt_g (ls_bin_ratio s) @
     '','' @ show_int (ls_moving_th s) @ '']''"

text \<open>\<open>fmt_g\<close> is the format \<open>%.10g\<close>; \<open>levels\<close> is what \<open>motion_levels_read\<close> returned.\<close>

definition build_raw_json ::
  "(c_double \<Rightarrow> string) \<Rightarrow> motion_levels option \<Rightarrow> movie \<Rightarrow> string option" where
  "build_raw_json fmt_g levels m =
     (case levels of
        None \<Rightarrow> None
      | Some l \<Rightarrow>
          let samples = map (\<lambda>i. lv_samples l ! ((lv_first l + i) mod level_capacity)) [0..<lv_count l];
              inside = filter (\<lambda>s. \<not> (ls_unix_ms s < mv_start_ms m \<or>
                         ls_unix_ms s > mv_start_ms m + mv_duration_ms m)) samples
          in Option.bind (append_text [] (''{\"schema\":[\"unix_ms\",\"Scene\",\"Move\",\"MovingLevel\",'' @
               ''\"BinImgRatio\",\"MovingTh\"],\"data\":[''))
               (\<lambda>t. Option.bind (append_rows t 0 (map (sample_row fmt_g) inside)) (\<lambda>u. append_text u '']}'')))"

definition json_truth :: "bool \<Rightarrow> string" where
  "json_truth b = (if b then ''true'' else ''false'')"

definition json_header :: "string \<Rightarrow> movie \<Rightarrow> int \<Rightarrow> bool \<Rightarrow> bool \<Rightarrow> string" where
  "json_header model m initial available truncated =
     ''{\"schema\":\"yi-motion-v1\",\"model\":\"'' @ model @ ''\",\"source\":\"'' @
     (if model = ''y623'' then ''encoder-stats-ipc'' else ''firmware-iva-ipc'') @
     ''\",\"video_start_unix_ms\":'' @ show_int (mv_start_ms m) @
     '',\"duration_ms\":'' @ show_int (mv_duration_ms m) @
     '',\"video_time_precision_ms\":1000,\"initial_state\":'' @ show_int initial @
     '',\"history_available\":'' @ json_truth available @
     '',\"history_truncated\":'' @ json_truth truncated @
     '',\"event_columns\":[\"offset_ms\",\"unix_ms\",\"state\",\"kind\"],\"events\":[''"

definition event_row :: "movie \<Rightarrow> int \<Rightarrow> int \<Rightarrow> string \<Rightarrow> string" where
  "event_row m ms state kind =
     ''['' @ show_int (ms - mv_start_ms m) @ '','' @ show_int ms @ '','' @ show_int state @ '',\"'' @
     kind @ ''\"]''"

definition no_history :: motion_history where
  "no_history = \<lparr>h_first = 0, h_count = 0, h_baseline_state = -1, h_baseline_is_sample = False,
     h_baseline_ms = 2 ^ 63 - 1, h_last_state = -1, h_events = []\<rparr>"

text \<open>The events in ring order.\<close>

definition ring_events :: "motion_history \<Rightarrow> motion_event list" where
  "ring_events h = map (\<lambda>i. h_events h ! ((h_first h + i) mod event_capacity)) [0..<h_count h]"

definition initial_state :: "movie \<Rightarrow> bool \<Rightarrow> motion_history \<Rightarrow> int" where
  "initial_state m truncated h =
     fold (\<lambda>e s. if ev_unix_ms e \<le> mv_start_ms m then ev_state e else s) (ring_events h)
       (if \<not> truncated then h_baseline_state h else -1)"

text \<open>\<open>hist\<close> is what \<open>motion_history_read\<close> returned, \<open>levels\<close> what \<open>motion_levels_read\<close> did.\<close>

definition build_json ::
  "(c_double \<Rightarrow> string) \<Rightarrow> string \<Rightarrow> motion_history option \<Rightarrow> motion_levels option \<Rightarrow> movie \<Rightarrow> string option" where
  "build_json fmt_g model hist levels m =
     (if model = ''y623'' then build_raw_json fmt_g levels m
      else
        let available = hist \<noteq> None; h = (case hist of Some h \<Rightarrow> h | None \<Rightarrow> no_history);
            end_ms = mv_start_ms m + mv_duration_ms m;
            truncated = (\<not> available \<or> h_baseline_ms h > mv_start_ms m);
            header = json_header model m (initial_state m truncated h) available truncated;
            base = (if 0 \<le> h_baseline_state h \<and> mv_start_ms m \<le> h_baseline_ms h \<and> h_baseline_ms h \<le> end_ms
              then [event_row m (h_baseline_ms h) (h_baseline_state h)
                     (if h_baseline_is_sample h then ''sample'' else ''transition'')] else []);
            inside = filter (\<lambda>e. \<not> (ev_unix_ms e < mv_start_ms m \<or> ev_unix_ms e > end_ms)) (ring_events h)
        in Option.bind (append_text [] header) (\<lambda>t0.
           Option.bind (append_rows t0 0 base) (\<lambda>t1.
           Option.bind (append_rows t1 (length base)
             (map (\<lambda>e. event_row m (ev_unix_ms e) (ev_state e) ''transition'') inside)) (\<lambda>t2.
           Option.bind (append_text t2 '']'') (\<lambda>t3. append_text t3 ''}'')))))"

section \<open>The metadata box\<close>

definition str_bytes :: "string \<Rightarrow> byte list" where
  "str_bytes s = map (\<lambda>c. word_of_nat (chr_code c)) s"

definition zeros :: "nat \<Rightarrow> byte list" where "zeros n = replicate n 0"

text \<open>The buffer after the text was stored; bytes that are skipped are zero.\<close>

definition metadata_buffer :: "byte list \<Rightarrow> byte list" where
  "metadata_buffer text =
     (let (b, udta) = begin_box [] (str_bytes ''udta'');
          (b, meta) = begin_box b (str_bytes ''meta'');
          b = b @ zeros 4;
          (b, hdlr) = begin_box b (str_bytes ''hdlr'');
          b = b @ zeros 8 @ str_bytes ''mdir'' @ zeros 13;
          b = end_box b hdlr;
          (b, ilst) = begin_box b (str_bytes ''ilst'');
          (b, custom) = begin_box b (str_bytes ''----'');
          (b, mean) = begin_box b (str_bytes ''mean'');
          b = b @ zeros 4 @ str_bytes ''com.yi-hack'';
          b = end_box b mean;
          (b, name) = begin_box b (str_bytes ''name'');
          b = b @ zeros 4 @ str_bytes ''yi_motion'';
          b = end_box b name;
          (b, data) = begin_box b (str_bytes ''data'');
          b = b @ store32 1 @ zeros 4;
          b = b @ text;
          b = end_box b data;
          b = end_box b custom;
          b = end_box b ilst;
          b = end_box b meta
      in end_box b udta)"

text \<open>
  The system's answers while a clip is finalized: whether there is memory for the buffer, where the
  writes of the box, of the new size and of the old one fail, and whether truncating works.
\<close>

record finalize_env =
  fe_memory :: bool
  fe_append :: "nat option"
  fe_resize :: "nat option"
  fe_restore :: "nat option"
  fe_truncate :: bool

text \<open>\<open>make_text\<close> is \<open>build_json\<close> with its sources.  The result code and the file.\<close>

definition finalize_metadata ::
  "(movie \<Rightarrow> string option) \<Rightarrow> finalize_env \<Rightarrow> byte list \<Rightarrow> int \<times> byte list" where
  "finalize_metadata make_text e f =
     (case find_movie f of
        None \<Rightarrow> (-1, f)
      | Some m \<Rightarrow>
          if \<not> fe_memory e then (-1, f)
          else case make_text m of
            None \<Rightarrow> (-1, f)
          | Some text \<Rightarrow>
              let b = metadata_buffer (str_bytes text); used = length b;
                  old = store32 (word_of_nat (mv_size m)); new = store32 (word_of_nat (mv_size m + used));
                  (ok, f1) =
                    (if mv_size m \<le> 2 ^ 32 - 1 - used then
                       case write_at (fe_append e) f b (mv_end m) of
                         (False, f') \<Rightarrow> (False, f')
                       | (True, f') \<Rightarrow>
                           (case write_at (fe_resize e) f' new (mv_offset m) of
                              (True, f'') \<Rightarrow> (True, f'')
                            | (False, f'') \<Rightarrow> (False, snd (write_at (fe_restore e) f'' old (mv_offset m))))
                     else (False, f))
              in if ok then (0, f1) else (-1, if fe_truncate e then take (mv_end m) f1 else f1))"

definition close_recording ::
  "(movie \<Rightarrow> string option) \<Rightarrow> finalize_env \<Rightarrow> int \<Rightarrow> byte list \<Rightarrow> recorder \<Rightarrow> byte list \<times> recorder" where
  "close_recording make_text e fd f r =
     (let (recording, ts) = untrack_fd fd (rec_tracked r)
      in (if recording then snd (finalize_metadata make_text e f) else f, r\<lparr>rec_tracked := ts\<rparr>))"

section \<open>The box is well formed\<close>

definition metadata_box :: "byte list \<Rightarrow> byte list" where
  "metadata_box text =
     box (str_bytes ''udta'') (box (str_bytes ''meta'') (zeros 4 @
       box (str_bytes ''hdlr'') (zeros 8 @ str_bytes ''mdir'' @ zeros 13) @
       box (str_bytes ''ilst'') (box (str_bytes ''----'') (
         box (str_bytes ''mean'') (zeros 4 @ str_bytes ''com.yi-hack'') @
         box (str_bytes ''name'') (zeros 4 @ str_bytes ''yi_motion'') @
         box (str_bytes ''data'') (store32 1 @ zeros 4 @ text)))))"

lemma str_bytes_length [simp]: "length (str_bytes s) = length s"
  by (simp add: str_bytes_def)

lemma end_box_at:
  "b = buffer @ store32 0 @ type @ content \<Longrightarrow> n = length buffer \<Longrightarrow> length type = 4 \<Longrightarrow>
     end_box b n = buffer @ box type content"
  using end_box_box by blast

lemma metadata_buffer_box: "metadata_buffer text = metadata_box text"
proof -
  let ?H = "zeros 8 @ str_bytes ''mdir'' @ zeros 13" and ?M = "zeros 4 @ str_bytes ''com.yi-hack''"
    and ?N = "zeros 4 @ str_bytes ''yi_motion''" and ?D = "store32 1 @ zeros 4 @ text"
  define u where "u = store32 0 @ str_bytes ''udta''"
  define m where "m = u @ store32 0 @ str_bytes ''meta''"
  define m1 where "m1 = m @ zeros 4 @ box (str_bytes ''hdlr'') ?H"
  define i where "i = m1 @ store32 0 @ str_bytes ''ilst''"
  define c where "c = i @ store32 0 @ str_bytes ''----''"
  define c1 where "c1 = c @ box (str_bytes ''mean'') ?M"
  define c2 where "c2 = c1 @ box (str_bytes ''name'') ?N"
  have 1: "end_box ((m @ zeros 4) @ store32 0 @ str_bytes ''hdlr'' @ ?H) (length (m @ zeros 4)) = m1"
    by (subst end_box_box) (simp_all add: m1_def)
  have 2: "end_box (c @ store32 0 @ str_bytes ''mean'' @ ?M) (length c) = c1"
    by (subst end_box_box) (simp_all add: c1_def)
  have 3: "end_box (c1 @ store32 0 @ str_bytes ''name'' @ ?N) (length c1) = c2"
    by (subst end_box_box) (simp_all add: c2_def)
  have 4: "end_box (c2 @ store32 0 @ str_bytes ''data'' @ ?D) (length c2) = c2 @ box (str_bytes ''data'') ?D"
    by (subst end_box_box) simp_all
  let ?C = "box (str_bytes ''mean'') ?M @ box (str_bytes ''name'') ?N @ box (str_bytes ''data'') ?D"
  have 5: "end_box (c2 @ box (str_bytes ''data'') ?D) (length i) = i @ box (str_bytes ''----'') ?C"
    by (rule end_box_at) (simp_all add: c2_def c1_def c_def)
  have 6: "end_box (i @ box (str_bytes ''----'') ?C) (length m1) =
      m1 @ box (str_bytes ''ilst'') (box (str_bytes ''----'') ?C)"
    by (rule end_box_at) (simp_all add: i_def)
  let ?I = "box (str_bytes ''ilst'') (box (str_bytes ''----'') ?C)"
  have 7: "end_box (m1 @ ?I) (length u) = u @ box (str_bytes ''meta'') (zeros 4 @ box (str_bytes ''hdlr'') ?H @ ?I)"
    by (rule end_box_at) (simp_all add: m1_def m_def)
  have 8: "end_box (u @ box (str_bytes ''meta'') (zeros 4 @ box (str_bytes ''hdlr'') ?H @ ?I)) (length ([] :: byte list)) =
      metadata_box text"
    using end_box_at [of "u @ box (str_bytes ''meta'') (zeros 4 @ box (str_bytes ''hdlr'') ?H @ ?I)" "[]"
        "str_bytes ''udta''" "box (str_bytes ''meta'') (zeros 4 @ box (str_bytes ''hdlr'') ?H @ ?I)" 0]
    by (simp add: u_def metadata_box_def)
  have e: "[] @ store32 0 @ str_bytes ''udta'' = u" "u @ store32 0 @ str_bytes ''meta'' = m"
    "m1 @ store32 0 @ str_bytes ''ilst'' = i" "i @ store32 0 @ str_bytes ''----'' = c"
    by (simp_all add: u_def m_def i_def c_def)
  show ?thesis
    unfolding metadata_buffer_def begin_box_def Let_def prod.case e
    using 1 2 3 4 5 6 7 8 by (simp add: e)
qed

lemma metadata_box_length: "length (metadata_box text) = 129 + length text"
  by (simp add: metadata_box_def zeros_def)

section \<open>Appended or undone\<close>

lemma store32_be32:
  assumes "4 \<le> length h"
  shows "store32 (be32 h) = take 4 h"
proof -
  obtain a h1 where 1: "h = a # h1" using assms by (cases h) auto
  obtain b h2 where 2: "h1 = b # h2" using assms 1 by (cases h1) auto
  obtain c h3 where 3: "h2 = c # h3" using assms 1 2 by (cases h2) auto
  obtain d r where 4: "h3 = d # r" using assms 1 2 3 by (cases h3) auto
  note h = 1 [unfolded 2 3 4]
  have "ucast (drop_bit 24 (be32 h)) = a" "ucast (drop_bit 16 (be32 h)) = b"
    "ucast (drop_bit 8 (be32 h)) = c" "ucast (be32 h) = d"
    by (rule bit_word_eqI; auto simp: h be32_def bit_or_iff bit_push_bit_iff bit_ucast_iff bit_drop_bit_eq
        dest: bit_imp_le_length)+
  then show ?thesis by (simp add: store32_def h)
qed

lemma movie_header:
  assumes "find_movie f = Some m"
  shows "mv_offset m + mv_size m = length f" "mv_end m = length f" "8 \<le> mv_size m"
    "store32 (word_of_nat (mv_size m)) = take 4 (drop (mv_offset m) f)"
proof -
  have fb: "find_box 64 f 0 = Some m" using assms by (auto simp: find_movie_def split: if_splits)
  obtain h where h: "read_at f 8 (mv_offset m) = Some h" "mv_size m = unat (be32 h)"
    using find_box_bound [OF fb] by auto
  show "mv_offset m + mv_size m = length f" "mv_end m = length f" "8 \<le> mv_size m"
    using find_box_bound [OF fb] by auto
  have "h = take 8 (drop (mv_offset m) f)" "length h = 8" using h(1) by (auto simp: read_at_def split: if_splits)
  then show "store32 (word_of_nat (mv_size m)) = take 4 (drop (mv_offset m) f)"
    using store32_be32 [of h] by (simp add: h(2))
qed

lemma put_old:
  "take (length b) (drop off f) = b \<Longrightarrow> off + length b \<le> length f \<Longrightarrow> put_at f b off = f"
  unfolding put_at_def by (metis append_take_drop_id drop_drop add.commute)

lemma put_put:
  assumes "n \<le> length b" "off + length b \<le> length f"
  shows "put_at (put_at f (take n a) off) b off = put_at f b off"
  using assms by (simp add: put_at_def min_def add.commute)

text \<open>The three ways the writes can go, for a movie that was found and a text \<open>b\<close> in its box.\<close>

lemma put_end: "mv_end m = length f \<Longrightarrow> put_at f a (mv_end m) = f @ a" "put_at f a (length f) = f @ a"
  by (simp_all add: put_at_def)

lemma size_undone:
  assumes "find_movie f = Some m" "n \<le> 4"
  shows "put_at (put_at (f @ b) (take n (store32 w)) (mv_offset m)) (store32 (word_of_nat (mv_size m))) (mv_offset m) = f @ b"
proof -
  note hd = movie_header [OF assms(1)]
  have o4: "mv_offset m + 4 \<le> length f" using hd(1,3) by linarith
  have "take 4 (drop (mv_offset m) (f @ b)) = store32 (word_of_nat (mv_size m))" using hd(4) o4 by simp
  then have "put_at (f @ b) (store32 (word_of_nat (mv_size m))) (mv_offset m) = f @ b"
    using o4 by (intro put_old) simp_all
  then show ?thesis using assms(2) o4 by (simp add: put_put)
qed

lemma size_not_written:
  assumes "find_movie f = Some m" "finalize_metadata make_text e f = (rc, f')" "fe_memory e" "make_text m = Some json"
    "mv_size m \<le> 2 ^ 32 - 1 - (129 + length json)"
    "write_at (fe_append e) f (metadata_box (str_bytes json)) (mv_end m) = (True, f @ metadata_box (str_bytes json))"
    "fe_resize e = Some n" "n < 4"
  shows "rc = -1 \<and> (fe_truncate e \<and> fe_restore e = None \<longrightarrow> f' = f)"
proof -
  let ?new = "store32 (word_of_nat (mv_size m + 129 + length json))" and ?b = "metadata_box (str_bytes json)"
  note fin = assms(2) [unfolded finalize_metadata_def assms(1) option.case assms(4) Let_def metadata_buffer_box metadata_box_length str_bytes_length]
  have w: "write_at (fe_resize e) (f @ ?b) ?new (mv_offset m) = (False, put_at (f @ ?b) (take n ?new) (mv_offset m))"
    using assms(7,8) by (simp add: write_at_def)
  have "f' = f" if "fe_truncate e" "fe_restore e = None"
    using fin assms(3,5,6) w that size_undone [OF assms(1), of n ?b] assms(8)
    by (simp add: write_at_def movie_header(2) [OF assms(1)] add.assoc)
  moreover have "rc = -1" using fin assms(3,5,6) w by (simp add: add.assoc)
  ultimately show ?thesis by blast
qed

lemma size_written:
  assumes "find_movie f = Some m" "mv_size m \<le> 2 ^ 32 - 1 - (129 + length json)"
    "f' = put_at (f @ metadata_box (str_bytes json)) (store32 (word_of_nat (mv_size m + 129 + length json))) (mv_offset m)"
  shows "read_at f' 8 (mv_end m) = Some (store32 (word_of_nat (129 + length json)) @ str_bytes ''udta'')"
    "find_movie f' = Some (m\<lparr>mv_end := mv_end m + (129 + length json), mv_size := mv_size m + (129 + length json)\<rparr>)"
proof -
  note hd = movie_header [OF assms(1)]
  let ?b = "metadata_box (str_bytes json)" and ?o = "mv_offset m"
  let ?new = "store32 (word_of_nat (mv_size m + 129 + length json))"
  have lb: "length ?b = 129 + length json" by (simp add: metadata_box_length)
  have o4: "?o + 4 \<le> length f" using hd(1,3) by linarith
  have k: "mv_size m + length ?b < 2 ^ 32" using assms(2) hd(3) by (simp add: lb)
  show "find_movie f' = Some (m\<lparr>mv_end := mv_end m + (129 + length json), mv_size := mv_size m + (129 + length json)\<rparr>)"
    using find_movie_grown [OF assms(1) k] unfolding assms(3) grown_def lb by (simp add: add.assoc)
  have "drop (length f) (put_at (f @ ?b) ?new ?o) = ?b" using o4 by (simp add: put_at_def)
  moreover have "take 8 ?b = store32 (word_of_nat (129 + length json)) @ str_bytes ''udta''"
    using lb by (simp add: metadata_box_def box_def [of "str_bytes ''udta''"] zeros_def)
  moreover have "length (put_at (f @ ?b) ?new ?o) = length (f @ ?b)"
    using o4 by (intro put_at_length) simp
  ultimately show "read_at f' 8 (mv_end m) = Some (store32 (word_of_nat (129 + length json)) @ str_bytes ''udta'')"
    by (simp add: read_at_def assms(3) hd(2) lb)
qed

text \<open>
  C5. Closing a recording adds the metadata whole or leaves the clip as it was: with success, the
  file is the old one followed by the metadata box of the text, whose size field is its length, and
  with the size of the movie atom enlarged, and the movie is found in it at the same place, with
  the same times, ending at the new end of the file; with failure, wherever the writes failed, the
  file is the old one, byte for byte, if the file could be truncated and the old size written back.
\<close>

theorem metadata_is_appended_or_undone:
  assumes "find_movie f = Some m" "finalize_metadata make_text e f = (rc, f')"
  shows "(rc = 0 \<and> (\<exists>json. make_text m = Some json \<and>
      f' = put_at (f @ metadata_box (str_bytes json)) (store32 (word_of_nat (mv_size m + 129 + length json))) (mv_offset m) \<and>
      read_at f' 8 (mv_end m) = Some (store32 (word_of_nat (129 + length json)) @ str_bytes ''udta'') \<and>
      find_movie f' = Some (m\<lparr>mv_end := mv_end m + (129 + length json), mv_size := mv_size m + (129 + length json)\<rparr>))) \<or>
    (rc = -1 \<and> (fe_truncate e \<and> fe_restore e = None \<longrightarrow> f' = f))"
proof (cases "fe_memory e \<and> make_text m \<noteq> None")
  case False
  then show ?thesis using assms by (auto simp: finalize_metadata_def split: option.splits)
next
  case True
  then obtain json where t: "fe_memory e" "make_text m = Some json" by auto
  let ?b = "metadata_box (str_bytes json)"
  note hd = movie_header(2) [OF assms(1)] and lb = metadata_box_length str_bytes_length
  note fin = assms(2) [unfolded finalize_metadata_def assms(1) option.case t(2) Let_def metadata_buffer_box lb]
  have wr: "write_at (fe_append e) f ?b (mv_end m) = (True, f @ ?b)"
    if "\<And>n. fe_append e = Some n \<Longrightarrow> length ?b \<le> n"
    using that by (simp add: write_at_def put_end hd split: option.split)
  consider "\<not> mv_size m \<le> 2 ^ 32 - 1 - (129 + length json)"
    | n where "mv_size m \<le> 2 ^ 32 - 1 - (129 + length json)" "fe_append e = Some n" "n < length ?b"
    | "mv_size m \<le> 2 ^ 32 - 1 - (129 + length json)"
      "write_at (fe_append e) f ?b (mv_end m) = (True, f @ ?b)"
    using wr by (metis not_less)
  then show ?thesis
  proof cases
    case 1
    then show ?thesis using fin t(1) by (auto simp: hd split: if_splits)
  next
    case 2
    then show ?thesis using fin t(1) by (auto simp: write_at_def put_end hd lb split: if_splits)
  next
    case 3
    show ?thesis
    proof (cases "\<exists>n. fe_resize e = Some n \<and> n < 4")
      case True
      then show ?thesis using size_not_written [OF assms t 3] by blast
    next
      case False
      then have "write_at (fe_resize e) (f @ ?b) w (mv_offset m) = (True, put_at (f @ ?b) w (mv_offset m))"
        if "length w = 4" for w
        using that by (auto simp: write_at_def not_less split: option.split)
      then have "rc = 0" "f' = put_at (f @ ?b) (store32 (word_of_nat (mv_size m + 129 + length json))) (mv_offset m)"
        using fin t(1) 3 by (simp_all add: add.assoc)
      then show ?thesis using size_written [OF assms(1) 3(1)] t(2) by blast
    qed
  qed
qed

section \<open>The events of a clip\<close>

fun rows_text :: "nat \<Rightarrow> string list \<Rightarrow> string" where
  "rows_text k [] = []"
| "rows_text k (r # rs) = (if 0 < k then '','' else []) @ r @ rows_text (k + 1) rs"

fun commas :: "string list \<Rightarrow> string" where
  "commas [] = []"
| "commas [r] = r"
| "commas (r # rs) = r @ '','' @ commas rs"

lemma rows_text_append: "rows_text k (a @ b) = rows_text k a @ rows_text (k + length a) b"
  by (induction a arbitrary: k) simp_all

lemma rows_text_Suc: "rows_text (Suc k) rs = (if rs = [] then [] else '','' @ commas rs)"
proof (induction rs arbitrary: k)
  case (Cons r rs)
  then show ?case by (cases rs) simp_all
qed simp

lemma rows_text_commas: "rows_text 0 rs = commas rs"
proof (cases rs)
  case (Cons r rs')
  have "rows_text 0 (r # rs') = r @ rows_text (Suc 0) rs'" by simp
  also have "\<dots> = commas (r # rs')" unfolding rows_text_Suc by (cases rs') simp_all
  finally show ?thesis by (simp only: Cons)
qed simp

lemma append_text_less:
  "append_text t s = (if length t + length s < json_capacity then Some (t @ s) else None)"
  by (auto simp: append_text_def)

lemma append_rows_text:
  "append_rows t k rows =
     (if rows = [] \<or> length t + length (rows_text k rows) < json_capacity then Some (t @ rows_text k rows)
      else None)"
proof (induction rows arbitrary: t k)
  case (Cons r rs)
  show ?case by (auto simp: append_text_less Cons.IH)
qed simp

lemma ring_events_contents:
  "length (h_events h) = event_capacity \<Longrightarrow> ring_events h = hist_events h"
  by (simp add: ring_events_def hist_events_def ring_contents_def)

text \<open>The baseline's row: an observation of the start, or the change the history begins with.\<close>

definition baseline_rows :: "movie \<Rightarrow> motion_history \<Rightarrow> string list" where
  "baseline_rows m h =
     (if 0 \<le> h_baseline_state h \<and> mv_start_ms m \<le> h_baseline_ms h \<and>
        h_baseline_ms h \<le> mv_start_ms m + mv_duration_ms m
      then [event_row m (h_baseline_ms h) (h_baseline_state h)
              (if h_baseline_is_sample h then ''sample'' else ''transition'')] else [])"

text \<open>
  C24. The text of a clip lists the changes of its time, and nothing else: for every model but the
  one with raw samples, and every history that was read, it is the header, the row of the baseline
  if that falls into the clip, and a row for each event of the history, oldest first, from the
  clip's start to its end, separated by commas; and there is no text exactly when this would take
  32,768 characters or more, so that what is written is never cut.
\<close>

theorem clip_lists_its_events:
  assumes "model \<noteq> ''y623''" "length (h_events h) = event_capacity"
  shows "build_json fmt_g model (Some h) levels m =
    (let truncated = mv_start_ms m < h_baseline_ms h;
         inside = filter (\<lambda>e. mv_start_ms m \<le> ev_unix_ms e \<and> ev_unix_ms e \<le> mv_start_ms m + mv_duration_ms m)
                    (hist_events h);
         json = json_header model m (initial_state m truncated h) True truncated @
           commas (baseline_rows m h @ map (\<lambda>e. event_row m (ev_unix_ms e) (ev_state e) ''transition'') inside) @
           '']}''
     in if length json < 32768 then Some json else None)"
proof -
  let ?till = "mv_start_ms m + mv_duration_ms m"
  let ?in = "filter (\<lambda>e. mv_start_ms m \<le> ev_unix_ms e \<and> ev_unix_ms e \<le> ?till) (hist_events h)"
  let ?rows = "map (\<lambda>e. event_row m (ev_unix_ms e) (ev_state e) ''transition'') ?in"
  have f: "filter (\<lambda>e. \<not> (ev_unix_ms e < mv_start_ms m \<or> ev_unix_ms e > ?till)) (ring_events h) = ?in"
    unfolding ring_events_contents [OF assms(2)] by (intro filter_cong) auto
  have r: "commas (baseline_rows m h @ ?rows) =
      rows_text 0 (baseline_rows m h) @ rows_text (length (baseline_rows m h)) ?rows"
    by (simp add: rows_text_commas [symmetric] rows_text_append)
  show ?thesis
    unfolding build_json_def if_not_P [OF assms(1)] Let_def option.case f baseline_rows_def [symmetric] r
    by (auto simp: append_text_less append_rows_text json_capacity_def split: bind_splits)
qed

section \<open>Witnesses\<close>

text \<open>A movie of five seconds in a file of 48 bytes.\<close>

definition small_clip :: "byte list" where
  "small_clip = [0, 0, 0, 8, 0x66, 0x72, 0x65, 0x65, 0, 0, 0, 40, 0x6d, 0x6f, 0x6f, 0x76,
     0, 0, 0, 32, 0x6d, 0x76, 0x68, 0x64, 0, 0, 0, 0, 0x7c, 0x25, 0xb0, 0x8a, 0, 0, 0, 0,
     0, 0, 3, 0xe8, 0, 0, 0x13, 0x88, 0, 0, 0, 0]"

definition small_movie :: movie where
  "small_movie = \<lparr>mv_offset = 8, mv_end = 48, mv_size = 40, mv_start_ms = 10000, mv_duration_ms = 5000\<rparr>"

lemmas find_box_numeral = find_box.simps(2) [of "pred_numeral k" for k, folded numeral_eq_Suc]
lemmas find_mvhd_numeral = find_mvhd.simps(2) [of "pred_numeral k" for k, folded numeral_eq_Suc]

lemma headers: "be32 (0 # 0 # 0 # 8 # r) = 8" "be32 (0 # 0 # 0 # 40 # r) = 40" "be32 (0 # 0 # 0 # 32 # r) = 32"
  "be32 (0 # 0 # 3 # 0xe8 # r) = 1000" "be32 (0 # 0 # 0x13 # 0x88 # r) = 5000" "be32 (0x7c # 0x25 # 0xb0 # 0x8a # r) = 2082844810"
  by (simp_all add: be32_def)

lemma small_clip_movie: "find_movie small_clip = Some small_movie"
  by (simp add: find_movie_def small_clip_def find_box_numeral read_at_def headers box_size_def box_moov_def box_mvhd_def
     find_mvhd_numeral read_mvhd_def mvhd_times_def mp4_epoch_def to_int64_def small_movie_def)
lemma metadata_is_appended_or_undone_witness:
  "finalize_metadata (\<lambda>_. Some ''{}'') \<lparr>fe_memory = True, fe_append = None, fe_resize = Some 2,
      fe_restore = None, fe_truncate = True\<rparr> small_clip = (-1, small_clip)"
proof -
  let ?e = "\<lparr>fe_memory = True, fe_append = None, fe_resize = Some 2, fe_restore = None, fe_truncate = True\<rparr>"
  obtain rc f' where r: "finalize_metadata (\<lambda>_. Some ''{}'') ?e small_clip = (rc, f')" by fastforce
  have "fst (finalize_metadata (\<lambda>_. Some ''{}'') ?e small_clip) = -1"
    unfolding finalize_metadata_def small_clip_movie option.case Let_def metadata_buffer_box
    by (simp add: write_at_def metadata_box_length small_movie_def del: of_nat_add)
  then have "rc \<noteq> 0" using r by simp
  then show ?thesis using metadata_is_appended_or_undone [OF small_clip_movie r] r by auto
qed

definition one_event :: motion_history where
  "one_event = \<lparr>h_first = 0, h_count = 1, h_baseline_state = 0, h_baseline_is_sample = True,
     h_baseline_ms = 9000, h_last_state = 1,
     h_events = \<lparr>ev_unix_ms = 12000, ev_state = 1\<rparr> # replicate 511 \<lparr>ev_unix_ms = 0, ev_state = 0\<rparr>\<rparr>"

lemma one_event_facts:
  "length (h_events one_event) = event_capacity" "hist_events one_event = [\<lparr>ev_unix_ms = 12000, ev_state = 1\<rparr>]"
  "h_baseline_ms one_event = 9000" "h_baseline_state one_event = 0" "baseline_rows small_movie one_event = []"
  by (simp_all add: one_event_def event_capacity_def hist_events_def ring_contents_def baseline_rows_def small_movie_def)

lemma digit_texts: "map digit_char [0, 1, 2, 3, 4, 5, 6, 7, 8, 9] = ''0123456789''"
  by code_simp

lemma digit_chars:
  "digit_char 0 = CHR ''0''" "digit_char (Suc 0) = CHR ''1''" "digit_char 2 = CHR ''2''" "digit_char 5 = CHR ''5''"
  using digit_texts by simp_all

lemma shown_numbers: "show_int 10000 = ''10000''" "show_int 5000 = ''5000''" "show_int 12000 = ''12000''"
  "show_int 2000 = ''2000''" "show_int 0 = ''0''" "show_int 1 = ''1''"
  by (simp_all add: show_int_def show_nat.simps digit_chars)

lemma clip_lists_its_events_witness:
  "build_json (\<lambda>_. []) ''y28ga'' (Some one_event) None small_movie =
    Some (json_header ''y28ga'' small_movie 0 True False @ ''[2000,12000,1,\"transition\"]'' @ '']}'')"
proof -
  have "ring_events one_event = hist_events one_event" by (rule ring_events_contents) (rule one_event_facts)
  then have i: "initial_state small_movie False one_event = 0"
    unfolding initial_state_def one_event_facts by (simp add: small_movie_def one_event_facts)
  have m: "mv_start_ms small_movie = 10000" "mv_duration_ms small_movie = 5000"
    by (simp_all add: small_movie_def)
  have row: "event_row small_movie 12000 1 ''transition'' = ''[2000,12000,1,\"transition\"]''"
    by (simp add: event_row_def m shown_numbers)
  have len: "length (json_header ''y28ga'' small_movie 0 True False) < 1000"
    by (simp add: json_header_def m shown_numbers json_truth_def)
  have "build_json (\<lambda>_. []) ''y28ga'' (Some one_event) None small_movie =
      (let json = json_header ''y28ga'' small_movie 0 True False @ ''[2000,12000,1,\"transition\"]'' @ '']}''
       in if length json < 32768 then Some json else None)"
    using clip_lists_its_events [of "''y28ga''" one_event "\<lambda>_. []" None small_movie, OF _ one_event_facts(1)]
    by (simp add: one_event_facts m i row Let_def)
  then show ?thesis using len by (simp add: Let_def)
qed

end
