(* ===== verification/Proccgi.thy ===== *)
theory Proccgi
  imports Text_Lines
begin

text \<open>
  \<open>src/proccgi/proccgi/src/proccgi.c\<close>: the program that turns the variables of a web request into
  shell assignments, which the scripts of the web interface evaluate.  The environment, the standard
  input and the arguments are given; the result is the standard output, or \<open>None\<close> where the
  program's behaviour is undefined.
\<close>

section \<open>Operations\<close>

text \<open>The value of a hexadecimal digit.\<close>

definition cgi_digit :: "char \<Rightarrow> nat" where
  "cgi_digit c = (if c_isdigit c then chr_code c - 48 else chr_code (c_toupper c) - 65 + 10)"

fun cgi_decode :: "string \<Rightarrow> string" where
  "cgi_decode [] = []"
| "cgi_decode (c # cs) =
     (if c = CHR ''+'' then CHR '' '' # cgi_decode cs
      else case cs of
        a # b # r \<Rightarrow>
          if c = CHR ''%'' \<and> c_isxdigit a \<and> c_isxdigit b
          then char_of (16 * cgi_digit a + cgi_digit b) # cgi_decode r
          else c # cgi_decode cs
      | _ \<Rightarrow> c # cgi_decode cs)"

text \<open>White space before the text and, after decoding, at its end is dropped.\<close>

definition parse_string :: "string \<Rightarrow> string" where
  "parse_string s = rev (dropWhile c_isspace (rev (cgi_decode (skip_space s))))"

definition name_char :: "char \<Rightarrow> bool" where
  "name_char c \<longleftrightarrow> c_isalnum c \<or> c = CHR ''_''"

definition escape_char :: "char \<Rightarrow> string" where
  "escape_char c = (if c = CHR 0x22 \<or> c = CHR 0x5C \<or> c = CHR ''`'' \<or> c = CHR ''$''
                    then [CHR 0x5C, c] else [c])"

definition handle_string :: "string \<Rightarrow> string" where
  "handle_string input =
     (let data = takeWhile (\<lambda>c. c \<noteq> nul) (parse_string input)
      in case data of
           [] \<Rightarrow> []
         | c # cs \<Rightarrow>
             if \<not> c_isalpha c \<and> c \<noteq> CHR ''_'' then []
             else case dropWhile name_char cs of
               [] \<Rightarrow> []
             | e # p2 \<Rightarrow>
                 if e \<noteq> CHR ''='' then []
                 else ''FORM_'' @ (c # takeWhile name_char cs) @ ''='' @ [CHR 0x22] @
                   concat (map escape_char p2) @ [CHR 0x22, newline])"

text \<open>\<open>strtok\<close> until it returns null.\<close>

function strtok_all :: "char \<Rightarrow> string \<Rightarrow> string list" where
  "strtok_all d s =
     (let t = dropWhile (\<lambda>c. c = d) s
      in if t = [] then [] else takeWhile (\<lambda>c. c \<noteq> d) t # strtok_all d (dropWhile (\<lambda>c. c \<noteq> d) t))"
  by pat_completeness auto
termination
proof (relation "measure (\<lambda>(d, s). length s)", goal_cases)
  case (2 d s t)
  then have "t \<noteq> []" "hd t \<noteq> d" using hd_dropWhile [of "\<lambda>c. c = d" s] by auto
  then have "length (dropWhile (\<lambda>c. c \<noteq> d) t) < length t"
    by (cases t) (auto simp: length_dropWhile_le le_imp_less_Suc)
  moreover have "length t \<le> length s" using 2 by (simp add: length_dropWhile_le)
  ultimately show ?case by simp
qed simp

declare strtok_all.simps [simp del]

text \<open>The input of a request: \<open>None\<close> is undefined, \<open>Some None\<close> is no input.\<close>

definition load_input :: "(string \<Rightarrow> string option) \<Rightarrow> string \<Rightarrow> string option option" where
  "load_input env stdin =
     (case env ''REQUEST_METHOD'' of
        None \<Rightarrow> Some None
      | Some meth \<Rightarrow>
          if meth = ''GET'' then Some (env ''QUERY_STRING'')
          else if meth = ''POST'' then
            (case env ''CONTENT_LENGTH'' of
               None \<Rightarrow> None
             | Some n \<Rightarrow>
                 let len = fst (strtol10 n)
                 in if len = 0 then Some None
                    else if len = -1 then None
                    else if len < 0 then Some None
                    else if length stdin < nat len then None
                    else Some (Some (takeWhile (\<lambda>c. c \<noteq> nul) (take (nat len) stdin))))
          else Some None)"

text \<open>What the program handles: the form's variables, the parts of the path, the arguments.\<close>

definition cgi_strings :: "(string \<Rightarrow> string option) \<Rightarrow> string \<Rightarrow> string list \<Rightarrow> string list option" where
  "cgi_strings env stdin args =
     map_option (\<lambda>input.
        (case input of Some data \<Rightarrow> strtok_all CHR ''&'' data | None \<Rightarrow> []) @
        (case env ''PATH_INFO'' of Some p \<Rightarrow> strtok_all CHR ''/'' p | None \<Rightarrow> []) @ args)
       (load_input env stdin)"

definition proccgi_main :: "(string \<Rightarrow> string option) \<Rightarrow> string \<Rightarrow> string list \<Rightarrow> string option" where
  "proccgi_main env stdin args =
     map_option (\<lambda>ss. concat (map handle_string ss)) (cgi_strings env stdin args)"

section \<open>A shell that reads the output\<close>

text \<open>
  Text between double quotes, as a POSIX shell reads it, with the rest of the input after the closing
  quote; \<open>None\<close> where the shell would expand something, or at an open end.
\<close>

fun sh_dquote :: "string \<Rightarrow> (string \<times> string) option" where
  "sh_dquote [] = None"
| "sh_dquote (c # cs) =
     (if c = CHR 0x22 then Some ([], cs)
      else if c = CHR ''$'' \<or> c = CHR ''`'' then None
      else if c = CHR 0x5C then
        (case cs of
           [] \<Rightarrow> None
         | d # ds \<Rightarrow>
             if d = newline then sh_dquote ds
             else if d = CHR 0x22 \<or> d = CHR 0x5C \<or> d = CHR ''`'' \<or> d = CHR ''$''
             then map_option (\<lambda>(v, r). (d # v, r)) (sh_dquote ds)
             else map_option (\<lambda>(v, r). (c # v, r)) (sh_dquote cs))
      else map_option (\<lambda>(v, r). (c # v, r)) (sh_dquote cs))"

text \<open>One assignment \<open>name="value"\<close> with the end of its line, and the rest of the script.\<close>

definition sh_assignment :: "string \<Rightarrow> ((string \<times> string) \<times> string) option" where
  "sh_assignment s =
     (let name = takeWhile name_char s; r = dropWhile name_char s
      in if name = [] \<or> take 2 r \<noteq> [CHR ''='', CHR 0x22] then None
         else case sh_dquote (drop 2 r) of
           None \<Rightarrow> None
         | Some (v, rest) \<Rightarrow> if take 1 rest \<noteq> [newline] then None else Some ((name, v), drop 1 rest))"

text \<open>A script of assignments; the first argument bounds their number.\<close>

fun sh_assignments :: "nat \<Rightarrow> string \<Rightarrow> (string \<times> string) list option" where
  "sh_assignments 0 s = (if s = [] then Some [] else None)"
| "sh_assignments (Suc n) s =
     (if s = [] then Some []
      else case sh_assignment s of
        None \<Rightarrow> None
      | Some (p, rest) \<Rightarrow> map_option (Cons p) (sh_assignments n rest))"

lemma sh_assignments_Suc: "sh_assignments n s = Some x \<Longrightarrow> sh_assignments (Suc n) s = Some x"
proof (induction n arbitrary: s x)
  case 0
  then show ?case by (simp split: if_splits)
next
  case (Suc n)
  show ?case
  proof (cases "s = []")
    case False
    then obtain p rest y where y: "sh_assignment s = Some (p, rest)" "sh_assignments n rest = Some y" "x = p # y"
      using Suc.prems by (auto split: option.splits)
    have "sh_assignments (Suc n) rest = Some y" by (rule Suc.IH [OF y(2)])
    then show ?thesis
      using False y by (simp only: sh_assignments.simps(2) [of "Suc n"]) (simp del: sh_assignments.simps)
  qed (use Suc.prems in simp)
qed

text \<open>The variable that a string of the request sets.\<close>

definition form_variable :: "string \<Rightarrow> (string \<times> string) option" where
  "form_variable input =
     (let data = takeWhile (\<lambda>c. c \<noteq> nul) (parse_string input);
          name = takeWhile name_char data; r = dropWhile name_char data
      in if name \<noteq> [] \<and> \<not> c_isdigit (hd name) \<and> r \<noteq> [] \<and> hd r = CHR ''=''
         then Some (''FORM_'' @ name, tl r) else None)"

lemma escaped_value: "sh_dquote (concat (map escape_char v) @ CHR 0x22 # r) = Some (v, r)"
proof (induction v)
  case (Cons c v)
  have n: "newline \<noteq> CHR 0x22" "newline \<noteq> CHR 0x5C" "newline \<noteq> CHR ''`''" "newline \<noteq> CHR ''$''"
    by (simp_all add: newline_def)
  show ?case using Cons n by (auto simp: escape_char_def)
qed simp

lemma handle_string_variable:
  "handle_string input =
     (case form_variable input of
        None \<Rightarrow> []
      | Some (name, v) \<Rightarrow> name @ ''='' @ [CHR 0x22] @ concat (map escape_char v) @ [CHR 0x22, newline])"
proof (cases "takeWhile (\<lambda>c. c \<noteq> nul) (parse_string input)")
  case Nil
  then show ?thesis by (simp add: handle_string_def form_variable_def)
next
  case (Cons c cs)
  have "c_isalpha c \<or> c = CHR ''_'' \<longleftrightarrow> name_char c \<and> \<not> c_isdigit c"
    by (auto simp: name_char_def cstr_simps)
  then show ?thesis
    by (cases "dropWhile name_char cs") (auto simp: handle_string_def form_variable_def Cons Let_def
      simp del: dropWhile_eq_Nil_conv)
qed

lemma form_variable_name:
  assumes "form_variable s = Some (name, v)"
  shows "name \<noteq> []" "\<forall>c\<in>set name. name_char c"
proof -
  obtain data where n: "name = ''FORM_'' @ takeWhile name_char data"
    using assms by (auto simp: form_variable_def Let_def split: if_splits)
  have "list_all name_char ''FORM_''" by code_simp
  then show "name \<noteq> []" "\<forall>c\<in>set name. name_char c"
    unfolding n by (auto simp: list_all_iff dest: set_takeWhileD)
qed

lemma proccgi_assignments:
  assumes "proccgi_main env stdin args = Some out"
  shows "\<exists>ss. cgi_strings env stdin args = Some ss \<and>
    sh_assignments (length ss) out = Some (List.map_filter form_variable ss)"
proof -
  obtain ss where ss: "cgi_strings env stdin args = Some ss" "out = concat (map handle_string ss)"
    using assms by (auto simp: proccgi_main_def)
  have nc: "\<not> name_char CHR ''=''" by (simp add: name_char_def cstr_simps)
  have step: "sh_assignments (Suc n) (handle_string s @ r) = map_option (Cons (name, v)) (sh_assignments n r)"
    if "form_variable s = Some (name, v)" for s n r name v
  proof -
    note name = form_variable_name [OF that]
    let ?r = "''='' @ [CHR 0x22] @ concat (map escape_char v) @ [CHR 0x22, newline] @ r"
    have h: "handle_string s @ r = name @ ?r" by (simp add: handle_string_variable that)
    have t: "takeWhile name_char (name @ ?r) = name" "dropWhile name_char (name @ ?r) = ?r"
      using name(2) nc by (simp_all add: takeWhile_append2 dropWhile_append2)
    show ?thesis
    proof -
      have "sh_assignment (name @ ?r) = Some ((name, v), r)"
        unfolding sh_assignment_def t Let_def using name(1) escaped_value [of v "newline # r"] by simp
      then show ?thesis unfolding h using name(1) by simp
    qed
  qed
  have "sh_assignments (length ss) (concat (map handle_string ss)) = Some (List.map_filter form_variable ss)"
  proof (induction ss)
    case (Cons s ss)
    show ?case
    proof (cases "form_variable s")
      case None
      then show ?thesis using sh_assignments_Suc [OF Cons.IH] by (simp add: handle_string_variable map_filter_simps)
    next
      case (Some p)
      then show ?thesis using step [of s "fst p" "snd p"] Cons.IH
        by (simp add: map_filter_simps del: sh_assignments.simps)
    qed
  qed (simp add: map_filter_simps)
  then show ?thesis using ss by simp
qed

text \<open>
  C8. Whatever the request, the output is safe to evaluate: a shell reads it as assignments only, one
  for each string of the request that is a name and a value, in order; each name begins with
  \<open>FORM_\<close>, and each value is the decoded value, up to a NUL byte, with nothing in it expanded,
  split or run.
\<close>

theorem output_is_only_assignments:
  assumes "proccgi_main env stdin args = Some out"
  shows "\<exists>ss. cgi_strings env stdin args = Some ss \<and>
    sh_assignments (length ss) out = Some (List.map_filter form_variable ss)"
  by (rule proccgi_assignments [OF assms])

section \<open>Encoding and decoding\<close>

text \<open>A text with every character written as a percent sign and two hexadecimal digits.\<close>

definition hex_char :: "nat \<Rightarrow> char" where
  "hex_char n = (if n < 10 then char_of (48 + n) else char_of (55 + n))"

definition cgi_encode :: "string \<Rightarrow> string" where
  "cgi_encode s = concat (map (\<lambda>c. [CHR ''%'', hex_char (chr_code c div 16), hex_char (chr_code c mod 16)]) s)"

lemma hex_chars:
  assumes "n < 16"
  shows "c_isxdigit (hex_char n) \<and> cgi_digit (hex_char n) = n \<and> hex_char n \<noteq> CHR ''&''"
proof -
  have "(of_char (char_of (48 + n)) :: nat) = 48 + n" "(of_char (char_of (55 + n)) :: nat) = 55 + n"
    using assms by simp_all
  then have c: "chr_code (hex_char n) = (if n < 10 then 48 + n else 55 + n)"
    by (simp add: hex_char_def chr_code_def)
  then have "c_isxdigit (hex_char n)" using assms by (simp add: c_isxdigit_def c_isdigit_def)
  moreover have "cgi_digit (hex_char n) = n"
    using assms c by (simp add: cgi_digit_def c_isdigit_def chr_code_toupper c_islower_def)
  moreover have "chr_code CHR ''&'' = 38" by code_simp
  then have "hex_char n \<noteq> CHR ''&''" using c by (auto split: if_splits)
  ultimately show ?thesis by blast
qed

lemma decode_encode: "cgi_decode (cgi_encode s) = s"
proof (induction s)
  case (Cons c s)
  have b: "chr_code c < 256" by (simp add: chr_code_def)
  have "chr_code c div 16 < 16" using b by linarith
  moreover have "chr_code c mod 16 < 16" by simp
  moreover have "(char_of (16 * (chr_code c div 16) + chr_code c mod 16) :: char) = c"
    unfolding mult_div_mod_eq by (simp add: chr_code_def)
  ultimately show ?case using Cons hex_chars by (simp add: cgi_encode_def)
qed (simp add: cgi_encode_def)

lemma decode_plain:
  "\<forall>c\<in>set a. c \<noteq> CHR ''+'' \<and> c \<noteq> CHR ''%'' \<Longrightarrow> cgi_decode (a @ b) = a @ cgi_decode b"
proof (induction a)
  case (Cons c a)
  then have "c \<noteq> CHR ''+''" "c \<noteq> CHR ''%''" by simp_all
  then have "cgi_decode (c # xs) = c # cgi_decode xs" for xs
    by (subst cgi_decode.simps) (simp split: list.split del: cgi_decode.simps)
  then show ?case using Cons by (simp del: cgi_decode.simps)
qed simp

lemma encode_chars: "CHR ''&'' \<notin> set (cgi_encode s)"
proof -
  have h: "hex_char (chr_code c div 16) \<noteq> CHR ''&''" "hex_char (chr_code c mod 16) \<noteq> CHR ''&''" for c
  proof -
    have "chr_code c < 256" by (simp add: chr_code_def)
    then have "chr_code c div 16 < 16" by linarith
    then show "hex_char (chr_code c div 16) \<noteq> CHR ''&''" "hex_char (chr_code c mod 16) \<noteq> CHR ''&''"
      using hex_chars by simp_all
  qed
  show ?thesis by (induction s) (simp_all add: cgi_encode_def h [symmetric])
qed

lemma name_chars_plain:
  assumes "name_char c"
  shows "c \<noteq> CHR ''+'' \<and> c \<noteq> CHR ''%'' \<and> c \<noteq> CHR ''&'' \<and> c \<noteq> CHR ''='' \<and> c \<noteq> nul \<and> \<not> c_isspace c"
proof -
  have "\<not> name_char CHR ''+''" "\<not> name_char CHR ''%''" "\<not> name_char CHR ''&''" "\<not> name_char CHR ''=''"
    "\<not> name_char nul" by code_simp+
  moreover have "\<not> c_isspace c"
    using assms by (cases "c = CHR ''_''") (auto simp: name_char_def cstr_simps)
  ultimately show ?thesis using assms by metis
qed

lemma strtok_single: "s \<noteq> [] \<Longrightarrow> d \<notin> set s \<Longrightarrow> strtok_all d s = [s]"
proof -
  assume s: "s \<noteq> []" "d \<notin> set s"
  have "dropWhile (\<lambda>c. c = d) s = s" using s by (cases s) auto
  moreover have "takeWhile (\<lambda>c. c \<noteq> d) s = s" "dropWhile (\<lambda>c. c \<noteq> d) s = []" using s by auto
  moreover have "strtok_all d [] = []" by (subst strtok_all.simps) simp
  ultimately show ?thesis using s by (subst strtok_all.simps) (simp add: Let_def del: takeWhile_eq_all_conv dropWhile_eq_Nil_conv)
qed

lemma parse_encoded:
  assumes "name \<noteq> []" "\<forall>c\<in>set name. name_char c" "v = [] \<or> \<not> c_isspace (last v)"
  shows "parse_string (name @ ''='' @ cgi_encode v) = name @ ''='' @ v"
proof -
  have ns: "\<not> c_isspace (hd name)" using assms(1,2) name_chars_plain by (cases name) auto
  have eq: "\<not> c_isspace CHR ''=''" by code_simp
  have "skip_space (name @ ''='' @ cgi_encode v) = name @ ''='' @ cgi_encode v"
    using assms(1) ns by (cases name) (auto simp: skip_space_def)
  moreover have "cgi_decode (name @ ''='' @ cgi_encode v) = name @ ''='' @ v"
    using decode_plain [of "name @ ''=''" "cgi_encode v"] assms(2) name_chars_plain by (auto simp: decode_encode)
  moreover have "\<not> c_isspace (hd (rev (name @ ''='' @ v)))" using assms(3) eq by (cases v rule: rev_cases) auto
  then have "dropWhile c_isspace (rev (name @ ''='' @ v)) = rev (name @ ''='' @ v)"
    by (cases "rev (name @ ''='' @ v)") auto
  ultimately show ?thesis unfolding parse_string_def by (simp del: rev_append)
qed

text \<open>
  C25. A form's value comes through: for a request of the method GET with one variable whose value is
  written in percent notation, the shell that evaluates the output has the variable with exactly
  the value that was encoded, of any bytes but NUL and without white space at its end.
\<close>

theorem form_value_roundtrip:
  assumes "name \<noteq> []" "\<forall>c\<in>set name. name_char c" "\<not> c_isdigit (hd name)"
    "nul \<notin> set v" "v = [] \<or> \<not> c_isspace (last v)"
  shows "\<exists>out. proccgi_main [''REQUEST_METHOD'' \<mapsto> ''GET'', ''QUERY_STRING'' \<mapsto> name @ ''='' @ cgi_encode v] stdin [] =
      Some out \<and> sh_assignments 1 out = Some [(''FORM_'' @ name, v)]"
proof -
  let ?s = "name @ ''='' @ cgi_encode v"
  have "CHR ''&'' \<notin> set ?s" using assms(2) name_chars_plain encode_chars by auto
  then have tok: "strtok_all CHR ''&'' ?s = [?s]" using assms(1) by (intro strtok_single) simp_all
  have main: "proccgi_main [''REQUEST_METHOD'' \<mapsto> ''GET'', ''QUERY_STRING'' \<mapsto> ?s] stdin [] = Some (handle_string ?s)"
    using tok by (simp add: proccgi_main_def cgi_strings_def load_input_def)
  have nn: "\<forall>c\<in>set (name @ ''='' @ v). c \<noteq> nul"
    using assms(2,4) name_chars_plain by (auto simp: nul_def)
  have eq: "\<not> name_char CHR ''=''" by code_simp
  have "takeWhile (\<lambda>c. c \<noteq> nul) (parse_string ?s) = name @ ''='' @ v"
    unfolding parse_encoded [OF assms(1,2,5)] using nn by (simp add: takeWhile_eq_all_conv del: set_append)
  then have fv: "form_variable ?s = Some (''FORM_'' @ name, v)"
    using assms(1-3) eq by (simp add: form_variable_def Let_def takeWhile_append2 dropWhile_append2)
  have "cgi_strings [''REQUEST_METHOD'' \<mapsto> ''GET'', ''QUERY_STRING'' \<mapsto> ?s] stdin [] = Some [?s]"
    using tok by (simp add: cgi_strings_def load_input_def)
  then have "sh_assignments 1 (handle_string ?s) = Some [(''FORM_'' @ name, v)]"
    using proccgi_assignments [OF main] fv by (simp add: map_filter_simps del: sh_assignments.simps)
  then show ?thesis using main by blast
qed

section \<open>Witnesses\<close>

lemma output_is_only_assignments_witness:
  "\<exists>out. proccgi_main (\<lambda>_. None) [] [''x=$(reboot)'', ''--help''] = Some out \<and>
    sh_assignments 2 out = Some [(''FORM_x'', ''$(reboot)'')]"
proof -
  obtain out where o: "proccgi_main (\<lambda>_. None) [] [''x=$(reboot)'', ''--help''] = Some out"
    by (simp add: proccgi_main_def cgi_strings_def load_input_def)
  have "cgi_strings (\<lambda>_. None) [] [''x=$(reboot)'', ''--help''] = Some [''x=$(reboot)'', ''--help'']"
    by (simp add: cgi_strings_def load_input_def)
  moreover have "form_variable ''x=$(reboot)'' = Some (''FORM_x'', ''$(reboot)'')" "form_variable ''--help'' = None"
    by code_simp+
  ultimately show ?thesis
    using output_is_only_assignments [OF o] o
    by (auto simp: map_filter_simps numeral_2_eq_2 simp del: sh_assignments.simps)
qed

lemma form_value_roundtrip_witness:
  "\<exists>out. proccgi_main [''REQUEST_METHOD'' \<mapsto> ''GET'', ''QUERY_STRING'' \<mapsto> ''pw'' @ ''='' @ cgi_encode [CHR 0x22, CHR ''&'']] [] [] =
      Some out \<and> sh_assignments 1 out = Some [(''FORM_'' @ ''pw'', [CHR 0x22, CHR ''&''])]"
proof -
  have "\<forall>c\<in>set ''pw''. name_char c" "\<not> c_isdigit (hd ''pw'')" "nul \<notin> set [CHR 0x22, CHR ''&'']"
    "\<not> c_isspace (last [CHR 0x22, CHR ''&''])" by code_simp+
  then show ?thesis using form_value_roundtrip [of "''pw''" "[CHR 0x22, CHR ''&'']" "[]"] by simp
qed

end
