(* ===== verification/Record_Preroll.thy ===== *)
theory Record_Preroll
  imports Prelude
begin

text \<open>
  \<open>src/ipc_cmd/ipc_cmd/record_preroll.c\<close>: the routine placed into the vendor's recorder that measures
  how much video its ring of encoded packets holds.  The ring's descriptor gives the bytes in use and
  the position of the oldest packet; each packet has a header of seven words, the first the length of
  what follows it and the fifth its time.  The vendor's copying of a header, which follows the ring's
  end, is a parameter; the lock around the walk keeps the ring from changing.
\<close>

datatype preroll_model = Preroll_Y623 | Preroll_Y28GA

fun preroll_capacity :: "preroll_model \<Rightarrow> u32" where
  "preroll_capacity Preroll_Y623 = 0xe0000"
| "preroll_capacity Preroll_Y28GA = 0x100000"

definition preroll_header_size :: u32 where "preroll_header_size = 28"

text \<open>The locals of the walk: the first time, the last time and the number of packets.\<close>

type_synonym preroll_acc = "u32 \<times> u32 \<times> u32"

definition preroll_next :: "u32 \<Rightarrow> u32 \<Rightarrow> u32 \<Rightarrow> u32" where
  "preroll_next capacity position len =
     (let p = position + (len + preroll_header_size) in if p \<ge> capacity then p - capacity else p)"

lemma preroll_size:
  fixes r l :: u32
  assumes "\<not> r < preroll_header_size" "\<not> l > r - preroll_header_size"
  shows "unat (l + preroll_header_size) = unat l + 28" "unat l + 28 \<le> unat r"
    "unat (r - (l + preroll_header_size)) = unat r - (unat l + 28)"
  using assms unfolding preroll_header_size_def by unat_arith+

function preroll_walk ::
  "u32 \<Rightarrow> (u32 \<Rightarrow> u32 list) \<Rightarrow> u32 \<Rightarrow> u32 \<Rightarrow> preroll_acc \<Rightarrow> u32 \<times> preroll_acc" where
  "preroll_walk capacity copy remaining position (first, last_ms, count) =
     (if remaining < preroll_header_size then (remaining, (first, last_ms, count))
      else let header = copy position
           in if header ! 0 > remaining - preroll_header_size then (remaining, (first, last_ms, count))
              else preroll_walk capacity copy (remaining - (header ! 0 + preroll_header_size))
                     (preroll_next capacity position (header ! 0))
                     (if count = 0 then header ! 4 else first, header ! 4, count + 1))"
  by pat_completeness auto

termination
  by (relation "measure (\<lambda>(_, _, remaining, _). unat remaining)") (simp, frule (1) preroll_size(2), simp add: preroll_size(3))

declare preroll_walk.simps [simp del]

definition record_ring_duration :: "preroll_model \<Rightarrow> (u32 \<Rightarrow> u32 list) \<Rightarrow> u32 \<Rightarrow> u32 \<Rightarrow> u32" where
  "record_ring_duration model copy remaining0 position =
     (let capacity = preroll_capacity model;
          (remaining, first, last_ms, count) =
            (if remaining0 \<le> capacity \<and> position < capacity
             then preroll_walk capacity copy remaining0 position (0, 0, 0)
             else (remaining0, 0, 0, 0));
          span = last_ms - first
      in if count \<noteq> 0 \<and> remaining = 0 \<and> span \<le> 120000 then span else 0)"

section \<open>The packets of a ring\<close>

text \<open>Packets of a length and a time that follow each other in a ring, on natural numbers.\<close>

fun ring_packets :: "nat \<Rightarrow> (u32 \<Rightarrow> u32 list) \<Rightarrow> nat \<Rightarrow> (nat \<times> u32) list \<Rightarrow> bool" where
  "ring_packets capacity copy position [] = True"
| "ring_packets capacity copy position ((len, ms) # ps) =
     (unat (copy (word_of_nat position) ! 0) = len \<and> copy (word_of_nat position) ! 4 = ms \<and>
      ring_packets capacity copy ((position + 28 + len) mod capacity) ps)"

definition ring_bytes :: "(nat \<times> u32) list \<Rightarrow> nat" where
  "ring_bytes ps = (\<Sum>p\<leftarrow>ps. 28 + fst p)"

lemma ring_bytes_simps [simp]:
  "ring_bytes [] = 0" "ring_bytes ((len, ms) # ps) = 28 + len + ring_bytes ps"
  by (simp_all add: ring_bytes_def)

definition packets_span :: "(nat \<times> u32) list \<Rightarrow> u32" where
  "packets_span ps = (if ps = [] then 0 else snd (last ps) - snd (hd ps))"

lemma preroll_next_nat:
  assumes "unat position < unat capacity" "unat len + 28 \<le> unat capacity" "unat capacity \<le> 2 ^ 20"
    "unat (len + preroll_header_size) = unat len + 28"
  shows "unat (preroll_next capacity position len) = (unat position + 28 + unat len) mod unat capacity"
proof -
  have s: "unat (position + (len + preroll_header_size)) = unat position + 28 + unat len"
    using assms by (simp add: unat_word_ariths)
  show ?thesis
  proof (cases "position + (len + preroll_header_size) \<ge> capacity")
    case True
    then have ge: "unat capacity \<le> unat position + 28 + unat len" using s by (simp add: word_le_nat_alt)
    have "unat (preroll_next capacity position len) = unat position + 28 + unat len - unat capacity"
      using True s by (simp add: preroll_next_def Let_def unat_sub)
    also have "\<dots> = (unat position + 28 + unat len) mod unat capacity"
      using assms(1,2) ge by (subst le_mod_geq) simp_all
    finally show ?thesis .
  next
    case False
    then show ?thesis using s by (simp add: preroll_next_def Let_def word_le_nat_alt)
  qed
qed

lemma walk_packets:
  assumes "ring_packets (unat capacity) copy (unat position) ps" "ring_bytes ps = unat remaining"
    "unat position < unat capacity" "unat remaining \<le> unat capacity" "unat capacity \<le> 2 ^ 20"
    "28 * unat count + unat remaining \<le> 2 ^ 20"
  shows "preroll_walk capacity copy remaining position (first, last_ms, count) =
    (0, if count = 0 \<and> ps \<noteq> [] then snd (hd ps) else first, if ps = [] then last_ms else snd (last ps),
     count + word_of_nat (length ps))"
  using assms
proof (induction ps arbitrary: remaining position first last_ms count)
  case Nil
  then have "remaining = 0" by (simp add: unat_eq_zero)
  then show ?case by (simp add: preroll_walk.simps preroll_header_size_def)
next
  case (Cons p ps)
  obtain len ms where p: "p = (len, ms)" by fastforce
  let ?l = "copy position ! 0"
  have l: "unat ?l = len" "copy position ! 4 = ms" using Cons.prems(1) by (simp_all add: p)
  have r: "unat remaining = 28 + len + ring_bytes ps" using Cons.prems(2) by (simp add: p)
  have "\<not> unat remaining < unat preroll_header_size" using r by (simp add: preroll_header_size_def)
  then have g1: "\<not> remaining < preroll_header_size" by (simp only: word_less_nat_alt not_False_eq_True)
  moreover have "unat (remaining - preroll_header_size) = unat remaining - 28"
    using g1 unfolding preroll_header_size_def by unat_arith
  ultimately have g: "\<not> remaining < preroll_header_size" "\<not> ?l > remaining - preroll_header_size"
    using r l(1) by (simp_all add: word_less_nat_alt)
  note sz = preroll_size [OF g]
  have nx: "unat (preroll_next capacity position ?l) = (unat position + 28 + len) mod unat capacity"
    using preroll_next_nat [OF Cons.prems(3) _ Cons.prems(5) sz(1)] sz(2) Cons.prems(4) l(1) by simp
  have c1: "unat (count + 1) = unat count + 1" using Cons.prems(6) r by (simp add: unat_word_ariths)
  then have c0: "count + 1 \<noteq> 0" by (metis Suc_eq_plus1 nat.distinct(1) unat_0)
  have "preroll_walk capacity copy remaining position (first, last_ms, count) =
      preroll_walk capacity copy (remaining - (?l + preroll_header_size)) (preroll_next capacity position ?l)
        (if count = 0 then ms else first, ms, count + 1)"
    by (subst preroll_walk.simps) (simp add: g Let_def l(2) del: not_less)
  also have "\<dots> = (0, if count = 0 then ms else first, if ps = [] then ms else snd (last ps),
      count + 1 + word_of_nat (length ps))"
    using Cons.prems(1,3-6) r sz nx c1 c0 by (subst Cons.IH) (simp_all add: p l(1))
  finally show ?case by (simp add: p)
qed

lemma walk_ended:
  assumes "preroll_walk capacity copy remaining position acc = (0, acc')"
    "unat position < unat capacity" "unat remaining \<le> unat capacity" "unat capacity \<le> 2 ^ 20"
  shows "\<exists>ps. ring_packets (unat capacity) copy (unat position) ps \<and> ring_bytes ps = unat remaining"
  using assms
proof (induction capacity copy remaining position acc rule: preroll_walk.induct)
  case (1 capacity copy remaining position first last_ms count)
  let ?l = "copy position ! 0"
  consider "remaining < preroll_header_size \<or> ?l > remaining - preroll_header_size"
    | "\<not> remaining < preroll_header_size" "\<not> ?l > remaining - preroll_header_size" by blast
  then show ?case
  proof cases
    case 1
    then have "remaining = 0" using "1.prems"(1) by (subst (asm) preroll_walk.simps) (auto simp: Let_def split: if_splits)
    then show ?thesis by (intro exI [of _ "[]"]) simp
  next
    case 2
    note sz = preroll_size [OF 2]
    let ?n = "preroll_next capacity position ?l"
    have nx: "unat ?n = (unat position + 28 + unat ?l) mod unat capacity"
      using preroll_next_nat [OF "1.prems"(2) _ "1.prems"(4) sz(1)] sz(2) "1.prems"(3) by simp
    have w: "preroll_walk capacity copy (remaining - (?l + preroll_header_size)) ?n
        (if count = 0 then copy position ! 4 else first, copy position ! 4, count + 1) = (0, acc')"
      using "1.prems"(1) 2 by (subst (asm) preroll_walk.simps) (simp add: Let_def del: not_less)
    then obtain ps where ps: "ring_packets (unat capacity) copy (unat ?n) ps"
      "ring_bytes ps = unat (remaining - (?l + preroll_header_size))"
    proof -
      have "unat ?n < unat capacity" using nx "1.prems"(2) by simp
      moreover have "unat (remaining - (?l + preroll_header_size)) \<le> unat capacity" using sz(3) "1.prems"(3) by simp
      ultimately show thesis using "1.IH" [OF 2(1) refl 2(2) w] "1.prems"(4) that by blast
    qed
    then show ?thesis
      using sz nx by (intro exI [of _ "(unat ?l, copy position ! 4) # ps"]) simp
  qed
qed

lemma preroll_capacity_bound: "0 < unat (preroll_capacity m)" "unat (preroll_capacity m) \<le> 2 ^ 20"
  by (cases m; simp)+

text \<open>
  The recorder's ring is measured exactly or not at all: for every content of the ring whose
  descriptor is in range, if packets that follow each other from the oldest position fill exactly the
  bytes in use, the result is the time from the first of them to the last, on a clock of 32 bits that
  may wrap, or 0 when it is more than two minutes or there is no packet; and if no packets fill them
  exactly, because a header is damaged, the result is 0.
\<close>

theorem ring_duration_is_exact:
  assumes "remaining \<le> preroll_capacity model" "position < preroll_capacity model"
  shows "(\<forall>ps. ring_packets (unat (preroll_capacity model)) copy (unat position) ps \<and> ring_bytes ps = unat remaining \<longrightarrow>
       record_ring_duration model copy remaining position =
         (if packets_span ps \<le> 120000 then packets_span ps else 0)) \<and>
    ((\<nexists>ps. ring_packets (unat (preroll_capacity model)) copy (unat position) ps \<and> ring_bytes ps = unat remaining) \<longrightarrow>
       record_ring_duration model copy remaining position = 0)"
proof -
  let ?c = "preroll_capacity model"
  have b: "unat position < unat ?c" "unat remaining \<le> unat ?c" "unat ?c \<le> 2 ^ 20"
    using assms preroll_capacity_bound by (simp_all add: word_less_nat_alt word_le_nat_alt)
  have "record_ring_duration model copy remaining position =
      (if packets_span ps \<le> 120000 then packets_span ps else 0)"
    if ps: "ring_packets (unat ?c) copy (unat position) ps" "ring_bytes ps = unat remaining" for ps
  proof -
    have "28 * length ps \<le> ring_bytes ps" by (induction ps) auto
    then have "length ps < 2 ^ 32" using ps(2) b(2,3) by simp
    then have "(word_of_nat (length ps) :: u32) = 0 \<longleftrightarrow> ps = []"
      by (simp add: unat_eq_zero [symmetric] unat_of_nat)
    then show ?thesis
      using walk_packets [OF ps b, of 0 0 0] b(2,3) assms
      by (simp add: record_ring_duration_def Let_def packets_span_def)
  qed
  moreover have "record_ring_duration model copy remaining position = 0"
    if "\<nexists>ps. ring_packets (unat ?c) copy (unat position) ps \<and> ring_bytes ps = unat remaining"
  proof -
    obtain r f l n where w: "preroll_walk ?c copy remaining position (0, 0, 0) = (r, f, l, n)"
      by (cases "preroll_walk ?c copy remaining position (0, 0, 0)") auto
    then have "r \<noteq> 0" using walk_ended [OF _ b] that by metis
    then show ?thesis using assms w by (simp add: record_ring_duration_def Let_def)
  qed
  ultimately show ?thesis by blast
qed

text \<open>Two packets, the second across the end of the ring, 33 milliseconds apart on a clock that wraps between them.\<close>

definition two_packets :: "u32 \<Rightarrow> u32 list" where
  "two_packets p = (if p = 0xdffe0 then [100, 0, 0, 0, 0xfffffff0, 0, 0] else [50, 0, 0, 0, 17, 0, 0])"

lemma ring_duration_is_exact_witness:
  "record_ring_duration Preroll_Y623 two_packets 206 0xdffe0 = 33"
proof -
  let ?ps = "[(100, 0xfffffff0), (50, 17)] :: (nat \<times> u32) list"
  have p: "ring_packets (unat (preroll_capacity Preroll_Y623)) two_packets (unat (0xdffe0 :: u32)) ?ps"
    "ring_bytes ?ps = unat (206 :: u32)"
    by (simp_all add: two_packets_def)
  have "packets_span ?ps = 33" by (simp add: packets_span_def)
  moreover have "record_ring_duration Preroll_Y623 two_packets 206 0xdffe0 =
      (if packets_span ?ps \<le> 120000 then packets_span ?ps else 0)"
    by (rule ring_duration_is_exact [THEN conjunct1, rule_format]) (use p in simp_all)
  ultimately show ?thesis by simp
qed

end
