(* ===== verification/Reset_Hotspot.thy ===== *)
theory Reset_Hotspot
  imports Prelude
begin

text \<open>
  \<open>src/ipc_cmd/ipc_cmd/reset_hotspot.h\<close> and \<open>reset_hotspot.c\<close>: the library that the vendor's
  dispatcher loads so that a long press of the reset button asks for a hotspot instead of a factory
  reset.  It wraps \<open>ioctl\<close>; only the call at one audited address that asks for the button's level is
  changed.  The kernel's answers (what a file descriptor refers to, whether files open and how much is
  written) are arguments of each call.
\<close>

section \<open>A press\<close>

record reset_press =
  rp_since :: u64
  rp_tracking :: bool
  rp_fired :: bool

definition reset_press_update :: "reset_press \<Rightarrow> int \<Rightarrow> u64 \<Rightarrow> reset_press \<times> bool" where
  "reset_press_update press level now =
     (if 0 < level then (press\<lparr>rp_tracking := False, rp_fired := False\<rparr>, False)
      else if level < 0 then (press\<lparr>rp_tracking := False\<rparr>, False)
      else let p = (if rp_tracking press then press else press\<lparr>rp_since := now, rp_tracking := True\<rparr>)
           in if \<not> rp_fired p \<and> now \<ge> rp_since p \<and> now - rp_since p \<ge> 5000
              then (p\<lparr>rp_fired := True\<rparr>, True) else (p, False))"

section \<open>The hook\<close>

record reset_profile =
  rf_model :: string
  rf_caller :: nat
  rf_words :: "u32 list"

definition reset_profiles :: "reset_profile list" where
  "reset_profiles =
     [\<lparr>rf_model = ''y623'', rf_caller = 0x19b54, rf_words = [0xe307100e, 0xe5960020, 0xebffdd24]\<rparr>,
      \<lparr>rf_model = ''y28ga'', rf_caller = 0x1864c, rf_words = [0xe307100e, 0xe5960024, 0xebffe267]\<rparr>]"

record reset_hook =
  rh_profile :: "reset_profile option"
  rh_press :: reset_press
  rh_armed_reported :: bool
  rh_accept_after :: u64
  rh_startup_released :: bool
  rh_runtime_ready :: bool

definition reset_hook_init :: reset_hook where
  "reset_hook_init = \<lparr>rh_profile = None, rh_press = \<lparr>rp_since = 0, rp_tracking = False, rp_fired = False\<rparr>,
     rh_armed_reported = False, rh_accept_after = 0, rh_startup_released = False, rh_runtime_ready = False\<rparr>"

text \<open>\<open>exe\<close>: the three words at an offset of the executable, if it opens and they can be read.\<close>

definition reset_initialize :: "string option \<Rightarrow> (nat \<Rightarrow> u32 list option) option \<Rightarrow> reset_hook \<Rightarrow> reset_hook" where
  "reset_initialize model exe h =
     (case (model, exe) of
        (Some m, Some words) \<Rightarrow>
          if m = [] then h
          else fold (\<lambda>p h. if m = rf_model p \<and> words (rf_caller p - 12 - 0x10000) = Some (rf_words p)
                           then h\<lparr>rh_profile := Some p\<rparr> else h) reset_profiles h
      | _ \<Rightarrow> h)"

datatype reset_effect =
    Open_Armed | Write_Armed string
  | Open_Request string | Write_Request string string | Rename_Request string string | Unlink_Request string

text \<open>
  What the system answers during one call: the link of the file descriptor, and for each of the two
  files whether it opens, is regular, and the result of the write.
\<close>

record reset_env =
  rv_target :: "string option"
  rv_pid :: int
  rv_armed_fd :: bool
  rv_armed_regular :: bool
  rv_armed_write :: int
  rv_request_fd :: bool
  rv_request_regular :: bool
  rv_request_write :: int

definition report_armed :: "reset_env \<Rightarrow> reset_hook \<Rightarrow> reset_hook \<times> reset_effect list" where
  "report_armed e h =
     (if rh_armed_reported h then (h, [])
      else if \<not> rv_armed_fd e then (h, [Open_Armed])
      else if \<not> rv_armed_regular e then (h, [Open_Armed])
      else let pid = show_int (rv_pid e) @ ''\<newline>''
           in (h\<lparr>rh_armed_reported := (rv_armed_write e = int (length pid))\<rparr>, [Open_Armed, Write_Armed pid]))"

definition reset_request_path :: string where
  "reset_request_path = ''/tmp/yi-hotspot.request''"

definition request_hotspot :: "reset_env \<Rightarrow> reset_effect list" where
  "request_hotspot e =
     (let temporary = reset_request_path @ ''.button.'' @ show_int (rv_pid e);
          ok = (rv_request_regular e \<and> rv_request_write e = 11)
      in if \<not> rv_request_fd e then [Open_Request temporary]
         else Open_Request temporary #
           (if rv_request_regular e then [Write_Request temporary ''start-open\<newline>''] else []) @
           [if ok then Rename_Request temporary reset_request_path else Unlink_Request temporary])"

definition clock_failed :: u64 where "clock_failed = - 1"

definition reset_request_code :: u32 where "reset_request_code = 0x700e"

text \<open>The sample of the poll: what follows the checks of the call.\<close>

definition filter_sample :: "reset_env \<Rightarrow> int \<Rightarrow> u64 \<Rightarrow> reset_hook \<Rightarrow> reset_hook \<times> reset_effect list" where
  "filter_sample e result now h =
     (if now = clock_failed then (h\<lparr>rh_press := (rh_press h)\<lparr>rp_tracking := False\<rparr>\<rparr>, [])
      else if \<not> rh_startup_released h
      then (h\<lparr>rh_startup_released := (0 < result), rh_press := (rh_press h)\<lparr>rp_tracking := False\<rparr>\<rparr>, [])
      else let (p, fire) = reset_press_update (rh_press h) result now
           in (h\<lparr>rh_press := p\<rparr>, if fire then request_hotspot e else []))"

definition filter_level ::
  "reset_env \<Rightarrow> u32 \<Rightarrow> nat \<Rightarrow> int \<Rightarrow> u64 \<Rightarrow> reset_hook \<Rightarrow> int \<times> reset_hook \<times> reset_effect list" where
  "filter_level e request caller result now h =
     (case rh_profile h of
        None \<Rightarrow> (result, h, [])
      | Some p \<Rightarrow>
          if request \<noteq> reset_request_code \<or> caller \<noteq> rf_caller p then (result, h, [])
          else
            let h1 = (if rh_accept_after h = 0 \<and> now \<noteq> clock_failed then h\<lparr>rh_accept_after := now + 30000\<rparr> else h)
            in if rh_accept_after h1 = 0 \<or> now < rh_accept_after h1 then (result, h1, [])
               else if rv_target e \<noteq> Some ''/dev/cpld_periph'' then (result, h1, [])
               else let (h2, armed) = report_armed e h1; (h3, requested) = filter_sample e result now h2
                    in (if result = 0 then 1 else result, h3, armed @ requested))"

text \<open>
  The wrapped \<open>ioctl\<close>.  \<open>found\<close> is the C library's function with its result and \<open>errno\<close>, when it was
  found; \<open>ready\<close> whether the file that enables the feature exists; \<open>clock\<close> the monotonic clock.
\<close>

definition reset_milliseconds :: "(int \<times> int) option \<Rightarrow> u64" where
  "reset_milliseconds clock =
     (case clock of None \<Rightarrow> clock_failed
      | Some (sec, nsec) \<Rightarrow> word_of_int sec * 1000 + word_of_int (nsec div 1000000))"

definition reset_ioctl ::
  "(int \<times> errno) option \<Rightarrow> bool \<Rightarrow> (int \<times> int) option \<Rightarrow> reset_env \<Rightarrow> u32 \<Rightarrow> nat \<Rightarrow> reset_hook \<Rightarrow>
   (int \<times> errno) \<times> reset_hook \<times> reset_effect list" where
  "reset_ioctl found ready clock e request caller h =
     (case found of
        None \<Rightarrow> ((-1, ENOSYS), h, [])
      | Some (result, saved) \<Rightarrow>
          if rh_profile h = None \<or> request \<noteq> reset_request_code then ((result, saved), h, [])
          else let h1 = (if rh_runtime_ready h then h else h\<lparr>rh_runtime_ready := ready\<rparr>)
               in if \<not> rh_runtime_ready h1 then ((result, saved), h1, [])
                  else let (r, h2, effects) = filter_level e request caller result (reset_milliseconds clock) h1
                       in ((r, saved), h2, effects))"

section \<open>Presses of a history\<close>

text \<open>
  A sample of the button, with the environment of its call.  A failed clock counts as a failed read.
\<close>

type_synonym reset_sample = "reset_env \<times> int \<times> u64"

definition sample_level :: "reset_sample \<Rightarrow> int" where
  "sample_level s = (case s of (_, level, now) \<Rightarrow> if now = clock_failed then -1 else level)"

definition sample_ms :: "reset_sample \<Rightarrow> nat" where
  "sample_ms s = (case s of (_, _, now) \<Rightarrow> unat now)"

text \<open>Histories have the newest sample first.  The button is held when the unbroken run of pressed
  samples up to now spans five seconds.\<close>

definition pressed_run :: "reset_sample list \<Rightarrow> reset_sample list" where
  "pressed_run hist = takeWhile (\<lambda>s. sample_level s = 0) hist"

definition held :: "reset_sample list \<Rightarrow> bool" where
  "held hist \<longleftrightarrow> pressed_run hist \<noteq> [] \<and> sample_ms (last (pressed_run hist)) + 5000 \<le> sample_ms (hd hist)"

definition since_release :: "reset_sample list \<Rightarrow> reset_sample list" where
  "since_release hist = takeWhile (\<lambda>s. \<not> 0 < sample_level s) hist"

definition already_held :: "reset_sample list \<Rightarrow> bool" where
  "already_held hist \<longleftrightarrow> (\<exists>k < length (since_release hist). held (drop k hist))"

definition was_released :: "reset_sample list \<Rightarrow> bool" where
  "was_released hist \<longleftrightarrow> (\<exists>s \<in> set hist. 0 < sample_level s)"

text \<open>A request is due when the button is held for the first time since it was last released.\<close>

definition request_due :: "reset_sample list \<Rightarrow> bool" where
  "request_due hist \<longleftrightarrow> was_released hist \<and> held hist \<and> \<not> already_held (tl hist)"

definition reset_inv :: "reset_sample list \<Rightarrow> reset_hook \<Rightarrow> bool" where
  [inv_defs]: "reset_inv hist h \<longleftrightarrow>
     rh_startup_released h = was_released hist \<and>
     (if was_released hist
      then rp_fired (rh_press h) = already_held hist \<and> rp_tracking (rh_press h) = (pressed_run hist \<noteq> []) \<and>
           (pressed_run hist \<noteq> [] \<longrightarrow> unat (rp_since (rh_press h)) = sample_ms (last (pressed_run hist)))
      else \<not> rp_fired (rh_press h) \<and> \<not> rp_tracking (rh_press h))"

lemma hist_Cons:
  "was_released (s # hist) \<longleftrightarrow> 0 < sample_level s \<or> was_released hist"
  "pressed_run (s # hist) = (if sample_level s = 0 then s # pressed_run hist else [])"
  "since_release (s # hist) = (if 0 < sample_level s then [] else s # since_release hist)"
  by (auto simp: was_released_def pressed_run_def since_release_def)

lemma already_held_Cons:
  "already_held (s # hist) \<longleftrightarrow> \<not> 0 < sample_level s \<and> (held (s # hist) \<or> already_held hist)"
proof -
  have "(\<exists>k < Suc n. P k) \<longleftrightarrow> P 0 \<or> (\<exists>k < n. P (Suc k))" for n and P :: "nat \<Rightarrow> bool"
    by (metis Suc_less_eq gr0_conv_Suc less_Suc_eq_0_disj)
  then show ?thesis by (simp add: already_held_def hist_Cons(3))
qed

lemma held_Cons:
  "held (s # hist) \<longleftrightarrow> sample_level s = 0 \<and>
     (if pressed_run hist = [] then False else sample_ms (last (pressed_run hist)) + 5000 \<le> sample_ms s)"
  by (simp add: held_def hist_Cons(2))

lemma held_for_word:
  fixes a b :: u64
  shows "a \<le> b \<and> 5000 \<le> b - a \<longleftrightarrow> unat a + 5000 \<le> unat b"
  by (auto simp: word_le_nat_alt unat_sub_if_size)

lemma filter_sample_spec:
  assumes "reset_inv hist h" "filter_sample e level now h = (h', effects)"
  shows "reset_inv ((e, level, now) # hist) h' \<and>
    effects = (if request_due ((e, level, now) # hist) then request_hotspot e else [])"
proof -
  let ?s = "(e, level, now)"
  consider "now = clock_failed" | "now \<noteq> clock_failed" "\<not> was_released hist" | "now \<noteq> clock_failed" "was_released hist"
    by blast
  then show ?thesis
  proof cases
    case 1
    then have l: "sample_level ?s = -1" by (simp add: sample_level_def)
    show ?thesis using assms 1 l
      by (auto simp: reset_inv_def filter_sample_def hist_Cons already_held_Cons held_Cons request_due_def)
  next
    case 2
    then have l: "sample_level ?s = level" by (simp add: sample_level_def)
    show ?thesis using assms 2 l
      by (auto simp: reset_inv_def filter_sample_def hist_Cons already_held_Cons held_Cons request_due_def)
  next
    case 3
    then have l: "sample_level ?s = level" "sample_ms ?s = unat now" by (simp_all add: sample_level_def sample_ms_def)
    show ?thesis using assms 3 l
      by (auto simp: reset_inv_def filter_sample_def hist_Cons already_held_Cons held_Cons request_due_def
        reset_press_update_def Let_def held_for_word split: if_splits)
  qed
qed

section \<open>All calls of a process\<close>

record ioctl_call =
  ic_found :: "int \<times> errno"
  ic_ready :: bool
  ic_clock :: "(int \<times> int) option"
  ic_env :: reset_env
  ic_request :: u32
  ic_caller :: nat

fun ioctl_run :: "ioctl_call list \<Rightarrow> reset_hook \<Rightarrow> ((int \<times> errno) \<times> reset_effect list) list" where
  "ioctl_run [] h = []"
| "ioctl_run (c # cs) h =
     (let (r, h', effects) = reset_ioctl (Some (ic_found c)) (ic_ready c) (ic_clock c) (ic_env c)
            (ic_request c) (ic_caller c) h
      in (r, effects) # ioctl_run cs h')"

definition call_ms :: "ioctl_call \<Rightarrow> u64" where
  "call_ms c = reset_milliseconds (ic_clock c)"

definition call_sample :: "ioctl_call \<Rightarrow> reset_sample" where
  "call_sample c = (ic_env c, fst (ic_found c), call_ms c)"

text \<open>
  The calls whose level is changed: those of the poll once the feature was enabled, from 30 seconds
  after the first of them with a working clock, for the reset device.
\<close>

definition ready_calls :: "ioctl_call list \<Rightarrow> ioctl_call list" where
  "ready_calls cs = dropWhile (\<lambda>c. \<not> ic_ready c) (filter (\<lambda>c. ic_request c = reset_request_code) cs)"

definition timed_calls :: "reset_profile \<Rightarrow> ioctl_call list \<Rightarrow> ioctl_call list" where
  "timed_calls p cs = dropWhile (\<lambda>c. call_ms c = clock_failed) (filter (\<lambda>c. ic_caller c = rf_caller p) (ready_calls cs))"

definition button_call :: "ioctl_call \<Rightarrow> ioctl_call \<Rightarrow> bool" where
  "button_call c0 c \<longleftrightarrow> call_ms c0 + 30000 \<le> call_ms c \<and> rv_target (ic_env c) = Some ''/dev/cpld_periph''"

definition button_calls :: "reset_profile \<Rightarrow> ioctl_call list \<Rightarrow> ioctl_call list" where
  "button_calls p cs = filter (button_call (hd (timed_calls p cs))) (timed_calls p cs)"

definition clock_in_range :: "ioctl_call \<Rightarrow> bool" where
  "clock_in_range c \<longleftrightarrow> (case ic_clock c of None \<Rightarrow> True
     | Some (sec, nsec) \<Rightarrow> 0 \<le> sec \<and> sec < 2 ^ 31 \<and> 0 \<le> nsec \<and> nsec < 1000000000)"

definition ioctl_inv :: "reset_profile \<Rightarrow> ioctl_call list \<Rightarrow> reset_hook \<Rightarrow> bool" where
  [inv_defs]: "ioctl_inv p cs h \<longleftrightarrow> rh_profile h = Some p \<and> rh_runtime_ready h = (ready_calls cs \<noteq> []) \<and>
     rh_accept_after h = (if timed_calls p cs = [] then 0 else call_ms (hd (timed_calls p cs)) + 30000) \<and>
     (timed_calls p cs \<noteq> [] \<longrightarrow> call_ms (hd (timed_calls p cs)) + 30000 \<noteq> 0) \<and>
     reset_inv (rev (map call_sample (button_calls p cs))) h"

lemma dropWhile_snoc:
  "dropWhile P (xs @ [x]) =
     (if dropWhile P xs = [] then if P x then [] else [x] else dropWhile P xs @ [x])"
  by (induction xs) auto

lemma ready_calls_snoc:
  "ready_calls (cs @ [c]) =
     (if ic_request c = reset_request_code \<and> (ready_calls cs \<noteq> [] \<or> ic_ready c) then ready_calls cs @ [c]
      else ready_calls cs)"
  unfolding ready_calls_def
  by (cases "ic_request c = reset_request_code") (simp_all add: dropWhile_snoc del: dropWhile_eq_Nil_conv)

lemma timed_calls_snoc:
  "timed_calls p (cs @ [c]) =
     (if ready_calls (cs @ [c]) \<noteq> ready_calls cs \<and> ic_caller c = rf_caller p \<and>
         (timed_calls p cs \<noteq> [] \<or> call_ms c \<noteq> clock_failed)
      then timed_calls p cs @ [c] else timed_calls p cs)"
  unfolding timed_calls_def
  by (cases "ready_calls (cs @ [c]) = ready_calls cs"; cases "ic_caller c = rf_caller p")
     (auto simp: ready_calls_snoc dropWhile_snoc simp del: dropWhile_eq_Nil_conv split: if_splits)

lemma button_calls_snoc:
  "button_calls p (cs @ [c]) =
     (if timed_calls p (cs @ [c]) \<noteq> timed_calls p cs \<and> button_call (hd (timed_calls p (cs @ [c]))) c
      then button_calls p cs @ [c] else button_calls p cs)"
  by (auto simp: button_calls_def timed_calls_snoc hd_append)

lemma call_ms_range:
  assumes "clock_in_range c" "call_ms c \<noteq> clock_failed"
  shows "call_ms c + 30000 \<noteq> 0" "call_ms c < call_ms c + 30000"
proof -
  obtain sec nsec where c: "ic_clock c = Some (sec, nsec)" "0 \<le> sec" "sec < 2 ^ 31" "0 \<le> nsec" "nsec < 1000000000"
    using assms by (auto simp: clock_in_range_def call_ms_def reset_milliseconds_def split: option.splits)
  let ?n = "sec * 1000 + nsec div 1000000"
  have n: "0 \<le> ?n" "?n < 2 ^ 42" using c by simp_all
  have m: "call_ms c = word_of_int ?n" using c(1) by (simp add: call_ms_def reset_milliseconds_def)
  have "uint (word_of_int ?n :: u64) = ?n" using n by (subst uint_word_of_int) simp
  then have u: "uint (call_ms c) = ?n" by (simp only: m)
  then have "uint (call_ms c + 30000) = ?n + 30000" using n by (simp add: uint_word_ariths)
  then show "call_ms c + 30000 \<noteq> 0" "call_ms c < call_ms c + 30000"
    using n u by (auto simp: word_less_def)
qed

definition armed_effect :: "reset_effect \<Rightarrow> bool" where
  "armed_effect x \<longleftrightarrow> x = Open_Armed \<or> (\<exists>t. x = Write_Armed t)"

definition call_as_specified :: "reset_profile \<Rightarrow> ioctl_call list \<Rightarrow> ioctl_call \<Rightarrow> (int \<times> errno) \<times> reset_effect list \<Rightarrow> bool" where
  "call_as_specified p cs c out \<longleftrightarrow>
     (if button_calls p (cs @ [c]) = button_calls p cs then out = (ic_found c, [])
      else fst out = (if fst (ic_found c) = 0 then 1 else fst (ic_found c), snd (ic_found c)) \<and>
        filter (\<lambda>x. \<not> armed_effect x) (snd out) =
          (if request_due (rev (map call_sample (button_calls p (cs @ [c])))) then request_hotspot (ic_env c) else []))"

lemma request_not_armed: "filter (\<lambda>x. \<not> armed_effect x) (request_hotspot e) = request_hotspot e"
  by (simp add: request_hotspot_def armed_effect_def Let_def)

lemma report_armed_spec:
  assumes "report_armed e h = (h', effects)"
  shows "h' = h\<lparr>rh_armed_reported := rh_armed_reported h'\<rparr> \<and> filter (\<lambda>x. \<not> armed_effect x) effects = []"
  using assms by (auto simp: report_armed_def armed_effect_def Let_def split: if_splits)

lemma filter_sample_frame:
  assumes "filter_sample e level now h = (h', effects)"
  shows "rh_profile h' = rh_profile h" "rh_runtime_ready h' = rh_runtime_ready h" "rh_accept_after h' = rh_accept_after h"
  using assms by (auto simp: filter_sample_def split: if_splits prod.splits)

lemma level_step:
  assumes "ioctl_inv p cs h" "clock_in_range c" "ic_found c = (level, saved)" "ready_calls (cs @ [c]) = ready_calls cs @ [c]"
    "rh_runtime_ready h1" "rh_profile h1 = Some p" "rh_accept_after h1 = rh_accept_after h"
    "rh_press h1 = rh_press h" "rh_startup_released h1 = rh_startup_released h"
    "filter_level (ic_env c) reset_request_code (ic_caller c) level (call_ms c) h1 = (fst r, h', effects)" "snd r = saved"
  shows "ioctl_inv p (cs @ [c]) h' \<and> call_as_specified p cs c (r, effects)"
proof (cases "timed_calls p (cs @ [c]) = timed_calls p cs")
  case True
  then have b: "button_calls p (cs @ [c]) = button_calls p cs" by (simp add: button_calls_snoc)
  have "ic_caller c \<noteq> rf_caller p \<or> timed_calls p cs = [] \<and> call_ms c = clock_failed"
    using True assms(4) by (auto simp: timed_calls_snoc split: if_splits)
  then have "h' = h1 \<and> fst r = level \<and> effects = []"
    using assms(1,6,7,10) by (auto simp: filter_level_def ioctl_inv_def split: if_splits)
  moreover have "reset_inv (rev (map call_sample (button_calls p cs))) h1"
    using assms(1,8,9) by (simp add: ioctl_inv_def reset_inv_def)
  ultimately show ?thesis
    using assms(1,3-7,11) unfolding ioctl_inv_def call_as_specified_def b True by (simp add: prod_eq_iff)
next
  case False
  then have t: "timed_calls p (cs @ [c]) = timed_calls p cs @ [c]" "ic_caller c = rf_caller p"
    "timed_calls p cs \<noteq> [] \<or> call_ms c \<noteq> clock_failed"
    by (auto simp: timed_calls_snoc split: if_splits)
  let ?c0 = "hd (timed_calls p (cs @ [c]))"
  define h2 where "h2 = (if rh_accept_after h1 = 0 \<and> call_ms c \<noteq> clock_failed
      then h1\<lparr>rh_accept_after := call_ms c + 30000\<rparr> else h1)"
  have h2: "rh_accept_after h2 = call_ms ?c0 + 30000" "rh_accept_after h2 \<noteq> 0" "rh_runtime_ready h2"
    "rh_profile h2 = Some p" "reset_inv (rev (map call_sample (button_calls p cs))) h2"
    using t assms(1,5-9) call_ms_range(1) [OF assms(2)]
    by (auto simp: h2_def t ioctl_inv_def reset_inv_def split: if_splits)
  have a: "button_call ?c0 c \<longleftrightarrow>
      \<not> call_ms c < rh_accept_after h2 \<and> rv_target (ic_env c) = Some ''/dev/cpld_periph''"
    by (simp add: button_call_def h2(1) not_less)
  have e: "(fst r, h', effects) = (if \<not> button_call ?c0 c then (level, h2, [])
      else let (h3, armed) = report_armed (ic_env c) h2; (h4, requested) = filter_sample (ic_env c) level (call_ms c) h3
           in (if level = 0 then 1 else level, h4, armed @ requested))"
    unfolding assms(10) [symmetric]
    by (simp add: filter_level_def assms(6) t(2) h2_def [symmetric] h2(2) a)
  show ?thesis
  proof (cases "button_call ?c0 c")
    case False
    then have "button_calls p (cs @ [c]) = button_calls p cs" by (simp add: button_calls_snoc)
    then show ?thesis
      using e False h2 assms(3,4,11) t(1)
      by (simp add: ioctl_inv_def call_as_specified_def prod_eq_iff)
  next
    case True
    then have b: "button_calls p (cs @ [c]) = button_calls p cs @ [c]"
      using t(1) by (simp add: button_calls_snoc)
    obtain h3 armed where a: "report_armed (ic_env c) h2 = (h3, armed)" by fastforce
    obtain h4 requested where q: "filter_sample (ic_env c) level (call_ms c) h3 = (h4, requested)" by fastforce
    have out: "fst r = (if level = 0 then 1 else level)" "h' = h4" "effects = armed @ requested"
      using e True a q by simp_all
    note ra = report_armed_spec [OF a]
    obtain v where v: "h3 = h2\<lparr>rh_armed_reported := v\<rparr>" using ra [THEN conjunct1] by blast
    have "reset_inv (rev (map call_sample (button_calls p cs))) h3"
      using h2(5) by (simp add: v reset_inv_def)
    from filter_sample_spec [OF this q]
    have s: "reset_inv (call_sample c # rev (map call_sample (button_calls p cs))) h4"
      "requested = (if request_due (call_sample c # rev (map call_sample (button_calls p cs))) then request_hotspot (ic_env c) else [])"
      using assms(3) by (simp_all add: call_sample_def)
    have h4: "rh_profile h4 = Some p" "rh_runtime_ready h4" "rh_accept_after h4 = rh_accept_after h2"
      using filter_sample_frame [OF q] h2 by (simp_all add: v)
    show ?thesis
      using s h4 h2 assms(3,4,11) out b t(1) ra request_not_armed
      by (simp add: ioctl_inv_def call_as_specified_def prod_eq_iff)
  qed
qed

lemma ioctl_step:
  assumes "ioctl_inv p cs h" "clock_in_range c"
    "reset_ioctl (Some (ic_found c)) (ic_ready c) (ic_clock c) (ic_env c) (ic_request c) (ic_caller c) h = (r, h', effects)"
  shows "ioctl_inv p (cs @ [c]) h' \<and> call_as_specified p cs c (r, effects)"
proof -
  obtain level saved where f: "ic_found c = (level, saved)" by fastforce
  have p: "rh_profile h = Some p" using assms(1) by (simp add: ioctl_inv_def)
  define h1 where "h1 = (if rh_runtime_ready h then h else h\<lparr>rh_runtime_ready := ic_ready c\<rparr>)"
  show ?thesis
  proof (cases "ready_calls (cs @ [c]) = ready_calls cs")
    case True
    then have "timed_calls p (cs @ [c]) = timed_calls p cs" by (simp add: timed_calls_snoc)
    moreover from this have "button_calls p (cs @ [c]) = button_calls p cs" by (simp add: button_calls_snoc)
    moreover have "h' = h \<and> r = ic_found c \<and> effects = []"
      using True assms(1,3) p f by (auto simp: ready_calls_snoc reset_ioctl_def ioctl_inv_def split: if_splits)
    ultimately show ?thesis using assms(1) True
      unfolding ioctl_inv_def call_as_specified_def by simp
  next
    case False
    then have rc: "ic_request c = reset_request_code" "ready_calls (cs @ [c]) = ready_calls cs @ [c]"
      "rh_runtime_ready h \<or> ic_ready c"
      using assms(1) by (auto simp: ready_calls_snoc ioctl_inv_def split: if_splits)
    have h1: "rh_runtime_ready h1" "rh_profile h1 = Some p" "rh_accept_after h1 = rh_accept_after h"
      "rh_press h1 = rh_press h" "rh_startup_released h1 = rh_startup_released h"
      using rc(3) p by (auto simp: h1_def)
    have out: "filter_level (ic_env c) reset_request_code (ic_caller c) level (call_ms c) h1 = (fst r, h', effects)"
      "snd r = saved"
      using assms(3) p f rc(1) h1(1)
      by (auto simp: reset_ioctl_def h1_def [symmetric] call_ms_def Let_def split: prod.splits)
    show ?thesis
      by (rule level_step [OF assms(1,2) f rc(2) h1 out])
  qed
qed

lemma ioctl_runs:
  assumes "ioctl_inv p pre h" "list_all clock_in_range cs" "k < length cs"
  shows "call_as_specified p (pre @ take k cs) (cs ! k) (ioctl_run cs h ! k)"
  using assms
proof (induction cs arbitrary: pre h k)
  case (Cons c cs)
  obtain r h' effects where s: "reset_ioctl (Some (ic_found c)) (ic_ready c) (ic_clock c) (ic_env c)
      (ic_request c) (ic_caller c) h = (r, h', effects)" by (cases rule: prod_cases3)
  have st: "ioctl_inv p (pre @ [c]) h'" "call_as_specified p pre c (r, effects)"
    using ioctl_step [OF Cons.prems(1) _ s] Cons.prems(2) by auto
  show ?case
  proof (cases k)
    case 0
    then show ?thesis using st(2) s by simp
  next
    case (Suc j)
    then have "call_as_specified p ((pre @ [c]) @ take j cs) (cs ! j) (ioctl_run cs h' ! j)"
      using Cons.prems(2,3) by (intro Cons.IH [OF st(1)]) simp_all
    then show ?thesis using Suc s by simp
  qed
qed simp

lemma ioctl_inv_init: "ioctl_inv p [] (reset_hook_init\<lparr>rh_profile := Some p\<rparr>)"
  by (simp add: ioctl_inv_def reset_hook_init_def reset_inv_def ready_calls_def timed_calls_def button_calls_def was_released_def)

lemma profile_found:
  assumes "m \<noteq> []" "rh_profile (reset_initialize (Some m) (Some words) reset_hook_init) = Some p"
  shows "reset_initialize (Some m) (Some words) reset_hook_init = reset_hook_init\<lparr>rh_profile := Some p\<rparr>"
  using assms by (auto simp: reset_initialize_def reset_profiles_def reset_hook_init_def split: if_splits)

text \<open>
  C10. The hook hides the reset button and answers a held one once.  In every sequence of \<open>ioctl\<close> calls
  of a process whose executable was recognised, with the system's answers arbitrary and its clock below
  \<open>2 ^ 31\<close> seconds, each call keeps the \<open>errno\<close> of the system; a call that is not a sample of the button
  (of another site or request, before the feature is enabled, in the first 30 seconds, for another
  device) returns what the system returned and does nothing; a sample never returns the pressed level 0,
  so the vendor's factory reset is never started; and a sample asks for a hotspot exactly when the button
  was released at some sample before, and the unbroken run of pressed samples up to it spans five
  seconds, for the first time since the last release.
\<close>

theorem held_button_asks_once:
  assumes "m \<noteq> []" "rh_profile (reset_initialize (Some m) (Some words) reset_hook_init) = Some p"
    "list_all clock_in_range cs" "k < length cs"
  shows "let (r, effects) = ioctl_run cs (reset_initialize (Some m) (Some words) reset_hook_init) ! k; c = cs ! k;
             before = button_calls p (take k cs); samples = button_calls p (take (Suc k) cs)
         in snd r = snd (ic_found c) \<and>
            (if samples = before then fst r = fst (ic_found c) \<and> effects = []
             else samples = before @ [c] \<and> fst r \<noteq> 0 \<and> (fst (ic_found c) \<noteq> 0 \<longrightarrow> fst r = fst (ic_found c)) \<and>
               filter (\<lambda>x. \<not> armed_effect x) effects =
                 (if request_due (rev (map call_sample samples)) then request_hotspot (ic_env c) else []))"
proof -
  have t: "take (Suc k) cs = take k cs @ [cs ! k]" using assms(4) by (rule take_Suc_conv_app_nth)
  have "call_as_specified p ([] @ take k cs) (cs ! k)
      (ioctl_run cs (reset_initialize (Some m) (Some words) reset_hook_init) ! k)"
    unfolding profile_found [OF assms(1,2)] by (rule ioctl_runs [OF ioctl_inv_init assms(3,4)])
  moreover obtain level saved where "ic_found (cs ! k) = (level, saved)" by fastforce
  ultimately show ?thesis
    unfolding t call_as_specified_def
    by (auto simp: Let_def button_calls_snoc split: prod.splits if_splits)
qed

section \<open>A press of the button\<close>

text \<open>Calls of the poll, at milliseconds since the start: the first, a release, and a press of five seconds.\<close>

definition quiet_env :: reset_env where
  "quiet_env = \<lparr>rv_target = Some ''/dev/cpld_periph'', rv_pid = 7, rv_armed_fd = True, rv_armed_regular = True,
     rv_armed_write = 2, rv_request_fd = True, rv_request_regular = True, rv_request_write = 11\<rparr>"

definition poll_call :: "int \<Rightarrow> int \<Rightarrow> ioctl_call" where
  "poll_call level sec = \<lparr>ic_found = (level, EOTHER 0), ic_ready = True, ic_clock = Some (sec, 0), ic_env = quiet_env,
     ic_request = reset_request_code, ic_caller = 0x19b54\<rparr>"

definition poll_calls :: "ioctl_call list" where
  "poll_calls = [poll_call 1 1, poll_call 1 40, poll_call 0 41, poll_call 0 46]"

lemma poll_calls_facts:
  "list_all clock_in_range poll_calls"
  "button_calls (hd reset_profiles) poll_calls = [poll_call 1 40, poll_call 0 41, poll_call 0 46]"
  "button_calls (hd reset_profiles) (take 3 poll_calls) = [poll_call 1 40, poll_call 0 41]"
  by (simp_all add: poll_calls_def poll_call_def clock_in_range_def button_calls_def timed_calls_def ready_calls_def
     button_call_def call_ms_def reset_milliseconds_def clock_failed_def reset_profiles_def quiet_env_def)

lemma poll_request_due: "request_due (rev (map call_sample [poll_call 1 40, poll_call 0 41, poll_call 0 46]))"
  by (simp add: request_due_def was_released_def held_def already_held_def pressed_run_def since_release_def
     sample_level_def sample_ms_def call_sample_def poll_call_def call_ms_def reset_milliseconds_def clock_failed_def)

lemma held_button_asks_once_witness:
  "filter (\<lambda>x. \<not> armed_effect x) (snd (ioctl_run poll_calls
     (reset_initialize (Some ''y623'') (Some (\<lambda>_. Some [0xe307100e, 0xe5960020, 0xebffdd24])) reset_hook_init) ! 3)) =
   request_hotspot quiet_env"
proof -
  have p: "rh_profile (reset_initialize (Some ''y623'') (Some (\<lambda>_. Some [0xe307100e, 0xe5960020, 0xebffdd24])) reset_hook_init) =
      Some (hd reset_profiles)"
    by (simp add: reset_initialize_def reset_profiles_def)
  have "3 < length poll_calls" "take (Suc 3) poll_calls = poll_calls" "ic_env (poll_calls ! 3) = quiet_env"
    by (simp_all add: poll_calls_def poll_call_def numeral_3_eq_3)
  then show ?thesis
    using held_button_asks_once [OF _ p poll_calls_facts(1), of 3] poll_request_due
    by (simp add: poll_calls_facts Let_def split: prod.splits)
qed

end
