(* ===== verification/Motion_Iva.thy ===== *)
theory Motion_Iva
  imports Prelude
begin

text \<open>
  \<open>src/ipc_cmd/ipc_cmd/motion_iva.h\<close>: the count of the moving pixels of a frame over a grid of cells, for
  models whose motion is found in software.  The foreground is one byte for each pixel of a frame of 640
  times 360.  Counts are at most 230,400, so they are natural numbers here.
\<close>

definition iva_magic :: u32 where "iva_magic = 0x59495641"
definition iva_version :: u32 where "iva_version = 1"
definition iva_cells :: nat where "iva_cells = 240"

record iva_settings =
  is_enabled :: u32
  is_cells :: string

record iva_sample =
  ia_monotonic_ms :: int
  ia_frame :: u32
  ia_raw_count :: nat
  ia_included_count :: nat
  ia_roi_count :: nat
  ia_applied_generation :: u32
  ia_error :: u32
  ia_cells :: "nat list"

definition iva_sample_zero :: iva_sample where
  "iva_sample_zero = \<lparr>ia_monotonic_ms = 0, ia_frame = 0, ia_raw_count = 0, ia_included_count = 0,
     ia_roi_count = 0, ia_applied_generation = 0, ia_error = 0, ia_cells = replicate 240 0\<rparr>"

record iva_shared =
  ih_magic :: u32
  ih_version :: u32
  ih_config_generation :: u32
  ih_ready_pid :: u32
  ih_reader_ms :: u32
  ih_generation :: u32
  ih_settings :: iva_settings
  ih_sample :: iva_sample

text \<open>A new file of the block's size.\<close>

definition iva_shared_zero :: iva_shared where
  "iva_shared_zero = \<lparr>ih_magic = 0, ih_version = 0, ih_config_generation = 0, ih_ready_pid = 0, ih_reader_ms = 0,
     ih_generation = 0, ih_settings = \<lparr>is_enabled = 0, is_cells = replicate 240 (CHR 0x00)\<rparr>, ih_sample = iva_sample_zero\<rparr>"

definition motion_iva_valid :: "iva_settings \<Rightarrow> bool" where
  "motion_iva_valid s \<longleftrightarrow> is_enabled s \<le> 1 \<and> list_all (\<lambda>c. c = CHR ''0'' \<or> c = CHR ''1'') (is_cells s)"

section \<open>Counting 32 pixels\<close>

definition motion_iva_count32 :: "byte list \<Rightarrow> nat" where
  "motion_iva_count32 p = fold (\<lambda>i count. count + (if p ! i \<noteq> 0 then 1 else 0)) [0..<32] 0"

text \<open>The version for the vector unit: lanes of 16 bytes, halved in number and doubled in width.\<close>

definition nonzero_lane :: "byte \<Rightarrow> byte" where
  "nonzero_lane x = drop_bit 7 (NOT (if x = 0 then 255 else 0))"

fun pairwise_add :: "'a::len word list \<Rightarrow> 'b::len word list" where
  "pairwise_add (x # y # zs) = (ucast x + ucast y) # pairwise_add zs"
| "pairwise_add _ = []"

definition motion_iva_count32_neon :: "byte list \<Rightarrow> u32" where
  "motion_iva_count32_neon p =
     (let a = map nonzero_lane (take 16 p); b = map nonzero_lane (take 16 (drop 16 p));
          sums16 = (pairwise_add (map2 (+) a b) :: 16 word list);
          quads = (pairwise_add sums16 :: u32 list);
          pairs = (pairwise_add quads :: u32 list)
      in (pairwise_add pairs :: u32 list) ! 0)"

section \<open>Counting a frame\<close>

definition iva_row :: "byte list \<Rightarrow> nat \<Rightarrow> nat \<Rightarrow> byte list" where
  "iva_row frame y left = drop (y * 640 + left) frame"

text \<open>The pixels of 32 that lie in the rectangle, whose sides are given inclusively.\<close>

definition iva_roi :: "byte list \<Rightarrow> int list \<Rightarrow> nat \<Rightarrow> nat \<Rightarrow> nat \<Rightarrow> nat" where
  "iva_roi frame rect y left count =
     (let l = int left; right = l + 31
      in if count \<noteq> 0 \<and> rect ! 1 \<le> int y \<and> int y \<le> rect ! 3
         then if rect ! 0 \<le> l \<and> right \<le> rect ! 2 then count
              else if rect ! 0 \<le> right \<and> l \<le> rect ! 2
              then fold (\<lambda>x roi. roi + (if frame ! (y * 640 + nat x) \<noteq> 0 then 1 else 0))
                     [max l (rect ! 0)..min right (rect ! 2)] 0
              else 0
         else 0)"

definition iva_tile :: "byte list \<Rightarrow> int list \<Rightarrow> iva_settings \<Rightarrow> nat \<times> nat \<Rightarrow> iva_sample \<Rightarrow> iva_sample" where
  "iva_tile frame rect s yc sample =
     (case yc of (y, column) \<Rightarrow>
        let left = column * 32; count = motion_iva_count32 (iva_row frame y left);
            roi = iva_roi frame rect y left count; cell = (y div 30) * 20 + column;
            s1 = sample\<lparr>ia_cells := (ia_cells sample)[cell := ia_cells sample ! cell + count],
                        ia_raw_count := ia_raw_count sample + count\<rparr>
        in if is_enabled s = 0 \<or> is_cells s ! cell = CHR ''0''
           then s1\<lparr>ia_included_count := ia_included_count sample + count,
                   ia_roi_count := ia_roi_count sample + roi\<rparr>
           else s1)"

definition motion_iva_count :: "byte list \<Rightarrow> int list \<Rightarrow> iva_settings \<Rightarrow> iva_sample \<Rightarrow> iva_sample" where
  "motion_iva_count frame rect s sample =
     fold (iva_tile frame rect s) (List.product [0..<360] [0..<20])
       (sample\<lparr>ia_raw_count := 0, ia_included_count := 0, ia_roi_count := 0, ia_cells := replicate 240 0\<rparr>)"

section \<open>The count by pixels\<close>

definition pixel :: "byte list \<Rightarrow> (nat \<Rightarrow> nat \<Rightarrow> bool) \<Rightarrow> nat \<Rightarrow> nat \<Rightarrow> nat" where
  "pixel frame P y x = (if frame ! (y * 640 + x) \<noteq> 0 \<and> P y x then 1 else 0)"

text \<open>The number of nonzero pixels of a frame at the places of a predicate.\<close>

definition pixels :: "byte list \<Rightarrow> (nat \<Rightarrow> nat \<Rightarrow> bool) \<Rightarrow> nat" where
  "pixels frame P = (\<Sum>y<360. \<Sum>x<640. pixel frame P y x)"

definition cell_of :: "nat \<Rightarrow> nat \<Rightarrow> nat" where
  "cell_of y x = (y div 30) * 20 + x div 32"

definition in_rect :: "int list \<Rightarrow> nat \<Rightarrow> nat \<Rightarrow> bool" where
  "in_rect rect y x \<longleftrightarrow> rect ! 0 \<le> int x \<and> int x \<le> rect ! 2 \<and> rect ! 1 \<le> int y \<and> int y \<le> rect ! 3"

definition kept :: "iva_settings \<Rightarrow> nat \<Rightarrow> nat \<Rightarrow> bool" where
  "kept s y x \<longleftrightarrow> is_enabled s = 0 \<or> is_cells s ! cell_of y x = CHR ''0''"

lemma fold_count: "fold (\<lambda>i n. n + f i) xs n = n + (\<Sum>i\<leftarrow>xs. f i :: nat)"
  by (induction xs arbitrary: n) simp_all

lemma count32_sum: "motion_iva_count32 p = (\<Sum>i<32. if p ! i \<noteq> 0 then 1 else 0)"
  unfolding motion_iva_count32_def fold_count
  by (simp only: interv_sum_list_conv_sum_set_nat atLeast0LessThan set_upt add_0)

definition tile_pixels :: "byte list \<Rightarrow> (nat \<Rightarrow> nat \<Rightarrow> bool) \<Rightarrow> nat \<Rightarrow> nat \<Rightarrow> nat" where
  "tile_pixels frame P y column = (\<Sum>x\<in>{column * 32..<column * 32 + 32}. pixel frame P y x)"

lemma pixels_tiles: "pixels frame P = (\<Sum>y<360. \<Sum>column<20. tile_pixels frame P y column)"
proof -
  have "(\<Sum>x<640. f x) = (\<Sum>column<20. \<Sum>x\<in>{column * 32..<column * 32 + 32}. f x)" for f :: "nat \<Rightarrow> nat"
    using sum.nat_group [of f 32 20] by simp
  then show ?thesis by (simp only: pixels_def tile_pixels_def)
qed

lemma count32_tile:
  assumes "length frame = 230400" "y < 360" "column < 20"
  shows "motion_iva_count32 (iva_row frame y (column * 32)) = tile_pixels frame (\<lambda>_ _. True) y column"
proof -
  have "(\<Sum>x\<in>{column * 32..<column * 32 + 32}. f x) = (\<Sum>i<32. f (column * 32 + i))" for f :: "nat \<Rightarrow> nat"
    using sum.shift_bounds_nat_ivl [of f 0 "column * 32" 32] by (simp add: atLeast0LessThan add.commute)
  moreover have "iva_row frame y (column * 32) ! i = frame ! (y * 640 + (column * 32 + i))" for i
    using assms by (simp add: iva_row_def add.assoc)
  ultimately show ?thesis by (simp add: count32_sum tile_pixels_def pixel_def)
qed

lemma tile_pixels_cong:
  "(\<And>x. x \<in> {column * 32..<column * 32 + 32} \<Longrightarrow> P y x = Q y x) \<Longrightarrow> tile_pixels frame P y column = tile_pixels frame Q y column"
  unfolding tile_pixels_def by (rule sum.cong) (simp_all add: pixel_def)

lemma tile_pixels_le: "tile_pixels frame P y column \<le> tile_pixels frame (\<lambda>_ _. True) y column"
  unfolding tile_pixels_def by (rule sum_mono) (simp add: pixel_def)

lemma roi_range:
  fixes f :: "nat \<Rightarrow> nat"
  assumes "int a \<le> l" "r < int a + 32"
  shows "(\<Sum>x\<leftarrow>[l..r]. f (nat x)) = (\<Sum>x\<in>{a..<a + 32}. if l \<le> int x \<and> int x \<le> r then f x else 0)"
proof -
  have "(\<Sum>x\<leftarrow>[l..r]. f (nat x)) = (\<Sum>x\<in>{l..r}. f (nat x))"
    by (subst sum_list_distinct_conv_sum_set) simp_all
  also have "\<dots> = (\<Sum>x\<in>{x \<in> {a..<a + 32}. l \<le> int x \<and> int x \<le> r}. f x)"
    by (rule sum.reindex_bij_witness [where i = int and j = nat]) (use assms in auto)
  also have "\<dots> = (\<Sum>x\<in>{a..<a + 32}. if l \<le> int x \<and> int x \<le> r then f x else 0)"
    by (rule sum.inter_filter) simp
  finally show ?thesis .
qed

lemma roi_tile:
  "iva_roi frame rect y (column * 32) (tile_pixels frame (\<lambda>_ _. True) y column) = tile_pixels frame (in_rect rect) y column"
proof -
  let ?l = "int (column * 32)" and ?n = "tile_pixels frame (\<lambda>_ _. True) y column"
  consider "?n = 0" | "\<not> (rect ! 1 \<le> int y \<and> int y \<le> rect ! 3)"
    | "?n \<noteq> 0" "rect ! 1 \<le> int y \<and> int y \<le> rect ! 3" "rect ! 0 \<le> ?l \<and> ?l + 31 \<le> rect ! 2"
    | "?n \<noteq> 0" "rect ! 1 \<le> int y \<and> int y \<le> rect ! 3" "\<not> (rect ! 0 \<le> ?l \<and> ?l + 31 \<le> rect ! 2)"
      "rect ! 0 \<le> ?l + 31 \<and> ?l \<le> rect ! 2"
    | "\<not> (rect ! 0 \<le> ?l + 31 \<and> ?l \<le> rect ! 2)" "\<not> (rect ! 0 \<le> ?l \<and> ?l + 31 \<le> rect ! 2)" by blast
  then show ?thesis
  proof cases
    case 1
    then show ?thesis using tile_pixels_le [of frame "in_rect rect" y column] by (simp add: iva_roi_def)
  next
    case 2
    then have "tile_pixels frame (in_rect rect) y column = 0" by (auto simp: tile_pixels_def pixel_def in_rect_def)
    then show ?thesis using 2 by (auto simp: iva_roi_def)
  next
    case 3
    then have "iva_roi frame rect y (column * 32) ?n = ?n" by (simp add: iva_roi_def Let_def)
    also have "\<dots> = tile_pixels frame (in_rect rect) y column"
      using 3(2,3) by (intro tile_pixels_cong) (auto simp: in_rect_def)
    finally show ?thesis .
  next
    case 4
    have "iva_roi frame rect y (column * 32) ?n =
        (\<Sum>x\<leftarrow>[max ?l (rect ! 0)..min (?l + 31) (rect ! 2)]. pixel frame (\<lambda>_ _. True) y (nat x))"
      using 4 by (auto simp: iva_roi_def Let_def fold_count pixel_def)
    also have "\<dots> = (\<Sum>x\<in>{column * 32..<column * 32 + 32}.
        if max ?l (rect ! 0) \<le> int x \<and> int x \<le> min (?l + 31) (rect ! 2) then pixel frame (\<lambda>_ _. True) y x else 0)"
      by (rule roi_range) simp_all
    also have "\<dots> = tile_pixels frame (in_rect rect) y column"
      unfolding tile_pixels_def using 4(2) by (intro sum.cong) (auto simp: pixel_def in_rect_def)
    finally show ?thesis .
  next
    case 5
    then have "tile_pixels frame (in_rect rect) y column = 0" by (auto simp: tile_pixels_def pixel_def in_rect_def)
    moreover have "iva_roi frame rect y (column * 32) ?n = 0" using 5 by (auto simp: iva_roi_def Let_def)
    ultimately show ?thesis by simp
  qed
qed

text \<open>The tiles of a row of cells are in one cell each.\<close>

lemma tile_cell: "column * 32 \<le> x \<Longrightarrow> x < column * 32 + 32 \<Longrightarrow> cell_of y x = (y div 30) * 20 + column"
proof -
  assume "column * 32 \<le> x" "x < column * 32 + 32"
  then have "x div 32 = column" by (intro div_nat_eqI) simp_all
  then show ?thesis by (simp add: cell_of_def)
qed

lemma tile_pixels_cell:
  "tile_pixels frame (\<lambda>y x. Q (cell_of y x) \<and> P y x) y column =
     (if Q ((y div 30) * 20 + column) then tile_pixels frame P y column else 0)"
proof (cases "Q ((y div 30) * 20 + column)")
  case True
  then show ?thesis by (simp, intro tile_pixels_cong) (auto simp: tile_cell)
next
  case False
  then show ?thesis by (auto simp: tile_pixels_def pixel_def tile_cell)
qed

definition tile_sum :: "(nat \<times> nat) list \<Rightarrow> (nat \<Rightarrow> nat \<Rightarrow> nat) \<Rightarrow> nat" where
  "tile_sum ts f = (\<Sum>t\<leftarrow>ts. f (fst t) (snd t))"

lemma tile_sum_simps [simp]: "tile_sum [] f = 0" "tile_sum ((y, c) # ts) f = f y c + tile_sum ts f"
  by (simp_all add: tile_sum_def)

lemma tile_sum_product: "tile_sum (List.product [0..<m] [0..<n]) f = (\<Sum>y<m. \<Sum>c<n. f y c)"
proof -
  have row: "tile_sum (map (Pair y) cs) f = (\<Sum>c\<leftarrow>cs. f y c)" for y and cs :: "nat list"
    by (induction cs) simp_all
  have app: "tile_sum (a @ b) f = tile_sum a f + tile_sum b f" for a b by (simp add: tile_sum_def)
  have "tile_sum (List.product ys cs) f = (\<Sum>y\<leftarrow>ys. \<Sum>c\<leftarrow>cs. f y c)" for ys cs :: "nat list"
    by (induction ys) (simp_all add: app row)
  then show ?thesis by (simp only: interv_sum_list_conv_sum_set_nat atLeast0LessThan set_upt) 
qed

definition valid_tiles :: "(nat \<times> nat) list \<Rightarrow> bool" where
  "valid_tiles ts \<longleftrightarrow> (\<forall>t \<in> set ts. fst t < 360 \<and> snd t < 20)"

lemma kept_eq: "kept s = (\<lambda>y x. is_enabled s = 0 \<or> is_cells s ! cell_of y x = CHR ''0'')"
  by (intro ext) (simp add: kept_def)

lemma tiles_counted:
  assumes "length frame = 230400" "valid_tiles ts" "length (ia_cells sample) = 240"
    "sample' = fold (iva_tile frame rect s) ts sample"
  shows "ia_raw_count sample' = ia_raw_count sample + tile_sum ts (tile_pixels frame (\<lambda>_ _. True)) \<and>
    ia_included_count sample' = ia_included_count sample + tile_sum ts (tile_pixels frame (kept s)) \<and>
    ia_roi_count sample' = ia_roi_count sample + tile_sum ts (tile_pixels frame (\<lambda>y x. kept s y x \<and> in_rect rect y x)) \<and>
    length (ia_cells sample') = 240 \<and>
    (\<forall>k < 240. ia_cells sample' ! k = ia_cells sample ! k + tile_sum ts (tile_pixels frame (\<lambda>y x. cell_of y x = k)))"
  using assms
proof (induction ts arbitrary: sample)
  case (Cons t ts)
  obtain y column where t: "t = (y, column)" by fastforce
  have yc: "y < 360" "column < 20" "valid_tiles ts" using Cons.prems(2) by (simp_all add: t valid_tiles_def)
  let ?cell = "(y div 30) * 20 + column" and ?s1 = "iva_tile frame rect s (y, column) sample"
  have "y div 30 < 12" using yc(1) by (simp add: less_mult_imp_div_less)
  then have cell: "?cell < 240" using yc(2) by simp
  note n = count32_tile [OF Cons.prems(1) yc(1,2)]
  have k: "tile_pixels frame (kept s) y column =
      (if is_enabled s = 0 \<or> is_cells s ! ?cell = CHR ''0'' then tile_pixels frame (\<lambda>_ _. True) y column else 0)"
    "tile_pixels frame (\<lambda>y x. kept s y x \<and> in_rect rect y x) y column =
      (if is_enabled s = 0 \<or> is_cells s ! ?cell = CHR ''0'' then tile_pixels frame (in_rect rect) y column else 0)"
    "tile_pixels frame (\<lambda>y x. cell_of y x = k) y column = (if ?cell = k then tile_pixels frame (\<lambda>_ _. True) y column else 0)" for k
    using tile_pixels_cell [of frame "\<lambda>c. is_enabled s = 0 \<or> is_cells s ! c = CHR ''0''" "\<lambda>_ _. True" y column]
      tile_pixels_cell [of frame "\<lambda>c. is_enabled s = 0 \<or> is_cells s ! c = CHR ''0''" "in_rect rect" y column]
      tile_pixels_cell [of frame "\<lambda>c. c = k" "\<lambda>_ _. True" y column]
    by (simp_all add: kept_eq)
  have s1: "ia_raw_count ?s1 = ia_raw_count sample + tile_pixels frame (\<lambda>_ _. True) y column"
    "ia_included_count ?s1 = ia_included_count sample + tile_pixels frame (kept s) y column"
    "ia_roi_count ?s1 = ia_roi_count sample + tile_pixels frame (\<lambda>y x. kept s y x \<and> in_rect rect y x) y column"
    "length (ia_cells ?s1) = 240"
    "\<And>k. k < 240 \<Longrightarrow> ia_cells ?s1 ! k = ia_cells sample ! k + tile_pixels frame (\<lambda>y x. cell_of y x = k) y column"
    using Cons.prems(3) cell by (auto simp: iva_tile_def Let_def n roi_tile k nth_list_update)
  have "sample' = fold (iva_tile frame rect s) ts ?s1" using Cons.prems(4) by (simp add: t)
  from Cons.IH [OF Cons.prems(1) yc(3) s1(4) this] show ?case by (simp add: t s1)
qed simp

lemma frame_counted:
  assumes "length frame = 230400"
  shows "ia_raw_count (motion_iva_count frame rect s sample) = pixels frame (\<lambda>_ _. True)"
    "ia_included_count (motion_iva_count frame rect s sample) = pixels frame (kept s)"
    "ia_roi_count (motion_iva_count frame rect s sample) = pixels frame (\<lambda>y x. kept s y x \<and> in_rect rect y x)"
    "ia_cells (motion_iva_count frame rect s sample) = map (\<lambda>k. pixels frame (\<lambda>y x. cell_of y x = k)) [0..<240]"
proof -
  have v: "valid_tiles (List.product [0..<360] [0..<20])" by (auto simp: valid_tiles_def)
  let ?z = "sample\<lparr>ia_raw_count := 0, ia_included_count := 0, ia_roi_count := 0, ia_cells := replicate 240 0\<rparr>"
  have l: "length (ia_cells ?z) = 240" by simp
  note c = tiles_counted [OF assms v l motion_iva_count_def]
  show "ia_raw_count (motion_iva_count frame rect s sample) = pixels frame (\<lambda>_ _. True)"
    "ia_included_count (motion_iva_count frame rect s sample) = pixels frame (kept s)"
    "ia_roi_count (motion_iva_count frame rect s sample) = pixels frame (\<lambda>y x. kept s y x \<and> in_rect rect y x)"
    using c by (simp_all add: tile_sum_product pixels_tiles)
  have "length (ia_cells (motion_iva_count frame rect s sample)) = 240"
    "\<forall>k < 240. ia_cells (motion_iva_count frame rect s sample) ! k = pixels frame (\<lambda>y x. cell_of y x = k)"
    using c by (simp_all add: tile_sum_product pixels_tiles)
  then show "ia_cells (motion_iva_count frame rect s sample) = map (\<lambda>k. pixels frame (\<lambda>y x. cell_of y x = k)) [0..<240]"
    by (intro nth_equalityI) simp_all
qed

section \<open>The vector unit\<close>

lemma nonzero_lane_value: "unat (nonzero_lane x) = (if x \<noteq> 0 then 1 else 0)"
  by (simp add: nonzero_lane_def)

lemma pairwise_value:
  fixes x y :: "'a::len word"
  assumes "unat x \<le> b" "unat y \<le> b" "2 * b < 2 ^ LENGTH('b::len)"
  shows "unat (ucast x + ucast y :: 'b word) = unat x + unat y"
proof -
  have "unat (ucast x :: 'b word) = unat x" "unat (ucast y :: 'b word) = unat y"
    using assms by (simp_all add: unsigned_ucast_eq take_bit_nat_eq_self)
  then show ?thesis using assms by (simp add: unat_word_ariths)
qed

lemma pairwise_add_total:
  fixes xs :: "'a::len word list"
  assumes "length xs = 2 * n" "\<forall>x \<in> set xs. unat x \<le> b" "2 * b < 2 ^ LENGTH('b::len)"
  shows "length (pairwise_add xs :: 'b word list) = n \<and> (\<forall>x \<in> set (pairwise_add xs :: 'b word list). unat x \<le> 2 * b) \<and>
    (\<Sum>x\<leftarrow>(pairwise_add xs :: 'b word list). unat x) = (\<Sum>x\<leftarrow>xs. unat x)"
  using assms
proof (induction n arbitrary: xs)
  case (Suc n)
  then obtain x y zs where xs: "xs = x # y # zs" by (auto simp: length_Suc_conv)
  have "unat (ucast x + ucast y :: 'b word) = unat x + unat y"
    using Suc.prems by (intro pairwise_value [where b = b]) (simp_all add: xs)
  moreover note Suc.IH [of zs]
  ultimately show ?case using Suc.prems by (auto simp: xs)
qed simp

lemma map2_add_total:
  fixes xs ys :: "byte list"
  assumes "length xs = length ys" "\<forall>x \<in> set xs. unat x \<le> 1" "\<forall>y \<in> set ys. unat y \<le> 1"
  shows "(\<forall>x \<in> set (map2 (+) xs ys). unat x \<le> 2) \<and>
    (\<Sum>x\<leftarrow>map2 (+) xs ys. unat x) = (\<Sum>x\<leftarrow>xs. unat x) + (\<Sum>y\<leftarrow>ys. unat y)"
  using assms
proof (induction xs ys rule: list_induct2)
  case (Cons x xs y ys)
  then have "unat (x + y) = unat x + unat y" by (simp add: unat_word_ariths)
  then show ?case using Cons by auto
qed simp

lemma neon_counts:
  assumes "32 \<le> length p"
  shows "unat (motion_iva_count32_neon p) = motion_iva_count32 p"
proof -
  let ?a = "map nonzero_lane (take 16 p)" and ?b = "map nonzero_lane (take 16 (drop 16 p))"
  have l: "length ?a = 16" "length ?b = 16" using assms by simp_all
  have "\<forall>x \<in> set ?a. unat x \<le> 1" "\<forall>x \<in> set ?b. unat x \<le> 1" by (auto simp: nonzero_lane_value)
  from map2_add_total [OF _ this] have 0: "\<forall>x \<in> set (map2 (+) ?a ?b). unat x \<le> 2"
    "(\<Sum>x\<leftarrow>map2 (+) ?a ?b. unat x) = (\<Sum>x\<leftarrow>?a. unat x) + (\<Sum>x\<leftarrow>?b. unat x)" using l by auto
  define s16 :: "16 word list" where "s16 = pairwise_add (map2 (+) ?a ?b)"
  define q :: "u32 list" where "q = pairwise_add s16"
  define r :: "u32 list" where "r = pairwise_add q"
  define f :: "u32 list" where "f = pairwise_add r"
  have 1: "length s16 = 8 \<and> (\<forall>x \<in> set s16. unat x \<le> 4) \<and> (\<Sum>x\<leftarrow>s16. unat x) = (\<Sum>x\<leftarrow>map2 (+) ?a ?b. unat x)"
    using pairwise_add_total [of "map2 (+) ?a ?b" 8 2, where 'b = 16] 0(1) l by (simp add: s16_def)
  have 2: "length q = 4 \<and> (\<forall>x \<in> set q. unat x \<le> 8) \<and> (\<Sum>x\<leftarrow>q. unat x) = (\<Sum>x\<leftarrow>s16. unat x)"
    using pairwise_add_total [of s16 4 4, where 'b = 32] 1 by (simp add: q_def)
  have 3: "length r = 2 \<and> (\<forall>x \<in> set r. unat x \<le> 16) \<and> (\<Sum>x\<leftarrow>r. unat x) = (\<Sum>x\<leftarrow>q. unat x)"
    using pairwise_add_total [of q 2 8, where 'b = 32] 2 by (simp add: r_def)
  have 4: "length f = 1 \<and> (\<Sum>x\<leftarrow>f. unat x) = (\<Sum>x\<leftarrow>r. unat x)"
    using pairwise_add_total [of r 1 16, where 'b = 32] 3 by (simp add: f_def)
  then obtain v where "f = [v]" by (auto simp: length_Suc_conv)
  then have "unat (motion_iva_count32_neon p) = (\<Sum>x\<leftarrow>f. unat x)"
    by (simp add: motion_iva_count32_neon_def s16_def q_def r_def f_def)
  also have "\<dots> = (\<Sum>x\<leftarrow>take 32 p. if x \<noteq> 0 then 1 else 0)"
    using 0(2) 1 2 3 4 take_add [of 16 16 p] by (simp add: nonzero_lane_value o_def)
  also have "\<dots> = motion_iva_count32 p"
    using assms by (simp add: count32_sum sum_list_sum_nth atLeast0LessThan)
  finally show ?thesis .
qed

text \<open>
  C27. A frame is counted pixel by pixel, whatever shortcuts are taken: for every frame, rectangle and
  settings, the count of each cell is the number of nonzero pixels in it, the raw count the number of all
  of them, the included count that of the pixels in cells that are not excluded (in all, when the mask is
  off), and the count for the native region that of the included pixels inside the rectangle, also when
  the rectangle cuts through groups of 32 pixels or leaves the frame; the included count is never more
  than the raw one, nor the region's more than the included one.  The counting of 32 bytes on the vector
  unit gives the same numbers as the loop.
\<close>

theorem iva_counts_pixels:
  assumes "length frame = 230400"
  shows "let out = motion_iva_count frame rect s sample
    in ia_cells out = map (\<lambda>k. pixels frame (\<lambda>y x. cell_of y x = k)) [0..<240] \<and>
       ia_raw_count out = pixels frame (\<lambda>_ _. True) \<and> ia_included_count out = pixels frame (kept s) \<and>
       ia_roi_count out = pixels frame (\<lambda>y x. kept s y x \<and> in_rect rect y x) \<and>
       ia_roi_count out \<le> ia_included_count out \<and> ia_included_count out \<le> ia_raw_count out \<and>
       (\<forall>y < 360. \<forall>c < 20. unat (motion_iva_count32_neon (iva_row frame y (c * 32))) =
          motion_iva_count32 (iva_row frame y (c * 32)))"
proof -
  have mono: "pixels frame P \<le> pixels frame Q" if "\<And>y x. P y x \<Longrightarrow> Q y x" for P Q
    unfolding pixels_def by (intro sum_mono) (simp add: pixel_def that)
  have "32 \<le> length (iva_row frame y (c * 32))" if "y < 360" "c < 20" for y c
    using that assms by (simp add: iva_row_def)
  then show ?thesis
    using frame_counted [OF assms, of rect s sample] neon_counts
      mono [of "\<lambda>y x. kept s y x \<and> in_rect rect y x" "kept s"] mono [of "kept s" "\<lambda>_ _. True"]
    by (simp add: Let_def)
qed

text \<open>A frame whose first pixel moves, without a mask.\<close>

definition mask_off :: iva_settings where
  "mask_off = \<lparr>is_enabled = 0, is_cells = replicate 240 CHR ''0''\<rparr>"

definition one_pixel :: "byte list" where
  "one_pixel = (replicate 230400 0)[0 := 255]"

lemma one_pixel_pixels: "pixels one_pixel P = (if P 0 0 then 1 else 0)"
proof -
  have "pixel one_pixel P y x = (if y = 0 then if x = 0 then if P 0 0 then 1 else 0 else 0 else 0)"
    if "y < 360" "x < 640" for y x
    using that by (auto simp: one_pixel_def pixel_def nth_list_update)
  then have "pixels one_pixel P =
      (\<Sum>y<360 :: nat. \<Sum>x<640 :: nat. if y = 0 then if x = 0 then if P 0 0 then 1 else 0 else 0 else 0)"
    unfolding pixels_def by (intro sum.cong) simp_all
  also have "\<dots> = (\<Sum>y<360 :: nat. if y = 0 then if P 0 0 then 1 else 0 else 0)"
    by (intro sum.cong) (simp_all add: sum.delta)
  also have "\<dots> = (if P 0 0 then 1 else 0)" by (simp add: sum.delta)
  finally show ?thesis .
qed

lemma iva_counts_pixels_witness:
  "ia_raw_count (motion_iva_count one_pixel [0, 0, 639, 359] mask_off iva_sample_zero) = 1"
  using iva_counts_pixels [of one_pixel "[0, 0, 639, 359]" mask_off iva_sample_zero] one_pixel_pixels
  by (simp add: Let_def one_pixel_def)

end
