(* ===== verification/Arm_Branches.thy ===== *)
theory Arm_Branches
  imports Prelude
begin

text \<open>
  The branch instructions that the libraries write over code of the vendor's programs:
  \<open>branch_instruction\<close> of \<open>src/ipc_cmd/ipc_cmd/nightvision.c\<close> for the ARM instruction set, and the branch
  of \<open>motion_iva_y28ga.c\<close> for the Thumb instruction set; and what a processor makes of them.
\<close>

section \<open>ARM\<close>

text \<open>The branch with link from one address to another, if it is in range.\<close>

definition branch_instruction :: "nat \<Rightarrow> nat \<Rightarrow> u32 option" where
  "branch_instruction site target =
     (let offset = int target - int site - 8
      in if offset mod 4 \<noteq> 0 \<or> offset < -33554432 \<or> offset > 33554428 then None
         else Some (0xeb000000 OR (word_of_int (offset div 4) AND 0xffffff)))"

text \<open>The address a branch with link goes to, from the instruction set's reference.\<close>

definition arm_branch_target :: "nat \<Rightarrow> u32 \<Rightarrow> int option" where
  "arm_branch_target site word =
     (if word AND 0xff000000 = 0xeb000000
      then Some (int site + 8 + 4 * signed_take_bit 23 (uint (word AND 0xffffff))) else None)"

lemma signed_take_bit_id: "- (2 ^ n) \<le> k \<Longrightarrow> k < 2 ^ n \<Longrightarrow> signed_take_bit n (k :: int) = k"
  by (simp add: signed_take_bit_int_eq_self)

lemma low_bits: "(0xeb000000 OR (w AND 0xffffff)) AND 0xffffff = (w :: u32) AND 0xffffff"
  "(0xeb000000 OR (w AND 0xffffff)) AND 0xff000000 = 0xeb000000"
  by (simp_all add: bit.conj_disj_distrib2 and.assoc)

lemma uint_and_mask24: "uint ((word_of_int k :: u32) AND 0xffffff) = take_bit 24 k"
proof -
  have "(word_of_int k :: u32) AND 0xffffff = take_bit 24 (word_of_int k)"
    by (simp add: take_bit_eq_mask mask_eq_exp_minus_1)
  then show ?thesis by (simp add: unsigned_take_bit_eq unsigned_of_int)
qed

lemma arm_branch_roundtrip:
  assumes "branch_instruction site target = Some w"
  shows "arm_branch_target site w = Some (int target)"
proof -
  let ?o = "int target - int site - 8"
  have o: "?o mod 4 = 0" "-33554432 \<le> ?o" "?o \<le> 33554428" "w = 0xeb000000 OR (word_of_int (?o div 4) AND 0xffffff)"
    using assms by (auto simp: branch_instruction_def Let_def split: if_splits)
  have "signed_take_bit 23 (take_bit 24 (?o div 4)) = ?o div 4"
    using o(2,3) by (simp add: signed_take_bit_take_bit signed_take_bit_id)
  then have "arm_branch_target site w = Some (int site + 8 + 4 * (?o div 4))"
    by (simp add: arm_branch_target_def o(4) low_bits uint_and_mask24 del: word_of_int_hom_syms)
  then show ?thesis using o(1) by (simp add: mult_div_mod_eq [symmetric] mod_0_imp_dvd)
qed

section \<open>Thumb\<close>

definition thumb_branch :: "nat \<Rightarrow> nat \<Rightarrow> (16 word \<times> 16 word) option" where
  "thumb_branch site target =
     (let displacement = int target - int site - 4
      in if odd displacement \<or> displacement < -16777216 \<or> displacement > 16777214 then None
         else
           let immediate = word_of_int displacement AND 0x1ffffff :: u32; s = drop_bit 24 immediate
           in Some (ucast (0xf000 OR push_bit 10 s OR (drop_bit 12 immediate AND 0x3ff)),
                ucast (0x9000 OR push_bit 13 (1 XOR (drop_bit 23 immediate AND 1) XOR s) OR
                   push_bit 11 (1 XOR (drop_bit 22 immediate AND 1) XOR s) OR (drop_bit 1 immediate AND 0x7ff))))"

definition thumb_immediate :: "16 word \<times> 16 word \<Rightarrow> u32" where
  "thumb_immediate code =
     (case code of (a, b) \<Rightarrow>
        let s = bit a 10; i1 = (bit b 13 = s); i2 = (bit b 11 = s)
        in push_bit 24 (of_bool s) OR push_bit 23 (of_bool i1) OR push_bit 22 (of_bool i2) OR
           push_bit 12 (take_bit 10 (ucast a)) OR push_bit 1 (take_bit 11 (ucast b)))"

text \<open>The unconditional wide branch.\<close>

definition thumb_branch_target :: "nat \<Rightarrow> 16 word \<times> 16 word \<Rightarrow> int option" where
  "thumb_branch_target site code =
     (if fst code AND 0xf800 = 0xf000 \<and> snd code AND 0xd000 = 0x9000
      then Some (int site + 4 + signed_take_bit 24 (uint (thumb_immediate code))) else None)"

lemma halfword_bit_cases:
  "(n :: nat) < 16 \<Longrightarrow> n \<in> {0, 1, 2, 3, 4, 5, 6, 7, 8, 9, 10, 11, 12, 13, 14, 15}"
  by (simp, presburger)

lemma halfword_eqI:
  fixes a b :: "16 word"
  assumes "\<And>n. n \<in> {0, 1, 2, 3, 4, 5, 6, 7, 8, 9, 10, 11, 12, 13, 14, 15} \<Longrightarrow> bit a n = bit b n"
  shows "a = b"
  by (rule bit_word_eqI) (use assms halfword_bit_cases in simp)

lemma thumb_fields:
  fixes i :: u32
  assumes "\<not> bit i 0" "\<And>n. 25 \<le> n \<Longrightarrow> \<not> bit i n"
    "a = ucast (0xf000 OR push_bit 10 (drop_bit 24 i) OR (drop_bit 12 i AND 0x3ff))"
    "b = ucast (0x9000 OR push_bit 13 (1 XOR (drop_bit 23 i AND 1) XOR drop_bit 24 i) OR
           push_bit 11 (1 XOR (drop_bit 22 i AND 1) XOR drop_bit 24 i) OR (drop_bit 1 i AND 0x7ff))"
  shows "thumb_immediate (a, b) = i" "a AND 0xf800 = 0xf000" "b AND 0xd000 = 0x9000"
proof -
  define s where "s = bit i 24"
  have z: "bit i (24 + n) \<longleftrightarrow> n = 0 \<and> s" for n using assms(2) [of "24 + n"] by (cases "n = 0") (simp_all add: s_def)
  have d: "drop_bit 24 i = of_bool s"
    by (rule bit_word_eqI) (auto simp: bit_simps z)
  have a: "bit a n \<longleftrightarrow> n < 16 \<and> (12 \<le> n \<or> n = 10 \<and> s \<or> n < 10 \<and> bit i (n + 12))"
    if "n \<in> {0, 1, 2, 3, 4, 5, 6, 7, 8, 9, 10, 11, 12, 13, 14, 15}" for n
    using that unfolding assms(3) d insert_iff empty_iff by (elim disjE) (simp_all add: bit_simps)
  have b: "bit b n \<longleftrightarrow> n < 16 \<and> (n = 15 \<or> n = 12 \<or> n = 13 \<and> (bit i 23 = s) \<or> n = 11 \<and> (bit i 22 = s) \<or>
      n < 11 \<and> bit i (n + 1))"
    if "n \<in> {0, 1, 2, 3, 4, 5, 6, 7, 8, 9, 10, 11, 12, 13, 14, 15}" for n
    using that unfolding assms(4) d insert_iff empty_iff by (elim disjE) (auto simp: bit_simps numeral_3_eq_3)
  show "thumb_immediate (a, b) = i"
  proof -
    have low: "bit a n = bit i (n + 12)" if "n < 10" for n using that a [of n] halfword_bit_cases [of n] by simp
    have low': "bit b n = bit i (n + 1)" if "n < 11" for n using that b [of n] halfword_bit_cases [of n] by simp
    have "take_bit 10 (ucast a :: u32) = take_bit 10 (drop_bit 12 i)"
      by (rule bit_word_eqI) (auto simp: bit_simps low add.commute)
    moreover have "take_bit 11 (ucast b :: u32) = take_bit 11 (drop_bit 1 i)"
      by (rule bit_word_eqI) (auto simp: bit_simps low' add.commute)
    moreover have "bit a 10 = s" "bit b 13 = (bit i 23 = s)" "bit b 11 = (bit i 22 = s)"
      using a [of 10] b [of 13] b [of 11] by simp_all
    ultimately have t: "thumb_immediate (a, b) = push_bit 24 (of_bool s) OR push_bit 23 (of_bool (bit i 23)) OR
        push_bit 22 (of_bool (bit i 22)) OR push_bit 12 (take_bit 10 (drop_bit 12 i)) OR
        push_bit 1 (take_bit 11 (drop_bit 1 i))" by (auto simp: thumb_immediate_def)
    show ?thesis
    proof (rule bit_word_eqI)
      fix n assume "n < LENGTH(32)"
      consider "n = 0" | "1 \<le> n" "n < 12" | "12 \<le> n" "n < 22" | "n = 22" | "n = 23" | "n = 24" | "25 \<le> n" by linarith
      then show "bit (thumb_immediate (a, b)) n = bit i n"
        by cases (use assms(1,2) in \<open>auto simp: t bit_simps s_def bit_double_iff mult.commute [of _ "2 :: u32"]\<close>)
    qed
  qed
  show "a AND 0xf800 = 0xf000" 
    by (rule halfword_eqI) (auto simp: bit_simps a)
  show "b AND 0xd000 = 0x9000"
    by (rule halfword_eqI) (auto simp: bit_simps b)
qed

lemma thumb_branch_roundtrip:
  assumes "thumb_branch site target = Some code"
  shows "thumb_branch_target site code = Some (int target)"
proof -
  let ?d = "int target - int site - 4"
  define i where "i = (word_of_int ?d AND 0x1ffffff :: u32)"
  have d: "even ?d" "-16777216 \<le> ?d" "?d \<le> 16777214"
    using assms by (auto simp: thumb_branch_def Let_def split: if_splits)
  define a :: "16 word" where "a = ucast (0xf000 OR push_bit 10 (drop_bit 24 i) OR (drop_bit 12 i AND 0x3ff))"
  define b :: "16 word" where "b = ucast (0x9000 OR push_bit 13 (1 XOR (drop_bit 23 i AND 1) XOR drop_bit 24 i) OR
      push_bit 11 (1 XOR (drop_bit 22 i AND 1) XOR drop_bit 24 i) OR (drop_bit 1 i AND 0x7ff))"
  have c: "code = (a, b)"
    using assms unfolding thumb_branch_def Let_def i_def a_def b_def by (auto split: if_splits)
  have t: "i = take_bit 25 (word_of_int ?d)"
    unfolding i_def by (simp only: take_bit_eq_mask mask_eq_exp_minus_1) simp
  then have u: "uint i = take_bit 25 ?d" by (simp only: unsigned_take_bit_eq unsigned_of_int) simp
  have "\<not> bit i 0" "\<And>n. 25 \<le> n \<Longrightarrow> \<not> bit i n"
    using d(1) unfolding t by (simp_all only: bit_take_bit_iff bit_of_int_iff) (simp_all add: bit_0)
  note f = thumb_fields [OF this a_def b_def]
  have "signed_take_bit 24 (take_bit 25 ?d) = ?d"
    using d(2,3) by (simp add: signed_take_bit_take_bit signed_take_bit_id)
  then have "thumb_branch_target site code = Some (int site + 4 + ?d)"
    by (simp add: thumb_branch_target_def c f u)
  then show ?thesis by simp
qed

end
