(* ===== verification/Iva_Hook.thy ===== *)
theory Iva_Hook
  imports Motion_Iva Arm_Branches
begin

text \<open>
  \<open>src/ipc_cmd/ipc_cmd/motion_iva_y28ga.c\<close>: the library that stands between the vendor's count of moving
  pixels and its decision.  At the end of each scan it takes new settings from the shared file, counts the
  pixels again, and, when its count agrees with the vendor's, replaces the vendor's counts by those
  without the excluded cells.  What the loads of the shared file return, the vendor's context (words), its
  rectangle, its frame and its registers are arguments of a call.
\<close>

section \<open>State\<close>

record iva_hook =
  iv_active :: iva_settings
  iv_active_generation :: u32
  iv_frame :: u32
  iv_startup_error :: u32

text \<open>The variables of the library once it is installed.\<close>

definition iva_hook_init :: "u32 \<Rightarrow> iva_hook" where
  "iva_hook_init startup_error = \<lparr>iv_active = \<lparr>is_enabled = 0, is_cells = replicate 240 CHR ''0''\<rparr>,
     iv_active_generation = 0, iv_frame = 0, iv_startup_error = startup_error\<rparr>"

section \<open>Taking new settings\<close>

text \<open>The loads of one attempt: the generation, the settings, the generation again.\<close>

record iva_attempt =
  ig_first :: u32
  ig_candidate :: iva_settings
  ig_last :: u32

definition iva_reset_counters :: "iva_hook \<Rightarrow> iva_settings \<Rightarrow> u32 list option \<Rightarrow> u32 list option" where
  "iva_reset_counters h candidate ctx =
     (case ctx of None \<Rightarrow> None
      | Some c \<Rightarrow>
          if c ! 0 = 640 \<and> c ! 1 = 360 \<and> (is_enabled (iv_active h) \<noteq> 0 \<or> is_enabled candidate \<noteq> 0)
          then Some (c[35 := 0, 36 := 0]) else Some c)"

fun iva_adopt :: "nat \<Rightarrow> iva_attempt list \<Rightarrow> u32 list option \<Rightarrow> iva_hook \<Rightarrow> iva_hook \<times> u32 list option" where
  "iva_adopt 0 as ctx h = (h, ctx)"
| "iva_adopt n [] ctx h = (h, ctx)"
| "iva_adopt (Suc n) (a # as) ctx h =
     (if ig_first a = 0 \<or> ig_first a AND 1 \<noteq> 0 \<or> ig_first a = iv_active_generation h then (h, ctx)
      else if ig_first a \<noteq> ig_last a then iva_adopt n as ctx h
      else if \<not> motion_iva_valid (ig_candidate a) then (h, ctx)
      else (h\<lparr>iv_active := ig_candidate a, iv_active_generation := ig_first a\<rparr>,
            iva_reset_counters h (ig_candidate a) ctx))"

section \<open>One scan\<close>

text \<open>
  What the vendor passes and the system answers; \<open>if_map\<close> is the frame at the address in word 19 of the
  context.
\<close>

record iva_scan =
  if_attempts :: "iva_attempt list"
  if_now :: int
  if_reader_ms :: u32
  if_ctx :: "u32 list option"
  if_rect :: "int list option"
  if_map :: "byte list"
  if_registers :: "u32 list"

definition iva_ctx_good :: "u32 list \<Rightarrow> bool" where
  "iva_ctx_good c \<longleftrightarrow> c ! 0 = 640 \<and> c ! 1 = 360 \<and> c ! 20 = 640 \<and> c ! 21 = 360 \<and> c ! 22 = 640 \<and> c ! 19 \<noteq> 0"

text \<open>The sample, and the registers the vendor goes on with.\<close>

definition iva_measure :: "iva_hook \<Rightarrow> iva_scan \<Rightarrow> u32 list option \<Rightarrow> iva_sample \<times> u32 list" where
  "iva_measure h f ctx =
     (let s0 = iva_sample_zero\<lparr>ia_monotonic_ms := if_now f, ia_frame := iv_frame h,
                 ia_applied_generation := iv_active_generation h\<rparr>;
          r = if_registers f
      in if iv_startup_error h \<noteq> 0 then (s0\<lparr>ia_error := iv_startup_error h\<rparr>, r)
         else case (ctx, if_rect f) of
           (Some c, Some rect) \<Rightarrow>
             if \<not> iva_ctx_good c then (s0\<lparr>ia_error := 2\<rparr>, r)
             else let s = motion_iva_count (if_map f) rect (iv_active h) s0
                  in if word_of_nat (ia_raw_count s) \<noteq> r ! 4 + r ! 11 then (s\<lparr>ia_error := 3\<rparr>, r)
                     else if is_enabled (iv_active h) \<noteq> 0
                     then (s, r[4 := word_of_nat (ia_included_count s - ia_roi_count s),
                               11 := word_of_nat (ia_roi_count s)])
                     else (s, r)
         | _ \<Rightarrow> (s0\<lparr>ia_error := 2\<rparr>, r))"

text \<open>The hook, the context, the registers and the shared block after a scan.\<close>

definition motion_iva_filter ::
  "iva_scan \<Rightarrow> iva_hook \<times> iva_shared \<Rightarrow> (iva_hook \<times> iva_shared) \<times> u32 list option \<times> u32 list" where
  "motion_iva_filter f st =
     (let (h, shared) = st; (h1, ctx) = iva_adopt 2 (if_attempts f) (if_ctx f) h
      in if is_enabled (iv_active h1) = 0 \<and> word_of_int (if_now f) - if_reader_ms f > 2500
         then ((h1, shared), ctx, if_registers f)
         else let h2 = h1\<lparr>iv_frame := iv_frame h1 + 1\<rparr>; (s, r) = iva_measure h2 f ctx
              in ((h2, shared\<lparr>ih_generation := ih_generation shared + 2, ih_sample := s\<rparr>), ctx, r))"

section \<open>Installation\<close>

record iva_install_env =
  ii_model :: "string option"
  ii_exe :: "string option"
  ii_base :: "nat option"          \<comment> \<open>the library that holds \<open>ivaDetectMotion\<close>\<close>
  ii_half :: "nat \<Rightarrow> 16 word"
  ii_caller :: u32                 \<comment> \<open>the word at \<open>0x21394\<close>\<close>
  ii_boundary :: nat
  ii_shared :: "iva_shared option" \<comment> \<open>the mapped block\<close>
  ii_page_size :: int
  ii_writable :: bool
  ii_restored :: bool
  ii_pid :: u32

text \<open>The shared block, and when the branch was written its site, its words and the library's state.\<close>

definition iva_initialize ::
  "iva_install_env \<Rightarrow> iva_shared option \<times> (nat \<times> (16 word \<times> 16 word) \<times> iva_hook) option" where
  "iva_initialize e =
     (if ii_model e \<noteq> Some ''y28ga'' \<or> ii_exe e \<noteq> Some ''/home/app/rmm'' then (ii_shared e, None)
      else case ii_base e of None \<Rightarrow> (ii_shared e, None)
      | Some base \<Rightarrow>
          let site = base + 0xebba
          in if ii_half e site \<noteq> 0xf8dd \<or> ii_half e (site + 2) \<noteq> 0xb028 \<or> ii_half e (base + 0xe4c0) \<noteq> 0x4bd4 \<or>
                ii_half e (base + 0xebbe) \<noteq> 0x9b0b \<or> ii_caller e \<noteq> 0xebffd000 then (ii_shared e, None)
             else case (thumb_branch site (ii_boundary e - ii_boundary e mod 2), ii_shared e) of
               (Some code, Some sh) \<Rightarrow>
                 if ih_magic sh \<noteq> iva_magic \<or> ih_version sh \<noteq> iva_version then (Some sh, None)
                 else let sh1 = sh\<lparr>ih_ready_pid := 0\<rparr>
                      in if ii_page_size e < 1 \<or> \<not> ii_writable e then (Some sh1, None)
                         else (Some (sh1\<lparr>ih_ready_pid := ii_pid e\<rparr>),
                               Some (site, code, iva_hook_init (if ii_restored e then 0 else 4)))
             | _ \<Rightarrow> (ii_shared e, None))"

section \<open>What a scan changes\<close>

definition iva_hook_inv :: "iva_hook \<Rightarrow> bool" where
  [inv_defs]: "iva_hook_inv h \<longleftrightarrow> motion_iva_valid (iv_active h) \<and>
     (iv_active_generation h = 0 \<longrightarrow> is_enabled (iv_active h) = 0)"

text \<open>New settings come from a stable, even, nonzero generation of one of two attempts and are valid.\<close>

definition iva_candidate :: "iva_attempt list \<Rightarrow> iva_hook \<Rightarrow> iva_hook \<Rightarrow> bool" where
  "iva_candidate as h h' \<longleftrightarrow>
     (\<exists>a \<in> set (take 2 as). ig_first a \<noteq> 0 \<and> ig_first a AND 1 = 0 \<and> ig_first a = ig_last a \<and>
        ig_first a \<noteq> iv_active_generation h \<and> motion_iva_valid (ig_candidate a) \<and>
        h' = h\<lparr>iv_active := ig_candidate a, iv_active_generation := ig_first a\<rparr>)"

lemma iva_adopt_spec:
  assumes "iva_adopt n as ctx h = (h', ctx')"
  shows "h' = h \<and> ctx' = ctx \<or>
    (\<exists>a \<in> set (take n as). ig_first a \<noteq> 0 \<and> ig_first a AND 1 = 0 \<and> ig_first a = ig_last a \<and>
        ig_first a \<noteq> iv_active_generation h \<and> motion_iva_valid (ig_candidate a) \<and>
        h' = h\<lparr>iv_active := ig_candidate a, iv_active_generation := ig_first a\<rparr> \<and>
        ctx' = iva_reset_counters h (ig_candidate a) ctx)"
  using assms
proof (induction n as ctx h rule: iva_adopt.induct)
  case (3 n a as ctx h)
  then show ?case by (auto split: if_splits)
qed simp_all

lemma iva_adopt_inv: "iva_adopt n as ctx h = (h', ctx') \<Longrightarrow> iva_hook_inv h \<Longrightarrow> iva_hook_inv h'"
  by (drule iva_adopt_spec) (auto simp: iva_hook_inv_def)

lemma pixels_split: "pixels frame P = pixels frame (\<lambda>y x. P y x \<and> Q y x) + pixels frame (\<lambda>y x. P y x \<and> \<not> Q y x)"
  by (simp add: pixels_def sum.distrib [symmetric]) (intro sum.cong refl, simp add: pixel_def)

lemma pixels_cong: "(\<And>y x. P y x = Q y x) \<Longrightarrow> pixels frame P = pixels frame Q"
  by (simp add: pixels_def pixel_def)

definition moving_outside :: "byte list \<Rightarrow> int list \<Rightarrow> iva_settings \<Rightarrow> nat" where
  "moving_outside frame rect s = pixels frame (\<lambda>y x. kept s y x \<and> \<not> in_rect rect y x)"

definition moving_inside :: "byte list \<Rightarrow> int list \<Rightarrow> iva_settings \<Rightarrow> nat" where
  "moving_inside frame rect s = pixels frame (\<lambda>y x. kept s y x \<and> in_rect rect y x)"

definition masked_registers :: "byte list \<Rightarrow> int list \<Rightarrow> iva_settings \<Rightarrow> u32 list \<Rightarrow> u32 list" where
  "masked_registers frame rect s r =
     r[4 := word_of_nat (moving_outside frame rect s), 11 := word_of_nat (moving_inside frame rect s)]"

text \<open>The mask applies to a scan when the count agrees with the vendor's.\<close>

definition mask_applies :: "iva_hook \<Rightarrow> iva_scan \<Rightarrow> u32 list option \<Rightarrow> bool" where
  "mask_applies h f ctx \<longleftrightarrow> iv_startup_error h = 0 \<and> is_enabled (iv_active h) \<noteq> 0 \<and>
     (\<exists>c. ctx = Some c \<and> iva_ctx_good c) \<and> if_rect f \<noteq> None \<and>
     word_of_nat (pixels (if_map f) (\<lambda>_ _. True)) = if_registers f ! 4 + if_registers f ! 11"

lemma iva_measure_registers:
  assumes "iva_measure h f ctx = (s, r)" "length (if_map f) = 230400"
  shows "r = (if mask_applies h f ctx then masked_registers (if_map f) (the (if_rect f)) (iv_active h) (if_registers f)
     else if_registers f)"
proof (cases "iv_startup_error h = 0 \<and> (\<exists>c. ctx = Some c \<and> iva_ctx_good c) \<and> if_rect f \<noteq> None")
  case False
  then show ?thesis using assms(1)
    by (auto simp: iva_measure_def mask_applies_def Let_def split: if_splits option.splits)
next
  case True
  then obtain c rect where c: "iv_startup_error h = 0" "ctx = Some c" "iva_ctx_good c" "if_rect f = Some rect" by auto
  note n = frame_counted [OF assms(2)]
  have "pixels (if_map f) (kept (iv_active h)) - pixels (if_map f) (\<lambda>y x. kept (iv_active h) y x \<and> in_rect rect y x) =
      moving_outside (if_map f) rect (iv_active h)"
    using pixels_split [of "if_map f" "kept (iv_active h)" "in_rect rect"] by (simp add: moving_outside_def)
  then show ?thesis using assms(1) c
    by (auto simp: iva_measure_def mask_applies_def Let_def n masked_registers_def moving_inside_def split: if_splits)
qed

lemma masked_same:
  assumes "pixels frame (\<lambda>y x. \<not> kept s y x) = 0" "word_of_nat (pixels frame (\<lambda>_ _. True)) = r ! 4 + (r ! 11 :: u32)"
    "r ! 11 = word_of_nat (pixels frame (in_rect rect))"
  shows "masked_registers frame rect s r = r"
proof -
  have e: "pixels frame (\<lambda>y x. kept s y x \<and> P y x) = pixels frame P" for P
  proof -
    have "pixels frame (\<lambda>y x. P y x \<and> \<not> kept s y x) \<le> pixels frame (\<lambda>y x. \<not> kept s y x)"
      unfolding pixels_def by (intro sum_mono) (simp add: pixel_def)
    then have "pixels frame P = pixels frame (\<lambda>y x. P y x \<and> kept s y x)"
      using pixels_split [of frame P "kept s"] assms(1) by simp
    then show ?thesis by (simp add: conj_commute)
  qed
  have "pixels frame (\<lambda>_ _. True) = pixels frame (in_rect rect) + moving_outside frame rect s"
    using pixels_split [of frame "\<lambda>_ _. True" "in_rect rect"] by (simp add: moving_outside_def e)
  then have "r ! 4 = word_of_nat (moving_outside frame rect s)" using assms(2,3) by simp
  moreover have "r ! 11 = word_of_nat (moving_inside frame rect s)" using assms(3) by (simp add: moving_inside_def e)
  ultimately show ?thesis unfolding masked_registers_def by (metis list_update_id)
qed

fun iva_run :: "iva_scan list \<Rightarrow> iva_hook \<times> iva_shared \<Rightarrow> iva_hook \<times> iva_shared" where
  "iva_run [] st = st"
| "iva_run (f # fs) st = iva_run fs (fst (motion_iva_filter f st))"

lemma filter_inv:
  assumes "iva_hook_inv (fst st)"
  shows "iva_hook_inv (fst (fst (motion_iva_filter f st)))"
proof -
  obtain h1 ctx where a: "iva_adopt 2 (if_attempts f) (if_ctx f) (fst st) = (h1, ctx)" by fastforce
  then have "iva_hook_inv h1" using iva_adopt_inv assms by blast
  then show ?thesis using a
    by (cases st) (auto simp: motion_iva_filter_def iva_hook_inv_def Let_def split: prod.splits)
qed

lemma run_inv: "iva_hook_inv (fst st) \<Longrightarrow> iva_hook_inv (fst (iva_run fs st))"
  by (induction fs arbitrary: st) (simp_all add: filter_inv)

lemma hook_init_inv: "iva_hook_inv (iva_hook_init err)"
  by (simp add: iva_hook_inv_def iva_hook_init_def motion_iva_valid_def list_all_iff)

text \<open>
  C26. The hook changes the vendor's decision only by leaving out excluded cells.  After any scans, with
  anything in the shared file and the vendor's context, a scan uses valid settings, which are the ones
  before or ones copied between two equal, even, nonzero generations in one of two attempts; it changes
  the vendor's context at most in the two motion counters, and only with new settings; and the registers
  the vendor goes on with are its own, or, when the mask is on, the layout is the expected one and the
  pixels counted agree in number with the vendor's counts, its own with the moving pixels of included
  cells outside and inside the rectangle in place of its counts, which changes nothing when no excluded
  cell moves.
\<close>

theorem iva_scan_masks:
  assumes "motion_iva_filter f (iva_run fs (iva_hook_init err, sh)) = ((h', sh'), ctx', r')"
    "length (if_map f) = 230400" "iva_run fs (iva_hook_init err, sh) = (h, sh1)"
  shows "motion_iva_valid (iv_active h') \<and>
    (iv_active h' = iv_active h \<and> iv_active_generation h' = iv_active_generation h \<and> ctx' = if_ctx f \<or>
     (\<exists>h2. iva_candidate (if_attempts f) h h2 \<and> iv_active h' = iv_active h2 \<and>
        iv_active_generation h' = iv_active_generation h2 \<and>
        (ctx' = if_ctx f \<or> (\<exists>c. if_ctx f = Some c \<and> ctx' = Some (c[35 := 0, 36 := 0]))))) \<and>
    (r' = if_registers f \<or>
     mask_applies h' f ctx' \<and> r' = masked_registers (if_map f) (the (if_rect f)) (iv_active h') (if_registers f)) \<and>
    (pixels (if_map f) (\<lambda>y x. \<not> kept (iv_active h') y x) = 0 \<and>
       if_registers f ! 11 = word_of_nat (pixels (if_map f) (in_rect (the (if_rect f)))) \<longrightarrow> r' = if_registers f)"
proof -
  obtain h1 ctx where a: "iva_adopt 2 (if_attempts f) (if_ctx f) h = (h1, ctx)" by fastforce
  have "iva_hook_inv h" using run_inv [of "(iva_hook_init err, sh)" fs] hook_init_inv assms(3) by simp
  from iva_adopt_inv [OF a this] have v: "motion_iva_valid (iv_active h1)" by (simp add: iva_hook_inv_def)
  have out: "ctx' = ctx" "iv_active h' = iv_active h1" "iv_active_generation h' = iv_active_generation h1"
    "r' = if_registers f \<or> r' = snd (iva_measure h' f ctx)"
    using assms(1) a by (auto simp: assms(3) motion_iva_filter_def Let_def split: prod.splits if_splits)
  obtain s r where m: "iva_measure h' f ctx = (s, r)" by fastforce
  have r: "r' = if_registers f \<or>
     mask_applies h' f ctx' \<and> r' = masked_registers (if_map f) (the (if_rect f)) (iv_active h') (if_registers f)"
    using out iva_measure_registers [OF m assms(2)] m by (auto split: if_splits)
  moreover have "r' = if_registers f" if "pixels (if_map f) (\<lambda>y x. \<not> kept (iv_active h') y x) = 0"
    "if_registers f ! 11 = word_of_nat (pixels (if_map f) (in_rect (the (if_rect f))))"
    using r masked_same [OF that(1) _ that(2)] by (auto simp: mask_applies_def)
  moreover have "iv_active h1 = iv_active h \<and> iv_active_generation h1 = iv_active_generation h \<and> ctx = if_ctx f \<or>
     (\<exists>h2. iva_candidate (if_attempts f) h h2 \<and> iv_active h1 = iv_active h2 \<and>
        iv_active_generation h1 = iv_active_generation h2 \<and>
        (ctx = if_ctx f \<or> (\<exists>c. if_ctx f = Some c \<and> ctx = Some (c[35 := 0, 36 := 0]))))"
    using iva_adopt_spec [OF a]
  proof
    assume "\<exists>a \<in> set (take 2 (if_attempts f)). ig_first a \<noteq> 0 \<and> ig_first a AND 1 = 0 \<and> ig_first a = ig_last a \<and>
        ig_first a \<noteq> iv_active_generation h \<and> motion_iva_valid (ig_candidate a) \<and>
        h1 = h\<lparr>iv_active := ig_candidate a, iv_active_generation := ig_first a\<rparr> \<and>
        ctx = iva_reset_counters h (ig_candidate a) (if_ctx f)"
    then obtain a where a: "a \<in> set (take 2 (if_attempts f))" "ig_first a \<noteq> 0 \<and> ig_first a AND 1 = 0 \<and> ig_first a = ig_last a \<and>
        ig_first a \<noteq> iv_active_generation h \<and> motion_iva_valid (ig_candidate a) \<and>
        h1 = h\<lparr>iv_active := ig_candidate a, iv_active_generation := ig_first a\<rparr>"
      "ctx = iva_reset_counters h (ig_candidate a) (if_ctx f)" by blast
    then have "iva_candidate (if_attempts f) h h1" unfolding iva_candidate_def by blast
    with a(3) show ?thesis by (intro disjI2 exI [of _ h1]) (auto simp: iva_reset_counters_def split: option.splits)
  qed simp
  ultimately show ?thesis using v out(1-3) by simp
qed

text \<open>The first cell is excluded and its first pixel moves: the vendor's count of 1 becomes 0.\<close>

definition first_cell_off :: iva_settings where
  "first_cell_off = \<lparr>is_enabled = 1, is_cells = CHR ''1'' # replicate 239 CHR ''0''\<rparr>"

definition masked_scan :: iva_scan where
  "masked_scan = \<lparr>if_attempts = [\<lparr>ig_first = 2, ig_candidate = first_cell_off, ig_last = 2\<rparr>], if_now = 1000,
     if_reader_ms = 0, if_ctx = Some ([640, 360] @ replicate 17 0 @ [4096, 640, 360, 640] @ replicate 14 0),
     if_rect = Some [0, 0, 639, 359], if_map = one_pixel, if_registers = (replicate 16 0)[11 := 1]\<rparr>"

lemma masked_scan_adopts:
  "iva_adopt 2 (if_attempts masked_scan) (if_ctx masked_scan) (iva_hook_init 0) =
     ((iva_hook_init 0)\<lparr>iv_active := first_cell_off, iv_active_generation := 2\<rparr>, if_ctx masked_scan)"
proof -
  have "motion_iva_valid first_cell_off" by (simp add: first_cell_off_def motion_iva_valid_def list_all_iff)
  moreover have "iva_reset_counters (iva_hook_init 0) first_cell_off (if_ctx masked_scan) = if_ctx masked_scan"
    by (simp add: iva_reset_counters_def masked_scan_def numeral_eq_Suc)
  ultimately show ?thesis by (simp add: masked_scan_def iva_hook_init_def numeral_2_eq_2 iva_reset_counters_def)
qed

lemma masked_scan_result:
  "mask_applies (fst (fst (motion_iva_filter masked_scan (iva_hook_init 0, sh)))) masked_scan (if_ctx masked_scan) \<and>
   snd (snd (motion_iva_filter masked_scan (iva_hook_init 0, sh))) =
     masked_registers one_pixel [0, 0, 639, 359] first_cell_off ((replicate 16 0)[11 := 1])"
proof -
  let ?h = "(iva_hook_init 0)\<lparr>iv_active := first_cell_off, iv_active_generation := 2, iv_frame := 1\<rparr>"
  obtain s r where m: "iva_measure ?h masked_scan (if_ctx masked_scan) = (s, r)" by fastforce
  have "\<exists>c. if_ctx masked_scan = Some c \<and> iva_ctx_good c"
    by (simp add: masked_scan_def iva_ctx_good_def nth_append)
  then have a: "mask_applies ?h masked_scan (if_ctx masked_scan)"
    by (simp add: mask_applies_def) (simp add: masked_scan_def iva_hook_init_def first_cell_off_def
       one_pixel_pixels)
  have "length (if_map masked_scan) = 230400" by (simp add: masked_scan_def one_pixel_def)
  from iva_measure_registers [OF m this] a have "r = masked_registers one_pixel [0, 0, 639, 359] first_cell_off ((replicate 16 0)[11 := 1])"
    by (simp add: masked_scan_def)
  moreover have "motion_iva_filter masked_scan (iva_hook_init 0, sh) =
      ((?h, sh\<lparr>ih_generation := ih_generation sh + 2, ih_sample := s\<rparr>), if_ctx masked_scan, r)"
    unfolding motion_iva_filter_def prod.case masked_scan_adopts Let_def
    using m by (simp add: iva_hook_init_def first_cell_off_def)
  ultimately show ?thesis using a by simp
qed

lemma iva_scan_masks_witness:
  "\<exists>h' sh' ctx' r'. motion_iva_filter masked_scan (iva_run [] (iva_hook_init 0, iva_shared_zero)) = ((h', sh'), ctx', r') \<and>
     motion_iva_valid (iv_active h') \<and> r' ! 11 = 0 \<and> if_registers masked_scan ! 11 = 1"
proof -
  obtain h' sh' ctx' r' where f: "motion_iva_filter masked_scan (iva_run [] (iva_hook_init 0, iva_shared_zero)) = ((h', sh'), ctx', r')"
    by (metis surj_pair)
  have "length (if_map masked_scan) = 230400" by (simp add: masked_scan_def one_pixel_def)
  from iva_scan_masks [OF f this] have v: "motion_iva_valid (iv_active h')" by simp
  have "r' = masked_registers one_pixel [0, 0, 639, 359] first_cell_off ((replicate 16 0)[11 := 1])"
    using masked_scan_result [of iva_shared_zero] f by simp
  then have "r' ! 11 = 0"
    by (simp add: masked_registers_def moving_inside_def one_pixel_pixels kept_def cell_of_def first_cell_off_def)
  then show ?thesis using f v by (auto simp: masked_scan_def)
qed

end
