(* ===== verification/Writer_Lock.thy ===== *)
theory Writer_Lock
  imports Seqlock
begin

text \<open>
  The lock that lets several controllers write one block which a reader copies without waiting:
  \<open>src/ipc_cmd/ipc_cmd/motion_ivactl.c\<close> and \<open>nightvisionctl.c\<close>.  The generation is the lock: a controller
  that finds it even makes it odd with a compare-and-exchange, writes, and makes it even again; it gives up
  after 50 attempts.  A controller of the motion mask that is run with \<open>--init\<close> resets an odd generation to 0 when
  no detector lives; a check and a store, with anything in between.
\<close>

section \<open>The attempts of one controller\<close>

text \<open>An attempt: the generation that was loaded, and whether the exchange succeeded.\<close>

fun writer_lock :: "nat \<Rightarrow> (u32 \<times> bool) list \<Rightarrow> u32 option" where
  "writer_lock 0 as = None"
| "writer_lock n [] = None"
| "writer_lock (Suc n) ((g, exchanged) # as) =
     (if g AND 1 = 0 \<and> exchanged then Some g else writer_lock n as)"

definition lock_attempts :: nat where "lock_attempts = 50"

lemma writer_lock_even: "writer_lock n as = Some g \<Longrightarrow> g AND 1 = 0 \<and> (g, True) \<in> set (take n as)"
  by (induction n as rule: writer_lock.induct) (auto split: if_splits)

lemma writer_lock_stuck: "\<forall>a \<in> set (take n as). fst a AND 1 \<noteq> 0 \<Longrightarrow> writer_lock n as = None"
  by (induction n as rule: writer_lock.induct) auto

section \<open>Several controllers\<close>

text \<open>
  Controllers are numbered.  \<open>Recovers\<close> has found an odd generation and no detector, and is about to store 0.
  One that holds the lock knows the even generation it exchanged and the block it was asked to write:
  before it has looked at the old block, while it writes cell by cell, or when the old block was the same.
\<close>

datatype 'a controller = Idle | Recovers | Locked u32 "'a list" | Writing u32 nat "'a list" | Same u32

definition holds_lock :: "'a controller \<Rightarrow> bool" where
  "holds_lock c \<longleftrightarrow> (case c of Idle \<Rightarrow> False | Recovers \<Rightarrow> False | _ \<Rightarrow> True)"

text \<open>Besides, whether the number of the detector is that of a process, and as ghosts the commits since the generation was 0 and all blocks committed.\<close>

record 'a shared_block =
  sb_gen :: u32
  sb_mem :: "'a list"
  sb_controllers :: "nat \<Rightarrow> 'a controller"
  sb_alive :: bool
  sb_reader :: "'a reader_pc"
  sb_commits :: nat
  sb_committed :: "'a list list"

text \<open>The flag \<open>iva\<close> tells the mask of the detector, whose readers refuse the generation 0, from the night vision settings.\<close>

definition block_init :: "bool \<Rightarrow> 'a list \<Rightarrow> 'a shared_block" where
  "block_init iva mem = \<lparr>sb_gen = 0, sb_mem = mem, sb_controllers = (\<lambda>_. Idle), sb_alive = False, sb_reader = RIdle,
     sb_commits = 0, sb_committed = (if iva then [] else [mem])\<rparr>"

text \<open>
  The exchange is one step: it succeeds exactly when the generation still is the even one loaded.  A failed
  exchange changes nothing, nor does giving up.  A controller can be killed at any time, and leaves what it has done.
  The flag of a step says that it is the store of a recovery.  The detector comes and goes; only a living one reads.
\<close>

inductive block_step :: "bool \<Rightarrow> bool \<Rightarrow> 'a shared_block \<Rightarrow> 'a shared_block \<Rightarrow> bool" for iva where
  recover_check: "iva \<Longrightarrow> sb_controllers s i = Idle \<Longrightarrow> sb_gen s AND 1 \<noteq> 0 \<Longrightarrow> \<not> sb_alive s \<Longrightarrow>
     block_step iva False s (s\<lparr>sb_controllers := (sb_controllers s)(i := Recovers)\<rparr>)"
| recover: "iva \<Longrightarrow> sb_controllers s i = Recovers \<Longrightarrow>
     block_step iva True s (s\<lparr>sb_gen := 0, sb_controllers := (sb_controllers s)(i := Idle), sb_commits := 0\<rparr>)"
| exchange: "sb_controllers s i = Idle \<Longrightarrow> sb_gen s = g \<Longrightarrow> g AND 1 = 0 \<Longrightarrow> length new = length (sb_mem s) \<Longrightarrow>
     block_step iva False s (s\<lparr>sb_gen := g + 1, sb_controllers := (sb_controllers s)(i := Locked g new)\<rparr>)"
| same: "iva \<Longrightarrow> sb_controllers s i = Locked g new \<Longrightarrow> g \<noteq> 0 \<Longrightarrow> sb_mem s = new \<Longrightarrow>
     block_step iva False s (s\<lparr>sb_controllers := (sb_controllers s)(i := Same g)\<rparr>)"
| differs: "sb_controllers s i = Locked g new \<Longrightarrow> \<not> (iva \<and> g \<noteq> 0 \<and> sb_mem s = new) \<Longrightarrow>
     block_step iva False s (s\<lparr>sb_controllers := (sb_controllers s)(i := Writing g 0 new)\<rparr>)"
| write_cell: "sb_controllers s i = Writing g k new \<Longrightarrow> k < length new \<Longrightarrow>
     block_step iva False s (s\<lparr>sb_mem := (sb_mem s)[k := new ! k],
       sb_controllers := (sb_controllers s)(i := Writing g (Suc k) new)\<rparr>)"
| release: "sb_controllers s i = Writing g k new \<Longrightarrow> k = length new \<Longrightarrow>
     block_step iva False s (s\<lparr>sb_gen := g + 2, sb_controllers := (sb_controllers s)(i := Idle),
       sb_commits := Suc (sb_commits s), sb_committed := new # sb_committed s\<rparr>)"
| release_same: "sb_controllers s i = Same g \<Longrightarrow>
     block_step iva False s (s\<lparr>sb_gen := g, sb_controllers := (sb_controllers s)(i := Idle)\<rparr>)"
| killed: "block_step iva False s (s\<lparr>sb_controllers := (sb_controllers s)(i := Idle)\<rparr>)"
| detector_starts: "block_step iva False s (s\<lparr>sb_alive := True\<rparr>)"
| detector_ends: "block_step iva False s (s\<lparr>sb_alive := False, sb_reader := RIdle\<rparr>)"
| b_load: "sb_alive s \<Longrightarrow> sb_reader s = RIdle \<Longrightarrow> sb_gen s AND 1 = 0 \<Longrightarrow> \<not> (iva \<and> sb_gen s = 0) \<Longrightarrow>
     block_step iva False s (s\<lparr>sb_reader := RCopy (sb_gen s) (sb_commits s) []\<rparr>)"
| b_cell: "sb_reader s = RCopy g c buf \<Longrightarrow> length buf < length (sb_mem s) \<Longrightarrow>
     block_step iva False s (s\<lparr>sb_reader := RCopy g c (buf @ [sb_mem s ! length buf])\<rparr>)"
| b_accept: "sb_reader s = RCopy g c buf \<Longrightarrow> length buf = length (sb_mem s) \<Longrightarrow> sb_gen s = g \<Longrightarrow>
     block_step iva False s (s\<lparr>sb_reader := RDone buf (sb_commits s - c)\<rparr>)"
| b_retry: "sb_reader s = RCopy g c buf \<Longrightarrow> length buf = length (sb_mem s) \<Longrightarrow> sb_gen s \<noteq> g \<Longrightarrow>
     block_step iva False s (s\<lparr>sb_reader := RIdle\<rparr>)"
| b_again: "sb_reader s = RDone buf n \<Longrightarrow> block_step iva False s (s\<lparr>sb_reader := RIdle\<rparr>)"

text \<open>
  A recovery is in order when, at its store, no controller holds the lock and the detector still is not there.  The
  code checks the detector only, and only before.
\<close>

definition quiet :: "'a shared_block \<Rightarrow> bool" where
  "quiet s \<longleftrightarrow> (\<forall>i. \<not> holds_lock (sb_controllers s i)) \<and> \<not> sb_alive s"

inductive block_reachable :: "bool \<Rightarrow> bool \<Rightarrow> 'a list \<Rightarrow> 'a shared_block \<Rightarrow> bool" for orderly iva mem where
  start: "block_reachable orderly iva mem (block_init iva mem)"
| step: "block_reachable orderly iva mem s \<Longrightarrow> block_step iva r s t \<Longrightarrow> (orderly \<and> r \<longrightarrow> quiet s) \<Longrightarrow>
     block_reachable orderly iva mem t"

section \<open>Invariant\<close>

lemma generation_parity:
  assumes "(g :: u32) AND 1 = 0"
  shows "(g + 1) AND 1 \<noteq> 0" "(g + 2) AND 1 = 0"
proof -
  obtain n where n: "g = word_of_nat n" by (cases g rule: word_nat_cases) auto
  have "g + 1 = word_of_nat (n + 1)" "g + 2 = word_of_nat (n + 2)" by (simp_all add: n)
  then show "(g + 1) AND 1 \<noteq> 0" "(g + 2) AND 1 = 0"
    using assms u32_even_iff [of n] u32_even_iff [of "n + 1"] u32_even_iff [of "n + 2"]
    by (simp_all add: n add.commute)
qed

text \<open>A block that readers may take, and what is known of a controller that holds the lock.\<close>

definition block_ok :: "bool \<Rightarrow> 'a shared_block \<Rightarrow> bool" where
  "block_ok iva s \<longleftrightarrow> (0 < sb_commits s \<or> \<not> iva \<longrightarrow> sb_mem s \<in> set (sb_committed s))"

definition holder_ok :: "bool \<Rightarrow> 'a shared_block \<Rightarrow> 'a controller \<Rightarrow> bool" where
  "holder_ok iva s c \<longleftrightarrow>
     (case c of
        Locked g new \<Rightarrow> sb_gen s = g + 1 \<and> g = of_nat (2 * sb_commits s) \<and> length new = length (sb_mem s) \<and> block_ok iva s
      | Writing g k new \<Rightarrow> sb_gen s = g + 1 \<and> g = of_nat (2 * sb_commits s) \<and> length new = length (sb_mem s) \<and> k \<le> length new \<and>
          take k (sb_mem s) = take k new
      | Same g \<Rightarrow> sb_gen s = g + 1 \<and> g = of_nat (2 * sb_commits s) \<and> block_ok iva s
      | _ \<Rightarrow> True)"

definition lock_inv :: "bool \<Rightarrow> 'a shared_block \<Rightarrow> bool" where
  "lock_inv iva s \<longleftrightarrow>
     (\<forall>i. holder_ok iva s (sb_controllers s i)) \<and>
     (\<forall>i j. holds_lock (sb_controllers s i) \<and> holds_lock (sb_controllers s j) \<longrightarrow> i = j) \<and>
     (\<exists>b\<le>1. sb_gen s = of_nat (2 * sb_commits s + b)) \<and>
     (sb_gen s AND 1 = 0 \<longrightarrow> block_ok iva s)"

text \<open>The memory is as it was left by the last commit while the generation is even, or nothing was written yet.\<close>

definition settled :: "'a shared_block \<Rightarrow> bool" where
  "settled s \<longleftrightarrow> sb_gen s AND 1 = 0 \<or>
     (\<exists>i. holds_lock (sb_controllers s i) \<and> (\<forall>g k new. sb_controllers s i \<noteq> Writing g k new))"

definition copy_inv :: "bool \<Rightarrow> 'a shared_block \<Rightarrow> bool" where
  "copy_inv iva s \<longleftrightarrow>
     (case sb_reader s of
        RIdle \<Rightarrow> True
      | RCopy g c buf \<Rightarrow> sb_alive s \<and> c \<le> sb_commits s \<and> g = of_nat (2 * c) \<and> (0 < c \<or> \<not> iva) \<and>
          (sb_commits s = c \<and> settled s \<longrightarrow> buf = take (length buf) (sb_mem s))
      | RDone buf n \<Rightarrow> sb_alive s \<and> (n < gen_span \<longrightarrow> buf \<in> set (sb_committed s)))"

lemma holder_odd: "holder_ok iva s c \<Longrightarrow> holds_lock c \<Longrightarrow> sb_gen s AND 1 \<noteq> 0"
  using generation_parity(1) u32_even_iff [of "2 * sb_commits s"]
  by (cases c) (simp_all add: holder_ok_def holds_lock_def)

lemma even_generation:
  assumes "lock_inv iva s" "sb_gen s AND 1 = 0"
  shows "sb_gen s = of_nat (2 * sb_commits s)" "\<not> holds_lock (sb_controllers s i)" "block_ok iva s"
proof -
  obtain b where b: "b \<le> 1" "sb_gen s = of_nat (2 * sb_commits s + b)" using assms(1) by (auto simp: lock_inv_def)
  then have "even b" using u32_even_iff [of "2 * sb_commits s + b"] assms(2) by simp
  then have "b = 0" using b(1) by (cases "b = 1") simp_all
  then show "sb_gen s = of_nat (2 * sb_commits s)" using b(2) by simp
  show "\<not> holds_lock (sb_controllers s i)" using assms holder_odd by (auto simp: lock_inv_def)
  show "block_ok iva s" using assms by (simp add: lock_inv_def)
qed

text \<open>A change of a controller that has no say.\<close>

lemma holder_ok_cong:
  "sb_gen t = sb_gen s \<Longrightarrow> sb_commits t = sb_commits s \<Longrightarrow> sb_mem t = sb_mem s \<Longrightarrow> sb_committed t = sb_committed s \<Longrightarrow>
    holder_ok iva t c = holder_ok iva s c \<and> block_ok iva t = block_ok iva s"
  by (simp add: holder_ok_def block_ok_def split: controller.split)

lemma holder_not_lock: "\<not> holds_lock c \<Longrightarrow> holder_ok iva s c"
  by (cases c) (simp_all add: holder_ok_def holds_lock_def)

text \<open>While one controller holds the lock, what the others do is only to wait.\<close>

lemma lock_inv_holder:
  assumes "holds_lock (sb_controllers s i)" "lock_inv iva s" "\<forall>j. j \<noteq> i \<longrightarrow> sb_controllers t j = sb_controllers s j"
    "holder_ok iva t (sb_controllers t i)" "\<exists>b\<le>1. sb_gen t = of_nat (2 * sb_commits t + b)" "sb_gen t AND 1 = 0 \<longrightarrow> block_ok iva t"
  shows "lock_inv iva t"
proof -
  have others: "\<not> holds_lock (sb_controllers t j)" if "j \<noteq> i" for j
    using assms(1-3) that by (metis lock_inv_def)
  then have "holder_ok iva t (sb_controllers t j)" for j using assms(4) holder_not_lock by (cases "j = i") auto
  then show ?thesis using others assms(5,6) unfolding lock_inv_def by metis
qed

lemma lock_inv_parts:
  assumes "lock_inv iva s"
  shows "holder_ok iva s (sb_controllers s i)" "\<exists>b\<le>1. sb_gen s = of_nat (2 * sb_commits s + b)" "sb_gen s AND 1 = 0 \<longrightarrow> block_ok iva s"
  using assms unfolding lock_inv_def by blast+

lemma lock_inv_holder_goes_on:
  assumes "holds_lock (sb_controllers s i)" "lock_inv iva s" "\<forall>j. j \<noteq> i \<longrightarrow> sb_controllers t j = sb_controllers s j"
    "holder_ok iva t (sb_controllers t i)" "sb_gen t = sb_gen s" "sb_commits t = sb_commits s"
  shows "lock_inv iva t"
proof (rule lock_inv_holder [OF assms(1-4)])
  show "\<exists>b\<le>1. sb_gen t = of_nat (2 * sb_commits t + b)" unfolding assms(5,6) by (rule lock_inv_parts(2) [OF assms(2)])
  show "sb_gen t AND 1 = 0 \<longrightarrow> block_ok iva t"
    unfolding assms(5) using holder_odd [OF lock_inv_parts(1) [OF assms(2)] assms(1)] by blast
qed

text \<open>The reader and the life of the detector do not matter to the lock.\<close>

lemma lock_inv_detector:
  "lock_inv iva (s\<lparr>sb_reader := r\<rparr>) = lock_inv iva s" "lock_inv iva (s\<lparr>sb_alive := a\<rparr>) = lock_inv iva s"
proof -
  have "holder_ok iva (s\<lparr>sb_reader := r\<rparr>) c = holder_ok iva s c" "holder_ok iva (s\<lparr>sb_alive := a\<rparr>) c = holder_ok iva s c" for c
    by (rule holder_ok_cong [THEN conjunct1]; simp)+
  then show "lock_inv iva (s\<lparr>sb_reader := r\<rparr>) = lock_inv iva s" "lock_inv iva (s\<lparr>sb_alive := a\<rparr>) = lock_inv iva s"
    by (simp_all add: lock_inv_def block_ok_def)
qed

lemma lock_inv_step:
  assumes "block_step iva r s t" "lock_inv iva s" "r \<longrightarrow> quiet s"
  shows "lock_inv iva t"
  using assms
proof (induction rule: block_step.induct)
  case (recover_check s i)
  let ?t = "s\<lparr>sb_controllers := (sb_controllers s)(i := Recovers)\<rparr>"
  have c: "sb_controllers ?t j = (if j = i then Recovers else sb_controllers s j)" for j by simp
  show ?case using recover_check(5) holder_ok_cong [of ?t s iva] unfolding lock_inv_def c
    by (simp add: holder_ok_def holds_lock_def)
next
  case (recover s i)
  then have "\<not> holds_lock (sb_controllers s j)" for j by (simp add: quiet_def)
  then show ?case using recover(1) by (auto simp: lock_inv_def holder_not_lock block_ok_def holds_lock_def intro: exI [of _ 0])
next
  case (exchange s i g new)
  note even = even_generation [OF exchange(5)]
  have g: "g = of_nat (2 * sb_commits s)" "block_ok iva s" "\<not> holds_lock (sb_controllers s j)" for j using even exchange(2,3) by auto
  let ?t = "s\<lparr>sb_gen := g + 1, sb_controllers := (sb_controllers s)(i := Locked g new)\<rparr>"
  have "holder_ok iva ?t (sb_controllers ?t j)" for j
    using g exchange(4) holder_not_lock [OF g(3)] by (simp add: holder_ok_def block_ok_def)
  moreover have "\<exists>b\<le>1. sb_gen ?t = of_nat (2 * sb_commits ?t + b)" using g(1) by (intro exI [of _ 1]) simp
  moreover have "sb_gen ?t AND 1 \<noteq> 0" using generation_parity(1) [OF exchange(3)] by simp
  moreover have "j = i" if "holds_lock (sb_controllers ?t j)" for j using that g(3) by (auto split: if_splits)
  ultimately show ?case unfolding lock_inv_def by metis
next
  case (same s i g new)
  then have "holder_ok iva s (Locked g new)" by (metis lock_inv_parts(1))
  then show ?case using same(2,5)
    by - (rule lock_inv_holder_goes_on [of s i], simp_all add: holds_lock_def holder_ok_def block_ok_def)
next
  case (differs s i g new)
  then have "holder_ok iva s (Locked g new)" by (metis lock_inv_parts(1))
  then show ?case using differs(1,3)
    by - (rule lock_inv_holder_goes_on [of s i], simp_all add: holds_lock_def holder_ok_def)
next
  case (write_cell s i g k new)
  then have h: "holder_ok iva s (Writing g k new)" by (metis lock_inv_parts(1))
  then have "take (Suc k) ((sb_mem s)[k := new ! k]) = take (Suc k) new"
    using write_cell(2) by (simp add: holder_ok_def take_Suc_conv_app_nth)
  then show ?case using h write_cell(1-3)
    by - (rule lock_inv_holder_goes_on [of s i], simp_all add: holds_lock_def holder_ok_def)
next
  case (release s i g k new)
  then have h: "holder_ok iva s (Writing g k new)" by (metis lock_inv_parts(1))
  then have m: "g = of_nat (2 * sb_commits s)" and new: "length new = length (sb_mem s)" "take k (sb_mem s) = take k new"
    unfolding holder_ok_def controller.case by blast+
  have old: "sb_mem s = new" using new release(2) by (metis order_refl take_all)
  let ?t = "s\<lparr>sb_gen := g + 2, sb_controllers := (sb_controllers s)(i := Idle), sb_commits := Suc (sb_commits s), sb_committed := new # sb_committed s\<rparr>"
  have "sb_gen ?t = of_nat (2 * sb_commits ?t + 0)" using m by (simp add: algebra_simps)
  then have "\<exists>b\<le>1. sb_gen ?t = of_nat (2 * sb_commits ?t + b)" using zero_le_one by blast
  moreover have "block_ok iva ?t" using old by (simp add: block_ok_def)
  moreover have "holder_ok iva ?t (sb_controllers ?t i)" by (simp add: holder_ok_def)
  moreover have "holds_lock (sb_controllers s i)" using release(1) by (simp add: holds_lock_def)
  ultimately show ?case using release(3) by - (rule lock_inv_holder [of s i], simp_all)
next
  case (release_same s i g)
  then have h: "holder_ok iva s (Same g)" by (metis lock_inv_parts(1))
  let ?t = "s\<lparr>sb_gen := g, sb_controllers := (sb_controllers s)(i := Idle)\<rparr>"
  have "sb_gen ?t = of_nat (2 * sb_commits ?t + 0)" using h by (simp add: holder_ok_def)
  then have "\<exists>b\<le>1. sb_gen ?t = of_nat (2 * sb_commits ?t + b)" using zero_le_one by blast
  moreover have "block_ok iva ?t" using h by (simp add: holder_ok_def block_ok_def)
  moreover have "holder_ok iva ?t (sb_controllers ?t i)" by (simp add: holder_ok_def)
  moreover have "holds_lock (sb_controllers s i)" using release_same(1) by (simp add: holds_lock_def)
  ultimately show ?case using release_same(2) by - (rule lock_inv_holder [of s i], simp_all)
next
  case (killed s i)
  let ?t = "s\<lparr>sb_controllers := (sb_controllers s)(i := Idle)\<rparr>"
  have c: "sb_controllers ?t j = (if j = i then Idle else sb_controllers s j)" for j by simp
  show ?case using killed(1) holder_ok_cong [of ?t s iva] unfolding lock_inv_def c
    by (simp add: holder_ok_def holds_lock_def)
qed (simp_all add: lock_inv_detector)

lemma copy_accepted:
  assumes "lock_inv iva s" "copy_inv iva s" "sb_reader s = RCopy g c buf" "length buf = length (sb_mem s)" "sb_gen s = g"
    "sb_commits s - c < gen_span"
  shows "buf \<in> set (sb_committed s)"
proof -
  have c: "c \<le> sb_commits s" "g = of_nat (2 * c)" "0 < c \<or> \<not> iva" "sb_commits s = c \<and> settled s \<longrightarrow> buf = take (length buf) (sb_mem s)"
    using assms(2,3) by (simp_all add: copy_inv_def)
  have even: "sb_gen s AND 1 = 0" using c(2) assms(5) u32_even_iff [of "2 * c"] by simp
  have "(of_nat (2 * sb_commits s + 0) :: u32) = of_nat (2 * c)"
    using even_generation(1) [OF assms(1) even] assms(5) c(2) by simp
  from u32_generation_eq [OF this c(1) assms(6)] have "sb_commits s = c" by simp
  moreover have "settled s" using even by (simp add: settled_def)
  moreover have "block_ok iva s" using even_generation(3) [OF assms(1) even] .
  ultimately show ?thesis using c(3,4) assms(4) by (auto simp: block_ok_def)
qed

lemma settled_update:
  "sb_gen t = sb_gen s \<Longrightarrow> sb_controllers t = sb_controllers s \<Longrightarrow> settled t = settled s"
  by (simp add: settled_def)

lemma copy_inv_step:
  assumes "block_step iva r s t" "lock_inv iva s" "r \<longrightarrow> quiet s" "copy_inv iva s"
  shows "copy_inv iva t"
  using assms
proof (induction rule: block_step.induct)
  case (recover_check s i)
  have "settled (s\<lparr>sb_controllers := (sb_controllers s)(i := Recovers)\<rparr>) \<Longrightarrow> settled s"
    using recover_check(2) by (auto simp: settled_def holds_lock_def split: if_splits)
  then show ?case using recover_check(7) by (auto simp: copy_inv_def split: reader_pc.splits)
next
  case (recover s i)
  then show ?case by (auto simp: copy_inv_def quiet_def split: reader_pc.splits)
next
  case (exchange s i g new)
  then have "settled s" by (simp add: settled_def)
  then show ?case using exchange(7) by (auto simp: copy_inv_def split: reader_pc.splits)
next
  case (same s i g new)
  then have "settled s" unfolding settled_def holds_lock_def by (metis controller.distinct controller.simps)
  then show ?case using same(7) by (auto simp: copy_inv_def split: reader_pc.splits)
next
  case (differs s i g new)
  then have "settled s" unfolding settled_def holds_lock_def by (metis controller.distinct controller.simps)
  then show ?case using differs(5) by (auto simp: copy_inv_def split: reader_pc.splits)
next
  case (write_cell s i g k new)
  let ?t = "s\<lparr>sb_mem := (sb_mem s)[k := new ! k], sb_controllers := (sb_controllers s)(i := Writing g (Suc k) new)\<rparr>"
  have lock: "holds_lock (sb_controllers s i)" using write_cell(1) by (simp add: holds_lock_def)
  have "sb_gen s AND 1 \<noteq> 0" using holder_odd [OF lock_inv_parts(1) [OF write_cell(3)] lock] .
  moreover have "j = i" if "holds_lock (sb_controllers s j)" for j using write_cell(3) lock that by (metis lock_inv_def)
  ultimately have "\<not> settled ?t" by (auto simp: settled_def split: if_splits)
  then show ?case using write_cell(5) by (auto simp: copy_inv_def split: reader_pc.splits)
next
  case (release s i g k new)
  then show ?case by (auto simp: copy_inv_def split: reader_pc.splits)
next
  case (release_same s i g)
  then have "settled s" unfolding settled_def holds_lock_def by (metis controller.distinct controller.simps)
  then show ?case using release_same(4) by (auto simp: copy_inv_def split: reader_pc.splits)
next
  case (killed s i)
  have "settled (s\<lparr>sb_controllers := (sb_controllers s)(i := Idle)\<rparr>) \<Longrightarrow> settled s"
    by (auto simp: settled_def holds_lock_def split: if_splits)
  then show ?case using killed(3) by (auto simp: copy_inv_def split: reader_pc.splits)
next
  case (b_load s)
  have "0 < sb_commits s \<or> \<not> iva" using b_load(4) even_generation(1) [OF b_load(5,3)] by (cases "sb_commits s") auto
  then show ?case using b_load even_generation(1) [OF b_load(5,3)] by (simp add: copy_inv_def)
next
  case (b_cell s g c buf)
  then show ?case by (auto simp: copy_inv_def settled_def take_Suc_conv_app_nth)
next
  case (b_accept s g c buf)
  then show ?case using copy_accepted [of iva s g c buf] by (simp add: copy_inv_def)
qed (auto simp: copy_inv_def settled_def split: reader_pc.splits)

lemma block_inv_reachable:
  "block_reachable orderly iva mem s \<Longrightarrow> orderly \<or> \<not> iva \<Longrightarrow> lock_inv iva s \<and> copy_inv iva s"
proof (induction rule: block_reachable.induct)
  case start
  show ?case by (auto simp: lock_inv_def copy_inv_def block_init_def holder_ok_def holds_lock_def block_ok_def)
next
  case (step s r t)
  have "r \<longrightarrow> quiet s" using step(2-5) by (auto elim: block_step.cases)
  then show ?case using step lock_inv_step copy_inv_step by blast
qed

section \<open>Exclusion\<close>

text \<open>
  C28. Any number of controllers share the lock safely as long as no recovery comes in between: in every
  interleaving of their exchanges, comparisons, cell by cell writes and releases, of controllers that are
  killed, of recoveries that store 0 while no controller holds the lock and no detector lives, and of a detector
  that comes, goes and reads, at most one controller holds the lock, then the generation is odd, and a copy
  that the detector accepts is, whole, a block that some controller was asked to write, never a mixture of
  two, provided fewer than \<open>2 ^ 31\<close> commits happened during the copy.  Without recoveries, as for the
  night vision settings, that is so in all runs, except that readers there take the initial block as well.
\<close>

theorem controllers_exclude_each_other:
  assumes "block_reachable orderly iva mem s" "orderly \<or> \<not> iva"
  shows "(\<forall>i j. holds_lock (sb_controllers s i) \<and> holds_lock (sb_controllers s j) \<longrightarrow> i = j) \<and>
    (\<forall>i. holds_lock (sb_controllers s i) \<longrightarrow> sb_gen s AND 1 \<noteq> 0) \<and>
    (\<forall>buf n. sb_reader s = RDone buf n \<and> n < gen_span \<longrightarrow> buf \<in> set (sb_committed s))"
proof -
  have inv: "lock_inv iva s" "copy_inv iva s" using block_inv_reachable [OF assms] by blast+
  have "sb_gen s AND 1 \<noteq> 0" if "holds_lock (sb_controllers s i)" for i
    using holder_odd [OF lock_inv_parts(1) [OF inv(1)] that] .
  moreover have "buf \<in> set (sb_committed s)" if "sb_reader s = RDone buf n" "n < gen_span" for buf n
    using inv(2) that by (simp add: copy_inv_def)
  ultimately show ?thesis using inv(1) unfolding lock_inv_def by blast
qed

section \<open>Runs of two controllers\<close>

definition two_controllers :: "u32 \<Rightarrow> bool \<Rightarrow> bool controller \<Rightarrow> bool controller \<Rightarrow> bool \<Rightarrow> bool reader_pc \<Rightarrow> bool list list \<Rightarrow> bool shared_block" where
  "two_controllers g b c d alive rd cs = \<lparr>sb_gen = g, sb_mem = [b], sb_controllers = (\<lambda>i. if i = 0 then c else if i = 1 then d else Idle),
     sb_alive = alive, sb_reader = rd, sb_commits = length cs, sb_committed = cs\<rparr>"

lemma two_init: "block_init True [b] = two_controllers 0 b Idle Idle False RIdle []"
  by (auto simp: block_init_def two_controllers_def)

lemma reachable_next:
  "block_reachable orderly iva mem s \<Longrightarrow> block_step iva r s t' \<Longrightarrow> t' = t \<Longrightarrow> (orderly \<and> r \<longrightarrow> quiet s) \<Longrightarrow>
    block_reachable orderly iva mem t"
  using block_reachable.step by metis

lemmas two_simps = two_controllers_def fun_eq_iff quiet_def holds_lock_def

text \<open>A controller dies with the lock, another one recovers it and writes, the detector reads, and the first one begins again.\<close>

lemma recovered_run: "block_reachable True True [False] (two_controllers 3 True (Locked 2 [False]) Idle True (RDone [True] 0) [[True]])"
proof -
  let ?r = "block_reachable True True [False]" and ?s = two_controllers
  have "?r (?s 0 False Idle Idle False RIdle [])" using block_reachable.start [of True True "[False]"] by (simp add: two_init)
  then have "?r (?s 1 False (Locked 0 [True]) Idle False RIdle [])"
    by (rule reachable_next [OF _ block_step.exchange [where i = 0 and g = 0 and new = "[True]"]]) (auto simp: two_simps)
  then have "?r (?s 1 False Idle Idle False RIdle [])"
    by (rule reachable_next [OF _ block_step.killed [where i = 0]]) (auto simp: two_simps)
  then have "?r (?s 1 False Idle Recovers False RIdle [])"
    by (rule reachable_next [OF _ block_step.recover_check [where i = 1]]) (auto simp: two_simps)
  then have "?r (?s 0 False Idle Idle False RIdle [])"
    by (rule reachable_next [OF _ block_step.recover [where i = 1]]) (auto simp: two_simps)
  then have "?r (?s 1 False Idle (Locked 0 [True]) False RIdle [])"
    by (rule reachable_next [OF _ block_step.exchange [where i = 1 and g = 0 and new = "[True]"]]) (auto simp: two_simps)
  then have "?r (?s 1 False Idle (Writing 0 0 [True]) False RIdle [])"
    by (rule reachable_next [OF _ block_step.differs [where i = 1 and g = 0 and new = "[True]"]]) (auto simp: two_simps)
  then have "?r (?s 1 True Idle (Writing 0 1 [True]) False RIdle [])"
    by (rule reachable_next [OF _ block_step.write_cell [where i = 1 and g = 0 and k = 0 and new = "[True]"]]) (auto simp: two_simps)
  then have "?r (?s 2 True Idle Idle False RIdle [[True]])"
    by (rule reachable_next [OF _ block_step.release [where i = 1 and g = 0 and k = 1 and new = "[True]"]]) (auto simp: two_simps)
  then have "?r (?s 2 True Idle Idle True RIdle [[True]])"
    by (rule reachable_next [OF _ block_step.detector_starts]) (auto simp: two_simps)
  then have "?r (?s 2 True Idle Idle True (RCopy 2 1 []) [[True]])"
    by (rule reachable_next [OF _ block_step.b_load]) (auto simp: two_simps)
  then have "?r (?s 2 True Idle Idle True (RCopy 2 1 [True]) [[True]])"
    by (rule reachable_next [OF _ block_step.b_cell [where g = 2 and c = 1 and buf = "[]"]]) (auto simp: two_simps)
  then have "?r (?s 2 True Idle Idle True (RDone [True] 0) [[True]])"
    by (rule reachable_next [OF _ block_step.b_accept [where g = 2 and c = 1 and buf = "[True]"]]) (auto simp: two_simps)
  then show ?thesis
    by (rule reachable_next [OF _ block_step.exchange [where i = 0 and g = 2 and new = "[False]"]]) (auto simp: two_simps)
qed

lemma controllers_exclude_each_other_witness:
  "\<exists>s. block_reachable True True [False] s \<and> sb_controllers s 0 = Locked 2 [False] \<and> (\<forall>j. j \<noteq> 0 \<longrightarrow> \<not> holds_lock (sb_controllers s j)) \<and>
     sb_gen s AND 1 \<noteq> 0 \<and> sb_reader s = RDone [True] 0 \<and> [True] \<in> set (sb_committed s)"
proof -
  let ?s = "two_controllers 3 True (Locked 2 [False]) Idle True (RDone [True] 0) [[True]]"
  have here: "sb_controllers ?s 0 = Locked 2 [False]" "holds_lock (sb_controllers ?s 0)" "sb_reader ?s = RDone [True] 0" "0 < gen_span"
    by (simp_all add: two_controllers_def holds_lock_def gen_span_def)
  then show ?thesis using controllers_exclude_each_other [OF recovered_run] recovered_run by blast
qed

text \<open>
  The code does not keep to the order: the recovery looks for the detector, not for a controller.  One that is
  started with \<open>--init\<close> while another one holds the lock, and no detector lives yet, takes the lock from it, and
  both write.
\<close>

lemma recovery_breaks_the_lock:
  "\<exists>s. block_reachable False True [False] s \<and> sb_controllers s 0 = Writing 0 0 [True] \<and> sb_controllers s 1 = Writing 0 0 [False]"
proof -
  let ?r = "block_reachable False True [False]" and ?s = two_controllers
  have "?r (?s 0 False Idle Idle False RIdle [])" using block_reachable.start [of False True "[False]"] by (simp add: two_init)
  then have "?r (?s 1 False (Locked 0 [True]) Idle False RIdle [])"
    by (rule reachable_next [OF _ block_step.exchange [where i = 0 and g = 0 and new = "[True]"]]) (auto simp: two_simps)
  then have "?r (?s 1 False (Writing 0 0 [True]) Idle False RIdle [])"
    by (rule reachable_next [OF _ block_step.differs [where i = 0 and g = 0 and new = "[True]"]]) (auto simp: two_simps)
  then have "?r (?s 1 False (Writing 0 0 [True]) Recovers False RIdle [])"
    by (rule reachable_next [OF _ block_step.recover_check [where i = 1]]) (auto simp: two_simps)
  then have "?r (?s 0 False (Writing 0 0 [True]) Idle False RIdle [])"
    by (rule reachable_next [OF _ block_step.recover [where i = 1]]) (auto simp: two_simps)
  then have "?r (?s 1 False (Writing 0 0 [True]) (Locked 0 [False]) False RIdle [])"
    by (rule reachable_next [OF _ block_step.exchange [where i = 1 and g = 0 and new = "[False]"]]) (auto simp: two_simps)
  then have "?r (?s 1 False (Writing 0 0 [True]) (Writing 0 0 [False]) False RIdle [])"
    by (rule reachable_next [OF _ block_step.differs [where i = 1 and g = 0 and new = "[False]"]]) (auto simp: two_simps)
  then show ?thesis by (rule exI [where x = "?s 1 False (Writing 0 0 [True]) (Writing 0 0 [False]) False RIdle []", OF conjI])
      (simp add: two_controllers_def)
qed

end
