(* ===== verification/Iva_Control.thy ===== *)
theory Iva_Control
  imports Iva_Hook Writer_Lock Floats
begin

text \<open>
  \<open>src/ipc_cmd/ipc_cmd/motion_ivactl.c\<close>: the program that sets the mask of theory \<open>Iva_Hook\<close> in the shared
  file and shows the state of the hook.  Its lock is that of theory \<open>Writer_Lock\<close>.
\<close>

section \<open>Arguments\<close>

datatype iva_command = Iva_Init iva_settings | Iva_Set iva_settings | Iva_Status

definition iva_parse_settings :: "string \<Rightarrow> string \<Rightarrow> iva_settings option" where
  "iva_parse_settings enabled cells =
     (if enabled \<noteq> ''yes'' \<and> enabled \<noteq> ''no'' then None
      else if length cells \<noteq> iva_cells then None
      else let s = \<lparr>is_enabled = (if enabled = ''yes'' then 1 else 0), is_cells = cells\<rparr>
           in if motion_iva_valid s then Some s else None)"

text \<open>The arguments after the program's name; \<open>None\<close> is the exit code 2.\<close>

definition iva_parse :: "string list \<Rightarrow> iva_command option" where
  "iva_parse args =
     (case args of
        [a] \<Rightarrow> if a = ''--status'' then Some Iva_Status else None
      | [a, b, c] \<Rightarrow>
          if a = ''--init'' then map_option Iva_Init (iva_parse_settings b c)
          else if a = ''--set'' then map_option Iva_Set (iva_parse_settings b c) else None
      | _ \<Rightarrow> None)"

section \<open>The file\<close>

text \<open>The size of the block: 24 bytes, the settings of 244 and, aligned to 8, the sample of 992.\<close>

definition iva_block_size :: nat where "iva_block_size = 1264"

record iva_read =
  ir_first :: u32
  ir_sample :: iva_sample
  ir_last :: u32

record iva_ctl_env =
  ct_open :: bool
  ct_regular :: bool
  ct_size :: nat
  ct_truncate :: bool
  ct_mmap :: bool
  ct_alive :: "u32 \<Rightarrow> bool"
  ct_attempts :: "(u32 \<times> bool) list"
  ct_now :: int
  ct_reads :: "iva_read list"

text \<open>Whether the file has the block's size, or was given it.\<close>

definition iva_sized :: "bool \<Rightarrow> iva_ctl_env \<Rightarrow> bool" where
  "iva_sized init e \<longleftrightarrow>
     (if init \<and> ct_size e \<noteq> iva_block_size then ct_size e = 0 \<and> ct_truncate e else ct_size e = iva_block_size)"

section \<open>Setting the mask\<close>

text \<open>Only the start of the system, without a living detector, takes the lock from who left it odd.\<close>

definition iva_recover :: "bool \<Rightarrow> iva_ctl_env \<Rightarrow> iva_shared \<Rightarrow> iva_shared" where
  "iva_recover init e sh =
     (if init \<and> ih_config_generation sh AND 1 \<noteq> 0 \<and> (ih_ready_pid sh = 0 \<or> \<not> ct_alive e (ih_ready_pid sh))
      then sh\<lparr>ih_config_generation := 0\<rparr> else sh)"

definition iva_write :: "bool \<Rightarrow> iva_settings \<Rightarrow> iva_ctl_env \<Rightarrow> iva_shared \<Rightarrow> int \<times> iva_shared" where
  "iva_write init s e sh =
     (let sh1 = iva_recover init e sh
      in case writer_lock lock_attempts (ct_attempts e) of
        None \<Rightarrow> (1, sh1)
      | Some g \<Rightarrow>
          let identical = (g \<noteq> 0 \<and> ih_settings sh1 = s)
          in (0, sh1\<lparr>ih_settings := (if identical then ih_settings sh1 else s),
                    ih_config_generation := (if identical then g else g + 2)\<rparr>))"

section \<open>Showing the state\<close>

text \<open>The local copy keeps what the last attempt copied, coherent or not.\<close>

fun iva_read_sample :: "nat \<Rightarrow> iva_read list \<Rightarrow> iva_sample \<Rightarrow> bool \<times> iva_sample" where
  "iva_read_sample 0 rs s = (False, s)"
| "iva_read_sample n [] s = (False, s)"
| "iva_read_sample (Suc n) (r # rs) s =
     (if ir_first r = 0 \<or> ir_first r AND 1 \<noteq> 0 then iva_read_sample n rs s
      else if ir_first r = ir_last r then (True, ir_sample r)
      else iva_read_sample n rs (ir_sample r))"

text \<open>\<open>%.5f\<close> of a value that is not negative.\<close>

definition fixed5 :: "rat \<Rightarrow> string" where
  "fixed5 x =
     (let n = nat (round_even (x * 100000))
      in show_nat (n div 100000) @ ''.'' @ map (\<lambda>d. digit_char (n div d mod 10)) [10000, 1000, 100, 10, 1])"

definition iva_ratio :: "nat \<Rightarrow> rat" where
  "iva_ratio count = rnd53 (of_nat count * 100 / 230400)"

definition truth :: "bool \<Rightarrow> string" where
  "truth b = (if b then ''true'' else ''false'')"

definition iva_status_error :: "bool \<Rightarrow> bool \<Rightarrow> iva_sample \<Rightarrow> int \<Rightarrow> int" where
  "iva_status_error ready coherent s age =
     (let error = (if \<not> ready then 1 else if \<not> coherent then 5 else sint (ia_error s))
      in if error = 0 \<and> (age < 0 \<or> age > 3500) then 5 else error)"

definition iva_status :: "iva_ctl_env \<Rightarrow> iva_shared \<Rightarrow> string" where
  "iva_status e sh =
     (let (coherent, s) = iva_read_sample 3 (ct_reads e) (iva_sample_zero\<lparr>ia_cells := replicate 240 0\<rparr>);
          config = ih_config_generation sh; requested = (is_enabled (ih_settings sh) \<noteq> 0);
          ready = (ih_ready_pid sh \<noteq> 0 \<and> ct_alive e (ih_ready_pid sh));
          age = (if coherent then ct_now e - ia_monotonic_ms s else -1);
          error = iva_status_error ready coherent s age;
          pending = (\<not> coherent \<or> config AND 1 \<noteq> 0 \<or> config \<noteq> ia_applied_generation s)
      in ''{\"enabled\":'' @ truth requested @ '',\"ready\":'' @ truth ready @ '',\"pending\":'' @ truth pending @
         '',\"error\":'' @ show_int error @ '',\"fallback\":'' @ truth (requested \<and> (\<not> ready \<or> ia_error s \<noteq> 0)) @
         '',\"age_ms\":'' @ show_int age @ '',\"monotonic_ms\":'' @ show_int (ia_monotonic_ms s) @
         '',\"ratio\":'' @ fixed5 (iva_ratio (ia_included_count s)) @ '',\"raw_ratio\":'' @ fixed5 (iva_ratio (ia_raw_count s)) @
         '',\"raw_count\":'' @ show_nat (ia_raw_count s) @ '',\"included_count\":'' @ show_nat (ia_included_count s) @
         '',\"activity\":\"'' @ map (\<lambda>c. if c \<noteq> 0 then CHR ''1'' else CHR ''0'') (ia_cells s) @ ''\"}\<newline>'')"

section \<open>The program\<close>

text \<open>The exit code, the output, and the file's block.  A new file is zero.\<close>

definition iva_main :: "string list \<Rightarrow> iva_ctl_env \<Rightarrow> iva_shared \<Rightarrow> int \<times> string \<times> iva_shared" where
  "iva_main args e sh0 =
     (case iva_parse args of
        None \<Rightarrow> (2, [], sh0)
      | Some command \<Rightarrow>
          let init = (case command of Iva_Init _ \<Rightarrow> True | _ \<Rightarrow> False)
          in if \<not> ct_open e then (if command = Iva_Status then (0, ''null\<newline>'', sh0) else (1, [], sh0))
             else if \<not> ct_regular e \<or> \<not> iva_sized init e then (1, [], sh0)
             else
               let sh1 = (if ct_size e = iva_block_size then sh0 else iva_shared_zero)
               in if \<not> ct_mmap e then (1, [], sh1)
                  else
                    let sh2 = (if init \<and> ih_magic sh1 = 0
                               then sh1\<lparr>ih_version := iva_version, ih_magic := iva_magic\<rparr> else sh1)
                    in if ih_magic sh2 \<noteq> iva_magic \<or> ih_version sh2 \<noteq> iva_version then (1, [], sh2)
                       else case command of
                         Iva_Init s \<Rightarrow> (case iva_write True s e sh2 of (rc, sh3) \<Rightarrow> (rc, [], sh3))
                       | Iva_Set s \<Rightarrow> (case iva_write False s e sh2 of (rc, sh3) \<Rightarrow> (rc, [], sh3))
                       | Iva_Status \<Rightarrow>
                           (0, iva_status e sh2, sh2\<lparr>ih_reader_ms := word_of_int (ct_now e)\<rparr>))"

section \<open>From the program to the hook\<close>

lemma parsed_settings_valid: "iva_parse_settings a b = Some s \<Longrightarrow> motion_iva_valid s"
  by (auto simp: iva_parse_settings_def Let_def split: if_splits)

lemma parsed_command_valid:
  assumes "iva_parse args = Some c" "c = Iva_Init s \<or> c = Iva_Set s"
  shows "motion_iva_valid s"
  using assms by (auto simp: iva_parse_def split: list.splits if_splits dest: parsed_settings_valid)

text \<open>The hook has the settings of the file, or none yet.\<close>

definition hook_up_to_date :: "iva_hook \<Rightarrow> iva_shared \<Rightarrow> bool" where
  "hook_up_to_date h sh \<longleftrightarrow> iv_active_generation h = 0 \<or>
     iv_active_generation h = ih_config_generation sh \<and> iv_active h = ih_settings sh"

text \<open>An undisturbed attempt of the lock and an undisturbed copy of the settings.\<close>

definition undisturbed_lock :: "iva_shared \<Rightarrow> (u32 \<times> bool) list" where
  "undisturbed_lock sh = [(ih_config_generation sh, True)]"

definition undisturbed_copy :: "iva_shared \<Rightarrow> iva_attempt" where
  "undisturbed_copy sh = \<lparr>ig_first = ih_config_generation sh, ig_candidate = ih_settings sh, ig_last = ih_config_generation sh\<rparr>"

lemma undisturbed_write:
  assumes "ih_config_generation sh AND 1 = 0" "ct_attempts e = undisturbed_lock sh"
  shows "iva_write init s e sh = (0,
    if ih_config_generation sh \<noteq> 0 \<and> ih_settings sh = s then sh
    else sh\<lparr>ih_settings := s, ih_config_generation := ih_config_generation sh + 2\<rparr>)"
  using assms by (simp add: iva_write_def iva_recover_def undisturbed_lock_def lock_attempts_def numeral_eq_Suc)

lemma adopt_copy:
  assumes "ih_config_generation sh \<noteq> 0" "ih_config_generation sh AND 1 = 0"
    "ih_config_generation sh \<noteq> iv_active_generation h" "motion_iva_valid (ih_settings sh)"
  shows "iva_adopt 2 [undisturbed_copy sh] ctx h =
    (h\<lparr>iv_active := ih_settings sh, iv_active_generation := ih_config_generation sh\<rparr>,
     iva_reset_counters h (ih_settings sh) ctx)"
  using assms by (simp add: undisturbed_copy_def numeral_2_eq_2)

lemma count_keeps_generation:
  "ia_applied_generation (motion_iva_count frame rect s sample) = ia_applied_generation sample"
proof -
  have "ia_applied_generation (fold (iva_tile frame rect s) ts x) = ia_applied_generation x" for ts x
    by (induction ts arbitrary: x) (auto simp: iva_tile_def Let_def split: prod.splits)
  then show ?thesis by (simp add: motion_iva_count_def)
qed

lemma measure_generation:
  "iva_measure h f ctx = (s, r) \<Longrightarrow> ia_applied_generation s = iv_active_generation h"
  by (auto simp: iva_measure_def Let_def count_keeps_generation split: if_splits option.splits)

lemma filter_parts:
  assumes "motion_iva_filter f (h, sh) = ((h2, sh2), ctx, r)" "fst (iva_adopt 2 (if_attempts f) (if_ctx f) h) = h1"
  shows "iv_active h2 = iv_active h1" "iv_active_generation h2 = iv_active_generation h1"
    "ih_config_generation sh2 = ih_config_generation sh" "ih_settings sh2 = ih_settings sh"
    "is_enabled (iv_active h1) \<noteq> 0 \<Longrightarrow> ia_applied_generation (ih_sample sh2) = iv_active_generation h1"
  using assms measure_generation by (auto simp: motion_iva_filter_def Let_def split: prod.splits if_splits)

lemma plus_two_differs: "(g :: u32) + 2 \<noteq> g"
  by simp


text \<open>A new mask for a hook that has just started.\<close>

definition fresh_file :: iva_shared where
  "fresh_file = iva_shared_zero\<lparr>ih_magic := iva_magic, ih_version := iva_version, ih_ready_pid := 9\<rparr>"

definition quiet_file_env :: iva_ctl_env where
  "quiet_file_env = \<lparr>ct_open = True, ct_regular = True, ct_size = iva_block_size, ct_truncate = False, ct_mmap = True,
     ct_alive = (\<lambda>_. True), ct_attempts = undisturbed_lock fresh_file, ct_now = 0, ct_reads = []\<rparr>"

definition set_args :: "string list" where
  "set_args = [''--set'', ''yes'', CHR ''1'' # replicate 239 CHR ''0'']"

lemma set_args_parsed: "iva_parse set_args = Some (Iva_Set first_cell_off)"
proof -
  have "motion_iva_valid first_cell_off" by (simp add: first_cell_off_def motion_iva_valid_def list_all_iff)
  then show ?thesis
    by (simp add: iva_parse_def set_args_def iva_parse_settings_def iva_cells_def first_cell_off_def)
qed


end
