(* ===== verification/Nightvision.thy ===== *)
theory Nightvision
  imports Arm_Branches
begin

text \<open>
  \<open>src/ipc_cmd/ipc_cmd/nightvision.h\<close>, \<open>nightvision.c\<close>: the hook in the camera's
  control loop that imposes a night vision mode, and how it is put into the vendor's program.  It shares a
  small block of memory with the program that sets the mode (theory \<open>Nightvision_Control\<close>).  Addresses
  are numbers of the 32-bit process; memory is given by its words.
\<close>

section \<open>The light level\<close>

definition NV_AUTO :: u32 where "NV_AUTO = 0"
definition NV_ON :: u32 where "NV_ON = 1"
definition NV_OFF :: u32 where "NV_OFF = 2"

lemmas nv_modes = NV_AUTO_def NV_ON_def NV_OFF_def

definition nv_magic :: u32 where "nv_magic = 0x59494e56"
definition nv_version :: u32 where "nv_version = 1"

record nv_control =
  nv_c_magic :: u32
  nv_c_version :: u32
  nv_generation :: u32
  nv_mode :: u32
  nv_threshold :: u32
  nv_ready_pid :: u32
  nv_error :: u32
  nv_heartbeat :: u32
  nv_applied :: u32
  nv_light :: int
  nv_effective :: int
  nv_state :: int

definition int32_max :: int where "int32_max = 2 ^ 31 - 1"

text \<open>The product fits 64 bits for every 32-bit level, so it is exact.\<close>

definition nv_level :: "int \<Rightarrow> u32 \<Rightarrow> u32 \<Rightarrow> int" where
  "nv_level level mode threshold =
     (if mode = NV_ON then 0
      else if mode = NV_OFF then 1000000
      else if level < 0 \<or> threshold = 50 then level
      else let scaled = level * 50 div uint threshold
           in if scaled > int32_max then int32_max else scaled)"

section \<open>The hook\<close>

record nv_profile =
  pf_model :: string
  pf_loop_call :: nat
  pf_loop_func :: nat
  pf_level_call :: nat
  pf_level_func :: nat
  pf_context :: nat
  pf_committed_state :: nat
  pf_cycle_guard :: nat
  pf_loop_instruction :: u32
  pf_level_instruction :: u32

definition profiles :: "nv_profile list" where
  "profiles =
     [\<lparr>pf_model = ''y623'', pf_loop_call = 0x25808, pf_loop_func = 0x23e50, pf_level_call = 0x23f10,
       pf_level_func = 0x4f390, pf_context = 0x23a2e4, pf_committed_state = 0x224800,
       pf_cycle_guard = 0x2247ec, pf_loop_instruction = 0xebfff990, pf_level_instruction = 0xeb00ad1e\<rparr>,
      \<lparr>pf_model = ''y28ga'', pf_loop_call = 0x34ce8, pf_loop_func = 0x333e8, pf_level_call = 0x33518,
       pf_level_func = 0x5685c, pf_context = 0x23f6ec, pf_committed_state = 0x23bf2c,
       pf_cycle_guard = 0x23bf1c, pf_loop_instruction = 0xebfff9be, pf_level_instruction = 0xeb008ccf\<rparr>]"

text \<open>The variables of the library.\<close>

record nv_hook =
  hk_mode :: u32
  hk_threshold :: u32
  hk_generation :: u32
  hk_last_level :: int
  hk_last_effective :: int

definition hook_init :: nv_hook where
  "hook_init = \<lparr>hk_mode = NV_AUTO, hk_threshold = 50, hk_generation = 0, hk_last_level = -1,
     hk_last_effective = -1\<rparr>"

text \<open>One attempt of a reader sees the generation, the mode, the threshold and the generation again.\<close>

record nv_attempt =
  na_first :: u32
  na_mode :: u32
  na_threshold :: u32
  na_last :: u32

definition settings_good :: "nv_attempt \<Rightarrow> bool" where
  "settings_good a \<longleftrightarrow> even (uint (na_first a)) \<and> na_first a = na_last a \<and> na_mode a \<le> NV_OFF \<and>
     1 \<le> na_threshold a \<and> na_threshold a \<le> 100"

fun read_settings :: "nat \<Rightarrow> nv_attempt list \<Rightarrow> nv_hook \<Rightarrow> nv_hook" where
  "read_settings 0 as h = h"
| "read_settings n [] h = h"
| "read_settings (Suc n) (a # as) h =
     (if settings_good a
      then h\<lparr>hk_mode := na_mode a, hk_threshold := na_threshold a, hk_generation := na_first a\<rparr>
      else read_settings n as h)"

text \<open>The result of the firmware's own measurement is passed through.\<close>

definition camera_light_level :: "int \<Rightarrow> nv_hook \<Rightarrow> int \<times> nv_hook" where
  "camera_light_level native h =
     (let e = nv_level native (hk_mode h) (hk_threshold h)
      in (e, h\<lparr>hk_last_level := native, hk_last_effective := e\<rparr>))"

text \<open>The firmware's variables that the hook writes and reads.\<close>

record nv_firmware =
  fw_guard :: int
  fw_request :: int     \<comment> \<open>the word at offset \<open>0xac\<close> of the context\<close>
  fw_committed :: int

text \<open>
  One pass.  \<open>native_loop\<close> is the firmware's loop: it changes the firmware's variables and measures
  the light some number of times, each result passed through \<open>camera_light_level\<close>.
\<close>

definition camera_nightvision_loop ::
  "(nv_firmware \<Rightarrow> nv_firmware \<times> int list) \<Rightarrow> nv_attempt list \<Rightarrow> u32 \<Rightarrow> nv_hook \<times> nv_firmware \<times> nv_control \<Rightarrow>
   nv_hook \<times> nv_firmware \<times> nv_control" where
  "camera_nightvision_loop native_loop as now s =
     (let (h, fw, c) = s; previous = hk_generation h; h1 = read_settings 4 as h;
          fw1 = (if hk_mode h1 \<noteq> NV_AUTO
                 then fw\<lparr>fw_guard := (if hk_generation h1 \<noteq> previous then 0 else fw_guard fw),
                         fw_request := (if hk_mode h1 = NV_ON then 1 else 0)\<rparr>
                 else fw);
          (fw2, levels) = native_loop fw1;
          h2 = fold (\<lambda>l h. snd (camera_light_level l h)) levels h1
      in (h2, fw2, c\<lparr>nv_light := hk_last_level h2, nv_effective := hk_last_effective h2,
                     nv_state := fw_committed fw2, nv_applied := hk_generation h2, nv_heartbeat := now\<rparr>))"

section \<open>Patching the calls\<close>

text \<open>The memory of the process by words, and whether each change of protection succeeds.\<close>

type_synonym memory = "nat \<Rightarrow> u32"

definition replace_call :: "bool \<Rightarrow> bool \<Rightarrow> nat \<Rightarrow> u32 \<Rightarrow> memory \<Rightarrow> bool \<times> memory" where
  "replace_call writable restored site word mem =
     (if \<not> writable then (False, mem) else (restored, mem(site := word)))"

record patch_env =
  pe_model :: "string option"
  pe_exe :: "string option"
  pe_control :: "nv_control option"   \<comment> \<open>the mapped block\<close>
  pe_page_size :: int
  pe_bridge :: "nat option"
  pe_bridge_rx :: bool
  pe_level :: "bool \<times> bool"
  pe_loop :: "bool \<times> bool"
  pe_undo_loop :: "bool \<times> bool"
  pe_undo_level :: "bool \<times> bool"
  pe_loop_hook :: u32
  pe_level_hook :: u32
  pe_pid :: u32

text \<open>The last profile of the model's name.\<close>

definition find_profile :: "string option \<Rightarrow> nv_profile option" where
  "find_profile model = find (\<lambda>p. Some (pf_model p) = model) (rev profiles)"

text \<open>The bridge: two veneers of a load of the program counter and its target.\<close>

definition write_bridge :: "nat \<Rightarrow> u32 \<Rightarrow> u32 \<Rightarrow> memory \<Rightarrow> memory" where
  "write_bridge b loop_hook level_hook mem =
     mem(b := 0xe51ff004, b + 8 := 0xe51ff004, b + 4 := loop_hook, b + 12 := level_hook)"

definition patch_calls :: "patch_env \<Rightarrow> nv_profile \<Rightarrow> u32 \<Rightarrow> u32 \<Rightarrow> memory \<Rightarrow> bool \<times> memory" where
  "patch_calls e p loop_branch level_branch mem =
     (let (ok1, mem1) = replace_call (fst (pe_level e)) (snd (pe_level e)) (pf_level_call p) level_branch mem
      in if \<not> ok1 then
           (False, snd (replace_call (fst (pe_undo_level e)) (snd (pe_undo_level e)) (pf_level_call p)
                          (pf_level_instruction p) mem1))
         else
           let (ok2, mem2) = replace_call (fst (pe_loop e)) (snd (pe_loop e)) (pf_loop_call p) loop_branch mem1
           in if \<not> ok2 then
                let mem3 = snd (replace_call (fst (pe_undo_loop e)) (snd (pe_undo_loop e)) (pf_loop_call p)
                                  (pf_loop_instruction p) mem2)
                in (False, snd (replace_call (fst (pe_undo_level e)) (snd (pe_undo_level e)) (pf_level_call p)
                                  (pf_level_instruction p) mem3))
              else (True, mem2))"

text \<open>The block and the memory after the library was loaded.\<close>

definition initialize_nightvision :: "patch_env \<Rightarrow> memory \<Rightarrow> nv_control option \<times> memory" where
  "initialize_nightvision e mem =
     (if pe_exe e \<noteq> Some ''/home/app/rmm'' then (pe_control e, mem)
      else case (find_profile (pe_model e), pe_control e) of
        (Some p, Some c) \<Rightarrow>
          if nv_c_magic c \<noteq> nv_magic \<or> nv_c_version c \<noteq> nv_version then (Some c, mem)
          else
            let c1 = c\<lparr>nv_ready_pid := 0, nv_error := 1\<rparr>
            in if mem (pf_loop_call p) \<noteq> pf_loop_instruction p \<or> mem (pf_level_call p) \<noteq> pf_level_instruction p
               then (Some c1, mem)
               else if pe_page_size e < 1 then (Some c1, mem)
               else case pe_bridge e of
                 None \<Rightarrow> (Some c1, mem)
               | Some b \<Rightarrow>
                   (case (branch_instruction (pf_loop_call p) b, branch_instruction (pf_level_call p) (b + 8)) of
                      (Some lb, Some vb) \<Rightarrow>
                        let mem1 = write_bridge b (pe_loop_hook e) (pe_level_hook e) mem
                        in if \<not> pe_bridge_rx e then (Some c1, mem)
                           else let (ok, mem2) = patch_calls e p lb vb mem1
                                in (Some (if ok then c1\<lparr>nv_error := 0, nv_ready_pid := pe_pid e\<rparr> else c1), mem2)
                    | _ \<Rightarrow> (Some c1, mem))
      | _ \<Rightarrow> (pe_control e, mem))"

section \<open>What a patched call reaches\<close>

text \<open>
  The call at a site reaches a veneer, whose load of the program counter from the word after it goes on
  to the hook.
\<close>

definition reaches :: "memory \<Rightarrow> nat \<Rightarrow> u32 \<Rightarrow> bool" where
  "reaches mem site hook \<longleftrightarrow>
     (\<exists>v. arm_branch_target site (mem site) = Some (int v) \<and> mem v = 0xe51ff004 \<and> mem (v + 4) = hook)"

lemma replace_call_mem:
  "snd (replace_call w r site word mem) = (if w then mem(site := word) else mem)"
  "fst (replace_call w r site word mem) = (w \<and> r)"
  by (simp_all add: replace_call_def)

lemma write_bridge_words:
  "write_bridge b l v mem b = 0xe51ff004" "write_bridge b l v mem (b + 4) = l"
  "write_bridge b l v mem (b + 8) = 0xe51ff004" "write_bridge b l v mem (b + 12) = v"
  "x \<notin> {b, b + 4, b + 8, b + 12} \<Longrightarrow> write_bridge b l v mem x = mem x"
  by (auto simp: write_bridge_def)

text \<open>After the patching a site holds its instruction or the new branch; both hold it on success.\<close>

lemma patch_calls_spec:
  assumes "patch_calls e p lb vb mem = (ok, mem')" "pf_loop_call p \<noteq> pf_level_call p"
    "mem (pf_loop_call p) = pf_loop_instruction p" "mem (pf_level_call p) = pf_level_instruction p"
  shows "\<forall>x. x \<noteq> pf_loop_call p \<and> x \<noteq> pf_level_call p \<longrightarrow> mem' x = mem x"
    "mem' (pf_loop_call p) \<in> {mem (pf_loop_call p), lb}" "mem' (pf_level_call p) \<in> {mem (pf_level_call p), vb}"
    "ok \<Longrightarrow> mem' (pf_loop_call p) = lb \<and> mem' (pf_level_call p) = vb"
    "\<not> ok \<Longrightarrow> fst (pe_undo_level e) \<and> fst (pe_undo_loop e) \<Longrightarrow>
       mem' (pf_loop_call p) = mem (pf_loop_call p) \<and> mem' (pf_level_call p) = mem (pf_level_call p)"
  using assms by (auto simp: patch_calls_def replace_call_def Let_def split: if_splits)

lemma profile_sites: "find_profile model = Some p \<Longrightarrow> pf_loop_call p \<noteq> pf_level_call p"
  by (auto simp: find_profile_def profiles_def split: if_splits)

definition original_or_hook :: "memory \<Rightarrow> memory \<Rightarrow> nat \<Rightarrow> u32 \<Rightarrow> bool" where
  "original_or_hook mem mem' site hook \<longleftrightarrow> mem' site = mem site \<or> reaches mem' site hook"

definition bridge_words :: "patch_env \<Rightarrow> nat set" where
  "bridge_words e = (case pe_bridge e of None \<Rightarrow> {} | Some b \<Rightarrow> {b, b + 4, b + 8, b + 12})"

lemma patched_memory:
  assumes "pe_bridge e = Some b" "branch_instruction (pf_loop_call p) b = Some lb"
    "branch_instruction (pf_level_call p) (b + 8) = Some vb"
    "patch_calls e p lb vb (write_bridge b (pe_loop_hook e) (pe_level_hook e) mem) = (ok, mem')"
    "pf_loop_call p \<noteq> pf_level_call p" "bridge_words e \<inter> {pf_loop_call p, pf_level_call p} = {}"
    "mem (pf_loop_call p) = pf_loop_instruction p" "mem (pf_level_call p) = pf_level_instruction p"
  shows "\<forall>x. x \<notin> insert (pf_loop_call p) (insert (pf_level_call p) (bridge_words e)) \<longrightarrow> mem' x = mem x"
    "original_or_hook mem mem' (pf_loop_call p) (pe_loop_hook e)"
    "original_or_hook mem mem' (pf_level_call p) (pe_level_hook e)"
    "ok \<Longrightarrow> reaches mem' (pf_loop_call p) (pe_loop_hook e) \<and> reaches mem' (pf_level_call p) (pe_level_hook e)"
    "\<not> ok \<Longrightarrow> fst (pe_undo_level e) \<and> fst (pe_undo_loop e) \<Longrightarrow>
       mem' (pf_loop_call p) = mem (pf_loop_call p) \<and> mem' (pf_level_call p) = mem (pf_level_call p)"
proof -
  let ?m = "write_bridge b (pe_loop_hook e) (pe_level_hook e) mem"
  have bw: "bridge_words e = {b, b + 4, b + 8, b + 12}" by (simp add: bridge_words_def assms(1))
  have s: "?m (pf_loop_call p) = mem (pf_loop_call p)" "?m (pf_level_call p) = mem (pf_level_call p)"
    using assms(6) by (auto simp: bw intro!: write_bridge_words(5))
  note q = patch_calls_spec [OF assms(4,5)] and s' = s [unfolded assms(7,8)]
  have k: "mem' x = ?m x" if "x \<in> {b, b + 4, b + 8, b + 12}" for x
    using q(1) [OF s'] assms(6) that by (auto simp: bw)
  have r: "mem' (pf_loop_call p) = lb \<Longrightarrow> reaches mem' (pf_loop_call p) (pe_loop_hook e)"
    "mem' (pf_level_call p) = vb \<Longrightarrow> reaches mem' (pf_level_call p) (pe_level_hook e)"
    unfolding reaches_def
    by (rule exI [of _ b], simp add: arm_branch_roundtrip [OF assms(2)] k write_bridge_words)
       (rule exI [of _ "b + 8"], simp add: arm_branch_roundtrip [OF assms(3)] k write_bridge_def)
  show "\<forall>x. x \<notin> insert (pf_loop_call p) (insert (pf_level_call p) (bridge_words e)) \<longrightarrow> mem' x = mem x"
    using q(1) [OF s'] write_bridge_words(5) by (auto simp: bw)
  show "original_or_hook mem mem' (pf_loop_call p) (pe_loop_hook e)"
    "original_or_hook mem mem' (pf_level_call p) (pe_level_hook e)"
    using q(2,3) [OF s'] r s by (auto simp: original_or_hook_def)
  show "ok \<Longrightarrow> reaches mem' (pf_loop_call p) (pe_loop_hook e) \<and> reaches mem' (pf_level_call p) (pe_level_hook e)"
    using q(4) [OF s'] r by blast
  show "\<not> ok \<Longrightarrow> fst (pe_undo_level e) \<and> fst (pe_undo_loop e) \<Longrightarrow>
       mem' (pf_loop_call p) = mem (pf_loop_call p) \<and> mem' (pf_level_call p) = mem (pf_level_call p)"
    using q(5) [OF s'] s by simp
qed

lemma initialize_cases:
  assumes "initialize_nightvision e mem = (c', mem')" "find_profile (pe_model e) = Some p"
  obtains "c' = pe_control e" "mem' = mem"
  | c where "c' = Some c" "nv_error c = 1" "nv_ready_pid c = 0" "mem' = mem"
  | b lb vb ok c where "pe_bridge e = Some b" "branch_instruction (pf_loop_call p) b = Some lb"
    "branch_instruction (pf_level_call p) (b + 8) = Some vb"
    "patch_calls e p lb vb (write_bridge b (pe_loop_hook e) (pe_level_hook e) mem) = (ok, mem')"
    "mem (pf_loop_call p) = pf_loop_instruction p" "mem (pf_level_call p) = pf_level_instruction p"
    "c' = Some (if ok then c\<lparr>nv_error := 0, nv_ready_pid := pe_pid e\<rparr> else c)" "nv_error c = 1" "nv_ready_pid c = 0"
proof -
  let ?c = "(the (pe_control e))\<lparr>nv_ready_pid := 0, nv_error := 1\<rparr>"
  have f: "nv_error ?c = 1" "nv_ready_pid ?c = 0" by simp_all
  show thesis
    using assms that(1) that(2) [OF _ f] that(3) [OF _ _ _ _ _ _ _ f]
    by (auto simp: initialize_nightvision_def Let_def split: if_splits option.splits prod.splits)
qed

text \<open>
  C31. Loading the library patches both calls or none, and never leaves a call that goes nowhere: for every
  answer of the system, with the bridge apart from the two call sites, only the two sites and the words of
  the bridge change; each site holds its instruction as before or a branch that the processor takes to a
  veneer in place, which goes on to the site's hook, also when a change of protection fails halfway; the
  block announces the process, without error, only when both sites reach their hooks; and otherwise, when
  the block was the right one, it shows an error and no process, with both sites as before if they could
  be made writable again.
\<close>

theorem calls_patched_or_left:
  assumes "initialize_nightvision e mem = (c', mem')" "find_profile (pe_model e) = Some p"
    "bridge_words e \<inter> {pf_loop_call p, pf_level_call p} = {}"
  shows "(\<forall>x. x \<notin> insert (pf_loop_call p) (insert (pf_level_call p) (bridge_words e)) \<longrightarrow> mem' x = mem x) \<and>
    original_or_hook mem mem' (pf_loop_call p) (pe_loop_hook e) \<and>
    original_or_hook mem mem' (pf_level_call p) (pe_level_hook e) \<and>
    (c' = pe_control e \<and> mem' = mem \<or>
     (\<exists>c. c' = Some c \<and>
       (nv_error c = 0 \<and> nv_ready_pid c = pe_pid e \<and>
          reaches mem' (pf_loop_call p) (pe_loop_hook e) \<and> reaches mem' (pf_level_call p) (pe_level_hook e) \<or>
        nv_error c = 1 \<and> nv_ready_pid c = 0 \<and>
          (fst (pe_undo_level e) \<and> fst (pe_undo_loop e) \<longrightarrow>
             mem' (pf_loop_call p) = mem (pf_loop_call p) \<and> mem' (pf_level_call p) = mem (pf_level_call p)))))"
  using assms(1,2)
proof (cases rule: initialize_cases)
  case (3 b lb vb ok c)
  note m = patched_memory [OF 3(1-4) profile_sites [OF assms(2)] assms(3) 3(5,6)]
  show ?thesis using m 3(7-9) by (cases ok) simp_all
qed (simp_all add: original_or_hook_def)

text \<open>The first model, with the bridge at the address that is asked for.\<close>

definition y623_env :: patch_env where
  "y623_env = \<lparr>pe_model = Some ''y623'', pe_exe = Some ''/home/app/rmm'',
     pe_control = Some \<lparr>nv_c_magic = nv_magic, nv_c_version = nv_version, nv_generation = 0, nv_mode = NV_AUTO,
       nv_threshold = 50, nv_ready_pid = 0, nv_error = 0, nv_heartbeat = 0, nv_applied = 0, nv_light = -1,
       nv_effective = -1, nv_state = -1\<rparr>,
     pe_page_size = 4096, pe_bridge = Some 0x400000, pe_bridge_rx = True, pe_level = (True, True), pe_loop = (True, True),
     pe_undo_loop = (True, True), pe_undo_level = (True, True), pe_loop_hook = 0x76000000, pe_level_hook = 0x76000100,
     pe_pid = 321\<rparr>"

definition y623_memory :: memory where
  "y623_memory x = (if x = 0x25808 then 0xebfff990 else if x = 0x23f10 then 0xeb00ad1e else 0)"

lemma y623_profile: "find_profile (pe_model y623_env) = Some (hd profiles)"
  by (simp add: find_profile_def y623_env_def profiles_def)

lemma y623_patched: "map_option nv_ready_pid (fst (initialize_nightvision y623_env y623_memory)) = Some 321"
  unfolding initialize_nightvision_def y623_profile
  by (simp add: y623_env_def y623_memory_def profiles_def branch_instruction_def patch_calls_def
     replace_call_def write_bridge_def Let_def)

lemma calls_patched_or_left_witness:
  "reaches (snd (initialize_nightvision y623_env y623_memory)) 0x25808 0x76000000 \<and>
   reaches (snd (initialize_nightvision y623_env y623_memory)) 0x23f10 0x76000100"
proof -
  obtain c' mem' where i: "initialize_nightvision y623_env y623_memory = (c', mem')" by fastforce
  have "bridge_words y623_env \<inter> {pf_loop_call (hd profiles), pf_level_call (hd profiles)} = {}"
    by (simp add: bridge_words_def y623_env_def profiles_def)
  note t = calls_patched_or_left [OF i y623_profile this]
  have "pf_loop_call (hd profiles) = 0x25808" "pf_level_call (hd profiles) = 0x23f10"
    "pe_loop_hook y623_env = 0x76000000" "pe_level_hook y623_env = 0x76000100"
    "map_option nv_ready_pid (pe_control y623_env) = Some 0"
    by (simp_all add: profiles_def y623_env_def)
  then show ?thesis using t y623_patched by (auto simp: i)
qed

end
