(* ===== verification/Nightvision_Control.thy ===== *)
theory Nightvision_Control
  imports Nightvision Writer_Lock
begin

text \<open>
  \<open>src/ipc_cmd/ipc_cmd/nightvisionctl.c\<close>: the program that sets the night vision mode in the shared block
  and shows what the hook of theory \<open>Nightvision\<close> makes of it.  Its lock is that of theory \<open>Writer_Lock\<close>.
\<close>

section \<open>Arguments\<close>

datatype nv_command = Nv_Init u32 u32 | Nv_Set u32 u32 | Nv_Status

definition nv_parse_mode :: "string \<Rightarrow> u32 option" where
  "nv_parse_mode a =
     (if a = ''on'' then Some NV_ON else if a = ''off'' then Some NV_OFF else if a = ''auto'' then Some NV_AUTO else None)"

definition nv_parse_threshold :: "string \<Rightarrow> u32 option" where
  "nv_parse_threshold a =
     (let (v, rest, overflow) = strtol10 a
      in if overflow \<or> a = [] \<or> rest \<noteq> [] \<or> v < 1 \<or> v > 100 then None else Some (word_of_int v))"

text \<open>The arguments after the program's name; \<open>None\<close> is the exit code 2.\<close>

definition nv_parse :: "string list \<Rightarrow> nv_command option" where
  "nv_parse args =
     (case args of
        [a] \<Rightarrow> if a = ''--status'' then Some Nv_Status else None
      | [a, b, c] \<Rightarrow>
          if a = ''--set'' \<or> a = ''--init''
          then (case (nv_parse_mode b, nv_parse_threshold c) of
                  (Some m, Some t) \<Rightarrow> Some (if a = ''--init'' then Nv_Init m t else Nv_Set m t)
                | _ \<Rightarrow> None)
          else None
      | _ \<Rightarrow> None)"

section \<open>The block\<close>

definition nv_block_size :: nat where "nv_block_size = 48"

record nv_ctl_env =
  nc_open :: bool
  nc_stat :: bool
  nc_size :: nat
  nc_truncate :: bool
  nc_mmap :: bool
  nc_lock :: "(u32 \<times> bool) list"
  nc_snapshot :: "nv_attempt list"
  nc_seconds :: u32
  nc_alive :: "u32 \<Rightarrow> bool"

definition nv_fresh_block :: nv_control where
  "nv_fresh_block = \<lparr>nv_c_magic = nv_magic, nv_c_version = nv_version, nv_generation = 0, nv_mode = 0,
     nv_threshold = 50, nv_ready_pid = 0, nv_error = 0, nv_heartbeat = 0, nv_applied = 0, nv_light = -1,
     nv_effective = -1, nv_state = -1\<rparr>"

text \<open>The exit code 1 as \<open>None\<close>.\<close>

definition nv_write :: "u32 \<Rightarrow> u32 \<Rightarrow> nv_ctl_env \<Rightarrow> nv_control \<Rightarrow> nv_control option" where
  "nv_write mode threshold e c =
     (case writer_lock lock_attempts (nc_lock e) of
        None \<Rightarrow> None
      | Some g \<Rightarrow> Some (c\<lparr>nv_mode := mode, nv_threshold := threshold, nv_generation := g + 2\<rparr>))"

fun nv_snapshot :: "nat \<Rightarrow> nv_attempt list \<Rightarrow> (u32 \<times> u32 \<times> u32) option" where
  "nv_snapshot 0 as = None"
| "nv_snapshot n [] = None"
| "nv_snapshot (Suc n) (a # as) =
     (if na_first a AND 1 = 0 \<and> na_first a = na_last a
      then Some (na_first a, na_mode a, na_threshold a) else nv_snapshot n as)"

definition nv_truth :: "bool \<Rightarrow> string" where
  "nv_truth b = (if b then ''true'' else ''false'')"

definition nv_mode_name :: "u32 \<Rightarrow> string" where
  "nv_mode_name m = (if m = NV_ON then ''on'' else if m = NV_OFF then ''off'' else ''auto'')"

definition nv_supported :: "nv_ctl_env \<Rightarrow> nv_control \<Rightarrow> bool" where
  "nv_supported e c \<longleftrightarrow> nv_ready_pid c \<noteq> 0 \<and> nv_error c = 0 \<and> nc_alive e (nv_ready_pid c)"

definition nv_is_applied :: "nv_ctl_env \<Rightarrow> nv_control \<Rightarrow> u32 \<Rightarrow> u32 \<Rightarrow> bool" where
  "nv_is_applied e c g m \<longleftrightarrow> nv_supported e c \<and> nc_seconds e - nv_heartbeat c < 5 \<and> nv_applied c = g \<and>
     (m = NV_AUTO \<or> m = NV_ON \<and> nv_state c = 1 \<or> m = NV_OFF \<and> nv_state c = 0)"

definition nv_status_text :: "nv_ctl_env \<Rightarrow> nv_control \<Rightarrow> u32 \<times> u32 \<times> u32 \<Rightarrow> string" where
  "nv_status_text e c snapshot =
     (case snapshot of (g, m, t) \<Rightarrow>
        let supported = nv_supported e c;
            state = (if \<not> supported \<or> nc_seconds e - nv_heartbeat c \<ge> 5 then ''unavailable''
                     else if nv_state c = 1 then ''night'' else if nv_state c = 0 then ''day'' else ''unknown'')
        in ''{\"error\":false,\"supported\":'' @ nv_truth supported @ '',\"mode\":\"'' @ nv_mode_name m @
           ''\",\"threshold\":'' @ show_nat (unat t) @ '',\"state\":\"'' @ state @ ''\",\"applied\":'' @
           nv_truth (nv_is_applied e c g m) @ '',\"light_level\":'' @ show_int (nv_light c) @
           '',\"effective_level\":'' @ show_int (nv_effective c) @ '',\"pid\":'' @ show_nat (unat (nv_ready_pid c)) @ ''}\<newline>'')"

section \<open>The program\<close>

definition nv_unavailable :: string where
  "nv_unavailable = ''{\"error\":false,\"supported\":false,\"state\":\"unavailable\"}\<newline>''"

text \<open>\<open>c0\<close> is the block as it is mapped.  The exit code, the output and the block.\<close>

definition nv_main :: "string list \<Rightarrow> nv_ctl_env \<Rightarrow> nv_control \<Rightarrow> int \<times> string \<times> nv_control" where
  "nv_main args e c0 =
     (case nv_parse args of
        None \<Rightarrow> (2, [], c0)
      | Some command \<Rightarrow>
          let init = (case command of Nv_Init _ _ \<Rightarrow> True | _ \<Rightarrow> False); writing = (command \<noteq> Nv_Status)
          in if \<not> nc_open e then (if writing then 1 else 0, nv_unavailable, c0)
             else if \<not> nc_stat e \<or> (nc_size e \<noteq> nv_block_size \<and> (\<not> init \<or> \<not> nc_truncate e)) then (1, [], c0)
             else if \<not> nc_mmap e then (1, [], c0)
             else if (nv_c_magic c0 \<noteq> nv_magic \<or> nv_c_version c0 \<noteq> nv_version) \<and> \<not> init then (1, [], c0)
             else
               let c1 = (if nv_c_magic c0 \<noteq> nv_magic \<or> nv_c_version c0 \<noteq> nv_version then nv_fresh_block else c0);
                   written = (case command of Nv_Init m t \<Rightarrow> nv_write m t e c1 | Nv_Set m t \<Rightarrow> nv_write m t e c1
                              | Nv_Status \<Rightarrow> Some c1)
               in case written of
                 None \<Rightarrow> (1, [], c1)
               | Some c2 \<Rightarrow>
                   (case nv_snapshot lock_attempts (nc_snapshot e) of
                      None \<Rightarrow> (1, [], c2)
                    | Some snapshot \<Rightarrow>
                        (if writing \<and> \<not> init \<and> \<not> nv_supported e c2 then 1 else 0, nv_status_text e c2 snapshot, c2)))"

section \<open>A writer that never released the lock\<close>

lemma snapshot_stuck: "\<forall>a \<in> set (take n as). na_first a AND 1 \<noteq> 0 \<Longrightarrow> nv_snapshot n as = None"
  by (induction n as rule: nv_snapshot.induct) auto

lemma parsed_values:
  assumes "nv_parse args = Some command" "command = Nv_Init m t \<or> command = Nv_Set m t"
  shows "m \<le> NV_OFF" "1 \<le> t" "t \<le> 100"
proof -
  obtain b c where p: "nv_parse_mode b = Some m" "nv_parse_threshold c = Some t"
    using assms by (auto simp: nv_parse_def split: list.splits if_splits option.splits)
  show "m \<le> NV_OFF" using p(1) by (auto simp: nv_parse_mode_def nv_modes split: if_splits)
  obtain v where "t = word_of_int v" "1 \<le> v" "v \<le> 100"
    using p(2) by (auto simp: nv_parse_threshold_def Let_def split: prod.splits if_splits)
  then show "1 \<le> t" "t \<le> 100" by (simp_all add: word_le_def uint_word_of_int)
qed

text \<open>
  When a writer ended between taking the lock and releasing it, the generation stays odd, and every later
  run on the block fails, whatever its arguments: nothing takes the lock back.
\<close>

theorem abandoned_lock_is_permanent:
  assumes "nv_parse args = Some command" "nc_open e" "nv_c_magic c = nv_magic" "nv_c_version c = nv_version"
    "\<forall>a \<in> set (nc_lock e). fst a AND 1 \<noteq> 0" "\<forall>a \<in> set (nc_snapshot e). na_first a AND 1 \<noteq> 0"
  shows "fst (nv_main args e c) = 1 \<and> snd (snd (nv_main args e c)) = c"
proof -
  have "writer_lock lock_attempts (nc_lock e) = None" "nv_snapshot lock_attempts (nc_snapshot e) = None"
    using assms(5,6) by (auto intro!: writer_lock_stuck snapshot_stuck dest: in_set_takeD)
  then show ?thesis using assms(1-4) by (cases command) (auto simp: nv_main_def nv_write_def Let_def)
qed

section \<open>From the program to the camera\<close>

definition undisturbed_settings :: "nv_control \<Rightarrow> nv_attempt" where
  "undisturbed_settings c = \<lparr>na_first = nv_generation c, na_mode = nv_mode c, na_threshold = nv_threshold c, na_last = nv_generation c\<rparr>"

lemma even_parity: "(g :: u32) AND 1 = 0 \<longleftrightarrow> even (uint g)"
proof -
  have u: "uint g = int (unat g)" by (simp only: of_nat_unat)
  show ?thesis using u32_even_iff [of "unat g"] unfolding u even_of_nat_iff by simp
qed

lemma writes_settings:
  assumes "nv_parse args = Some command" "command = Nv_Init m t \<or> command = Nv_Set m t"
    "nc_open e" "nc_stat e" "nc_size e = nv_block_size" "nc_mmap e" "nv_c_magic c = nv_magic" "nv_c_version c = nv_version"
    "nv_generation c AND 1 = 0" "nc_lock e = [(nv_generation c, True)]" "nv_main args e c = (rc, out, c')"
  shows "c' = c\<lparr>nv_mode := m, nv_threshold := t, nv_generation := nv_generation c + 2\<rparr>"
proof -
  have "nv_write m t e c = Some (c\<lparr>nv_mode := m, nv_threshold := t, nv_generation := nv_generation c + 2\<rparr>)"
    using assms(9,10) by (simp add: nv_write_def lock_attempts_def numeral_eq_Suc)
  then show ?thesis using assms(1-8,11) by (auto simp: nv_main_def Let_def split: option.splits)
qed

lemma read_undisturbed:
  assumes "nv_mode c \<le> NV_OFF" "1 \<le> nv_threshold c" "nv_threshold c \<le> 100" "nv_generation c AND 1 = 0"
  shows "read_settings 4 [undisturbed_settings c] h =
    h\<lparr>hk_mode := nv_mode c, hk_threshold := nv_threshold c, hk_generation := nv_generation c\<rparr>"
  using assms by (simp add: undisturbed_settings_def settings_good_def even_parity numeral_eq_Suc)

lemma levels_keep_settings:
  "hk_mode (fold (\<lambda>l h. snd (camera_light_level l h)) ls h) = hk_mode h \<and>
   hk_threshold (fold (\<lambda>l h. snd (camera_light_level l h)) ls h) = hk_threshold h \<and>
   hk_generation (fold (\<lambda>l h. snd (camera_light_level l h)) ls h) = hk_generation h"
  by (induction ls arbitrary: h) (simp_all add: camera_light_level_def Let_def)

lemma level_shown: "fst (camera_light_level l h) = nv_level l (hk_mode h) (hk_threshold h)"
  by (simp add: camera_light_level_def Let_def)

lemma nv_level_value:
  assumes "l \<le> 2 ^ 31 - 1" "1 \<le> t" "t \<le> 100"
  shows "nv_level l m t = (if m = NV_ON then 0 else if m = NV_OFF then 1000000
    else if l < 0 then l else min (l * 50 div uint t) (2 ^ 31 - 1))"
  using assms(1) by (auto simp: nv_level_def int32_max_def Let_def)

lemma nv_level_mono:
  assumes "l \<le> l'" "0 \<le> l" "1 \<le> t"
  shows "nv_level l m t \<le> nv_level l' m t"
proof -
  have "0 < uint t" using assms(3) by (simp add: word_le_def)
  then have "l * 50 div uint t \<le> l' * 50 div uint t" using assms(1) by (intro zdiv_mono1) simp_all
  then show ?thesis using assms by (auto simp: nv_level_def Let_def)
qed

text \<open>
  C30. A mode that is set reaches the camera: when the program accepts its arguments and takes the lock
  undisturbed on a block of the right kind, the block has the mode and the threshold of the arguments with
  the next even generation and nothing else changed; and in the next pass of the hook, which reads them
  undisturbed, the vendor's loop runs with the request of a manual mode in place of its own and its lock
  of automatic switching released, with nothing changed in automatic mode; every light level it measures
  is replaced as the mode demands: by 0 for night, by 1,000,000 for day, and scaled by the threshold,
  within 32 bits and in order, in automatic mode; and the generation is reported as applied.
\<close>

theorem mode_reaches_the_camera:
  assumes "nv_parse args = Some command" "command = Nv_Init m t \<or> command = Nv_Set m t"
    "nc_open e" "nc_stat e" "nc_size e = nv_block_size" "nc_mmap e" "nv_c_magic c = nv_magic" "nv_c_version c = nv_version"
    "nv_generation c AND 1 = 0" "nc_lock e = [(nv_generation c, True)]"
    "nv_main args e c = (rc, out, c')" "hk_generation h \<noteq> nv_generation c'"
    "camera_nightvision_loop native [undisturbed_settings c'] now (h, fw, c') = (h2, fw2, c2)"
  shows "c' = c\<lparr>nv_mode := m, nv_threshold := t, nv_generation := nv_generation c + 2\<rparr> \<and>
    hk_mode h2 = m \<and> hk_threshold h2 = t \<and> nv_applied c2 = nv_generation c' \<and>
    fw2 = fst (native (if m = NV_AUTO then fw else fw\<lparr>fw_guard := 0, fw_request := (if m = NV_ON then 1 else 0)\<rparr>)) \<and>
    (\<forall>l \<le> 2 ^ 31 - 1. fst (camera_light_level l h2) =
       (if m = NV_ON then 0 else if m = NV_OFF then 1000000
        else if l < 0 then l else min (l * 50 div uint t) (2 ^ 31 - 1))) \<and>
    (\<forall>l l'. l \<le> l' \<and> 0 \<le> l \<longrightarrow> fst (camera_light_level l h2) \<le> fst (camera_light_level l' h2))"
proof -
  note v = parsed_values [OF assms(1,2)] and c' = writes_settings [OF assms(1-11)]
  let ?h1 = "h\<lparr>hk_mode := m, hk_threshold := t, hk_generation := nv_generation c + 2\<rparr>"
  have r: "read_settings 4 [undisturbed_settings c'] h = ?h1"
    using read_undisturbed [of c' h] v generation_parity(2) [OF assms(9)] by (simp add: c')
  let ?fw = "if m = NV_AUTO then fw else fw\<lparr>fw_guard := 0, fw_request := (if m = NV_ON then 1 else 0)\<rparr>"
  obtain fw' ls where n: "native ?fw = (fw', ls)" by fastforce
  have g: "nv_generation c + 2 \<noteq> hk_generation h" using assms(12) by (simp add: c')
  have out: "h2 = fold (\<lambda>l h. snd (camera_light_level l h)) ls ?h1" "fw2 = fw'" "nv_applied c2 = hk_generation h2"
    using assms(13) n g unfolding camera_nightvision_loop_def prod.case r Let_def
    by (auto split: if_splits)
  have h2: "hk_mode h2 = m" "hk_threshold h2 = t" "hk_generation h2 = nv_generation c + 2"
    using levels_keep_settings [of ls ?h1] by (simp_all add: out(1))
  show ?thesis
    using h2 out n nv_level_value [OF _ v(2,3), of _ m] nv_level_mono [OF _ _ v(2), of _ _ m]
    by (simp add: c' level_shown)
qed

text \<open>The mode for night on a fresh block, and a vendor's loop that measures one level.\<close>

definition set_night :: "string list" where
  "set_night = [''--set'', ''on'', ''50'']"

lemma set_night_parsed: "nv_parse set_night = Some (Nv_Set NV_ON 50)"
  by (simp add: nv_parse_def set_night_def nv_parse_mode_def nv_parse_threshold_def strtol10_def cstr_simps
     digit_val_def long_max_def long_min_def)

definition quiet_nv_env :: nv_ctl_env where
  "quiet_nv_env = \<lparr>nc_open = True, nc_stat = True, nc_size = nv_block_size, nc_truncate = False, nc_mmap = True,
     nc_lock = [(0, True)], nc_snapshot = [], nc_seconds = 0, nc_alive = (\<lambda>_. True)\<rparr>"

lemma mode_reaches_the_camera_witness:
  "\<exists>c'. snd (snd (nv_main set_night quiet_nv_env nv_fresh_block)) = c' \<and>
     fst (snd (camera_nightvision_loop (\<lambda>fw. (fw, [77])) [undisturbed_settings c'] 3
       (hook_init, \<lparr>fw_guard = 9, fw_request = 0, fw_committed = 0\<rparr>, c'))) =
     \<lparr>fw_guard = 0, fw_request = 1, fw_committed = 0\<rparr>"
proof -
  obtain rc out c' where m: "nv_main set_night quiet_nv_env nv_fresh_block = (rc, out, c')" by (metis surj_pair)
  obtain h2 fw2 c2 where l: "camera_nightvision_loop (\<lambda>fw. (fw, [77])) [undisturbed_settings c'] 3
      (hook_init, \<lparr>fw_guard = 9, fw_request = 0, fw_committed = 0\<rparr>, c') = (h2, fw2, c2)" by (metis surj_pair)
  have c': "c' = nv_fresh_block\<lparr>nv_mode := NV_ON, nv_threshold := 50, nv_generation := nv_generation nv_fresh_block + 2\<rparr>"
    by (rule writes_settings [OF set_night_parsed _ _ _ _ _ _ _ _ _ m]) (simp_all add: quiet_nv_env_def nv_fresh_block_def)
  have "hk_generation hook_init \<noteq> nv_generation c'" by (simp add: c' hook_init_def nv_fresh_block_def)
  from mode_reaches_the_camera [OF set_night_parsed _ _ _ _ _ _ _ _ _ m this l] have
    "fw2 = \<lparr>fw_guard = 0, fw_request = 1, fw_committed = 0\<rparr>"
    by (simp add: quiet_nv_env_def nv_fresh_block_def NV_ON_def NV_AUTO_def)
  then show ?thesis using m l by simp
qed

end
