(* ===== verification/Frame_Ring.thy ===== *)
theory Frame_Ring
  imports Prelude "HOL-Library.Monad_Syntax"
begin

text \<open>
  The ring of encoded frames that the vendor's process keeps in shared memory, as
  \<open>src/h264grabber/h264grabber/h264grabber.c\<close> reads it: a control area of \<open>buf_offset\<close> bytes, then
  \<open>buf_size - buf_offset\<close> bytes in which the data goes round.  A position is a pointer less the start
  of the mapping.  Reading outside the mapping is a fault, the value \<open>None\<close>.  The lemmas relate the
  routines to an endless stream of which the ring shows a window.
\<close>

section \<open>Geometry and reading\<close>

text \<open>The globals \<open>buf_offset\<close> and \<open>buf_size\<close>.\<close>

record frame_ring =
  fr_offset :: int
  fr_size :: int

abbreviation fr_span :: "frame_ring \<Rightarrow> int" where
  "fr_span r \<equiv> fr_size r - fr_offset r"

definition mem_read :: "byte list \<Rightarrow> int \<Rightarrow> int \<Rightarrow> byte list option" where
  "mem_read mem p n =
     (if 0 \<le> p \<and> 0 \<le> n \<and> p + n \<le> int (length mem) then Some (take (nat n) (drop (nat p) mem)) else None)"

definition cb2s_memcpy :: "frame_ring \<Rightarrow> byte list \<Rightarrow> int \<Rightarrow> int \<Rightarrow> byte list option" where
  "cb2s_memcpy r mem src n =
     (if src + n > fr_size r
      then do {
        a \<leftarrow> mem_read mem src (fr_size r - src);
        b \<leftarrow> mem_read mem (fr_offset r) (n - (fr_size r - src));
        Some (a @ b)
      }
      else mem_read mem src n)"

definition cb_move :: "frame_ring \<Rightarrow> int \<Rightarrow> int \<Rightarrow> int" where
  "cb_move r buf k =
     (let p = buf + k;
          p = (if k > 0 \<and> p > fr_size r then p - fr_span r else p)
      in if k < 0 \<and> p < fr_offset r then p + fr_span r else p)"

text \<open>\<open>memcmp\<close> of two areas of one length, by its sign, and \<open>memmem\<close> as the index of the first match.\<close>

fun c_memcmp :: "byte list \<Rightarrow> byte list \<Rightarrow> int" where
  "c_memcmp (a # as) (b # bs) = (if a = b then c_memcmp as bs else if a < b then -1 else 1)"
| "c_memcmp _ _ = 0"

fun c_memmem :: "byte list \<Rightarrow> byte list \<Rightarrow> nat option" where
  "c_memmem hay needle =
     (if has_prefix needle hay then Some 0
      else case hay of [] \<Rightarrow> None | _ # rest \<Rightarrow> map_option Suc (c_memmem rest needle))"

declare c_memmem.simps [simp del]

definition cb_memcmp :: "frame_ring \<Rightarrow> byte list \<Rightarrow> byte list \<Rightarrow> int \<Rightarrow> int option" where
  "cb_memcmp r mem str1 str2 =
     (let n = int (length str1); k = fr_size r - str2
      in if str2 + n > fr_size r
         then do {
           a \<leftarrow> mem_read mem str2 k;
           let ret = c_memcmp (take (nat k) str1) a;
           if ret \<noteq> 0 then Some ret
           else do {
             b \<leftarrow> mem_read mem (fr_offset r) (n - k);
             Some (c_memcmp (drop (nat k) str1) b)
           }
         }
         else do {
           a \<leftarrow> mem_read mem str2 n;
           Some (c_memcmp str1 a)
         })"

text \<open>The position of a match; the search of a negative length goes from \<open>src\<close> to the end and on from the start.\<close>

definition cb_memmem :: "frame_ring \<Rightarrow> byte list \<Rightarrow> int \<Rightarrow> int \<Rightarrow> byte list \<Rightarrow> int option option" where
  "cb_memmem r mem src src_len what =
     (if src_len \<ge> 0
      then do {
        a \<leftarrow> mem_read mem src src_len;
        Some (map_option (\<lambda>k. src + int k) (c_memmem a what))
      }
      else do {
        a \<leftarrow> mem_read mem src (fr_size r - src);
        case c_memmem a what of
          Some k \<Rightarrow> Some (Some (src + int k))
        | None \<Rightarrow> do {
            b \<leftarrow> mem_read mem (fr_offset r) (src + src_len - fr_offset r);
            Some (map_option (\<lambda>k. fr_offset r + int k) (c_memmem b what))
          }
      })"

section \<open>Frame headers\<close>

record frame_header =
  fh_len :: u32
  fh_counter :: u32
  fh_time :: u32
  fh_type :: "16 word"
  fh_stream_counter :: "16 word"

definition le16 :: "byte list \<Rightarrow> nat \<Rightarrow> 16 word" where
  "le16 bs i = ucast (bs ! i) OR push_bit 8 (ucast (bs ! (i + 1)))"

definition le32 :: "byte list \<Rightarrow> nat \<Rightarrow> u32" where
  "le32 bs i = ucast (bs ! i) OR push_bit 8 (ucast (bs ! (i + 1))) OR
     push_bit 16 (ucast (bs ! (i + 2))) OR push_bit 24 (ucast (bs ! (i + 3)))"

text \<open>The other way round, as an \<open>int\<close> is stored on the targets.\<close>

definition le32_bytes :: "u32 \<Rightarrow> byte list" where
  "le32_bytes w = [ucast w, ucast (drop_bit 8 w), ucast (drop_bit 16 w), ucast (drop_bit 24 w)]"

lemma le32_le32_bytes: "le32 (pre @ le32_bytes w @ post) (length pre) = w"
  unfolding le32_def le32_bytes_def
  by (rule bit_word_eqI) (auto simp: nth_append bit_simps, rule ccontr, simp add: not_less)

lemma byte_high_bits: "\<not> bit w (8 + k)" "\<not> bit w (16 + k)" "\<not> bit w (24 + k)" for w :: byte
  using bit_imp_le_length [of w "8 + k"] bit_imp_le_length [of w "16 + k"] bit_imp_le_length [of w "24 + k"] by auto

text \<open>The packed layouts of 22, 24, 26 and 28 bytes: the first two have one word before the time, the others two.\<close>

definition header_at :: "nat \<Rightarrow> byte list \<Rightarrow> frame_header" where
  "header_at t bs = \<lparr>fh_len = le32 bs 0, fh_counter = le32 bs 4, fh_time = le32 bs t,
     fh_type = le16 bs (t + 4), fh_stream_counter = le16 bs (t + 6)\<rparr>"

abbreviation frame_header_22 :: "byte list \<Rightarrow> frame_header" where "frame_header_22 \<equiv> header_at 12"
abbreviation frame_header_24 :: "byte list \<Rightarrow> frame_header" where "frame_header_24 \<equiv> header_at 12"
abbreviation frame_header_26 :: "byte list \<Rightarrow> frame_header" where "frame_header_26 \<equiv> header_at 16"
abbreviation frame_header_28 :: "byte list \<Rightarrow> frame_header" where "frame_header_28 \<equiv> header_at 16"

definition known_header_size :: "int \<Rightarrow> bool" where
  "known_header_size n \<longleftrightarrow> n = 22 \<or> n = 24 \<or> n = 26 \<or> n = 28"

definition decode_header :: "int \<Rightarrow> byte list \<Rightarrow> frame_header" where
  "decode_header n bs =
     (if n = 22 then frame_header_22 bs else if n = 24 then frame_header_24 bs
      else if n = 26 then frame_header_26 bs else frame_header_28 bs)"

text \<open>For another size the destination is left as it was.\<close>

definition cb2s_headercpy :: "frame_ring \<Rightarrow> byte list \<Rightarrow> frame_header \<Rightarrow> int \<Rightarrow> int \<Rightarrow> frame_header option" where
  "cb2s_headercpy r mem dest src n =
     (if known_header_size n then map_option (decode_header n) (cb2s_memcpy r mem src n) else Some dest)"

section \<open>The window of an endless stream\<close>

text \<open>
  A ring in its mapping; the place in it of a time of the stream, counted in bytes; a position
  \<open>p\<close> is at time \<open>t\<close> when it is that place, where the end of the ring and its start are one place.
\<close>

definition ring_ok :: "frame_ring \<Rightarrow> byte list \<Rightarrow> bool" where
  "ring_ok r mem \<longleftrightarrow> 0 \<le> fr_offset r \<and> fr_offset r < fr_size r \<and> fr_size r = int (length mem)"

definition ring_place :: "frame_ring \<Rightarrow> nat \<Rightarrow> nat" where
  "ring_place r t = nat (fr_offset r) + t mod nat (fr_span r)"

definition ring_time :: "frame_ring \<Rightarrow> int \<Rightarrow> nat \<Rightarrow> bool" where
  "ring_time r p t \<longleftrightarrow> fr_offset r \<le> p \<and> p \<le> fr_size r \<and>
     nat (p - fr_offset r) mod nat (fr_span r) = t mod nat (fr_span r)"

text \<open>The ring shows the bytes of the stream from time \<open>t\<close> on.\<close>

definition shows_from :: "frame_ring \<Rightarrow> byte list \<Rightarrow> nat \<Rightarrow> byte list \<Rightarrow> bool" where
  "shows_from r mem t s \<longleftrightarrow> (\<forall>k < length s. mem ! ring_place r (t + k) = s ! k)"

lemma shows_from_append [simp]:
  "shows_from r mem t (s @ s') \<longleftrightarrow> shows_from r mem t s \<and> shows_from r mem (t + length s) s'"
proof -
  have "(\<forall>k < length (s @ s'). mem ! ring_place r (t + k) = (s @ s') ! k) \<longleftrightarrow>
      (\<forall>k < length s. mem ! ring_place r (t + k) = s ! k) \<and>
      (\<forall>k < length s'. mem ! ring_place r (t + length s + k) = s' ! k)" (is "?a \<longleftrightarrow> ?b \<and> ?c")
  proof
    assume a: ?a
    have "mem ! ring_place r (t + length s + k) = s' ! k" if "k < length s'" for k
      using a [rule_format, of "length s + k"] that by (simp add: nth_append add.assoc)
    moreover have "mem ! ring_place r (t + k) = s ! k" if "k < length s" for k
      using a [rule_format, of k] that by (simp add: nth_append)
    ultimately show "?b \<and> ?c" by blast
  next
    assume bc: "?b \<and> ?c"
    show ?a
    proof (intro allI impI)
      fix k assume "k < length (s @ s')"
      then show "mem ! ring_place r (t + k) = (s @ s') ! k"
        using bc [THEN conjunct1, rule_format, of k] bc [THEN conjunct2, rule_format, of "k - length s"]
        by (cases "k < length s") (simp_all add: nth_append)
    qed
  qed
  then show ?thesis by (simp add: shows_from_def)
qed

lemma shows_from_Nil [simp]: "shows_from r mem t []"
  by (simp add: shows_from_def)

lemma mod_turn: "a < w + w \<Longrightarrow> a mod w = (if a < w then a else a - w)" for a w :: nat
  by (auto simp: le_mod_geq not_less)

text \<open>At most one turn ahead of a position the places follow it, and go on at the start.\<close>

lemma ring_place_ahead:
  assumes "0 \<le> fr_offset r" "fr_offset r < fr_size r" "ring_time r p t" "int k < fr_span r"
  shows "ring_place r (t + k) =
    (if p + int k < fr_size r then nat (p + int k) else nat (p + int k - fr_span r))"
proof -
  let ?o = "nat (fr_offset r)" and ?w = "nat (fr_span r)" and ?q = "nat (p - fr_offset r)"
  have w: "0 < ?w" using assms(2) by simp
  have q: "?q mod ?w = t mod ?w" "int ?q = p - fr_offset r" using assms(3) by (simp_all add: ring_time_def)
  have "ring_place r (t + k) = ?o + (?q + k) mod ?w"
    using q(1) by (simp add: ring_place_def) (metis mod_add_left_eq)
  moreover have "?q + k < ?w + ?w" using assms(3,4) q(2) unfolding ring_time_def by arith
  ultimately have "ring_place r (t + k) = (if ?q + k < ?w then ?o + (?q + k) else ?o + (?q + k - ?w))"
    by (simp only: mod_turn if_distrib)
  moreover have "?q + k < ?w \<longleftrightarrow> p + int k < fr_size r" using q(2) w by linarith
  moreover have "?o + (?q + k) = nat (p + int k)" using assms(1,3) unfolding ring_time_def by arith
  moreover have "?o + (?q + k - ?w) = nat (p + int k - fr_span r)" if "\<not> ?q + k < ?w"
    using that assms(1,2,3) unfolding ring_time_def by arith
  ultimately show ?thesis by simp
qed

lemma mem_read_nth:
  assumes "mem_read mem p n = Some bs" "k < nat n"
  shows "bs ! k = mem ! (nat p + k)"
  using assms by (auto simp: mem_read_def split: if_splits)

lemma mem_read_length: "mem_read mem p n = Some bs \<Longrightarrow> length bs = nat n"
  by (auto simp: mem_read_def split: if_splits)

lemma mem_read_some: "0 \<le> p \<Longrightarrow> 0 \<le> n \<Longrightarrow> p + n \<le> int (length mem) \<Longrightarrow> \<exists>bs. mem_read mem p n = Some bs"
  by (simp add: mem_read_def)

text \<open>Copying out of the ring, at most a turn, gives what the stream has at that time.\<close>

lemma cb2s_memcpy_shows:
  assumes "ring_ok r mem" "ring_time r p t" "shows_from r mem t s" "int (length s) \<le> fr_span r"
  shows "cb2s_memcpy r mem p (int (length s)) = Some s"
proof -
  have ok: "0 \<le> fr_offset r" "fr_offset r < fr_size r" "fr_size r = int (length mem)"
    using assms(1) by (simp_all add: ring_ok_def)
  have p: "fr_offset r \<le> p" "p \<le> fr_size r" using assms(2) by (simp_all add: ring_time_def)
  have s: "s ! k = mem ! (if p + int k < fr_size r then nat (p + int k) else nat (p + int k - fr_span r))"
    if "k < length s" for k
  proof -
    have "int k < fr_span r" using that assms(4) by linarith
    then have "ring_place r (t + k) =
        (if p + int k < fr_size r then nat (p + int k) else nat (p + int k - fr_span r))"
      by (rule ring_place_ahead [OF ok(1,2) assms(2)])
    then show ?thesis using that assms(3) [unfolded shows_from_def, rule_format, of k] by simp
  qed
  show ?thesis
  proof (cases "p + int (length s) > fr_size r")
    case True
    let ?k = "nat (fr_size r - p)"
    obtain a where a: "mem_read mem p (fr_size r - p) = Some a" using mem_read_some p ok by force
    obtain b where b: "mem_read mem (fr_offset r) (int (length s) - (fr_size r - p)) = Some b"
      using mem_read_some [of "fr_offset r" "int (length s) - (fr_size r - p)" mem] p ok True assms(4) by force
    have len: "length a = ?k" "length b = length s - ?k" "?k \<le> length s"
      using mem_read_length [OF a] mem_read_length [OF b] True p by simp_all
    have "a @ b = s"
    proof (rule nth_equalityI)
      show "length (a @ b) = length s" using len by simp
      fix i assume i: "i < length (a @ b)"
      show "(a @ b) ! i = s ! i"
      proof (cases "i < ?k")
        case True
        then have "a ! i = mem ! (nat p + i)" by (rule mem_read_nth [OF a])
        moreover have "p + int i < fr_size r" using True by linarith
        ultimately show ?thesis using s [of i] True len ok p by (simp add: nth_append nat_add_distrib)
      next
        case False
        have "b ! (i - ?k) = mem ! (nat (fr_offset r) + (i - ?k))"
        proof (rule mem_read_nth [OF b])
          show "i - ?k < nat (int (length s) - (fr_size r - p))"
            unfolding mem_read_length [OF b, symmetric] using i len(1) False by simp
        qed
        moreover have "nat (fr_offset r) + (i - ?k) = nat (p + int i - fr_span r)" "\<not> p + int i < fr_size r"
          using False ok p by linarith+
        ultimately show ?thesis using s [of i] i False len by (simp add: nth_append)
      qed
    qed
    then show ?thesis using True a b by (simp add: cb2s_memcpy_def)
  next
    case False
    then obtain a where a: "mem_read mem p (int (length s)) = Some a" using mem_read_some p ok by force
    have "a = s"
    proof (rule nth_equalityI)
      show "length a = length s" using mem_read_length [OF a] by simp
      fix i assume "i < length a"
      then have i: "i < length s" using mem_read_length [OF a] by simp
      then have "a ! i = mem ! (nat p + i)" by (intro mem_read_nth [OF a]) simp
      then show "a ! i = s ! i" using s [OF i] i False ok p by (simp add: nat_add_distrib)
    qed
    then show ?thesis using False a by (simp add: cb2s_memcpy_def)
  qed
qed

text \<open>Moving forward by at most a turn moves the time.\<close>

lemma cb_move_time:
  assumes "fr_offset r < fr_size r" "ring_time r p t" "int k \<le> fr_span r"
  shows "ring_time r (cb_move r p (int k)) (t + k)"
proof -
  let ?w = "nat (fr_span r)" and ?q = "nat (p - fr_offset r)"
  have p: "fr_offset r \<le> p" "p \<le> fr_size r" "?q mod ?w = t mod ?w"
    using assms(2) by (simp_all add: ring_time_def)
  have t: "(?q + k) mod ?w = (t + k) mod ?w" using p(3) by (metis mod_add_left_eq)
  show ?thesis
  proof (cases "p + int k > fr_size r")
    case True
    then have "0 < k" using p(2) by (cases k) auto
    then have m: "cb_move r p (int k) = p + int k - fr_span r"
      using True by (simp add: cb_move_def Let_def)
    have "nat (p + int k - fr_span r - fr_offset r) = ?q + k - ?w" "?w \<le> ?q + k"
      using True p(1) assms(1) by arith+
    then show ?thesis using m t p assms(1,3) True by (simp add: ring_time_def le_mod_geq [symmetric])
  next
    case False
    then have m: "cb_move r p (int k) = p + int k" by (simp add: cb_move_def Let_def)
    have "nat (p + int k - fr_offset r) = ?q + k" using p(1) by linarith
    then show ?thesis using m t p False by (simp add: ring_time_def)
  qed
qed

text \<open>Comparing with the ring is comparing with what would be copied out of it.\<close>

lemma c_memcmp_append:
  "length as = length bs \<Longrightarrow> c_memcmp (as @ xs) (bs @ ys) =
    (if c_memcmp as bs \<noteq> 0 then c_memcmp as bs else c_memcmp xs ys)"
  by (induction as bs rule: list_induct2) auto

lemma c_memcmp_zero: "length as = length bs \<Longrightarrow> c_memcmp as bs = 0 \<longleftrightarrow> as = bs"
  by (induction as bs rule: list_induct2) auto

lemma cb_memcmp_copied:
  assumes "cb2s_memcpy r mem p (int (length s)) = Some bs"
  shows "cb_memcmp r mem s p = Some (c_memcmp s bs)"
proof (cases "p + int (length s) > fr_size r")
  case True
  let ?k = "fr_size r - p"
  obtain a b where ab: "mem_read mem p ?k = Some a"
    "mem_read mem (fr_offset r) (int (length s) - ?k) = Some b" "bs = a @ b"
    using assms True by (auto simp: cb2s_memcpy_def bind_eq_Some_conv)
  have "length (take (nat ?k) s) = length a"
    using mem_read_length [OF ab(1)] True by simp
  then have "c_memcmp s bs = (if c_memcmp (take (nat ?k) s) a \<noteq> 0 then c_memcmp (take (nat ?k) s) a
      else c_memcmp (drop (nat ?k) s) b)"
    using c_memcmp_append [of "take (nat ?k) s" a "drop (nat ?k) s" b] by (simp add: ab(3))
  then show ?thesis using True ab(1,2) by (simp add: cb_memcmp_def Let_def)
next
  case False
  then show ?thesis using assms by (simp add: cb_memcmp_def cb2s_memcpy_def Let_def)
qed

text \<open>Within a ring every copy of at most a turn succeeds.\<close>

lemma cb2s_memcpy_some:
  assumes "ring_ok r mem" "fr_offset r \<le> p" "p \<le> fr_size r" "0 \<le> n" "n \<le> fr_span r"
  shows "\<exists>bs. cb2s_memcpy r mem p n = Some bs \<and> length bs = nat n"
proof -
  let ?s = "map (\<lambda>k. mem ! ring_place r (nat (p - fr_offset r) + k)) [0..<nat n]"
  have "cb2s_memcpy r mem p (int (length ?s)) = Some ?s"
    using assms by (intro cb2s_memcpy_shows [where t = "nat (p - fr_offset r)"])
      (simp_all add: ring_time_def shows_from_def)
  then show ?thesis using assms(4) by (intro exI [of _ ?s]) simp
qed

lemma cb_move_in_ring:
  assumes "fr_offset r \<le> p" "p \<le> fr_size r" "0 \<le> k" "k \<le> fr_span r"
  shows "fr_offset r \<le> cb_move r p k" "cb_move r p k \<le> fr_size r"
  using assms by (auto simp: cb_move_def Let_def)

text \<open>A move forward never ends at the start of the ring: one that reaches the end of it stays there.\<close>

lemma cb_move_forward:
  "fr_offset r \<le> p \<Longrightarrow> fr_offset r < fr_size r \<Longrightarrow> 0 < k \<Longrightarrow> fr_offset r < cb_move r p k"
  by (auto simp: cb_move_def Let_def)

text \<open>The match that is found is the first one, and lies inside the area.\<close>

lemma c_memmem_first:
  "c_memmem hay needle = Some k \<Longrightarrow> needle \<noteq> [] \<Longrightarrow>
     k + length needle \<le> length hay \<and> has_prefix needle (drop k hay) \<and>
     (\<forall>j<k. \<not> has_prefix needle (drop j hay))"
proof (induction hay needle arbitrary: k rule: c_memmem.induct)
  case (1 hay needle)
  show ?case
  proof (cases "has_prefix needle hay")
    case True
    then have "k = 0" using "1.prems"(1) by (subst (asm) c_memmem.simps) simp
    moreover have "length (take (length needle) hay) = length needle" using True by (simp add: has_prefix_def)
    then have "length needle \<le> length hay" by simp
    ultimately have "k = 0" "length needle \<le> length hay" by simp_all
    then show ?thesis using True by simp
  next
    case False
    then obtain x rest k' where hay: "hay = x # rest" "c_memmem rest needle = Some k'" "k = Suc k'"
      using "1.prems"(1) by (subst (asm) c_memmem.simps) (auto split: list.splits)
    then show ?thesis using "1.IH" [OF False hay(1) hay(2)] "1.prems"(2) False
      by (auto simp: less_Suc_eq_0_disj)
  qed
qed

end
