(* ===== verification/Sps_Tables.thy ===== *)
theory Sps_Tables
  imports Prelude
begin

text \<open>
  The byte patterns of \<open>src/h264grabber/h264grabber/h264grabber.c\<close>: the start codes, the sequence
  parameter sets (SPS) that the cameras are known to send, the ones with timing information (\<open>_TI\<close>)
  that the grabber sends in their place, and the video parameter sets.
\<close>

definition IDR4 :: "byte list" where
  "IDR4 = [0x65, 0xB8]"

definition NALx_START :: "byte list" where
  "NALx_START = [0x00, 0x00, 0x00, 0x01]"

definition IDR4_START :: "byte list" where
  "IDR4_START = [0x00, 0x00, 0x00, 0x01, 0x65, 0x88]"

definition IDR5_START :: "byte list" where
  "IDR5_START = [0x00, 0x00, 0x00, 0x01, 0x26]"

definition PFR4_START :: "byte list" where
  "PFR4_START = [0x00, 0x00, 0x00, 0x01, 0x41]"

definition PFR5_START :: "byte list" where
  "PFR5_START = [0x00, 0x00, 0x00, 0x01, 0x02]"

definition SPS4_START :: "byte list" where
  "SPS4_START = [0x00, 0x00, 0x00, 0x01, 0x67]"

definition SPS5_START :: "byte list" where
  "SPS5_START = [0x00, 0x00, 0x00, 0x01, 0x42]"

definition PPS4_START :: "byte list" where
  "PPS4_START = [0x00, 0x00, 0x00, 0x01, 0x68]"

definition PPS5_START :: "byte list" where
  "PPS5_START = [0x00, 0x00, 0x00, 0x01, 0x44]"

definition VPS5_START :: "byte list" where
  "VPS5_START = [0x00, 0x00, 0x00, 0x01, 0x40]"

definition PPS4_HEADER :: "byte list" where
  "PPS4_HEADER = [0x08, 0x00, 0x00, 0x00]"

definition SPS4_640X360 :: "byte list" where
  "SPS4_640X360 = [0x00, 0x00, 0x00, 0x01, 0x67, 0x4D, 0x00, 0x14, 0x96, 0x54, 0x05, 0x01,
     0x7B, 0xCB, 0x37, 0x01, 0x01, 0x01, 0x02]"

definition SPS4_640X360_TI :: "byte list" where
  "SPS4_640X360_TI = [0x00, 0x00, 0x00, 0x01, 0x67, 0x4D, 0x00, 0x14, 0x96, 0x54, 0x05, 0x01,
     0x7B, 0xCB, 0x37, 0x01, 0x01, 0x01, 0x40, 0x00, 0x00, 0x7D, 0x00, 0x00,
     0x13, 0x88, 0x21]"

definition SPS4_1920X1080 :: "byte list" where
  "SPS4_1920X1080 = [0x00, 0x00, 0x00, 0x01, 0x67, 0x4D, 0x00, 0x20, 0x96, 0x54, 0x03, 0xC0,
     0x11, 0x2F, 0x2C, 0xDC, 0x04, 0x04, 0x04, 0x08]"

definition SPS4_1920X1080_TI :: "byte list" where
  "SPS4_1920X1080_TI = [0x00, 0x00, 0x00, 0x01, 0x67, 0x4D, 0x00, 0x20, 0x96, 0x54, 0x03, 0xC0,
     0x11, 0x2F, 0x2C, 0xDC, 0x04, 0x04, 0x05, 0x00, 0x00, 0x03, 0x01, 0xF4,
     0x00, 0x00, 0x4E, 0x20, 0x84]"

definition SPS4_2304X1296 :: "byte list" where
  "SPS4_2304X1296 = [0x00, 0x00, 0x00, 0x01, 0x67, 0x4D, 0x00, 0x20, 0x96, 0x54, 0x01, 0x20,
     0x05, 0x19, 0x37, 0x01, 0x01, 0x01, 0x02]"

definition SPS4_2304X1296_TI :: "byte list" where
  "SPS4_2304X1296_TI = [0x00, 0x00, 0x00, 0x01, 0x67, 0x4D, 0x00, 0x20, 0x96, 0x54, 0x01, 0x20,
     0x05, 0x19, 0x37, 0x01, 0x00, 0x00, 0x40, 0x00, 0x00, 0x7D, 0x00, 0x00,
     0x13, 0x88, 0x21]"

definition SPS4_2_640X360 :: "byte list" where
  "SPS4_2_640X360 = [0x00, 0x00, 0x00, 0x01, 0x67, 0x64, 0x00, 0x14, 0xAC, 0x2C, 0xA8, 0x0A,
     0x02, 0xF7, 0x96, 0x6E, 0x02, 0x02, 0x02, 0x04]"

definition SPS4_2_640X360_TI :: "byte list" where
  "SPS4_2_640X360_TI = [0x00, 0x00, 0x00, 0x01, 0x67, 0x64, 0x00, 0x14, 0xAC, 0x2C, 0xA8, 0x0A,
     0x02, 0xF7, 0x96, 0x6E, 0x02, 0x02, 0x02, 0x80, 0x00, 0x00, 0xFA, 0x00,
     0x00, 0x27, 0x10, 0x42]"

definition SPS4_2_1920X1080 :: "byte list" where
  "SPS4_2_1920X1080 = [0x00, 0x00, 0x00, 0x01, 0x67, 0x64, 0x00, 0x20, 0xAC, 0x2C, 0xA8, 0x07,
     0x80, 0x22, 0x5E, 0x59, 0xB8, 0x08, 0x08, 0x08, 0x10]"

definition SPS4_2_1920X1080_TI :: "byte list" where
  "SPS4_2_1920X1080_TI = [0x00, 0x00, 0x00, 0x01, 0x67, 0x64, 0x00, 0x20, 0xAC, 0x2C, 0xA8, 0x07,
     0x80, 0x22, 0x5E, 0x59, 0xB8, 0x08, 0x08, 0x0A, 0x00, 0x00, 0x03, 0x03,
     0xE8, 0x00, 0x00, 0x9C, 0x41, 0x08]"

definition SPS4_2_2304X1296 :: "byte list" where
  "SPS4_2_2304X1296 = [0x00, 0x00, 0x00, 0x01, 0x67, 0x64, 0x00, 0x20, 0xAC, 0x2C, 0xA8, 0x02,
     0x40, 0x0A, 0x32, 0x6E, 0x02, 0x02, 0x02, 0x04]"

definition SPS4_2_2304X1296_TI :: "byte list" where
  "SPS4_2_2304X1296_TI = [0x00, 0x00, 0x00, 0x01, 0x67, 0x64, 0x00, 0x20, 0xAC, 0x2C, 0xA8, 0x02,
     0x40, 0x0A, 0x32, 0x6E, 0x02, 0x02, 0x02, 0x80, 0x00, 0x00, 0xFA, 0x00,
     0x00, 0x27, 0x10, 0x42]"

definition SPS4_3_640X360 :: "byte list" where
  "SPS4_3_640X360 = [0x00, 0x00, 0x00, 0x01, 0x67, 0x64, 0x00, 0x14, 0xAC, 0x2C, 0xA8, 0x0A,
     0x02, 0xF7, 0x96, 0x6A, 0x02, 0x02, 0x02, 0x04]"

definition SPS4_3_640X360_TI :: "byte list" where
  "SPS4_3_640X360_TI = [0x00, 0x00, 0x00, 0x01, 0x67, 0x64, 0x00, 0x14, 0xAC, 0x2C, 0xA8, 0x0A,
     0x02, 0xF7, 0x96, 0x6A, 0x02, 0x02, 0x02, 0x80, 0x00, 0x00, 0xFA, 0x00,
     0x00, 0x27, 0x10, 0x42]"

definition SPS4_3_1920X1080 :: "byte list" where
  "SPS4_3_1920X1080 = [0x00, 0x00, 0x00, 0x01, 0x67, 0x64, 0x00, 0x20, 0xAC, 0x2C, 0xA8, 0x07,
     0x80, 0x22, 0x5E, 0x59, 0xA8, 0x08, 0x08, 0x08, 0x10]"

definition SPS4_3_1920X1080_TI :: "byte list" where
  "SPS4_3_1920X1080_TI = [0x00, 0x00, 0x00, 0x01, 0x67, 0x64, 0x00, 0x20, 0xAC, 0x2C, 0xA8, 0x07,
     0x80, 0x22, 0x5E, 0x59, 0xA8, 0x08, 0x08, 0x0A, 0x00, 0x00, 0x03, 0x03,
     0xE8, 0x00, 0x00, 0x9C, 0x41, 0x08]"

definition SPS4_3_2304X1296 :: "byte list" where
  "SPS4_3_2304X1296 = [0x00, 0x00, 0x00, 0x01, 0x67, 0x64, 0x00, 0x20, 0xAC, 0x2C, 0xA8, 0x02,
     0x40, 0x0A, 0x32, 0x6A, 0x02, 0x02, 0x02, 0x04]"

definition SPS4_3_2304X1296_TI :: "byte list" where
  "SPS4_3_2304X1296_TI = [0x00, 0x00, 0x00, 0x01, 0x67, 0x64, 0x00, 0x20, 0xAC, 0x2C, 0xA8, 0x02,
     0x40, 0x0A, 0x32, 0x6A, 0x02, 0x02, 0x02, 0x80, 0x00, 0x00, 0xFA, 0x00,
     0x00, 0x27, 0x10, 0x42]"

definition SPS5_1920X1080 :: "byte list" where
  "SPS5_1920X1080 = [0x00, 0x00, 0x00, 0x01, 0x42, 0x01, 0x01, 0x01, 0x60, 0x00, 0x00, 0x03,
     0x00, 0x00, 0x03, 0x00, 0x00, 0x03, 0x00, 0x00, 0x03, 0x00, 0x7B, 0xA0,
     0x03, 0xC0, 0x80, 0x10, 0xE7, 0xF9, 0x6B, 0xB9, 0x12, 0x20, 0xB2, 0xFC,
     0xF3, 0xCF, 0x3C, 0xF3, 0xCF, 0x3C, 0xF3, 0xCF, 0x3C, 0xF3, 0xCF, 0x3C,
     0xF3, 0xCB, 0x73, 0x70, 0x10, 0x10, 0x10, 0x08]"

definition SPS5_2_1920X1080 :: "byte list" where
  "SPS5_2_1920X1080 = [0x00, 0x00, 0x00, 0x01, 0x42, 0x01, 0x01, 0x01, 0x60, 0x00, 0x00, 0x03,
     0x00, 0x00, 0x03, 0x00, 0x00, 0x03, 0x00, 0x00, 0x03, 0x00, 0xBA, 0xA0,
     0x03, 0xC0, 0x80, 0x10, 0xE7, 0xF9, 0x6B, 0xB9, 0x12, 0x20, 0xB2, 0xFC,
     0xF3, 0xCF, 0x3C, 0xF3, 0xCF, 0x3C, 0xF3, 0xCF, 0x3C, 0xF3, 0xCF, 0x3C,
     0xF3, 0xCB, 0x73, 0x70, 0x10, 0x10, 0x10, 0x08]"

definition SPS5_3_2304X1296 :: "byte list" where
  "SPS5_3_2304X1296 = [0x00, 0x00, 0x00, 0x01, 0x42, 0x01, 0x01, 0x01, 0x60, 0x00, 0x00, 0x03,
     0x00, 0x00, 0x03, 0x00, 0x00, 0x03, 0x00, 0x00, 0x03, 0x00, 0xBA, 0xA0,
     0x01, 0x20, 0x20, 0x05, 0x11, 0xFE, 0x5A, 0xEE, 0x44, 0x88, 0x8B, 0xF2,
     0xDC, 0xD4, 0x04, 0x04, 0x04, 0x02]"

definition VPS5_1920X1080 :: "byte list" where
  "VPS5_1920X1080 = [0x00, 0x00, 0x00, 0x01, 0x40, 0x01, 0x0C, 0x01, 0xFF, 0xFF, 0x01, 0x60,
     0x00, 0x00, 0x03, 0x00, 0x00, 0x03, 0x00, 0x00, 0x03, 0x00, 0x00, 0x03,
     0x00, 0x7B, 0xAC, 0x09]"

definition VPS5_1920X1080_TI :: "byte list" where
  "VPS5_1920X1080_TI = [0x00, 0x00, 0x00, 0x01, 0x40, 0x01, 0x0C, 0x01, 0xFF, 0xFF, 0x01, 0x60,
     0x00, 0x00, 0x03, 0x00, 0x00, 0x03, 0x00, 0x00, 0x03, 0x00, 0x00, 0x03,
     0x00, 0x7B, 0xAC, 0x0C, 0x00, 0x00, 0x07, 0xD0, 0x00, 0x01, 0x38, 0x81,
     0x40]"

definition VPS5_2_1920X1080 :: "byte list" where
  "VPS5_2_1920X1080 = [0x00, 0x00, 0x00, 0x01, 0x40, 0x01, 0x0C, 0x01, 0xFF, 0xFF, 0x01, 0x60,
     0x00, 0x00, 0x03, 0x00, 0x00, 0x03, 0x00, 0x00, 0x03, 0x00, 0x00, 0x03,
     0x00, 0xBA, 0xAC, 0x09]"

definition VPS5_2_1920X1080_TI :: "byte list" where
  "VPS5_2_1920X1080_TI = [0x00, 0x00, 0x00, 0x01, 0x40, 0x01, 0x0C, 0x01, 0xFF, 0xFF, 0x01, 0x60,
     0x00, 0x00, 0x03, 0x00, 0x00, 0x03, 0x00, 0x00, 0x03, 0x00, 0x00, 0x03,
     0x00, 0xBA, 0xAC, 0x0C, 0x00, 0x00, 0x07, 0xD0, 0x00, 0x01, 0x38, 0x81,
     0x40]"

definition VPS5_3_2304X1296 :: "byte list" where
  "VPS5_3_2304X1296 = [0x00, 0x00, 0x00, 0x01, 0x40, 0x01, 0x0C, 0x01, 0xFF, 0xFF, 0x01, 0x60,
     0x00, 0x00, 0x03, 0x00, 0x00, 0x03, 0x00, 0x00, 0x03, 0x00, 0x00, 0x03,
     0x00, 0xBA, 0xAC, 0x09]"

definition VPS5_3_2304X1296_TI :: "byte list" where
  "VPS5_3_2304X1296_TI = [0x00, 0x00, 0x00, 0x01, 0x40, 0x01, 0x0C, 0x01, 0xFF, 0xFF, 0x01, 0x60,
     0x00, 0x00, 0x03, 0x00, 0x00, 0x03, 0x00, 0x00, 0x03, 0x00, 0x00, 0x03,
     0x00, 0xBA, 0xAC, 0x0C, 0x00, 0x00, 0x07, 0xD0, 0x00, 0x01, 0x38, 0x81,
     0x40]"

lemmas sps_defs = IDR4_def NALx_START_def IDR4_START_def IDR5_START_def PFR4_START_def
  PFR5_START_def SPS4_START_def SPS5_START_def PPS4_START_def PPS5_START_def
  VPS5_START_def PPS4_HEADER_def SPS4_640X360_def SPS4_640X360_TI_def SPS4_1920X1080_def
  SPS4_1920X1080_TI_def SPS4_2304X1296_def SPS4_2304X1296_TI_def SPS4_2_640X360_def SPS4_2_640X360_TI_def
  SPS4_2_1920X1080_def SPS4_2_1920X1080_TI_def SPS4_2_2304X1296_def SPS4_2_2304X1296_TI_def SPS4_3_640X360_def
  SPS4_3_640X360_TI_def SPS4_3_1920X1080_def SPS4_3_1920X1080_TI_def SPS4_3_2304X1296_def SPS4_3_2304X1296_TI_def
  SPS5_1920X1080_def SPS5_2_1920X1080_def SPS5_3_2304X1296_def VPS5_1920X1080_def VPS5_1920X1080_TI_def
  VPS5_2_1920X1080_def VPS5_2_1920X1080_TI_def VPS5_3_2304X1296_def VPS5_3_2304X1296_TI_def

end
