(* ===== verification/H264_Grabber.thy ===== *)
theory H264_Grabber
  imports Frame_Ring Sps_Tables
begin

text \<open>
  The capture loop of \<open>src/h264grabber/h264grabber/h264grabber.c\<close>: one pass reads the control words
  of the ring, walks the frame headers from where the last pass stopped to the end of the data, leaves
  the last frame for the next pass, and sends the others to the stream they belong to.  The build has
  no semaphores, so the memory may change between any two reads: a pass gets the control words it
  read, and the mapping as it was at each header and at each frame.  The output is the frames written
  and the warnings about lost ones; the other log lines are not modelled.
\<close>

section \<open>Settings and state\<close>

datatype resolution = Res_none | Res_low | Res_high | Res_both
datatype out_stream = Out_low | Out_high | Out_aac
datatype frame_type = Type_none | Type_low | Type_high | Type_aac
datatype codec = Codec_none | Codec_h264 | Codec_h265

record grab_config =
  gc_ring :: frame_ring
  gc_header_size :: int
  gc_resolution :: resolution
  gc_audio :: bool
  gc_sps_timing :: bool
  gc_debug :: bool

record stream_type_s =
  st_codec_low :: codec
  st_codec_high :: codec
  st_sps_type_low :: int
  st_sps_type_high :: int
  st_vps_type_low :: int
  st_vps_type_high :: int

definition stream_type_init :: stream_type_s where
  "stream_type_init = \<lparr>st_codec_low = Codec_none, st_codec_high = Codec_none, st_sps_type_low = 0,
     st_sps_type_high = 0, st_vps_type_low = 0, st_vps_type_high = 0\<rparr>"

text \<open>The locals of \<open>main\<close> that live through the loop, the array \<open>fhs\<close> and the global \<open>stream_type\<close>.\<close>

record grabber =
  gr_end_prev :: int
  gr_last_counter :: u32
  gr_last_low :: int
  gr_last_high :: int
  gr_last_audio :: int
  gr_fhs :: "frame_header list"
  gr_stream :: stream_type_s

datatype grab_event =
    Frame_out out_stream "byte list"
  | Frames_lost u32
  | Stream_lost frame_type int

section \<open>What a frame is\<close>

definition frame_type_of :: "frame_header \<Rightarrow> frame_type" where
  "frame_type_of h =
     (if fh_type h AND 0x0800 \<noteq> 0 then Type_low
      else if fh_type h AND 0x0400 \<noteq> 0 then Type_high
      else if fh_type h AND 0x0100 \<noteq> 0 then Type_aac
      else Type_none)"

definition wants_low :: "grab_config \<Rightarrow> bool" where
  "wants_low c \<longleftrightarrow> gc_resolution c = Res_low \<or> gc_resolution c = Res_both"

definition wants_high :: "grab_config \<Rightarrow> bool" where
  "wants_high c \<longleftrightarrow> gc_resolution c = Res_high \<or> gc_resolution c = Res_both"

definition is_sps :: "frame_header \<Rightarrow> bool" where
  "is_sps h \<longleftrightarrow> fh_type h AND 0x0002 \<noteq> 0"

text \<open>The tables of the known parameter sets, in the order they are compared.\<close>

definition low_patterns :: "(byte list \<times> codec \<times> int) list" where
  "low_patterns =
     [(SPS4_640X360, Codec_h264, 0x0101), (SPS4_2_640X360, Codec_h264, 0x0201),
      (SPS4_3_640X360, Codec_h264, 0x0401), (SPS4_START, Codec_h264, 0), (SPS5_START, Codec_h265, 0)]"

definition high_patterns :: "(byte list \<times> codec \<times> int) list" where
  "high_patterns =
     [(SPS4_1920X1080, Codec_h264, 0x0102), (SPS4_2304X1296, Codec_h264, 0x0103),
      (SPS4_2_1920X1080, Codec_h264, 0x0202), (SPS4_2_2304X1296, Codec_h264, 0x0203),
      (SPS4_3_1920X1080, Codec_h264, 0x0402), (SPS4_3_2304X1296, Codec_h264, 0x0403),
      (SPS5_1920X1080, Codec_h265, 0x0802), (SPS5_2_1920X1080, Codec_h265, 0x1002),
      (SPS5_3_2304X1296, Codec_h265, 0x2003), (SPS4_START, Codec_h264, 0), (SPS5_START, Codec_h265, 0)]"

fun match_pattern ::
  "frame_ring \<Rightarrow> byte list \<Rightarrow> int \<Rightarrow> (byte list \<times> codec \<times> int) list \<Rightarrow> (codec \<times> int) option option" where
  "match_pattern r mem p [] = Some None"
| "match_pattern r mem p ((s, found) # rest) = do {
     d \<leftarrow> cb_memcmp r mem s p;
     if d = 0 then Some (Some found) else match_pattern r mem p rest
   }"

definition detect_stream ::
  "frame_ring \<Rightarrow> byte list \<Rightarrow> int \<Rightarrow> frame_header \<Rightarrow> stream_type_s \<Rightarrow> stream_type_s option" where
  "detect_stream r mem p h st =
     (if st_codec_low st = Codec_none \<and> fh_type h AND 0x0800 \<noteq> 0 then do {
        m \<leftarrow> match_pattern r mem p low_patterns;
        Some (case m of None \<Rightarrow> st | Some (c, t) \<Rightarrow> st\<lparr>st_codec_low := c, st_sps_type_low := t\<rparr>)
      }
      else if st_codec_high st = Codec_none \<and> fh_type h AND 0x0400 \<noteq> 0 then do {
        m \<leftarrow> match_pattern r mem p high_patterns;
        Some (case m of None \<Rightarrow> st | Some (c, t) \<Rightarrow> st\<lparr>st_codec_high := c, st_sps_type_high := t\<rparr>)
      }
      else Some st)"

section \<open>Sending a frame\<close>

definition counter_gap :: "int \<Rightarrow> int \<Rightarrow> int" where
  "counter_gap n last_valid = (65536 + n - last_valid) mod 65536"

definition lost_warning :: "grab_config \<Rightarrow> frame_type \<Rightarrow> int \<Rightarrow> int \<Rightarrow> grab_event list" where
  "lost_warning c ft n last_valid =
     (if counter_gap n last_valid > 1 \<and> gc_debug c
      then [Stream_lost ft ((65536 + n - last_valid - 1) mod 65536)] else [])"

text \<open>
  The counters of the selected streams follow; a frame of a stream that is not selected is not
  written (the flag).
\<close>

definition count_frame :: "grab_config \<Rightarrow> frame_header \<Rightarrow> grabber \<Rightarrow> grabber \<times> grab_event list \<times> bool" where
  "count_frame c h g =
     (let n = int (unat (fh_stream_counter h)); ft = frame_type_of h
      in if ft = Type_low \<and> wants_low c then (g\<lparr>gr_last_low := n\<rparr>, lost_warning c ft n (gr_last_low g), True)
         else if ft = Type_high \<and> wants_high c then (g\<lparr>gr_last_high := n\<rparr>, lost_warning c ft n (gr_last_high g), True)
         else if ft = Type_aac \<and> gc_audio c then (g\<lparr>gr_last_audio := n\<rparr>, lost_warning c ft n (gr_last_audio g), True)
         else (g, [], False))"

definition out_for :: "grab_config \<Rightarrow> stream_type_s \<Rightarrow> frame_type \<Rightarrow> out_stream option" where
  "out_for c st ft =
     (if ft = Type_low \<and> wants_low c \<and> st_codec_low st \<noteq> Codec_none then Some Out_low
      else if ft = Type_high \<and> wants_high c \<and> st_codec_high st \<noteq> Codec_none then Some Out_high
      else if ft = Type_aac \<and> gc_audio c then Some Out_aac
      else None)"

definition timed_sps_low :: "int \<Rightarrow> byte list option" where
  "timed_sps_low t =
     (if t AND 0x0101 \<noteq> 0 then Some SPS4_640X360_TI
      else if t AND 0x0201 \<noteq> 0 then Some SPS4_2_640X360_TI
      else if t AND 0x0401 \<noteq> 0 then Some SPS4_3_640X360_TI
      else None)"

definition timed_sps_high :: "int \<Rightarrow> byte list option" where
  "timed_sps_high t =
     (if t = 0x0102 then Some SPS4_1920X1080_TI
      else if t = 0x0202 then Some SPS4_2_1920X1080_TI
      else if t = 0x0402 then Some SPS4_3_1920X1080_TI
      else if t = 0x0103 then Some SPS4_2304X1296_TI
      else if t = 0x0203 then Some SPS4_2_2304X1296_TI
      else if t = 0x0403 then Some SPS4_3_2304X1296_TI
      else None)"

definition timed_sps :: "grab_config \<Rightarrow> stream_type_s \<Rightarrow> frame_header \<Rightarrow> byte list option" where
  "timed_sps c st h =
     (if gc_sps_timing c \<and> is_sps h
      then (case frame_type_of h of
              Type_low \<Rightarrow> timed_sps_low (st_sps_type_low st)
            | Type_high \<Rightarrow> timed_sps_high (st_sps_type_high st)
            | _ \<Rightarrow> None)
      else None)"

text \<open>
  The bytes written: a parameter set with timing information in place of one that was recognised,
  otherwise the frame, in two pieces when it goes over the end of the ring.
\<close>

definition frame_bytes ::
  "grab_config \<Rightarrow> stream_type_s \<Rightarrow> byte list \<Rightarrow> frame_header \<Rightarrow> int \<Rightarrow> int \<Rightarrow> byte list option" where
  "frame_bytes c st mem h start len =
     (case timed_sps c st h of
        Some s \<Rightarrow> Some s
      | None \<Rightarrow> cb2s_memcpy (gc_ring c) mem start len)"

definition send_frame ::
  "grab_config \<Rightarrow> byte list \<Rightarrow> frame_header \<times> int \<Rightarrow> grabber \<Rightarrow> (grabber \<times> grab_event list) option" where
  "send_frame c mem hp g =
     (let (h, p) = hp; r = gc_ring c;
          start = cb_move r p (if is_sps h then gc_header_size c + 6 else gc_header_size c);
          len = (if is_sps h then sint (fh_len h) - 6 else sint (fh_len h))
      in do {
        st \<leftarrow> (if is_sps h then detect_stream r mem start h (gr_stream g) else Some (gr_stream g));
        let (g', lost, write_enable) = count_frame c h (g\<lparr>gr_stream := st\<rparr>);
        case (if write_enable then out_for c st (frame_type_of h) else None) of
          None \<Rightarrow> Some (g', lost)
        | Some out \<Rightarrow>
            if len > 0 then do {
              bytes \<leftarrow> frame_bytes c st mem h start len;
              Some (g', lost @ [Frame_out out bytes])
            }
            else Some (g', lost)
      })"

fun send_frames ::
  "grab_config \<Rightarrow> (nat \<Rightarrow> byte list) \<Rightarrow> (frame_header \<times> int) list \<Rightarrow> grabber \<Rightarrow> (grabber \<times> grab_event list) option" where
  "send_frames c mems [] g = Some (g, [])"
| "send_frames c mems (hp # hps) g = do {
     (g1, out1) \<leftarrow> send_frame c (mems 0) hp g;
     (g2, out2) \<leftarrow> send_frames c (mems \<circ> Suc) hps g1;
     Some (g2, out1 @ out2)
   }"

section \<open>A pass\<close>

text \<open>
  The walk over the headers: \<open>left\<close> is the number of free places of \<open>fhs\<close>, at most ten.  The result
  has whether the frames are in step, the headers with their positions, and the array.
\<close>

definition header_too_long :: "grab_config \<Rightarrow> frame_header \<Rightarrow> bool" where
  "header_too_long c h \<longleftrightarrow> fh_len h > word_of_int (fr_span (gc_ring c) - gc_header_size c)"

definition after_frame :: "grab_config \<Rightarrow> frame_header \<Rightarrow> int \<Rightarrow> int" where
  "after_frame c h p = cb_move (gc_ring c) p (sint (fh_len h + word_of_int (gc_header_size c)))"

fun grab_walk ::
  "nat \<Rightarrow> grab_config \<Rightarrow> (nat \<Rightarrow> byte list) \<Rightarrow> int \<Rightarrow> int \<Rightarrow> frame_header list \<Rightarrow>
   (bool \<times> (frame_header \<times> int) list \<times> frame_header list) option" where
  "grab_walk left c mems cur until fhs =
     (if cur = until then Some (True, [], fhs)
      else case left of
        0 \<Rightarrow> Some (False, [], fhs)
      | Suc left' \<Rightarrow> do {
          h \<leftarrow> cb2s_headercpy (gc_ring c) (mems 0) (fhs ! (10 - left)) cur (gc_header_size c);
          let fhs' = fhs[10 - left := h];
          if header_too_long c h then Some (False, [], fhs')
          else if left' = 0 then Some (False, [(h, cur)], fhs')
          else do {
            (sync, hps, fhs'') \<leftarrow> grab_walk left' c (mems \<circ> Suc) (after_frame c h cur) until fhs';
            Some (sync, (h, cur) # hps, fhs'')
          }
        })"

declare grab_walk.simps [simp del]

record grab_view =
  gv_start :: int
  gv_used :: int
  gv_finish :: int
  gv_headers :: "nat \<Rightarrow> byte list"
  gv_frames :: "nat \<Rightarrow> byte list"

definition data_end :: "grab_config \<Rightarrow> grab_view \<Rightarrow> int" where
  "data_end c v =
     (let e = fr_offset (gc_ring c) + gv_start v + gv_used v
      in if e \<ge> fr_size (gc_ring c) then e - fr_span (gc_ring c) else e)"

text \<open>One turn of the loop: the state, the output and the microseconds it sleeps.\<close>

definition grab_pass :: "grab_config \<Rightarrow> grab_view \<Rightarrow> grabber \<Rightarrow> (grabber \<times> grab_event list \<times> nat) option" where
  "grab_pass c v g =
     (let until = data_end c v
      in if until \<noteq> fr_offset (gc_ring c) + gv_finish v then Some (g, [], 1000)
         else if until = gr_end_prev g then Some (g, [], 10000)
         else do {
           (sync, hps, fhs) \<leftarrow> grab_walk 10 c (gv_headers v) (gr_end_prev g) until (gr_fhs g);
           let g = g\<lparr>gr_fhs := fhs\<rparr>;
           if \<not> sync then Some (g\<lparr>gr_end_prev := until\<rparr>, [], 10000)
           else if length hps \<le> 1 then Some (g, [], 10000)
           else do {
             let frames = butlast hps;
             let lost = (if fh_counter (fst (hd frames)) \<noteq> gr_last_counter g + 1
                then [Frames_lost (fh_counter (fst (hd frames)) - (gr_last_counter g + 1))] else []);
             let g = g\<lparr>gr_end_prev := snd (last hps), gr_last_counter := fh_counter (fst (last frames))\<rparr>;
             (g', out) \<leftarrow> send_frames c (gv_frames v) frames g;
             Some (g', lost @ out, 25000)
           }
         })"

fun grab_passes :: "grab_config \<Rightarrow> grab_view list \<Rightarrow> grabber \<Rightarrow> (grabber \<times> grab_event list) option" where
  "grab_passes c [] g = Some (g, [])"
| "grab_passes c (v # vs) g = do {
     (g1, out1, _) \<leftarrow> grab_pass c v g;
     (g2, out2) \<leftarrow> grab_passes c vs g1;
     Some (g2, out1 @ out2)
   }"

end
