(* ===== verification/H264_Delivery.thy ===== *)
theory H264_Delivery
  imports H264_Grabber
begin

text \<open>
  The capture loop of theory \<open>H264_Grabber\<close> against the stream of frames that the writer puts into the
  ring: the walk finds the frames, and passes that follow the stream send each of them once.
\<close>

section \<open>Frames of the stream\<close>

text \<open>
  The stream as the writer means it: frames, each with the bytes of its header and its data.  The
  pure counterpart of sending: \<open>peek\<close> is what the ring shows after the header, 56 bytes, as long as
  the longest pattern; the result is the stream type and the bytes written to an output.
\<close>

type_synonym raw_frame = "byte list \<times> byte list"

definition raw_header :: "grab_config \<Rightarrow> raw_frame \<Rightarrow> frame_header" where
  "raw_header c f = decode_header (gc_header_size c) (fst f)"

definition raw_bytes :: "raw_frame list \<Rightarrow> byte list" where
  "raw_bytes fs = concat (map (\<lambda>f. fst f @ snd f) fs)"

lemma raw_bytes_simps [simp]:
  "raw_bytes [] = []" "raw_bytes (f # fs) = fst f @ snd f @ raw_bytes fs"
  "raw_bytes (fs @ fs') = raw_bytes fs @ raw_bytes fs'"
  by (simp_all add: raw_bytes_def)

definition frame_ok :: "grab_config \<Rightarrow> raw_frame \<Rightarrow> bool" where
  "frame_ok c f \<longleftrightarrow> int (length (fst f)) = gc_header_size c \<and>
     unat (fh_len (raw_header c f)) = length (snd f) \<and>
     gc_header_size c + int (length (snd f)) \<le> fr_span (gc_ring c)"

definition config_ok :: "grab_config \<Rightarrow> bool" where
  "config_ok c \<longleftrightarrow> known_header_size (gc_header_size c) \<and> 0 \<le> fr_offset (gc_ring c) \<and>
     100 \<le> fr_span (gc_ring c) \<and> fr_span (gc_ring c) < 2 ^ 30"

definition frame_data :: "grab_config \<Rightarrow> raw_frame \<Rightarrow> byte list" where
  "frame_data c f = (if is_sps (raw_header c f) then drop 6 (snd f) else snd f)"

fun match_peek :: "byte list \<Rightarrow> (byte list \<times> codec \<times> int) list \<Rightarrow> (codec \<times> int) option" where
  "match_peek peek [] = None"
| "match_peek peek ((s, found) # rest) = (if has_prefix s peek then Some found else match_peek peek rest)"

definition detect_peek :: "byte list \<Rightarrow> frame_header \<Rightarrow> stream_type_s \<Rightarrow> stream_type_s" where
  "detect_peek peek h st =
     (if st_codec_low st = Codec_none \<and> fh_type h AND 0x0800 \<noteq> 0 then
        (case match_peek peek low_patterns of
           None \<Rightarrow> st | Some (c, t) \<Rightarrow> st\<lparr>st_codec_low := c, st_sps_type_low := t\<rparr>)
      else if st_codec_high st = Codec_none \<and> fh_type h AND 0x0400 \<noteq> 0 then
        (case match_peek peek high_patterns of
           None \<Rightarrow> st | Some (c, t) \<Rightarrow> st\<lparr>st_codec_high := c, st_sps_type_high := t\<rparr>)
      else st)"

definition frame_writes ::
  "grab_config \<Rightarrow> raw_frame \<times> byte list \<Rightarrow> stream_type_s \<Rightarrow> stream_type_s \<times> (out_stream \<times> byte list) list" where
  "frame_writes c fp st =
     (let (f, peek) = fp; h = raw_header c f;
          st' = (if is_sps h then detect_peek peek h st else st)
      in (st', case out_for c st' (frame_type_of h) of
            None \<Rightarrow> []
          | Some out \<Rightarrow> if frame_data c f = [] then []
              else [(out, case timed_sps c st' h of Some s \<Rightarrow> s | None \<Rightarrow> frame_data c f)]))"

fun deliver ::
  "grab_config \<Rightarrow> (raw_frame \<times> byte list) list \<Rightarrow> stream_type_s \<Rightarrow> stream_type_s \<times> (out_stream \<times> byte list) list" where
  "deliver c [] st = (st, [])"
| "deliver c (fp # fps) st =
     (let (st1, ws1) = frame_writes c fp st; (st2, ws2) = deliver c fps st1 in (st2, ws1 @ ws2))"

lemma deliver_append:
  "deliver c (as @ bs) st =
     (let (st1, ws1) = deliver c as st; (st2, ws2) = deliver c bs st1 in (st2, ws1 @ ws2))"
  by (induction as arbitrary: st) (auto simp: Let_def split: prod.splits)

text \<open>What a pass wrote, without the warnings.\<close>

fun writes :: "grab_event list \<Rightarrow> (out_stream \<times> byte list) list" where
  "writes [] = []"
| "writes (Frame_out out bs # es) = (out, bs) # writes es"
| "writes (_ # es) = writes es"

lemma writes_append [simp]: "writes (as @ bs) = writes as @ writes bs"
  by (induction as rule: writes.induct) simp_all

lemma writes_warning [simp]: "writes (lost_warning c ft n m) = []"
  by (simp add: lost_warning_def)

section \<open>The routines on the frames\<close>

lemma config_ring: "config_ok c \<Longrightarrow> length mem = nat (fr_size (gc_ring c)) \<Longrightarrow> ring_ok (gc_ring c) mem"
  by (auto simp: config_ok_def ring_ok_def)

lemma config_header: "config_ok c \<Longrightarrow> 22 \<le> gc_header_size c \<and> gc_header_size c \<le> 28"
  by (auto simp: config_ok_def known_header_size_def)

lemma match_pattern_peek:
  assumes "cb2s_memcpy r mem p 56 = Some peek" "ring_ok r mem" "ring_time r p t" "56 \<le> fr_span r"
    "list_all (\<lambda>x. length (fst x) \<le> 56) tbl"
  shows "match_pattern r mem p tbl = Some (match_peek peek tbl)"
proof -
  let ?v = "\<lambda>n. map (\<lambda>k. mem ! ring_place r (t + k)) [0..<n]"
  have v: "cb2s_memcpy r mem p (int n) = Some (?v n)" if "n \<le> 56" for n
    using cb2s_memcpy_shows [OF assms(2,3), of "?v n"] that assms(4) by (simp add: shows_from_def)
  then have peek: "peek = ?v 56" using assms(1) v [of 56] by simp
  have c: "cb_memcmp r mem s p = Some (c_memcmp s (take (length s) peek))" if "length s \<le> 56" for s
    using cb_memcmp_copied [OF v [OF that]] that by (simp add: peek take_map)
  show ?thesis using assms(5)
  proof (induction tbl)
    case (Cons x tbl)
    obtain s f where x: "x = (s, f)" by (cases x)
    have "length (take (length s) peek) = length s" using Cons.prems by (simp add: x peek)
    then have "c_memcmp s (take (length s) peek) = 0 \<longleftrightarrow> has_prefix s peek"
      using c_memcmp_zero [of s "take (length s) peek"] by (auto simp: has_prefix_def)
    then show ?case using Cons c [of s] by (simp add: x)
  qed simp
qed

lemma patterns_short:
  "list_all (\<lambda>x. length (fst x) \<le> 56) low_patterns" "list_all (\<lambda>x. length (fst x) \<le> 56) high_patterns"
  by (simp_all add: low_patterns_def high_patterns_def sps_defs)

lemma detect_stream_peek:
  assumes "cb2s_memcpy r mem p 56 = Some peek" "ring_ok r mem" "ring_time r p t" "56 \<le> fr_span r"
  shows "detect_stream r mem p h st = Some (detect_peek peek h st)"
  using match_pattern_peek [OF assms patterns_short(1)] match_pattern_peek [OF assms patterns_short(2)]
  by (simp add: detect_stream_def detect_peek_def)

lemma count_frame_stream: "count_frame c h g = (g', es, w) \<Longrightarrow> gr_stream g' = gr_stream g \<and>
    gr_end_prev g' = gr_end_prev g \<and> gr_fhs g' = gr_fhs g \<and> writes es = [] \<and> (\<not> w \<longrightarrow> out_for c st (frame_type_of h) = None)"
  by (auto simp: count_frame_def out_for_def Let_def split: if_splits)

lemma sint_small: "unat (w :: u32) < 2 ^ 31 \<Longrightarrow> sint w = int (unat w)"
proof -
  assume "unat w < 2 ^ 31"
  then have "int (unat w) < int (2 ^ 31)" by (simp only: of_nat_less_iff)
  then have "uint w < 2 ^ 31" by simp
  then have "signed_take_bit 31 (uint w) = uint w" using uint_ge_0 [of w] by (intro signed_take_bit_int_eq_self) linarith+
  then show ?thesis by (simp add: sint_uint)
qed

lemma shows_sub:
  assumes "shows_from r mem t (a @ b)" "int (length (a @ b)) \<le> fr_span r" "ring_time r p (t + length a)" "ring_ok r mem"
  shows "cb2s_memcpy r mem p (int (length b)) = Some b"
  using assms by (intro cb2s_memcpy_shows [where t = "t + length a"]) simp_all

lemma send_frame_eq:
  assumes "(if is_sps h then detect_stream (gc_ring c) mem
      (cb_move (gc_ring c) p (if is_sps h then gc_header_size c + 6 else gc_header_size c)) h (gr_stream g)
      else Some (gr_stream g)) = Some st"
    "count_frame c h (g\<lparr>gr_stream := st\<rparr>) = (g1, es, w)"
  shows "send_frame c mem (h, p) g =
    (case if w then out_for c st (frame_type_of h) else None of
       None \<Rightarrow> Some (g1, es)
     | Some out \<Rightarrow>
         if (if is_sps h then sint (fh_len h) - 6 else sint (fh_len h)) > 0
         then Option.bind (frame_bytes c st mem h
                (cb_move (gc_ring c) p (if is_sps h then gc_header_size c + 6 else gc_header_size c))
                (if is_sps h then sint (fh_len h) - 6 else sint (fh_len h)))
              (\<lambda>bytes. Some (g1, es @ [Frame_out out bytes]))
         else Some (g1, es))"
  by (simp only: send_frame_def Let_def prod.case assms(1) bind.bind_lunit assms(2))

lemma case_guarded:
  assumes "D \<Longrightarrow> B = Some b" "P \<longleftrightarrow> D"
  shows "(case X of None \<Rightarrow> Some e | Some x \<Rightarrow> if P then Option.bind B (\<lambda>b. Some (F x b)) else Some e) =
    Some (case X of None \<Rightarrow> e | Some x \<Rightarrow> if \<not> D then e else F x b)"
  using assms by (simp split: option.split)

lemma send_frame_writes:
  assumes c: "config_ok c" "frame_ok c f" "length mem = nat (fr_size (gc_ring c))"
    and shown: "ring_time (gc_ring c) p t" "shows_from (gc_ring c) mem t (fst f @ snd f)"
  shows "\<exists>peek g' es. send_frame c mem (raw_header c f, p) g = Some (g', es) \<and> length peek = 56 \<and>
     take (min 56 (length (frame_data c f))) peek = take 56 (frame_data c f) \<and>
     frame_writes c (f, peek) (gr_stream g) = (gr_stream g', writes es) \<and> gr_end_prev g' = gr_end_prev g"
proof -
  let ?r = "gc_ring c" and ?h = "raw_header c f" and ?hs = "gc_header_size c"
  let ?skip = "if is_sps ?h then ?hs + 6 else ?hs"
  let ?start = "cb_move ?r p ?skip" and ?t = "t + nat ?skip"
  let ?len = "if is_sps ?h then sint (fh_len ?h) - 6 else sint (fh_len ?h)"
  let ?d = "frame_data c f"
  note r = config_ring [OF c(1,3)]
  have geo: "22 \<le> ?hs" "?hs \<le> 28" "100 \<le> fr_span ?r" "fr_span ?r < 2 ^ 30"
    using config_header [OF c(1)] c(1) by (simp_all add: config_ok_def)
  have time: "ring_time ?r ?start ?t"
  proof -
    have "0 \<le> ?skip" "?skip \<le> fr_span ?r" "fr_offset ?r < fr_size ?r" using geo by simp_all
    then show ?thesis using cb_move_time [OF _ shown(1), of "nat ?skip"] by (simp only: int_nat_eq if_True)
  qed
  have len: "sint (fh_len ?h) = int (length (snd f))"
    using c(2) geo by (subst sint_small) (simp_all add: frame_ok_def)
  then have len': "?len > 0 \<longleftrightarrow> ?d \<noteq> []" "?d \<noteq> [] \<Longrightarrow> ?len = int (length ?d)"
    by (auto simp: frame_data_def)
  let ?peek = "map (\<lambda>k. mem ! ring_place ?r (?t + k)) [0..<56]"
  have peek: "cb2s_memcpy ?r mem ?start 56 = Some ?peek"
    using cb2s_memcpy_shows [OF r time, of ?peek] geo by (simp add: shows_from_def)
  have shows_d: "shows_from ?r mem ?t ?d" if "?d \<noteq> []"
  proof -
    let ?n = "if is_sps ?h then 6 else 0 :: nat"
    have n: "nat ?skip = length (fst f) + ?n" using c(2) geo by (auto simp: frame_ok_def)
    have "fst f @ snd f = (fst f @ take ?n (snd f)) @ ?d" by (simp add: frame_data_def)
    moreover have "length (fst f @ take ?n (snd f)) = nat ?skip"
      using that by (auto simp: n frame_data_def)
    ultimately show ?thesis using shown(2) by (metis shows_from_append)
  qed
  have data: "cb2s_memcpy ?r mem ?start ?len = Some ?d" if "?d \<noteq> []"
  proof -
    have "int (length ?d) \<le> fr_span ?r" using c(2) geo by (auto simp: frame_data_def frame_ok_def)
    then show ?thesis using cb2s_memcpy_shows [OF r time shows_d [OF that]] len'(2) [OF that] by simp
  qed
  have agree: "take (min 56 (length ?d)) ?peek = take 56 ?d"
  proof (cases "?d = []")
    case False
    then show ?thesis using shows_d by (intro nth_equalityI) (auto simp: shows_from_def)
  qed simp
  have st: "(if is_sps ?h then detect_stream ?r mem ?start ?h (gr_stream g) else Some (gr_stream g)) =
      Some (if is_sps ?h then detect_peek ?peek ?h (gr_stream g) else gr_stream g)"
  proof -
    have "56 \<le> fr_span ?r" using geo by simp
    then show ?thesis by (simp only: detect_stream_peek [OF peek r time] if_distrib [of Some])
  qed
  obtain g1 es w where cf: "count_frame c ?h (g\<lparr>gr_stream := if is_sps ?h then detect_peek ?peek ?h (gr_stream g) else gr_stream g\<rparr>) = (g1, es, w)"
    by (metis prod_cases3)
  let ?st = "if is_sps ?h then detect_peek ?peek ?h (gr_stream g) else gr_stream g"
  have g1: "gr_stream g1 = ?st" "gr_end_prev g1 = gr_end_prev g" "writes es = []"
    "\<not> w \<Longrightarrow> out_for c ?st (frame_type_of ?h) = None"
    using count_frame_stream [OF cf] by simp_all
  let ?out = "if w then out_for c ?st (frame_type_of ?h) else None"
  have out: "?out = out_for c ?st (frame_type_of ?h)" using g1(4) by simp
  let ?es = "case ?out of None \<Rightarrow> es | Some out \<Rightarrow> if ?d = [] then es
      else es @ [Frame_out out (case timed_sps c ?st ?h of Some s \<Rightarrow> s | None \<Rightarrow> ?d)]"
  have bytes: "frame_bytes c ?st mem ?h ?start ?len =
      Some (case timed_sps c ?st ?h of Some s \<Rightarrow> s | None \<Rightarrow> ?d)" if "?d \<noteq> []"
    by (cases "timed_sps c ?st ?h") (simp_all only: frame_bytes_def data [OF that] option.case)
  have "send_frame c mem (?h, p) g = Some (case ?out of None \<Rightarrow> (g1, es) | Some out \<Rightarrow>
      if \<not> ?d \<noteq> [] then (g1, es)
      else (g1, es @ [Frame_out out (case timed_sps c ?st ?h of Some s \<Rightarrow> s | None \<Rightarrow> ?d)]))"
    unfolding send_frame_eq [OF st cf] by (rule case_guarded) (fact bytes, fact len')
  also have "\<dots> = Some (g1, ?es)"
    by (cases ?out) (simp_all only: option.case not_not if_distrib [of "Pair g1"])
  finally have "send_frame c mem (?h, p) g = Some (g1, ?es)" .
  moreover have "frame_writes c (f, ?peek) (gr_stream g) = (gr_stream g1, writes ?es)"
    using g1(1,3) by (simp add: frame_writes_def Let_def out split: option.splits)
  moreover have "length ?peek = 56" by simp
  ultimately show ?thesis using agree g1(2) by blast
qed

section \<open>The walk finds the frames\<close>

fun located :: "grab_config \<Rightarrow> nat \<Rightarrow> raw_frame list \<Rightarrow> (frame_header \<times> int) list \<Rightarrow> bool" where
  "located c t [] [] \<longleftrightarrow> True"
| "located c t (f # fs) ((h, p) # hps) \<longleftrightarrow> h = raw_header c f \<and> ring_time (gc_ring c) p t \<and>
     located c (t + length (fst f @ snd f)) fs hps"
| "located c t _ _ \<longleftrightarrow> False"

lemma located_length: "located c t fs hps \<Longrightarrow> length hps = length fs"
  by (induction c t fs hps rule: located.induct) simp_all

lemma located_butlast:
  "located c t fs hps \<Longrightarrow> fs \<noteq> [] \<Longrightarrow> located c t (butlast fs) (butlast hps) \<and>
     ring_time (gc_ring c) (snd (last hps)) (t + length (raw_bytes (butlast fs)))"
proof (induction c t fs hps rule: located.induct)
  case (2 c t f fs h p hps)
  show ?case
  proof (cases "fs = []")
    case True
    then show ?thesis using "2.prems" located_length [of c _ fs hps] by auto
  next
    case False
    then show ?thesis using 2 located_length [of c _ fs hps] by (auto simp: add.assoc)
  qed
qed simp_all

lemma ring_time_inner:
  assumes "ring_time r p t" "fr_offset r < fr_size r" "t mod nat (fr_span r) \<noteq> 0"
  shows "p = fr_offset r + int (t mod nat (fr_span r))"
proof -
  let ?w = "nat (fr_span r)" and ?q = "nat (p - fr_offset r)"
  have q: "?q mod ?w = t mod ?w" "?q \<le> ?w" "int ?q = p - fr_offset r"
    using assms(1,2) unfolding ring_time_def by arith+
  then have "?q \<noteq> ?w" using assms(3) by (metis mod_self)
  then have "?q < ?w" using q(2) by linarith
  then have "?q = t mod ?w" using q(1) by (simp only: mod_less)
  then show ?thesis using q(3) by simp
qed

lemma mod_less_turn: "0 < n \<Longrightarrow> n < w \<Longrightarrow> (t + n) mod w \<noteq> t mod w" for n w t :: nat
  using mod_eq_dvd_iff_nat [of t "t + n" w] by (auto dest: nat_dvd_not_less)

lemma ring_time_apart:
  assumes "ring_time r p t" "ring_time r q (t + n)" "0 < n" "int n < fr_span r"
  shows "p \<noteq> q"
proof -
  have "n < nat (fr_span r)" using assms(4) by simp
  then show ?thesis using mod_less_turn [OF assms(3), of "nat (fr_span r)" t] assms(1,2) by (auto simp: ring_time_def)
qed

lemma unat_word_of_int_small: "0 \<le> k \<Longrightarrow> k < 2 ^ 32 \<Longrightarrow> unat (word_of_int k :: u32) = nat k"
proof -
  assume "0 \<le> k" "k < 2 ^ 32"
  then have "uint (word_of_int k :: u32) = k" by (simp add: uint_word_of_int take_bit_int_eq_self)
  then show ?thesis by (metis nat_uint_eq)
qed

lemma frame_step:
  assumes "config_ok c" "frame_ok c f" "length mem = nat (fr_size (gc_ring c))"
    "ring_time (gc_ring c) p t" "shows_from (gc_ring c) mem t (fst f @ snd f)"
  shows "cb2s_headercpy (gc_ring c) mem dest p (gc_header_size c) = Some (raw_header c f)"
    "\<not> header_too_long c (raw_header c f)"
    "ring_time (gc_ring c) (after_frame c (raw_header c f) p) (t + length (fst f @ snd f))"
proof -
  note r = config_ring [OF assms(1,3)]
  have geo: "known_header_size (gc_header_size c)" "22 \<le> gc_header_size c" "gc_header_size c \<le> 28"
    "fr_span (gc_ring c) < 2 ^ 30" "fr_offset (gc_ring c) < fr_size (gc_ring c)" "100 \<le> fr_span (gc_ring c)"
    using config_header [OF assms(1)] assms(1) by (simp_all add: config_ok_def)
  have f: "int (length (fst f)) = gc_header_size c" "unat (fh_len (raw_header c f)) = length (snd f)"
    "gc_header_size c + int (length (snd f)) \<le> fr_span (gc_ring c)"
    using assms(2) by (simp_all add: frame_ok_def)
  show "cb2s_headercpy (gc_ring c) mem dest p (gc_header_size c) = Some (raw_header c f)"
    using cb2s_memcpy_shows [OF r assms(4), of "fst f"] assms(5) f geo
    by (simp add: cb2s_headercpy_def raw_header_def)
  let ?d = "fr_span (gc_ring c) - gc_header_size c"
  have "unat (word_of_int ?d :: u32) = nat ?d"
    using geo by (intro unat_word_of_int_small) simp_all
  then show "\<not> header_too_long c (raw_header c f)"
    using f by (simp add: header_too_long_def word_less_nat_alt not_less)
  let ?s = "fh_len (raw_header c f) + word_of_int (gc_header_size c)"
  have hs: "unat (word_of_int (gc_header_size c) :: u32) = nat (gc_header_size c)"
    using geo by (intro unat_word_of_int_small) simp_all
  have u: "unat ?s = length (fst f @ snd f)"
    using f geo hs by (subst unat_word_ariths) simp
  then have "sint ?s = int (length (fst f @ snd f))" using f geo by (subst sint_small) simp_all
  then show "ring_time (gc_ring c) (after_frame c (raw_header c f) p) (t + length (fst f @ snd f))"
    using cb_move_time [OF geo(5) assms(4), of "length (fst f @ snd f)"] f by (simp add: after_frame_def)
qed

lemma grab_walk_frames:
  assumes "config_ok c" "list_all (frame_ok c) fs" "length fs < left"
    "\<forall>k. length (mems k) = nat (fr_size (gc_ring c)) \<and> shows_from (gc_ring c) (mems k) t (raw_bytes fs)"
    "ring_time (gc_ring c) cur t" "int (length (raw_bytes fs)) < fr_span (gc_ring c)"
    "ring_time (gc_ring c) until (t + length (raw_bytes fs))"
    "(t + length (raw_bytes fs)) mod nat (fr_span (gc_ring c)) \<noteq> 0"
  shows "\<exists>hps fhs'. grab_walk left c mems cur until fhs = Some (True, hps, fhs') \<and> located c t fs hps"
  using assms(2-)
proof (induction fs arbitrary: left mems cur t fhs)
  case Nil
  have "fr_offset (gc_ring c) < fr_size (gc_ring c)" using assms(1) by (simp add: config_ok_def)
  then have "cur = until"
    using Nil ring_time_inner [of "gc_ring c" cur t] ring_time_inner [of "gc_ring c" until t] by simp
  then show ?case by (subst grab_walk.simps) simp
next
  case (Cons f fs)
  obtain left' where left: "left = Suc left'" "left' \<noteq> 0" using Cons.prems(2) by (cases left) auto
  have m0: "length (mems 0) = nat (fr_size (gc_ring c))" "shows_from (gc_ring c) (mems 0) t (fst f @ snd f)"
    using Cons.prems(3) by simp_all
  have f: "frame_ok c f" using Cons.prems(1) by simp
  note step = frame_step [OF assms(1) f m0(1) Cons.prems(4) m0(2)]
  have "0 < length (fst f)" using f config_header [OF assms(1)] by (cases "fst f") (simp_all add: frame_ok_def)
  then have ne: "cur \<noteq> until"
    using ring_time_apart [OF Cons.prems(4,6) _ Cons.prems(5)] by simp
  have "\<exists>hps fhs'. grab_walk left' c (mems \<circ> Suc) (after_frame c (raw_header c f) cur) until
      (fhs[10 - left := raw_header c f]) = Some (True, hps, fhs') \<and> located c (t + length (fst f @ snd f)) fs hps"
    using Cons.prems left step(3) by (intro Cons.IH) (simp_all add: add.assoc)
  then obtain hps fhs' where IH: "grab_walk left' c (mems \<circ> Suc) (after_frame c (raw_header c f) cur) until
      (fhs[10 - left := raw_header c f]) = Some (True, hps, fhs')" "located c (t + length (fst f @ snd f)) fs hps"
    by blast
  have "grab_walk left c mems cur until fhs = Some (True, (raw_header c f, cur) # hps, fhs')"
    using ne step(1,2) IH(1) left by (subst grab_walk.simps) simp
  then show ?case using IH(2) Cons.prems(4) by (intro exI conjI) (assumption, simp)
qed

section \<open>Passes\<close>

definition peek_ok :: "grab_config \<Rightarrow> raw_frame \<times> byte list \<Rightarrow> bool" where
  "peek_ok c fp \<longleftrightarrow> length (snd fp) = 56 \<and>
     take (min 56 (length (frame_data c (fst fp)))) (snd fp) = take 56 (frame_data c (fst fp))"

lemma send_frames_deliver:
  assumes "config_ok c" "list_all (frame_ok c) fs" "located c t fs hps"
    "\<forall>k. length (mems k) = nat (fr_size (gc_ring c)) \<and> shows_from (gc_ring c) (mems k) t (raw_bytes fs)"
  shows "\<exists>fps g' es. send_frames c mems hps g = Some (g', es) \<and> map fst fps = fs \<and> list_all (peek_ok c) fps \<and>
     deliver c fps (gr_stream g) = (gr_stream g', writes es) \<and> gr_end_prev g' = gr_end_prev g"
  using assms(2-)
proof (induction fs arbitrary: hps t mems g)
  case Nil
  then show ?case by (cases hps) (auto intro: exI [of _ "[]"])
next
  case (Cons f fs)
  obtain h p hps' where hps: "hps = (h, p) # hps'" "h = raw_header c f" "ring_time (gc_ring c) p t"
    "located c (t + length (fst f @ snd f)) fs hps'"
    using Cons.prems(2) by (cases hps) (auto split: prod.splits)
  have m0: "frame_ok c f" "length (mems 0) = nat (fr_size (gc_ring c))" "shows_from (gc_ring c) (mems 0) t (fst f @ snd f)"
    using Cons.prems(1,3) by simp_all
  obtain peek g1 es1 where s1: "send_frame c (mems 0) (h, p) g = Some (g1, es1)" "peek_ok c (f, peek)"
    "frame_writes c (f, peek) (gr_stream g) = (gr_stream g1, writes es1)" "gr_end_prev g1 = gr_end_prev g"
    using send_frame_writes [OF assms(1) m0(1,2) hps(3) m0(3), of g] hps(2) by (auto simp: peek_ok_def)
  have "\<exists>fps g2 es2. send_frames c (mems \<circ> Suc) hps' g1 = Some (g2, es2) \<and> map fst fps = fs \<and> list_all (peek_ok c) fps \<and>
      deliver c fps (gr_stream g1) = (gr_stream g2, writes es2) \<and> gr_end_prev g2 = gr_end_prev g1"
    using Cons.prems(1,3) hps(4) by (intro Cons.IH) (auto simp: add.assoc)
  then obtain fps g2 es2 where s2: "send_frames c (mems \<circ> Suc) hps' g1 = Some (g2, es2)" "map fst fps = fs"
    "list_all (peek_ok c) fps" "deliver c fps (gr_stream g1) = (gr_stream g2, writes es2)" "gr_end_prev g2 = gr_end_prev g1"
    by blast
  show ?case using s1 s2 by (intro exI [of _ "(f, peek) # fps"] exI [of _ g2] exI [of _ "es1 @ es2"]) (simp add: hps(1))
qed

text \<open>
  A pass is shown the frames \<open>fs\<close> from time \<open>t\<close> on: they fill less than a turn and are in the memory
  at each of its reads, and the control words say where they end, which is not the end of the ring.
\<close>

definition view_shows :: "grab_config \<Rightarrow> nat \<Rightarrow> raw_frame list \<Rightarrow> grab_view \<Rightarrow> bool" where
  "view_shows c t fs v \<longleftrightarrow>
     (let w = nat (fr_span (gc_ring c)); e = t + length (raw_bytes fs)
      in list_all (frame_ok c) fs \<and> length (raw_bytes fs) < w \<and>
         (\<forall>k. length (gv_headers v k) = nat (fr_size (gc_ring c)) \<and> shows_from (gc_ring c) (gv_headers v k) t (raw_bytes fs)) \<and>
         (\<forall>k. length (gv_frames v k) = nat (fr_size (gc_ring c)) \<and> shows_from (gc_ring c) (gv_frames v k) t (raw_bytes fs)) \<and>
         gv_finish v = int (e mod w) \<and> data_end c v = fr_offset (gc_ring c) + int (e mod w))"

lemma ring_time_start: "fr_offset r < fr_size r \<Longrightarrow> ring_time r (fr_offset r + int (t mod nat (fr_span r))) t"
proof -
  assume r: "fr_offset r < fr_size r"
  then have "t mod nat (fr_span r) < nat (fr_span r)" by simp
  then have "int (t mod nat (fr_span r)) < fr_span r" using r by linarith
  then show ?thesis by (simp add: ring_time_def)
qed

lemma nonempty_bytes: "config_ok c \<Longrightarrow> list_all (frame_ok c) fs \<Longrightarrow> fs \<noteq> [] \<Longrightarrow> raw_bytes fs \<noteq> []"
  using config_header [of c] by (cases fs) (auto simp: frame_ok_def)

lemma grab_pass_frames:
  assumes "config_ok c" "view_shows c t fs v" "ring_time (gc_ring c) (gr_end_prev g) t"
    "2 \<le> length fs" "length fs \<le> 9" "(t + length (raw_bytes fs)) mod nat (fr_span (gc_ring c)) \<noteq> 0"
  shows "\<exists>fps g' es. grab_pass c v g = Some (g', es, 25000) \<and> map fst fps = butlast fs \<and> list_all (peek_ok c) fps \<and>
     deliver c fps (gr_stream g) = (gr_stream g', writes es) \<and>
     ring_time (gc_ring c) (gr_end_prev g') (t + length (raw_bytes (butlast fs)))"
proof -
  let ?r = "gc_ring c" and ?e = "t + length (raw_bytes fs)"
  let ?until = "fr_offset ?r + int (?e mod nat (fr_span ?r))"
  have geo: "fr_offset ?r < fr_size ?r" using assms(1) by (simp add: config_ok_def)
  have v: "list_all (frame_ok c) fs" "int (length (raw_bytes fs)) < fr_span ?r" "data_end c v = ?until" "gv_finish v = int (?e mod nat (fr_span ?r))"
    "\<forall>k. length (gv_headers v k) = nat (fr_size ?r) \<and> shows_from ?r (gv_headers v k) t (raw_bytes fs)"
    "\<forall>k. length (gv_frames v k) = nat (fr_size ?r) \<and> shows_from ?r (gv_frames v k) t (raw_bytes fs)"
    using assms(2) by (auto simp: view_shows_def Let_def)
  note until = ring_time_start [OF geo, of ?e]
  have fs: "fs \<noteq> []" using assms(4) by auto
  then have bl: "raw_bytes fs = raw_bytes (butlast fs) @ raw_bytes [last fs]"
    by (metis append_butlast_last_id raw_bytes_simps(3))
  have "0 < length (raw_bytes fs)" using nonempty_bytes [OF assms(1) v(1) fs] by simp
  then have ne: "?until \<noteq> gr_end_prev g" using ring_time_apart [OF assms(3) until _ v(2)] by simp
  obtain hps fhs' where w: "grab_walk 10 c (gv_headers v) (gr_end_prev g) ?until (gr_fhs g) = Some (True, hps, fhs')"
    "located c t fs hps"
  proof -
    have "length fs < 10" using assms(5) by simp
    then show thesis using grab_walk_frames [OF assms(1) v(1) _ v(5) assms(3) v(2) until assms(6)] that by blast
  qed
  have len: "length hps = length fs" by (rule located_length [OF w(2)])
  note lb = located_butlast [OF w(2) fs]
  let ?g = "g\<lparr>gr_fhs := fhs', gr_end_prev := snd (last hps), gr_last_counter := fh_counter (fst (last (butlast hps)))\<rparr>"
  have "list_all (frame_ok c) (butlast fs)" using v(1) by (auto simp: list_all_iff dest: in_set_butlastD)
  then obtain fps g' es where s: "send_frames c (gv_frames v) (butlast hps) ?g = Some (g', es)" "map fst fps = butlast fs"
    "list_all (peek_ok c) fps" "deliver c fps (gr_stream ?g) = (gr_stream g', writes es)" "gr_end_prev g' = gr_end_prev ?g"
    using send_frames_deliver [OF assms(1), of "butlast fs" t "butlast hps" "gv_frames v" ?g] lb v(6) bl by auto
  let ?lost = "if fh_counter (fst (hd (butlast hps))) \<noteq> gr_last_counter g + 1
      then [Frames_lost (fh_counter (fst (hd (butlast hps))) - (gr_last_counter g + 1))] else []"
  have "grab_pass c v g = Some (g', ?lost @ es, 25000)"
    using v(3,4) ne w(1) len assms(4) s(1) by (simp add: grab_pass_def Let_def)
  moreover have "writes ?lost = []" by simp
  ultimately show ?thesis using s lb by (intro exI [of _ fps] exI [of _ g'] exI [of _ "?lost @ es"]) simp
qed

lemma butlast_join: "xs \<noteq> [] \<Longrightarrow> butlast (xs @ ys) = butlast xs @ butlast (last xs # ys)"
  by (cases xs rule: rev_cases) (simp_all add: butlast_append)

text \<open>Passes that are shown the stream piece by piece: what was pending and new frames.\<close>

fun shown_in_turn :: "grab_config \<Rightarrow> nat \<Rightarrow> raw_frame list \<Rightarrow> (raw_frame list \<times> grab_view) list \<Rightarrow> bool" where
  "shown_in_turn c t pending [] = True"
| "shown_in_turn c t pending ((new, v) # turns) =
     (let fs = pending @ new
      in 2 \<le> length fs \<and> length fs \<le> 9 \<and>
         (t + length (raw_bytes fs)) mod nat (fr_span (gc_ring c)) \<noteq> 0 \<and> view_shows c t fs v \<and>
         shown_in_turn c (t + length (raw_bytes (butlast fs))) [last fs] turns)"

text \<open>
  C2. The grabber sends every frame once: in any number of passes that follow the stream, with a known size of
  the headers, when each pass is shown two to nine whole frames, the one that waits from the pass before
  included, none of them ends at the end of the ring and the buffer does not change during a
  pass, nothing is read outside the mapping, and what is written is what the frames, in their order and each of them once, have to write, up to
  the last one that was shown, which waits for the next pass.  A frame is written as its data, without
  the six bytes before a parameter set, to its own stream; a recognised parameter set is replaced.
\<close>

theorem frames_are_sent_once:
  assumes "config_ok c" "shown_in_turn c t pending turns" "ring_time (gc_ring c) (gr_end_prev g) t"
    "length pending \<le> 1"
  shows "\<exists>fps g' es. grab_passes c (map snd turns) g = Some (g', es) \<and>
     map fst fps = butlast (pending @ concat (map fst turns)) \<and> list_all (peek_ok c) fps \<and>
     deliver c fps (gr_stream g) = (gr_stream g', writes es)"
  using assms(2-)
proof (induction turns arbitrary: t pending g)
  case Nil
  then have "butlast pending = []" by (cases pending) auto
  then show ?case by (auto intro: exI [of _ "[]"])
next
  case (Cons turn turns)
  obtain new v where turn: "turn = (new, v)" by fastforce
  let ?fs = "pending @ new" and ?t = "t + length (raw_bytes (butlast (pending @ new)))"
  have p: "2 \<le> length ?fs" "length ?fs \<le> 9" "view_shows c t ?fs v" "shown_in_turn c ?t [last ?fs] turns"
    "(t + length (raw_bytes ?fs)) mod nat (fr_span (gc_ring c)) \<noteq> 0"
    using Cons.prems(1) by (simp_all add: turn Let_def del: raw_bytes_simps)
  obtain fps g1 es where s1: "grab_pass c v g = Some (g1, es, 25000)" "map fst fps = butlast ?fs" "list_all (peek_ok c) fps"
    "deliver c fps (gr_stream g) = (gr_stream g1, writes es)" "ring_time (gc_ring c) (gr_end_prev g1) ?t"
    using grab_pass_frames [OF assms(1) p(3) Cons.prems(2) p(1,2,5)] by blast
  obtain fps2 g2 es2 where s2: "grab_passes c (map snd turns) g1 = Some (g2, es2)"
    "map fst fps2 = butlast ([last ?fs] @ concat (map fst turns))" "list_all (peek_ok c) fps2"
    "deliver c fps2 (gr_stream g1) = (gr_stream g2, writes es2)"
    using Cons.IH [OF p(4) s1(5)] by auto
  have "?fs \<noteq> []" using p(1) by auto
  then have "butlast (?fs @ concat (map fst turns)) = butlast ?fs @ butlast ([last ?fs] @ concat (map fst turns))"
    unfolding append_Cons append_Nil by (rule butlast_join)
  then have "map fst (fps @ fps2) = butlast (pending @ concat (map fst (turn # turns)))"
    using s1(2) s2(2) by (simp add: turn)
  moreover have "deliver c (fps @ fps2) (gr_stream g) = (gr_stream g2, writes (es @ es2))"
    using s1(4) s2(4) by (simp add: deliver_append Let_def)
  ultimately show ?case using s1(1,3) s2(1,3)
    by (intro exI [of _ "fps @ fps2"] exI [of _ g2] exI [of _ "es @ es2"]) (simp add: turn)
qed

section \<open>A ring with two frames of sound\<close>

lemma shows_from_place:
  assumes "mem = pre @ s @ post" "int (length pre) = fr_offset r + int t" "0 \<le> fr_offset r"
    "t + length s \<le> nat (fr_span r)"
  shows "shows_from r mem t s"
  unfolding shows_from_def
proof (intro allI impI)
  fix k assume k: "k < length s"
  then have "ring_place r (t + k) = length pre + k" using assms(2-4) by (simp add: ring_place_def)
  then show "mem ! ring_place r (t + k) = s ! k" using k by (simp add: assms(1) nth_append)
qed

definition demo_config :: grab_config where
  "demo_config = \<lparr>gc_ring = \<lparr>fr_offset = 300, fr_size = 500\<rparr>, gc_header_size = 28, gc_resolution = Res_none,
     gc_audio = True, gc_sps_timing = True, gc_debug = False\<rparr>"

definition demo_frame :: raw_frame where
  "demo_frame = ([2, 0, 0, 0, 1, 0, 0, 0, 0, 0, 0, 0, 0, 0, 0, 0, 0, 0, 0, 0,
     0, 1, 0, 0, 0, 0, 0, 0], [7, 9])"

definition demo_grabber :: "int \<Rightarrow> grabber" where
  "demo_grabber p = \<lparr>gr_end_prev = p, gr_last_counter = 0, gr_last_low = -1, gr_last_high = -1, gr_last_audio = -1,
     gr_fhs = replicate 10 \<lparr>fh_len = 0, fh_counter = 0, fh_time = 0, fh_type = 0, fh_stream_counter = 0\<rparr>,
     gr_stream = stream_type_init\<rparr>"

definition demo_memory :: "nat \<Rightarrow> byte list" where
  "demo_memory t = replicate (300 + t) 0 @ raw_bytes [demo_frame, demo_frame] @ replicate (140 - t) 0"

definition demo_view :: "nat \<Rightarrow> grab_view" where
  "demo_view t = \<lparr>gv_start = int t, gv_used = 60, gv_finish = int ((t + 60) mod 200),
     gv_headers = \<lambda>_. demo_memory t, gv_frames = \<lambda>_. demo_memory t\<rparr>"

lemma demo_frame_header: "raw_header demo_config demo_frame =
    \<lparr>fh_len = 2, fh_counter = 1, fh_time = 0, fh_type = 0x0100, fh_stream_counter = 0\<rparr>"
  by (simp add: raw_header_def demo_config_def demo_frame_def decode_header_def header_at_def le32_def le16_def)

lemma demo_frame_sizes: "length (fst demo_frame) = 28" "length (snd demo_frame) = 2"
  "length (raw_bytes [demo_frame, demo_frame]) = 60"
  by (simp_all add: demo_frame_def)

lemma demo_ok: "config_ok demo_config" "frame_ok demo_config demo_frame"
proof -
  show "config_ok demo_config" by (simp add: config_ok_def demo_config_def known_header_size_def)
  show "frame_ok demo_config demo_frame"
    by (simp add: frame_ok_def demo_frame_header demo_frame_sizes) (simp add: demo_config_def)
qed

lemma demo_shown:
  assumes "t \<le> 140"
  shows "view_shows demo_config t [demo_frame, demo_frame] (demo_view t)"
proof -
  have "shows_from (gc_ring demo_config) (demo_memory t) t (raw_bytes [demo_frame, demo_frame])"
    using assms unfolding demo_memory_def
    by (rule_tac shows_from_place [OF refl]) (simp_all only: demo_frame_sizes, simp_all add: demo_config_def)
  moreover have "length (demo_memory t) = 500"
    using assms demo_frame_sizes(3) by (simp add: demo_memory_def del: raw_bytes_simps)
  moreover have "(t + 60) mod 200 = (if t = 140 then 0 else t + 60)" using assms by auto
  ultimately show ?thesis
    using demo_ok(2) demo_frame_sizes(3) assms unfolding view_shows_def Let_def
    by (simp add: demo_view_def data_end_def del: raw_bytes_simps) (simp add: demo_config_def)
qed

lemma frames_are_sent_once_witness:
  "\<exists>g' es. grab_passes demo_config [demo_view 0] (demo_grabber 300) = Some (g', es) \<and> writes es = [(Out_aac, [7, 9])]"
proof -
  let ?turns = "[([demo_frame, demo_frame], demo_view 0)]"
  have "shown_in_turn demo_config 0 [] ?turns"
    using demo_shown [of 0] demo_frame_sizes(3) by (simp add: demo_config_def del: raw_bytes_simps)
  moreover have "ring_time (gc_ring demo_config) (gr_end_prev (demo_grabber 300)) 0"
    by (simp add: ring_time_def demo_config_def demo_grabber_def)
  ultimately have "\<exists>fps g' es. grab_passes demo_config (map snd ?turns) (demo_grabber 300) = Some (g', es) \<and>
      map fst fps = butlast ([] @ concat (map fst ?turns)) \<and> list_all (peek_ok demo_config) fps \<and>
      deliver demo_config fps (gr_stream (demo_grabber 300)) = (gr_stream g', writes es)"
    by (intro frames_are_sent_once [OF demo_ok(1)]) simp_all
  then obtain fps g' es where "grab_passes demo_config (map snd ?turns) (demo_grabber 300) = Some (g', es)"
    "map fst fps = butlast ([] @ concat (map fst ?turns))"
    "deliver demo_config fps (gr_stream (demo_grabber 300)) = (gr_stream g', writes es)" by blast
  then have s: "grab_passes demo_config [demo_view 0] (demo_grabber 300) = Some (g', es)" "map fst fps = [demo_frame]"
    "deliver demo_config fps (gr_stream (demo_grabber 300)) = (gr_stream g', writes es)" by simp_all
  obtain peek where "fps = [(demo_frame, peek)]" using s(2) by auto
  moreover have "\<not> is_sps (raw_header demo_config demo_frame)" "frame_type_of (raw_header demo_config demo_frame) = Type_aac"
    by (simp_all add: demo_frame_header is_sps_def frame_type_of_def)
  moreover from this have "frame_data demo_config demo_frame = [7, 9]" "gc_audio demo_config"
    by (simp_all add: frame_data_def) (simp_all add: demo_frame_def demo_config_def)
  ultimately have "writes es = [(Out_aac, [7, 9])]"
    using s(3) by (simp add: frame_writes_def Let_def out_for_def timed_sps_def)
  then show ?thesis using s(1) by blast
qed

end
