(* ===== verification/H264_Safety.thy ===== *)
theory H264_Safety
  imports H264_Delivery
begin

text \<open>
  The capture loop of theory \<open>H264_Grabber\<close> on a ring with any contents: it stays in its mapping.  Two
  cases where it does not do what it means to: a frame that ends at the end of the ring, and the
  parameter set that stands in for a recognised one of the low stream.
\<close>

section \<open>Safety for any contents\<close>

text \<open>The header size is one of the table or one that was detected, at most 40; nothing is assumed of the contents.\<close>

definition config_safe :: "grab_config \<Rightarrow> bool" where
  "config_safe c \<longleftrightarrow> 4 \<le> gc_header_size c \<and> gc_header_size c \<le> 40 \<and> 0 \<le> fr_offset (gc_ring c) \<and>
     100 \<le> fr_span (gc_ring c) \<and> fr_span (gc_ring c) < 2 ^ 30"

definition in_ring :: "grab_config \<Rightarrow> int \<Rightarrow> bool" where
  "in_ring c p \<longleftrightarrow> fr_offset (gc_ring c) \<le> p \<and> p \<le> fr_size (gc_ring c)"

definition mapped :: "grab_config \<Rightarrow> byte list \<Rightarrow> bool" where
  "mapped c mem \<longleftrightarrow> length mem = nat (fr_size (gc_ring c))"

lemma safe_ring: "config_safe c \<Longrightarrow> mapped c mem \<Longrightarrow> ring_ok (gc_ring c) mem"
  by (auto simp: config_safe_def ring_ok_def mapped_def)

lemma safe_copy:
  assumes "config_safe c" "mapped c mem" "in_ring c p" "0 \<le> n" "n \<le> fr_span (gc_ring c)"
  shows "\<exists>bs. cb2s_memcpy (gc_ring c) mem p n = Some bs \<and> length bs = nat n"
  using cb2s_memcpy_some [OF safe_ring [OF assms(1,2)]] assms(3-5) by (simp add: in_ring_def)

lemma safe_move: "in_ring c p \<Longrightarrow> 0 \<le> k \<Longrightarrow> k \<le> fr_span (gc_ring c) \<Longrightarrow> in_ring c (cb_move (gc_ring c) p k)"
  using cb_move_in_ring by (simp add: in_ring_def)

lemma safe_match:
  assumes "config_safe c" "mapped c mem" "in_ring c p" "list_all (\<lambda>x. length (fst x) \<le> 56) tbl"
  shows "\<exists>m. match_pattern (gc_ring c) mem p tbl = Some m"
  using assms(4)
proof (induction tbl)
  case (Cons x tbl)
  obtain s f where x: "x = (s, f)" by (cases x)
  have "int (length s) \<le> fr_span (gc_ring c)" using Cons.prems assms(1) by (simp add: x config_safe_def)
  then obtain bs where "cb2s_memcpy (gc_ring c) mem p (int (length s)) = Some bs"
    using safe_copy [OF assms(1-3), of "int (length s)"] by auto
  then show ?case using Cons cb_memcmp_copied by (simp add: x)
qed simp

lemma safe_detect:
  assumes "config_safe c" "mapped c mem" "in_ring c p"
  shows "\<exists>st'. detect_stream (gc_ring c) mem p h st = Some st'"
  using safe_match [OF assms patterns_short(1)] safe_match [OF assms patterns_short(2)]
  by (auto simp: detect_stream_def)

definition short_writes :: "grab_config \<Rightarrow> grab_event list \<Rightarrow> bool" where
  "short_writes c es \<longleftrightarrow> list_all (\<lambda>w. int (length (snd w)) \<le> fr_span (gc_ring c)) (writes es)"

lemma short_writes_append [simp]: "short_writes c (a @ b) \<longleftrightarrow> short_writes c a \<and> short_writes c b"
  by (simp add: short_writes_def)

lemma timed_sps_short: "timed_sps c st h = Some s \<Longrightarrow> length s \<le> 56"
  by (auto simp: timed_sps_def timed_sps_low_def timed_sps_high_def sps_defs split: if_splits frame_type.splits)

lemma length_checked:
  assumes "config_safe c" "\<not> header_too_long c h"
  shows "int (unat (fh_len h)) + gc_header_size c \<le> fr_span (gc_ring c)"
proof -
  let ?d = "fr_span (gc_ring c) - gc_header_size c"
  have d: "0 \<le> ?d" "?d < 2 ^ 32" using assms(1) by (simp_all add: config_safe_def)
  have "unat (fh_len h) \<le> unat (word_of_int ?d :: u32)"
    using assms(2) by (simp only: header_too_long_def word_less_nat_alt not_less)
  then have "unat (fh_len h) \<le> nat ?d" by (simp only: unat_word_of_int_small [OF d])
  then show ?thesis using d(1) by linarith
qed

lemma safe_send:
  assumes "config_safe c" "mapped c mem" "in_ring c p" "\<not> header_too_long c h"
  shows "\<exists>g' es. send_frame c mem (h, p) g = Some (g', es) \<and> gr_end_prev g' = gr_end_prev g \<and> gr_fhs g' = gr_fhs g \<and> short_writes c es"
proof -
  let ?r = "gc_ring c"
  let ?start = "cb_move ?r p (if is_sps h then gc_header_size c + 6 else gc_header_size c)"
  let ?len = "if is_sps h then sint (fh_len h) - 6 else sint (fh_len h)"
  have geo: "4 \<le> gc_header_size c" "gc_header_size c \<le> 40" "100 \<le> fr_span ?r" "fr_span ?r < 1073741824"
    using assms(1) by (simp_all add: config_safe_def)
  have start: "in_ring c ?start" using geo by (intro safe_move assms(3)) auto
  have "int (unat (fh_len h)) \<le> fr_span ?r" using length_checked [OF assms(1,4)] geo by linarith
  moreover from this have "unat (fh_len h) < 2147483648" using geo by linarith
  then have "sint (fh_len h) = int (unat (fh_len h))" by (intro sint_small) simp
  ultimately have len: "?len \<le> fr_span ?r" by simp
  obtain st where st: "(if is_sps h then detect_stream ?r mem ?start h (gr_stream g) else Some (gr_stream g)) = Some st"
    using safe_detect [OF assms(1,2) start, of h "gr_stream g"] by (cases "is_sps h") auto
  obtain g1 es w where cf: "count_frame c h (g\<lparr>gr_stream := st\<rparr>) = (g1, es, w)" by (metis prod_cases3)
  have es: "gr_end_prev g1 = gr_end_prev g" "gr_fhs g1 = gr_fhs g" "short_writes c es"
    using count_frame_stream [OF cf] by (simp_all add: short_writes_def)
  let ?out = "if w then out_for c st (frame_type_of h) else None"
  have "\<exists>b. frame_bytes c st mem h ?start ?len = Some b \<and> int (length b) \<le> fr_span ?r" if "?len > 0"
  proof (cases "timed_sps c st h")
    case None
    then show ?thesis using safe_copy [OF assms(1,2) start, of ?len] that len by (auto simp: frame_bytes_def)
  next
    case (Some s)
    then show ?thesis using timed_sps_short [OF Some] geo by (simp add: frame_bytes_def)
  qed
  then obtain b where b: "?len > 0 \<Longrightarrow> frame_bytes c st mem h ?start ?len = Some b \<and> int (length b) \<le> fr_span ?r"
    by blast
  have "send_frame c mem (h, p) g = Some (case ?out of None \<Rightarrow> (g1, es) | Some out \<Rightarrow>
      if \<not> ?len > 0 then (g1, es) else (g1, es @ [Frame_out out b]))"
    unfolding send_frame_eq [OF st cf] by (rule case_guarded) (use b in blast, rule refl)
  moreover have "short_writes c (es @ [Frame_out out b])" if "?len > 0" for out
    using es(3) b [OF that] by (simp add: short_writes_def)
  ultimately show ?thesis using es by (cases ?out) (auto simp: option.case simp del: short_writes_append)
qed

lemma safe_send_frames:
  assumes "config_safe c" "\<And>k. mapped c (mems k)" "list_all (\<lambda>(h, p). in_ring c p \<and> \<not> header_too_long c h) hps"
  shows "\<exists>g' es. send_frames c mems hps g = Some (g', es) \<and> gr_end_prev g' = gr_end_prev g \<and> gr_fhs g' = gr_fhs g \<and> short_writes c es"
  using assms(2,3)
proof (induction hps arbitrary: mems g)
  case Nil
  then show ?case by (simp add: short_writes_def)
next
  case (Cons hp hps)
  obtain h p where hp: "hp = (h, p)" by fastforce
  have hp1: "in_ring c p" "\<not> header_too_long c h" using Cons.prems(2) by (simp_all add: hp)
  obtain g1 es1 where 1: "send_frame c (mems 0) hp g = Some (g1, es1)" "gr_end_prev g1 = gr_end_prev g" "gr_fhs g1 = gr_fhs g" "short_writes c es1"
    using safe_send [OF assms(1) Cons.prems(1) [of 0] hp1, of g] by (auto simp: hp)
  obtain g2 es2 where 2: "send_frames c (mems \<circ> Suc) hps g1 = Some (g2, es2)" "gr_end_prev g2 = gr_end_prev g1" "gr_fhs g2 = gr_fhs g1" "short_writes c es2"
    using Cons.IH [of "mems \<circ> Suc" g1] Cons.prems by (auto simp: comp_def)
  show ?case using 1 2 by simp
qed

lemma safe_step:
  assumes "config_safe c" "in_ring c p" "\<not> header_too_long c h"
  shows "in_ring c (after_frame c h p)" "after_frame c h p \<noteq> fr_offset (gc_ring c)"
proof -
  let ?r = "gc_ring c"
  have geo: "4 \<le> gc_header_size c" "gc_header_size c \<le> 40" "100 \<le> fr_span ?r" "fr_span ?r < 1073741824"
    using assms(1) by (simp_all add: config_safe_def)
  let ?s = "fh_len h + word_of_int (gc_header_size c)"
  have l: "int (unat (fh_len h)) + gc_header_size c \<le> fr_span ?r" by (rule length_checked [OF assms(1,3)])
  have "unat (word_of_int (gc_header_size c) :: u32) = nat (gc_header_size c)"
    using geo by (intro unat_word_of_int_small) simp_all
  moreover have b: "unat (fh_len h) + nat (gc_header_size c) < 1073741825" using l geo by linarith
  ultimately have "unat ?s = unat (fh_len h) + nat (gc_header_size c)" by (simp add: unat_word_ariths)
  moreover from this have "unat ?s < 2 ^ 31" using b by simp
  moreover have "int (unat (fh_len h) + nat (gc_header_size c)) = int (unat (fh_len h)) + gc_header_size c"
    using geo by simp
  ultimately have s: "sint ?s = int (unat (fh_len h)) + gc_header_size c" by (simp only: sint_small)
  show "in_ring c (after_frame c h p)"
    unfolding after_frame_def s using l geo by (intro safe_move assms(2)) linarith+
  show "after_frame c h p \<noteq> fr_offset ?r"
  proof -
    have "0 < sint ?s" unfolding s using geo by linarith
    then show ?thesis
      using cb_move_forward [of ?r p "sint ?s"] geo assms(2) by (simp add: after_frame_def in_ring_def)
  qed
qed

lemma safe_header:
  assumes "config_safe c" "mapped c mem" "in_ring c p"
  shows "\<exists>h. cb2s_headercpy (gc_ring c) mem dest p (gc_header_size c) = Some h"
  using safe_copy [OF assms, of "gc_header_size c"] assms(1)
  by (auto simp: cb2s_headercpy_def config_safe_def)

lemma safe_walk:
  assumes "config_safe c" "\<And>k. mapped c (mems k)" "in_ring c cur" "left \<le> 10"
  shows "\<exists>sync hps fhs'. grab_walk left c mems cur until fhs = Some (sync, hps, fhs') \<and>
     list_all (\<lambda>(h, p). in_ring c p \<and> \<not> header_too_long c h) hps \<and> length hps \<le> 10 \<and> length fhs' = length fhs"
proof -
  have "\<exists>sync hps fhs'. grab_walk left c mems cur until fhs = Some (sync, hps, fhs') \<and>
     list_all (\<lambda>(h, p). in_ring c p \<and> \<not> header_too_long c h) hps \<and> length hps \<le> left \<and> length fhs' = length fhs"
    using assms(2-3)
  proof (induction left arbitrary: mems cur fhs)
    case 0
    then show ?case by (subst grab_walk.simps) (cases "cur = until"; auto)
  next
    case (Suc left)
    let ?i = "10 - Suc left"
    obtain h where h: "cb2s_headercpy (gc_ring c) (mems 0) (fhs ! ?i) cur (gc_header_size c) = Some h"
      using safe_header [OF assms(1) Suc.prems(1) [of 0] Suc.prems(2)] by blast
    show ?case
    proof (cases "cur = until \<or> header_too_long c h \<or> left = 0")
      case True
      then show ?thesis using h Suc.prems(2)
        by (subst grab_walk.simps) (cases "header_too_long c h"; auto simp: Let_def)
    next
      case False
      have "in_ring c (after_frame c h cur)" using safe_step [OF assms(1) Suc.prems(2)] False by blast
      then obtain sync hps fhs' where "grab_walk left c (mems \<circ> Suc) (after_frame c h cur) until (fhs[?i := h]) = Some (sync, hps, fhs')"
        "list_all (\<lambda>(h, p). in_ring c p \<and> \<not> header_too_long c h) hps" "length hps \<le> left" "length fhs' = length (fhs[?i := h])"
        using Suc.IH [of "mems \<circ> Suc" "after_frame c h cur" "fhs[?i := h]"] Suc.prems(1) by (auto simp: comp_def)
      then show ?thesis using h False Suc.prems(2) by (subst grab_walk.simps) simp
    qed
  qed
  then show ?thesis using assms(4) by (meson order_trans)
qed

text \<open>
  Reading stays inside the mapping whatever it holds: with a header size of the table or a
  detected one and a ring of at least 100 bytes, a pass that starts in the ring and is told an end in
  it never reads outside the mapping and never more than ten headers, whatever the memory contains
  at each read; it leaves the next pass a start in the ring, and writes at most a turn at a time.
\<close>

theorem pass_stays_in_mapping:
  assumes "config_safe c" "\<And>k. mapped c (gv_headers v k)" "\<And>k. mapped c (gv_frames v k)"
    "in_ring c (gr_end_prev g)" "in_ring c (fr_offset (gc_ring c) + gv_finish v)" "length (gr_fhs g) = 10"
  shows "\<exists>g' es us. grab_pass c v g = Some (g', es, us) \<and> in_ring c (gr_end_prev g') \<and>
     length (gr_fhs g') = 10 \<and> short_writes c es"
proof -
  consider "data_end c v \<noteq> fr_offset (gc_ring c) + gv_finish v" | "data_end c v = gr_end_prev g"
    | "data_end c v = fr_offset (gc_ring c) + gv_finish v" "data_end c v \<noteq> gr_end_prev g" by blast
  then show ?thesis
  proof cases
    case 3
    obtain sync hps fhs where w: "grab_walk 10 c (gv_headers v) (gr_end_prev g) (data_end c v) (gr_fhs g) = Some (sync, hps, fhs)"
      "list_all (\<lambda>(h, p). in_ring c p \<and> \<not> header_too_long c h) hps" "length fhs = 10"
      using safe_walk [OF assms(1) _ assms(4), where mems = "gv_headers v" and left = 10 and until = "data_end c v" and fhs = "gr_fhs g"] assms(2,6) by auto
    show ?thesis
    proof (cases "sync \<and> 1 < length hps")
      case False
      then show ?thesis using 3 w assms(4,5) by (auto simp: grab_pass_def Let_def short_writes_def)
    next
      case True
      let ?fs = "butlast hps"
      let ?g = "g\<lparr>gr_fhs := fhs, gr_end_prev := snd (last hps), gr_last_counter := fh_counter (fst (last ?fs))\<rparr>"
      have "list_all (\<lambda>(h, p). in_ring c p \<and> \<not> header_too_long c h) ?fs"
        using w(2) by (auto simp: list_all_iff dest: in_set_butlastD)
      then obtain g' es where s: "send_frames c (gv_frames v) ?fs ?g = Some (g', es)" "gr_end_prev g' = snd (last hps)"
        "short_writes c es" "gr_fhs g' = fhs"
        using safe_send_frames [where mems = "gv_frames v" and hps = ?fs and g = ?g, OF assms(1,3)] by auto
      have "last hps \<in> set hps" using True by (intro last_in_set) auto
      then have "in_ring c (snd (last hps))" using w(2) by (auto simp: list_all_iff)
      then show ?thesis using 3 True w(1,3) s by (simp add: grab_pass_def Let_def short_writes_def)
    qed
  qed (use assms in \<open>auto simp: grab_pass_def Let_def short_writes_def\<close>)
qed

text \<open>The walk over frames of which the last ends at the end of the ring goes past the end of the data.\<close>

lemma config_ok_safe: "config_ok c \<Longrightarrow> config_safe c"
  using config_header [of c] by (auto simp: config_ok_def config_safe_def)

lemma walk_overruns:
  assumes "config_ok c" "list_all (frame_ok c) fs" "length fs < left" "left \<le> 10"
    "\<And>k. mapped c (mems k) \<and> shows_from (gc_ring c) (mems k) t (raw_bytes fs)"
    "ring_time (gc_ring c) cur t" "int (length (raw_bytes fs)) < fr_span (gc_ring c)"
    "(t + length (raw_bytes fs)) mod nat (fr_span (gc_ring c)) = 0" "fs = [] \<longrightarrow> cur \<noteq> fr_offset (gc_ring c)"
    "grab_walk left c mems cur (fr_offset (gc_ring c)) fhs = Some (sync, hps, fhs')"
  shows "sync \<longrightarrow> length fs < length hps"
  using assms(2-)
proof (induction fs arbitrary: left mems cur t fhs hps fhs')
  case Nil
  then obtain left' where left: "left = Suc left'" by (cases left) auto
  show ?case using Nil.prems(8,9) left by (subst (asm) grab_walk.simps) (auto simp: bind_eq_Some_conv Let_def split: if_splits)
next
  case (Cons f fs)
  obtain left' where left: "left = Suc left'" "left' \<noteq> 0" using Cons.prems(2) by (cases left) auto
  have f: "frame_ok c f" "length (mems 0) = nat (fr_size (gc_ring c))" "shows_from (gc_ring c) (mems 0) t (fst f @ snd f)"
    using Cons.prems(1) Cons.prems(4) [of 0] by (simp_all add: mapped_def)
  note step = frame_step [OF assms(1) f(1,2) Cons.prems(5) f(3)]
  have geo: "fr_offset (gc_ring c) < fr_size (gc_ring c)" using assms(1) by (simp add: config_ok_def)
  have until: "ring_time (gc_ring c) (fr_offset (gc_ring c)) (t + length (raw_bytes (f # fs)))"
    using geo Cons.prems(7) by (simp add: ring_time_def)
  have "0 < length (fst f)" using f(1) config_header [OF assms(1)] by (cases "fst f") (simp_all add: frame_ok_def)
  then have ne: "cur \<noteq> fr_offset (gc_ring c)"
    using ring_time_apart [OF Cons.prems(5) until _ Cons.prems(6)] by simp
  have "in_ring c cur" using Cons.prems(5) by (simp add: ring_time_def in_ring_def)
  then have after: "after_frame c (raw_header c f) cur \<noteq> fr_offset (gc_ring c)"
    using safe_step(2) [OF config_ok_safe [OF assms(1)] _ step(2)] by blast
  obtain hps' where hps: "hps = (raw_header c f, cur) # hps'"
    "grab_walk left' c (mems \<circ> Suc) (after_frame c (raw_header c f) cur) (fr_offset (gc_ring c))
       (fhs[10 - left := raw_header c f]) = Some (sync, hps', fhs')"
    using Cons.prems(9) left step(1,2) ne by (subst (asm) grab_walk.simps) (auto simp: bind_eq_Some_conv Let_def)
  have "sync \<longrightarrow> length fs < length hps'"
    using Cons.prems left step(3) after hps(2) by (intro Cons.IH [OF _ _ _ _ step(3) _ _ _ hps(2)]) (auto simp: add.assoc)
  then show ?case by (simp add: hps(1))
qed

text \<open>
  C32. A frame that ends at the very end of the ring is missed: the end of the data is then the start
  of the ring, but the walk stands at the end, which is the same place and another pointer, and goes
  on.  So when the frames shown end there, the pass either finds itself out of step, writes nothing
  and skips them all, or it reads stale bytes at the start of the ring as further frames.
\<close>

theorem frame_at_ring_end_is_missed:
  assumes "config_ok c" "view_shows c t fs v" "ring_time (gc_ring c) (gr_end_prev g) t"
    "fs \<noteq> []" "length fs \<le> 9" "(t + length (raw_bytes fs)) mod nat (fr_span (gc_ring c)) = 0"
  shows "\<exists>sync hps fhs. grab_walk 10 c (gv_headers v) (gr_end_prev g) (data_end c v) (gr_fhs g) = Some (sync, hps, fhs) \<and>
     (sync \<longrightarrow> length fs < length hps) \<and>
     (\<not> sync \<longrightarrow> grab_pass c v g = Some (g\<lparr>gr_fhs := fhs, gr_end_prev := fr_offset (gc_ring c)\<rparr>, [], 10000))"
proof -
  let ?r = "gc_ring c"
  have geo: "fr_offset ?r < fr_size ?r" using assms(1) by (simp add: config_ok_def)
  have v: "list_all (frame_ok c) fs" "int (length (raw_bytes fs)) < fr_span ?r" "data_end c v = fr_offset ?r" "gv_finish v = 0"
    "\<And>k. mapped c (gv_headers v k) \<and> shows_from ?r (gv_headers v k) t (raw_bytes fs)"
    using assms(2,6) by (auto simp: view_shows_def mapped_def Let_def)
  have prev: "in_ring c (gr_end_prev g)" using assms(3) by (simp add: ring_time_def in_ring_def)
  obtain sync hps fhs where w: "grab_walk 10 c (gv_headers v) (gr_end_prev g) (fr_offset ?r) (gr_fhs g) = Some (sync, hps, fhs)"
    using safe_walk [OF config_ok_safe [OF assms(1)] _ prev, of "gv_headers v"] v(5) by blast
  have "sync \<longrightarrow> length fs < length hps"
    using walk_overruns [OF assms(1) v(1) _ _ v(5) assms(3) v(2) assms(6) _ w] assms(4,5) by simp
  moreover have "ring_time ?r (fr_offset ?r) (t + length (raw_bytes fs))"
    using geo assms(6) by (simp add: ring_time_def)
  then have "gr_end_prev g \<noteq> fr_offset ?r"
    using ring_time_apart [OF assms(3) _ _ v(2)] nonempty_bytes [OF assms(1) v(1) assms(4)] by simp
  ultimately show ?thesis using w v(3,4) by (auto simp: grab_pass_def Let_def)
qed

section \<open>The parameter set of the low stream\<close>

text \<open>
  The low stream gets one replacement: when the first parameter set of the low stream is one of
  the three that are recognised, the bytes sent in its place are the first replacement,
  \<open>SPS4_640X360_TI\<close>, though the second and the third are of another profile (the sixth byte) and have
  replacements of their own: the tests of the kind are masks that share a bit.
\<close>

theorem low_sps_replacement:
  assumes "config_ok c" "frame_ok c f" "length mem = nat (fr_size (gc_ring c))"
    "ring_time (gc_ring c) p t" "shows_from (gc_ring c) mem t (fst f @ snd f)"
    "is_sps (raw_header c f)" "frame_type_of (raw_header c f) = Type_low" "gc_sps_timing c" "wants_low c"
    "st_codec_low (gr_stream g) = Codec_none"
    "frame_data c f \<in> {SPS4_640X360, SPS4_2_640X360, SPS4_3_640X360}"
  shows "\<exists>g' es. send_frame c mem (raw_header c f, p) g = Some (g', es) \<and> writes es = [(Out_low, SPS4_640X360_TI)] \<and>
     st_sps_type_low (gr_stream g') = (if frame_data c f = SPS4_640X360 then 0x0101
       else if frame_data c f = SPS4_2_640X360 then 0x0201 else 0x0401) \<and>
     (frame_data c f \<noteq> SPS4_640X360 \<longrightarrow> frame_data c f ! 5 \<noteq> SPS4_640X360_TI ! 5)"
proof -
  obtain peek g' es where s: "send_frame c mem (raw_header c f, p) g = Some (g', es)" "length peek = 56"
    "take (min 56 (length (frame_data c f))) peek = take 56 (frame_data c f)"
    "frame_writes c (f, peek) (gr_stream g) = (gr_stream g', writes es)"
    using send_frame_writes [OF assms(1-5)] by blast
  let ?h = "raw_header c f" and ?d = "frame_data c f"
  have d: "length ?d \<le> 56" "?d \<noteq> []" using assms(11) by (auto simp: sps_defs)
  then have pre: "take (length ?d) peek = ?d" using s(3) by (simp add: min_def)
  then obtain rest where rest: "peek = ?d @ rest" by (metis append_take_drop_id)
  have "match_peek peek low_patterns = Some (Codec_h264, if ?d = SPS4_640X360 then 0x0101
      else if ?d = SPS4_2_640X360 then 0x0201 else 0x0401)" (is "_ = Some (_, ?k)")
    using assms(11) unfolding rest by (auto simp: low_patterns_def has_prefix_def sps_defs)
  moreover have "fh_type ?h AND 0x0800 \<noteq> 0" using assms(7) by (auto simp: frame_type_of_def split: if_splits)
  ultimately have st: "detect_peek peek ?h (gr_stream g) =
      (gr_stream g)\<lparr>st_codec_low := Codec_h264, st_sps_type_low := ?k\<rparr>"
    using assms(10) by (simp add: detect_peek_def)
  have k: "timed_sps_low ?k = Some SPS4_640X360_TI" by (simp add: timed_sps_low_def)
  have "gr_stream g' = (gr_stream g)\<lparr>st_codec_low := Codec_h264, st_sps_type_low := ?k\<rparr>"
    "writes es = [(Out_low, SPS4_640X360_TI)]"
    using s(4) st k d(2) assms(6-9) by (simp_all add: frame_writes_def Let_def out_for_def timed_sps_def del: if_split)
  moreover have "?d \<noteq> SPS4_640X360 \<longrightarrow> ?d ! 5 \<noteq> SPS4_640X360_TI ! 5"
    using assms(11) by (auto simp: sps_defs)
  ultimately show ?thesis using s(1) by simp
qed

section \<open>Witnesses\<close>

lemma frame_at_ring_end_is_missed_witness:
  "\<exists>sync hps fhs. grab_walk 10 demo_config (gv_headers (demo_view 140)) 440 300 (gr_fhs (demo_grabber 440)) = Some (sync, hps, fhs) \<and>
     (sync \<longrightarrow> 2 < length hps)"
proof -
  have "ring_time (gc_ring demo_config) (gr_end_prev (demo_grabber 440)) 140"
    "(140 + length (raw_bytes [demo_frame, demo_frame])) mod nat (fr_span (gc_ring demo_config)) = 0"
    unfolding demo_frame_sizes by (simp_all add: ring_time_def demo_config_def demo_grabber_def)
  moreover have "data_end demo_config (demo_view 140) = 300"
    by (simp add: data_end_def demo_view_def demo_config_def)
  moreover have "gr_end_prev (demo_grabber 440) = 440" by (simp add: demo_grabber_def)
  ultimately show ?thesis
    using frame_at_ring_end_is_missed [OF demo_ok(1) demo_shown [of 140], of "demo_grabber 440"] by auto
qed

text \<open>A low frame with the second parameter set, at the start of a ring.\<close>

definition sps_config :: grab_config where
  "sps_config = demo_config\<lparr>gc_resolution := Res_low\<rparr>"

definition sps_frame :: raw_frame where
  "sps_frame = ([26, 0, 0, 0, 1, 0, 0, 0, 0, 0, 0, 0, 0, 0, 0, 0, 0, 0, 0, 0,
     2, 8, 0, 0, 0, 0, 0, 0], replicate 6 0 @ SPS4_2_640X360)"

lemma low_sps_replacement_witness:
  "\<exists>g' es. send_frame sps_config (replicate 300 0 @ (fst sps_frame @ snd sps_frame) @ replicate 146 0)
       (raw_header sps_config sps_frame, 300) (demo_grabber 300) = Some (g', es) \<and>
     writes es = [(Out_low, SPS4_640X360_TI)]"
proof -
  let ?mem = "replicate 300 0 @ (fst sps_frame @ snd sps_frame) @ replicate 146 (0 :: byte)"
  have h: "raw_header sps_config sps_frame =
      \<lparr>fh_len = 26, fh_counter = 1, fh_time = 0, fh_type = 0x0802, fh_stream_counter = 0\<rparr>"
    by (simp add: raw_header_def sps_config_def demo_config_def sps_frame_def decode_header_def header_at_def le32_def le16_def)
  have l: "length (fst sps_frame) = 28" "length (snd sps_frame) = 26" by (simp_all add: sps_frame_def SPS4_2_640X360_def)
  have c: "config_ok sps_config" "gc_ring sps_config = \<lparr>fr_offset = 300, fr_size = 500\<rparr>"
    using demo_ok(1) by (simp_all add: config_ok_def sps_config_def demo_config_def)
  have sps: "is_sps (raw_header sps_config sps_frame)" "frame_type_of (raw_header sps_config sps_frame) = Type_low"
    "frame_data sps_config sps_frame = SPS4_2_640X360"
    by (simp_all add: h is_sps_def frame_type_of_def frame_data_def) (simp add: sps_frame_def)
  have "frame_ok sps_config sps_frame"
    using l c(2) by (simp add: frame_ok_def h) (simp add: sps_config_def demo_config_def)
  moreover have "length ?mem = nat (fr_size (gc_ring sps_config))" using l c(2) by simp
  moreover have "ring_time (gc_ring sps_config) 300 0" by (simp add: ring_time_def c(2))
  moreover have "shows_from (gc_ring sps_config) ?mem 0 (fst sps_frame @ snd sps_frame)"
    by (rule shows_from_place [OF refl]) (simp_all add: c(2) l)
  ultimately show ?thesis
    using low_sps_replacement [OF c(1), of sps_frame ?mem 300 0 "demo_grabber 300"] sps
    by (auto simp: sps_config_def demo_config_def wants_low_def demo_grabber_def stream_type_init_def)
qed

end
