(* ===== verification/H264_Setup.thy ===== *)
theory H264_Setup
  imports H264_Safety
begin

text \<open>
  \<open>main\<close> of \<open>src/h264grabber/h264grabber/h264grabber.c\<close> around the capture loop: the options (as
  \<open>getopt_long\<close> returns them), the checks, the outputs, the detection of the layout, and the loop.  The
  results of the system calls are arguments; the function ends with its exit code or is stopped in the
  loop after any number of passes.
\<close>

section \<open>Options\<close>

record grab_settings =
  gs_resolution :: resolution
  gs_audio :: bool
  gs_sps_timing :: bool
  gs_fifo :: bool
  gs_debug :: bool
  gs_offset :: int
  gs_header_size :: int

definition default_settings :: grab_settings where
  "default_settings = \<lparr>gs_resolution = Res_high, gs_audio = False, gs_sps_timing = True, gs_fifo = False,
     gs_debug = False, gs_offset = 368, gs_header_size = 28\<rparr>"

definition camera_models :: "(string \<times> int \<times> int) list" where
  "camera_models =
     [(''y20ga'', 300, 22), (''y25ga'', 300, 22), (''y30qa'', 300, 22), (''y501gc'', 368, 24),
      (''y21ga'', 368, 28), (''y211ga'', 368, 28), (''y211ba'', 368, 28), (''y213ga'', 368, 28),
      (''y291ga'', 368, 28), (''h30ga'', 368, 28), (''r30gb'', 0, 0), (''r35gb'', 0, 0),
      (''r37gb'', 0, 0), (''r40ga'', 300, 26), (''h51ga'', 368, 28), (''h52ga'', 368, 28),
      (''h60ga'', 368, 28), (''y28ga'', 368, 28), (''y29ga'', 368, 28), (''y623'', 368, 28),
      (''q321br_lsx'', 300, 26), (''qg311r'', 300, 26), (''b091qp'', 300, 26)]"

definition resolutions :: "(string \<times> resolution) list" where
  "resolutions = [(''low'', Res_low), (''high'', Res_high), (''both'', Res_both), (''none'', Res_none)]"

definition grab_option :: "char \<Rightarrow> string \<Rightarrow> grab_settings \<Rightarrow> grab_settings option" where
  "grab_option c arg s =
     (if c = CHR ''m'' then
        Some (case find_ieq camera_models arg of
            Some (off, hs) \<Rightarrow> s\<lparr>gs_offset := off, gs_header_size := hs\<rparr> | None \<Rightarrow> s)
      else if c = CHR ''r'' then
        Some (case find_ieq resolutions arg of Some r \<Rightarrow> s\<lparr>gs_resolution := r\<rparr> | None \<Rightarrow> s)
      else if c = CHR ''a'' then Some (s\<lparr>gs_audio := True\<rparr>)
      else if c = CHR ''s'' then Some (s\<lparr>gs_sps_timing := False\<rparr>)
      else if c = CHR ''f'' then Some (s\<lparr>gs_fifo := True\<rparr>)
      else if c = CHR ''d'' then Some (s\<lparr>gs_debug := True\<rparr>)
      else if c = CHR ''?'' then Some s
      else None)"

fun grab_options :: "(char \<times> string) list \<Rightarrow> grab_settings \<Rightarrow> grab_settings option" where
  "grab_options [] s = Some s"
| "grab_options ((c, arg) # opts) s = Option.bind (grab_option c arg s) (grab_options opts)"

definition grab_check :: "grab_settings \<Rightarrow> bool" where
  "grab_check s \<longleftrightarrow> gs_fifo s \<or> (gs_resolution s \<noteq> Res_both \<and> (gs_resolution s = Res_none \<or> \<not> gs_audio s))"

section \<open>The outputs\<close>

record setup_env =
  se_size :: "int option"
  se_shm_ok :: bool
  se_mapping_ok :: bool
  se_mkfifo_ok :: "out_stream \<Rightarrow> bool"
  se_thread_ok :: "out_stream \<Rightarrow> bool"
  se_fopen_ok :: "out_stream \<Rightarrow> bool"

datatype setup_effect =
    Unlink_fifo out_stream
  | Make_fifo out_stream
  | Start_unlock_thread out_stream
  | Open_fifo out_stream
  | Buffer_stdout out_stream

definition wanted_streams :: "grab_settings \<Rightarrow> out_stream list" where
  "wanted_streams s =
     (if gs_resolution s = Res_low \<or> gs_resolution s = Res_both then [Out_low] else []) @
     (if gs_resolution s = Res_high \<or> gs_resolution s = Res_both then [Out_high] else []) @
     (if gs_audio s then [Out_aac] else [])"

fun open_fifos :: "setup_env \<Rightarrow> out_stream list \<Rightarrow> setup_effect list \<times> bool" where
  "open_fifos e [] = ([], True)"
| "open_fifos e (s # ss) =
     (if \<not> se_mkfifo_ok e s then ([Unlink_fifo s], False)
      else if \<not> se_thread_ok e s then ([Unlink_fifo s, Make_fifo s], False)
      else if \<not> se_fopen_ok e s then ([Unlink_fifo s, Make_fifo s, Start_unlock_thread s], False)
      else (let (es, ok) = open_fifos e ss
            in ([Unlink_fifo s, Make_fifo s, Start_unlock_thread s, Open_fifo s] @ es, ok)))"

definition stdout_stream :: "grab_settings \<Rightarrow> out_stream list" where
  "stdout_stream s =
     (if gs_resolution s = Res_low then [Out_low]
      else if gs_resolution s = Res_high then [Out_high]
      else if gs_audio s then [Out_aac]
      else [])"

text \<open>The exit code, or the size of the buffer and the outputs that are open.\<close>

definition grab_setup :: "setup_env \<Rightarrow> grab_settings \<Rightarrow> setup_effect list \<times> (int + int \<times> out_stream list)" where
  "grab_setup e s =
     (if \<not> grab_check s then ([], Inl (-2))
      else case se_size e of
        None \<Rightarrow> ([], Inl (-3))
      | Some n \<Rightarrow>
          if \<not> se_shm_ok e \<or> \<not> se_mapping_ok e then ([], Inl (-5))
          else if gs_fifo s then
            (let (es, ok) = open_fifos e (wanted_streams s)
             in (es, if ok then Inr (n, wanted_streams s) else Inl (-6)))
          else (map Buffer_stdout (stdout_stream s), Inr (n, stdout_stream s)))"

section \<open>The layout\<close>

definition int_at :: "byte list \<Rightarrow> int \<Rightarrow> int option" where
  "int_at mem p = map_option (\<lambda>bs. sint (le32 bs 0)) (mem_read mem p 4)"

definition detect_offset :: "byte list \<Rightarrow> int \<Rightarrow> int option" where
  "detect_offset mem off =
     (if off = 0 then do { i \<leftarrow> int_at mem 300; Some (if i \<noteq> 0 then 300 else 368) } else Some off)"

definition first_end :: "frame_ring \<Rightarrow> byte list \<Rightarrow> int option" where
  "first_end r mem = do {
     i \<leftarrow> int_at mem 16;
     n \<leftarrow> int_at mem 4;
     let e = fr_offset r + i + n;
     Some (if e \<ge> fr_size r then e - fr_span r else e)
   }"

text \<open>
  A try to find the size of a header: the distance from the bytes \<open>08 00 00 00\<close> of a header, within 40
  bytes before the first picture parameter set, to that set; 0 when it is not found.
\<close>

definition detect_header :: "frame_ring \<Rightarrow> byte list \<Rightarrow> int option" where
  "detect_header r mem = do {
     area \<leftarrow> mem_read mem (fr_offset r) (fr_span r);
     case c_memmem area PPS4_START of
       None \<Rightarrow> Some 0
     | Some k \<Rightarrow>
         let a2 = fr_offset r + int k
         in if a2 - 40 > fr_offset r then do {
              let a1 = cb_move r a2 (-40);
              near \<leftarrow> mem_read mem a1 40;
              case c_memmem near PPS4_HEADER of
                None \<Rightarrow> Some 0
              | Some j \<Rightarrow>
                  let hs = a2 - (a1 + int j);
                      hs = (if hs < 0 then hs + fr_span r else hs)
                  in Some (if hs < 0 \<and> hs > 40 then 0 else hs)
            }
            else Some 0
   }"

text \<open>The loop of tries, as long as the memory is given at each of them; 0 when it still runs.\<close>

fun detect_header_loop :: "frame_ring \<Rightarrow> byte list list \<Rightarrow> int \<Rightarrow> int option" where
  "detect_header_loop r [] hs = Some hs"
| "detect_header_loop r (mem # mems) hs =
     (if hs = 0 then do { hs' \<leftarrow> detect_header r mem; detect_header_loop r mems hs' } else Some hs)"

section \<open>The program\<close>

datatype grab_result =
    Exited int
  | Detecting
  | Captured "out_stream list" grabber "grab_event list"

definition grab_config_of :: "grab_settings \<Rightarrow> frame_ring \<Rightarrow> int \<Rightarrow> grab_config" where
  "grab_config_of s r hs = \<lparr>gc_ring = r, gc_header_size = hs, gc_resolution = gs_resolution s,
     gc_audio = gs_audio s, gc_sps_timing = gs_sps_timing s, gc_debug = gs_debug s\<rparr>"

definition grabber_init :: "int \<Rightarrow> frame_header list \<Rightarrow> grabber" where
  "grabber_init e fhs = \<lparr>gr_end_prev = e, gr_last_counter = 0, gr_last_low = -1, gr_last_high = -1, gr_last_audio = -1,
     gr_fhs = fhs, gr_stream = stream_type_init\<rparr>"

text \<open>
  \<open>mem\<close> is the mapping when the positions are first read, \<open>mems\<close> at the tries of the detection, \<open>vs\<close>
  what the passes see; \<open>fhs\<close> is what the array on the stack holds at first.
\<close>

definition h264grabber_main ::
  "(char \<times> string) list \<Rightarrow> setup_env \<Rightarrow> byte list \<Rightarrow> byte list list \<Rightarrow> grab_view list \<Rightarrow> frame_header list \<Rightarrow>
   setup_effect list \<times> grab_result option" where
  "h264grabber_main opts e mem mems vs fhs =
     (case grab_options opts default_settings of
        None \<Rightarrow> ([], Some (Exited (-1)))
      | Some s \<Rightarrow>
          (case grab_setup e s of
             (es, Inl code) \<Rightarrow> (es, Some (Exited code))
           | (es, Inr (n, outs)) \<Rightarrow>
               (es, do {
                  off \<leftarrow> detect_offset mem (gs_offset s);
                  let r = \<lparr>fr_offset = off, fr_size = n\<rparr>;
                  e \<leftarrow> first_end r mem;
                  hs \<leftarrow> detect_header_loop r mems (gs_header_size s);
                  if hs = 0 then Some Detecting
                  else do {
                    (g, out) \<leftarrow> grab_passes (grab_config_of s r hs) vs (grabber_init e fhs);
                    Some (Captured outs g out)
                  }
                })))"

section \<open>What the options and the detection give\<close>

definition layout_ok :: "grab_settings \<Rightarrow> bool" where
  "layout_ok s \<longleftrightarrow> (gs_offset s, gs_header_size s) \<in> {(300, 22), (368, 24), (368, 28), (300, 26), (0, 0)}"

lemma camera_layouts: "x \<in> snd ` set camera_models \<Longrightarrow> x \<in> {(300, 22), (368, 24), (368, 28), (300, 26), (0, 0)}"
  by (auto simp: camera_models_def)

lemma grab_option_change:
  assumes "grab_option c arg s = Some s'"
  shows "(gs_offset s', gs_header_size s') = (gs_offset s, gs_header_size s) \<or>
    find_ieq camera_models arg = Some (gs_offset s', gs_header_size s')"
  using assms unfolding grab_option_def by (simp split: if_splits option.splits prod.splits) auto

lemma grab_option_layout: "grab_option c arg s = Some s' \<Longrightarrow> layout_ok s \<Longrightarrow> layout_ok s'"
  using grab_option_change [of c arg s s'] camera_layouts [OF find_ieq_in] unfolding layout_ok_def by metis

lemma grab_options_layout: "grab_options opts s = Some s' \<Longrightarrow> layout_ok s \<Longrightarrow> layout_ok s'"
  by (induction opts s rule: grab_options.induct) (auto simp: bind_eq_Some_conv dest: grab_option_layout)

lemma default_layout: "layout_ok default_settings"
  by (simp add: layout_ok_def default_settings_def)

lemma detect_header_range:
  assumes "ring_ok r mem"
  shows "\<exists>hs. detect_header r mem = Some hs \<and> (hs = 0 \<or> 4 \<le> hs \<and> hs \<le> 40)"
proof -
  have r: "0 \<le> fr_offset r" "fr_offset r < fr_size r" "fr_size r = int (length mem)"
    using assms by (simp_all add: ring_ok_def)
  obtain area where area: "mem_read mem (fr_offset r) (fr_span r) = Some area" "length area = nat (fr_span r)"
    using mem_read_some [of "fr_offset r" "fr_span r" mem] mem_read_length r by fastforce
  show ?thesis
  proof (cases "c_memmem area PPS4_START")
    case None
    then show ?thesis using area by (simp add: detect_header_def)
  next
    case (Some k)
    let ?a2 = "fr_offset r + int k"
    have k: "k \<le> length area" using c_memmem_first [OF Some] by (simp add: PPS4_START_def)
    show ?thesis
    proof (cases "?a2 - 40 > fr_offset r")
      case False
      then show ?thesis using area Some by (simp add: detect_header_def Let_def)
    next
      case True
      then have a1: "cb_move r ?a2 (-40) = ?a2 - 40" by (simp add: cb_move_def Let_def)
      obtain near where near: "mem_read mem (?a2 - 40) 40 = Some near" "length near = 40"
        using mem_read_some [of "?a2 - 40" 40 mem] mem_read_length [of mem "?a2 - 40" 40] True r k area(2) by force
      show ?thesis
      proof (cases "c_memmem near PPS4_HEADER")
        case None
        then show ?thesis using area Some True a1 near(1) by (simp add: detect_header_def Let_def)
      next
        case (Some j)
        then have "j + 4 \<le> 40" using c_memmem_first [OF Some] near(2) by (simp add: PPS4_HEADER_def)
        then show ?thesis using area \<open>c_memmem area PPS4_START = Some k\<close> True a1 near(1) Some
          by (simp add: detect_header_def Let_def)
      qed
    qed
  qed
qed

lemma detect_loop_range:
  assumes "\<forall>m\<in>set mems. ring_ok r m" "hs = 0 \<or> 4 \<le> hs \<and> hs \<le> 40"
  shows "\<exists>hs'. detect_header_loop r mems hs = Some hs' \<and> (hs' = 0 \<or> 4 \<le> hs' \<and> hs' \<le> 40)"
  using assms
proof (induction mems arbitrary: hs)
  case (Cons m mems)
  show ?case
  proof (cases "hs = 0")
    case True
    obtain hs1 where "detect_header r m = Some hs1" "hs1 = 0 \<or> 4 \<le> hs1 \<and> hs1 \<le> 40"
      using detect_header_range [of r m] Cons.prems(1) by auto
    then show ?thesis using Cons.IH [of hs1] Cons.prems(1) True by simp
  qed (use Cons.prems in simp)
qed simp

section \<open>Writes go to open outputs\<close>

definition writes_to :: "out_stream set \<Rightarrow> grab_event list \<Rightarrow> bool" where
  "writes_to outs es \<longleftrightarrow> fst ` set (writes es) \<subseteq> outs"

definition config_outs :: "grab_config \<Rightarrow> out_stream set" where
  "config_outs c = {o'. (o' = Out_low \<and> wants_low c) \<or> (o' = Out_high \<and> wants_high c) \<or> (o' = Out_aac \<and> gc_audio c)}"

lemma writes_to_simps [simp]:
  "writes_to o' []" "writes_to o' (a @ b) \<longleftrightarrow> writes_to o' a \<and> writes_to o' b"
  "writes_to o' (Frames_lost n # a) \<longleftrightarrow> writes_to o' a"
  by (auto simp: writes_to_def)

lemma send_frame_outs:
  assumes "send_frame c mem hp g = Some (g', es)"
  shows "writes_to (config_outs c) es"
proof -
  obtain h p where hp: "hp = (h, p)" by fastforce
  let ?r = "gc_ring c"
  let ?start = "cb_move ?r p (if is_sps h then gc_header_size c + 6 else gc_header_size c)"
  obtain st where st: "(if is_sps h then detect_stream ?r mem ?start h (gr_stream g) else Some (gr_stream g)) = Some st"
    using assms by (auto simp: hp send_frame_def Let_def bind_eq_Some_conv)
  obtain g1 es1 w where cf: "count_frame c h (g\<lparr>gr_stream := st\<rparr>) = (g1, es1, w)" by (metis prod_cases3)
  have "writes es1 = []" using count_frame_stream [OF cf] by blast
  moreover have "out_for c st ft = Some out \<Longrightarrow> out \<in> config_outs c" for ft out
    by (auto simp: config_outs_def out_for_def split: if_splits)
  ultimately show ?thesis
    using assms unfolding hp send_frame_eq [OF st cf]
    by (auto simp: writes_to_def bind_eq_Some_conv split: option.splits if_splits)
qed

lemma send_frames_outs: "send_frames c mems hps g = Some (g', es) \<Longrightarrow> writes_to (config_outs c) es"
  by (induction c mems hps g arbitrary: g' es rule: send_frames.induct)
    (auto simp: bind_eq_Some_conv dest: send_frame_outs)

lemma grab_pass_outs: "grab_pass c v g = Some (g', es, us) \<Longrightarrow> writes_to (config_outs c) es"
  by (auto simp: grab_pass_def Let_def bind_eq_Some_conv split: if_splits dest!: send_frames_outs)

lemma grab_passes_outs: "grab_passes c vs g = Some (g', es) \<Longrightarrow> writes_to (config_outs c) es"
  by (induction c vs g arbitrary: g' es rule: grab_passes.induct)
    (auto simp: bind_eq_Some_conv dest: grab_pass_outs)

definition view_mapped :: "grab_config \<Rightarrow> grab_view \<Rightarrow> bool" where
  "view_mapped c v \<longleftrightarrow> (\<forall>k. mapped c (gv_headers v k) \<and> mapped c (gv_frames v k)) \<and>
     in_ring c (fr_offset (gc_ring c) + gv_finish v)"

lemma passes_stay_in_mapping:
  assumes "config_safe c" "list_all (view_mapped c) vs" "in_ring c (gr_end_prev g)" "length (gr_fhs g) = 10"
  shows "\<exists>g' es. grab_passes c vs g = Some (g', es) \<and> in_ring c (gr_end_prev g') \<and> short_writes c es"
  using assms(2-)
proof (induction vs arbitrary: g)
  case Nil
  then show ?case by (simp add: short_writes_def)
next
  case (Cons v vs)
  have "\<exists>g' es us. grab_pass c v g = Some (g', es, us) \<and> in_ring c (gr_end_prev g') \<and>
      length (gr_fhs g') = 10 \<and> short_writes c es"
    using Cons.prems by (intro pass_stays_in_mapping [OF assms(1)]) (simp_all add: view_mapped_def)
  then obtain g1 es1 us where 1: "grab_pass c v g = Some (g1, es1, us)" "in_ring c (gr_end_prev g1)"
    "length (gr_fhs g1) = 10" "short_writes c es1" by blast
  obtain g2 es2 where "grab_passes c vs g1 = Some (g2, es2)" "in_ring c (gr_end_prev g2)" "short_writes c es2"
    using Cons.IH [OF _ 1(2,3)] Cons.prems(1) by auto
  then show ?case using 1 by simp
qed

section \<open>The program\<close>

text \<open>
  What the vendor's process is relied on for: a buffer of at least 468 bytes and less than 1 GB that is
  mapped whole, and control words that lie in it, now and in each pass.
\<close>

definition buffer_ok :: "int \<Rightarrow> byte list \<Rightarrow> byte list list \<Rightarrow> grab_view list \<Rightarrow> bool" where
  "buffer_ok n mem mems vs \<longleftrightarrow> 468 \<le> n \<and> n < 2 ^ 30 \<and> (\<forall>m\<in>set (mem # mems). int (length m) = n) \<and>
     (\<exists>i k. int_at mem 16 = Some i \<and> int_at mem 4 = Some k \<and> 0 \<le> i \<and> i \<le> n - 368 \<and> 0 \<le> k \<and> k \<le> n - 368) \<and>
     (\<forall>v\<in>set vs. (\<forall>k. int (length (gv_headers v k)) = n \<and> int (length (gv_frames v k)) = n) \<and>
        0 \<le> gv_finish v \<and> gv_finish v \<le> n - 368)"

lemma setup_outs:
  assumes "grab_setup e s = (es, Inr (n, outs))"
  shows "se_size e = Some n" "config_outs (grab_config_of s r hs) \<subseteq> set outs" "\<not> gs_fifo s \<Longrightarrow> length outs \<le> 1"
proof -
  have n: "se_size e = Some n" and c: "grab_check s"
    and outs: "outs = (if gs_fifo s then wanted_streams s else stdout_stream s)"
    using assms by (auto simp: grab_setup_def Let_def split: if_splits option.splits prod.splits)
  show "se_size e = Some n" by (rule n)
  show "config_outs (grab_config_of s r hs) \<subseteq> set outs"
    using c by (auto simp: outs config_outs_def grab_config_of_def wants_low_def wants_high_def wanted_streams_def
        stdout_stream_def grab_check_def)
  show "\<not> gs_fifo s \<Longrightarrow> length outs \<le> 1" by (simp add: outs stdout_stream_def)
qed

text \<open>
  C6. The grabber writes only to outputs it has opened and stays inside the buffer: for any options,
  any failures of the system calls and any contents of the buffer, as long as the control words lie in
  it, the program exits, still looks for the header size, or captures without a fault; every write
  goes to an open output and is no longer than the buffer, and without fifos at most one stream is
  open, so that standard output never gets two streams mixed.
\<close>

theorem grabber_is_safe:
  assumes "\<And>n. se_size e = Some n \<Longrightarrow> buffer_ok n mem mems vs" "length fhs = 10"
  shows "\<exists>es res. h264grabber_main opts e mem mems vs fhs = (es, Some res) \<and>
    (\<forall>outs g out. res = Captured outs g out \<longrightarrow>
       writes_to (set outs) out \<and> (\<forall>w\<in>set (writes out). se_size e \<noteq> None \<and> int (length (snd w)) \<le> the (se_size e)) \<and>
       (\<forall>s. grab_options opts default_settings = Some s \<and> \<not> gs_fifo s \<longrightarrow> length outs \<le> 1))"
proof (cases "grab_options opts default_settings")
  case None
  then show ?thesis by (simp add: h264grabber_main_def)
next
  case (Some s)
  note opts = Some
  show ?thesis
  proof (cases "snd (grab_setup e s)")
    case (Inl code)
    then show ?thesis using opts by (cases "grab_setup e s") (simp add: h264grabber_main_def)
  next
    case (Inr no)
    obtain es n outs where opened: "grab_setup e s = (es, Inr (n, outs))" using Inr by (cases "grab_setup e s"; cases no) auto
    note so = setup_outs [OF opened]
    have b: "buffer_ok n mem mems vs" by (rule assms(1) [OF so(1)])
    have lay: "layout_ok s" by (rule grab_options_layout [OF opts default_layout])
    have len: "int (length mem) = n" "468 \<le> n" "n < 2 ^ 30" using b by (simp_all add: buffer_ok_def)
    obtain off where off: "detect_offset mem (gs_offset s) = Some off" "off = 300 \<or> off = 368"
      using lay mem_read_some [of 300 4 mem] len by (auto simp: layout_ok_def detect_offset_def int_at_def)
    let ?r = "\<lparr>fr_offset = off, fr_size = n\<rparr>"
    obtain i k where ik: "int_at mem 16 = Some i" "int_at mem 4 = Some k" "0 \<le> i" "i \<le> n - 368" "0 \<le> k" "k \<le> n - 368"
      using b by (auto simp: buffer_ok_def)
    let ?e0 = "off + i + k"
    let ?e = "if ?e0 \<ge> n then ?e0 - (n - off) else ?e0"
    have e: "first_end ?r mem = Some ?e" using ik by (simp add: first_end_def Let_def)
    have "\<forall>m\<in>set mems. ring_ok ?r m" using b off(2) by (auto simp: buffer_ok_def ring_ok_def)
    then obtain hs where hs: "detect_header_loop ?r mems (gs_header_size s) = Some hs" "hs = 0 \<or> 4 \<le> hs \<and> hs \<le> 40"
      using detect_loop_range [of mems ?r "gs_header_size s"] lay by (auto simp: layout_ok_def)
    show ?thesis
    proof (cases "hs = 0")
      case True
      then show ?thesis using opts opened off(1) e hs(1) by (simp add: h264grabber_main_def Let_def)
    next
      case False
      let ?c = "grab_config_of s ?r hs"
      have c: "config_safe ?c" using False hs(2) off(2) len by (auto simp: config_safe_def grab_config_of_def)
      have vs: "list_all (view_mapped ?c) vs"
        using b off(2) by (auto simp: list_all_iff view_mapped_def mapped_def in_ring_def buffer_ok_def grab_config_of_def)
      have start: "in_ring ?c (gr_end_prev (grabber_init ?e fhs))" "length (gr_fhs (grabber_init ?e fhs)) = 10"
        using ik off(2) len(2) assms(2) by (auto simp: in_ring_def grab_config_of_def grabber_init_def)
      obtain g out where p: "grab_passes ?c vs (grabber_init ?e fhs) = Some (g, out)" "short_writes ?c out"
        using passes_stay_in_mapping [OF c vs start] by blast
      have "h264grabber_main opts e mem mems vs fhs = (es, Some (Captured outs g out))"
        using opts opened off(1) e hs(1) False p(1) by (simp add: h264grabber_main_def Let_def)
      moreover have "writes_to (set outs) out"
        using grab_passes_outs [OF p(1)] so(2) [of ?r hs] by (auto simp: writes_to_def)
      moreover have "\<forall>w\<in>set (writes out). int (length (snd w)) \<le> n"
        using p(2) off(2) by (auto simp: short_writes_def list_all_iff grab_config_of_def)
      ultimately show ?thesis using so(1,3) opts by auto
    qed
  qed
qed

definition demo_env :: setup_env where
  "demo_env = \<lparr>se_size = Some 500, se_shm_ok = True, se_mapping_ok = True, se_mkfifo_ok = \<lambda>_. True,
     se_thread_ok = \<lambda>_. True, se_fopen_ok = \<lambda>_. True\<rparr>"

lemma grabber_is_safe_witness:
  "\<exists>es res. h264grabber_main [(CHR ''m'', ''Y623''), (CHR ''a'', []), (CHR ''r'', ''none'')] demo_env (replicate 500 0) []
       [] (gr_fhs (demo_grabber 0)) = (es, Some res) \<and> (\<forall>outs g out. res = Captured outs g out \<longrightarrow> writes_to (set outs) out)"
proof -
  have "int_at (replicate 500 0) p = Some 0" if "0 \<le> p" "p + 4 \<le> 500" for p
    using that by (simp add: int_at_def mem_read_def le32_def)
  then have "buffer_ok n (replicate 500 0) [] []" if "se_size demo_env = Some n" for n
    using that by (simp add: buffer_ok_def demo_env_def)
  moreover have "length (gr_fhs (demo_grabber 0)) = 10" by (simp add: demo_grabber_def)
  ultimately show ?thesis
    using grabber_is_safe [of demo_env "replicate 500 0" "[]" "[]" "gr_fhs (demo_grabber 0)"
        "[(CHR ''m'', ''Y623''), (CHR ''a'', []), (CHR ''r'', ''none'')]"] by blast
qed

end
