(* ===== verification/Ipc_Multiplex.thy ===== *)
theory Ipc_Multiplex
  imports Ipc2file "HOL-Library.Sublist"
begin

text \<open>
  \<open>src/ipc_cmd/ipc_cmd/ipc_multiplex.c\<close> and \<open>.h\<close>: the library that is loaded into the vendor's broker and
  wraps \<open>mq_receive\<close>: what the broker receives is also sent to the dispatch queues, one for the alarm
  consumer of theory \<open>Ipc2file\<close>, or nine for diagnosis.  The kernel's queues are a map from names; the
  answers of the original \<open>mq_receive\<close> are arguments.  The debug dump is not modelled.
\<close>

section \<open>Message queues of the kernel\<close>

text \<open>All messages have one priority, \<open>MESSAGE_PRIORITY\<close>, so a queue is first in, first out.\<close>

record message_queue =
  mq_maxmsg :: nat
  mq_msgsize :: nat
  mq_msgs :: "byte list list"

type_synonym mq_kernel = "string \<Rightarrow> message_queue option"

definition mq_send_nonblock :: "message_queue \<Rightarrow> byte list \<Rightarrow> errno option \<times> message_queue" where
  "mq_send_nonblock q m =
     (if length m > mq_msgsize q then (Some EMSGSIZE, q)
      else if length (mq_msgs q) \<ge> mq_maxmsg q then (Some EAGAIN, q)
      else (None, q\<lparr>mq_msgs := mq_msgs q @ [m]\<rparr>))"

text \<open>\<open>mq_open\<close> with \<open>O_CREAT\<close>: a queue that exists keeps its attributes.\<close>

definition mq_open_create :: "bool \<Rightarrow> nat \<Rightarrow> nat \<Rightarrow> string \<Rightarrow> mq_kernel \<Rightarrow> bool \<times> mq_kernel" where
  "mq_open_create ok maxmsg msgsize name k =
     (if \<not> ok then (False, k)
      else (True, case k name of
              Some _ \<Rightarrow> k
            | None \<Rightarrow> k(name \<mapsto> \<lparr>mq_maxmsg = maxmsg, mq_msgsize = msgsize, mq_msgs = []\<rparr>)))"

section \<open>The library\<close>

text \<open>\<open>mx_open i\<close> is whether \<open>ipc_mq[i]\<close> is not \<open>INVALID_QUEUE\<close>; \<open>mx_original\<close> whether \<open>dlsym\<close> found it.\<close>

record multiplex =
  mx_done :: bool
  mx_first :: nat
  mx_last :: nat
  mx_open :: "nat \<Rightarrow> bool"
  mx_original :: bool

definition multiplex_start :: multiplex where
  "multiplex_start = \<lparr>mx_done = False, mx_first = 2, mx_last = 2, mx_open = \<lambda>_. True, mx_original = False\<rparr>"

record multiplex_env =
  mxe_all :: "string option"
  mxe_open_ok :: "string \<Rightarrow> bool"
  mxe_dlsym_ok :: bool

definition dispatch_name :: "nat \<Rightarrow> string" where
  "dispatch_name i = queue_path (int i)"

definition open_dispatch :: "multiplex_env \<Rightarrow> nat \<Rightarrow> multiplex \<times> mq_kernel \<Rightarrow> multiplex \<times> mq_kernel" where
  "open_dispatch e i s =
     (case s of (x, k) \<Rightarrow>
        let (ok, k') = mq_open_create (mxe_open_ok e (dispatch_name i)) 64 ipc_message_max_size (dispatch_name i) k
        in (x\<lparr>mx_open := (mx_open x)(i := ok)\<rparr>, k'))"

definition ipc_multiplex_initialize :: "multiplex_env \<Rightarrow> multiplex \<times> mq_kernel \<Rightarrow> multiplex \<times> mq_kernel" where
  "ipc_multiplex_initialize e s =
     (case s of (x, k) \<Rightarrow>
        let x1 = (if mxe_all e = Some ''1'' then x\<lparr>mx_first := 1, mx_last := 9\<rparr> else x);
            (x2, k2) = fold (open_dispatch e) [mx_first x1..<Suc (mx_last x1)] (x1, k)
        in (x2\<lparr>mx_done := True, mx_original := mxe_dlsym_ok e\<rparr>, k2))"

text \<open>\<open>pthread_once\<close>.\<close>

definition initialize_once :: "multiplex_env \<Rightarrow> multiplex \<times> mq_kernel \<Rightarrow> multiplex \<times> mq_kernel" where
  "initialize_once e s = (if mx_done (fst s) then s else ipc_multiplex_initialize e s)"

definition mirror_to :: "byte list \<Rightarrow> nat \<Rightarrow> multiplex \<Rightarrow> mq_kernel \<times> (nat \<times> errno) list \<Rightarrow> mq_kernel \<times> (nat \<times> errno) list" where
  "mirror_to m i x s =
     (case s of (k, failed) \<Rightarrow>
        if \<not> mx_open x i then (k, failed)
        else case k (dispatch_name i) of
            None \<Rightarrow> (k, failed)
          | Some q \<Rightarrow>
              (case mq_send_nonblock q m of
                 (None, q') \<Rightarrow> (k(dispatch_name i \<mapsto> q'), failed)
               | (Some err, _) \<Rightarrow> (k, if err \<noteq> EAGAIN then failed @ [(i, err)] else failed)))"

text \<open>The answer of the original function: an error, or the bytes it stored; and \<open>errno\<close> after it.\<close>

datatype receive_answer = Receive_failed | Received_bytes "byte list"

type_synonym original_receive = "receive_answer \<times> errno"

definition answer_value :: "receive_answer \<Rightarrow> int" where
  "answer_value a = (case a of Receive_failed \<Rightarrow> -1 | Received_bytes m \<Rightarrow> int (length m))"

text \<open>The result of a call is the value and \<open>errno\<close>; the list has the failures that are logged.\<close>

definition mq_receive ::
  "multiplex_env \<Rightarrow> original_receive \<Rightarrow> multiplex \<times> mq_kernel \<Rightarrow>
   (int \<times> errno) \<times> (nat \<times> errno) list \<times> multiplex \<times> mq_kernel" where
  "mq_receive e original s =
     (let (x, k) = initialize_once e s
      in if \<not> mx_original x then ((-1, ENOSYS), [], x, k)
         else case original of
             (Receive_failed, err) \<Rightarrow> ((-1, err), [], x, k)
           | (Received_bytes m, saved) \<Rightarrow>
               (let (k', failed) = fold (\<lambda>i. mirror_to m i x) [mx_first x..<Suc (mx_last x)] (k, [])
                in ((int (length m), saved), failed, x, k')))"

section \<open>The broker and the readers\<close>

text \<open>Calls of the broker and receives of the readers of the dispatch queues, in any order.\<close>

datatype mirror_event = Broker original_receive | Reader nat

record mirror_run =
  mr_library :: "multiplex \<times> mq_kernel"
  mr_results :: "(int \<times> errno) list"
  mr_read :: "nat \<Rightarrow> byte list list"

fun mirror_step :: "multiplex_env \<Rightarrow> mirror_event \<Rightarrow> mirror_run \<Rightarrow> mirror_run" where
  "mirror_step e (Broker original) s =
     (let (res, failed, lib) = mq_receive e original (mr_library s)
      in s\<lparr>mr_library := lib, mr_results := mr_results s @ [res]\<rparr>)"
| "mirror_step e (Reader i) s =
     (case snd (mr_library s) (dispatch_name i) of
        Some q \<Rightarrow>
          (case mq_msgs q of
             [] \<Rightarrow> s
           | m # ms \<Rightarrow> s\<lparr>mr_library := (fst (mr_library s), (snd (mr_library s))(dispatch_name i \<mapsto> q\<lparr>mq_msgs := ms\<rparr>)),
                          mr_read := (mr_read s)(i := mr_read s i @ [m])\<rparr>)
      | None \<Rightarrow> s)"

definition mirror_runs :: "multiplex_env \<Rightarrow> mirror_event list \<Rightarrow> mirror_run \<Rightarrow> mirror_run" where
  "mirror_runs e = fold (mirror_step e)"

section \<open>A bounded queue\<close>

text \<open>The abstract reader's view: what waits and what was read, with a bound on the number and on the size.\<close>

fun bounded_step :: "nat \<Rightarrow> nat \<Rightarrow> nat \<Rightarrow> mirror_event \<Rightarrow> byte list list \<times> byte list list \<Rightarrow> byte list list \<times> byte list list" where
  "bounded_step i n sz (Broker (Received_bytes m, err)) (waiting, got) =
     (if length m \<le> sz \<and> length waiting < n then (waiting @ [m], got) else (waiting, got))"
| "bounded_step i n sz (Broker (Receive_failed, err)) (waiting, got) = (waiting, got)"
| "bounded_step i n sz (Reader j) (waiting, got) =
     (if j = i \<and> waiting \<noteq> [] then (tl waiting, got @ [hd waiting]) else (waiting, got))"

fun broker_messages :: "mirror_event list \<Rightarrow> byte list list" where
  "broker_messages [] = []"
| "broker_messages (Broker (Received_bytes m, err) # steps) = m # broker_messages steps"
| "broker_messages (_ # steps) = broker_messages steps"

fun broker_answers :: "mirror_event list \<Rightarrow> (int \<times> errno) list" where
  "broker_answers [] = []"
| "broker_answers (Broker (a, err) # steps) = (answer_value a, err) # broker_answers steps"
| "broker_answers (Reader i # steps) = broker_answers steps"

lemma dispatch_name_inj: "dispatch_name i = dispatch_name j \<longleftrightarrow> i = j"
proof
  assume "dispatch_name i = dispatch_name j"
  then have "show_nat i = show_nat j" by (simp add: dispatch_name_def queue_path_def show_int_def)
  then show "i = j" by (metis dec_acc_show_nat)
qed simp

text \<open>The state between calls: the library is set up for the queues \<open>a\<close> to \<open>b\<close>, and an open one exists.\<close>

definition mirror_ready :: "nat \<Rightarrow> nat \<Rightarrow> mirror_run \<Rightarrow> bool" where
  "mirror_ready a b s \<longleftrightarrow> (case mr_library s of (x, k) \<Rightarrow>
     mx_done x \<and> mx_original x \<and> mx_first x = a \<and> mx_last x = b)"

definition queue_view :: "nat \<Rightarrow> nat \<Rightarrow> nat \<Rightarrow> byte list list \<times> byte list list \<Rightarrow> mirror_run \<Rightarrow> bool" where
  "queue_view i n sz v s \<longleftrightarrow> (case mr_library s of (x, k) \<Rightarrow>
     mx_open x i \<and> k (dispatch_name i) = Some \<lparr>mq_maxmsg = n, mq_msgsize = sz, mq_msgs = fst v\<rparr> \<and> mr_read s i = snd v)"

lemma mirror_to_other: "dispatch_name i \<noteq> nm \<Longrightarrow> fst (mirror_to m i x (k, f)) nm = k nm"
  by (auto simp: mirror_to_def mq_send_nonblock_def split: option.splits)

lemma fold_mirror_other:
  assumes "i \<notin> set is"
  shows "fst (fold (\<lambda>i. mirror_to m i x) is (k, f)) (dispatch_name i) = k (dispatch_name i)"
  using assms
proof (induction "is" arbitrary: k f)
  case (Cons j js)
  obtain k' f' where s: "mirror_to m j x (k, f) = (k', f')" by fastforce
  then have "k' (dispatch_name i) = k (dispatch_name i)"
    using mirror_to_other [of j "dispatch_name i" m x k f] Cons.prems by (simp add: dispatch_name_inj)
  then show ?case using Cons s by simp
qed simp

lemma fold_mirror_one:
  assumes "i \<in> set is" "distinct is" "mx_open x i" "k (dispatch_name i) = Some q"
  shows "fst (fold (\<lambda>i. mirror_to m i x) is (k, f)) (dispatch_name i) = Some (snd (mq_send_nonblock q m))"
  using assms
proof (induction "is" arbitrary: k f)
  case (Cons j js)
  obtain k' f' where s: "mirror_to m j x (k, f) = (k', f')" by fastforce
  show ?case
  proof (cases "j = i")
    case True
    then have "k' (dispatch_name i) = Some (snd (mq_send_nonblock q m))"
      using s Cons.prems(3,4) by (auto simp: mirror_to_def mq_send_nonblock_def split: if_splits)
    then show ?thesis using fold_mirror_other [of i js m x k' f'] Cons.prems(2) True s by simp
  next
    case False
    then have "k' (dispatch_name i) = Some q"
      using mirror_to_other [of j "dispatch_name i" m x k f] s Cons.prems(4) by (simp add: dispatch_name_inj)
    then show ?thesis using Cons False s by simp
  qed
qed simp

lemma mirror_step_view:
  assumes "mirror_ready a b s" "a \<le> i" "i \<le> b" "queue_view i n sz v s"
  shows "mirror_ready a b (mirror_step e st s)" "queue_view i n sz (bounded_step i n sz st v) (mirror_step e st s)"
    "mr_results (mirror_step e st s) = mr_results s @ broker_answers [st]"
proof -
  obtain x k where lib: "mr_library s = (x, k)" by fastforce
  obtain waiting got where v: "v = (waiting, got)" by fastforce
  have x: "mx_done x" "mx_original x" "mx_first x = a" "mx_last x = b"
    using assms(1) by (simp_all add: mirror_ready_def lib)
  have q: "mx_open x i" "k (dispatch_name i) = Some \<lparr>mq_maxmsg = n, mq_msgsize = sz, mq_msgs = waiting\<rparr>" "mr_read s i = got"
    using assms(4) by (simp_all add: queue_view_def lib v)
  have "mirror_ready a b (mirror_step e st s) \<and> queue_view i n sz (bounded_step i n sz st v) (mirror_step e st s) \<and>
      mr_results (mirror_step e st s) = mr_results s @ broker_answers [st]"
  proof (cases st)
    case (Broker original)
    obtain answer err where o': "original = (answer, err)" by fastforce
    show ?thesis
    proof (cases answer)
      case Receive_failed
      then show ?thesis using x q lib
        by (simp add: Broker o' v mq_receive_def initialize_once_def mirror_ready_def queue_view_def answer_value_def)
    next
      case (Received_bytes m)
      obtain k' f' where f: "fold (\<lambda>i. mirror_to m i x) [a..<Suc b] (k, []) = (k', f')" by fastforce
      have "k' (dispatch_name i) = Some (snd (mq_send_nonblock \<lparr>mq_maxmsg = n, mq_msgsize = sz, mq_msgs = waiting\<rparr> m))"
      proof -
        have "i \<in> set [a..<Suc b]" using assms(2,3) by auto
        from fold_mirror_one [where k = k and x = x and m = m and f = "[]", OF this _ q(1,2)]
        show ?thesis using f by (simp del: upt_Suc)
      qed
      moreover have "mirror_step e st s = s\<lparr>mr_library := (x, k'), mr_results := mr_results s @ [(int (length m), err)]\<rparr>"
        using x f lib by (simp add: Broker o' Received_bytes mq_receive_def initialize_once_def del: upt_Suc)
      ultimately show ?thesis using x q
        by (simp add: Broker o' Received_bytes v mirror_ready_def queue_view_def answer_value_def mq_send_nonblock_def)
    qed
  next
    case (Reader j)
    then show ?thesis using x q lib
      by (auto simp: v mirror_ready_def queue_view_def dispatch_name_inj split: option.splits list.splits)
  qed
  then show "mirror_ready a b (mirror_step e st s)" "queue_view i n sz (bounded_step i n sz st v) (mirror_step e st s)"
    "mr_results (mirror_step e st s) = mr_results s @ broker_answers [st]" by blast+
qed

lemma broker_answers_append: "broker_answers (as @ bs) = broker_answers as @ broker_answers bs"
  by (induction as rule: broker_answers.induct) simp_all

lemma mirror_runs_view:
  assumes "mirror_ready a b s" "a \<le> i" "i \<le> b" "queue_view i n sz v s"
  shows "queue_view i n sz (fold (bounded_step i n sz) steps v) (mirror_runs e steps s) \<and>
    mr_results (mirror_runs e steps s) = mr_results s @ broker_answers steps"
  using assms
proof (induction steps arbitrary: s v)
  case Nil
  then show ?case by (simp add: mirror_runs_def)
next
  case (Cons st steps)
  note step = mirror_step_view [OF Cons.prems, where e = e and st = st]
  have "broker_answers (st # steps) = broker_answers [st] @ broker_answers steps"
    using broker_answers_append [of "[st]" steps] by simp
  then show ?case using Cons.IH [OF step(1) Cons.prems(2,3) step(2)] step(3) by (simp add: mirror_runs_def)
qed

text \<open>The bounded queue never holds more than its bound, and hands on the messages in order.\<close>

lemma bounded_steps_order:
  assumes "length waiting \<le> n" "fold (bounded_step i n sz) steps (waiting, got) = (waiting', got')"
  shows "length waiting' \<le> n \<and> (\<exists>accepted. subseq accepted (broker_messages steps) \<and> got' @ waiting' = got @ waiting @ accepted)"
  using assms
proof (induction steps arbitrary: waiting got)
  case (Cons st steps)
  obtain w1 g1 where s1: "bounded_step i n sz st (waiting, got) = (w1, g1)" by fastforce
  have l1: "length w1 \<le> n" using s1 Cons.prems(1)
    by (cases "(i, n, sz, st, waiting, got)" rule: bounded_step.cases) (auto split: if_splits)
  obtain acc where acc: "length waiting' \<le> n" "subseq acc (broker_messages steps)" "got' @ waiting' = g1 @ w1 @ acc"
    using Cons.IH [OF l1] Cons.prems(2) s1 by auto
  have "\<exists>acc1. subseq (acc1 @ acc) (broker_messages (st # steps)) \<and> g1 @ w1 = got @ waiting @ acc1"
  proof (cases "\<exists>m err. st = Broker (Received_bytes m, err) \<and> length m \<le> sz \<and> length waiting < n")
    case True
    then obtain m err where "st = Broker (Received_bytes m, err)" "g1 @ w1 = got @ waiting @ [m]" using s1 by auto
    then show ?thesis using acc(2) by (intro exI [of _ "[m]"]) simp
  next
    case False
    then have "g1 @ w1 = got @ waiting"
      using s1 by (cases "(i, n, sz, st, waiting, got)" rule: bounded_step.cases) (auto split: if_splits)
    moreover have "subseq acc (broker_messages (st # steps))"
      using acc(2) by (cases "st # steps" rule: broker_messages.cases) (auto intro: subseq_Cons')
    ultimately show ?thesis by (intro exI [of _ "[]"]) simp
  qed
  then show ?case using acc by (metis append.assoc)
qed (auto intro: exI [of _ "[]"])

section \<open>Initialization\<close>

definition dispatch_range :: "multiplex_env \<Rightarrow> nat \<times> nat" where
  "dispatch_range e = (if mxe_all e = Some ''1'' then (1, 9) else (2, 2))"

definition opened_queue :: "mq_kernel \<Rightarrow> string \<Rightarrow> message_queue" where
  "opened_queue k name = (case k name of Some q \<Rightarrow> q | None \<Rightarrow> \<lparr>mq_maxmsg = 64, mq_msgsize = 512, mq_msgs = []\<rparr>)"

lemma fold_open_same:
  "fold (open_dispatch e) is (x, k) = (x', k') \<Longrightarrow> mx_first x' = mx_first x \<and> mx_last x' = mx_last x"
proof (induction "is" arbitrary: x k)
  case (Cons j js)
  obtain x1 k1 where "open_dispatch e j (x, k) = (x1, k1)" by fastforce
  then show ?case using Cons by (auto simp: open_dispatch_def Let_def split: prod.splits)
qed simp

lemma fold_open_other:
  "i \<notin> set is \<Longrightarrow> fold (open_dispatch e) is (x, k) = (x', k') \<Longrightarrow>
     mx_open x' i = mx_open x i \<and> k' (dispatch_name i) = k (dispatch_name i)"
proof (induction "is" arbitrary: x k)
  case (Cons j js)
  obtain x1 k1 where "open_dispatch e j (x, k) = (x1, k1)" by fastforce
  then show ?case using Cons
    by (auto simp: open_dispatch_def mq_open_create_def dispatch_name_inj split: prod.splits if_splits option.splits)
qed simp

lemma fold_open_one:
  assumes "i \<in> set is" "distinct is" "mxe_open_ok e (dispatch_name i)" "fold (open_dispatch e) is (x, k) = (x', k')"
  shows "mx_open x' i \<and> k' (dispatch_name i) = Some (opened_queue k (dispatch_name i))"
  using assms
proof (induction "is" arbitrary: x k)
  case (Cons j js)
  obtain x1 k1 where s: "open_dispatch e j (x, k) = (x1, k1)" by fastforce
  show ?case
  proof (cases "j = i")
    case True
    then have "mx_open x1 i \<and> k1 (dispatch_name i) = Some (opened_queue k (dispatch_name i))"
      using s Cons.prems(3) by (auto simp: open_dispatch_def mq_open_create_def opened_queue_def
          ipc_message_max_size_def split: option.splits)
    then show ?thesis using fold_open_other [of i js e x1 k1 x' k'] Cons.prems(2,4) True s by simp
  next
    case False
    then have "k1 (dispatch_name i) = k (dispatch_name i)"
      using s by (auto simp: open_dispatch_def mq_open_create_def dispatch_name_inj split: if_splits option.splits)
    then show ?thesis using Cons False s by (simp add: opened_queue_def)
  qed
qed simp

lemma initialize_ready:
  assumes "mxe_dlsym_ok e" "mxe_open_ok e (dispatch_name i)" "dispatch_range e = (a, b)" "a \<le> i" "i \<le> b"
    "ipc_multiplex_initialize e (multiplex_start, k) = (x, k')"
  shows "mx_done x" "mx_original x" "mx_first x = a" "mx_last x = b" "mx_open x i"
    "k' (dispatch_name i) = Some (opened_queue k (dispatch_name i))"
proof -
  let ?x = "if mxe_all e = Some ''1'' then multiplex_start\<lparr>mx_first := 1, mx_last := 9\<rparr> else multiplex_start"
  have r: "mx_first ?x = a" "mx_last ?x = b" using assms(3) by (auto simp: dispatch_range_def multiplex_start_def split: if_splits)
  obtain x2 k2 where f: "fold (open_dispatch e) [a..<Suc b] (?x, k) = (x2, k2)" by fastforce
  have "i \<in> set [a..<Suc b]" using assms(4,5) by auto
  note one = fold_open_one [OF this distinct_upt assms(2) f]
  have xk: "x = x2\<lparr>mx_done := True, mx_original := mxe_dlsym_ok e\<rparr>" "k' = k2"
  proof -
    have "ipc_multiplex_initialize e (multiplex_start, k) =
        (x2\<lparr>mx_done := True, mx_original := mxe_dlsym_ok e\<rparr>, k2)"
      by (simp only: ipc_multiplex_initialize_def prod.case Let_def r f)
    then show "x = x2\<lparr>mx_done := True, mx_original := mxe_dlsym_ok e\<rparr>" "k' = k2" using assms(6) by simp_all
  qed
  show "mx_done x" "mx_original x" "mx_first x = a" "mx_last x = b" "mx_open x i"
    "k' (dispatch_name i) = Some (opened_queue k (dispatch_name i))"
    using fold_open_same [OF f] one r assms(1) by (simp_all add: xk)
qed

lemma first_call: "mq_receive e original (multiplex_start, k) =
    mq_receive e original (ipc_multiplex_initialize e (multiplex_start, k))"
proof -
  obtain x k' where i: "ipc_multiplex_initialize e (multiplex_start, k) = (x, k')" by fastforce
  then have "mx_done x" by (auto simp: ipc_multiplex_initialize_def Let_def split: prod.splits)
  then show ?thesis using i by (simp add: mq_receive_def initialize_once_def multiplex_start_def)
qed

text \<open>
  C33. The mirror is invisible to the broker and a bounded queue to a reader.  For any calls of the
  broker, the first of which sets the library up, and any receives of readers in between: every call
  returns the value and \<open>errno\<close> of the original function; each dispatch queue that could be opened
  behaves as a queue of its number of messages and size of message, 64 and 512 when it is new, that
  drops what does not fit and nothing else; so it never holds more than its bound, and what was read
  and what waits are what was there and, in order and each once, messages that the broker received.
\<close>

theorem mirror_is_a_bounded_queue:
  assumes "mxe_dlsym_ok e" "mxe_open_ok e (dispatch_name i)" "dispatch_range e = (a, b)" "a \<le> i" "i \<le> b"
    "mr_library s = (multiplex_start, k)" "mr_results s = []" "mr_read s i = []"
    "opened_queue k (dispatch_name i) = \<lparr>mq_maxmsg = n, mq_msgsize = sz, mq_msgs = old\<rparr>" "length old \<le> n"
    "steps = Broker original # rest" "mirror_runs e steps s = s'"
    "fold (bounded_step i n sz) steps (old, []) = (waiting, got)"
  shows "mr_results s' = broker_answers steps \<and> mr_read s' i = got \<and>
    snd (mr_library s') (dispatch_name i) = Some \<lparr>mq_maxmsg = n, mq_msgsize = sz, mq_msgs = waiting\<rparr> \<and>
    length waiting \<le> n \<and>
    (\<exists>accepted. subseq accepted (broker_messages steps) \<and> got @ waiting = old @ accepted)"
proof -
  obtain x k' where init: "ipc_multiplex_initialize e (multiplex_start, k) = (x, k')" by fastforce
  note r = initialize_ready [OF assms(1-5) init]
  let ?s = "s\<lparr>mr_library := (x, k')\<rparr>"
  have "mirror_step e (Broker original) s = mirror_step e (Broker original) ?s"
    using first_call [of e original k] init by (simp add: assms(6) split: prod.split)
  then have same: "mirror_runs e steps s = mirror_runs e steps ?s" by (simp add: mirror_runs_def assms(11))
  have "mirror_ready a b ?s" "queue_view i n sz (old, []) ?s"
    using r assms(8,9) by (simp_all add: mirror_ready_def queue_view_def)
  from mirror_runs_view [OF this(1) assms(4,5) this(2), where steps = steps and e = e]
  have v: "queue_view i n sz (waiting, got) s'" "mr_results s' = broker_answers steps"
    using assms(7,12,13) same by simp_all
  have "length waiting \<le> n \<and> (\<exists>accepted. subseq accepted (broker_messages steps) \<and> got @ waiting = [] @ old @ accepted)"
    by (rule bounded_steps_order [OF assms(10,13)])
  then show ?thesis using v by (auto simp: queue_view_def split: prod.splits)
qed

definition quiet_mirror_env :: multiplex_env where
  "quiet_mirror_env = \<lparr>mxe_all = None, mxe_open_ok = \<lambda>_. True, mxe_dlsym_ok = True\<rparr>"

definition quiet_run :: mirror_run where
  "quiet_run = \<lparr>mr_library = (multiplex_start, \<lambda>_. None), mr_results = [], mr_read = \<lambda>_. []\<rparr>"

lemma mirror_is_a_bounded_queue_witness:
  "let s' = mirror_runs quiet_mirror_env [Broker (Received_bytes ipc_motion_start, EAGAIN), Reader 2, Broker (Receive_failed, EINTR)] quiet_run
   in mr_results s' = [(16, EAGAIN), (-1, EINTR)] \<and> mr_read s' 2 = [ipc_motion_start]"
proof -
  let ?steps = "[Broker (Received_bytes ipc_motion_start, EAGAIN), Reader 2, Broker (Receive_failed, EINTR)]"
  have q: "opened_queue (\<lambda>_. None) (dispatch_name 2) = \<lparr>mq_maxmsg = 64, mq_msgsize = 512, mq_msgs = []\<rparr>"
    by (simp add: opened_queue_def)
  have f: "fold (bounded_step 2 64 512) ?steps ([], []) = ([], [ipc_motion_start])"
    by (simp add: ipc_motion_start_def)
  have "mr_results (mirror_runs quiet_mirror_env ?steps quiet_run) = broker_answers ?steps \<and>
      mr_read (mirror_runs quiet_mirror_env ?steps quiet_run) 2 = [ipc_motion_start]"
    using mirror_is_a_bounded_queue [where e = quiet_mirror_env and s = quiet_run, OF _ _ _ _ _ _ _ _ q _ refl refl f]
    by (simp add: quiet_mirror_env_def quiet_run_def dispatch_range_def)
  then show ?thesis by (simp add: answer_value_def ipc_motion_start_def)
qed

end
