(* ===== verification/Flash_Mount.thy ===== *)
theory Flash_Mount
  imports Text_Lines
begin

text \<open>
  \<open>src/ipc_cmd/ipc_cmd/flash_mount.c\<close>: the wrapped \<open>mount\<close> that keeps a repeated mount of the SD card
  from covering the mounts made before.  The environment variable, the text of \<open>/proc/mounts\<close> (if it
  can be opened) and the answer of the system call are arguments; null pointers are \<open>None\<close>.
\<close>

definition sd_target :: string where "sd_target = ''/tmp/sd''"
definition sd_type :: string where "sd_type = ''vfat''"

definition sd_device :: "string \<Rightarrow> bool" where
  "sd_device source \<longleftrightarrow> has_prefix ''/dev/mmcblk'' source \<or> has_prefix ''/dev/block/mmcblk'' source"

definition sd_line :: "string \<Rightarrow> bool" where
  "sd_line line =
     (case scan_word 255 line of
        None \<Rightarrow> False
      | Some (source, r1) \<Rightarrow>
          (case scan_word 255 r1 of
             None \<Rightarrow> False
           | Some (target, r2) \<Rightarrow>
               (case scan_word 63 r2 of
                  None \<Rightarrow> False
                | Some (type, _) \<Rightarrow> target = sd_target \<and> type = sd_type \<and> sd_device source)))"

definition sd_already_mounted :: "string option \<Rightarrow> bool" where
  "sd_already_mounted mounts =
     (case mounts of None \<Rightarrow> False | Some text \<Rightarrow> list_ex sd_line (fgets_all 1022 text))"

definition ms_bind :: u32 where "ms_bind = 4096"
definition ms_move :: u32 where "ms_move = 8192"
definition ms_remount :: u32 where "ms_remount = 32"

text \<open>The result of the wrapper is the value and \<open>errno\<close>; the flag is whether the kernel was asked.\<close>

definition flash_mount ::
  "string option \<Rightarrow> string option \<Rightarrow> int \<times> errno \<Rightarrow> errno \<Rightarrow>
   string option \<Rightarrow> string option \<Rightarrow> string option \<Rightarrow> u32 \<Rightarrow> bool \<times> int \<times> errno" where
  "flash_mount flash mounts answer saved source target type flags =
     (if flash = Some ''1'' \<and> target = Some sd_target \<and> type = Some sd_type \<and>
         (case source of None \<Rightarrow> False | Some s \<Rightarrow> sd_device s) \<and>
         flags AND (ms_bind OR ms_move OR ms_remount) = 0 \<and> sd_already_mounted mounts
      then (False, 0, saved)
      else (True, answer))"

section \<open>The table of mounts\<close>

text \<open>An entry as the kernel prints it: the words of a mount, without white space in them.\<close>

record mount_entry =
  mn_source :: string
  mn_target :: string
  mn_type :: string
  mn_rest :: string

definition entry_line :: "mount_entry \<Rightarrow> string" where
  "entry_line m = mn_source m @ '' '' @ mn_target m @ '' '' @ mn_type m @ '' '' @ mn_rest m"

definition plain_word :: "nat \<Rightarrow> string \<Rightarrow> bool" where
  "plain_word n w \<longleftrightarrow> w \<noteq> [] \<and> length w \<le> n \<and> (\<forall>c\<in>set w. \<not> c_isspace c)"

definition entry_ok :: "mount_entry \<Rightarrow> bool" where
  "entry_ok m \<longleftrightarrow> plain_word 255 (mn_source m) \<and> plain_word 255 (mn_target m) \<and> plain_word 63 (mn_type m) \<and>
     newline \<notin> set (mn_rest m) \<and> length (entry_line m) \<le> 1022"

definition entry_is_sd :: "mount_entry \<Rightarrow> bool" where
  "entry_is_sd m \<longleftrightarrow> mn_target m = sd_target \<and> mn_type m = sd_type \<and> sd_device (mn_source m)"

lemma scan_word_plain:
  assumes "plain_word n w" "c_isspace c"
  shows "scan_word n (w @ c # r) = Some (w, c # r)"
proof -
  obtain x xs where w: "w = x # xs" using assms(1) by (cases w) (simp_all add: plain_word_def)
  have "skip_space (w @ c # r) = w @ c # r" using assms(1) by (simp add: skip_space_def w plain_word_def)
  moreover have "takeWhile (\<lambda>c. \<not> c_isspace c) (w @ c # r) = w"
    using assms by (subst takeWhile_append2) (simp_all add: plain_word_def)
  moreover have "0 < n" using assms(1) by (cases n) (auto simp: plain_word_def)
  ultimately show ?thesis using assms(1) by (simp add: scan_word_def Let_def plain_word_def)
qed

lemma scan_word_blank: "c_isspace c \<Longrightarrow> scan_word n (c # s) = scan_word n s"
  by (simp add: scan_word_def skip_space_def)

lemma sd_line_entry: "entry_ok m \<Longrightarrow> sd_line (entry_line m @ [newline]) \<longleftrightarrow> entry_is_sd m"
  by (simp add: sd_line_def entry_line_def entry_ok_def entry_is_sd_def scan_word_plain scan_word_blank)

lemma newline_not_plain: "plain_word n w \<Longrightarrow> newline \<notin> set w"
  by (auto simp: plain_word_def)

text \<open>
  The mount guard: with the table of mounts as the kernel prints it, the wrapper answers 0 by itself,
  without asking the kernel and with \<open>errno\<close> as it was, exactly when the flash core is enabled, the call
  is a fresh mount of an SD card device on \<open>/tmp/sd\<close> as \<open>vfat\<close>, and an entry of the table is such a
  mount; every other call goes to the kernel with its own result.  When the table cannot be read, all do.
\<close>

theorem mount_is_guarded:
  assumes "\<forall>m\<in>set entries. entry_ok m"
  shows "flash_mount flash (Some (text_of_lines (map entry_line entries))) answer saved source target type flags =
     (if flash = Some ''1'' \<and> target = Some ''/tmp/sd'' \<and> type = Some ''vfat'' \<and>
         (\<exists>s. source = Some s \<and> sd_device s) \<and> flags AND 0x3020 = 0 \<and>
         (\<exists>m\<in>set entries. entry_is_sd m)
      then (False, 0, saved) else (True, answer)) \<and>
    flash_mount flash None answer saved source target type flags = (True, answer)"
proof -
  have "\<forall>l\<in>set (map entry_line entries). newline \<notin> set l \<and> length l \<le> 1022"
  proof
    fix l assume "l \<in> set (map entry_line entries)"
    then obtain m where m: "m \<in> set entries" "l = entry_line m" by auto
    then have ok: "entry_ok m" using assms by blast
    then have "newline \<notin> set (mn_source m)" "newline \<notin> set (mn_target m)" "newline \<notin> set (mn_type m)"
      using newline_not_plain by (auto simp: entry_ok_def)
    moreover have "newline \<noteq> CHR '' ''" by (simp add: newline_def)
    ultimately show "newline \<notin> set l \<and> length l \<le> 1022" using ok m(2) by (simp add: entry_ok_def entry_line_def)
  qed
  then have "fgets_all 1022 (text_of_lines (map entry_line entries)) = map (\<lambda>l. l @ [newline]) (map entry_line entries)"
    by (rule fgets_text_of_lines)
  then have "sd_already_mounted (Some (text_of_lines (map entry_line entries))) \<longleftrightarrow> (\<exists>m\<in>set entries. entry_is_sd m)"
    using assms sd_line_entry by (auto simp: sd_already_mounted_def list_ex_iff)
  moreover have "ms_bind OR ms_move OR ms_remount = 0x3020"
    by (simp add: ms_bind_def ms_move_def ms_remount_def)
  moreover have "(case source of None \<Rightarrow> False | Some s \<Rightarrow> sd_device s) \<longleftrightarrow> (\<exists>s. source = Some s \<and> sd_device s)"
    by (cases source) simp_all
  ultimately show ?thesis
    by (simp add: flash_mount_def sd_target_def sd_type_def sd_already_mounted_def [of None])
qed

definition sd_entry :: mount_entry where
  "sd_entry = \<lparr>mn_source = ''/dev/mmcblk0p1'', mn_target = ''/tmp/sd'', mn_type = ''vfat'', mn_rest = ''rw 0 0''\<rparr>"

lemma mount_is_guarded_witness:
  "flash_mount (Some ''1'') (Some (text_of_lines (map entry_line [sd_entry]))) (-1, EIO) EAGAIN
     (Some ''/dev/mmcblk0'') (Some ''/tmp/sd'') (Some ''vfat'') 0 = (False, 0, EAGAIN)"
proof -
  have "\<forall>m\<in>set [sd_entry]. entry_ok m"
    by (simp add: sd_entry_def entry_ok_def plain_word_def entry_line_def cstr_simps newline_def)
  from mount_is_guarded [OF this] show ?thesis
    by (simp add: sd_entry_def entry_is_sd_def sd_target_def sd_type_def sd_device_def has_prefix_def)
qed

end
