(* ===== verification/Dispatch_Poll.thy ===== *)
theory Dispatch_Poll
  imports Prelude
begin

text \<open>
  \<open>src/ipc_cmd/ipc_cmd/dispatch_poll.c\<close>: the wrapped \<open>popen\<close> and \<open>pclose\<close> of the vendor's broker.  One
  command, that prints the identity of the SD card, is replaced by opening the file; up to four such
  files are kept in a table so that \<open>pclose\<close> can tell them from pipes.  A stream is a number (its
  address); the answers of the C library are arguments.  The mutex makes each call one step.
\<close>

section \<open>The wrappers\<close>

type_synonym stream_ptr = nat

definition cid_path :: string where "cid_path = ''/sys/block/mmcblk0/device/cid''"
definition cid_command :: string where "cid_command = ''cat /sys/block/mmcblk0/device/cid 2>/dev/null''"

record dispatch_poll =
  dp_resolved :: bool
  dp_real_popen :: bool
  dp_real_pclose :: bool
  dp_direct :: "stream_ptr option list"

definition dispatch_poll_start :: dispatch_poll where
  "dispatch_poll_start = \<lparr>dp_resolved = False, dp_real_popen = False, dp_real_pclose = False,
     dp_direct = replicate 4 None\<rparr>"

text \<open>What a call does to streams.\<close>

datatype poll_effect =
    Opened_file stream_ptr
  | Closed_file stream_ptr
  | Opened_pipe stream_ptr
  | Closed_pipe stream_ptr

record popen_env =
  pe_have_popen :: bool
  pe_have_pclose :: bool
  pe_fopen :: "stream_ptr option"
  pe_popen :: "stream_ptr option"
  pe_errno :: errno
  pe_ferror :: bool
  pe_fclose_failed :: bool
  pe_pclose :: int

definition resolve_once :: "popen_env \<Rightarrow> dispatch_poll \<Rightarrow> dispatch_poll" where
  "resolve_once e s =
     (if dp_resolved s then s
      else s\<lparr>dp_resolved := True, dp_real_popen := pe_have_popen e, dp_real_pclose := pe_have_pclose e\<rparr>)"

fun put_direct :: "stream_ptr \<Rightarrow> stream_ptr option list \<Rightarrow> stream_ptr option list option" where
  "put_direct f [] = None"
| "put_direct f (None # ds) = Some (Some f # ds)"
| "put_direct f (Some g # ds) = map_option ((#) (Some g)) (put_direct f ds)"

fun take_direct :: "stream_ptr \<Rightarrow> stream_ptr option list \<Rightarrow> stream_ptr option list option" where
  "take_direct f [] = None"
| "take_direct f (d # ds) = (if d = Some f then Some (None # ds) else map_option ((#) d) (take_direct f ds))"

text \<open>The real \<open>popen\<close>, with what it leaves in \<open>errno\<close>.\<close>

definition pass_popen :: "popen_env \<Rightarrow> poll_effect list \<Rightarrow> dispatch_poll \<Rightarrow> (stream_ptr option \<times> errno) \<times> poll_effect list \<times> dispatch_poll" where
  "pass_popen e es s = ((pe_popen e, pe_errno e), es @ (case pe_popen e of Some f \<Rightarrow> [Opened_pipe f] | None \<Rightarrow> []), s)"

definition wrapped_popen ::
  "popen_env \<Rightarrow> string \<Rightarrow> string \<Rightarrow> errno \<Rightarrow> dispatch_poll \<Rightarrow>
   (stream_ptr option \<times> errno) \<times> poll_effect list \<times> dispatch_poll" where
  "wrapped_popen e command mode saved s0 =
     (let s = resolve_once e s0
      in if \<not> dp_real_popen s \<or> \<not> dp_real_pclose s then ((None, ENOSYS), [], s)
         else if command = cid_command \<and> mode = ''r'' then
           (case pe_fopen e of
              None \<Rightarrow> pass_popen e [] s
            | Some f \<Rightarrow>
                (case put_direct f (dp_direct s) of
                   Some ds \<Rightarrow> ((Some f, saved), [Opened_file f], s\<lparr>dp_direct := ds\<rparr>)
                 | None \<Rightarrow> pass_popen e [Opened_file f, Closed_file f] s))
         else pass_popen e [] s)"

text \<open>The second result is \<open>errno\<close> when the call sets it.\<close>

definition wrapped_pclose ::
  "popen_env \<Rightarrow> stream_ptr \<Rightarrow> dispatch_poll \<Rightarrow> (int \<times> errno option) \<times> poll_effect list \<times> dispatch_poll" where
  "wrapped_pclose e f s0 =
     (let s = resolve_once e s0
      in case take_direct f (dp_direct s) of
           Some ds \<Rightarrow> ((if pe_ferror e \<or> pe_fclose_failed e then 256 else 0, None), [Closed_file f], s\<lparr>dp_direct := ds\<rparr>)
         | None \<Rightarrow>
             if \<not> dp_real_pclose s then ((-1, Some ENOSYS), [], s)
             else ((pe_pclose e, None), [Closed_pipe f], s))"

section \<open>Streams in use\<close>

text \<open>The streams that are open, by kind, and whether one was ever closed by the function of the other kind.\<close>

record stream_world =
  sw_files :: "stream_ptr set"
  sw_pipes :: "stream_ptr set"
  sw_mixed :: bool

fun apply_effect :: "poll_effect \<Rightarrow> stream_world \<Rightarrow> stream_world" where
  "apply_effect (Opened_file f) w = w\<lparr>sw_files := insert f (sw_files w)\<rparr>"
| "apply_effect (Opened_pipe f) w = w\<lparr>sw_pipes := insert f (sw_pipes w)\<rparr>"
| "apply_effect (Closed_file f) w = w\<lparr>sw_files := sw_files w - {f}, sw_mixed := sw_mixed w \<or> f \<notin> sw_files w\<rparr>"
| "apply_effect (Closed_pipe f) w = w\<lparr>sw_pipes := sw_pipes w - {f}, sw_mixed := sw_mixed w \<or> f \<notin> sw_pipes w\<rparr>"

datatype stream_call = Popen popen_env string string errno | Pclose popen_env stream_ptr

definition do_call :: "stream_call \<Rightarrow> dispatch_poll \<times> stream_world \<Rightarrow> dispatch_poll \<times> stream_world" where
  "do_call c sw =
     (case sw of (s, w) \<Rightarrow>
        case c of
          Popen e command mode saved \<Rightarrow> (case wrapped_popen e command mode saved s of (_, es, s') \<Rightarrow> (s', fold apply_effect es w))
        | Pclose e f \<Rightarrow> (case wrapped_pclose e f s of (_, es, s') \<Rightarrow> (s', fold apply_effect es w)))"

text \<open>
  What is relied on: the C library returns streams that are not in use, and the broker closes only
  streams that it got and has not closed.
\<close>

definition call_ok :: "stream_call \<Rightarrow> stream_world \<Rightarrow> bool" where
  "call_ok c w =
     (case c of
        Popen e _ _ _ \<Rightarrow>
          (\<forall>f. pe_fopen e = Some f \<or> pe_popen e = Some f \<longrightarrow> f \<notin> sw_files w \<union> sw_pipes w) \<and>
          (pe_fopen e = pe_popen e \<longrightarrow> pe_fopen e = None)
      | Pclose _ f \<Rightarrow> f \<in> sw_files w \<union> sw_pipes w)"

fun calls_ok :: "stream_call list \<Rightarrow> dispatch_poll \<times> stream_world \<Rightarrow> bool" where
  "calls_ok [] sw = True"
| "calls_ok (c # cs) sw \<longleftrightarrow> call_ok c (snd sw) \<and> calls_ok cs (do_call c sw)"

definition direct_streams :: "dispatch_poll \<Rightarrow> stream_ptr list" where
  "direct_streams s = List.map_filter (\<lambda>d. d) (dp_direct s)"

definition poll_inv :: "dispatch_poll \<times> stream_world \<Rightarrow> bool" where
  "poll_inv sw \<longleftrightarrow> (case sw of (s, w) \<Rightarrow>
     length (dp_direct s) = 4 \<and> distinct (direct_streams s) \<and> set (direct_streams s) = sw_files w \<and>
     sw_files w \<inter> sw_pipes w = {} \<and> \<not> sw_mixed w \<and>
     (sw_files w \<union> sw_pipes w \<noteq> {} \<longrightarrow> dp_resolved s \<and> dp_real_pclose s))"

lemma map_filter_id_simps [simp]:
  "List.map_filter (\<lambda>d. d) [] = []" "List.map_filter (\<lambda>d. d) (None # ds) = List.map_filter (\<lambda>d. d) ds"
  "List.map_filter (\<lambda>d. d) (Some f # ds) = f # List.map_filter (\<lambda>d. d) ds"
  by (simp_all add: List.map_filter_simps)

lemma put_direct_streams:
  "put_direct f ds = Some ds' \<Longrightarrow> length ds' = length ds \<and> f \<in> set (List.map_filter (\<lambda>d. d) ds') \<and>
     set (List.map_filter (\<lambda>d. d) ds') = insert f (set (List.map_filter (\<lambda>d. d) ds)) \<and>
     (f \<notin> set (List.map_filter (\<lambda>d. d) ds) \<longrightarrow> distinct (List.map_filter (\<lambda>d. d) ds) \<longrightarrow> distinct (List.map_filter (\<lambda>d. d) ds'))"
  by (induction f ds arbitrary: ds' rule: put_direct.induct) auto

lemma take_direct_none: "take_direct f ds = None \<longleftrightarrow> f \<notin> set (List.map_filter (\<lambda>d. d) ds)"
proof (induction ds)
  case (Cons d ds)
  then show ?case by (cases d) auto
qed simp

lemma take_direct_streams:
  "take_direct f ds = Some ds' \<Longrightarrow> distinct (List.map_filter (\<lambda>d. d) ds) \<Longrightarrow> length ds' = length ds \<and>
     distinct (List.map_filter (\<lambda>d. d) ds') \<and>
     set (List.map_filter (\<lambda>d. d) ds') = set (List.map_filter (\<lambda>d. d) ds) - {f}"
proof (induction ds arbitrary: ds')
  case (Cons d ds)
  show ?case
  proof (cases d)
    case None
    then show ?thesis using Cons by auto
  next
    case (Some g)
    then show ?thesis using Cons by (cases "g = f") auto
  qed
qed simp

lemma direct_bound: "length (List.map_filter (\<lambda>d. d) ds) \<le> length ds"
proof (induction ds)
  case (Cons d ds)
  then show ?case by (cases d) auto
qed simp

lemma resolve_once_direct [simp]: "dp_direct (resolve_once e s) = dp_direct s" "dp_resolved (resolve_once e s)"
  "dp_resolved s \<Longrightarrow> resolve_once e s = s"
  by (simp_all add: resolve_once_def)

lemma popen_keeps:
  assumes "poll_inv (s, w)" "call_ok (Popen e command mode saved) w"
  shows "poll_inv (do_call (Popen e command mode saved) (s, w))"
proof -
  let ?s = "resolve_once e s"
  have i: "length (dp_direct s) = 4" "distinct (direct_streams s)" "set (direct_streams s) = sw_files w"
    "sw_files w \<inter> sw_pipes w = {}" "\<not> sw_mixed w"
    using assms(1) by (simp_all add: poll_inv_def)
  have keep: "sw_files w \<union> sw_pipes w \<noteq> {} \<longrightarrow> dp_real_pclose ?s"
    using assms(1) by (auto simp: poll_inv_def)
  have pass: "poll_inv (?s, case pe_popen e of None \<Rightarrow> w | Some f \<Rightarrow> w\<lparr>sw_pipes := insert f (sw_pipes w)\<rparr>)"
    if "dp_real_pclose ?s"
    using i that assms(2) by (auto simp: poll_inv_def direct_streams_def call_ok_def split: option.splits)
  consider "\<not> dp_real_popen ?s \<or> \<not> dp_real_pclose ?s"
    | f ds where "dp_real_popen ?s" "dp_real_pclose ?s" "command = cid_command" "mode = ''r''" "pe_fopen e = Some f" "put_direct f (dp_direct s) = Some ds"
    | f where "dp_real_popen ?s" "dp_real_pclose ?s" "command = cid_command" "mode = ''r''" "pe_fopen e = Some f" "put_direct f (dp_direct s) = None"
    | "dp_real_popen ?s" "dp_real_pclose ?s" "\<not> (command = cid_command \<and> mode = ''r'') \<or> pe_fopen e = None"
    by (metis option.exhaust)
  then show ?thesis
  proof cases
    case 1
    then show ?thesis using i keep
      by (auto simp: do_call_def wrapped_popen_def Let_def poll_inv_def direct_streams_def)
  next
    case 2
    have "f \<notin> sw_files w" "f \<notin> sw_pipes w" using assms(2) 2(5) by (auto simp: call_ok_def)
    then show ?thesis using 2 i put_direct_streams [OF 2(6)]
      by (auto simp: do_call_def wrapped_popen_def Let_def poll_inv_def direct_streams_def)
  next
    case 3
    then have "f \<notin> sw_files w" using assms(2) by (auto simp: call_ok_def)
    then have "w\<lparr>sw_files := insert f (sw_files w) - {f}, sw_mixed := sw_mixed w\<rparr> = w" by simp
    then show ?thesis using 3 pass
      by (cases "pe_popen e") (simp_all add: do_call_def wrapped_popen_def Let_def pass_popen_def)
  next
    case 4
    then show ?thesis using pass
      by (cases "pe_popen e") (auto simp: do_call_def wrapped_popen_def Let_def pass_popen_def)
  qed
qed

lemma pclose_keeps:
  assumes "poll_inv (s, w)" "call_ok (Pclose e f) w"
  shows "poll_inv (do_call (Pclose e f) (s, w))"
proof -
  have i: "length (dp_direct s) = 4" "distinct (direct_streams s)" "set (direct_streams s) = sw_files w"
    "sw_files w \<inter> sw_pipes w = {}" "\<not> sw_mixed w" "f \<in> sw_files w \<union> sw_pipes w"
    "dp_resolved s" "dp_real_pclose s"
    using assms by (auto simp: poll_inv_def call_ok_def)
  show ?thesis
  proof (cases "take_direct f (dp_direct s)")
    case None
    then have "f \<in> sw_pipes w" using i(3,6) take_direct_none [of f "dp_direct s"] by (auto simp: direct_streams_def)
    then show ?thesis using None i by (auto simp: do_call_def wrapped_pclose_def Let_def poll_inv_def direct_streams_def)
  next
    case (Some ds)
    then have "f \<in> sw_files w" using i(3) take_direct_none [of f "dp_direct s"] by (auto simp: direct_streams_def)
    then show ?thesis using Some i take_direct_streams [OF Some]
      by (auto simp: do_call_def wrapped_pclose_def Let_def poll_inv_def direct_streams_def)
  qed
qed

lemma poll_call_keeps: "poll_inv sw \<Longrightarrow> call_ok c (snd sw) \<Longrightarrow> poll_inv (do_call c sw)"
  by (cases sw; cases c) (auto intro: popen_keeps pclose_keeps)

lemma poll_calls_keep: "poll_inv sw \<Longrightarrow> calls_ok cs sw \<Longrightarrow> poll_inv (fold do_call cs sw)"
  by (induction cs arbitrary: sw) (simp_all add: poll_call_keeps)

text \<open>
  C36. No stream is ever closed as the other kind: for any calls of \<open>popen\<close> and \<open>pclose\<close> by a broker that
  closes only what it got, with any answers of the C library, a file that was opened in place of a pipe
  is closed with \<open>fclose\<close> and a pipe with the real \<open>pclose\<close>; the files that are open are exactly the at
  most four in the table, so a file that found no place in it was closed at once and none leaks.
\<close>

theorem streams_are_closed_as_opened:
  assumes "calls_ok cs (dispatch_poll_start, \<lparr>sw_files = {}, sw_pipes = {}, sw_mixed = False\<rparr>)"
    "fold do_call cs (dispatch_poll_start, \<lparr>sw_files = {}, sw_pipes = {}, sw_mixed = False\<rparr>) = (s, w)"
  shows "\<not> sw_mixed w \<and> sw_files w = set (direct_streams s) \<and> card (sw_files w) \<le> 4 \<and>
    sw_files w \<inter> sw_pipes w = {}"
proof -
  have "poll_inv (dispatch_poll_start, \<lparr>sw_files = {}, sw_pipes = {}, sw_mixed = False\<rparr>)"
    by (simp add: poll_inv_def dispatch_poll_start_def direct_streams_def numeral_eq_Suc)
  from poll_calls_keep [OF this assms(1)] have i: "poll_inv (s, w)" by (simp add: assms(2))
  then have "card (sw_files w) = length (direct_streams s)"
    by (auto simp: poll_inv_def distinct_card [symmetric])
  then have "card (sw_files w) \<le> 4"
    using i direct_bound [of "dp_direct s"] by (simp add: poll_inv_def direct_streams_def)
  then show ?thesis using i by (simp add: poll_inv_def)
qed

definition answers :: "stream_ptr \<Rightarrow> popen_env" where
  "answers f = \<lparr>pe_have_popen = True, pe_have_pclose = True, pe_fopen = Some f, pe_popen = Some (f + 100),
     pe_errno = EAGAIN, pe_ferror = False, pe_fclose_failed = False, pe_pclose = 0\<rparr>"

lemma streams_are_closed_as_opened_witness:
  "let cs = [Popen (answers 1) cid_command ''r'' EAGAIN, Popen (answers 2) ''ls'' ''r'' EAGAIN, Pclose (answers 3) 102, Pclose (answers 3) 1]
   in \<not> sw_mixed (snd (fold do_call cs (dispatch_poll_start, \<lparr>sw_files = {}, sw_pipes = {}, sw_mixed = False\<rparr>)))"
proof -
  let ?cs = "[Popen (answers 1) cid_command ''r'' EAGAIN, Popen (answers 2) ''ls'' ''r'' EAGAIN, Pclose (answers 3) 102, Pclose (answers 3) 1]"
  have "calls_ok ?cs (dispatch_poll_start, \<lparr>sw_files = {}, sw_pipes = {}, sw_mixed = False\<rparr>)"
    by (simp add: call_ok_def do_call_def wrapped_popen_def wrapped_pclose_def pass_popen_def resolve_once_def
        dispatch_poll_start_def answers_def cid_command_def numeral_eq_Suc Let_def)
  from streams_are_closed_as_opened [OF this surjective_pairing] show ?thesis by simp
qed

end
