(* ===== verification/Map_Publisher.thy ===== *)
theory Map_Publisher
  imports Motion_Mask
begin

text \<open>
  \<open>src/ipc_cmd/ipc_cmd/motion_map_y623.c\<close>: the library in the vendor's encoder process that publishes
  motion vectors in the shared map, which the detector reads in theory \<open>Motion_Mask\<close>.  It takes the place
  of the native routine that flushes a cache, calls it, and at one call site copies the frame that the
  encoder has just finished.  The memory of the process is a function from addresses to bytes; the
  encoder owns the frame during a call, so it does not change.
\<close>

section \<open>The encoder's memory\<close>

type_synonym byte_memory = "u32 \<Rightarrow> byte"

definition load_word :: "byte_memory \<Rightarrow> u32 \<Rightarrow> u32" where
  "load_word mem p = ucast (mem p) OR push_bit 8 (ucast (mem (p + 1))) OR
     push_bit 16 (ucast (mem (p + 2))) OR push_bit 24 (ucast (mem (p + 3)))"

definition load_bytes :: "byte_memory \<Rightarrow> u32 \<Rightarrow> nat \<Rightarrow> byte list" where
  "load_bytes mem p n = map (\<lambda>i. mem (p + word_of_nat i)) [0..<n]"

fun find_substream :: "nat \<Rightarrow> byte_memory \<Rightarrow> u32 \<Rightarrow> u32 \<Rightarrow> u32" where
  "find_substream 0 mem head link = 0"
| "find_substream (Suc n) mem head link =
     (if link = 0 \<or> link = head then 0
      else let node = link - 136
           in if load_word mem node = 1 then
                (let component = load_word mem (node + 4)
                 in if component = 0 then 0
                    else let private_data = load_word mem component
                         in if private_data = 0 then 0
                            else let encoder = load_word mem (private_data + 0x150)
                                 in if encoder \<noteq> 0 then load_word mem (encoder + 4) else 0)
              else find_substream n mem head (load_word mem link))"

definition substream_state :: "byte_memory \<Rightarrow> u32" where
  "substream_state mem =
     (let manager = load_word mem 0x2256a8
      in if manager = 0 then 0
         else find_substream 16 mem (manager + 24) (load_word mem (manager + 24)))"

section \<open>Publishing\<close>

record map_shared =
  ms_magic :: u32
  ms_version :: u32
  ms_enabled :: u32
  ms_generation :: u32
  ms_reader_ms :: u32
  ms_sample :: map_frame

text \<open>One call: its arguments and return address, the result of the native routine, the clock, the process id.\<close>

record flush_call =
  fc_address :: u32
  fc_size :: int
  fc_caller :: u32
  fc_result :: int
  fc_clock :: "(int \<times> int) option"
  fc_pid :: u32

definition clock_ms :: "int \<times> int \<Rightarrow> int" where
  "clock_ms t = fst t * 1000 + snd t div 1000000"

definition analysis_call :: "flush_call \<Rightarrow> map_shared \<Rightarrow> bool" where
  "analysis_call c s \<longleftrightarrow> fc_result c = 0 \<and> fc_caller c = 0xaf6c0 \<and> fc_size c = 7360 \<and> ms_enabled s \<noteq> 0"

definition state_matches :: "byte_memory \<Rightarrow> flush_call \<Rightarrow> u32 \<Rightarrow> bool" where
  "state_matches mem c state \<longleftrightarrow> state \<noteq> 0 \<and> load_word mem (state + 0x10c0) = 40 \<and>
     load_word mem (state + 0x10c4) = 23 \<and> load_word mem (state + 0x16a4) = fc_address c \<and>
     load_word mem (state + 0x1c50) = 5520 \<and> load_word mem (state + 0x1c58) \<noteq> 0"

definition encoder_frame :: "byte_memory \<Rightarrow> flush_call \<Rightarrow> u32 \<Rightarrow> int \<Rightarrow> map_frame" where
  "encoder_frame mem c state now =
     \<lparr>mf_pid = fc_pid c, mf_frame = load_word mem (state + 0x4d4),
      mf_p_frame = (if load_word mem (state + 0x4b4) \<noteq> 18 then 1 else 0), mf_monotonic_ms = now,
      mf_vectors = load_bytes mem (fc_address c) 7360,
      mf_difference = map (\<lambda>i. mem (load_word mem (state + 0x1c58) + word_of_nat (i * 6))) [0..<map_blocks]\<rparr>"

text \<open>The stores, in their order; a reader may see the file after any of them.\<close>

definition publish_stores :: "map_shared \<Rightarrow> map_frame \<Rightarrow> (map_shared \<Rightarrow> map_shared) list" where
  "publish_stores s f =
     (let generation = ms_generation s
      in [ms_generation_update (\<lambda>_. generation + 1),
          ms_sample_update (mf_pid_update (\<lambda>_. mf_pid f)),
          ms_sample_update (mf_frame_update (\<lambda>_. mf_frame f)),
          ms_sample_update (mf_p_frame_update (\<lambda>_. mf_p_frame f)),
          ms_sample_update (mf_monotonic_ms_update (\<lambda>_. mf_monotonic_ms f))] @
         map (\<lambda>i. ms_sample_update (mf_vectors_update (\<lambda>v. v[i := mf_vectors f ! i]))) [0..<7360] @
         map (\<lambda>i. ms_sample_update (mf_difference_update (\<lambda>v. v[i := mf_difference f ! i]))) [0..<map_blocks] @
         [ms_generation_update (\<lambda>_. generation + 2)])"

definition publish_map :: "map_shared \<Rightarrow> map_frame \<Rightarrow> map_shared" where
  "publish_map s f = fold (\<lambda>store s. store s) (publish_stores s f) s"

definition publish_after_flush :: "byte_memory \<Rightarrow> flush_call \<Rightarrow> map_shared \<Rightarrow> int \<times> map_shared" where
  "publish_after_flush mem c s =
     (fc_result c,
      if \<not> analysis_call c s then s
      else let state = substream_state mem
           in if \<not> state_matches mem c state then s
              else case fc_clock c of
                  None \<Rightarrow> s
                | Some t \<Rightarrow>
                    if word_of_int (clock_ms t) - ms_reader_ms s > 2000 then s
                    else publish_map s (encoder_frame mem c state (clock_ms t)))"

section \<open>Installation\<close>

record map_install_env =
  mi_model :: "string option"
  mi_exe :: "string option"
  mi_open_ok :: bool
  mi_regular :: bool
  mi_truncate_ok :: bool
  mi_mmap_ok :: bool

text \<open>The callback, and the instructions at the two call sites and of an audited function.\<close>

definition audited_code :: "byte_memory \<Rightarrow> bool" where
  "audited_code mem \<longleftrightarrow> load_word mem (0x1747e8 + 24) = 0xce2d8 \<and> load_word mem 0xaf6bc = 0xeb0079c8 \<and>
     load_word mem 0xaf528 = 0xeb007a2d \<and> load_word mem 0x29ab8 = 0xe3a00000"

text \<open>The file after it was mapped and cleared; the callback is replaced exactly when there is a result.\<close>

definition initialize_map :: "map_install_env \<Rightarrow> byte_memory \<Rightarrow> map_shared option" where
  "initialize_map e mem =
     (if mi_model e \<noteq> Some ''y623'' then None
      else case mi_exe e of
          None \<Rightarrow> None
        | Some exe \<Rightarrow>
            if take 79 exe \<noteq> ''/home/app/rmm'' then None
            else if \<not> audited_code mem then None
            else if \<not> mi_open_ok e \<or> \<not> mi_regular e \<or> \<not> mi_truncate_ok e \<or> \<not> mi_mmap_ok e then None
            else Some \<lparr>ms_magic = map_magic, ms_version = map_version, ms_enabled = 0, ms_generation = 0,
                       ms_reader_ms = 0, ms_sample = \<lparr>mf_pid = 0, mf_frame = 0, mf_p_frame = 0, mf_monotonic_ms = 0,
                         mf_vectors = replicate 7360 0, mf_difference = replicate map_blocks 0\<rparr>\<rparr>)"

section \<open>What a publication leaves\<close>

definition shared_ok :: "map_shared \<Rightarrow> bool" where
  "shared_ok s \<longleftrightarrow> length (mf_vectors (ms_sample s)) = 7360 \<and> length (mf_difference (ms_sample s)) = map_blocks"

lemma fold_vectors:
  "fold (\<lambda>store s. store s) (map (\<lambda>i. ms_sample_update (mf_vectors_update (\<lambda>v. v[i := g ! i]))) is) s =
     s\<lparr>ms_sample := (ms_sample s)\<lparr>mf_vectors := fold (\<lambda>i v. v[i := g ! i]) is (mf_vectors (ms_sample s))\<rparr>\<rparr>"
  by (induction "is" arbitrary: s) simp_all

lemma fold_difference:
  "fold (\<lambda>store s. store s) (map (\<lambda>i. ms_sample_update (mf_difference_update (\<lambda>v. v[i := g ! i]))) is) s =
     s\<lparr>ms_sample := (ms_sample s)\<lparr>mf_difference := fold (\<lambda>i v. v[i := g ! i]) is (mf_difference (ms_sample s))\<rparr>\<rparr>"
  by (induction "is" arbitrary: s) simp_all

lemma fold_copy:
  assumes "n \<le> length v" "n \<le> length g"
  shows "fold (\<lambda>i v. v[i := g ! i]) [0..<n] v = take n g @ drop n v"
  using assms
proof (induction n)
  case (Suc n)
  then have "(take n g @ drop n v)[n := g ! n] = take (Suc n) g @ drop (Suc n) v"
    by (simp add: list_update_append take_Suc_conv_app_nth Cons_nth_drop_Suc [symmetric])
  then show ?case using Suc by simp
qed simp

lemma publish_result:
  assumes "shared_ok s" "length (mf_vectors f) = 7360" "length (mf_difference f) = map_blocks"
  shows "publish_map s f = s\<lparr>ms_generation := ms_generation s + 2, ms_sample := f\<rparr>"
proof -
  have "fold (\<lambda>i v. v[i := mf_vectors f ! i]) [0..<7360] (mf_vectors (ms_sample s)) = mf_vectors f"
    "fold (\<lambda>i v. v[i := mf_difference f ! i]) [0..<map_blocks] (mf_difference (ms_sample s)) = mf_difference f"
    using assms by (simp_all only: shared_ok_def fold_copy order_refl take_all drop_all append_Nil2)
  then show ?thesis
    by (simp add: publish_map_def publish_stores_def Let_def fold_vectors fold_difference)
qed

lemma encoder_frame_lengths [simp]:
  "length (mf_vectors (encoder_frame mem c st now)) = 7360"
  "length (mf_difference (encoder_frame mem c st now)) = map_blocks"
  by (simp_all add: encoder_frame_def load_bytes_def)

section \<open>The detector and the encoder together\<close>

text \<open>What the loads of an attempt return while the writer does nothing, and the request of the detector.\<close>

definition attempt_of :: "map_shared \<Rightarrow> mask_attempt" where
  "attempt_of s = \<lparr>ma_first = ms_generation s, ma_version = ms_version s, ma_candidate = ms_sample s,
     ma_second = ms_generation s, ma_version_again = ms_version s\<rparr>"

definition requested :: "u32 option \<Rightarrow> map_shared \<Rightarrow> map_shared" where
  "requested r s = (case r of None \<Rightarrow> s | Some ms \<Rightarrow> s\<lparr>ms_enabled := 1, ms_reader_ms := ms\<rparr>)"

lemma recent_request:
  assumes "t \<le> now" "now \<le> t + 2000"
  shows "\<not> word_of_int now - (word_of_int t :: u32) > 2000"
proof -
  have d: "0 \<le> now - t" "now - t < 2 ^ 32" using assms by simp_all
  have "uint (word_of_int (now - t) :: u32) = now - t"
    using d by (simp add: uint_word_of_int take_bit_int_eq_self del: of_int_diff)
  then have "unat (word_of_int (now - t) :: u32) = nat (now - t)" by (metis nat_uint_eq)
  then have "\<not> (word_of_int (now - t) :: u32) > 2000" using assms(2) by (simp add: word_less_nat_alt del: of_int_diff)
  then show ?thesis by simp
qed

lemma read_request: "motion_mask_read m now e = (m', rc, Some request) \<Longrightarrow> request = word_of_int now"
  by (auto simp: motion_mask_read_def Let_def split: if_splits prod.splits)

lemma accept_predicted:
  assumes "mf_p_frame c \<noteq> 0" "now \<noteq> 0" "mf_pid c \<noteq> mm_last_pid m \<or> mf_frame c \<noteq> mm_last_frame m"
  shows "\<exists>m'. mask_accept m now map_version c = (m', 1) \<and> mm_frame m' = c"
proof -
  let ?m3 = "(if mm_first_map_ms m = 0 then m\<lparr>mm_first_map_ms := now\<rparr> else m)\<lparr>mm_last_predicted_ms := now,
     mm_source_version := map_version, mm_frame := c, mm_error := 0\<rparr>"
  have "mm_last_pid ?m3 = mm_last_pid m" "mm_last_frame ?m3 = mm_last_frame m" by simp_all
  moreover obtain m4 ratio where s: "motion_mask_score ?m3 c = (m4, ratio)" by fastforce
  moreover have "mm_frame m4 = c" using score_fields [OF s] by simp
  ultimately show ?thesis using assms
    by (simp add: mask_accept_def Let_def map_version_def map_legacy_version_def del: if_split)
qed

text \<open>
  C34. The encoder answers the detector: a detector that has the map asks for frames at time \<open>t\<close>; when the
  encoder finishes a predicted frame within two seconds, at the audited call and with its state as
  expected, the native result is passed on and the frame is published, whatever the 32-bit clocks have
  wrapped to; and when the detector reads again within half a second, with the writer idle, it gets
  exactly this frame, with the vectors and every sixth byte of the differences, and scores it.
\<close>

theorem map_request_is_answered:
  assumes "motion_mask_read m0 t e0 = (m, rc, Some request)"
    and "shared_ok s0" "s = requested (Some request) s0" "ms_version s0 = map_version"
      "ms_generation s0 AND 1 = 0" "ms_generation s0 + 2 \<noteq> 0"
    and "fc_result c = 0" "fc_caller c = 0xaf6c0" "fc_size c = 7360" "fc_pid c \<noteq> 0" "fc_clock c = Some clock"
      "t \<le> clock_ms clock" "clock_ms clock \<le> t + 2000"
      "state_matches mem c (substream_state mem)" "load_word mem (substream_state mem + 0x4b4) \<noteq> 18"
    and "frame = encoder_frame mem c (substream_state mem) (clock_ms clock)"
      "clock_ms clock \<le> now" "now \<le> clock_ms clock + 500" "now \<noteq> 0" "mm_shared (mask_connect m now e)"
      "me_attempts e = attempt_of (snd (publish_after_flush mem c s)) # rest"
      "mm_last_pid m \<noteq> fc_pid c \<or> mm_last_frame m \<noteq> mf_frame frame"
  shows "publish_after_flush mem c s = (0, s\<lparr>ms_generation := ms_generation s + 2, ms_sample := frame\<rparr>) \<and>
    (\<exists>m'. motion_mask_read m now e = (m', 1, Some (word_of_int now)) \<and> mm_frame m' = frame)"
proof -
  have req: "request = word_of_int t" using read_request [OF assms(1)] .
  let ?s' = "s\<lparr>ms_generation := ms_generation s + 2, ms_sample := frame\<rparr>"
  have s: "shared_ok s" "ms_enabled s = 1" "ms_reader_ms s = word_of_int t" "ms_version s = map_version"
    "ms_generation s = ms_generation s0"
    using assms(2-4) req by (simp_all add: requested_def shared_ok_def)
  have "publish_map s frame = ?s'" using publish_result [OF s(1)] by (simp add: assms(16))
  then have pub: "publish_after_flush mem c s = (0, ?s')"
    using assms(7-9,11,14) s recent_request [OF assms(12,13)]
    by (simp add: publish_after_flush_def analysis_call_def Let_def assms(16) [symmetric])
  let ?a = "attempt_of ?s'"
  have even: "(ms_generation s0 + 2) AND 1 = 0" using assms(5) by (simp add: and_one_eq mod2_eq_if split: if_splits)
  have p: "mf_p_frame frame \<noteq> 0" "mf_pid frame = fc_pid c" "mf_monotonic_ms frame = clock_ms clock"
    using assms(15) by (simp_all add: assms(16) encoder_frame_def)
  have "mask_attempt_ok now ?a"
    using s even p assms(6,10,17,18) by (simp add: mask_attempt_ok_def attempt_of_def map_version_def)
  then have "mask_attempts 2 (mask_connect m now e) now (me_attempts e) = mask_accept (mask_connect m now e) now map_version frame"
    using assms(21) pub s(4) mask_attempts_first [of now ?a "mask_connect m now e" rest] by (simp add: attempt_of_def)
  moreover obtain m' where "mask_accept (mask_connect m now e) now map_version frame = (m', 1)" "mm_frame m' = frame"
    using accept_predicted [OF p(1) assms(19), of "mask_connect m now e"] assms(22) mask_connect_kept(3,4) [of m now e] p(2) by auto
  ultimately have "motion_mask_read m now e = (m', 1, Some (word_of_int now))"
    using assms(20) by (simp add: motion_mask_read_def Let_def)
  then show ?thesis using pub \<open>mm_frame m' = frame\<close> by blast
qed

section \<open>A reader during publications\<close>

text \<open>The states of the file in publications one after the other: before each store, and at the end.\<close>

fun states_before :: "(map_shared \<Rightarrow> map_shared) list \<Rightarrow> map_shared \<Rightarrow> map_shared list" where
  "states_before [] s = []"
| "states_before (store # stores) s = s # states_before stores (store s)"

fun publication_states :: "map_shared \<Rightarrow> map_frame list \<Rightarrow> map_shared list" where
  "publication_states s [] = [s]"
| "publication_states s (f # fs) = states_before (publish_stores s f) s @ publication_states (publish_map s f) fs"

lemma length_states_before [simp]: "length (states_before stores s) = length stores"
  by (induction stores arbitrary: s) simp_all

definition keeps_generation :: "(map_shared \<Rightarrow> map_shared) \<Rightarrow> bool" where
  "keeps_generation store \<longleftrightarrow> (\<forall>s. ms_generation (store s) = ms_generation s)"

lemma states_before_generation:
  "\<forall>store\<in>set stores. keeps_generation store \<Longrightarrow> x \<in> set (states_before (stores @ [final]) s) \<Longrightarrow>
     ms_generation x = ms_generation s"
  by (induction stores arbitrary: s) (auto simp: keeps_generation_def)

lemma publish_stores_split: "\<exists>stores. publish_stores s f =
     ms_generation_update (\<lambda>_. ms_generation s + 1) # stores @ [ms_generation_update (\<lambda>_. ms_generation s + 2)] \<and>
     (\<forall>store\<in>set stores. keeps_generation store)"
proof -
  let ?st = "[ms_sample_update (mf_pid_update (\<lambda>_. mf_pid f)), ms_sample_update (mf_frame_update (\<lambda>_. mf_frame f)),
      ms_sample_update (mf_p_frame_update (\<lambda>_. mf_p_frame f)), ms_sample_update (mf_monotonic_ms_update (\<lambda>_. mf_monotonic_ms f))] @
     map (\<lambda>i. ms_sample_update (mf_vectors_update (\<lambda>v. v[i := mf_vectors f ! i]))) [0..<7360] @
     map (\<lambda>i. ms_sample_update (mf_difference_update (\<lambda>v. v[i := mf_difference f ! i]))) [0..<map_blocks]"
  have "publish_stores s f = ms_generation_update (\<lambda>_. ms_generation s + 1) # ?st @ [ms_generation_update (\<lambda>_. ms_generation s + 2)]"
    unfolding publish_stores_def Let_def by (simp only: append_Cons append_Nil append_assoc)
  moreover have "\<forall>store\<in>set ?st. keeps_generation store" by (auto simp: keeps_generation_def)
  ultimately show ?thesis by blast
qed

lemma during_publication:
  assumes "x \<in> set (tl (states_before (publish_stores s f) s))"
  shows "ms_generation x = ms_generation s + 1"
proof -
  obtain stores where "publish_stores s f =
      ms_generation_update (\<lambda>_. ms_generation s + 1) # stores @ [ms_generation_update (\<lambda>_. ms_generation s + 2)]"
    "\<forall>store\<in>set stores. keeps_generation store" using publish_stores_split by blast
  then show ?thesis using assms states_before_generation [of stores x "ms_generation_update (\<lambda>_. ms_generation s + 2)"
        "s\<lparr>ms_generation := ms_generation s + 1\<rparr>"] by simp
qed

definition frame_sized :: "map_frame \<Rightarrow> bool" where
  "frame_sized f \<longleftrightarrow> length (mf_vectors f) = 7360 \<and> length (mf_difference f) = map_blocks"

lemma even_states:
  assumes "x \<in> set (publication_states s fs)" "shared_ok s" "list_all frame_sized fs"
    "ms_generation s AND 1 = 0" "ms_generation x AND 1 = 0"
  shows "(\<exists>q \<le> length fs. ms_generation x = ms_generation s + 2 * word_of_nat q) \<and>
    (ms_sample x = ms_sample s \<or> ms_sample x \<in> set fs)"
  using assms
proof (induction fs arbitrary: s)
  case (Cons f fs)
  have f: "frame_sized f" using Cons.prems(3) by simp
  have pub: "publish_map s f = s\<lparr>ms_generation := ms_generation s + 2, ms_sample := f\<rparr>"
    using publish_result [OF Cons.prems(2)] f by (simp add: frame_sized_def)
  obtain store stores where st: "publish_stores s f = store # stores" by (simp add: publish_stores_def Let_def)
  consider "x = s" | "x \<in> set (tl (states_before (publish_stores s f) s))" | "x \<in> set (publication_states (publish_map s f) fs)"
    using Cons.prems(1) by (auto simp: st)
  then show ?case
  proof cases
    case 2
    then have "ms_generation x = ms_generation s + 1" by (rule during_publication)
    then show ?thesis using Cons.prems(4,5) by (simp add: and_one_eq mod2_eq_if split: if_splits)
  next
    case 3
    have "shared_ok (publish_map s f)" using f by (simp add: pub shared_ok_def frame_sized_def)
    moreover have "ms_generation (publish_map s f) AND 1 = 0"
      using Cons.prems(4) by (simp add: pub and_one_eq mod2_eq_if split: if_splits)
    ultimately have "(\<exists>q \<le> length fs. ms_generation x = ms_generation (publish_map s f) + 2 * word_of_nat q) \<and>
        (ms_sample x = ms_sample (publish_map s f) \<or> ms_sample x \<in> set fs)"
      using Cons.IH [OF 3] Cons.prems(3,5) by simp
    then obtain q where "q \<le> length fs" "ms_generation x = ms_generation s + 2 * word_of_nat (Suc q)"
      "ms_sample x = f \<or> ms_sample x \<in> set fs" by (auto simp: pub algebra_simps)
    then show ?thesis by (intro conjI exI [of _ "Suc q"]) auto
  qed auto
qed simp

text \<open>A frame loaded piece by piece, each from a state between two points of time.\<close>

definition loaded_between :: "map_shared list \<Rightarrow> nat \<Rightarrow> nat \<Rightarrow> map_frame \<Rightarrow> bool" where
  "loaded_between tr i k c \<longleftrightarrow>
     (\<exists>j. i \<le> j \<and> j \<le> k \<and> mf_pid c = mf_pid (ms_sample (tr ! j))) \<and>
     (\<exists>j. i \<le> j \<and> j \<le> k \<and> mf_frame c = mf_frame (ms_sample (tr ! j))) \<and>
     (\<exists>j. i \<le> j \<and> j \<le> k \<and> mf_p_frame c = mf_p_frame (ms_sample (tr ! j))) \<and>
     (\<exists>j. i \<le> j \<and> j \<le> k \<and> mf_monotonic_ms c = mf_monotonic_ms (ms_sample (tr ! j))) \<and>
     length (mf_vectors c) = 7360 \<and> length (mf_difference c) = map_blocks \<and>
     (\<forall>b<7360. \<exists>j. i \<le> j \<and> j \<le> k \<and> mf_vectors c ! b = mf_vectors (ms_sample (tr ! j)) ! b) \<and>
     (\<forall>b<map_blocks. \<exists>j. i \<le> j \<and> j \<le> k \<and> mf_difference c ! b = mf_difference (ms_sample (tr ! j)) ! b)"

lemma quiet_between:
  assumes "shared_ok s" "list_all frame_sized fs" "ms_generation s AND 1 = 0" "length fs < 2 ^ 31"
    "i \<le> k" "k < length (publication_states s fs)" "ms_generation (publication_states s fs ! i) AND 1 = 0"
    "ms_generation (publication_states s fs ! i) = ms_generation (publication_states s fs ! k)"
  shows "i = k"
  using assms
proof (induction fs arbitrary: s i k)
  case (Cons f fs)
  let ?n = "length (publish_stores s f)"
  let ?before = "states_before (publish_stores s f) s"
  have f: "frame_sized f" using Cons.prems(2) by simp
  have pub: "publish_map s f = s\<lparr>ms_generation := ms_generation s + 2, ms_sample := f\<rparr>"
    using publish_result [OF Cons.prems(1)] f by (simp add: frame_sized_def)
  have pub_ok: "shared_ok (publish_map s f)" "ms_generation (publish_map s f) AND 1 = 0"
    using f Cons.prems(3) by (simp_all add: pub shared_ok_def frame_sized_def and_one_eq mod2_eq_if split: if_splits)
  have n: "0 < ?n" by (simp add: publish_stores_def Let_def)
  have odd: "j = 0" if "j < ?n" "ms_generation (publication_states s (f # fs) ! j) AND 1 = 0" for j
  proof (rule ccontr)
    assume "j \<noteq> 0"
    then have l: "j - 1 < length (tl ?before)" using that(1) by simp
    have "publication_states s (f # fs) ! j = tl ?before ! (j - 1)"
      using that(1) \<open>j \<noteq> 0\<close> nth_tl [OF l] by (simp add: nth_append)
    then have "ms_generation (publication_states s (f # fs) ! j) = ms_generation s + 1"
      using during_publication [OF nth_mem [OF l]] by (simp only:)
    then show False using that(2) Cons.prems(3)
      by (simp only: and_one_eq) (simp add: mod2_eq_if split: if_splits)
  qed
  show ?case
  proof (cases "i < ?n")
    case True
    then have i: "i = 0" using odd Cons.prems(7) by blast
    show ?thesis
    proof (cases "k < ?n")
      case True
      moreover have "ms_generation (publication_states s (f # fs) ! k) AND 1 = 0"
        unfolding Cons.prems(8) [symmetric] by (rule Cons.prems(7))
      ultimately show ?thesis using odd i by blast
    next
      case False
      let ?x = "publication_states s (f # fs) ! k"
      have x: "?x \<in> set (publication_states (publish_map s f) fs)"
        using False Cons.prems(6) by (simp add: nth_append)
      have "publication_states s (f # fs) ! 0 = s" using n by (cases "publish_stores s f") (simp_all add: nth_append)
      then have g: "ms_generation ?x = ms_generation s" "ms_generation ?x AND 1 = 0"
        unfolding Cons.prems(8) [symmetric] i using Cons.prems(3) by (simp_all only:)
      obtain q where q: "q \<le> length fs" "ms_generation ?x = ms_generation (publish_map s f) + 2 * word_of_nat q"
        using even_states [OF x pub_ok(1) _ pub_ok(2) g(2)] Cons.prems(2) by auto
      then have "(2 * word_of_nat (Suc q) :: u32) = 0" using g(1) by (simp add: pub algebra_simps)
      then have "(word_of_nat (2 * Suc q) :: u32) = 0" by simp
      then have "2 ^ 32 dvd 2 * Suc q" by (simp only: word_of_nat_eq_0_iff len_num1 len_bit0) simp
      moreover have "2 * Suc q < 2 ^ 32" using q(1) Cons.prems(4) by simp
      moreover have "0 < 2 * Suc q" by simp
      ultimately show ?thesis using nat_dvd_not_less [of "2 * Suc q" "2 ^ 32"] by blast
    qed
  next
    case False
    have "i - ?n = k - ?n"
    proof (rule Cons.IH [OF pub_ok(1) _ pub_ok(2)])
      show "list_all frame_sized fs" "length fs < 2 ^ 31" "i - ?n \<le> k - ?n" using Cons.prems(2,4,5) by simp_all
      show "k - ?n < length (publication_states (publish_map s f) fs)" using Cons.prems(6) False Cons.prems(5) by simp
      show "ms_generation (publication_states (publish_map s f) fs ! (i - ?n)) AND 1 = 0"
        "ms_generation (publication_states (publish_map s f) fs ! (i - ?n)) =
         ms_generation (publication_states (publish_map s f) fs ! (k - ?n))"
        using Cons.prems(5,7,8) False by (simp_all add: nth_append)
    qed
    then show ?thesis using False Cons.prems(5) by simp
  qed
qed simp

text \<open>
  C35. The detector never sees a torn frame: while the encoder publishes any number of frames, fewer than
  two thousand million during one read, store by store, a frame that is loaded piece by piece between two
  loads of the generation that agree on an even value is exactly the frame that was in the file before
  or one of the published ones.
\<close>

theorem frames_are_never_torn:
  assumes "shared_ok s" "list_all frame_sized fs" "ms_generation s AND 1 = 0" "length fs < 2 ^ 31"
    "i \<le> k" "k < length (publication_states s fs)"
    "ms_generation (publication_states s fs ! i) AND 1 = 0"
    "ms_generation (publication_states s fs ! i) = ms_generation (publication_states s fs ! k)"
    "loaded_between (publication_states s fs) i k c"
  shows "c = ms_sample s \<or> c \<in> set fs"
proof -
  let ?x = "publication_states s fs ! i"
  have ik: "i = k" by (rule quiet_between [OF assms(1-8)])
  have x: "?x \<in> set (publication_states s fs)" using assms(5,6) by simp
  have e: "ms_sample ?x = ms_sample s \<or> ms_sample ?x \<in> set fs"
    using even_states [OF x assms(1-3,7)] by blast
  have "frame_sized (ms_sample ?x)"
    using e assms(1,2) by (auto simp: shared_ok_def frame_sized_def list_all_iff)
  moreover have "loaded_between (publication_states s fs) i i c" using assms(9) ik by simp
  ultimately have "c = ms_sample ?x"
    by (intro map_frame.equality nth_equalityI)
      (auto simp: loaded_between_def frame_sized_def dest: le_antisym)
  then show ?thesis using e by simp
qed

section \<open>Witnesses\<close>

text \<open>A memory given by its words, and an encoder state in it.\<close>

definition word_memory :: "(u32 \<times> u32) list \<Rightarrow> byte_memory" where
  "word_memory ws p = ucast (drop_bit (8 * unat (p AND 3))
     (case map_of ws (p AND 0xfffffffc) of Some w \<Rightarrow> w | None \<Rightarrow> 0))"

definition encoder_memory :: byte_memory where
  "encoder_memory = word_memory [(0x2256a8, 0x1000), (0x1018, 0x2088), (0x2000, 1), (0x2004, 0x3000), (0x3000, 0x4000),
     (0x4150, 0x5000), (0x5004, 0x10000), (0x110c0, 40), (0x110c4, 23), (0x116a4, 0x20000), (0x11c50, 5520),
     (0x11c58, 0x30000), (0x104d4, 5)]"

definition encoder_call :: flush_call where
  "encoder_call = \<lparr>fc_address = 0x20000, fc_size = 7360, fc_caller = 0xaf6c0, fc_result = 0,
     fc_clock = Some (1, 500000000), fc_pid = 77\<rparr>"

definition fresh_map :: map_shared where
  "fresh_map = \<lparr>ms_magic = map_magic, ms_version = map_version, ms_enabled = 0, ms_generation = 0,
     ms_reader_ms = 0, ms_sample = \<lparr>mf_pid = 0, mf_frame = 0, mf_p_frame = 0, mf_monotonic_ms = 0,
       mf_vectors = replicate 7360 0, mf_difference = replicate map_blocks 0\<rparr>\<rparr>"

lemma encoder_words:
  "load_word encoder_memory 0x2256a8 = 0x1000" "load_word encoder_memory 0x1018 = 0x2088"
  "load_word encoder_memory 0x2000 = 1" "load_word encoder_memory 0x2004 = 0x3000"
  "load_word encoder_memory 0x3000 = 0x4000" "load_word encoder_memory 0x4150 = 0x5000"
  "load_word encoder_memory 0x5004 = 0x10000" "load_word encoder_memory 0x110c0 = 40"
  "load_word encoder_memory 0x110c4 = 23" "load_word encoder_memory 0x116a4 = 0x20000"
  "load_word encoder_memory 0x11c50 = 5520" "load_word encoder_memory 0x11c58 = 0x30000"
  "load_word encoder_memory 0x104b4 = 0" "load_word encoder_memory 0x104d4 = 5"
  by (simp_all add: load_word_def encoder_memory_def word_memory_def)

lemma encoder_state: "substream_state encoder_memory = 0x10000"
proof -
  have "find_substream (Suc 15) encoder_memory 0x1018 0x2088 = 0x10000" by (subst find_substream.simps(2)) (simp add: encoder_words Let_def)
  then show ?thesis by (simp add: substream_state_def encoder_words)
qed

lemma map_request_is_answered_witness:
  "\<exists>m m'. motion_mask_read open_mask 1000 (still_env\<lparr>me_attempts := []\<rparr>) = (m, -1, Some 1000) \<and>
     motion_mask_read m 1600 (still_env\<lparr>me_attempts := [attempt_of (snd (publish_after_flush encoder_memory encoder_call
       (requested (Some 1000) fresh_map)))]\<rparr>) = (m', 1, Some 1600) \<and> mf_frame (mm_frame m') = 5"
proof -
  let ?m = "open_mask\<lparr>mm_retry_after := 2000, mm_shared := True, mm_error := 2\<rparr>"
  have r: "motion_mask_read open_mask 1000 (still_env\<lparr>me_attempts := []\<rparr>) = (?m, -1, Some 1000)"
    by (simp add: motion_mask_read_def still_env_def mask_connect_def open_mask_def map_version_def
        map_legacy_version_def mask_overlap_def numeral_2_eq_2 Let_def)
  let ?s = "requested (Some 1000) fresh_map"
  let ?e = "still_env\<lparr>me_attempts := [attempt_of (snd (publish_after_flush encoder_memory encoder_call ?s))]\<rparr>"
  let ?f = "encoder_frame encoder_memory encoder_call (substream_state encoder_memory) (clock_ms (1, 500000000))"
  have "state_matches encoder_memory encoder_call (substream_state encoder_memory)"
    by (simp add: state_matches_def encoder_state encoder_words encoder_call_def)
  moreover have "load_word encoder_memory (substream_state encoder_memory + 0x4b4) \<noteq> 18"
    by (simp add: encoder_state encoder_words)
  moreover have "mm_shared (mask_connect ?m 1600 ?e)" by (simp add: mask_connect_def)
  moreover have "mm_last_pid ?m \<noteq> fc_pid encoder_call" by (simp add: open_mask_def encoder_call_def)
  ultimately obtain m' where m': "motion_mask_read ?m 1600 ?e = (m', 1, Some (word_of_int 1600))" "mm_frame m' = ?f"
    using map_request_is_answered [OF r, where ?s0.0 = fresh_map and s = ?s and mem = encoder_memory and c = encoder_call
        and clock = "(1, 500000000)" and now = 1600 and e = ?e and frame = ?f and rest = "[]"]
    by (auto simp: fresh_map_def shared_ok_def encoder_call_def clock_ms_def)
  then show ?thesis using r
    by (intro exI [of _ ?m] exI [of _ m']) (simp add: encoder_frame_def encoder_state encoder_words)
qed

text \<open>Frames that differ in every byte.\<close>

definition numbered_frame :: "u32 \<Rightarrow> map_frame" where
  "numbered_frame k = \<lparr>mf_pid = 77, mf_frame = k, mf_p_frame = 1, mf_monotonic_ms = 40 * uint k,
     mf_vectors = replicate 7360 (ucast k), mf_difference = replicate map_blocks (ucast k)\<rparr>"

lemma first_state: "publication_states s fs ! 0 = s"
  by (cases fs) (simp_all add: publish_stores_def Let_def)

lemma state_after_first:
  "publication_states s (f # fs) ! length (publish_stores s f) = publish_map s f"
  by (simp add: nth_append first_state)

lemma state_after_second:
  "publication_states s [f, g] ! (length (publish_stores s f) + length (publish_stores (publish_map s f) g)) = publish_map (publish_map s f) g"
  by (simp add: nth_append)

lemma numbered_map: "shared_ok s \<Longrightarrow> publish_map s (numbered_frame k) = s\<lparr>ms_generation := ms_generation s + 2, ms_sample := numbered_frame k\<rparr>"
  by (rule publish_result) (simp_all add: numbered_frame_def)

text \<open>
  Two frames are published.  A read after the first one, with all its loads between the stores of the two, gives the
  first frame.  A read that goes on until the second one is complete can give a mixture of both; its generations differ.
\<close>

lemma frames_are_never_torn_witness:
  "let f = numbered_frame 5; g = numbered_frame 6; tr = publication_states fresh_map [f, g]; i = length (publish_stores fresh_map f);
       k = i + length (publish_stores (publish_map fresh_map f) g); torn = f\<lparr>mf_vectors := (mf_vectors f)[0 := 6]\<rparr>
   in 0 < i \<and> i < k \<and> k < length tr \<and> ms_generation (tr ! i) = 2 \<and> loaded_between tr i i f \<and> f \<noteq> ms_sample fresh_map \<and>
      (f = ms_sample fresh_map \<or> f \<in> set [f, g]) \<and>
      loaded_between tr i k torn \<and> torn \<notin> {ms_sample fresh_map, f, g} \<and> ms_generation (tr ! k) = 4"
proof -
  let ?f = "numbered_frame 5" and ?g = "numbered_frame 6"
  let ?tr = "publication_states fresh_map [?f, ?g]" and ?i = "length (publish_stores fresh_map ?f)"
  let ?k = "?i + length (publish_stores (publish_map fresh_map ?f) ?g)"
  let ?torn = "?f\<lparr>mf_vectors := (mf_vectors ?f)[0 := 6]\<rparr>"
  have ok: "shared_ok fresh_map" "list_all frame_sized [?f, ?g]"
    by (simp_all add: shared_ok_def frame_sized_def fresh_map_def numbered_frame_def)
  have sizes: "0 < ?i" "?i < ?k" "?k < length ?tr" by (simp_all add: publish_stores_def Let_def)
  have first: "publish_map fresh_map ?f = fresh_map\<lparr>ms_generation := 2, ms_sample := ?f\<rparr>"
    using numbered_map [OF ok(1), of 5] by (simp add: fresh_map_def)
  then have "shared_ok (publish_map fresh_map ?f)" by (simp add: shared_ok_def fresh_map_def numbered_frame_def)
  then have second: "publish_map (publish_map fresh_map ?f) ?g = fresh_map\<lparr>ms_generation := 4, ms_sample := ?g\<rparr>"
    using numbered_map [of "publish_map fresh_map ?f" 6] first by simp
  have st: "ms_sample (?tr ! ?i) = ?f" "ms_generation (?tr ! ?i) = 2" "ms_sample (?tr ! ?k) = ?g" "ms_generation (?tr ! ?k) = 4"
    unfolding state_after_first state_after_second second unfolding first by simp_all
  have len: "length (mf_vectors ?f) = 7360" "length (mf_difference ?f) = map_blocks" by (simp_all add: numbered_frame_def)
  have good: "loaded_between ?tr ?i ?i ?f"
    unfolding loaded_between_def using st(1) len by (metis order_refl)
  have "\<exists>j. ?i \<le> j \<and> j \<le> ?k \<and> mf_vectors ?torn ! b = mf_vectors (ms_sample (?tr ! j)) ! b" if "b < 7360" for b
  proof (cases "b = 0")
    case True
    then have "mf_vectors ?torn ! b = mf_vectors (ms_sample (?tr ! ?k)) ! b" using len unfolding st(3) by (simp add: numbered_frame_def)
    then show ?thesis using sizes(2) by (intro exI [of _ ?k]) simp
  next
    case False
    then have "mf_vectors ?torn ! b = mf_vectors (ms_sample (?tr ! ?i)) ! b" unfolding st(1) by simp
    then show ?thesis using sizes(2) by (intro exI [of _ ?i]) simp
  qed
  note vectors = this
  have same: "mf_pid ?torn = mf_pid ?f" "mf_frame ?torn = mf_frame ?f" "mf_p_frame ?torn = mf_p_frame ?f"
    "mf_monotonic_ms ?torn = mf_monotonic_ms ?f" "mf_difference ?torn = mf_difference ?f" "length (mf_vectors ?torn) = 7360"
    using len by simp_all
  have between: "?i \<le> ?i \<and> ?i \<le> ?k" using sizes(2) by simp
  have bad: "loaded_between ?tr ?i ?k ?torn"
    unfolding loaded_between_def same using vectors between st(1) len(2) by metis
  have numbers: "mf_vectors ?torn ! 0 = 6" "mf_vectors ?f ! 0 = 5" "mf_frame ?torn = 5" "mf_frame ?f = 5" "mf_frame ?g = 6"
    "mf_frame (ms_sample fresh_map) = 0"
    by (simp_all add: numbered_frame_def fresh_map_def)
  have "?f \<noteq> ms_sample fresh_map"
  proof
    assume "?f = ms_sample fresh_map"
    then have "mf_frame ?f = mf_frame (ms_sample fresh_map)" by (rule arg_cong)
    then show False using numbers(4,6) by simp
  qed
  moreover have "?torn \<noteq> ms_sample fresh_map"
  proof
    assume "?torn = ms_sample fresh_map"
    then have "mf_frame ?torn = mf_frame (ms_sample fresh_map)" by (rule arg_cong)
    then show False using numbers(3,6) by simp
  qed
  moreover have "?torn \<noteq> ?g"
  proof
    assume "?torn = ?g"
    then have "mf_frame ?torn = mf_frame ?g" by (rule arg_cong)
    then show False using numbers(3,5) by simp
  qed
  moreover have "?torn \<noteq> ?f"
  proof
    assume "?torn = ?f"
    then have "mf_vectors ?torn ! 0 = mf_vectors ?f ! 0" by (rule arg_cong [where f = "\<lambda>f. mf_vectors f ! 0"])
    then show False unfolding numbers(1,2) by simp
  qed
  ultimately have distinct: "?f \<noteq> ms_sample fresh_map" "?torn \<notin> {ms_sample fresh_map, ?f, ?g}" by blast+
  have "?f = ms_sample fresh_map \<or> ?f \<in> set [?f, ?g]"
    by (rule frames_are_never_torn [OF ok, where i = ?i and k = ?i])
      (use good st(2) sizes in \<open>simp_all add: fresh_map_def del: publication_states.simps\<close>)
  then show ?thesis unfolding Let_def using sizes st good bad distinct by blast
qed

end
