(* ===== verification/Service_Guard.thy ===== *)
theory Service_Guard
  imports Scan
begin

text \<open>
  \<open>src/service_guard/service_guard.c\<close>: runs a recovery worker in its own process group for at most a
  given number of seconds, passes its exit code on, and when the time is over or the guard is told to stop
  terminates the group, waits a second and kills it.  What the system answers is a list of observations,
  one for each turn of a loop; the result is \<open>None\<close> while a loop still waits.  Times are doubles, as in
  the code.
\<close>

section \<open>Observations\<close>

type_synonym timespec = "int \<times> int"

datatype reap_result = Reaped int | Still_running | Wait_interrupted | Wait_failed

text \<open>One turn of the waiting loop: \<open>waitpid\<close>, the flag of the signal handler, the clock.\<close>

record guard_round =
  gr_wait :: reap_result
  gr_stopped :: int
  gr_clock :: "timespec option"

datatype guard_effect = Term_group | Kill_group | Kill_child

section \<open>The guard\<close>

text \<open>\<open>None\<close> when the clock cannot be read: the process exits with 125.\<close>

definition monotime :: "timespec option \<Rightarrow> c_double option" where
  "monotime t = map_option (\<lambda>(sec, nsec). fp_add (dbl (of_int sec)) (fp_over (dbl (of_int nsec)) 1000000000)) t"

definition parse_limit :: "string \<Rightarrow> int option" where
  "parse_limit s =
     (case strtol10 s of (limit, rest, erange) \<Rightarrow>
        if erange \<or> rest \<noteq> [] \<or> limit < 1 \<or> limit > 3600 then None else Some limit)"

datatype guard_outcome = Child_ended int | Expired | Guard_failed

fun guard_loop :: "c_double \<Rightarrow> guard_round list \<Rightarrow> guard_outcome option" where
  "guard_loop deadline [] = None"
| "guard_loop deadline (r # rs) =
     (case gr_wait r of
        Reaped status \<Rightarrow> Some (Child_ended status)
      | Wait_failed \<Rightarrow> Some Guard_failed
      | _ \<Rightarrow>
          if gr_stopped r \<noteq> 0 then Some Expired
          else case monotime (gr_clock r) of
              None \<Rightarrow> Some Guard_failed
            | Some now \<Rightarrow> if fp_le deadline now then Some Expired else guard_loop deadline rs)"

text \<open>The second of grace: \<open>True\<close> when it is over, \<open>False\<close> when the clock failed.\<close>

fun grace_loop :: "c_double \<Rightarrow> timespec option list \<Rightarrow> bool option" where
  "grace_loop deadline [] = None"
| "grace_loop deadline (t # ts) =
     (case monotime t of
        None \<Rightarrow> Some False
      | Some now \<Rightarrow> if fp_lt now deadline then grace_loop deadline ts else Some True)"

text \<open>The last wait goes on while it is interrupted.\<close>

fun reap_loop :: "reap_result list \<Rightarrow> unit option" where
  "reap_loop [] = None"
| "reap_loop (w # ws) = (if w = Wait_interrupted then reap_loop ws else Some ())"

definition exit_code :: "int \<Rightarrow> int" where
  "exit_code status =
     (if status AND 0x7f = 0 then drop_bit 8 status AND 0xff else 128 + (status AND 0x7f))"

record guard_env =
  ge_fork_ok :: bool
  ge_setpgid_ok :: bool       \<comment> \<open>or it failed because the child was faster\<close>
  ge_start :: "timespec option"
  ge_rounds :: "guard_round list"
  ge_grace_start :: "timespec option"
  ge_grace :: "timespec option list"
  ge_reap :: "reap_result list"
  ge_stopped_at_end :: int

text \<open>After the time is over; the flag is read again at the end.\<close>

definition guard_expired :: "guard_env \<Rightarrow> guard_effect list \<times> int option" where
  "guard_expired e =
     (case monotime (ge_grace_start e) of
        None \<Rightarrow> ([Term_group], Some 125)
      | Some now \<Rightarrow>
          (case grace_loop (fp_add now (dbl 1)) (ge_grace e) of
             None \<Rightarrow> ([Term_group], None)
           | Some False \<Rightarrow> ([Term_group], Some 125)
           | Some True \<Rightarrow>
               ([Term_group, Kill_group],
                map_option (\<lambda>_. if ge_stopped_at_end e \<noteq> 0 then 128 + ge_stopped_at_end e else 124) (reap_loop (ge_reap e)))))"

definition guard_main :: "string list \<Rightarrow> guard_env \<Rightarrow> guard_effect list \<times> int option" where
  "guard_main argv e =
     (if length argv < 3 then ([], Some 2)
      else case parse_limit (argv ! 1) of
          None \<Rightarrow> ([], Some 2)
        | Some limit \<Rightarrow>
            if \<not> ge_fork_ok e then ([], Some 125)
            else if \<not> ge_setpgid_ok e then ([Kill_child], Some 125)
            else case monotime (ge_start e) of
                None \<Rightarrow> ([], Some 125)
              | Some start \<Rightarrow>
                  (case guard_loop (fp_add start (dbl (of_int limit))) (ge_rounds e) of
                     None \<Rightarrow> ([], None)
                   | Some (Child_ended status) \<Rightarrow> ([], Some (exit_code status))
                   | Some Guard_failed \<Rightarrow> ([], Some 125)
                   | Some Expired \<Rightarrow> guard_expired e))"

text \<open>The child: its exit code when it does not become the worker.\<close>

definition guard_child :: "bool \<Rightarrow> bool \<Rightarrow> int option" where
  "guard_child setpgid_ok exec_ok = (if \<not> setpgid_ok then Some 125 else if \<not> exec_ok then Some 127 else None)"

section \<open>Times\<close>

text \<open>A reading of the clock, in range, and how it lies between whole seconds.\<close>

definition clock_ok :: "timespec \<Rightarrow> bool" where
  "clock_ok t \<longleftrightarrow> 0 \<le> fst t \<and> fst t \<le> 2 ^ 31 \<and> 0 \<le> snd t \<and> snd t < 1000000000"

lemma monotime_between:
  assumes "clock_ok t"
  shows "\<exists>r. monotime (Some t) = Some (Fin r) \<and> of_int (fst t) \<le> r \<and> r \<le> of_int (fst t + 1)"
proof -
  obtain sec nsec where t: "t = (sec, nsec)" by fastforce
  have b: "0 \<le> sec" "sec \<le> 2 ^ 31" "0 \<le> nsec" "nsec < 1000000000" using assms by (simp_all add: clock_ok_def t)
  have s: "dbl (of_int sec) = Fin (of_int sec)" "dbl (of_int nsec) = Fin (of_int nsec)"
    using b by (intro dbl_of_int; simp)+
  let ?q = "of_int nsec / 1000000000 :: rat"
  have q: "0 \<le> ?q" "?q \<le> of_int 1" using b by (simp_all add: divide_le_eq)
  obtain f where f: "dbl ?q = Fin f" "0 \<le> f" "f \<le> 1"
    using dbl_between [of 0 ?q 1] q by auto
  have "of_int sec \<le> (of_int sec + f :: rat)" "of_int sec + f \<le> of_int (sec + 1)" using f by simp_all
  then obtain r where r: "dbl (of_int sec + f) = Fin r" "of_int sec \<le> r" "r \<le> of_int (sec + 1)"
    using dbl_between [of sec "of_int sec + f" "sec + 1"] b by auto
  then show ?thesis using s f(1) by (simp add: monotime_def t)
qed

lemma deadline_between:
  assumes "of_int a \<le> r" "r \<le> of_int b" "0 \<le> a" "b \<le> 2 ^ 32" "0 \<le> n" "n \<le> 3600"
  shows "\<exists>d. fp_add (Fin r) (dbl (of_int n)) = Fin d \<and> of_int (a + n) \<le> d \<and> d \<le> of_int (b + n)"
proof -
  have n: "dbl (of_int n) = Fin (of_int n)" using assms(5,6) by (intro dbl_of_int) simp
  have "of_int (a + n) \<le> r + of_int n" "r + of_int n \<le> of_int (b + n)" using assms by simp_all
  then show ?thesis using dbl_between [of "a + n" "r + of_int n" "b + n"] assms n by auto
qed

section \<open>The loops end\<close>

definition round_ends :: "int \<Rightarrow> guard_round \<Rightarrow> bool" where
  "round_ends s r \<longleftrightarrow> (\<exists>st. gr_wait r = Reaped st) \<or> gr_wait r = Wait_failed \<or> gr_stopped r \<noteq> 0 \<or> gr_clock r = None \<or>
     (\<exists>t. gr_clock r = Some t \<and> clock_ok t \<and> s \<le> fst t)"

lemma guard_loop_ends:
  assumes "d \<le> of_int s" "r \<in> set rs" "round_ends s r"
  shows "\<exists>o'. guard_loop (Fin d) rs = Some o'"
  using assms(2)
proof (induction rs)
  case (Cons r' rs)
  show ?case
  proof (cases "r = r'")
    case True
    have "fp_le (Fin d) now" if "gr_clock r = Some t" "clock_ok t" "s \<le> fst t" "monotime (gr_clock r) = Some now" for t now
    proof -
      have "(of_int s :: rat) \<le> of_int (fst t)" using that(3) by (simp only: of_int_le_iff)
      then show ?thesis using monotime_between [OF that(2)] that(1,4) assms(1) by auto
    qed
    then show ?thesis using assms(3) True
      by (auto simp: round_ends_def monotime_def split: reap_result.splits)
  next
    case False
    then show ?thesis using Cons by (auto split: reap_result.splits option.splits)
  qed
qed simp

lemma grace_loop_ends:
  assumes "d \<le> of_int s" "t \<in> set ts" "t = None \<or> (\<exists>t'. t = Some t' \<and> clock_ok t' \<and> s \<le> fst t')"
  shows "\<exists>b. grace_loop (Fin d) ts = Some b"
  using assms(2)
proof (induction ts)
  case (Cons t' ts)
  show ?case
  proof (cases "t = t'")
    case True
    have "\<not> fp_lt now (Fin d)" if "t = Some u" "clock_ok u" "s \<le> fst u" "monotime t = Some now" for u now
    proof -
      have "(of_int s :: rat) \<le> of_int (fst u)" using that(3) by (simp only: of_int_le_iff)
      then show ?thesis using monotime_between [OF that(2)] that(1,4) assms(1) by auto
    qed
    then show ?thesis using assms(3) True by (auto simp: monotime_def split: option.splits)
  next
    case False
    then show ?thesis using Cons by (auto split: option.splits)
  qed
qed simp

lemma reap_loop_ends: "w \<in> set ws \<Longrightarrow> w \<noteq> Wait_interrupted \<Longrightarrow> reap_loop ws = Some ()"
  by (induction ws) auto

lemma exit_code_range: "0 \<le> exit_code status \<and> exit_code status \<le> 255"
proof -
  have a: "x AND 0xff = x mod 256" "x AND 0x7f = x mod 128" for x :: int
    using take_bit_eq_mask [of 8 x] take_bit_eq_mask [of 7 x] by (simp_all add: take_bit_eq_mod mask_eq_exp_minus_1)
  show ?thesis unfolding exit_code_def a by auto
qed

text \<open>What the loop decided was so at some turn, with all turns before it undecided.\<close>

lemma guard_loop_cases:
  "guard_loop deadline rs = Some res \<Longrightarrow>
     (\<exists>status. res = Child_ended status \<and> (\<exists>r\<in>set rs. gr_wait r = Reaped status)) \<or> res = Guard_failed \<or>
     res = Expired \<and> (\<exists>r\<in>set rs. gr_stopped r \<noteq> 0 \<or> (\<exists>now. monotime (gr_clock r) = Some now \<and> fp_le deadline now))"
  by (induction rs) (auto split: reap_result.splits if_splits option.splits)

text \<open>
  The assumptions on the system for the guard to end: the clock is in range; at some turn the worker has
  ended, the wait fails, a signal has come or the clock shows the limit and two seconds more; in the
  second of grace the clock comes to three seconds after its start; the last wait is not interrupted for
  ever.
\<close>

definition guard_progress :: "int \<Rightarrow> guard_env \<Rightarrow> bool" where
  "guard_progress limit e \<longleftrightarrow>
     (\<forall>t. ge_start e = Some t \<longrightarrow> clock_ok t \<and> (\<exists>r\<in>set (ge_rounds e). round_ends (fst t + limit + 2) r)) \<and>
     (\<forall>t. ge_grace_start e = Some t \<longrightarrow> clock_ok t \<and>
        (\<exists>u\<in>set (ge_grace e). u = None \<or> (\<exists>t'. u = Some t' \<and> clock_ok t' \<and> fst t + 3 \<le> fst t'))) \<and>
     (\<exists>w\<in>set (ge_reap e). w \<noteq> Wait_interrupted)"

lemma guard_deadline:
  assumes "clock_ok t" "0 \<le> n" "n \<le> 3600"
  shows "\<exists>start d. monotime (Some t) = Some start \<and> fp_add start (dbl (of_int n)) = Fin d \<and>
    of_int (fst t + n) \<le> d \<and> d \<le> of_int (fst t + 1 + n)"
proof -
  obtain r where r: "monotime (Some t) = Some (Fin r)" "of_int (fst t) \<le> r" "r \<le> of_int (fst t + 1)"
    using monotime_between [OF assms(1)] by blast
  then show ?thesis using deadline_between [OF r(2,3) _ _ assms(2,3)] assms(1) by (auto simp: clock_ok_def)
qed

lemma guard_expired_ends:
  assumes "guard_progress limit e"
  shows "\<exists>es code. guard_expired e = (es, Some code) \<and>
    (code = 125 \<and> es = [Term_group] \<or> es = [Term_group, Kill_group] \<and>
      code = (if ge_stopped_at_end e \<noteq> 0 then 128 + ge_stopped_at_end e else 124))"
proof (cases "ge_grace_start e")
  case None
  then show ?thesis by (simp add: guard_expired_def monotime_def)
next
  case (Some t)
  obtain u where u: "clock_ok t" "u \<in> set (ge_grace e)"
    "u = None \<or> (\<exists>t'. u = Some t' \<and> clock_ok t' \<and> fst t + 3 \<le> fst t')"
    using assms Some by (auto simp: guard_progress_def)
  obtain start d where d: "monotime (Some t) = Some start" "fp_add start (dbl 1) = Fin d" "d \<le> of_int (fst t + 2)"
    using guard_deadline [OF u(1), of 1] by auto
  have "d \<le> of_int (fst t + 3)" using d(3) by simp
  then obtain b where "grace_loop (Fin d) (ge_grace e) = Some b" using grace_loop_ends [OF _ u(2,3)] by blast
  moreover obtain w where "w \<in> set (ge_reap e)" "w \<noteq> Wait_interrupted" using assms by (auto simp: guard_progress_def)
  then have "reap_loop (ge_reap e) = Some ()" by (rule reap_loop_ends)
  ultimately show ?thesis using Some d(1,2) by (cases b) (simp_all add: guard_expired_def)
qed

text \<open>
  C37. The guard ends and does what it is for.  When the system makes progress, it returns, with a code
  from 0 to 255 for signal numbers below 128: 2 for bad arguments; the worker's own code, or 128 and its
  signal, without a signal of its own, when the worker ended by itself; otherwise the whole group was
  terminated, and unless the clock failed killed too, and the code is 124, or 128 and the signal that
  stopped the guard.  The group is not terminated before the limit unless the guard was stopped: at that
  turn the clock had come to the limit, less at most the fraction of a second.
\<close>

theorem guard_returns_in_time:
  assumes "\<And>limit. parse_limit (argv ! 1) = Some limit \<Longrightarrow> guard_progress limit e"
    "0 \<le> ge_stopped_at_end e" "ge_stopped_at_end e < 128"
    "\<And>r t. r \<in> set (ge_rounds e) \<Longrightarrow> gr_clock r = Some t \<Longrightarrow> clock_ok t"
  shows "\<exists>es code. guard_main argv e = (es, Some code) \<and> 0 \<le> code \<and> code \<le> 255 \<and>
    (length argv < 3 \<or> parse_limit (argv ! 1) = None \<longrightarrow> es = [] \<and> code = 2) \<and>
    (es = [] \<longrightarrow> code = 2 \<or> code = 125 \<or> (\<exists>r\<in>set (ge_rounds e). \<exists>status. gr_wait r = Reaped status \<and> code = exit_code status)) \<and>
    (Kill_group \<in> set es \<longrightarrow> code = (if ge_stopped_at_end e \<noteq> 0 then 128 + ge_stopped_at_end e else 124)) \<and>
    (Term_group \<in> set es \<longrightarrow> (\<exists>limit start. parse_limit (argv ! 1) = Some limit \<and> ge_start e = Some start \<and>
       (\<exists>r\<in>set (ge_rounds e). gr_stopped r \<noteq> 0 \<or> (\<exists>t. gr_clock r = Some t \<and> fst start + limit \<le> fst t + 1))))"
proof -
  consider "length argv < 3 \<or> parse_limit (argv ! 1) = None"
    | limit where "\<not> length argv < 3" "parse_limit (argv ! 1) = Some limit" "\<not> (ge_fork_ok e \<and> ge_setpgid_ok e \<and> ge_start e \<noteq> None)"
    | limit start where "\<not> length argv < 3" "parse_limit (argv ! 1) = Some limit" "ge_fork_ok e" "ge_setpgid_ok e" "ge_start e = Some start"
    by (cases "length argv < 3"; cases "parse_limit (argv ! 1)"; auto)
  then show ?thesis
  proof cases
    case 1
    then show ?thesis by (auto simp: guard_main_def)
  next
    case 2
    then show ?thesis by (cases "ge_start e") (auto simp: guard_main_def monotime_def)
  next
    case 3
    have p: "guard_progress limit e" by (rule assms(1) [OF 3(2)])
    have l: "1 \<le> limit" "limit \<le> 3600" using 3(2) by (auto simp: parse_limit_def split: prod.splits if_splits)
    obtain r where r: "clock_ok start" "r \<in> set (ge_rounds e)" "round_ends (fst start + limit + 2) r"
      using p 3(5) by (auto simp: guard_progress_def)
    obtain m d where d: "monotime (Some start) = Some m" "fp_add m (dbl (of_int limit)) = Fin d"
      "of_int (fst start + limit) \<le> d" "d \<le> of_int (fst start + 1 + limit)"
      using guard_deadline [OF r(1), of limit] l by auto
    have "(of_int (fst start + 1 + limit) :: rat) \<le> of_int (fst start + limit + 2)" by (simp only: of_int_le_iff)
    then obtain res where res: "guard_loop (Fin d) (ge_rounds e) = Some res"
      using guard_loop_ends [OF _ r(2,3)] d(4) by (meson order_trans)
    show ?thesis
    proof (cases res)
      case (Child_ended status)
      then show ?thesis using 3 d res guard_loop_cases [OF res] exit_code_range [of status]
        by (auto simp: guard_main_def)
    next
      case Guard_failed
      then show ?thesis using 3 d res by (auto simp: guard_main_def)
    next
      case Expired
      have late: "\<exists>r\<in>set (ge_rounds e). gr_stopped r \<noteq> 0 \<or> (\<exists>t. gr_clock r = Some t \<and> fst start + limit \<le> fst t + 1)"
      proof -
        obtain r' where r': "r' \<in> set (ge_rounds e)"
          "gr_stopped r' \<noteq> 0 \<or> (\<exists>now. monotime (gr_clock r') = Some now \<and> fp_le (Fin d) now)"
          using guard_loop_cases [OF res] Expired by auto
        have "fst start + limit \<le> fst t + 1" if tt: "gr_clock r' = Some t" "monotime (gr_clock r') = Some now" "fp_le (Fin d) now" for t now
        proof -
          obtain q where "now = Fin q" "q \<le> of_int (fst t + 1)"
            using monotime_between [OF assms(4) [OF r'(1) tt(1)]] tt(1,2) by auto
          then have "(of_int (fst start + limit) :: rat) \<le> of_int (fst t + 1)" using d(3) tt(3) by simp
          then show ?thesis by (simp only: of_int_le_iff)
        qed
        then show ?thesis using r'
          by (cases "gr_clock r'") (auto simp: monotime_def intro!: bexI [OF _ r'(1)])
      qed
      obtain es code where x: "guard_expired e = (es, Some code)"
        "code = 125 \<and> es = [Term_group] \<or> es = [Term_group, Kill_group] \<and>
          code = (if ge_stopped_at_end e \<noteq> 0 then 128 + ge_stopped_at_end e else 124)"
        using guard_expired_ends [OF p] by blast
      have "guard_main argv e = (es, Some code)" using 3 d res x(1) Expired by (simp add: guard_main_def)
      then show ?thesis using 3 late x(2) assms(2,3) by auto
    qed
  qed
qed

definition slow_worker :: guard_env where
  "slow_worker = \<lparr>ge_fork_ok = True, ge_setpgid_ok = True, ge_start = Some (100, 0),
     ge_rounds = [\<lparr>gr_wait = Still_running, gr_stopped = 0, gr_clock = Some (100, 100000000)\<rparr>,
       \<lparr>gr_wait = Still_running, gr_stopped = 0, gr_clock = Some (112, 0)\<rparr>],
     ge_grace_start = Some (112, 0), ge_grace = [Some (112, 100000000), Some (115, 0)], ge_reap = [Reaped 9],
     ge_stopped_at_end = 0\<rparr>"

lemma guard_returns_in_time_witness:
  "\<exists>es code. guard_main [''service_guard'', ''10'', ''sh''] slow_worker = (es, Some code) \<and>
     (Kill_group \<in> set es \<longrightarrow> code = 124)"
proof -
  have l: "parse_limit (show_nat 10) = Some 10"
    by (simp add: parse_limit_def strtol10_show_nat long_max_def)
  have s: "show_nat 10 = ''10''" by code_simp
  have p: "guard_progress 10 slow_worker"
    by (auto simp: guard_progress_def slow_worker_def clock_ok_def round_ends_def)
  have "\<exists>es code. guard_main [''service_guard'', ''10'', ''sh''] slow_worker = (es, Some code) \<and> 0 \<le> code \<and> code \<le> 255 \<and>
    (length [''service_guard'', ''10'', ''sh''] < 3 \<or> parse_limit ([''service_guard'', ''10'', ''sh''] ! 1) = None \<longrightarrow> es = [] \<and> code = 2) \<and>
    (es = [] \<longrightarrow> code = 2 \<or> code = 125 \<or> (\<exists>r\<in>set (ge_rounds slow_worker). \<exists>status. gr_wait r = Reaped status \<and> code = exit_code status)) \<and>
    (Kill_group \<in> set es \<longrightarrow> code = (if ge_stopped_at_end slow_worker \<noteq> 0 then 128 + ge_stopped_at_end slow_worker else 124)) \<and>
    (Term_group \<in> set es \<longrightarrow> (\<exists>limit start. parse_limit ([''service_guard'', ''10'', ''sh''] ! 1) = Some limit \<and> ge_start slow_worker = Some start \<and>
       (\<exists>r\<in>set (ge_rounds slow_worker). gr_stopped r \<noteq> 0 \<or> (\<exists>t. gr_clock r = Some t \<and> fst start + limit \<le> fst t + 1))))"
    using p l s by (intro guard_returns_in_time) (auto simp: slow_worker_def clock_ok_def)
  then show ?thesis by (auto simp: slow_worker_def)
qed

end
