(* ===== verification/Snap_Scan.thy ===== *)
theory Snap_Scan
  imports H264_Setup
begin

text \<open>
  How \<open>src/snapshot/snapshot/imggrabber.c\<close> finds the frames of a picture.  It has a copy of the ring
  routines of the video grabber (theory \<open>Frame_Ring\<close>; its \<open>cb_memcpy\<close> is \<open>cb2s_memcpy\<close>), searches the
  whole buffer for the latest parameter sets and the latest key frame of a resolution, waits until it
  has them, and copies them together for the decoder.  The configuration is the grabber's, with the
  resolution \<open>Res_low\<close> or \<open>Res_high\<close>; the memory may change between two reads.
\<close>

section \<open>Searching the ring\<close>

text \<open>
  The header and the address of the last sequence, picture and video parameter set and the last key
  frame; an address that is null is \<open>None\<close>.
\<close>

record snap_records =
  sr_sps :: "(frame_header \<times> int) option"
  sr_pps :: "(frame_header \<times> int) option"
  sr_vps :: "(frame_header \<times> int) option"
  sr_idr :: "(frame_header \<times> int) option"

definition no_records :: snap_records where
  "no_records = \<lparr>sr_sps = None, sr_pps = None, sr_vps = None, sr_idr = None\<rparr>"

definition snap_selects :: "grab_config \<Rightarrow> frame_header \<Rightarrow> bool" where
  "snap_selects c h \<longleftrightarrow> gc_resolution c = Res_low \<and> fh_type h AND 0x0800 \<noteq> 0 \<or>
     gc_resolution c = Res_high \<and> fh_type h AND 0x0400 \<noteq> 0"

definition snap_keep :: "grab_config \<Rightarrow> frame_header \<Rightarrow> int \<Rightarrow> snap_records \<Rightarrow> snap_records" where
  "snap_keep c h p s =
     (if \<not> snap_selects c h then s
      else if fh_type h AND 0x0002 \<noteq> 0 then s\<lparr>sr_sps := Some (h, p)\<rparr>
      else if fh_type h AND 0x0004 \<noteq> 0 then s\<lparr>sr_pps := Some (h, p)\<rparr>
      else if fh_type h AND 0x0008 \<noteq> 0 then s\<lparr>sr_vps := Some (h, p)\<rparr>
      else if fh_type h AND 0x0001 \<noteq> 0 then s\<lparr>sr_idr := Some (h, p)\<rparr>
      else s)"

text \<open>
  The walk has no bound in the code: the result is \<open>None\<close> for a fault, \<open>Some None\<close> when it still runs
  after \<open>n\<close> headers.
\<close>

fun snap_walk ::
  "nat \<Rightarrow> grab_config \<Rightarrow> (nat \<Rightarrow> byte list) \<Rightarrow> int \<Rightarrow> int \<Rightarrow> frame_header \<Rightarrow> snap_records \<Rightarrow>
   (frame_header \<times> snap_records) option option" where
  "snap_walk n c mems cur until fh s =
     (if cur = until then Some (Some (fh, s))
      else case n of
        0 \<Rightarrow> Some None
      | Suc n' \<Rightarrow> do {
          h \<leftarrow> cb2s_headercpy (gc_ring c) (mems 0) fh cur (gc_header_size c);
          if header_too_long c h then Some (Some (h, s\<lparr>sr_sps := None\<rparr>))
          else snap_walk n' c (mems \<circ> Suc) (after_frame c h cur) until h (snap_keep c h cur s)
        })"

declare snap_walk.simps [simp del]

definition snap_pass ::
  "nat \<Rightarrow> grab_config \<Rightarrow> grab_view \<Rightarrow> frame_header \<Rightarrow> snap_records \<Rightarrow> (frame_header \<times> snap_records) option option" where
  "snap_pass n c v fh s =
     (let until = data_end c v
      in if until \<noteq> fr_offset (gc_ring c) + gv_finish v then Some (Some (fh, s))
         else snap_walk n c (gv_headers v) (fr_offset (gc_ring c) + gv_start v) until fh s)"

definition snap_complete :: "snap_records \<Rightarrow> bool" where
  "snap_complete s \<longleftrightarrow> sr_sps s \<noteq> None \<and> sr_pps s \<noteq> None \<and> sr_idr s \<noteq> None"

text \<open>Passes, each with the number of headers it reads at most, until the frames are there.\<close>

fun snap_passes ::
  "grab_config \<Rightarrow> (nat \<times> grab_view) list \<Rightarrow> frame_header \<Rightarrow> snap_records \<Rightarrow> snap_records option option" where
  "snap_passes c [] fh s = Some None"
| "snap_passes c ((n, v) # vs) fh s = do {
     r \<leftarrow> snap_pass n c v fh s;
     case r of
       None \<Rightarrow> Some None
     | Some (fh', s') \<Rightarrow> if snap_complete s' then Some (Some s') else snap_passes c vs fh' s'
   }"

section \<open>The input of the decoder\<close>

definition snap_sps_len :: "frame_header \<Rightarrow> u32" where
  "snap_sps_len h = (if fh_len h \<ge> 6 then fh_len h - 6 else 0)"

text \<open>
  The headers are left out, six more bytes of the sequence parameter set, and the frames are copied
  one after the other, each from the memory as it then is; a missing frame is a null pointer.
\<close>

definition snap_parts ::
  "grab_config \<Rightarrow> (nat \<Rightarrow> byte list) \<Rightarrow> snap_records \<Rightarrow> (byte list option \<times> byte list \<times> byte list \<times> byte list) option" where
  "snap_parts c mems s =
     (let r = gc_ring c; hs = gc_header_size c
      in do {
        vps \<leftarrow> (case sr_vps s of
            None \<Rightarrow> Some None
          | Some (h, p) \<Rightarrow> map_option Some (cb2s_memcpy r (mems 0) (cb_move r p hs) (uint (fh_len h))));
        (h, p) \<leftarrow> sr_sps s;
        sps \<leftarrow> cb2s_memcpy r (mems 1) (cb_move r p (hs + 6)) (uint (snap_sps_len h));
        (h, p) \<leftarrow> sr_pps s;
        pps \<leftarrow> cb2s_memcpy r (mems 2) (cb_move r p hs) (uint (fh_len h));
        (h, p) \<leftarrow> sr_idr s;
        idr \<leftarrow> cb2s_memcpy r (mems 3) (cb_move r p hs) (uint (fh_len h));
        Some (vps, sps, pps, idr)
      })"

text \<open>The decoder gets H.265 when there is a video parameter set.\<close>

definition decoder_input :: "byte list option \<times> byte list \<times> byte list \<times> byte list \<Rightarrow> nat \<times> byte list" where
  "decoder_input parts =
     (case parts of (vps, sps, pps, idr) \<Rightarrow>
        (if vps = None then 4 else 5, (case vps of None \<Rightarrow> [] | Some v \<Rightarrow> v) @ sps @ pps @ idr))"
section \<open>Safety for any contents\<close>

definition record_ok :: "grab_config \<Rightarrow> (frame_header \<times> int) option \<Rightarrow> bool" where
  "record_ok c r \<longleftrightarrow> (\<forall>h p. r = Some (h, p) \<longrightarrow> in_ring c p \<and> \<not> header_too_long c h)"

definition records_ok :: "grab_config \<Rightarrow> snap_records \<Rightarrow> bool" where
  "records_ok c s \<longleftrightarrow> record_ok c (sr_sps s) \<and> record_ok c (sr_pps s) \<and> record_ok c (sr_vps s) \<and> record_ok c (sr_idr s)"

lemma no_records_ok: "records_ok c no_records"
  by (simp add: records_ok_def record_ok_def no_records_def)

lemma snap_keep_ok:
  "records_ok c s \<Longrightarrow> in_ring c p \<Longrightarrow> \<not> header_too_long c h \<Longrightarrow> records_ok c (snap_keep c h p s)"
  by (simp add: records_ok_def snap_keep_def record_ok_def)

lemma safe_snap_walk:
  assumes "config_safe c" "\<And>k. mapped c (mems k)" "in_ring c cur" "records_ok c s"
  shows "\<exists>r. snap_walk n c mems cur until fh s = Some r \<and> (\<forall>fh' s'. r = Some (fh', s') \<longrightarrow> records_ok c s')"
  using assms(2-)
proof (induction n arbitrary: mems cur fh s)
  case 0
  then show ?case by (simp add: snap_walk.simps)
next
  case (Suc n)
  obtain h where h: "cb2s_headercpy (gc_ring c) (mems 0) fh cur (gc_header_size c) = Some h"
    using safe_header [OF assms(1) Suc.prems(1,2)] by blast
  show ?case
  proof (cases "cur = until \<or> header_too_long c h")
    case True
    then show ?thesis using h Suc.prems(3) by (auto simp: snap_walk.simps records_ok_def record_ok_def)
  next
    case False
    have "\<exists>r. snap_walk n c (mems \<circ> Suc) (after_frame c h cur) until h (snap_keep c h cur s) = Some r \<and>
        (\<forall>fh' s'. r = Some (fh', s') \<longrightarrow> records_ok c s')"
    proof (rule Suc.IH)
      show "mapped c ((mems \<circ> Suc) k)" for k using Suc.prems(1) by simp
      show "in_ring c (after_frame c h cur)" using safe_step(1) [OF assms(1) Suc.prems(2)] False by blast
      show "records_ok c (snap_keep c h cur s)" using snap_keep_ok Suc.prems(2,3) False by blast
    qed
    then show ?thesis using False h by (simp add: snap_walk.simps [of "Suc n"])
  qed
qed

definition snap_view_ok :: "grab_config \<Rightarrow> grab_view \<Rightarrow> bool" where
  "snap_view_ok c v \<longleftrightarrow> (\<forall>k. mapped c (gv_headers v k)) \<and> in_ring c (fr_offset (gc_ring c) + gv_start v)"

lemma safe_snap_pass:
  assumes "config_safe c" "snap_view_ok c v" "records_ok c s"
  shows "\<exists>r. snap_pass n c v fh s = Some r \<and> (\<forall>fh' s'. r = Some (fh', s') \<longrightarrow> records_ok c s')"
proof (cases "data_end c v = fr_offset (gc_ring c) + gv_finish v")
  case True
  have "mapped c (gv_headers v k)" "in_ring c (fr_offset (gc_ring c) + gv_start v)" for k
    using assms(2) by (simp_all add: snap_view_ok_def)
  then show ?thesis using safe_snap_walk [OF assms(1) _ _ assms(3)] True by (simp add: snap_pass_def)
qed (use assms(3) in \<open>simp add: snap_pass_def\<close>)

lemma safe_snap_passes:
  assumes "config_safe c" "\<forall>(n, v)\<in>set vs. snap_view_ok c v" "records_ok c s"
  shows "\<exists>r. snap_passes c vs fh s = Some r \<and> (\<forall>s'. r = Some s' \<longrightarrow> records_ok c s' \<and> snap_complete s')"
  using assms(2,3)
proof (induction vs arbitrary: fh s)
  case (Cons nv vs)
  obtain n v where nv: "nv = (n, v)" by (cases nv)
  obtain r where r: "snap_pass n c v fh s = Some r" "\<forall>fh' s'. r = Some (fh', s') \<longrightarrow> records_ok c s'"
    using safe_snap_pass [OF assms(1), of v s n fh] Cons.prems by (auto simp: nv)
  show ?case
  proof (cases r)
    case None
    then show ?thesis using r(1) by (simp add: nv)
  next
    case (Some x)
    then show ?thesis using r Cons.IH [of "snd x" "fst x"] Cons.prems(1) by (cases x) (simp add: nv)
  qed
qed simp

text \<open>The copies stay in the buffer, and together they are less than four times its size.\<close>

lemma safe_part:
  assumes "config_safe c" "mapped c mem" "record_ok c (Some (h, p))" "k = 0 \<or> k = 6"
    "unat w + nat k \<le> unat (fh_len h) \<or> unat w = 0"
  shows "\<exists>bs. cb2s_memcpy (gc_ring c) mem (cb_move (gc_ring c) p (gc_header_size c + k)) (uint (w :: u32)) = Some bs \<and>
    length bs < 1073741824"
proof -
  let ?n = "unat w"
  have p: "in_ring c p" "\<not> header_too_long c h" using assms(3) by (simp_all add: record_ok_def)
  have geo: "4 \<le> gc_header_size c" "gc_header_size c \<le> 40" "100 \<le> fr_span (gc_ring c)"
    "fr_span (gc_ring c) < 1073741824" using assms(1) by (simp_all add: config_safe_def)
  have "int (unat (fh_len h)) + gc_header_size c \<le> fr_span (gc_ring c)" by (rule length_checked [OF assms(1) p(2)])
  then have n: "int ?n \<le> fr_span (gc_ring c)" "?n < 1073741824" using assms(4,5) geo by linarith+
  have "in_ring c (cb_move (gc_ring c) p (gc_header_size c + k))" using geo assms(4) by (intro safe_move [OF p(1)]) auto
  then obtain bs where "cb2s_memcpy (gc_ring c) mem (cb_move (gc_ring c) p (gc_header_size c + k)) (int ?n) = Some bs" "length bs = ?n"
    using safe_copy [OF assms(1,2) _ _ n(1)] by auto
  then show ?thesis using n(2) by (simp add: uint_nat del: of_nat_unat)
qed

lemma snap_sps_len_unat: "unat (snap_sps_len h) = unat (fh_len h) - 6"
proof (cases "fh_len h \<ge> 6")
  case True
  then show ?thesis by (simp add: snap_sps_len_def unat_sub)
next
  case False
  then have "unat (fh_len h) < 6" by (simp add: word_less_nat_alt not_le)
  then show ?thesis using False by (simp add: snap_sps_len_def)
qed

lemma snap_parts_some:
  assumes "config_safe c" "\<And>k. mapped c (mems k)" "records_ok c s" "snap_complete s"
  shows "\<exists>vps sps pps idr. snap_parts c mems s = Some (vps, sps, pps, idr) \<and>
    (vps = None \<longleftrightarrow> sr_vps s = None) \<and> length (snd (decoder_input (vps, sps, pps, idr))) < 2 ^ 32"
proof -
  let ?r = "gc_ring c" and ?hs = "gc_header_size c"
  obtain hs ps hp pp hi pi where some: "sr_sps s = Some (hs, ps)" "sr_pps s = Some (hp, pp)" "sr_idr s = Some (hi, pi)"
    using assms(4) by (auto simp: snap_complete_def)
  have ok: "record_ok c (Some (hs, ps))" "record_ok c (Some (hp, pp))" "record_ok c (Some (hi, pi))" "record_ok c (sr_vps s)"
    using assms(3) some by (simp_all add: records_ok_def)
  have sl: "unat (snap_sps_len hs) + nat 6 \<le> unat (fh_len hs) \<or> unat (snap_sps_len hs) = 0"
    unfolding snap_sps_len_unat by arith
  obtain sps where sps: "cb2s_memcpy ?r (mems 1) (cb_move ?r ps (?hs + 6)) (uint (snap_sps_len hs)) = Some sps"
    "length sps < 1073741824"
    using safe_part [OF assms(1,2) ok(1) _ sl, of 1] by auto
  obtain pps where pps: "cb2s_memcpy ?r (mems 2) (cb_move ?r pp ?hs) (uint (fh_len hp)) = Some pps" "length pps < 1073741824"
    using safe_part [OF assms(1,2) ok(2), of 0 "fh_len hp" 2] by auto
  obtain idr where idr: "cb2s_memcpy ?r (mems 3) (cb_move ?r pi ?hs) (uint (fh_len hi)) = Some idr" "length idr < 1073741824"
    using safe_part [OF assms(1,2) ok(3), of 0 "fh_len hi" 3] by auto
  show ?thesis
  proof (cases "sr_vps s")
    case None
    then show ?thesis using some sps pps idr by (simp add: snap_parts_def decoder_input_def)
  next
    case (Some x)
    obtain hv pv where x: "x = (hv, pv)" by (cases x)
    obtain vps where "cb2s_memcpy ?r (mems 0) (cb_move ?r pv ?hs) (uint (fh_len hv)) = Some vps" "length vps < 1073741824"
      using safe_part [OF assms(1,2), of hv pv 0 "fh_len hv" 0] ok(4) Some x by auto
    then show ?thesis using some Some x sps pps idr by (simp add: snap_parts_def decoder_input_def)
  qed
qed
text \<open>
  The snapshot program stays in the buffer: whatever the buffer contains and however it changes
  between the reads, as long as the control words lie in it, the search never reads outside the
  mapping, and when it ends the frames it found are copied without reading outside the mapping or
  through a null pointer, to less than 2^32 bytes, so the size computed for their allocation is exact.
\<close>

theorem snapshot_stays_in_buffer:
  assumes "config_safe c" "\<And>k. mapped c (mems k)" "\<forall>(n, v)\<in>set vs. snap_view_ok c v"
  shows "\<exists>r. snap_passes c vs fh no_records = Some r \<and>
    (\<forall>s. r = Some s \<longrightarrow> (\<exists>parts. snap_parts c mems s = Some parts \<and> length (snd (decoder_input parts)) < 2 ^ 32))"
proof -
  obtain r where r: "snap_passes c vs fh no_records = Some r" "\<forall>s'. r = Some s' \<longrightarrow> records_ok c s' \<and> snap_complete s'"
    using safe_snap_passes [OF assms(1,3) no_records_ok] by blast
  have "\<exists>parts. snap_parts c mems s = Some parts \<and> length (snd (decoder_input parts)) < 2 ^ 32" if "r = Some s" for s
  proof -
    have "records_ok c s" "snap_complete s" using r(2) that by auto
    then show ?thesis using snap_parts_some [where mems = mems, OF assms(1,2)] by blast
  qed
  then show ?thesis using r(1) by blast
qed

section \<open>The latest frames\<close>

text \<open>The kinds of frames that the search keeps, and the last frame of a kind.\<close>

definition snap_kind :: "nat \<Rightarrow> grab_config \<Rightarrow> raw_frame \<Rightarrow> bool" where
  "snap_kind k c f \<longleftrightarrow> snap_selects c (raw_header c f) \<and>
     (let t = fh_type (raw_header c f)
      in if t AND 0x0002 \<noteq> 0 then k = 1 else if t AND 0x0004 \<noteq> 0 then k = 2
         else if t AND 0x0008 \<noteq> 0 then k = 3 else t AND 0x0001 \<noteq> 0 \<and> k = 4)"

fun latest :: "(raw_frame \<Rightarrow> bool) \<Rightarrow> raw_frame list \<Rightarrow> raw_frame option" where
  "latest P [] = None"
| "latest P (f # fs) = (case latest P fs of Some g \<Rightarrow> Some g | None \<Rightarrow> if P f then Some f else None)"

definition placed :: "grab_config \<Rightarrow> nat \<Rightarrow> raw_frame list \<Rightarrow> raw_frame \<Rightarrow> int \<Rightarrow> bool" where
  "placed c t fs f p \<longleftrightarrow> (\<exists>pre post. fs = pre @ f # post \<and> ring_time (gc_ring c) p (t + length (raw_bytes pre)))"

text \<open>A record after the search over \<open>fs\<close>, from what it was before.\<close>

definition found :: "nat \<Rightarrow> grab_config \<Rightarrow> nat \<Rightarrow> raw_frame list \<Rightarrow>
    (frame_header \<times> int) option \<Rightarrow> (frame_header \<times> int) option \<Rightarrow> bool" where
  "found k c t fs old new \<longleftrightarrow>
     (case latest (snap_kind k c) fs of
        None \<Rightarrow> new = old
      | Some f \<Rightarrow> \<exists>p. new = Some (raw_header c f, p) \<and> placed c t fs f p)"

definition all_found :: "grab_config \<Rightarrow> nat \<Rightarrow> raw_frame list \<Rightarrow> snap_records \<Rightarrow> snap_records \<Rightarrow> bool" where
  "all_found c t fs old new \<longleftrightarrow> found 1 c t fs (sr_sps old) (sr_sps new) \<and> found 2 c t fs (sr_pps old) (sr_pps new) \<and>
     found 3 c t fs (sr_vps old) (sr_vps new) \<and> found 4 c t fs (sr_idr old) (sr_idr new)"

lemma placed_Cons: "placed c (t + (length (fst g) + length (snd g))) fs f p \<Longrightarrow> placed c t (g # fs) f p"
  unfolding placed_def
proof (elim exE conjE)
  fix pre post
  assume "fs = pre @ f # post" "ring_time (gc_ring c) p (t + (length (fst g) + length (snd g)) + length (raw_bytes pre))"
  then show "\<exists>pre post. g # fs = pre @ f # post \<and> ring_time (gc_ring c) p (t + length (raw_bytes pre))"
    by (intro exI [of _ "g # pre"] exI [of _ post]) (simp add: add.assoc)
qed

lemma placed_here: "ring_time (gc_ring c) p t \<Longrightarrow> placed c t (f # fs) f p"
  unfolding placed_def by (intro exI [of _ "[]"] exI [of _ fs]) simp

lemma found_Cons:
  assumes "found k c (t + length (fst f @ snd f)) fs mid new" "ring_time (gc_ring c) p t"
    "mid = (if snap_kind k c f then Some (raw_header c f, p) else old)"
  shows "found k c t (f # fs) old new"
proof (cases "latest (snap_kind k c) fs")
  case None
  then show ?thesis using assms placed_here [OF assms(2)] by (auto simp: found_def)
next
  case (Some g)
  then obtain p' where "new = Some (raw_header c g, p')" "placed c (t + length (fst f @ snd f)) fs g p'"
    using assms(1) by (auto simp: found_def)
  then show ?thesis using Some placed_Cons [of c t f fs g p'] by (simp add: found_def)
qed

lemma keep_fields:
  "sr_sps (snap_keep c (raw_header c f) p s) = (if snap_kind 1 c f then Some (raw_header c f, p) else sr_sps s)"
  "sr_pps (snap_keep c (raw_header c f) p s) = (if snap_kind 2 c f then Some (raw_header c f, p) else sr_pps s)"
  "sr_vps (snap_keep c (raw_header c f) p s) = (if snap_kind 3 c f then Some (raw_header c f, p) else sr_vps s)"
  "sr_idr (snap_keep c (raw_header c f) p s) = (if snap_kind 4 c f then Some (raw_header c f, p) else sr_idr s)"
  by (simp_all add: snap_keep_def snap_kind_def Let_def)

lemma all_found_Cons:
  assumes "all_found c (t + length (fst f @ snd f)) fs (snap_keep c (raw_header c f) p old) new" "ring_time (gc_ring c) p t"
  shows "all_found c t (f # fs) old new"
  using assms(1) found_Cons [OF _ assms(2) keep_fields(1)] found_Cons [OF _ assms(2) keep_fields(2)]
    found_Cons [OF _ assms(2) keep_fields(3)] found_Cons [OF _ assms(2) keep_fields(4)]
  unfolding all_found_def by blast

lemma snap_walk_frames:
  assumes "config_ok c" "list_all (frame_ok c) fs" "length fs \<le> n"
    "\<forall>k. length (mems k) = nat (fr_size (gc_ring c)) \<and> shows_from (gc_ring c) (mems k) t (raw_bytes fs)"
    "ring_time (gc_ring c) cur t" "int (length (raw_bytes fs)) < fr_span (gc_ring c)"
    "ring_time (gc_ring c) until (t + length (raw_bytes fs))"
    "(t + length (raw_bytes fs)) mod nat (fr_span (gc_ring c)) \<noteq> 0"
  shows "\<exists>fh' s'. snap_walk n c mems cur until fh s = Some (Some (fh', s')) \<and> all_found c t fs s s'"
  using assms(2-)
proof (induction fs arbitrary: n mems t cur fh s)
  case Nil
  have geo: "fr_offset (gc_ring c) < fr_size (gc_ring c)" using assms(1) by (simp add: config_ok_def)
  have "cur = until"
    using ring_time_inner [OF Nil(4) geo] ring_time_inner [OF Nil(6) geo] Nil(7) by simp
  then show ?case by (simp add: snap_walk.simps all_found_def found_def)
next
  case (Cons f fs)
  obtain n' where n: "n = Suc n'" using Cons.prems(2) by (cases n) auto
  have f: "frame_ok c f" "length (mems 0) = nat (fr_size (gc_ring c))" "shows_from (gc_ring c) (mems 0) t (fst f @ snd f)"
    using Cons.prems(1) Cons.prems(3) by simp_all
  note step = frame_step [OF assms(1) f(1,2) Cons.prems(4) f(3)]
  have "0 < length (fst f)" using f(1) config_header [OF assms(1)] by (cases "fst f") (simp_all add: frame_ok_def)
  then have ne: "cur \<noteq> until" using ring_time_apart [OF Cons.prems(4,6) _ Cons.prems(5)] by simp
  have "\<exists>fh' s'. snap_walk n' c (mems \<circ> Suc) (after_frame c (raw_header c f) cur) until (raw_header c f)
      (snap_keep c (raw_header c f) cur s) = Some (Some (fh', s')) \<and>
      all_found c (t + length (fst f @ snd f)) fs (snap_keep c (raw_header c f) cur s) s'"
    using Cons.prems n by (intro Cons.IH [OF _ _ _ step(3)]) (simp_all add: add.assoc)
  then obtain fh' s' where w: "snap_walk n' c (mems \<circ> Suc) (after_frame c (raw_header c f) cur) until (raw_header c f)
      (snap_keep c (raw_header c f) cur s) = Some (Some (fh', s'))"
    "all_found c (t + length (fst f @ snd f)) fs (snap_keep c (raw_header c f) cur s) s'"
    by blast
  have "snap_walk n c mems cur until fh s = Some (Some (fh', s'))"
    unfolding n using ne step(1,2) w(1) by (subst snap_walk.simps) simp
  then show ?case using all_found_Cons [OF w(2) Cons.prems(4)] by blast
qed

text \<open>The data of a frame that is placed in the stream, less its first bytes, can be copied.\<close>

lemma placed_frame: "placed c t fs f p \<Longrightarrow> list_all (frame_ok c) fs \<Longrightarrow> frame_ok c f"
  by (auto simp: placed_def)

lemma placed_copy:
  assumes "config_ok c" "list_all (frame_ok c) fs" "placed c t fs f p" "k \<le> length (snd f)"
    "length mem = nat (fr_size (gc_ring c))" "shows_from (gc_ring c) mem t (raw_bytes fs)"
  shows "cb2s_memcpy (gc_ring c) mem (cb_move (gc_ring c) p (gc_header_size c + int k)) (int (length (snd f) - k)) =
    Some (drop k (snd f))"
proof -
  let ?r = "gc_ring c"
  obtain pre post where pre: "fs = pre @ f # post" "ring_time ?r p (t + length (raw_bytes pre))"
    using assms(3) by (auto simp: placed_def)
  let ?t = "t + length (raw_bytes pre)" and ?a = "fst f @ take k (snd f)"
  have f: "int (length (fst f)) = gc_header_size c" "gc_header_size c + int (length (snd f)) \<le> fr_span ?r"
    using assms(2) pre(1) by (simp_all add: frame_ok_def)
  have geo: "fr_offset ?r < fr_size ?r" using assms(1) by (simp add: config_ok_def)
  have shown: "shows_from ?r mem ?t (?a @ drop k (snd f))"
  proof -
    have "raw_bytes fs = raw_bytes pre @ (?a @ drop k (snd f)) @ raw_bytes post" by (simp add: pre(1))
    then show ?thesis using assms(6) by (simp only: shows_from_append)
  qed
  have a: "int (length ?a) = gc_header_size c + int k" using f(1) assms(4) by (simp add: min_def)
  have "ring_time ?r (cb_move ?r p (int (length ?a))) (?t + length ?a)"
    using f assms(4) a by (intro cb_move_time [OF geo pre(2)]) simp
  then have "cb2s_memcpy ?r mem (cb_move ?r p (gc_header_size c + int k)) (int (length (drop k (snd f)))) = Some (drop k (snd f))"
    unfolding a using shown f assms(4) config_ring [OF assms(1,5)]
    by (intro shows_sub [of ?r mem ?t ?a]) simp_all
  then show ?thesis by simp
qed

text \<open>
  The picture is the latest one: when the buffer shows whole frames from its start to the end of
  the data, which is not the end of the ring, the search ends within as many headers as there are
  frames, and the decoder gets, of the frames of the selected resolution, the data of the last video
  parameter set, if there is one, of the last sequence parameter set after its first six bytes, of the
  last picture parameter set and of the last key frame; it is told H.265 exactly when there is a video
  parameter set.
\<close>

lemma latest_frames_are_taken:
  assumes "config_ok c" "view_shows c t fs v" "gv_start v = int (t mod nat (fr_span (gc_ring c)))"
    "(t + length (raw_bytes fs)) mod nat (fr_span (gc_ring c)) \<noteq> 0" "length fs \<le> n"
    "latest (snap_kind 1 c) fs = Some sps" "latest (snap_kind 2 c) fs = Some pps" "latest (snap_kind 4 c) fs = Some idr"
    "6 \<le> length (snd sps)"
  shows "\<exists>s. snap_passes c ((n, v) # vs) fh no_records = Some (Some s) \<and>
    map_option decoder_input (snap_parts c (gv_frames v) s) =
      Some (case latest (snap_kind 3 c) fs of
          None \<Rightarrow> (4, drop 6 (snd sps) @ snd pps @ snd idr)
        | Some vps \<Rightarrow> (5, snd vps @ drop 6 (snd sps) @ snd pps @ snd idr))"
proof -
  let ?r = "gc_ring c" and ?w = "nat (fr_span (gc_ring c))"
  have geo: "fr_offset ?r < fr_size ?r" using assms(1) by (simp add: config_ok_def)
  have v: "list_all (frame_ok c) fs" "int (length (raw_bytes fs)) < fr_span ?r"
    "\<forall>k. length (gv_headers v k) = nat (fr_size ?r) \<and> shows_from ?r (gv_headers v k) t (raw_bytes fs)"
    "\<And>k. length (gv_frames v k) = nat (fr_size ?r)" "\<And>k. shows_from ?r (gv_frames v k) t (raw_bytes fs)"
    "data_end c v = fr_offset ?r + gv_finish v" "data_end c v = fr_offset ?r + int ((t + length (raw_bytes fs)) mod ?w)"
    using assms(2) geo by (auto simp: view_shows_def Let_def)
  have "ring_time ?r (data_end c v) (t + length (raw_bytes fs))" unfolding v(7) by (rule ring_time_start [OF geo])
  moreover have "ring_time ?r (fr_offset ?r + gv_start v) t" unfolding assms(3) by (rule ring_time_start [OF geo])
  ultimately obtain fh' s where w: "snap_walk n c (gv_headers v) (fr_offset ?r + gv_start v) (data_end c v) fh no_records = Some (Some (fh', s))"
    "all_found c t fs no_records s"
    using snap_walk_frames [OF assms(1) v(1) assms(5) v(3) _ v(2) _ assms(4)] by blast
  obtain ps pp pi where some: "sr_sps s = Some (raw_header c sps, ps)" "placed c t fs sps ps"
    "sr_pps s = Some (raw_header c pps, pp)" "placed c t fs pps pp" "sr_idr s = Some (raw_header c idr, pi)" "placed c t fs idr pi"
    using w(2) assms(6-8) by (auto simp: all_found_def found_def)
  have "snap_passes c ((n, v) # vs) fh no_records = Some (Some s)"
    using w(1) v(6) some by (simp add: snap_pass_def snap_complete_def)
  moreover have copy: "cb2s_memcpy ?r (gv_frames v k) (cb_move ?r p (gc_header_size c)) (uint (fh_len (raw_header c f))) = Some (snd f)"
    if "placed c t fs f p" for k f p
    using placed_copy [OF assms(1) v(1) that, of 0 "gv_frames v k"] v(4,5) placed_frame [OF that v(1)]
    by (simp add: frame_ok_def uint_nat)
  moreover have "cb2s_memcpy ?r (gv_frames v k) (cb_move ?r ps (gc_header_size c + 6)) (uint (snap_sps_len (raw_header c sps))) = Some (drop 6 (snd sps))" for k
    using placed_copy [OF assms(1) v(1) some(2) assms(9), of "gv_frames v k"] v(4,5) placed_frame [OF some(2) v(1)] snap_sps_len_unat
    by (simp add: frame_ok_def uint_nat)
  ultimately show ?thesis
    using w(2) some by (auto simp: all_found_def found_def snap_parts_def decoder_input_def no_records_def split: option.splits)
qed
section \<open>A search that does not end\<close>

text \<open>The stream of a ring that is full of frames goes on with them in turn.\<close>

lemma shows_turn:
  assumes "shows_from r mem t (a @ b)" "length (a @ b) = nat (fr_span r)"
  shows "shows_from r mem (t + length a) (b @ a)"
proof -
  have "ring_place r (t + length a + length b + k) = ring_place r (t + k)" for k
  proof -
    have "t + length a + length b + k = t + k + nat (fr_span r)" using assms(2) by simp
    then show ?thesis by (simp only: ring_place_def mod_add_self2)
  qed
  then have "shows_from r mem (t + length a + length b) a" using assms(1) by (simp add: shows_from_def nth_append)
  then show ?thesis using assms(1) by simp
qed

lemma snap_walk_turns:
  assumes "config_ok c" "length mem = nat (fr_size (gc_ring c))"
    "list_all (frame_ok c) fs" "length (raw_bytes fs) = nat (fr_span (gc_ring c))"
    "shows_from (gc_ring c) mem t (raw_bytes fs)" "ring_time (gc_ring c) cur t" "cur \<noteq> fr_offset (gc_ring c)"
  shows "snap_walk n c (\<lambda>_. mem) cur (fr_offset (gc_ring c)) fh s = Some None"
  using assms(3-)
proof (induction n arbitrary: fs t cur fh s)
  case 0
  then show ?case by (simp add: snap_walk.simps)
next
  case (Suc n)
  have "0 < fr_span (gc_ring c)" using assms(1) by (simp add: config_ok_def)
  then obtain f fs' where fs: "fs = f # fs'" using Suc.prems(2) by (cases fs) auto
  have f: "frame_ok c f" "shows_from (gc_ring c) mem t (fst f @ snd f)" using Suc.prems(1,3) by (simp_all add: fs)
  note step = frame_step [OF assms(1) f(1) assms(2) Suc.prems(4) f(2)]
  have "in_ring c cur" using Suc.prems(4) by (simp add: ring_time_def in_ring_def)
  then have ne: "after_frame c (raw_header c f) cur \<noteq> fr_offset (gc_ring c)"
    using safe_step(2) [OF config_ok_safe [OF assms(1)] _ step(2)] by blast
  have turn: "shows_from (gc_ring c) mem (t + length (fst f @ snd f)) (raw_bytes (fs' @ [f]))"
    using shows_turn [of _ mem t "fst f @ snd f" "raw_bytes fs'"] Suc.prems(2,3) by (simp add: fs)
  have "snap_walk n c (\<lambda>_. mem) (after_frame c (raw_header c f) cur) (fr_offset (gc_ring c)) h s' = Some None" for h s'
    using Suc.prems(1,2) by (intro Suc.IH [OF _ _ turn step(3) ne]) (simp_all add: fs)
  then show ?case using Suc.prems(5) step(1,2) by (subst snap_walk.simps) (simp add: comp_def)
qed

text \<open>
  The search may not end: when the ring is full of whole frames, the data begins inside it and ends
  exactly at its end, then, as long as the memory stays as it is, the program goes round the ring for
  ever, past the end of the data, however many headers it reads.
\<close>

theorem snapshot_search_can_hang:
  assumes "config_ok c" "list_all (frame_ok c) fs" "length (raw_bytes fs) = nat (fr_span (gc_ring c))"
    "length mem = nat (fr_size (gc_ring c))" "shows_from (gc_ring c) mem t (raw_bytes fs)"
    "gv_headers v = (\<lambda>_. mem)" "gv_start v = int (t mod nat (fr_span (gc_ring c)))" "0 < gv_start v"
    "gv_used v = fr_span (gc_ring c) - gv_start v" "gv_finish v = 0"
  shows "\<forall>n. snap_passes c ((n, v) # vs) fh no_records = Some None"
proof
  fix n
  have geo: "fr_offset (gc_ring c) < fr_size (gc_ring c)" using assms(1) by (simp add: config_ok_def)
  have "data_end c v = fr_offset (gc_ring c)" using assms(9) by (simp add: data_end_def Let_def)
  moreover have "snap_walk n c (\<lambda>_. mem) (fr_offset (gc_ring c) + gv_start v) (fr_offset (gc_ring c)) fh no_records = Some None"
    using assms(8) ring_time_start [OF geo, of t] unfolding assms(7)
    by (intro snap_walk_turns [OF assms(1,4,2,3,5)]) simp_all
  ultimately show "snap_passes c ((n, v) # vs) fh no_records = Some None"
    using assms(6,10) by (simp add: snap_pass_def)
qed

section \<open>Witnesses\<close>

definition snap_config :: grab_config where
  "snap_config = demo_config\<lparr>gc_resolution := Res_high\<rparr>"

text \<open>A frame of the high resolution: its kind and its data.\<close>

definition snap_frame :: "byte \<Rightarrow> byte list \<Rightarrow> raw_frame" where
  "snap_frame ty d = ([word_of_nat (length d), 0, 0, 0, 0, 0, 0, 0, 0, 0, 0, 0, 0, 0, 0, 0, 0, 0, 0, 0,
     ty, 4, 0, 0, 0, 0, 0, 0], d)"

lemma snap_frame_header: "length d < 256 \<Longrightarrow> raw_header snap_config (snap_frame ty d) =
    \<lparr>fh_len = word_of_nat (length d), fh_counter = 0, fh_time = 0, fh_type = ucast ty OR 0x0400, fh_stream_counter = 0\<rparr>"
  by (simp add: raw_header_def snap_config_def demo_config_def snap_frame_def decode_header_def header_at_def le32_def le16_def
      unsigned_of_nat take_bit_nat_eq_self)

lemma snap_frame_ok: "length d < 100 \<Longrightarrow> frame_ok snap_config (snap_frame ty d)"
  by (simp add: frame_ok_def snap_frame_header)
     (simp add: snap_frame_def snap_config_def demo_config_def unsigned_of_nat take_bit_nat_eq_self)

lemma snap_config_ok: "config_ok snap_config"
  by (simp add: config_ok_def snap_config_def demo_config_def known_header_size_def)

lemma snap_frame_length: "length (fst (snap_frame ty d)) = 28" "snd (snap_frame ty d) = d"
  by (simp_all add: snap_frame_def)

definition snap_frames :: "raw_frame list" where
  "snap_frames = [snap_frame 2 [1, 2, 3, 4, 5, 6, 7], snap_frame 4 [8], snap_frame 1 [9]]"

definition snap_memory :: "byte list" where
  "snap_memory = replicate 300 0 @ raw_bytes snap_frames @ replicate 107 0"

definition snap_view :: grab_view where
  "snap_view = \<lparr>gv_start = 0, gv_used = 93, gv_finish = 93, gv_headers = \<lambda>_. snap_memory, gv_frames = \<lambda>_. snap_memory\<rparr>"

lemma snap_view_shows: "view_shows snap_config 0 snap_frames snap_view"
proof -
  have len: "length (raw_bytes snap_frames) = 93" by (simp add: snap_frames_def snap_frame_length)
  have "shows_from (gc_ring snap_config) snap_memory 0 (raw_bytes snap_frames)"
    unfolding snap_memory_def by (rule shows_from_place [OF refl]) (simp_all add: len snap_config_def demo_config_def)
  moreover have "length snap_memory = 500" by (simp add: snap_memory_def len)
  moreover have "list_all (frame_ok snap_config) snap_frames" by (simp add: snap_frames_def snap_frame_ok)
  ultimately show ?thesis unfolding view_shows_def Let_def
    by (simp add: snap_view_def data_end_def len) (simp add: snap_config_def demo_config_def)
qed

lemma snap_kinds:
  "snap_kind k snap_config (snap_frame 2 [1, 2, 3, 4, 5, 6, 7]) \<longleftrightarrow> k = 1"
  "snap_kind k snap_config (snap_frame 4 [8]) \<longleftrightarrow> k = 2" "snap_kind k snap_config (snap_frame 1 [9]) \<longleftrightarrow> k = 4"
  by (simp_all add: snap_kind_def snap_selects_def snap_frame_header) (simp_all add: snap_config_def Let_def)

lemma sample_frames_are_taken:
  "\<exists>s. snap_passes snap_config [(3, snap_view)] fh no_records = Some (Some s) \<and>
     map_option decoder_input (snap_parts snap_config (gv_frames snap_view) s) = Some (4, [7, 8, 9])"
proof -
  have "\<exists>s. snap_passes snap_config [(3, snap_view)] fh no_records = Some (Some s) \<and>
     map_option decoder_input (snap_parts snap_config (gv_frames snap_view) s) =
      Some (case latest (snap_kind 3 snap_config) snap_frames of
          None \<Rightarrow> (4, drop 6 [1, 2, 3, 4, 5, 6, 7] @ [8] @ [9])
        | Some vps \<Rightarrow> (5, snd vps @ drop 6 [1, 2, 3, 4, 5, 6, 7] @ [8] @ [9]))"
    using latest_frames_are_taken [OF snap_config_ok snap_view_shows, of 3 "snap_frame 2 [1, 2, 3, 4, 5, 6, 7]" "snap_frame 4 [8]" "snap_frame 1 [9]" "[]" fh]
    by (simp add: snap_frames_def snap_kinds snap_frame_length) (simp add: snap_view_def snap_config_def demo_config_def)
  then show ?thesis by (simp add: snap_frames_def snap_kinds)
qed

lemma snapshot_stays_in_buffer_witness:
  "\<exists>r. snap_passes snap_config [(9, snap_view), (9, snap_view)] fh no_records = Some r"
proof -
  have "\<And>k. mapped snap_config (gv_headers snap_view k)"
    using snap_view_shows by (simp add: view_shows_def mapped_def Let_def)
  then have "\<exists>r. snap_passes snap_config [(9, snap_view), (9, snap_view)] fh no_records = Some r \<and>
    (\<forall>s. r = Some s \<longrightarrow> (\<exists>parts. snap_parts snap_config (gv_headers snap_view) s = Some parts \<and> length (snd (decoder_input parts)) < 2 ^ 32))"
    by (intro snapshot_stays_in_buffer config_ok_safe [OF snap_config_ok])
       (simp_all add: snap_view_ok_def in_ring_def, simp_all add: snap_view_def snap_config_def demo_config_def)
  then show ?thesis by blast
qed

definition full_frame :: raw_frame where
  "full_frame = snap_frame 0 (replicate 12 0)"

definition full_memory :: "byte list" where
  "full_memory = replicate 300 0 @ raw_bytes (full_frame # [full_frame, full_frame, full_frame, full_frame])"

definition full_view :: grab_view where
  "full_view = \<lparr>gv_start = 40, gv_used = 160, gv_finish = 0, gv_headers = \<lambda>_. full_memory, gv_frames = \<lambda>_. full_memory\<rparr>"

lemma snapshot_search_can_hang_witness:
  "\<forall>fh n. snap_passes snap_config [(n, full_view)] fh no_records = Some None"
proof -
  let ?fs = "[full_frame, full_frame, full_frame, full_frame]"
  have f: "length (fst full_frame) = 28" "length (snd full_frame) = 12" by (simp_all add: full_frame_def snap_frame_length)
  then have len: "length (raw_bytes (full_frame # ?fs)) = 200" by simp
  have "shows_from (gc_ring snap_config) full_memory 0 (raw_bytes [full_frame] @ raw_bytes ?fs)"
    unfolding full_memory_def using f
    by (intro shows_from_place [of _ "replicate 300 0" _ "[]"]) (simp_all add: snap_config_def demo_config_def)
  then have "shows_from (gc_ring snap_config) full_memory (0 + length (raw_bytes [full_frame])) (raw_bytes ?fs @ raw_bytes [full_frame])"
    using f by (intro shows_turn) (simp_all add: snap_config_def demo_config_def)
  then have "shows_from (gc_ring snap_config) full_memory 40 (raw_bytes (full_frame # ?fs))"
    using f by simp
  then have "\<forall>n. snap_passes snap_config [(n, full_view)] fh no_records = Some None" for fh
    using len f snap_frame_ok [of "replicate 12 0" 0]
    by (intro snapshot_search_can_hang [OF snap_config_ok, where fs = "full_frame # ?fs" and mem = full_memory and t = 40])
      (simp_all add: full_view_def full_memory_def, simp_all add: full_frame_def snap_config_def demo_config_def)
  then show ?thesis by simp
qed

end
