(* ===== verification/Snap_File.thy ===== *)
theory Snap_File
  imports Snap_Scan
begin

text \<open>
  How \<open>src/snapshot/snapshot/imggrabber.c\<close> takes a file apart that holds a picture: two loops look
  for start codes and note where parameter sets and key frames begin and end.  A file whose units are
  in their order is taken apart exactly.
\<close>

section \<open>Start codes\<close>

datatype nal_kind = Nal_vps | Nal_sps | Nal_pps | Nal_idr

definition start_code :: "byte list \<Rightarrow> nat \<Rightarrow> bool" where
  "start_code buf i \<longleftrightarrow> buf ! i = 0 \<and> buf ! (i + 1) = 0 \<and> buf ! (i + 2) = 0 \<and> buf ! (i + 3) = 1"

text \<open>What the byte after a start code begins, and what it ends; of H.264 and of H.265.\<close>

definition begins_kind :: "byte \<Rightarrow> nal_kind option" where
  "begins_kind b =
     (if b AND 0x7E = 0x40 then Some Nal_vps
      else if b AND 0x1F = 0x7 \<or> b AND 0x7E = 0x42 then Some Nal_sps
      else if b AND 0x1F = 0x8 \<or> b AND 0x7E = 0x44 then Some Nal_pps
      else if b AND 0x1F = 0x5 \<or> b AND 0x7E = 0x26 then Some Nal_idr
      else None)"

definition ends_kind :: "byte \<Rightarrow> nal_kind option" where
  "ends_kind b =
     (if b AND 0x7E = 0x42 then Some Nal_vps
      else if b AND 0x1F = 0x8 \<or> b AND 0x7E = 0x44 then Some Nal_sps
      else if b AND 0x1F = 0x5 \<or> b AND 0x7E = 0x26 then Some Nal_pps
      else None)"

text \<open>A loop over the file: where it stops, and with what.\<close>

definition seek_unit :: "(byte \<Rightarrow> nal_kind option) \<Rightarrow> byte list \<Rightarrow> nat \<Rightarrow> nat \<times> nal_kind option" where
  "seek_unit kind buf f =
     (case find (\<lambda>i. start_code buf i \<and> kind (buf ! (i + 4)) \<noteq> None) [f..<length buf - 4] of
        Some i \<Rightarrow> (i, kind (buf ! (i + 4)))
      | None \<Rightarrow> (max f (length buf - 4), None))"

record unit_marks =
  um_vps_start :: int
  um_sps_start :: int
  um_pps_start :: int
  um_idr_start :: int
  um_vps_end :: int
  um_sps_end :: int
  um_pps_end :: int

definition no_marks :: unit_marks where
  "no_marks = \<lparr>um_vps_start = -1, um_sps_start = -1, um_pps_start = -1, um_idr_start = -1,
     um_vps_end = -1, um_sps_end = -1, um_pps_end = -1\<rparr>"

definition mark_start :: "nat \<times> nal_kind option \<Rightarrow> unit_marks \<Rightarrow> unit_marks" where
  "mark_start ik m =
     (case snd ik of
        None \<Rightarrow> m
      | Some Nal_vps \<Rightarrow> m\<lparr>um_vps_start := int (fst ik)\<rparr>
      | Some Nal_sps \<Rightarrow> m\<lparr>um_sps_start := int (fst ik)\<rparr>
      | Some Nal_pps \<Rightarrow> m\<lparr>um_pps_start := int (fst ik)\<rparr>
      | Some Nal_idr \<Rightarrow> m\<lparr>um_idr_start := int (fst ik)\<rparr>)"

definition mark_end :: "nat \<times> nal_kind option \<Rightarrow> unit_marks \<Rightarrow> unit_marks" where
  "mark_end jk m =
     (case snd jk of
        Some Nal_vps \<Rightarrow> m\<lparr>um_vps_end := int (fst jk)\<rparr>
      | Some Nal_sps \<Rightarrow> m\<lparr>um_sps_end := int (fst jk)\<rparr>
      | Some Nal_pps \<Rightarrow> m\<lparr>um_pps_end := int (fst jk)\<rparr>
      | _ \<Rightarrow> m)"

lemma seek_unit_ge: "f \<le> fst (seek_unit kind buf f)"
  by (auto simp: seek_unit_def find_Some_iff split: option.split)

text \<open>The outer loop: it goes on where the second loop stopped.\<close>

function find_units :: "byte list \<Rightarrow> nat \<Rightarrow> unit_marks \<Rightarrow> unit_marks" where
  "find_units buf f m =
     (if f < length buf then
        (let i = seek_unit begins_kind buf f; j = seek_unit ends_kind buf (fst i + 4)
         in find_units buf (fst j) (mark_end j (mark_start i m)))
      else m)"
  by pat_completeness auto

termination
proof (relation "measure (\<lambda>(buf, f, m). length buf - f)")
  fix buf f m x xa
  assume "f < length buf" "x = seek_unit begins_kind buf f" "xa = seek_unit ends_kind buf (fst x + 4)"
  then have "f < fst xa"
    using seek_unit_ge [of f begins_kind buf] seek_unit_ge [of "fst x + 4" ends_kind buf] by simp
  then show "((buf, fst xa, mark_end xa (mark_start x m)), buf, f, m) \<in> measure (\<lambda>(buf, f, m). length buf - f)"
    using \<open>f < length buf\<close> by simp
qed simp

declare find_units.simps [simp del]

section \<open>The parts of a file\<close>

text \<open>\<open>Some None\<close> when no frame is found; reading outside the file is the fault \<open>None\<close>.\<close>

definition file_parts :: "byte list \<Rightarrow> (byte list option \<times> byte list \<times> byte list \<times> byte list) option option" where
  "file_parts buf =
     (let m = find_units buf 0 no_marks; size = int (length buf)
      in if um_sps_start m \<ge> 0 \<and> um_pps_start m \<ge> 0 \<and> um_idr_start m \<ge> 0 \<and>
            um_sps_end m > um_sps_start m \<and> um_pps_end m > um_pps_start m \<and> um_idr_start m < size
         then do {
           vps \<leftarrow> (if um_vps_start m \<ge> 0 \<and> um_vps_end m > um_vps_start m
             then map_option Some (mem_read buf (um_vps_start m) (um_vps_end m - um_vps_start m)) else Some None);
           sps \<leftarrow> mem_read buf (um_sps_start m) (um_sps_end m - um_sps_start m);
           pps \<leftarrow> mem_read buf (um_pps_start m) (um_pps_end m - um_pps_start m);
           idr \<leftarrow> mem_read buf (um_idr_start m) (size - um_idr_start m);
           Some (Some (vps, sps, pps, idr))
         }
         else Some None)"

section \<open>Any file\<close>

text \<open>The marks are positions in the file.\<close>

definition marks_ok :: "byte list \<Rightarrow> unit_marks \<Rightarrow> bool" where
  "marks_ok buf m \<longleftrightarrow>
     (\<forall>s \<in> {um_vps_start m, um_sps_start m, um_pps_start m, um_idr_start m, um_vps_end m, um_sps_end m, um_pps_end m}.
        s < int (length buf) \<and> (s \<noteq> -1 \<longrightarrow> 0 \<le> s \<and> start_code buf (nat s))) \<and>
     (um_sps_start m \<noteq> -1 \<longrightarrow> begins_kind (buf ! (nat (um_sps_start m) + 4)) = Some Nal_sps) \<and>
     (um_pps_start m \<noteq> -1 \<longrightarrow> begins_kind (buf ! (nat (um_pps_start m) + 4)) = Some Nal_pps) \<and>
     (um_idr_start m \<noteq> -1 \<longrightarrow> begins_kind (buf ! (nat (um_idr_start m) + 4)) = Some Nal_idr)"

lemma seek_unit_some:
  "snd (seek_unit kind buf f) = Some k \<Longrightarrow>
     fst (seek_unit kind buf f) + 4 < length buf \<and> start_code buf (fst (seek_unit kind buf f)) \<and>
     kind (buf ! (fst (seek_unit kind buf f) + 4)) = Some k"
proof (cases "find (\<lambda>i. start_code buf i \<and> kind (buf ! (i + 4)) \<noteq> None) [f..<length buf - 4]")
  case (Some i)
  then have "i < length buf - 4" "start_code buf i" by (auto simp: find_Some_iff)
  then show "snd (seek_unit kind buf f) = Some k \<Longrightarrow> ?thesis" using Some by (simp add: seek_unit_def)
qed (simp add: seek_unit_def)

lemma mark_start_ok: "marks_ok buf m \<Longrightarrow> marks_ok buf (mark_start (seek_unit begins_kind buf f) m)"
  using seek_unit_some [of begins_kind buf f]
  by (cases "snd (seek_unit begins_kind buf f)") (auto simp: mark_start_def marks_ok_def split: nal_kind.split)

lemma mark_end_ok: "marks_ok buf m \<Longrightarrow> marks_ok buf (mark_end (seek_unit ends_kind buf f) m)"
  using seek_unit_some [of ends_kind buf f]
  by (cases "snd (seek_unit ends_kind buf f)") (auto simp: mark_end_def marks_ok_def split: nal_kind.split)

lemma find_units_ok: "marks_ok buf m \<Longrightarrow> marks_ok buf (find_units buf f m)"
proof (induction buf f m rule: find_units.induct)
  case (1 buf f m)
  show ?case
  proof (cases "f < length buf")
    case True
    have "marks_ok buf (find_units buf (fst (seek_unit ends_kind buf (fst (seek_unit begins_kind buf f) + 4)))
        (mark_end (seek_unit ends_kind buf (fst (seek_unit begins_kind buf f) + 4)) (mark_start (seek_unit begins_kind buf f) m)))"
      by (rule "1.IH" [OF True refl refl mark_end_ok [OF mark_start_ok [OF "1.prems"]]])
    then show ?thesis using True by (simp add: find_units.simps [of buf f] Let_def)
  qed (use "1.prems" in \<open>simp add: find_units.simps [of buf f]\<close>)
qed
section \<open>Units in order\<close>

definition nal_unit :: "byte list \<Rightarrow> byte list" where
  "nal_unit u = [0, 0, 0, 1] @ u"

lemma length_nal_unit [simp]: "length (nal_unit u) = 4 + length u"
  by (simp add: nal_unit_def)

text \<open>Bytes with no start code in them that ends something.\<close>

definition quiet_bytes :: "byte list \<Rightarrow> bool" where
  "quiet_bytes u \<longleftrightarrow> (\<forall>i. i + 4 < length u \<longrightarrow> start_code u i \<longrightarrow> ends_kind (u ! (i + 4)) = None)"

lemma nth_pre: "(pre @ u) ! (length pre + j) = u ! j"
  by simp

lemma start_code_pre: "start_code (pre @ u) (length pre + i) \<longleftrightarrow> start_code u i"
  unfolding start_code_def add.assoc nth_pre ..

lemma length_pre4: "length (pre @ [0, 0, 0, 1 :: byte]) = length pre + 4"
  by simp

lemma seek_here:
  "kind b = Some k \<Longrightarrow> seek_unit kind (pre @ nal_unit (b # u)) (length pre) = (length pre, Some k)"
  by (simp add: seek_unit_def nal_unit_def upt_rec [of "length pre"] start_code_def nth_append)

lemma seek_next:
  assumes "quiet_bytes u" "ends_kind b = Some k"
  shows "seek_unit ends_kind (pre @ u @ nal_unit (b # w)) (length pre) = (length pre + length u, Some k)"
proof -
  let ?v = "u @ nal_unit (b # w)"
  have last: "start_code ?v (length u)" "?v ! (length u + 4) = b"
    by (simp_all add: start_code_def nal_unit_def nth_append)
  have quiet: "\<not> (start_code ?v l \<and> ends_kind (?v ! (l + 4)) \<noteq> None)" if "l < length u" for l
  proof -
    consider "l + 4 < length u" | "l + 4 = length u" | "length u < l + 4" by linarith
    then show ?thesis
    proof cases
      case 1
      then show ?thesis using assms(1) by (auto simp: quiet_bytes_def start_code_def nth_append)
    next
      case 2
      then have "?v ! (l + 4) = 0" by (simp add: nal_unit_def nth_append)
      then show ?thesis by (simp add: ends_kind_def)
    next
      case 3
      then have "l + 3 - length u \<in> {0, 1, 2}" using that by auto
      then have "?v ! (l + 3) = 0" using 3 that by (auto simp: nal_unit_def nth_append)
      then show ?thesis by (simp add: start_code_def)
    qed
  qed
  let ?P = "\<lambda>i. start_code (pre @ ?v) i \<and> ends_kind ((pre @ ?v) ! (i + 4)) \<noteq> None"
  have P: "?P (length pre + i) \<longleftrightarrow> start_code ?v i \<and> ends_kind (?v ! (i + 4)) \<noteq> None" for i
    unfolding start_code_pre by (simp add: add.assoc nth_pre)
  have "find ?P [length pre..<length (pre @ ?v) - 4] = Some (length pre + length u)"
  proof -
    have len: "length u < length [length pre..<length (pre @ ?v) - 4]" by simp
    have ix: "[length pre..<length (pre @ ?v) - 4] ! l = length pre + l" if "l \<le> length u" for l
      using that by (subst nth_upt) (simp_all add: nal_unit_def)
    have "?P ([length pre..<length (pre @ ?v) - 4] ! length u)"
      unfolding ix [OF order_refl] P using last assms(2) by simp
    moreover have "\<not> ?P ([length pre..<length (pre @ ?v) - 4] ! l)" if "l < length u" for l
      unfolding ix [OF less_imp_le [OF that]] P by (rule quiet [OF that])
    ultimately show ?thesis
      unfolding find_Some_iff using len ix [OF order_refl]
      by (intro exI [of _ "length u"] conjI allI impI) (assumption | blast | (rule sym, assumption))+
  qed
  moreover have "(pre @ ?v) ! (length pre + length u + 4) = b" using last(2) by (simp add: add.assoc nth_pre)
  ultimately show ?thesis using assms(2) by (simp add: seek_unit_def)
qed

lemma seek_nothing:
  assumes "quiet_bytes u"
  shows "seek_unit ends_kind (pre @ u) (length pre) = (max (length pre) (length (pre @ u) - 4), None)"
proof -
  have "find (\<lambda>i. start_code (pre @ u) i \<and> ends_kind ((pre @ u) ! (i + 4)) \<noteq> None) [length pre..<length (pre @ u) - 4] = None"
    unfolding find_None_iff
  proof (rule notI, elim exE conjE)
    fix i assume i: "i \<in> set [length pre..<length (pre @ u) - 4]"
      "start_code (pre @ u) i" "ends_kind ((pre @ u) ! (i + 4)) \<noteq> None"
    then obtain j where j: "i = length pre + j" "j + 4 < length u" by (auto simp: le_iff_add)
    then show False using i(2,3) assms unfolding j(1) start_code_pre by (simp add: quiet_bytes_def add.assoc nth_pre)
  qed
  then show ?thesis by (simp add: seek_unit_def)
qed

lemma find_units_step:
  assumes "seek_unit begins_kind buf f = (i, k)" "seek_unit ends_kind buf (i + 4) = (j, k')" "f < length buf"
  shows "find_units buf f m = find_units buf j (mark_end (j, k') (mark_start (i, k) m))"
  using assms by (subst find_units.simps) simp

lemma find_units_end:
  assumes "length buf \<le> f + 4"
  shows "find_units buf f m = m"
proof (cases "f < length buf")
  case True
  have "seek_unit begins_kind buf f = (f, None)" "seek_unit ends_kind buf (f + 4) = (f + 4, None)"
    using assms by (simp_all add: seek_unit_def)
  then have "find_units buf f m = find_units buf (f + 4) (mark_end (f + 4, None) (mark_start (f, None) m))"
    using True by (rule find_units_step)
  then show ?thesis using assms by (simp add: find_units.simps [of buf "f + 4"] mark_start_def mark_end_def)
qed (simp add: find_units.simps [of buf f])

text \<open>One unit after those before it, and the last one.\<close>

lemma find_units_unit:
  assumes "begins_kind b = Some k" "ends_kind b' = Some k'" "quiet_bytes (b # u)"
  shows "find_units (pre @ nal_unit (b # u) @ nal_unit (b' # w)) (length pre) m =
    find_units (pre @ nal_unit (b # u) @ nal_unit (b' # w)) (length (pre @ nal_unit (b # u)))
      (mark_end (length (pre @ nal_unit (b # u)), Some k') (mark_start (length pre, Some k) m))"
proof -
  let ?buf = "pre @ nal_unit (b # u) @ nal_unit (b' # w)"
  note l4 = length_pre4 [of pre]
  have buf: "?buf = pre @ nal_unit (b # (u @ nal_unit (b' # w)))" "?buf = (pre @ [0, 0, 0, 1]) @ (b # u) @ nal_unit (b' # w)"
    by (simp_all add: nal_unit_def)
  have 1: "seek_unit begins_kind ?buf (length pre) = (length pre, Some k)"
    unfolding buf(1) using assms(1) by (rule seek_here)
  have "seek_unit ends_kind ?buf (length (pre @ [0, 0, 0, 1])) = (length (pre @ [0, 0, 0, 1]) + length (b # u), Some k')"
    unfolding buf(2) using assms(3,2) by (rule seek_next)
  from this [unfolded l4] have 2: "seek_unit ends_kind ?buf (length pre + 4) = (length (pre @ nal_unit (b # u)), Some k')"
    by (simp only: length_append length_nal_unit add.assoc)
  show ?thesis by (rule find_units_step [OF 1 2]) simp
qed

lemma find_units_last:
  assumes "begins_kind b = Some k" "quiet_bytes (b # u)"
  shows "find_units (pre @ nal_unit (b # u)) (length pre) m = mark_start (length pre, Some k) m"
proof -
  let ?buf = "pre @ nal_unit (b # u)"
  note l4 = length_pre4 [of pre]
  have buf: "?buf = (pre @ [0, 0, 0, 1]) @ (b # u)" by (simp add: nal_unit_def)
  have 1: "seek_unit begins_kind ?buf (length pre) = (length pre, Some k)" using assms(1) by (rule seek_here)
  have "seek_unit ends_kind ?buf (length (pre @ [0, 0, 0, 1])) =
      (max (length (pre @ [0, 0, 0, 1])) (length ((pre @ [0, 0, 0, 1]) @ (b # u)) - 4), None)"
    unfolding buf using assms(2) by (rule seek_nothing)
  then have 2: "seek_unit ends_kind ?buf (length pre + 4) = (max (length pre + 4) (length ?buf - 4), None)"
    by (simp only: l4 buf)
  show ?thesis
    by (subst find_units_step [OF 1 2]) (simp, subst find_units_end, simp_all add: mark_end_def)
qed

text \<open>Whatever the file holds, nothing outside it is read, and the parts begin with their start codes.\<close>

lemma file_parts_stay_inside:
  "\<exists>r. file_parts buf = Some r \<and> (\<forall>vps sps pps idr. r = Some (vps, sps, pps, idr) \<longrightarrow>
     length sps \<le> length buf \<and> length pps \<le> length buf \<and> (\<exists>n. idr = drop n buf))"
proof -
  let ?m = "find_units buf 0 no_marks"
  have ok: "marks_ok buf ?m" by (rule find_units_ok) (simp add: marks_ok_def no_marks_def)
  have rd: "\<exists>bs. mem_read buf a (e - a) = Some bs \<and> length bs \<le> length buf" if "0 \<le> a" "a < e" "e \<le> int (length buf)" for a e
    using that by (simp add: mem_read_def)
  show ?thesis
  proof (cases "um_sps_start ?m \<ge> 0 \<and> um_pps_start ?m \<ge> 0 \<and> um_idr_start ?m \<ge> 0 \<and> um_sps_end ?m > um_sps_start ?m \<and>
      um_pps_end ?m > um_pps_start ?m \<and> um_idr_start ?m < int (length buf)")
    case True
    have e: "um_vps_end ?m < int (length buf)" "um_sps_end ?m < int (length buf)" "um_pps_end ?m < int (length buf)"
      using ok by (auto simp: marks_ok_def)
    obtain sps where sps: "mem_read buf (um_sps_start ?m) (um_sps_end ?m - um_sps_start ?m) = Some sps" "length sps \<le> length buf"
      using rd True e by (meson less_imp_le)
    obtain pps where pps: "mem_read buf (um_pps_start ?m) (um_pps_end ?m - um_pps_start ?m) = Some pps" "length pps \<le> length buf"
      using rd True e by (meson less_imp_le)
    have idr: "mem_read buf (um_idr_start ?m) (int (length buf) - um_idr_start ?m) = Some (drop (nat (um_idr_start ?m)) buf)"
      using True by (simp add: mem_read_def)
    have vps: "\<exists>v. (if um_vps_start ?m \<ge> 0 \<and> um_vps_end ?m > um_vps_start ?m
        then map_option Some (mem_read buf (um_vps_start ?m) (um_vps_end ?m - um_vps_start ?m)) else Some None) = Some v"
      using rd [of "um_vps_start ?m" "um_vps_end ?m"] e(1) by auto
    show ?thesis using True sps pps idr vps by (auto simp: file_parts_def Let_def) blast+
  next
    case False
    then have "file_parts buf = Some None" unfolding file_parts_def Let_def by (rule if_not_P)
    then show ?thesis by simp
  qed
qed

text \<open>The kinds follow: a picture parameter set ends a sequence parameter set, a key frame the former.\<close>

lemma begins_ends:
  "begins_kind b = Some Nal_pps \<Longrightarrow> ends_kind b = Some Nal_sps" "begins_kind b = Some Nal_idr \<Longrightarrow> ends_kind b = Some Nal_pps"
  by (auto simp: begins_kind_def ends_kind_def split: if_splits)

definition unit_ok :: "nal_kind \<Rightarrow> byte list \<Rightarrow> bool" where
  "unit_ok k u \<longleftrightarrow> u \<noteq> [] \<and> begins_kind (hd u) = Some k \<and> quiet_bytes u"

definition picture_file :: "byte list option \<Rightarrow> byte list \<Rightarrow> byte list \<Rightarrow> byte list \<Rightarrow> byte list" where
  "picture_file vps sps pps idr =
     (case vps of None \<Rightarrow> [] | Some v \<Rightarrow> nal_unit v) @ nal_unit sps @ nal_unit pps @ nal_unit idr"

lemma mem_read_part: "n = int (length b) \<Longrightarrow> p = int (length a) \<Longrightarrow> mem_read (a @ b @ c) p n = Some b"
  by (simp add: mem_read_def)

text \<open>
  A file with one picture reaches the decoder as it is: when it has, in order, perhaps a video
  parameter set, a sequence parameter set, a picture parameter set and a key frame with all that follows
  it, none of them with a start code inside that ends a part, then the parts found are exactly these
  units, and their copy for the decoder is the file.
\<close>

lemma picture_file_is_passed_on:
  assumes "unit_ok Nal_sps sps" "unit_ok Nal_pps pps" "unit_ok Nal_idr idr"
    "\<And>v. vps = Some v \<Longrightarrow> unit_ok Nal_vps v \<and> ends_kind (hd sps) = Some Nal_vps"
  shows "file_parts (picture_file vps sps pps idr) =
      Some (Some (map_option nal_unit vps, nal_unit sps, nal_unit pps, nal_unit idr)) \<and>
    decoder_input (map_option nal_unit vps, nal_unit sps, nal_unit pps, nal_unit idr) =
      (if vps = None then 4 else 5, picture_file vps sps pps idr)"
proof -
  obtain s ss p ps i ir where u: "sps = s # ss" "pps = p # ps" "idr = i # ir"
    using assms(1-3) by (auto simp: unit_ok_def neq_Nil_conv)
  have k: "begins_kind s = Some Nal_sps" "begins_kind p = Some Nal_pps" "begins_kind i = Some Nal_idr"
    "quiet_bytes (s # ss)" "quiet_bytes (p # ps)" "quiet_bytes (i # ir)"
    using assms(1-3) by (simp_all add: unit_ok_def u)
  have rest: "find_units (pre @ nal_unit sps @ nal_unit pps @ nal_unit idr) (length pre) m =
      m\<lparr>um_sps_start := int (length pre), um_sps_end := int (length (pre @ nal_unit sps)),
        um_pps_start := int (length (pre @ nal_unit sps)), um_pps_end := int (length (pre @ nal_unit sps @ nal_unit pps)),
        um_idr_start := int (length (pre @ nal_unit sps @ nal_unit pps))\<rparr>" for pre m
    using find_units_unit [OF k(1) begins_ends(1) [OF k(2)] k(4), of pre "ps @ nal_unit idr" m]
      find_units_unit [OF k(2) begins_ends(2) [OF k(3)] k(5), of "pre @ nal_unit sps" ir]
      find_units_last [OF k(3,6), of "pre @ nal_unit sps @ nal_unit pps"]
    by (simp add: u nal_unit_def mark_start_def mark_end_def)
  show ?thesis
  proof (cases vps)
    case None
    then show ?thesis
      using rest [of "[]" no_marks] mem_read_part [of _ "nal_unit sps" _ "[]" "nal_unit pps @ nal_unit idr"]
        mem_read_part [of _ "nal_unit pps" _ "nal_unit sps" "nal_unit idr"] mem_read_part [of _ "nal_unit idr" _ "nal_unit sps @ nal_unit pps" "[]"]
      by (simp add: file_parts_def picture_file_def decoder_input_def no_marks_def)
  next
    case (Some v)
    then obtain b vs where v: "v = b # vs" "begins_kind b = Some Nal_vps" "quiet_bytes (b # vs)" "ends_kind s = Some Nal_vps"
      using assms(4) by (cases v) (auto simp: unit_ok_def u)
    have "find_units (nal_unit v @ nal_unit sps @ nal_unit pps @ nal_unit idr) 0 no_marks =
        find_units (nal_unit v @ nal_unit sps @ nal_unit pps @ nal_unit idr) (length (nal_unit v))
          (no_marks\<lparr>um_vps_start := 0, um_vps_end := int (length (nal_unit v))\<rparr>)"
      using find_units_unit [OF v(2,4,3), of "[]" "ss @ nal_unit pps @ nal_unit idr" no_marks]
      by (simp add: u v(1) nal_unit_def mark_start_def mark_end_def)
    then show ?thesis
      using Some rest [of "nal_unit v"] mem_read_part [of _ "nal_unit v" _ "[]" "nal_unit sps @ nal_unit pps @ nal_unit idr"]
        mem_read_part [of _ "nal_unit sps" _ "nal_unit v" "nal_unit pps @ nal_unit idr"]
        mem_read_part [of _ "nal_unit pps" _ "nal_unit v @ nal_unit sps" "nal_unit idr"]
        mem_read_part [of _ "nal_unit idr" _ "nal_unit v @ nal_unit sps @ nal_unit pps" "[]"]
      by (simp add: file_parts_def picture_file_def decoder_input_def no_marks_def)
  qed
qed

lemma sample_file_parts:
  "file_parts (picture_file (Some [0x40]) [0x42, 1] [0x44] [0x26, 7, 0, 0, 0, 1, 2, 9]) =
     Some (Some (Some [0, 0, 0, 1, 0x40], [0, 0, 0, 1, 0x42, 1], [0, 0, 0, 1, 0x44], [0, 0, 0, 1, 0x26, 7, 0, 0, 0, 1, 2, 9]))"
proof -
  have q: "quiet_bytes [0x40]" "quiet_bytes [0x42, 1]" "quiet_bytes [0x44]" by (simp_all add: quiet_bytes_def)
  have "quiet_bytes [0x26, 7, 0, 0, 0, 1, 2, 9]"
    unfolding quiet_bytes_def
  proof (intro allI impI)
    fix i :: nat
    assume "i + 4 < length [0x26, 7, 0, 0, 0, 1, 2, 9 :: byte]"
    then have "i = 0 \<or> i = 1 \<or> i = 2 \<or> i = 3" by auto
    then show "ends_kind ([0x26, 7, 0, 0, 0, 1, 2, 9] ! (i + 4)) = None" if "start_code [0x26, 7, 0, 0, 0, 1, 2, 9] i"
      using that by (elim disjE) (simp_all add: start_code_def ends_kind_def)
  qed
  with q have "unit_ok Nal_sps [0x42, 1]" "unit_ok Nal_pps [0x44]" "unit_ok Nal_idr [0x26, 7, 0, 0, 0, 1, 2, 9]"
    "unit_ok Nal_vps [0x40]" "ends_kind (hd [0x42, 1]) = Some Nal_vps"
    by (simp_all add: unit_ok_def begins_kind_def ends_kind_def)
  then show ?thesis using picture_file_is_passed_on [of "[0x42, 1]" "[0x44]" "[0x26, 7, 0, 0, 0, 1, 2, 9]" "Some [0x40]"]
    by (simp add: nal_unit_def)
qed

end
