(* ===== verification/Snap_Decode.thy ===== *)
theory Snap_Decode
  imports Prelude "HOL-Library.Monad_Syntax"
begin

text \<open>
  From the decoder to the picture: the conversion of a decoded frame in \<open>frame_decode\<close> of
  \<open>src/snapshot/snapshot/imggrabber.c\<close>, and the rows that \<open>YUVtoJPG\<close> of \<open>convert2jpg.c\<close> gives to the
  JPEG library.  The decoder and the encoder are libraries: the decoded frame is an argument, the rows
  are the result.  A buffer is a list of bytes, and an access outside it the fault \<open>None\<close>.
\<close>

section \<open>The decoded frame\<close>

text \<open>The planes by the distance from their start, with their line sizes.\<close>

record decoded =
  dc_width :: nat
  dc_height :: nat
  dc_data :: "nat \<Rightarrow> nat \<Rightarrow> byte"
  dc_linesize :: "nat \<Rightarrow> nat"

fun store_all :: "(nat \<times> byte) list \<Rightarrow> byte list \<Rightarrow> byte list option" where
  "store_all [] buf = Some buf"
| "store_all ((i, b) # stores) buf = (if i < length buf then store_all stores (buf[i := b]) else None)"

text \<open>The stores, in their order: grey, the luma plane in one piece, and the two chroma planes in turn.\<close>

definition chroma_pair :: "decoded \<Rightarrow> nat \<Rightarrow> nat \<Rightarrow> (nat \<times> byte) list" where
  "chroma_pair d i j =
     (let w = dc_width d; h = dc_height d
      in [(w * h + w * i + 2 * j, dc_data d 1 (i * dc_linesize d 1 + j)),
          (w * h + w * i + 2 * j + 1, dc_data d 2 (i * dc_linesize d 2 + j))])"

definition chroma_stores :: "decoded \<Rightarrow> (nat \<times> byte) list" where
  "chroma_stores d =
     concat (map (\<lambda>i. concat (map (chroma_pair d i) [0..<dc_width d div 2])) [0..<dc_height d div 2])"

definition decode_stores :: "decoded \<Rightarrow> (nat \<times> byte) list" where
  "decode_stores d =
     (let w = dc_width d; h = dc_height d
      in map (\<lambda>i. (i, 0x80)) [0..<w * h * 3 div 2] @ map (\<lambda>i. (i, dc_data d 0 i)) [0..<w * h] @ chroma_stores d)"

text \<open>
  The decoder gives a frame or nothing; one that is larger than the buffer is refused.  \<open>Inl\<close> is the
  error \<open>-2\<close>.
\<close>

definition frame_decode :: "decoded option \<Rightarrow> nat \<Rightarrow> nat \<Rightarrow> byte list \<Rightarrow> (int + byte list) option" where
  "frame_decode picture max_width max_height outbuffer =
     (case picture of
        None \<Rightarrow> Some (Inl (-2))
      | Some d \<Rightarrow>
          if dc_width d > max_width \<or> dc_height d > max_height then Some (Inl (-2))
          else map_option Inr (store_all (decode_stores d) outbuffer))"

section \<open>The rows of the picture\<close>

definition byte_at :: "byte list \<Rightarrow> nat \<Rightarrow> byte option" where
  "byte_at buf i = (if i < length buf then Some (buf ! i) else None)"

text \<open>Two pixels share their chroma; the row buffer has room for \<open>dest_width\<close> of them.\<close>

definition pixel_pair :: "byte list \<Rightarrow> nat \<Rightarrow> nat \<Rightarrow> nat \<Rightarrow> nat \<Rightarrow> byte list option" where
  "pixel_pair input offset uv dest_width i =
     (if dest_width < i + 2 then None
      else do {
        y \<leftarrow> byte_at input (offset + i);
        u \<leftarrow> byte_at input (offset + uv + i);
        v \<leftarrow> byte_at input (offset + uv + i + 1);
        y' \<leftarrow> byte_at input (offset + i + 1);
        Some [y, u, v, y', u, v]
      })"

fun all_some :: "'a option list \<Rightarrow> 'a list option" where
  "all_some [] = Some []"
| "all_some (x # xs) = do { a \<leftarrow> x; as \<leftarrow> all_some xs; Some (a # as) }"

definition jpeg_row :: "byte list \<Rightarrow> nat \<Rightarrow> nat \<Rightarrow> nat \<Rightarrow> nat \<Rightarrow> nat \<Rightarrow> byte list option" where
  "jpeg_row input width height dest_width dest_height n =
     (let wsl = width - dest_width; hsl = height - dest_height;
          offset = (n + hsl div 2) * width + wsl div 2;
          uv = width * (height - (n + hsl div 2 + 1) div 2) + wsl div 2
      in map_option concat (all_some
           (map (\<lambda>k. pixel_pair input offset uv dest_width (2 * k)) [0..<(dest_width + 1) div 2])))"

text \<open>\<open>Inl\<close> is the error; otherwise the rows that are encoded.\<close>

definition YUVtoJPG :: "byte list \<Rightarrow> nat \<Rightarrow> nat \<Rightarrow> nat \<Rightarrow> nat \<Rightarrow> (int + byte list list) option" where
  "YUVtoJPG input width height dest_width dest_height =
     (if width < dest_width \<or> height < dest_height \<or> odd (width - dest_width) \<or> odd (height - dest_height)
      then Some (Inl (-1))
      else map_option Inr (all_some (map (jpeg_row input width height dest_width dest_height) [0..<dest_height])))"

section \<open>What is stored\<close>

lemma store_all_append: "store_all (as @ bs) buf = Option.bind (store_all as buf) (store_all bs)"
  by (induction as buf rule: store_all.induct) simp_all

lemma store_all_some:
  "\<forall>(i, b)\<in>set ss. i < length buf \<Longrightarrow> \<exists>buf'. store_all ss buf = Some buf' \<and> length buf' = length buf"
  by (induction ss buf rule: store_all.induct) auto

lemma store_all_other:
  "store_all ss buf = Some buf' \<Longrightarrow> k \<notin> fst ` set ss \<Longrightarrow> buf' ! k = buf ! k"
  by (induction ss buf rule: store_all.induct) (auto split: if_splits)

lemma store_all_length: "store_all ss buf = Some buf' \<Longrightarrow> length buf' = length buf"
  by (induction ss buf rule: store_all.induct) (auto split: if_splits)

text \<open>Where all stores to a place agree, the byte is there.\<close>

lemma store_all_value:
  assumes "store_all ss buf = Some buf'" "(k, b) \<in> set ss" "\<forall>(i, b')\<in>set ss. i = k \<longrightarrow> b' = b"
  shows "buf' ! k = b"
  using assms
proof (induction ss buf rule: store_all.induct)
  case (2 i a ss buf)
  then show ?case
    by (cases "(k, b) \<in> set ss"; cases "k \<in> fst ` set ss") (auto split: if_splits dest: store_all_other)
qed simp
section \<open>The pixels\<close>

lemma chroma_store_iff:
  "x \<in> set (chroma_stores d) \<longleftrightarrow> (\<exists>i < dc_height d div 2. \<exists>j < dc_width d div 2. x \<in> set (chroma_pair d i j))"
  by (simp add: chroma_stores_def Bex_def)

lemma ex_less_2: "(\<exists>m < 2. P m) \<longleftrightarrow> P 0 \<or> P (1 :: nat)"
  by (auto simp: less_2_cases_iff)

lemma chroma_pair_iff:
  "(k, b) \<in> set (chroma_pair d i j) \<longleftrightarrow>
    (\<exists>m < 2. k = dc_width d * dc_height d + (dc_width d * i + (2 * j + m)) \<and>
       b = dc_data d (m + 1) (i * dc_linesize d (m + 1) + j))"
  unfolding ex_less_2 by (simp add: chroma_pair_def Let_def numeral_2_eq_2 add.assoc)

lemma row_position:
  assumes "w * i + m = w * i' + m'" "m < w" "m' < w"
  shows "i = i' \<and> m = (m' :: nat)"
proof -
  have "(w * i + m) div w = i" "(w * i' + m') div w = i'" using assms(2,3) by simp_all
  then show ?thesis using assms(1) by simp
qed

lemma row_below:
  assumes "i < h div 2" "m < w"
  shows "w * i + m < w * h div (2 :: nat)"
proof -
  have "w * i + m < w * Suc i" using assms(2) by simp
  also have "w * Suc i \<le> w * (h div 2)" using assms(1) by (intro mult_le_mono2) simp
  also have "w * (h div 2) \<le> w * h div 2" by (simp add: less_eq_div_iff_mult_less_eq mult.assoc)
  finally show ?thesis .
qed

lemma chroma_store_bound:
  assumes "(k, b) \<in> set (chroma_stores d)"
  shows "dc_width d * dc_height d \<le> k \<and> k < dc_width d * dc_height d * 3 div 2"
proof -
  let ?w = "dc_width d" and ?h = "dc_height d"
  obtain i j m where ij: "i < ?h div 2" "j < ?w div 2" "m < 2" "k = ?w * ?h + (?w * i + (2 * j + m))"
    using assms unfolding chroma_store_iff chroma_pair_iff by blast
  have "2 * j + m < ?w" using ij(2,3) by linarith
  then have "?w * i + (2 * j + m) < ?w * ?h div 2" using ij(1) by (intro row_below)
  then show ?thesis using ij(4) by linarith
qed

lemma chroma_store_unique:
  assumes "(k, b) \<in> set (chroma_stores d)" "(k, b') \<in> set (chroma_stores d)"
  shows "b = b'"
proof -
  let ?w = "dc_width d" and ?h = "dc_height d"
  obtain i j m where 1: "i < ?h div 2" "j < ?w div 2" "m < 2" "k = ?w * ?h + (?w * i + (2 * j + m))"
    "b = dc_data d (m + 1) (i * dc_linesize d (m + 1) + j)"
    using assms(1) unfolding chroma_store_iff chroma_pair_iff by blast
  obtain i' j' m' where 2: "i' < ?h div 2" "j' < ?w div 2" "m' < 2" "k = ?w * ?h + (?w * i' + (2 * j' + m'))"
    "b' = dc_data d (m' + 1) (i' * dc_linesize d (m' + 1) + j')"
    using assms(2) unfolding chroma_store_iff chroma_pair_iff by blast
  have "i = i' \<and> 2 * j + m = 2 * j' + m'" using 1(2-4) 2(2-4) by (intro row_position [of ?w]) linarith+
  then have "i = i' \<and> j = j' \<and> m = m'" using 1(3) 2(3) by presburger
  then show ?thesis using 1(5) 2(5) by simp
qed

text \<open>The buffer after the conversion: luma, and chroma in turn.\<close>

lemma frame_decode_bytes:
  assumes "dc_width d \<le> max_width" "dc_height d \<le> max_height" "max_width * max_height * 3 div 2 \<le> length buf"
  shows "\<exists>buf'. frame_decode (Some d) max_width max_height buf = Some (Inr buf') \<and> length buf' = length buf \<and>
    (\<forall>k < dc_width d * dc_height d. buf' ! k = dc_data d 0 k) \<and>
    (\<forall>i < dc_height d div 2. \<forall>j < dc_width d div 2.
       buf' ! (dc_width d * dc_height d + dc_width d * i + 2 * j) = dc_data d 1 (i * dc_linesize d 1 + j) \<and>
       buf' ! (dc_width d * dc_height d + dc_width d * i + 2 * j + 1) = dc_data d 2 (i * dc_linesize d 2 + j)) \<and>
    (\<forall>k \<ge> dc_width d * dc_height d * 3 div 2. buf' ! k = buf ! k)"
proof -
  let ?w = "dc_width d" and ?h = "dc_height d"
  let ?grey = "map (\<lambda>i. (i, 0x80 :: byte)) [0..<?w * ?h * 3 div 2]" and ?luma = "map (\<lambda>i. (i, dc_data d 0 i)) [0..<?w * ?h]"
  have "?w * ?h \<le> max_width * max_height" using assms(1,2) by (rule mult_le_mono)
  then have room: "?w * ?h * 3 div 2 \<le> length buf" using assms(3) by (meson div_le_mono le_trans mult_le_mono1)
  have part: "?w * ?h \<le> ?w * ?h * 3 div 2" by linarith
  have inside: "fst x < ?w * ?h * 3 div 2" if x: "x \<in> set (decode_stores d)" for x
  proof -
    consider "x \<in> set ?grey" | "x \<in> set ?luma" | "x \<in> set (chroma_stores d)"
      using x unfolding decode_stores_def Let_def set_append Un_iff by blast
    then show ?thesis
    proof cases
      case 3
      then show ?thesis using chroma_store_bound [of "fst x" "snd x"] by simp
    qed (use part in auto)
  qed
  then have "\<forall>(i, b)\<in>set (decode_stores d). i < length buf"
    using room by (metis (no_types, lifting) case_prod_beta less_le_trans)
  then obtain buf' where buf': "store_all (decode_stores d) buf = Some buf'" "length buf' = length buf"
    using store_all_some by blast
  obtain buf1 buf2 where step: "store_all ?grey buf = Some buf1" "store_all ?luma buf1 = Some buf2" "store_all (chroma_stores d) buf2 = Some buf'"
    using buf'(1) by (auto simp: decode_stores_def Let_def store_all_append bind_eq_Some_conv)
  have luma: "buf' ! k = dc_data d 0 k" if "k < ?w * ?h" for k
  proof -
    have "buf2 ! k = dc_data d 0 k" using that by (intro store_all_value [OF step(2)]) auto
    moreover have "k \<notin> fst ` set (chroma_stores d)"
      using that chroma_store_bound by (metis imageE not_less prod.collapse)
    ultimately show ?thesis using store_all_other [OF step(3)] by simp
  qed
  have chroma: "buf' ! k = b" if "(k, b) \<in> set (chroma_stores d)" for k b
  proof (rule store_all_value [OF step(3) that], clarify)
    fix b' assume "(k, b') \<in> set (chroma_stores d)"
    then show "b' = b" using that by (rule chroma_store_unique)
  qed
  have pair: "buf' ! (?w * ?h + ?w * i + 2 * j) = dc_data d 1 (i * dc_linesize d 1 + j) \<and>
      buf' ! (?w * ?h + ?w * i + 2 * j + 1) = dc_data d 2 (i * dc_linesize d 2 + j)"
    if "i < ?h div 2" "j < ?w div 2" for i j
  proof -
    have "set (chroma_pair d i j) \<subseteq> set (chroma_stores d)" using that chroma_store_iff by blast
    then show ?thesis using chroma unfolding chroma_pair_def Let_def by simp
  qed
  have "buf' ! k = buf ! k" if "?w * ?h * 3 div 2 \<le> k" for k
  proof (rule store_all_other [OF buf'(1)])
    show "k \<notin> fst ` set (decode_stores d)" using inside that by (metis imageE not_less)
  qed
  then show ?thesis using buf' luma pair assms(1,2) by (simp add: frame_decode_def)
qed

lemma all_some_map: "\<forall>x\<in>set xs. f x = Some (g x) \<Longrightarrow> all_some (map f xs) = Some (map g xs)"
  by (induction xs) simp_all

lemma concat_pairs: "concat (map (\<lambda>k. f (2 * k) @ f (2 * k + 1)) [0..<m]) = concat (map f [0..<2 * m])"
  by (induction m) simp_all

text \<open>
  The planes of a decoded frame: luma row by row, and rows of chroma in turn, each for two rows of luma.
  The rows of a plane begin a line size apart.
\<close>

definition luma_plane :: "decoded \<Rightarrow> byte list" where
  "luma_plane d = map (\<lambda>k. dc_data d 0 (k div dc_width d * dc_linesize d 0 + k mod dc_width d)) [0..<dc_width d * dc_height d]"

definition chroma_plane :: "decoded \<Rightarrow> byte list" where
  "chroma_plane d = map (\<lambda>k. let i = k div dc_width d; j = k mod dc_width d; p = (if even j then 1 else 2)
     in dc_data d p (i * dc_linesize d p + j div 2)) [0..<dc_width d * (dc_height d div 2)]"

lemma length_planes [simp]: "length (luma_plane d) = dc_width d * dc_height d"
  "length (chroma_plane d) = dc_width d * (dc_height d div 2)"
  by (simp_all add: luma_plane_def chroma_plane_def)

lemma plane_sizes: "even h \<Longrightarrow> w * h * 3 div 2 = w * h + w * (h div 2)" for w h :: nat
  by (auto elim!: evenE simp: algebra_simps)

text \<open>The code copies luma in one piece, so that it is right only when the rows of luma follow each other without a gap.\<close>

lemma frame_is_stored:
  assumes "even (dc_width d)" "even (dc_height d)" "length buf = dc_width d * dc_height d * 3 div 2" "dc_linesize d 0 = dc_width d"
  shows "frame_decode (Some d) (dc_width d) (dc_height d) buf = Some (Inr (luma_plane d @ chroma_plane d))"
proof -
  let ?w = "dc_width d" and ?h = "dc_height d"
  obtain buf' where buf': "frame_decode (Some d) ?w ?h buf = Some (Inr buf')" "length buf' = ?w * ?h + ?w * (?h div 2)"
    "\<forall>k < ?w * ?h. buf' ! k = dc_data d 0 k"
    "\<forall>i < ?h div 2. \<forall>j < ?w div 2. buf' ! (?w * ?h + ?w * i + 2 * j) = dc_data d 1 (i * dc_linesize d 1 + j) \<and>
       buf' ! (?w * ?h + ?w * i + 2 * j + 1) = dc_data d 2 (i * dc_linesize d 2 + j)"
    using frame_decode_bytes [of d ?w ?h buf] assms(3) plane_sizes [OF assms(2), of ?w] by auto
  have chroma: "buf' ! (?w * ?h + k) = chroma_plane d ! k" if k: "k < ?w * (?h div 2)" for k
  proof -
    let ?i = "k div ?w" and ?j = "k mod ?w"
    have w: "0 < ?w" using k by (cases "?w = 0") simp_all
    have i: "?i < ?h div 2" using k w by (simp add: less_mult_imp_div_less mult.commute)
    have "?j < ?w" using w by simp
    then have j: "?j div 2 < ?w div 2" using assms(1) by (auto elim!: evenE)
    note here = buf'(4) [rule_format, OF i j]
    show ?thesis
    proof (cases "even ?j")
      case True
      then have "?w * ?i + 2 * (?j div 2) = k" by simp
      then show ?thesis using here True k by (simp add: chroma_plane_def Let_def add.assoc)
    next
      case False
      then have "2 * (?j div 2) + 1 = ?j" by (rule odd_two_times_div_two_succ)
      then have "?w * ?i + (2 * (?j div 2) + 1) = k" by simp
      then show ?thesis using here False k by (simp only: add.assoc) (simp add: chroma_plane_def Let_def)
    qed
  qed
  have "buf' = luma_plane d @ chroma_plane d"
  proof (rule nth_equalityI)
    fix k assume "k < length buf'"
    then show "buf' ! k = (luma_plane d @ chroma_plane d) ! k"
      using buf'(2,3) chroma [of "k - ?w * ?h"] by (cases "k < ?w * ?h") (simp_all add: nth_append luma_plane_def assms(4))
  qed (simp add: buf'(2))
  then show ?thesis using buf'(1) by simp
qed

text \<open>With wider rows, the second row begins with the bytes that fill up the first one.\<close>

lemma padded_luma_is_shifted:
  assumes "length buf = dc_width d * dc_height d * 3 div 2" "1 < dc_height d" "0 < dc_width d" "dc_width d < dc_linesize d 0"
  shows "\<exists>buf'. frame_decode (Some d) (dc_width d) (dc_height d) buf = Some (Inr buf') \<and>
    buf' ! dc_width d = dc_data d 0 (dc_width d) \<and> luma_plane d ! dc_width d = dc_data d 0 (dc_linesize d 0)"
proof -
  have "dc_width d * 1 < dc_width d * dc_height d" using assms(2,3) by simp
  then have in_plane: "dc_width d < dc_width d * dc_height d" by simp
  then have "luma_plane d ! dc_width d = dc_data d 0 (dc_linesize d 0)" using assms(3) by (simp add: luma_plane_def)
  then show ?thesis using frame_decode_bytes [of d "dc_width d" "dc_height d" buf] assms(1) in_plane by auto
qed

text \<open>A row of the picture, pixel by pixel: a chroma value stands for two rows and two columns.\<close>

definition plane_row :: "nat \<Rightarrow> byte list \<Rightarrow> byte list \<Rightarrow> nat \<Rightarrow> byte list" where
  "plane_row w Y C n = concat (map (\<lambda>x.
     [Y ! (w * n + x), C ! (w * (n div 2) + 2 * (x div 2)), C ! (w * (n div 2) + 2 * (x div 2) + 1)]) [0..<w])"

lemma planes_are_encoded:
  assumes "even w" "even h" "length Y = w * h" "length C = w * (h div 2)"
  shows "YUVtoJPG (Y @ C) w h w h = Some (Inr (map (plane_row w Y C) [0..<h]))"
proof -
  have row: "jpeg_row (Y @ C) w h w h n = Some (plane_row w Y C n)" if n: "n < h" for n
  proof -
    let ?uv = "w * (h - (n + 1) div 2)"
    let ?f = "\<lambda>x. [Y ! (w * n + x), C ! (w * (n div 2) + 2 * (x div 2)), C ! (w * (n div 2) + 2 * (x div 2) + 1)]"
    have half: "n div 2 < h div 2" using n assms(2) by (auto elim!: evenE)
    have "n + (h - (n + 1) div 2) = h + n div 2" using n by linarith
    then have chroma: "n * w + ?uv = w * h + w * (n div 2)" by (metis add_mult_distrib2 mult.commute)
    have "pixel_pair (Y @ C) (n * w) ?uv w (2 * k) = Some (?f (2 * k) @ ?f (2 * k + 1))" if k: "k < w div 2" for k
    proof -
      have x: "2 * k + 1 < w" using k by linarith
      have "w * (n div 2) + (2 * k + 1) < w * Suc (n div 2)" using x by simp
      also have "\<dots> \<le> w * (h div 2)" using half by (intro mult_le_mono2) simp
      finally have room: "w * (n div 2) + 2 * k + 1 < w * (h div 2)" by simp
      have "n * w + (2 * k + 1) < Suc n * w" using x by simp
      also have "\<dots> \<le> w * h" using n by (metis Suc_leI mult.commute mult_le_mono1)
      finally have luma: "n * w + 2 * k + 1 < w * h" by simp
      show ?thesis
        using x room luma unfolding pixel_pair_def byte_at_def chroma
        by (simp add: assms(3,4) nth_append mult.commute)
    qed
    then have "all_some (map (\<lambda>k. pixel_pair (Y @ C) (n * w) ?uv w (2 * k)) [0..<w div 2]) =
        Some (map (\<lambda>k. ?f (2 * k) @ ?f (2 * k + 1)) [0..<w div 2])"
      by (intro all_some_map) simp
    moreover have "(w + 1) div 2 = w div 2" using assms(1) by (auto elim!: evenE)
    moreover have "concat (map (\<lambda>k. ?f (2 * k) @ ?f (2 * k + 1)) [0..<w div 2]) = plane_row w Y C n"
      using concat_pairs [of ?f "w div 2"] by (simp only: plane_row_def even_two_times_div_two [OF assms(1)])
    ultimately show ?thesis by (simp add: jpeg_row_def Let_def)
  qed
  have "all_some (map (jpeg_row (Y @ C) w h w h) [0..<h]) = Some (map (plane_row w Y C) [0..<h])"
    using row by (intro all_some_map) simp
  then show ?thesis by (simp add: YUVtoJPG_def)
qed

text \<open>
  A frame smaller than expected is taken as well, but the rows are then cut out of the buffer with the
  expected size: the last row shows what the buffer held before.
\<close>

lemma smaller_frame_shows_old_bytes:
  assumes "dc_width d \<le> w" "dc_height d \<le> h" "length buf = w * h * 3 div 2" "0 < h"
    "dc_width d * dc_height d * 3 div 2 \<le> (h - 1) * w" "even w" "even h" "k < w"
  shows "\<exists>buf'. frame_decode (Some d) w h buf = Some (Inr buf') \<and> byte_at buf' ((h - 1) * w + k) = Some (buf ! ((h - 1) * w + k))"
proof -
  have "(h - 1) * w + k < h * w" using assms(4,8) by (cases h) simp_all
  then have "(h - 1) * w + k < w * h * 3 div 2" by (simp add: mult.commute)
  then show ?thesis using frame_decode_bytes [OF assms(1,2), of buf] assms(3,5) by (auto simp: byte_at_def)
qed

end
