(* ===== verification/Watermark.thy ===== *)
theory Watermark
  imports Frame_Ring "HOL-Library.Signed_Division"
begin

text \<open>
  The time that a snapshot carries: \<open>src/snapshot/snapshot/water_mark.c\<close> and \<open>add_water.c\<close>.  Thirteen
  small pictures, the digits and three signs, are read from bitmap files, converted to the colours of
  the snapshot and blended into it side by side.  The vector version of the blending is not built.
  A buffer is a list of bytes, an access outside it the fault \<open>None\<close>.
\<close>

section \<open>Colours\<close>

definition byte_of :: "int \<Rightarrow> byte" where
  "byte_of n = word_of_int n"

definition luma_of :: "byte \<Rightarrow> byte \<Rightarrow> byte \<Rightarrow> int" where
  "luma_of r g b = (299 * uint r + 587 * uint g + 114 * uint b) sdiv 1000"

definition cb_of :: "byte \<Rightarrow> byte \<Rightarrow> int" where
  "cb_of b y = 128 + (564 * (uint b - uint y)) sdiv 1000"

definition cr_of :: "byte \<Rightarrow> byte \<Rightarrow> int" where
  "cr_of r y = 128 + (713 * (uint r - uint y)) sdiv 1000"

text \<open>A picture: its transparency, luma, and chroma of every other row.\<close>

record single_picture =
  sp_alph :: "byte list"
  sp_y :: "byte list"
  sp_c :: "byte list"

text \<open>Four bytes of the source are a pixel: blue, green, red and transparency.\<close>

definition pixel_luma :: "byte list \<Rightarrow> nat \<Rightarrow> byte" where
  "pixel_luma src k = byte_of (luma_of (src ! (4 * k + 2)) (src ! (4 * k + 1)) (src ! (4 * k)))"

definition pixel_chroma :: "byte list \<Rightarrow> nat \<Rightarrow> nat \<Rightarrow> byte" where
  "pixel_chroma src j k =
     (if even j then byte_of (cb_of (src ! (4 * k)) (pixel_luma src k))
      else byte_of (cr_of (src ! (4 * k + 2)) (pixel_luma src k)))"

definition argb2yuv420sp :: "byte list \<Rightarrow> nat \<Rightarrow> nat \<Rightarrow> single_picture" where
  "argb2yuv420sp src width height =
     \<lparr>sp_alph = concat (map (\<lambda>i. map (\<lambda>j. src ! (4 * (i * width + j) + 3)) [0..<width]) [0..<height]),
      sp_y = concat (map (\<lambda>i. map (\<lambda>j. pixel_luma src (i * width + j)) [0..<width]) [0..<height]),
      sp_c = concat (map (\<lambda>i. if even i then map (\<lambda>j. pixel_chroma src j (i * width + j)) [0..<width] else []) [0..<height])\<rparr>"

section \<open>Blending\<close>

definition blend :: "byte \<Rightarrow> byte \<Rightarrow> byte \<Rightarrow> byte" where
  "blend a fg bg = byte_of (drop_bit 8 ((256 - uint a) * uint bg + uint fg * uint a))"

fun update_all :: "(nat \<times> (byte \<Rightarrow> byte)) list \<Rightarrow> byte list \<Rightarrow> byte list option" where
  "update_all [] buf = Some buf"
| "update_all ((i, f) # ops) buf = (if i < length buf then update_all ops (buf[i := f (buf ! i)]) else None)"

text \<open>
  The luma and the chroma plane are changed independently.  The chroma pointers of the foreground and
  of the background move on in even rows only.
\<close>

definition luma_ops :: "nat \<Rightarrow> nat \<Rightarrow> nat \<Rightarrow> nat \<Rightarrow> nat \<Rightarrow> single_picture \<Rightarrow> (nat \<times> (byte \<Rightarrow> byte)) list" where
  "luma_ops bg_width left upper fg_width fg_height p =
     concat (map (\<lambda>i. map (\<lambda>j. (upper * bg_width + left + i * bg_width + j,
         blend (sp_alph p ! (i * fg_width + j)) (sp_y p ! (i * fg_width + j)))) [0..<fg_width]) [0..<fg_height])"

definition chroma_ops :: "nat \<Rightarrow> nat \<Rightarrow> nat \<Rightarrow> nat \<Rightarrow> nat \<Rightarrow> single_picture \<Rightarrow> (nat \<times> (byte \<Rightarrow> byte)) list" where
  "chroma_ops bg_width left upper fg_width fg_height p =
     concat (map (\<lambda>i. if even i then map (\<lambda>j. (upper div 2 * bg_width + left + i div 2 * bg_width + j,
         blend (sp_alph p ! (i * fg_width + j)) (sp_c p ! (i div 2 * fg_width + j)))) [0..<fg_width] else []) [0..<fg_height])"

definition yuv420sp_blending ::
  "nat \<Rightarrow> nat \<Rightarrow> nat \<Rightarrow> nat \<Rightarrow> nat \<Rightarrow> single_picture \<Rightarrow> byte list \<times> byte list \<Rightarrow> (byte list \<times> byte list) option" where
  "yuv420sp_blending bg_width left upper fg_width fg_height p bg =
     do {
       y \<leftarrow> update_all (luma_ops bg_width left upper fg_width fg_height p) (fst bg);
       c \<leftarrow> update_all (chroma_ops bg_width left upper fg_width fg_height p) (snd bg);
       Some (y, c)
     }"

text \<open>The pictures that were read; the places of the array after them are never written.\<close>

record water_mark_info =
  wi_width :: nat
  wi_height :: nat
  wi_pics :: "single_picture list"

definition picture_at :: "water_mark_info \<Rightarrow> nat \<Rightarrow> single_picture option" where
  "picture_at w i = (if i < length (wi_pics w) then Some (wi_pics w ! i) else None)"

fun blend_pictures ::
  "nat \<Rightarrow> water_mark_info \<Rightarrow> nat \<Rightarrow> nat \<Rightarrow> byte list \<Rightarrow> byte list \<times> byte list \<Rightarrow> (byte list \<times> byte list) option" where
  "blend_pictures bg_width w x y [] bg = Some bg"
| "blend_pictures bg_width w x y (n # ids) bg = do {
     p \<leftarrow> picture_at w (unat n);
     bg' \<leftarrow> yuv420sp_blending bg_width x y (wi_width w) (wi_height w) p bg;
     blend_pictures bg_width w (x + wi_width w) y ids bg'
   }"

text \<open>The check is done in 32 bits.  The flag is whether the region was accepted.\<close>

definition watermark_blending ::
  "nat \<Rightarrow> nat \<Rightarrow> water_mark_info \<Rightarrow> nat \<Rightarrow> nat \<Rightarrow> byte list \<Rightarrow> byte list \<times> byte list \<Rightarrow>
   (bool \<times> byte list \<times> byte list) option" where
  "watermark_blending bg_width bg_height w x y ids bg =
     (if (x + wi_width w * length ids) mod 2 ^ 32 > bg_width \<or> (y + wi_height w) mod 2 ^ 32 > bg_height
      then Some (False, bg)
      else map_option (Pair True) (blend_pictures bg_width w x y ids bg))"

section \<open>Blending on a bright picture\<close>

text \<open>
  The variant that inverts the luma of the glyph where more than half of the rows behind it are bright;
  the program does not use it.  An empty row is a division by zero.
\<close>

definition blend_bright :: "byte \<Rightarrow> byte \<Rightarrow> byte \<Rightarrow> byte" where
  "blend_bright a fg bg = byte_of (drop_bit 8 ((256 - uint a) * uint bg + (256 - uint fg) * uint a))"

definition row_brightness :: "byte list \<Rightarrow> nat \<Rightarrow> nat \<Rightarrow> nat option" where
  "row_brightness buf pos w =
     (if w = 0 \<or> pos + w > length buf then None else Some (sum_list (map unat (take w (drop pos buf))) div w))"

fun bright_rows :: "byte list \<Rightarrow> nat \<Rightarrow> nat list \<Rightarrow> nat option" where
  "bright_rows buf w [] = Some 0"
| "bright_rows buf w (pos # ps) = do {
     v \<leftarrow> row_brightness buf pos w;
     n \<leftarrow> bright_rows buf w ps;
     Some (if v > 128 then n + 1 else n)
   }"

definition region_bright_or_dark :: "nat \<Rightarrow> nat \<Rightarrow> nat \<Rightarrow> nat \<Rightarrow> nat \<Rightarrow> byte list \<Rightarrow> bool option" where
  "region_bright_or_dark bg_width left upper fg_width fg_height bg_y =
     map_option (\<lambda>n. n > fg_height div 2)
       (bright_rows bg_y fg_width (map (\<lambda>i. upper * bg_width + left + i * bg_width) [0..<fg_height]))"

definition bright_luma_ops :: "nat \<Rightarrow> nat \<Rightarrow> nat \<Rightarrow> nat \<Rightarrow> nat \<Rightarrow> single_picture \<Rightarrow> (nat \<times> (byte \<Rightarrow> byte)) list" where
  "bright_luma_ops bg_width left upper fg_width fg_height p =
     concat (map (\<lambda>i. map (\<lambda>j. (upper * bg_width + left + i * bg_width + j,
         blend_bright (sp_alph p ! (i * fg_width + j)) (sp_y p ! (i * fg_width + j)))) [0..<fg_width]) [0..<fg_height])"

definition yuv420sp_blending_adjust_brightness ::
  "nat \<Rightarrow> nat \<Rightarrow> nat \<Rightarrow> nat \<Rightarrow> nat \<Rightarrow> single_picture \<Rightarrow> byte list \<times> byte list \<Rightarrow> (byte list \<times> byte list) option" where
  "yuv420sp_blending_adjust_brightness bg_width left upper fg_width fg_height p bg =
     do {
       bright \<leftarrow> region_bright_or_dark bg_width left upper fg_width fg_height (fst bg);
       y \<leftarrow> update_all ((if bright then bright_luma_ops else luma_ops) bg_width left upper fg_width fg_height p) (fst bg);
       c \<leftarrow> update_all (chroma_ops bg_width left upper fg_width fg_height p) (snd bg);
       Some (y, c)
     }"

fun blend_bright_pictures ::
  "nat \<Rightarrow> water_mark_info \<Rightarrow> nat \<Rightarrow> nat \<Rightarrow> byte list \<Rightarrow> byte list \<times> byte list \<Rightarrow> (byte list \<times> byte list) option" where
  "blend_bright_pictures bg_width w x y [] bg = Some bg"
| "blend_bright_pictures bg_width w x y (n # ids) bg = do {
     p \<leftarrow> picture_at w (unat n);
     bg' \<leftarrow> yuv420sp_blending_adjust_brightness bg_width x y (wi_width w) (wi_height w) p bg;
     blend_bright_pictures bg_width w (x + wi_width w) y ids bg'
   }"

definition watermark_blending_ajust_brightness ::
  "nat \<Rightarrow> nat \<Rightarrow> water_mark_info \<Rightarrow> nat \<Rightarrow> nat \<Rightarrow> byte list \<Rightarrow> byte list \<times> byte list \<Rightarrow>
   (bool \<times> byte list \<times> byte list) option" where
  "watermark_blending_ajust_brightness bg_width bg_height w x y ids bg =
     (if (x + wi_width w * length ids) mod 2 ^ 32 > bg_width \<or> (y + wi_height w) mod 2 ^ 32 > bg_height
      then Some (False, bg)
      else map_option (Pair True) (blend_bright_pictures bg_width w x y ids bg))"

section \<open>The time\<close>

record tm =
  tm_year :: int
  tm_mon :: int
  tm_mday :: int
  tm_hour :: int
  tm_min :: int
  tm_sec :: int

definition time_ids :: "tm \<Rightarrow> byte list" where
  "time_ids t = map byte_of
     [(tm_year t + 1900) sdiv 1000, ((tm_year t + 1900) sdiv 100) smod 10,
      ((tm_year t + 1900) sdiv 10) smod 10, (tm_year t + 1900) smod 10,
      11, (1 + tm_mon t) sdiv 10, (1 + tm_mon t) smod 10,
      11, tm_mday t sdiv 10, tm_mday t smod 10,
      10, tm_hour t sdiv 10, tm_hour t smod 10,
      12, tm_min t sdiv 10, tm_min t smod 10,
      12, tm_sec t sdiv 10, tm_sec t smod 10]"

text \<open>The time given, or the local time.\<close>

definition AddWM ::
  "water_mark_info \<Rightarrow> nat \<Rightarrow> nat \<Rightarrow> nat \<Rightarrow> nat \<Rightarrow> tm option \<Rightarrow> tm \<Rightarrow> byte list \<times> byte list \<Rightarrow>
   (bool \<times> byte list \<times> byte list) option" where
  "AddWM w bg_width bg_height x y time_data now bg =
     watermark_blending bg_width bg_height w x y (time_ids (case time_data of Some t \<Rightarrow> t | None \<Rightarrow> now)) bg"
section \<open>Reading the pictures\<close>

text \<open>
  The variables of \<open>WMInit\<close> that files are read into keep what a short file does not give; the buffer
  of the pixels is allocated for the first file and at first holds anything.
\<close>

definition fread_into :: "byte list \<Rightarrow> nat \<Rightarrow> byte list \<Rightarrow> byte list" where
  "fread_into file_bytes pos old =
     (let got = take (length old) (drop pos file_bytes) in got @ drop (length got) old)"

record wm_vars =
  wv_start :: "byte list"
  wv_width :: "byte list"
  wv_height :: "byte list"
  wv_argb :: "byte list option"

definition wm_vars_init :: wm_vars where
  "wm_vars_init = \<lparr>wv_start = [0, 0, 0, 0], wv_width = [0, 0, 0, 0], wv_height = [0, 0, 0, 0], wv_argb = None\<rparr>"

text \<open>
  One file, by its name.  The dimensions are those of the first one; the height of a bitmap is negative when its
  rows go down.  \<open>Inl\<close> is an error, the faults a name or a chroma plane that is larger than its memory.
\<close>

definition load_picture ::
  "(nat \<Rightarrow> byte) \<Rightarrow> (string \<Rightarrow> byte list option) \<Rightarrow> string \<Rightarrow> wm_vars \<times> u32 \<times> u32 \<Rightarrow> (int + (wm_vars \<times> u32 \<times> u32) \<times> single_picture) option" where
  "load_picture junk bmp name s =
     (if length name \<ge> 64 then None
      else case bmp name of
        None \<Rightarrow> Some (Inl (-1))
      | Some bytes \<Rightarrow>
          (case s of (v, w0, h0) \<Rightarrow>
             let start = fread_into bytes 10 (wv_start v); width = fread_into bytes 18 (wv_width v);
                 height = fread_into bytes 22 (wv_height v);
                 (w, h) = (if w0 = 0 then (le32 width 0, - le32 height 0) else (w0, h0));
                 pos = (if sint (le32 start 0) < 0 then 26 else unat (le32 start 0))
             in if w = 0 \<or> h = 0 \<or> w > 4096 \<or> h > 4096 then Some (Inl (-1))
                else let n = unat w; m = unat h;
                         argb = fread_into bytes pos (case wv_argb v of Some b \<Rightarrow> b | None \<Rightarrow> map junk [0..<n * m * 4]);
                         p = argb2yuv420sp argb n m
                     in if length (sp_c p) > n * m * 5 div 2 - 2 * (n * m) then None
                        else Some (Inr ((\<lparr>wv_start = start, wv_width = width, wv_height = height, wv_argb = Some argb\<rparr>, w, h), p))))"

fun load_pictures ::
  "(nat \<Rightarrow> byte) \<Rightarrow> (string \<Rightarrow> byte list option) \<Rightarrow> string list \<Rightarrow> wm_vars \<times> u32 \<times> u32 \<Rightarrow> single_picture list \<Rightarrow> (int + water_mark_info) option" where
  "load_pictures junk bmp [] s pics = Some (Inr \<lparr>wi_width = unat (fst (snd s)), wi_height = unat (snd (snd s)), wi_pics = pics\<rparr>)"
| "load_pictures junk bmp (name # names) s pics = do {
     r \<leftarrow> load_picture junk bmp name s;
     case r of
       Inl e \<Rightarrow> Some (Inl e)
     | Inr (s', p) \<Rightarrow> load_pictures junk bmp names s' (pics @ [p])
   }"

text \<open>The thirteen files by their number; the name is built in 64 bytes.\<close>

definition WMInit :: "(nat \<Rightarrow> byte) \<Rightarrow> (string \<Rightarrow> byte list option) \<Rightarrow> string \<Rightarrow> (int + water_mark_info) option" where
  "WMInit junk bmp path =
     load_pictures junk bmp (map (\<lambda>i. path @ show_nat i @ ''.bmp'') [0..<13]) (wm_vars_init, 0, 0) []"

section \<open>The mark of a snapshot\<close>

text \<open>\<open>add_watermark\<close> of \<open>imggrabber.c\<close>: the place of the files and of the mark in the picture.\<close>

definition wm_path :: "string option \<Rightarrow> bool \<Rightarrow> string option" where
  "wm_path wm_root low =
     (case wm_root of
        Some (c # cs) \<Rightarrow>
          (let p = (c # cs) @ ''/'' @ (if low then ''low'' else ''high'') @ ''/wm_540p_''
           in if length p \<ge> 1024 then None else Some p)
      | _ \<Rightarrow> Some (if low then ''/tmp/sd/yi-hack/etc/wm_res/low/wm_540p_'' else ''/tmp/sd/yi-hack/etc/wm_res/high/wm_540p_''))"

definition wm_place :: "nat \<Rightarrow> nat \<Rightarrow> nat \<times> nat" where
  "wm_place w_res h_res = (if w_res \<noteq> 640 then (w_res - 460, h_res - 40) else (w_res - 230, h_res - 20))"

text \<open>\<open>bmp\<close> gives the file with a name; the picture is the luma plane and then the chroma plane.\<close>

definition add_watermark ::
  "string option \<Rightarrow> (nat \<Rightarrow> byte) \<Rightarrow> (string \<Rightarrow> byte list option) \<Rightarrow> nat \<Rightarrow> nat \<Rightarrow> tm option \<Rightarrow> tm \<Rightarrow>
   byte list \<times> byte list \<Rightarrow> (int \<times> byte list \<times> byte list) option" where
  "add_watermark wm_root junk bmp w_res h_res time_data now bg =
     (case wm_path wm_root (w_res = 640) of
        None \<Rightarrow> Some (-1, bg)
      | Some path \<Rightarrow> do {
          r \<leftarrow> WMInit junk bmp path;
          case r of
            Inl e \<Rightarrow> Some (-1, bg)
          | Inr w \<Rightarrow> do {
              (ok, bg') \<leftarrow> AddWM w w_res h_res (fst (wm_place w_res h_res)) (snd (wm_place w_res h_res)) time_data now bg;
              Some (0, bg')
            }
        })"

section \<open>Colours never wrap\<close>

lemma uint_byte: "0 \<le> uint (b :: byte)" "uint (b :: byte) \<le> 255"
  using uint_lt2p [of b] by simp_all

lemma byte_of_uint: "0 \<le> n \<Longrightarrow> n \<le> 255 \<Longrightarrow> uint (byte_of n) = n"
  by (simp add: byte_of_def uint_word_of_int take_bit_int_eq_self)

lemma sdiv_pos: "0 \<le> n \<Longrightarrow> 0 < k \<Longrightarrow> n sdiv k = n div (k :: int)"
  by (simp add: signed_divide_int_def zsgn_def)

lemma luma_range: "0 \<le> luma_of r g b \<and> luma_of r g b \<le> 255"
proof -
  let ?n = "299 * uint r + 587 * uint g + 114 * uint b"
  have "0 \<le> ?n" "?n \<le> 255000" using uint_byte [of r] uint_byte [of g] uint_byte [of b] by simp_all
  then have "0 \<le> ?n div 1000 \<and> ?n div 1000 \<le> 255" by linarith
  then show ?thesis unfolding luma_of_def sdiv_pos [OF \<open>0 \<le> ?n\<close>, of 1000, simplified] .
qed

lemma sdiv_between:
  assumes "- (k * (m + 1)) < n" "n < k * (m + 1)" "0 < (k :: int)"
  shows "- m \<le> n sdiv k \<and> n sdiv k \<le> m"
proof -
  have up: "a div k \<le> m" if "a < k * (m + 1)" for a
  proof -
    have "a \<le> k * (m + 1) - 1" using that by simp
    then have "a div k \<le> (k * (m + 1) - 1) div k" by (rule zdiv_mono1) (rule assms(3))
    also have "(k * (m + 1) - 1) div k = m"
      using assms(3) by (intro int_div_pos_eq [where r = "k - 1"]) (simp_all add: algebra_simps)
    finally show ?thesis .
  qed
  show ?thesis
  proof (cases "0 \<le> n")
    case True
    then show ?thesis using up [OF assms(2)] assms(3) pos_imp_zdiv_nonneg_iff [OF assms(3), of n] sdiv_pos [OF True assms(3)] by simp
  next
    case False
    moreover have "n sdiv k = - ((- n) div k)" using sdiv_pos [of "- n" k] False assms(3) by simp
    moreover have "(- n) div k \<le> m" "0 \<le> (- n) div k"
      using up [of "- n"] assms(1,3) False by (simp_all add: pos_imp_zdiv_nonneg_iff)
    ultimately show ?thesis by linarith
  qed
qed

lemma weights_bound: "(y :: int) \<le> 256 * u \<Longrightarrow> x \<le> (256 - u) * 255 \<Longrightarrow> u \<le> 255 \<Longrightarrow> x + y \<le> 65535"
  by (simp add: left_diff_distrib)

text \<open>
  No colour wraps round: for every pixel the luma is between 0 and 255 and, with the luma that was
  stored, so is each chroma, and blending is the weighted mean with weights of 256, rounded down, between
  0 and 255, for every transparency; fully transparent pixels leave the picture as it was.  The variant
  for bright pictures is the mean with the inverted luma, which does not wrap either.
\<close>

theorem watermark_colours_fit:
  "uint (byte_of (luma_of r g b)) = (299 * uint r + 587 * uint g + 114 * uint b) div 1000 \<and>
   (let y = byte_of (luma_of r g b)
    in uint (byte_of (cb_of b y)) = cb_of b y \<and> uint (byte_of (cr_of r y)) = cr_of r y) \<and>
   uint (blend a fg bg) = ((256 - uint a) * uint bg + uint a * uint fg) div 256 \<and> blend 0 fg bg = bg \<and>
   uint (blend_bright a fg bg) = ((256 - uint a) * uint bg + uint a * (256 - uint fg)) div 256"
proof -
  let ?n = "299 * uint r + 587 * uint g + 114 * uint b" and ?y = "byte_of (luma_of r g b)"
  have n: "0 \<le> ?n" using uint_byte [of r] uint_byte [of g] uint_byte [of b] by simp
  have luma: "luma_of r g b = ?n div 1000" unfolding luma_of_def sdiv_pos [OF n, of 1000, simplified] ..
  have y: "uint ?y = ?n div 1000" using luma_range [of r g b] unfolding luma by (intro byte_of_uint) auto
  have b: "- 226 \<le> uint b - uint ?y" "uint b - uint ?y \<le> 226"
    unfolding y using uint_byte [of r] uint_byte [of g] uint_byte [of b] by linarith+
  have r: "- 179 \<le> uint r - uint ?y" "uint r - uint ?y \<le> 179"
    unfolding y using uint_byte [of r] uint_byte [of g] uint_byte [of b] by linarith+
  have "- 127 \<le> (564 * (uint b - uint ?y)) sdiv 1000 \<and> (564 * (uint b - uint ?y)) sdiv 1000 \<le> 127"
    using b by (intro sdiv_between) simp_all
  then have cb: "uint (byte_of (cb_of b ?y)) = cb_of b ?y" by (intro byte_of_uint) (simp_all add: cb_of_def)
  have "- 127 \<le> (713 * (uint r - uint ?y)) sdiv 1000 \<and> (713 * (uint r - uint ?y)) sdiv 1000 \<le> 127"
    using r by (intro sdiv_between) simp_all
  then have cr: "uint (byte_of (cr_of r ?y)) = cr_of r ?y" by (intro byte_of_uint) (simp_all add: cr_of_def)
  let ?m = "(256 - uint a) * uint bg + uint fg * uint a"
  have "0 \<le> (256 - uint a) * uint bg" "0 \<le> uint fg * uint a" using uint_byte [of a] uint_byte [of bg] uint_byte [of fg] by simp_all
  moreover have "(256 - uint a) * uint bg \<le> (256 - uint a) * 255" "uint fg * uint a \<le> 255 * uint a"
    using uint_byte [of a] uint_byte [of bg] uint_byte [of fg] by (intro mult_left_mono mult_right_mono; simp)+
  ultimately have "0 \<le> ?m" "?m \<le> 65280" by (linarith, simp add: algebra_simps)
  then have "0 \<le> ?m div 256 \<and> ?m div 256 \<le> 255" by linarith
  then have bl: "uint (blend a fg bg) = ?m div 256" by (simp add: blend_def drop_bit_eq_div byte_of_uint)
  let ?b = "(256 - uint a) * uint bg + (256 - uint fg) * uint a"
  have "0 \<le> (256 - uint fg) * uint a" "0 \<le> (256 - uint a) * uint bg" using uint_byte [of a] uint_byte [of bg] uint_byte [of fg] by simp_all
  moreover have "(256 - uint fg) * uint a \<le> 256 * uint a" "(256 - uint a) * uint bg \<le> (256 - uint a) * 255"
    using uint_byte [of a] uint_byte [of bg] uint_byte [of fg] by (intro mult_left_mono mult_right_mono; simp)+
  ultimately have "0 \<le> ?b" "?b \<le> 65535"
    using weights_bound [of "(256 - uint fg) * uint a" "uint a" "(256 - uint a) * uint bg"] uint_byte [of a] by (linarith, blast)
  then have "0 \<le> ?b div 256 \<and> ?b div 256 \<le> 255" by linarith
  then have br: "uint (blend_bright a fg bg) = ?b div 256" by (simp add: blend_bright_def drop_bit_eq_div byte_of_uint)
  have "blend 0 fg bg = bg"
    using uint_byte [of bg] by (simp add: blend_def byte_of_def drop_bit_eq_div)
  then show ?thesis using y cb cr bl br by (simp add: Let_def mult.commute)
qed

end
