(* ===== verification/Watermark_Time.thy ===== *)
theory Watermark_Time
  imports Watermark Snap_Decode
begin

text \<open>
  What the blending of \<open>Watermark\<close> shows: the time of a snapshot, one glyph after the other, in its
  region of the picture and nowhere else.
\<close>

section \<open>Rectangles of a plane\<close>

lemma update_all_other:
  "update_all ops buf = Some buf' \<Longrightarrow> k \<notin> fst ` set ops \<Longrightarrow> buf' ! k = buf ! k"
  by (induction ops buf rule: update_all.induct) (auto split: if_splits)

lemma update_all_length: "update_all ops buf = Some buf' \<Longrightarrow> length buf' = length buf"
  by (induction ops buf rule: update_all.induct) (auto split: if_splits)

lemma update_all_some: "\<forall>(i, f)\<in>set ops. i < length buf \<Longrightarrow> \<exists>buf'. update_all ops buf = Some buf'"
  by (induction ops buf rule: update_all.induct) auto

lemma update_all_value:
  "update_all ops buf = Some buf' \<Longrightarrow> distinct (map fst ops) \<Longrightarrow> (k, f) \<in> set ops \<Longrightarrow> buf' ! k = f (buf ! k)"
proof (induction ops buf rule: update_all.induct)
  case (2 i g ops buf)
  then have step: "i < length buf" "update_all ops (buf[i := g (buf ! i)]) = Some buf'" by (auto split: if_splits)
  show ?case
  proof (cases "(k, f) = (i, g)")
    case True
    then have "k \<notin> fst ` set ops" using 2(3) by simp
    then show ?thesis using update_all_other [OF step(2)] step(1) True by simp
  next
    case False
    then have "(k, f) \<in> set ops" using 2(4) by auto
    moreover from this have "k \<noteq> i" using 2(3) by force
    ultimately show ?thesis using 2(1) [OF step(1) step(2)] 2(3) by simp
  qed
qed simp

text \<open>Both planes are changed in a rectangle, row by row.\<close>

definition rect_ops :: "nat \<Rightarrow> nat \<Rightarrow> nat \<Rightarrow> nat \<Rightarrow> nat \<Rightarrow> (nat \<Rightarrow> nat \<Rightarrow> byte \<Rightarrow> byte) \<Rightarrow> (nat \<times> (byte \<Rightarrow> byte)) list" where
  "rect_ops W left upper w n g =
     concat (map (\<lambda>i. map (\<lambda>j. (W * (upper + i) + (left + j), g i j)) [0..<w]) [0..<n])"

definition in_rect :: "nat \<Rightarrow> nat \<Rightarrow> nat \<Rightarrow> nat \<Rightarrow> nat \<Rightarrow> nat \<Rightarrow> bool" where
  "in_rect left upper w n r c \<longleftrightarrow> upper \<le> r \<and> r < upper + n \<and> left \<le> c \<and> c < left + w"

lemma rect_ops_iff: "x \<in> set (rect_ops W left upper w n g) \<longleftrightarrow>
    (\<exists>i < n. \<exists>j < w. x = (W * (upper + i) + (left + j), g i j))"
  by (auto simp: rect_ops_def image_iff Bex_def)

lemma distinct_rows:
  "(\<And>i. distinct (f i)) \<Longrightarrow> (\<And>i i'. i \<noteq> i' \<Longrightarrow> set (f i) \<inter> set (f i') = {}) \<Longrightarrow> distinct (concat (map f [0..<n]))"
  by (induction n) (auto, metis disjoint_iff nat_neq_iff)

lemma rect_ops_distinct:
  assumes "left + w \<le> W"
  shows "distinct (map fst (rect_ops W left upper w n g))"
proof -
  let ?row = "\<lambda>i. map (\<lambda>j. W * (upper + i) + (left + j)) [0..<w]"
  have row: "distinct (?row i)" for i by (simp add: distinct_map inj_on_def)
  have apart: "set (?row i) \<inter> set (?row i') = {}" if "i \<noteq> i'" for i i'
  proof (rule ccontr)
    assume "set (?row i) \<inter> set (?row i') \<noteq> {}"
    then obtain j j' where j: "j < w" "j' < w" "W * (upper + i) + (left + j) = W * (upper + i') + (left + j')" by auto
    then have "upper + i = upper + i'" using row_position [OF j(3)] assms by simp
    then show False using that by simp
  qed
  have "distinct (concat (map ?row [0..<n]))"
    using row apart by (intro distinct_rows)
  moreover have "map fst (rect_ops W left upper w n g) = concat (map ?row [0..<n])"
    by (simp add: rect_ops_def map_concat o_def)
  ultimately show ?thesis by simp
qed

lemma rect_ops_cell:
  assumes "left + w \<le> W" "c < W"
  shows "W * r + c \<in> fst ` set (rect_ops W left upper w n g) \<longleftrightarrow> in_rect left upper w n r c"
proof
  assume "W * r + c \<in> fst ` set (rect_ops W left upper w n g)"
  then obtain i j where ij: "i < n" "j < w" "W * r + c = W * (upper + i) + (left + j)"
    by (auto simp: rect_ops_def)
  then show "in_rect left upper w n r c" using row_position [OF ij(3)] assms by (simp add: in_rect_def)
next
  assume "in_rect left upper w n r c"
  then have "r - upper < n" "c - left < w" "upper + (r - upper) = r" "left + (c - left) = c" by (auto simp: in_rect_def)
  then show "W * r + c \<in> fst ` set (rect_ops W left upper w n g)"
    unfolding rect_ops_iff image_iff Bex_def by (intro exI [of _ "(W * r + c, g (r - upper) (c - left))"]) force
qed

lemma update_rect:
  assumes "left + w \<le> W" "upper + n \<le> H" "length buf = W * H"
  shows "\<exists>buf'. update_all (rect_ops W left upper w n g) buf = Some buf' \<and> length buf' = W * H \<and>
    (\<forall>r < H. \<forall>c < W. buf' ! (W * r + c) =
       (if in_rect left upper w n r c then g (r - upper) (c - left) (buf ! (W * r + c)) else buf ! (W * r + c)))"
proof -
  have below: "W * r + c < W * H" if "r < H" "c < W" for r c
  proof -
    have "W * r + c < W * Suc r" using that(2) by simp
    also have "\<dots> \<le> W * H" using that(1) by (intro mult_le_mono2) simp
    finally show ?thesis .
  qed
  have "k < length buf" if op: "(k, f) \<in> set (rect_ops W left upper w n g)" for k f
  proof -
    obtain i j where ij: "i < n" "j < w" "k = W * (upper + i) + (left + j)" using op unfolding rect_ops_iff by blast
    show ?thesis unfolding assms(3) ij(3) using ij(1,2) assms(1,2) by (intro below) simp_all
  qed
  then have "\<forall>(k, f)\<in>set (rect_ops W left upper w n g). k < length buf" by blast
  then obtain buf' where buf': "update_all (rect_ops W left upper w n g) buf = Some buf'"
    using update_all_some by blast
  have "buf' ! (W * r + c) = (if in_rect left upper w n r c then g (r - upper) (c - left) (buf ! (W * r + c)) else buf ! (W * r + c))"
    if "c < W" for r c
  proof (cases "in_rect left upper w n r c")
    case True
    then have "(W * r + c, g (r - upper) (c - left)) \<in> set (rect_ops W left upper w n g)"
      unfolding rect_ops_iff in_rect_def
      by (intro exI [of _ "r - upper"] conjI exI [of _ "c - left"]) auto
    then show ?thesis using update_all_value [OF buf' rect_ops_distinct [OF assms(1)]] True by simp
  next
    case False
    then have "W * r + c \<notin> fst ` set (rect_ops W left upper w n g)"
      using rect_ops_cell [OF assms(1) that] by blast
    then show ?thesis using update_all_other [OF buf'] False by simp
  qed
  then show ?thesis using buf' update_all_length [OF buf'] assms(3) by (intro exI [of _ buf']) simp
qed

section \<open>Glyphs\<close>

lemma luma_ops_rect: "luma_ops W left upper w n p =
    rect_ops W left upper w n (\<lambda>i j. blend (sp_alph p ! (i * w + j)) (sp_y p ! (i * w + j)))"
  by (simp add: luma_ops_def rect_ops_def algebra_simps)

lemma concat_even_rows: "concat (map (\<lambda>i. if even i then f i else []) [0..<n]) = concat (map (\<lambda>k. f (2 * k)) [0..<(n + 1) div 2])"
proof (induction n)
  case (Suc n)
  then show ?case by (cases "even n") (auto elim!: evenE oddE)
qed simp

lemma chroma_ops_rect: "chroma_ops W left upper w n p =
    rect_ops W left (upper div 2) w ((n + 1) div 2) (\<lambda>i j. blend (sp_alph p ! (2 * i * w + j)) (sp_c p ! (i * w + j)))"
  unfolding chroma_ops_def concat_even_rows by (simp add: rect_ops_def algebra_simps)

text \<open>The colour of a pixel of glyphs side by side, from the glyph that covers it.\<close>

definition glyph_luma :: "nat \<Rightarrow> single_picture list \<Rightarrow> nat \<Rightarrow> nat \<Rightarrow> byte \<Rightarrow> byte" where
  "glyph_luma w ps i j = (let p = ps ! (j div w); k = i * w + j mod w in blend (sp_alph p ! k) (sp_y p ! k))"

definition glyph_chroma :: "nat \<Rightarrow> single_picture list \<Rightarrow> nat \<Rightarrow> nat \<Rightarrow> byte \<Rightarrow> byte" where
  "glyph_chroma w ps i j =
     (let p = ps ! (j div w) in blend (sp_alph p ! (2 * i * w + j mod w)) (sp_c p ! (i * w + j mod w)))"

lemma glyph_here: "j < w \<Longrightarrow> glyph_luma w (p # ps) i j = blend (sp_alph p ! (i * w + j)) (sp_y p ! (i * w + j))"
  "j < w \<Longrightarrow> glyph_chroma w (p # ps) i j = blend (sp_alph p ! (2 * i * w + j)) (sp_c p ! (i * w + j))"
  by (simp_all add: glyph_luma_def glyph_chroma_def Let_def)

lemma glyph_later: "0 < w \<Longrightarrow> w \<le> j \<Longrightarrow> glyph_luma w (p # ps) i j = glyph_luma w ps i (j - w)"
  "0 < w \<Longrightarrow> w \<le> j \<Longrightarrow> glyph_chroma w (p # ps) i j = glyph_chroma w ps i (j - w)"
  by (simp_all add: glyph_luma_def glyph_chroma_def le_div_geq le_mod_geq)

definition painted :: "nat \<Rightarrow> nat \<Rightarrow> nat \<Rightarrow> nat \<Rightarrow> nat \<Rightarrow> nat \<Rightarrow> (nat \<Rightarrow> nat \<Rightarrow> byte \<Rightarrow> byte) \<Rightarrow> byte list \<Rightarrow> byte list \<Rightarrow> bool" where
  "painted W H left upper w n g buf buf' \<longleftrightarrow> length buf' = W * H \<and>
     (\<forall>r < H. \<forall>c < W. buf' ! (W * r + c) =
        (if in_rect left upper w n r c then g (r - upper) (c - left) (buf ! (W * r + c)) else buf ! (W * r + c)))"

lemma shows_rect:
  "left + w \<le> W \<Longrightarrow> upper + n \<le> H \<Longrightarrow> length buf = W * H \<Longrightarrow>
    \<exists>buf'. update_all (rect_ops W left upper w n g) buf = Some buf' \<and> painted W H left upper w n g buf buf'"
  unfolding painted_def by (rule update_rect)

text \<open>Two rectangles beside each other.\<close>

lemma shows_beside:
  assumes "painted W H left upper w n g buf buf1" "painted W H (left + w) upper w' n g' buf1 buf2"
    "\<And>i j. j < w \<Longrightarrow> g'' i j = g i j" "\<And>i j. w \<le> j \<Longrightarrow> g'' i j = g' i (j - w)"
  shows "painted W H left upper (w + w') n g'' buf buf2"
proof -
  have "buf2 ! (W * r + c) =
      (if in_rect left upper (w + w') n r c then g'' (r - upper) (c - left) (buf ! (W * r + c)) else buf ! (W * r + c))"
    if "r < H" "c < W" for r c
  proof -
    consider "in_rect left upper w n r c" "\<not> in_rect (left + w) upper w' n r c" "in_rect left upper (w + w') n r c" "c - left < w"
      | "\<not> in_rect left upper w n r c" "in_rect (left + w) upper w' n r c" "in_rect left upper (w + w') n r c" "w \<le> c - left"
      | "\<not> in_rect left upper w n r c" "\<not> in_rect (left + w) upper w' n r c" "\<not> in_rect left upper (w + w') n r c"
      by (fastforce simp: in_rect_def)
    then show ?thesis using assms(1,2) that assms(3,4) by cases (simp_all add: painted_def)
  qed
  then show ?thesis using assms(2) by (simp add: painted_def)
qed

lemma half_rows: "upper + n \<le> H \<Longrightarrow> even H \<Longrightarrow> 0 < n \<Longrightarrow> upper div 2 + (n + 1) div 2 \<le> H div (2 :: nat)"
  by (auto elim!: evenE)

lemma blending_shows:
  assumes "left + w \<le> W" "upper + n \<le> H" "even H" "0 < n" "length Y = W * H" "length C = W * (H div 2)"
  shows "\<exists>Y' C'. yuv420sp_blending W left upper w n p (Y, C) = Some (Y', C') \<and>
    painted W H left upper w n (glyph_luma w [p]) Y Y' \<and>
    painted W (H div 2) left (upper div 2) w ((n + 1) div 2) (glyph_chroma w [p]) C C'"
proof -
  obtain Y' where Y': "update_all (luma_ops W left upper w n p) Y = Some Y'"
      "painted W H left upper w n (\<lambda>i j. blend (sp_alph p ! (i * w + j)) (sp_y p ! (i * w + j))) Y Y'"
    using shows_rect [OF assms(1,2,5)] unfolding luma_ops_rect by blast
  obtain C' where C': "update_all (chroma_ops W left upper w n p) C = Some C'"
      "painted W (H div 2) left (upper div 2) w ((n + 1) div 2) (\<lambda>i j. blend (sp_alph p ! (2 * i * w + j)) (sp_c p ! (i * w + j))) C C'"
    using shows_rect [OF assms(1) half_rows [OF assms(2,3,4)] assms(6)] unfolding chroma_ops_rect by blast
  have "painted W H left upper w n (glyph_luma w [p]) Y Y'"
    using Y'(2) glyph_here(1) [of _ w p "[]"] by (auto simp: painted_def in_rect_def)
  moreover have "painted W (H div 2) left (upper div 2) w ((n + 1) div 2) (glyph_chroma w [p]) C C'"
    using C'(2) glyph_here(2) [of _ w p "[]"] by (auto simp: painted_def in_rect_def)
  ultimately show ?thesis using Y'(1) C'(1) by (simp add: yuv420sp_blending_def)
qed

lemma painted_nothing: "length buf = W * H \<Longrightarrow> painted W H left upper 0 n g buf buf"
  by (auto simp: painted_def in_rect_def)

lemma pictures_show:
  assumes "x + wi_width w * length ids \<le> W" "y + wi_height w \<le> H" "even H" "0 < wi_width w" "0 < wi_height w"
    "length Y = W * H" "length C = W * (H div 2)" "\<forall>n\<in>set ids. unat n < length (wi_pics w)"
  shows "\<exists>Y' C'. blend_pictures W w x y ids (Y, C) = Some (Y', C') \<and>
    painted W H x y (wi_width w * length ids) (wi_height w) (glyph_luma (wi_width w) (map (\<lambda>n. wi_pics w ! unat n) ids)) Y Y' \<and>
    painted W (H div 2) x (y div 2) (wi_width w * length ids) ((wi_height w + 1) div 2)
      (glyph_chroma (wi_width w) (map (\<lambda>n. wi_pics w ! unat n) ids)) C C'"
  using assms
proof (induction ids arbitrary: x Y C)
  case Nil
  then show ?case by (simp add: painted_nothing)
next
  case (Cons n ids)
  let ?p = "wi_pics w ! unat n" and ?v = "wi_width w"
  obtain Y1 C1 where 1: "yuv420sp_blending W x y ?v (wi_height w) ?p (Y, C) = Some (Y1, C1)"
    "painted W H x y ?v (wi_height w) (glyph_luma ?v [?p]) Y Y1"
    "painted W (H div 2) x (y div 2) ?v ((wi_height w + 1) div 2) (glyph_chroma ?v [?p]) C C1"
    using blending_shows [of x ?v W y "wi_height w" H Y C ?p] Cons.prems by auto
  have len: "length Y1 = W * H" "length C1 = W * (H div 2)" using 1(2,3) by (simp_all add: painted_def)
  have room: "x + ?v + ?v * length ids \<le> W" using Cons.prems(1) by simp
  obtain Y2 C2 where 2: "blend_pictures W w (x + ?v) y ids (Y1, C1) = Some (Y2, C2)"
    "painted W H (x + ?v) y (?v * length ids) (wi_height w) (glyph_luma ?v (map (\<lambda>n. wi_pics w ! unat n) ids)) Y1 Y2"
    "painted W (H div 2) (x + ?v) (y div 2) (?v * length ids) ((wi_height w + 1) div 2)
      (glyph_chroma ?v (map (\<lambda>n. wi_pics w ! unat n) ids)) C1 C2"
    using Cons.IH [OF room Cons.prems(2-5) len] Cons.prems(8) by auto
  have "painted W H x y (?v + ?v * length ids) (wi_height w) (glyph_luma ?v (?p # map (\<lambda>n. wi_pics w ! unat n) ids)) Y Y2"
    using shows_beside [OF 1(2) 2(2)] Cons.prems(4) by (simp add: glyph_here glyph_later)
  moreover have "painted W (H div 2) x (y div 2) (?v + ?v * length ids) ((wi_height w + 1) div 2)
      (glyph_chroma ?v (?p # map (\<lambda>n. wi_pics w ! unat n) ids)) C C2"
    using shows_beside [OF 1(3) 2(3)] Cons.prems(4) by (simp add: glyph_here glyph_later)
  ultimately show ?case using 1(1) 2(1) Cons.prems(8) by (simp add: picture_at_def)
qed

section \<open>Bitmaps\<close>

text \<open>A bitmap of a size, with its rows from above: where its pixels start, and that they are all there.\<close>

definition bmp_ok :: "nat \<Rightarrow> nat \<Rightarrow> byte list \<Rightarrow> bool" where
  "bmp_ok w h b \<longleftrightarrow> 26 \<le> length b \<and> le32 b 18 = of_nat w \<and> le32 b 22 = - of_nat h \<and>
     sint (le32 b 10) \<ge> 0 \<and> unat (le32 b 10) + w * h * 4 \<le> length b"

definition bmp_pixels :: "nat \<Rightarrow> nat \<Rightarrow> byte list \<Rightarrow> byte list" where
  "bmp_pixels w h b = take (w * h * 4) (drop (unat (le32 b 10)) b)"

definition bmp_picture :: "nat \<Rightarrow> nat \<Rightarrow> byte list \<Rightarrow> single_picture" where
  "bmp_picture w h b = argb2yuv420sp (bmp_pixels w h b) w h"

lemma fread_into_whole: "pos + length old \<le> length b \<Longrightarrow> fread_into b pos old = take (length old) (drop pos b)"
  by (simp add: fread_into_def)

lemma length_fread_into [simp]: "length (fread_into b pos old) = length old"
  by (simp add: fread_into_def)

lemma le32_fread: "length old = 4 \<Longrightarrow> pos + 4 \<le> length b \<Longrightarrow> le32 (fread_into b pos old) 0 = le32 b pos"
  by (simp add: fread_into_whole le32_def)

definition vars_ok :: "nat \<Rightarrow> nat \<Rightarrow> wm_vars \<Rightarrow> bool" where
  "vars_ok w h v \<longleftrightarrow> length (wv_start v) = 4 \<and> length (wv_width v) = 4 \<and> length (wv_height v) = 4 \<and>
     (\<forall>b. wv_argb v = Some b \<longrightarrow> length b = w * h * 4)"

lemma length_rows: "(\<And>i. length (f i) = w) \<Longrightarrow> length (concat (map f [0..<n])) = n * w"
  by (induction n) (simp_all add: algebra_simps)

lemma picture_lengths: "length (sp_c (argb2yuv420sp px w h)) = (h + 1) div 2 * w"
  "length (sp_y (argb2yuv420sp px w h)) = h * w" "length (sp_alph (argb2yuv420sp px w h)) = h * w"
  by (simp_all add: argb2yuv420sp_def concat_even_rows length_rows)

lemma chroma_room: "even h \<Longrightarrow> (h + 1) div 2 * w \<le> w * h * 5 div 2 - 2 * (w * h)" for w h :: nat
  by (auto elim!: evenE)

lemma load_bmp:
  assumes "bmp name = Some b" "length name < 64" "bmp_ok w h b" "0 < w" "w \<le> 4096" "0 < h" "h \<le> 4096" "even h"
    "vars_ok w h v" "w0 = 0 \<or> w0 = of_nat w \<and> h0 = of_nat h"
  shows "\<exists>v'. load_picture junk bmp name (v, w0, h0) = Some (Inr ((v', of_nat w, of_nat h), bmp_picture w h b)) \<and> vars_ok w h v'"
proof -
  let ?start = "fread_into b 10 (wv_start v)" and ?argb = "case wv_argb v of Some b \<Rightarrow> b | None \<Rightarrow> map junk [0..<w * h * 4]"
  have head: "le32 ?start 0 = le32 b 10" "le32 (fread_into b 18 (wv_width v)) 0 = of_nat w"
    "le32 (fread_into b 22 (wv_height v)) 0 = - of_nat h"
    using assms(3,9) by (simp_all add: le32_fread bmp_ok_def vars_ok_def)
  have nat: "unat (of_nat w :: u32) = w" "unat (of_nat h :: u32) = h" using assms(5,7) by (simp_all add: unat_of_nat)
  have size: "\<not> ((of_nat w :: u32) = 0 \<or> (of_nat h :: u32) = 0 \<or> (of_nat w :: u32) > 4096 \<or> (of_nat h :: u32) > 4096)"
    using assms(4-7) nat by (auto simp: word_less_nat_alt dest!: arg_cong [where f = unat])
  have len: "length ?argb = w * h * 4" using assms(9) by (auto simp: vars_ok_def split: option.split)
  have px: "fread_into b (unat (le32 b 10)) ?argb = bmp_pixels w h b"
    using fread_into_whole [of "unat (le32 b 10)" ?argb b] assms(3) len by (simp add: bmp_ok_def bmp_pixels_def)
  have px_len: "length (bmp_pixels w h b) = w * h * 4" using assms(3) by (auto simp: bmp_pixels_def bmp_ok_def min_def)
  let ?v = "\<lparr>wv_start = ?start, wv_width = fread_into b 18 (wv_width v), wv_height = fread_into b 22 (wv_height v),
    wv_argb = Some (bmp_pixels w h b)\<rparr>"
  have "load_picture junk bmp name (v, w0, h0) = Some (Inr ((?v, of_nat w, of_nat h), bmp_picture w h b))"
    using assms(10)
  proof
    assume "w0 = 0"
    then show ?thesis using assms(1-3) size chroma_room [OF assms(8), of w]
      by (simp add: load_picture_def Let_def head nat px bmp_ok_def picture_lengths bmp_picture_def)
  next
    assume w0: "w0 = of_nat w \<and> h0 = of_nat h"
    then have "w0 \<noteq> 0" using size by simp
    then show ?thesis using assms(1-3) size chroma_room [OF assms(8), of w] w0
      by (simp add: load_picture_def Let_def head nat px bmp_ok_def picture_lengths bmp_picture_def)
  qed
  moreover have "vars_ok w h ?v" using assms(9) px_len by (simp add: vars_ok_def)
  ultimately show ?thesis by blast
qed

lemma load_bmps:
  assumes "\<forall>name\<in>set names. length name < 64 \<and> (\<exists>b. bmp name = Some b \<and> bmp_ok w h b)"
    "0 < w" "w \<le> 4096" "0 < h" "h \<le> 4096" "even h" "vars_ok w h v" "w0 = 0 \<and> names \<noteq> [] \<or> w0 = of_nat w \<and> h0 = of_nat h"
  shows "load_pictures junk bmp names (v, w0, h0) pics =
    Some (Inr \<lparr>wi_width = w, wi_height = h, wi_pics = pics @ map (\<lambda>name. bmp_picture w h (the (bmp name))) names\<rparr>)"
  using assms(1,7,8)
proof (induction names arbitrary: v w0 h0 pics)
  case Nil
  then show ?case using assms(3,5) by (simp add: unat_of_nat)
next
  case (Cons name names)
  obtain b where b: "bmp name = Some b" "bmp_ok w h b" "length name < 64" using Cons.prems(1) by auto
  obtain v' where "load_picture junk bmp name (v, w0, h0) = Some (Inr ((v', of_nat w, of_nat h), bmp_picture w h b))" "vars_ok w h v'"
    using load_bmp [of bmp name b w h v w0 h0 junk] b assms(2-6) Cons.prems(2,3) by blast
  then show ?case using Cons.IH [of v' "of_nat w" "of_nat h"] Cons.prems(1) b(1) by simp
qed

section \<open>The time\<close>

definition tm_ok :: "tm \<Rightarrow> bool" where
  "tm_ok t \<longleftrightarrow> 0 \<le> tm_year t + 1900 \<and> tm_year t + 1900 \<le> 9999 \<and> 0 \<le> tm_mon t \<and> tm_mon t \<le> 11 \<and>
     1 \<le> tm_mday t \<and> tm_mday t \<le> 31 \<and> 0 \<le> tm_hour t \<and> tm_hour t \<le> 23 \<and> 0 \<le> tm_min t \<and> tm_min t \<le> 59 \<and>
     0 \<le> tm_sec t \<and> tm_sec t \<le> 60"

text \<open>A number with so many decimal digits, and the time as it is usually written.\<close>

fun digits :: "nat \<Rightarrow> int \<Rightarrow> string" where
  "digits 0 k = []"
| "digits (Suc n) k = digits n (k div 10) @ [digit_char (nat (k mod 10))]"

definition time_text :: "tm \<Rightarrow> string" where
  "time_text t = digits 4 (tm_year t + 1900) @ ''-'' @ digits 2 (tm_mon t + 1) @ ''-'' @ digits 2 (tm_mday t) @ '' '' @
     digits 2 (tm_hour t) @ '':'' @ digits 2 (tm_min t) @ '':'' @ digits 2 (tm_sec t)"

text \<open>The picture of a character.\<close>

definition glyph_of :: "char \<Rightarrow> nat" where
  "glyph_of c = (if c = CHR '' '' then 10 else if c = CHR ''-'' then 11 else if c = CHR '':'' then 12 else of_char c - 48)"

lemma glyph_digit: "n < 10 \<Longrightarrow> glyph_of (digit_char n) = n"
  by (auto simp: glyph_of_def digit_char_def dest: arg_cong [where f = "of_char :: char \<Rightarrow> nat"])

lemma byte_glyph: "0 \<le> k \<Longrightarrow> k < 10 \<Longrightarrow> unat (byte_of k) = glyph_of (digit_char (nat k))"
  using byte_of_uint [of k] glyph_digit [of "nat k"] by (simp add: unat_eq_nat_uint)

lemma smod_pos: "0 \<le> n \<Longrightarrow> 0 < k \<Longrightarrow> n smod k = n mod (k :: int)"
  by (simp add: signed_modulo_int_def zsgn_def)

lemma two_digits:
  assumes "0 \<le> k" "k \<le> 99"
  shows "map unat [byte_of (k sdiv 10), byte_of (k smod 10)] = map glyph_of (digits 2 k)"
proof -
  have "k div 10 < 10" "k div 10 mod 10 = k div 10" using assms(2) by (simp_all add: assms(1) pos_imp_zdiv_nonneg_iff)
  then show ?thesis
    using assms(1) by (simp add: sdiv_pos smod_pos numeral_2_eq_2 byte_glyph pos_imp_zdiv_nonneg_iff del: One_nat_def)
qed

lemma four_digits:
  assumes "0 \<le> k" "k \<le> 9999"
  shows "map unat [byte_of (k sdiv 1000), byte_of ((k sdiv 100) smod 10), byte_of ((k sdiv 10) smod 10), byte_of (k smod 10)] =
    map glyph_of (digits 4 k)"
proof -
  have pos: "0 \<le> k div 10" "0 \<le> k div 100" "0 \<le> k div 1000" using assms(1) by (simp_all add: pos_imp_zdiv_nonneg_iff)
  have div: "k div 10 div 10 = k div 100" "k div 100 div 10 = k div 1000" by (simp_all add: div_mult2_eq [symmetric])
  have top: "k div 1000 mod 10 = k div 1000" "k div 1000 < 10" using assms(2) pos(3) by simp_all
  have "digits 4 k = [digit_char (nat (k div 1000)), digit_char (nat (k div 100 mod 10)), digit_char (nat (k div 10 mod 10)), digit_char (nat (k mod 10))]"
    using top(1) by (simp add: numeral_eq_Suc div del: One_nat_def)
  then show ?thesis using assms(1) pos top(2) by (simp add: sdiv_pos smod_pos byte_glyph)
qed

lemma time_glyphs:
  assumes "tm_ok t"
  shows "map unat (time_ids t) = map glyph_of (time_text t)"
proof -
  have sep: "map unat [byte_of 10] = map glyph_of '' ''" "map unat [byte_of 11] = map glyph_of ''-''" "map unat [byte_of 12] = map glyph_of '':''"
    by (simp_all add: byte_of_def glyph_of_def)
  have "time_ids t = [byte_of ((tm_year t + 1900) sdiv 1000), byte_of (((tm_year t + 1900) sdiv 100) smod 10),
      byte_of (((tm_year t + 1900) sdiv 10) smod 10), byte_of ((tm_year t + 1900) smod 10)] @ [byte_of 11] @
      [byte_of ((tm_mon t + 1) sdiv 10), byte_of ((tm_mon t + 1) smod 10)] @ [byte_of 11] @
      [byte_of (tm_mday t sdiv 10), byte_of (tm_mday t smod 10)] @ [byte_of 10] @
      [byte_of (tm_hour t sdiv 10), byte_of (tm_hour t smod 10)] @ [byte_of 12] @
      [byte_of (tm_min t sdiv 10), byte_of (tm_min t smod 10)] @ [byte_of 12] @
      [byte_of (tm_sec t sdiv 10), byte_of (tm_sec t smod 10)]"
    by (simp add: time_ids_def add.commute)
  moreover have "0 \<le> tm_mon t + 1 \<and> tm_mon t + 1 \<le> 99" "0 \<le> tm_mday t \<and> tm_mday t \<le> 99" "0 \<le> tm_hour t \<and> tm_hour t \<le> 99"
    "0 \<le> tm_min t \<and> tm_min t \<le> 99" "0 \<le> tm_sec t \<and> tm_sec t \<le> 99" "0 \<le> tm_year t + 1900 \<and> tm_year t + 1900 \<le> 9999"
    using assms by (simp_all add: tm_ok_def)
  ultimately show ?thesis unfolding time_text_def by (simp only: map_append sep two_digits four_digits)
qed

lemma glyph_below: "c \<in> set (time_text t) \<Longrightarrow> glyph_of c < 13"
proof -
  have dig: "glyph_of c < 13" if "c \<in> set (digits n k)" for n k
    using that by (induction n k rule: digits.induct) (auto simp: glyph_digit nat_less_iff)
  assume "c \<in> set (time_text t)"
  then show ?thesis unfolding time_text_def by (auto simp: glyph_of_def dest: dig)
qed

lemma length_digits [simp]: "length (digits n k) = n"
  by (induction n k rule: digits.induct) simp_all

lemma length_time_text: "length (time_text t) = 19"
  by (simp add: time_text_def)

section \<open>The mark\<close>

definition glyph_files :: "string \<Rightarrow> string list" where
  "glyph_files path = map (\<lambda>i. path @ show_nat i @ ''.bmp'') [0..<13]"

lemma glyph_file_name: "i < 13 \<Longrightarrow> length (path @ show_nat i @ ''.bmp'') \<le> length path + 6"
proof -
  assume "i < 13"
  then have "show_nat (i div 10) = [digit_char (i div 10)]" by (subst show_nat.simps) simp
  then have "length (show_nat i) \<le> 2" by (subst show_nat.simps) simp
  then show ?thesis by simp
qed

lemma wm_init_loads:
  assumes "length path < 58" "\<forall>name\<in>set (glyph_files path). \<exists>b. bmp name = Some b \<and> bmp_ok w h b"
    "0 < w" "w \<le> 4096" "0 < h" "h \<le> 4096" "even h"
  shows "WMInit junk bmp path = Some (Inr \<lparr>wi_width = w, wi_height = h,
    wi_pics = map (\<lambda>name. bmp_picture w h (the (bmp name))) (glyph_files path)\<rparr>)"
proof -
  have "\<forall>name\<in>set (glyph_files path). length name < 64"
  proof
    fix name assume "name \<in> set (glyph_files path)"
    then obtain i where "i < 13" "name = path @ show_nat i @ ''.bmp''" by (auto simp: glyph_files_def)
    then show "length name < 64" using glyph_file_name [of i path] assms(1) by simp
  qed
  then have "\<forall>name\<in>set (glyph_files path). length name < 64 \<and> (\<exists>b. bmp name = Some b \<and> bmp_ok w h b)" using assms(2) by blast
  moreover have "vars_ok w h wm_vars_init" by (simp add: vars_ok_def wm_vars_init_def)
  moreover have "glyph_files path \<noteq> []" by (simp add: glyph_files_def)
  ultimately show ?thesis
    using load_bmps [of "glyph_files path" bmp w h wm_vars_init 0 0 junk "[]"] assms(3-7) by (simp add: WMInit_def glyph_files_def)
qed

text \<open>
  With thirteen bitmaps of one small, even size, a valid time is blended into the picture as its nineteen
  characters, side by side from the place of the mark, every pixel with the pixel of the bitmap of its
  character, and the rest of the picture stays as it was.
\<close>

lemma mark_painted:
  assumes "wm_path wm_root (W = 640) = Some path" "length path < 58"
    "\<forall>name\<in>set (glyph_files path). \<exists>b. bmp name = Some b \<and> bmp_ok w h b"
    "(case time_data of Some t \<Rightarrow> t | None \<Rightarrow> now) = t" "tm_ok t" "0 < w" "0 < h" "even h" "if W = 640 then w \<le> 12 \<and> h \<le> 20 else w \<le> 24 \<and> h \<le> 40"
    "640 \<le> W" "W < 2 ^ 31" "40 \<le> H" "H < 2 ^ 31" "even H" "length Y = W * H" "length C = W * (H div 2)"
  shows "\<exists>Y' C'. add_watermark wm_root junk bmp W H time_data now (Y, C) = Some (0, Y', C') \<and>
    (let left = fst (wm_place W H); upper = snd (wm_place W H);
         glyphs = map (\<lambda>c. bmp_picture w h (the (bmp (glyph_files path ! glyph_of c)))) (time_text t)
     in painted W H left upper (w * 19) h (glyph_luma w glyphs) Y Y' \<and>
        painted W (H div 2) left (upper div 2) (w * 19) (h div 2) (glyph_chroma w glyphs) C C')"
proof -
  let ?wm = "\<lparr>wi_width = w, wi_height = h, wi_pics = map (\<lambda>name. bmp_picture w h (the (bmp name))) (glyph_files path)\<rparr>"
  let ?x = "fst (wm_place W H)" and ?y = "snd (wm_place W H)"
  have size: "w \<le> 4096" "h \<le> 4096" using assms(9) by (auto split: if_splits)
  have init: "WMInit junk bmp path = Some (Inr ?wm)"
    by (rule wm_init_loads) (use assms(2,3,6-8) size in simp_all)
  have files: "length (glyph_files path) = 13" by (simp add: glyph_files_def)
  have region: "?x + w * 19 \<le> W" "?y + h \<le> H" using assms(9,10,12) by (auto simp: wm_place_def split: if_splits)
  have ids: "length (time_ids t) = 19" by (simp add: time_ids_def)
  have pics: "map (\<lambda>n. wi_pics ?wm ! unat n) (time_ids t) =
      map (\<lambda>c. bmp_picture w h (the (bmp (glyph_files path ! glyph_of c)))) (time_text t)"
  proof -
    have "map (\<lambda>n. wi_pics ?wm ! unat n) (time_ids t) = map (\<lambda>k. wi_pics ?wm ! k) (map unat (time_ids t))" by simp
    also have "\<dots> = map (\<lambda>c. wi_pics ?wm ! glyph_of c) (time_text t)" unfolding time_glyphs [OF assms(5)] by simp
    also have "\<dots> = map (\<lambda>c. bmp_picture w h (the (bmp (glyph_files path ! glyph_of c)))) (time_text t)"
      using glyph_below files by (intro map_cong) simp_all
    finally show ?thesis .
  qed
  have below: "\<forall>n\<in>set (time_ids t). unat n < length (wi_pics ?wm)"
  proof
    fix n assume "n \<in> set (time_ids t)"
    then have "unat n \<in> set (map unat (time_ids t))" by simp
    then show "unat n < length (wi_pics ?wm)" unfolding time_glyphs [OF assms(5)] using glyph_below files by auto
  qed
  obtain Y' C' where paint: "blend_pictures W ?wm ?x ?y (time_ids t) (Y, C) = Some (Y', C')"
    "painted W H ?x ?y (w * 19) h (glyph_luma w (map (\<lambda>n. wi_pics ?wm ! unat n) (time_ids t))) Y Y'"
    "painted W (H div 2) ?x (?y div 2) (w * 19) ((h + 1) div 2) (glyph_chroma w (map (\<lambda>n. wi_pics ?wm ! unat n) (time_ids t))) C C'"
    using pictures_show [of ?x ?wm "time_ids t" W ?y H Y C] region assms(6,7,14-16) below ids by auto
  have wrap: "(?x + w * 19) mod 2 ^ 32 = ?x + w * 19" "(?y + h) mod 2 ^ 32 = ?y + h" using region assms(11,13) by simp_all
  have half: "(h + 1) div 2 = h div 2" using assms(8) by (auto elim!: evenE)
  have "AddWM ?wm W H ?x ?y time_data now (Y, C) = Some (True, Y', C')"
    using paint(1) region wrap ids by (simp add: AddWM_def watermark_blending_def assms(4))
  then have "add_watermark wm_root junk bmp W H time_data now (Y, C) = Some (0, Y', C')"
    using assms(1) init by (simp add: add_watermark_def)
  then show ?thesis using paint(2,3) unfolding pics half by (simp add: Let_def)
qed

definition small_bmp :: "byte list" where
  "small_bmp = [66, 77, 0, 0, 0, 0, 0, 0, 0, 0, 26, 0, 0, 0, 0, 0, 0, 0, 1, 0, 0, 0, 254, 255, 255, 255, 0, 0, 0, 0, 255, 255, 255, 128]"

lemma small_bmp_ok: "bmp_ok 1 2 small_bmp"
  by (simp add: bmp_ok_def small_bmp_def le32_def)

definition noon :: tm where
  "noon = \<lparr>tm_year = 124, tm_mon = 1, tm_mday = 29, tm_hour = 12, tm_min = 0, tm_sec = 5\<rparr>"

lemma noon_text: "time_text noon = ''2024-02-29 12:00:05''"
  by code_simp

end
