(* ===== verification/Snap_Program.thy ===== *)
theory Snap_Program
  imports Snap_File Watermark_Time Text_Lines
begin

text \<open>
  \<open>main\<close> of \<open>src/snapshot/snapshot/imggrabber.c\<close>: the options as \<open>getopt_long\<close> returns them, the check
  for another snapshot, the two sources of a picture, decoding, marking and encoding, with what is taken
  and released on the way to each exit code.  The results of system calls, the decoder and the files
  are an argument.  The build for the motion grid is a flag.
\<close>

section \<open>Options\<close>

record snap_settings =
  ss_offset :: int
  ss_header_size :: int
  ss_3m :: bool
  ss_low :: bool
  ss_file :: string
  ss_watermark :: bool
  ss_time :: "tm option"
  ss_debug :: bool

definition snap_defaults :: "bool \<Rightarrow> snap_settings" where
  "snap_defaults grid = \<lparr>ss_offset = 368, ss_header_size = 28, ss_3m = False, ss_low = grid, ss_file = [],
     ss_watermark = False, ss_time = None, ss_debug = False\<rparr>"

text \<open>The first byte of the frames, the size of a header, and whether the high resolution has 3 megapixels; 0 is detected.\<close>

definition snap_models :: "(string \<times> int \<times> int \<times> bool) list" where
  "snap_models =
     [(''y20ga'', 300, 22, False), (''y25ga'', 300, 22, False), (''y30qa'', 300, 22, False), (''y501gc'', 368, 24, False),
      (''y21ga'', 368, 28, False), (''y211ga'', 368, 28, False), (''y211ba'', 368, 28, False), (''y213ga'', 368, 28, True),
      (''y291ga'', 368, 28, False), (''h30ga'', 368, 28, False), (''r30gb'', 0, 0, False), (''r35gb'', 0, 0, False),
      (''r37gb'', 0, 0, True), (''r40ga'', 300, 26, False), (''h51ga'', 368, 28, True), (''h52ga'', 368, 28, False),
      (''h60ga'', 368, 28, True), (''y28ga'', 368, 28, False), (''y29ga'', 368, 28, False), (''y623'', 368, 28, True),
      (''q321br_lsx'', 300, 26, True), (''qg311r'', 300, 26, True), (''b091qp'', 300, 26, False)]"

text \<open>\<open>sscanf\<close> with \<open>%d-%d-%d %d:%d:%d\<close>; all six numbers are needed, what follows them is not looked at.\<close>

definition scan_time :: "string \<Rightarrow> tm option" where
  "scan_time arg = do {
     (year, s) \<leftarrow> scan_d arg;
     s \<leftarrow> scan_lit ''-'' s;
     (mon, s) \<leftarrow> scan_d s;
     s \<leftarrow> scan_lit ''-'' s;
     (day, s) \<leftarrow> scan_d s;
     (hour, s) \<leftarrow> scan_d (skip_space s);
     s \<leftarrow> scan_lit '':'' s;
     (mins, s) \<leftarrow> scan_d s;
     s \<leftarrow> scan_lit '':'' s;
     (sec, s) \<leftarrow> scan_d s;
     Some \<lparr>tm_year = year - 1900, tm_mon = mon - 1, tm_mday = day, tm_hour = hour, tm_min = mins, tm_sec = sec\<rparr>
   }"

text \<open>\<open>Inl\<close> is the exit code after the usage text.\<close>

definition snap_option :: "char \<Rightarrow> string \<Rightarrow> snap_settings \<Rightarrow> int + snap_settings" where
  "snap_option c arg s =
     (if c = CHR ''m'' then
        Inr (case find_ieq snap_models arg of
            Some (off, hs, big) \<Rightarrow> s\<lparr>ss_offset := off, ss_header_size := hs, ss_3m := big\<rparr> | None \<Rightarrow> s)
      else if c = CHR ''f'' then Inr (if length arg < 256 then s\<lparr>ss_file := arg\<rparr> else s)
      else if c = CHR ''r'' then Inr (s\<lparr>ss_low := str_ieq ''low'' arg\<rparr>)
      else if c = CHR ''w'' then Inr (s\<lparr>ss_watermark := True\<rparr>)
      else if c = CHR ''t'' then (case scan_time arg of Some t \<Rightarrow> Inr (s\<lparr>ss_time := Some t\<rparr>) | None \<Rightarrow> Inl 1)
      else if c = CHR ''d'' then Inr (s\<lparr>ss_debug := True\<rparr>)
      else Inl (-1))"

fun snap_options :: "(char \<times> string) list \<Rightarrow> snap_settings \<Rightarrow> int + snap_settings" where
  "snap_options [] s = Inr s"
| "snap_options ((c, arg) # opts) s = (case snap_option c arg s of Inl e \<Rightarrow> Inl e | Inr s' \<Rightarrow> snap_options opts s')"

section \<open>Another snapshot\<close>

definition base_name :: "string \<Rightarrow> string" where
  "base_name p =
     (let q = rev (dropWhile (\<lambda>c. c = CHR ''/'') (rev p))
      in if p = [] then ''.'' else if q = [] then ''/'' else rev (takeWhile (\<lambda>c. c \<noteq> CHR ''/'') (rev q)))"

text \<open>\<open>strtok (buf, " ")\<close> on what \<open>fgets\<close> left, up to the first null byte; \<open>None\<close> is the null pointer.\<close>

definition first_token :: "string \<Rightarrow> string option" where
  "first_token buf =
     (let t = dropWhile (\<lambda>c. c = CHR '' '') (takeWhile (\<lambda>c. c \<noteq> nul) buf)
      in if t = [] then None else Some (takeWhile (\<lambda>c. c \<noteq> CHR '' '') t))"

text \<open>The names in \<open>/proc\<close>, and the command line of a number; comparing with a null pointer is the fault \<open>None\<close>.\<close>

fun proc_scan :: "string \<Rightarrow> int \<Rightarrow> (int \<Rightarrow> string option) \<Rightarrow> string list \<Rightarrow> int option" where
  "proc_scan name pid cmdline [] = Some (-1)"
| "proc_scan name pid cmdline (d # ds) =
     (case strtol10 d of (lpid, rest, _) \<Rightarrow>
        if rest \<noteq> [] then proc_scan name pid cmdline ds
        else case cmdline lpid of
          None \<Rightarrow> proc_scan name pid cmdline ds
        | Some text \<Rightarrow>
            if text = [] then proc_scan name pid cmdline ds
            else do {
              first \<leftarrow> first_token (take 511 (first_line text));
              if first = name \<and> lpid \<noteq> pid then Some lpid else proc_scan name pid cmdline ds
            })"

definition proc_find :: "string \<Rightarrow> int \<Rightarrow> (int \<Rightarrow> string option) \<Rightarrow> string list option \<Rightarrow> int option" where
  "proc_find name pid cmdline dir = (case dir of None \<Rightarrow> Some (-1) | Some ds \<Rightarrow> proc_scan name pid cmdline ds)"

section \<open>The environment\<close>

record snap_env =
  sv_disabled :: bool
  sv_low :: bool
  sv_pid :: int
  sv_cmdline :: "int \<Rightarrow> string option"
  sv_proc :: "string list option"
  sv_size :: "int option"
  sv_shm_ok :: bool
  sv_mapping_ok :: bool
  sv_memory :: "byte list"
  sv_tries :: "byte list list"
  sv_header :: frame_header
  sv_passes :: "(nat \<times> grab_view) list"
  sv_copies :: "nat \<Rightarrow> byte list"
  sv_open :: "string \<Rightarrow> (byte list \<times> nat) option"
  sv_alloc_file :: bool
  sv_alloc_input :: bool
  sv_alloc_picture :: bool
  sv_heap :: "nat \<Rightarrow> byte list"
  sv_codec :: "nat \<Rightarrow> bool"
  sv_decode :: "nat \<Rightarrow> byte list \<Rightarrow> decoded option"
  sv_wm_root :: "string option"
  sv_junk :: "nat \<Rightarrow> byte"
  sv_bmp :: "string \<Rightarrow> byte list option"
  sv_now :: tm

text \<open>
  The shared file, its mapping and every allocation, of the program and of the libraries on its behalf.
  The directory and the streams that are read are closed where they are read; they are not listed.
\<close>

datatype snap_resource =
    Shm_file | Frame_mapping | File_buffer | Input_buffer | Picture_buffer
  | Decoder_packet | Decoder_context | Decoder_frame
  | Glyph nat | Glyph_source
  | Jpeg_encoder | Jpeg_buffer

datatype snap_effect = Take snap_resource | Release snap_resource | Show "byte list list"

section \<open>The frames\<close>

datatype snap_source =
    No_source int
  | Still_searching
  | Ring_source grab_config snap_records
  | File_source "byte list option \<times> byte list \<times> byte list \<times> byte list"

definition snap_config_of :: "snap_settings \<Rightarrow> frame_ring \<Rightarrow> int \<Rightarrow> grab_config" where
  "snap_config_of s r hs = \<lparr>gc_ring = r, gc_header_size = hs, gc_resolution = (if ss_low s then Res_low else Res_high),
     gc_audio = False, gc_sps_timing = False, gc_debug = ss_debug s\<rparr>"

definition snap_from_ring :: "snap_env \<Rightarrow> snap_settings \<Rightarrow> (snap_effect list \<times> snap_source) option" where
  "snap_from_ring e s =
     (case sv_size e of
        None \<Rightarrow> Some ([], No_source (-2))
      | Some n \<Rightarrow>
          if \<not> sv_shm_ok e then Some ([], No_source (-4))
          else if \<not> sv_mapping_ok e then Some ([Take Shm_file, Release Shm_file], No_source (-5))
          else do {
            off \<leftarrow> detect_offset (sv_memory e) (ss_offset s);
            hs \<leftarrow> detect_header_loop \<lparr>fr_offset = off, fr_size = n\<rparr> (sv_tries e) (ss_header_size s);
            let es = [Take Shm_file, Take Frame_mapping, Release Shm_file];
            if hs = 0 then Some (es, Still_searching)
            else do {
              let c = snap_config_of s \<lparr>fr_offset = off, fr_size = n\<rparr> hs;
              r \<leftarrow> snap_passes c (sv_passes e) (sv_header e) no_records;
              Some (es, case r of None \<Rightarrow> Still_searching | Some rs \<Rightarrow> Ring_source c rs)
            }
          })"

text \<open>A file is its bytes and the number of them that are read.\<close>

definition snap_from_file :: "snap_env \<Rightarrow> snap_settings \<Rightarrow> (snap_effect list \<times> snap_source) option" where
  "snap_from_file e s =
     (case sv_open e (ss_file s) of
        None \<Rightarrow> Some ([], No_source (-6))
      | Some (bytes, nread) \<Rightarrow>
          if bytes = [] \<or> \<not> sv_alloc_file e then Some ([], No_source (-6))
          else if nread \<noteq> length bytes then Some ([Take File_buffer, Release File_buffer], No_source (-7))
          else do {
            p \<leftarrow> file_parts bytes;
            Some (case p of
              None \<Rightarrow> ([Take File_buffer, Release File_buffer], No_source (-8))
            | Some parts \<Rightarrow> ([Take File_buffer], File_source parts))
          })"

section \<open>The picture\<close>

definition snap_size :: "snap_settings \<Rightarrow> nat \<times> nat" where
  "snap_size s = (if ss_low s then (640, 360) else if ss_3m s then (2304, 1296) else (1920, 1080))"

definition snap_decode :: "bool \<Rightarrow> snap_env \<Rightarrow> nat \<times> byte list \<Rightarrow> decoded option" where
  "snap_decode grid e input =
     (if grid \<and> fst input \<noteq> 4 \<or> \<not> sv_codec e (fst input) then None else sv_decode e (fst input) (snd input))"

text \<open>What \<open>frame_decode\<close> allocates and frees: the packet is freed in one branch of the build for the grid only.\<close>

definition decoder_effects :: "bool \<Rightarrow> snap_env \<Rightarrow> nat \<Rightarrow> snap_effect list" where
  "decoder_effects grid e h26x = Take Decoder_packet #
     (if grid \<and> h26x \<noteq> 4 then [Release Decoder_packet]
      else if \<not> sv_codec e h26x then []
      else [Take Decoder_context, Take Decoder_frame, Release Decoder_frame, Release Decoder_context])"

text \<open>
  What \<open>WMInit\<close> and \<open>WMRelease\<close> allocate and free, by the number of glyphs that could be read: the memory of
  each of them and, with the first one, of the bytes of a file; after an error nothing is freed.
\<close>

fun glyphs_read :: "(nat \<Rightarrow> byte) \<Rightarrow> (string \<Rightarrow> byte list option) \<Rightarrow> string list \<Rightarrow> wm_vars \<times> u32 \<times> u32 \<Rightarrow> nat" where
  "glyphs_read junk bmp [] s = 0"
| "glyphs_read junk bmp (name # names) s =
     (case load_picture junk bmp name s of Some (Inr (s', p)) \<Rightarrow> Suc (glyphs_read junk bmp names s') | _ \<Rightarrow> 0)"

definition glyph_effects :: "nat \<Rightarrow> snap_effect list" where
  "glyph_effects k =
     concat (map (\<lambda>i. if i = 0 then [Take (Glyph i), Take Glyph_source] else [Take (Glyph i)]) [0..<k]) @
     (if k = 13 then Release Glyph_source # map (\<lambda>i. Release (Glyph i)) [0..<13] else [])"

definition mark_effects :: "bool \<Rightarrow> snap_env \<Rightarrow> snap_settings \<Rightarrow> snap_effect list" where
  "mark_effects grid e s =
     (if grid \<or> \<not> ss_watermark s then []
      else case wm_path (sv_wm_root e) (ss_low s) of
        None \<Rightarrow> []
      | Some path \<Rightarrow> glyph_effects (glyphs_read (sv_junk e) (sv_bmp e)
          (map (\<lambda>i. path @ show_nat i @ ''.bmp'') [0..<13]) (wm_vars_init, 0, 0)))"

definition snap_copy :: "snap_env \<Rightarrow> snap_source \<Rightarrow> (byte list option \<times> byte list \<times> byte list \<times> byte list) option" where
  "snap_copy e src =
     (case src of Ring_source c rs \<Rightarrow> snap_parts c (sv_copies e) rs | File_source parts \<Rightarrow> Some parts | _ \<Rightarrow> None)"

text \<open>The mark; the picture is its luma plane and then its chroma plane.\<close>

definition snap_mark :: "bool \<Rightarrow> snap_env \<Rightarrow> snap_settings \<Rightarrow> byte list \<Rightarrow> (int \<times> byte list) option" where
  "snap_mark grid e s buf =
     (if grid \<or> \<not> ss_watermark s then Some (0, buf)
      else (case snap_size s of (w, h) \<Rightarrow> do {
        (code, y, c) \<leftarrow> add_watermark (sv_wm_root e) (sv_junk e) (sv_bmp e) w h (ss_time s) (sv_now e)
          (take (w * h) buf, drop (w * h) buf);
        Some (code, y @ c)
      }))"

definition snap_unmap :: "snap_settings \<Rightarrow> snap_effect list" where
  "snap_unmap s = (if ss_file s = [] then [Release Frame_mapping] else [])"

definition snap_free_file :: "snap_settings \<Rightarrow> snap_effect list" where
  "snap_free_file s = (if ss_file s = [] then [] else [Release File_buffer])"

definition snap_finish :: "bool \<Rightarrow> snap_env \<Rightarrow> snap_settings \<Rightarrow> snap_source \<Rightarrow> (snap_effect list \<times> int) option" where
  "snap_finish grid e s src =
     (case snap_size s of (w, h) \<Rightarrow>
        if \<not> sv_alloc_input e then Some (snap_free_file s @ snap_unmap s, -9)
        else if \<not> sv_alloc_picture e
        then Some ([Take Input_buffer] @ snap_free_file s @ [Release Input_buffer] @ snap_unmap s, -10)
        else do {
          parts \<leftarrow> snap_copy e src;
          let input = decoder_input parts;
          let es = [Take Input_buffer, Take Picture_buffer] @ snap_free_file s @ decoder_effects grid e (fst input) @ [Release Input_buffer];
          d \<leftarrow> frame_decode (snap_decode grid e input) w h (sv_heap e (w * h * 3 div 2));
          case d of
            Inl _ \<Rightarrow> Some (es @ [Release Picture_buffer] @ snap_unmap s, -11)
          | Inr buf \<Rightarrow> do {
              (code, buf') \<leftarrow> snap_mark grid e s buf;
              let es = es @ mark_effects grid e s;
              if code < 0 then Some (es @ [Release Picture_buffer] @ snap_unmap s, -12)
              else do {
                rows \<leftarrow> YUVtoJPG buf' w h w h;
                Some (case rows of
                  Inl _ \<Rightarrow> (es @ [Release Picture_buffer] @ snap_unmap s, -13)
                | Inr rs \<Rightarrow> (es @ [Take Jpeg_encoder, Take Jpeg_buffer, Show rs, Release Jpeg_encoder, Release Picture_buffer] @ snap_unmap s, 0))
              }
            }
        })"

section \<open>The program\<close>

datatype snap_result = Snap_exit int | Snap_searching

definition snap_run :: "bool \<Rightarrow> snap_env \<Rightarrow> snap_settings \<Rightarrow> (snap_effect list \<times> snap_result) option" where
  "snap_run grid e s = do {
     (es, src) \<leftarrow> (if ss_file s = [] then snap_from_ring e s else snap_from_file e s);
     case src of
       No_source code \<Rightarrow> Some (es, Snap_exit code)
     | Still_searching \<Rightarrow> Some (es, Snap_searching)
     | _ \<Rightarrow> do {
         (es', code) \<leftarrow> snap_finish grid e s src;
         Some (es @ es', Snap_exit code)
       }
   }"

definition snap_main :: "bool \<Rightarrow> string \<Rightarrow> (char \<times> string) list \<Rightarrow> snap_env \<Rightarrow> (snap_effect list \<times> snap_result) option" where
  "snap_main grid argv0 opts e =
     (case snap_options opts (snap_defaults grid) of
        Inl code \<Rightarrow> Some ([], Snap_exit code)
      | Inr s \<Rightarrow>
          if grid \<and> (\<not> ss_low s \<or> ss_watermark s \<or> ss_time s \<noteq> None) then Some ([], Snap_exit 1)
          else if sv_disabled e then Some ([], Snap_exit 0)
          else do {
            other \<leftarrow> proc_find (base_name argv0) (sv_pid e) (sv_cmdline e) (sv_proc e);
            if other \<noteq> -1 then Some ([], Snap_exit 0)
            else snap_run grid e (if sv_low e then s\<lparr>ss_low := True\<rparr> else s)
          })"

end
