(* ===== verification/Snap_Shows.thy ===== *)
theory Snap_Shows
  imports Snap_Program
begin

text \<open>
  What the snapshot program of \<open>Snap_Program\<close> does from its arguments to the rows of the picture: the
  time that the thumbnail script gives is read back as it was written, the picture of a file is shown
  with its time, the picture of the ring is the latest one, and a run releases what it takes, except for
  the packet of the decoder and the output of the JPEG library.
\<close>

section \<open>Reading the time\<close>

lemma digits_isdigit: "c \<in> set (digits n k) \<Longrightarrow> c_isdigit c"
  by (induction n k rule: digits.induct) (auto simp: nat_less_iff)

lemma dec_acc_digits: "0 \<le> k \<Longrightarrow> k < 10 ^ n \<Longrightarrow> int (dec_acc 0 (digits n k)) = k"
proof (induction n k rule: digits.induct)
  case (2 n k)
  then have "int (dec_acc 0 (digits n (k div 10))) = k div 10" by (simp add: pos_imp_zdiv_nonneg_iff div_less_iff_less_mult)
  then show ?case by (simp add: dec_acc_append nat_less_iff)
qed simp

lemma scan_digits:
  assumes "0 < n" "0 \<le> k" "k < 10 ^ n" "k \<le> 9999" "rest = [] \<or> \<not> c_isdigit (hd rest)"
  shows "scan_d (digits n k @ rest) = Some (k, rest)"
proof -
  let ?s = "digits n k @ rest"
  obtain c cs where c: "digits n k = c # cs" using assms(1) length_digits [of n k] by (cases "digits n k") auto
  have dig: "c_isdigit c" using digits_isdigit [of c n k] c by simp
  have tw: "takeWhile c_isdigit ?s = digits n k" "dropWhile c_isdigit ?s = rest"
    using assms(5) digits_isdigit [of _ n k] by (cases rest; simp add: takeWhile_append2 dropWhile_append2)+
  have "strtol10 ?s = (k, rest, False)"
    using strtol10_digits [of ?s c "cs @ rest"] dig c tw dec_acc_digits [OF assms(2,3)] assms(4) by (simp add: Let_def long_max_def)
  then show ?thesis using c by (simp add: scan_d_def)
qed

lemma scan_time_text:
  assumes "tm_ok t"
  shows "scan_time (time_text t) = Some t"
proof -
  have d2: "scan_d (digits 2 k @ rest) = Some (k, rest)" if "0 \<le> k \<and> k \<le> 99" "rest = [] \<or> \<not> c_isdigit (hd rest)" for k rest
    using that by (intro scan_digits) simp_all
  have d4: "scan_d (digits 4 k @ rest) = Some (k, rest)" if "0 \<le> k \<and> k \<le> 9999" "rest = [] \<or> \<not> c_isdigit (hd rest)" for k rest
    using that by (intro scan_digits) simp_all
  have sep: "\<not> c_isdigit CHR ''-''" "\<not> c_isdigit CHR '':''" "\<not> c_isdigit CHR '' ''" by (simp_all add: cstr_simps)
  have sp: "skip_space ('' '' @ digits 2 k @ rest) = digits 2 k @ rest" for k rest
  proof -
    obtain c cs where "digits 2 k = c # cs" using length_digits [of 2 k] by (cases "digits 2 k") auto
    then have "c_isdigit c" "digits 2 k = c # cs" using digits_isdigit [of c 2 k] by simp_all
    then show ?thesis using digit_not_sign [of c] by (simp add: skip_space_def)
  qed
  have lit: "scan_lit [c] (c # rest) = Some rest" for c rest by (simp add: scan_lit_def has_prefix_def)
  have b: "0 \<le> tm_mon t + 1 \<and> tm_mon t + 1 \<le> 99" "0 \<le> tm_mday t \<and> tm_mday t \<le> 99" "0 \<le> tm_hour t \<and> tm_hour t \<le> 99"
    "0 \<le> tm_min t \<and> tm_min t \<le> 99" "0 \<le> tm_sec t \<and> tm_sec t \<le> 99" "0 \<le> tm_year t + 1900 \<and> tm_year t + 1900 \<le> 9999"
    using assms by (simp_all add: tm_ok_def)
  show ?thesis
    unfolding scan_time_def time_text_def
    by (simp add: d4 [OF b(6)] d2 [OF b(1)] d2 [OF b(2)] d2 [OF b(3)] d2 [OF b(4)] d2 [OF b(5), of "[]", simplified] sep lit sp [simplified])
qed

section \<open>From the parts to the rows\<close>

definition shown_effects :: "snap_env \<Rightarrow> snap_settings \<Rightarrow> nat \<Rightarrow> byte list list \<Rightarrow> snap_effect list" where
  "shown_effects e s h26x rows = [Take Input_buffer, Take Picture_buffer] @ snap_free_file s @ decoder_effects False e h26x @
     [Release Input_buffer] @ mark_effects False e s @
     [Take Jpeg_encoder, Take Jpeg_buffer, Show rows, Release Jpeg_encoder, Release Picture_buffer] @ snap_unmap s"

lemma finish_shows:
  assumes "sv_alloc_input e" "sv_alloc_picture e" "snap_size s = (dc_width d, dc_height d)" "\<And>k. length (sv_heap e k) = k"
    "snap_copy e src = Some parts" "snap_decode False e (decoder_input parts) = Some d" "dc_linesize d 0 = dc_width d"
    "snap_mark False e s (luma_plane d @ chroma_plane d) = Some (0, Y @ C)"
    "length Y = dc_width d * dc_height d" "length C = dc_width d * (dc_height d div 2)"
  shows "snap_finish False e s src =
    Some (shown_effects e s (fst (decoder_input parts)) (map (plane_row (dc_width d) Y C) [0..<dc_height d]), 0)"
proof -
  have even: "even (dc_width d)" "even (dc_height d)" using assms(3) by (auto simp: snap_size_def split: if_splits)
  show ?thesis
    using frame_is_stored [OF even assms(4,7)] planes_are_encoded [OF even assms(9,10)] assms(1-3,5,6,8)
    by (simp add: snap_finish_def shown_effects_def Let_def)
qed

lemma glyphs_read_all:
  "load_pictures junk bmp names s pics = Some (Inr wm) \<Longrightarrow> glyphs_read junk bmp names s = length names"
  by (induction junk bmp names s pics rule: load_pictures.induct) (auto split: Option.bind_split_asm sum.split_asm)

lemma mark_effects_all:
  assumes "snap_mark False e s buf = Some (0, buf')" "ss_watermark s"
  shows "mark_effects False e s = glyph_effects 13"
proof -
  obtain w h where wh: "snap_size s = (w, h)" by (cases "snap_size s")
  then have low: "(w = 640) = ss_low s" by (auto simp: snap_size_def split: if_splits)
  obtain path wm where "wm_path (sv_wm_root e) (ss_low s) = Some path" "WMInit (sv_junk e) (sv_bmp e) path = Some (Inr wm)"
    using assms wh low by (auto simp: snap_mark_def add_watermark_def split: option.split_asm Option.bind_split_asm sum.split_asm)
  then show ?thesis using glyphs_read_all assms(2) unfolding WMInit_def by (fastforce simp: mark_effects_def)
qed

text \<open>What is held after some effects: taking a thing twice, or releasing or using one that is not held, is an error.\<close>

fun held :: "snap_effect list \<Rightarrow> snap_resource list \<Rightarrow> snap_resource list option" where
  "held [] hs = Some hs"
| "held (Take r # es) hs = (if r \<in> set hs then None else held es (r # hs))"
| "held (Release r # es) hs = (if r \<in> set hs then held es (remove1 r hs) else None)"
| "held (Show rows # es) hs = (if {Picture_buffer, Jpeg_encoder, Jpeg_buffer} \<subseteq> set hs then held es hs else None)"

lemma held_append: "held (as @ bs) hs = Option.bind (held as hs) (held bs)"
  by (induction as hs rule: held.induct) simp_all

lemma held_glyphs:
  assumes "Glyph_source \<notin> set hs" "\<And>i. Glyph i \<notin> set hs"
  shows "held (glyph_effects 13) hs = Some hs" "held (glyph_effects 0) hs = Some hs"
  by (simp_all add: glyph_effects_def assms upt_rec)

text \<open>
  C9. The thumbnail of a recording shows its time: with the arguments of the thumbnail script, a valid time
  as it is usually written, a file with one picture that is read whole, installed glyphs that are small enough, and a
  decoder that turns the file into a frame of 640 by 360 pixels whose rows of luma follow each other without a
  gap, and when snapshots are not disabled, no other one is found running and the allocations succeed, the
  program ends with 0 and gives the JPEG library the rows of the decoded frame, except that the time is
  blended in from its glyphs at its place.  Everything that was allocated on the way is freed once, but for the
  packet of the decoder and the output of the JPEG library, which are never freed.
\<close>

theorem thumbnail_shows_its_time:
  assumes "opts = [(CHR ''f'', name), (CHR ''r'', ''low''), (CHR ''w'', []), (CHR ''t'', time_text t)]"
    "name \<noteq> []" "length name < 256" "tm_ok t" "\<not> sv_disabled e"
    "proc_find (base_name argv0) (sv_pid e) (sv_cmdline e) (sv_proc e) = Some (-1)"
    "sv_open e name = Some (picture_file vps sps pps idr, length (picture_file vps sps pps idr))"
    "unit_ok Nal_sps sps" "unit_ok Nal_pps pps" "unit_ok Nal_idr idr"
    "\<And>v. vps = Some v \<Longrightarrow> unit_ok Nal_vps v \<and> ends_kind (hd sps) = Some Nal_vps"
    "sv_alloc_file e" "sv_alloc_input e" "sv_alloc_picture e" "\<And>k. length (sv_heap e k) = k"
    "sv_codec e (if vps = None then 4 else 5)" "sv_decode e (if vps = None then 4 else 5) (picture_file vps sps pps idr) = Some d"
    "dc_width d = 640" "dc_height d = 360" "dc_linesize d 0 = 640"
    "wm_path (sv_wm_root e) True = Some path" "length path < 58"
    "\<forall>file\<in>set (glyph_files path). \<exists>b. sv_bmp e file = Some b \<and> bmp_ok w h b"
    "0 < w" "w \<le> 12" "0 < h" "h \<le> 20" "even h"
  shows "\<exists>Y C. snap_main False argv0 opts e =
      Some ([Take File_buffer, Take Input_buffer, Take Picture_buffer, Release File_buffer,
         Take Decoder_packet, Take Decoder_context, Take Decoder_frame, Release Decoder_frame, Release Decoder_context,
         Release Input_buffer] @ glyph_effects 13 @ [Take Jpeg_encoder, Take Jpeg_buffer,
         Show (map (plane_row 640 Y C) [0..<360]), Release Jpeg_encoder, Release Picture_buffer], Snap_exit 0) \<and>
    (let glyphs = map (\<lambda>c. bmp_picture w h (the (sv_bmp e (glyph_files path ! glyph_of c)))) (time_text t)
     in painted 640 360 410 340 (w * 19) h (glyph_luma w glyphs) (luma_plane d) Y \<and>
        painted 640 180 410 170 (w * 19) (h div 2) (glyph_chroma w glyphs) (chroma_plane d) C)"
proof -
  let ?s = "\<lparr>ss_offset = 368, ss_header_size = 28, ss_3m = False, ss_low = True, ss_file = name,
     ss_watermark = True, ss_time = Some t, ss_debug = False\<rparr>"
  let ?parts = "(map_option nal_unit vps, nal_unit sps, nal_unit pps, nal_unit idr)"
  have opts: "snap_options opts (snap_defaults False) = Inr ?s"
    using assms(2,3) scan_time_text [OF assms(4)] by (simp add: assms(1) snap_option_def snap_defaults_def)
  obtain Y C where mark: "add_watermark (sv_wm_root e) (sv_junk e) (sv_bmp e) 640 360 (Some t) (sv_now e) (luma_plane d, chroma_plane d) = Some (0, Y, C)"
    "let left = fst (wm_place 640 360); upper = snd (wm_place 640 360);
         glyphs = map (\<lambda>c. bmp_picture w h (the (sv_bmp e (glyph_files path ! glyph_of c)))) (time_text t)
     in painted 640 360 left upper (w * 19) h (glyph_luma w glyphs) (luma_plane d) Y \<and>
        painted 640 (360 div 2) left (upper div 2) (w * 19) (h div 2) (glyph_chroma w glyphs) (chroma_plane d) C"
    using mark_painted [where wm_root = "sv_wm_root e" and W = 640 and path = path and bmp = "sv_bmp e" and w = w and h = h and
        time_data = "Some t" and now = "sv_now e" and t = t and H = 360 and Y = "luma_plane d" and C = "chroma_plane d" and junk = "sv_junk e"]
      assms(4,18,19,21-28)
    by auto
  have len: "length Y = 640 * 360" "length C = 640 * 180" using mark(2) by (simp_all add: Let_def painted_def)
  have nonempty: "picture_file vps sps pps idr \<noteq> []" by (simp add: picture_file_def nal_unit_def)
  have parts: "file_parts (picture_file vps sps pps idr) = Some (Some ?parts)"
    "decoder_input ?parts = (if vps = None then 4 else 5, picture_file vps sps pps idr)"
    using picture_file_is_passed_on [OF assms(8-10), of vps] assms(11) by blast+
  have marked: "snap_mark False e ?s (luma_plane d @ chroma_plane d) = Some (0, Y @ C)"
    using mark(1) assms(18,19) by (simp add: snap_mark_def snap_size_def)
  have "snap_finish False e ?s (File_source ?parts) =
      Some (shown_effects e ?s (fst (decoder_input ?parts)) (map (plane_row (dc_width d) Y C) [0..<dc_height d]), 0)"
    using assms(13-20) parts(2) marked len
    by (intro finish_shows [where parts = ?parts]) (simp_all add: snap_copy_def snap_decode_def snap_size_def)
  moreover have "snap_from_file e ?s = Some ([Take File_buffer], File_source ?parts)"
    using assms(7,12) nonempty parts(1) by (simp add: snap_from_file_def)
  ultimately have "snap_run False e (if sv_low e then ?s\<lparr>ss_low := True\<rparr> else ?s) =
      Some ([Take File_buffer] @ shown_effects e ?s (if vps = None then 4 else 5) (map (plane_row 640 Y C) [0..<360]), Snap_exit 0)"
    using assms(2,18,19) by (simp add: snap_run_def parts(2))
  moreover have "decoder_effects False e (if vps = None then 4 else 5) = [Take Decoder_packet, Take Decoder_context, Take Decoder_frame,
      Release Decoder_frame, Release Decoder_context]"
    using assms(16) by (simp add: decoder_effects_def)
  moreover have "mark_effects False e ?s = glyph_effects 13" using mark_effects_all [OF marked] by simp
  ultimately have "snap_main False argv0 opts e = Some ([Take File_buffer, Take Input_buffer, Take Picture_buffer, Release File_buffer,
      Take Decoder_packet, Take Decoder_context, Take Decoder_frame, Release Decoder_frame, Release Decoder_context,
      Release Input_buffer] @ glyph_effects 13 @ [Take Jpeg_encoder, Take Jpeg_buffer,
      Show (map (plane_row 640 Y C) [0..<360]), Release Jpeg_encoder, Release Picture_buffer], Snap_exit 0)"
    using assms(2,5,6) opts by (simp add: snap_main_def shown_effects_def snap_free_file_def snap_unmap_def)
  then show ?thesis using mark(2) by (auto simp: Let_def wm_place_def)
qed

text \<open>
  C11. The snapshot of the ring is its latest picture: on a camera with a known layout, without a mark, when
  snapshots are not disabled, no other one is found running, the system calls and the allocations succeed,
  the buffer, as the program first looks at it, shows whole frames from its start to the end of its data, which is not the end of the ring, and
  does not change while they are searched and copied, and the decoder turns the last parameter sets and the
  last key frame of the wanted resolution, copied without their headers and without the first six bytes of the
  sequence parameter set, into a frame of that resolution whose rows of luma follow each other without a
  gap, then the program ends with 0, the JPEG library has got exactly the rows of that frame, and everything
  that was taken is released but the packet of the decoder and the output of the JPEG library.
\<close>

theorem snapshot_shows_latest_picture:
  fixes s0 :: snap_settings and e :: snap_env
  defines "s \<equiv> if sv_low e then s0\<lparr>ss_low := True\<rparr> else s0"
  defines "c \<equiv> snap_config_of s \<lparr>fr_offset = ss_offset s, fr_size = the (sv_size e)\<rparr> (ss_header_size s)"
  assumes "snap_options opts (snap_defaults False) = Inr s0" "ss_file s0 = []" "\<not> ss_watermark s0" "ss_offset s0 \<noteq> 0" "ss_header_size s0 \<noteq> 0"
    "\<not> sv_disabled e" "proc_find (base_name argv0) (sv_pid e) (sv_cmdline e) (sv_proc e) = Some (-1)"
    "sv_size e \<noteq> None" "sv_shm_ok e" "sv_mapping_ok e" "config_ok c" "sv_passes e = (n, v) # vs" "view_shows c t fs v"
    "gv_start v = int (t mod nat (fr_span (gc_ring c)))" "(t + length (raw_bytes fs)) mod nat (fr_span (gc_ring c)) \<noteq> 0" "length fs \<le> n"
    "latest (snap_kind 1 c) fs = Some sps" "latest (snap_kind 2 c) fs = Some pps" "latest (snap_kind 4 c) fs = Some idr"
    "6 \<le> length (snd sps)" "sv_copies e = gv_frames v" "sv_alloc_input e" "sv_alloc_picture e" "\<And>k. length (sv_heap e k) = k"
    "(case latest (snap_kind 3 c) fs of
        None \<Rightarrow> sv_codec e 4 \<and> sv_decode e 4 (drop 6 (snd sps) @ snd pps @ snd idr) = Some d
      | Some vps \<Rightarrow> sv_codec e 5 \<and> sv_decode e 5 (snd vps @ drop 6 (snd sps) @ snd pps @ snd idr) = Some d)"
    "snap_size s = (dc_width d, dc_height d)" "dc_linesize d 0 = dc_width d"
  shows "snap_main False argv0 opts e =
    Some ([Take Shm_file, Take Frame_mapping, Release Shm_file, Take Input_buffer, Take Picture_buffer,
      Take Decoder_packet, Take Decoder_context, Take Decoder_frame, Release Decoder_frame, Release Decoder_context,
      Release Input_buffer, Take Jpeg_encoder, Take Jpeg_buffer,
      Show (map (plane_row (dc_width d) (luma_plane d) (chroma_plane d)) [0..<dc_height d]),
      Release Jpeg_encoder, Release Picture_buffer, Release Frame_mapping], Snap_exit 0)"
proof -
  have s: "ss_file s = []" "\<not> ss_watermark s" "ss_offset s \<noteq> 0" "ss_header_size s \<noteq> 0" using assms(4-7) by (simp_all add: s_def)
  have "\<exists>rs. snap_passes c ((n, v) # vs) (sv_header e) no_records = Some (Some rs) \<and>
    map_option decoder_input (snap_parts c (gv_frames v) rs) =
      Some (case latest (snap_kind 3 c) fs of
          None \<Rightarrow> (4, drop 6 (snd sps) @ snd pps @ snd idr)
        | Some vps \<Rightarrow> (5, snd vps @ drop 6 (snd sps) @ snd pps @ snd idr))"
    by (rule latest_frames_are_taken) (rule assms)+
  then obtain rs parts where found: "snap_passes c (sv_passes e) (sv_header e) no_records = Some (Some rs)"
    "snap_parts c (sv_copies e) rs = Some parts" "snap_decode False e (decoder_input parts) = Some d" "sv_codec e (fst (decoder_input parts))"
    using assms(14,23,27) by (auto simp: snap_decode_def split: option.splits)
  let ?rows = "map (plane_row (dc_width d) (luma_plane d) (chroma_plane d)) [0..<dc_height d]"
  have "detect_header_loop r ms (ss_header_size s) = Some (ss_header_size s)" for r ms using s(4) by (cases ms) simp_all
  then have "snap_from_ring e s = Some ([Take Shm_file, Take Frame_mapping, Release Shm_file], Ring_source c rs)"
    using assms(10-12) found(1) s(3,4) by (auto simp: snap_from_ring_def detect_offset_def c_def)
  moreover have "snap_finish False e s (Ring_source c rs) = Some (shown_effects e s (fst (decoder_input parts)) ?rows, 0)"
    using found(1-3) s(2) by (intro finish_shows [where parts = parts] assms(24,25,26,28,29)) (simp_all add: snap_copy_def snap_mark_def)
  ultimately have "snap_run False e s = Some ([Take Shm_file, Take Frame_mapping, Release Shm_file] @
      shown_effects e s (fst (decoder_input parts)) ?rows, Snap_exit 0)"
    using s(1) by (simp add: snap_run_def)
  then show ?thesis
    using assms(3,8,9) s(1,2) found(4) unfolding s_def [symmetric] snap_main_def
    by (simp add: s_def [symmetric] shown_effects_def decoder_effects_def mark_effects_def snap_free_file_def snap_unmap_def)
qed

section \<open>Every run\<close>

text \<open>
  At the end only the packet of the decoder and the output of the JPEG library are left; a picture leaves both,
  and is shown with exit code 0 only.
\<close>

definition rest_ok :: "snap_effect list \<Rightarrow> int \<Rightarrow> snap_resource list option \<Rightarrow> bool" where
  "rest_ok es code rest \<longleftrightarrow>
     (case rest of
        None \<Rightarrow> False
      | Some ls \<Rightarrow> set ls \<subseteq> {Decoder_packet, Jpeg_buffer} \<and>
          ((\<exists>rows. Show rows \<in> set es) \<longrightarrow> code = 0 \<and> ls = [Jpeg_buffer, Decoder_packet]))"

definition clean :: "snap_effect list \<Rightarrow> int \<Rightarrow> bool" where
  "clean es code \<longleftrightarrow> rest_ok es code (held es [])"

text \<open>What is relied on: a sane buffer, glyphs that are installed or not at all, a valid time, command lines with a word.\<close>

definition snap_ring_ok :: "snap_env \<Rightarrow> bool" where
  "snap_ring_ok e \<longleftrightarrow> (\<forall>n. sv_size e = Some n \<longrightarrow> 468 \<le> n \<and> n < 2 ^ 30 \<and>
     (\<forall>m\<in>set (sv_memory e # sv_tries e). int (length m) = n) \<and> (\<forall>k. int (length (sv_copies e k)) = n) \<and>
     (\<forall>(k, v)\<in>set (sv_passes e). (\<forall>j. int (length (gv_headers v j)) = n) \<and> 0 \<le> gv_start v \<and> gv_start v \<le> n - 368))"

definition snap_mark_ok :: "snap_env \<Rightarrow> snap_settings \<Rightarrow> bool" where
  "snap_mark_ok e s \<longleftrightarrow> tm_ok (case ss_time s of Some t \<Rightarrow> t | None \<Rightarrow> sv_now e) \<and>
     (\<exists>path. wm_path (sv_wm_root e) (ss_low s) = Some path \<and> length path < 58 \<and>
       (sv_bmp e (hd (glyph_files path)) = None \<or>
        (\<exists>w h. (\<forall>f\<in>set (glyph_files path). \<exists>b. sv_bmp e f = Some b \<and> bmp_ok w h b) \<and> 0 < w \<and> 0 < h \<and> even h \<and>
           (if ss_low s then w \<le> 12 \<and> h \<le> 20 else w \<le> 24 \<and> h \<le> 40))))"

definition snap_env_ok :: "snap_env \<Rightarrow> snap_settings \<Rightarrow> bool" where
  "snap_env_ok e s \<longleftrightarrow> (\<forall>k. length (sv_heap e k) = k) \<and> (ss_file s = [] \<longrightarrow> snap_ring_ok e) \<and> (ss_watermark s \<longrightarrow> snap_mark_ok e s) \<and>
     (\<forall>p text. sv_cmdline e p = Some text \<longrightarrow> text \<noteq> [] \<longrightarrow> first_token (take 511 (first_line text)) \<noteq> None)"

lemma snap_sizes: "snap_size s = (w, h) \<Longrightarrow> even w \<and> even h \<and> 640 \<le> w \<and> w < 2 ^ 31 \<and> 40 \<le> h \<and> h < 2 ^ 31 \<and> (w = 640 \<longleftrightarrow> ss_low s)"
  by (auto simp: snap_size_def split: if_splits)

lemma snap_mark_total:
  assumes "snap_size s = (w, h)" "ss_watermark s \<Longrightarrow> snap_mark_ok e s" "length buf = w * h * 3 div 2"
  shows "\<exists>code buf'. snap_mark grid e s buf = Some (code, buf') \<and> length buf' = w * h * 3 div 2 \<and>
    mark_effects grid e s \<in> {[], glyph_effects 13}"
proof (cases "grid \<or> \<not> ss_watermark s")
  case True
  then show ?thesis using assms(3) by (auto simp: snap_mark_def mark_effects_def)
next
  case False
  note z = snap_sizes [OF assms(1)]
  have len: "length (take (w * h) buf) = w * h" "length (drop (w * h) buf) = w * (h div 2)"
    using plane_sizes [of h w] z assms(3) by simp_all
  obtain path where path: "wm_path (sv_wm_root e) (w = 640) = Some path" "length path < 58"
    and t: "tm_ok (case ss_time s of Some t \<Rightarrow> t | None \<Rightarrow> sv_now e)"
    and glyphs: "sv_bmp e (hd (glyph_files path)) = None \<or>
        (\<exists>gw gh. (\<forall>f\<in>set (glyph_files path). \<exists>b. sv_bmp e f = Some b \<and> bmp_ok gw gh b) \<and> 0 < gw \<and> 0 < gh \<and> even gh \<and>
           (if w = 640 then gw \<le> 12 \<and> gh \<le> 20 else gw \<le> 24 \<and> gh \<le> 40))"
    using assms(2) False z by (auto simp: snap_mark_ok_def)
  show ?thesis
    using glyphs
  proof
    assume none: "sv_bmp e (hd (glyph_files path)) = None"
    have "length (path @ show_nat 0 @ ''.bmp'') < 64" using glyph_file_name [of 0 path] path(2) by simp
    moreover have "hd (glyph_files path) = path @ show_nat 0 @ ''.bmp''" "[0..<13] = 0 # [1..<13]"
      by (simp_all add: glyph_files_def upt_rec)
    ultimately have "WMInit (sv_junk e) (sv_bmp e) path = Some (Inl (-1))" "mark_effects grid e s = glyph_effects 0"
      using none path(1) False z by (simp_all add: WMInit_def load_picture_def mark_effects_def)
    moreover have "glyph_effects 0 = []" by (simp add: glyph_effects_def)
    ultimately show ?thesis using path(1) len False assms(1,3) by (simp add: snap_mark_def add_watermark_def)
  next
    assume "\<exists>gw gh. (\<forall>f\<in>set (glyph_files path). \<exists>b. sv_bmp e f = Some b \<and> bmp_ok gw gh b) \<and> 0 < gw \<and> 0 < gh \<and> even gh \<and>
           (if w = 640 then gw \<le> 12 \<and> gh \<le> 20 else gw \<le> 24 \<and> gh \<le> 40)"
    then obtain gw gh where g: "\<forall>f\<in>set (glyph_files path). \<exists>b. sv_bmp e f = Some b \<and> bmp_ok gw gh b" "0 < gw" "0 < gh" "even gh"
      "if w = 640 then gw \<le> 12 \<and> gh \<le> 20 else gw \<le> 24 \<and> gh \<le> 40" by blast
    obtain Y C where mark: "add_watermark (sv_wm_root e) (sv_junk e) (sv_bmp e) w h (ss_time s) (sv_now e) (take (w * h) buf, drop (w * h) buf) =
      Some (0, Y, C)" "length Y = w * h" "length C = w * (h div 2)"
      using mark_painted [OF path g(1) refl t g(2-5) _ _ _ _ _ len, of "sv_junk e"] z by (auto simp: Let_def painted_def)
    then have "snap_mark False e s buf = Some (0, Y @ C)" using False assms(1) by (simp add: snap_mark_def)
    then show ?thesis using mark_effects_all mark(2,3) False plane_sizes [of h w] z by auto
  qed
qed

lemma no_show_in_glyphs: "Show rows \<notin> set (glyph_effects k)"
  by (auto simp: glyph_effects_def)

lemma snap_finish_clean:
  assumes "snap_env_ok e s" "\<exists>parts. snap_copy e src = Some parts" "hs = (if ss_file s = [] then [Frame_mapping] else [File_buffer])"
  shows "\<exists>es code. snap_finish grid e s src = Some (es, code) \<and> rest_ok es code (held es hs)"
proof -
  obtain w h where wh: "snap_size s = (w, h)" by (cases "snap_size s")
  note z = snap_sizes [OF wh]
  obtain parts where parts: "snap_copy e src = Some parts" using assms(2) by blast
  let ?d = "snap_decode grid e (decoder_input parts)" and ?heap = "sv_heap e (w * h * 3 div 2)"
  have heap: "length ?heap = w * h * 3 div 2" using assms(1) by (simp add: snap_env_ok_def)
  obtain r where r: "frame_decode ?d w h ?heap = Some r" "\<forall>buf. r = Inr buf \<longrightarrow> length buf = w * h * 3 div 2 \<and> ?d \<noteq> None"
  proof (cases "frame_decode ?d w h ?heap = Some (Inl (-2))")
    case False
    then obtain d where d: "?d = Some d" "dc_width d \<le> w" "dc_height d \<le> h" by (auto simp: frame_decode_def split: option.splits if_splits)
    then show ?thesis using frame_decode_bytes [OF d(2,3), of ?heap] heap that by auto
  qed (use that in auto)
  show ?thesis
  proof (cases "sv_alloc_input e \<and> sv_alloc_picture e")
    case False
    then show ?thesis using wh assms(3) by (auto simp: snap_finish_def snap_free_file_def snap_unmap_def rest_ok_def)
  next
    case alloc: True
    show ?thesis
    proof (cases r)
      case (Inl x)
      then show ?thesis using wh parts r(1) assms(3) alloc
        by (simp add: snap_finish_def snap_free_file_def snap_unmap_def decoder_effects_def Let_def rest_ok_def)
    next
      case (Inr buf)
      then have buf: "length buf = w * h * 3 div 2" "?d \<noteq> None" using r(2) by simp_all
      have dec: "decoder_effects grid e (fst (decoder_input parts)) = [Take Decoder_packet, Take Decoder_context, Take Decoder_frame,
          Release Decoder_frame, Release Decoder_context]"
        using buf(2) by (auto simp: decoder_effects_def snap_decode_def split: if_splits)
      obtain code buf' where m: "snap_mark grid e s buf = Some (code, buf')" "length buf' = w * h * 3 div 2"
        "mark_effects grid e s \<in> {[], glyph_effects 13}"
        using snap_mark_total [OF wh, of e buf grid] assms(1) buf(1) unfolding snap_env_ok_def by blast
      then have marks: "held (mark_effects grid e s) ls = Some ls" if "Glyph_source \<notin> set ls" "\<And>i. Glyph i \<notin> set ls" for ls
        using held_glyphs(1) [OF that] by auto
      have quiet: "Show rows \<notin> set (mark_effects grid e s)" for rows using m(3) no_show_in_glyphs by auto
      have "\<exists>rows. YUVtoJPG (take (w * h) buf' @ drop (w * h) buf') w h w h = Some (Inr rows)"
        using planes_are_encoded [of w h "take (w * h) buf'" "drop (w * h) buf'"] m(2) plane_sizes [of h w] z by simp
      then obtain rows where "YUVtoJPG buf' w h w h = Some (Inr rows)" by auto
      then show ?thesis using wh parts r(1) m(1) Inr assms(3) alloc quiet
        by (auto simp: snap_finish_def snap_free_file_def snap_unmap_def dec Let_def rest_ok_def held_append marks)
    qed
  qed
qed

definition snap_layout_ok :: "snap_settings \<Rightarrow> bool" where
  "snap_layout_ok s \<longleftrightarrow> (ss_offset s, ss_header_size s) \<in> {(300, 22), (368, 24), (368, 28), (300, 26), (0, 0)}"

lemma snap_option_change:
  "snap_option c arg s = Inr s' \<Longrightarrow> (ss_offset s', ss_header_size s') = (ss_offset s, ss_header_size s) \<or>
     (\<exists>big. find_ieq snap_models arg = Some (ss_offset s', ss_header_size s', big))"
  unfolding snap_option_def by (auto split: if_splits option.splits)

lemma snap_model_layout: "find_ieq snap_models arg = Some (off, hs, big) \<Longrightarrow> (off, hs) \<in> {(300, 22), (368, 24), (368, 28), (300, 26), (0, 0)}"
  by (drule find_ieq_in) (auto simp: snap_models_def)

lemma snap_option_layout: "snap_option c arg s = Inr s' \<Longrightarrow> snap_layout_ok s \<Longrightarrow> snap_layout_ok s'"
  using snap_option_change [of c arg s s'] snap_model_layout unfolding snap_layout_ok_def by metis

lemma snap_options_layout: "snap_options opts s = Inr s' \<Longrightarrow> snap_layout_ok s \<Longrightarrow> snap_layout_ok s'"
  by (induction opts s rule: snap_options.induct) (auto split: sum.splits dest: snap_option_layout)

lemma proc_scan_total:
  "\<forall>p text. cmdline p = Some text \<longrightarrow> text \<noteq> [] \<longrightarrow> first_token (take 511 (first_line text)) \<noteq> None \<Longrightarrow>
    \<exists>r. proc_scan name pid cmdline ds = Some r"
proof (induction ds)
  case (Cons d ds)
  obtain lpid rest b where d: "strtol10 d = (lpid, rest, b)" by (metis prod_cases3)
  obtain r where "proc_scan name pid cmdline ds = Some r" using Cons by blast
  moreover have "\<exists>first. first_token (take 511 (first_line line)) = Some first" if "cmdline lpid = Some line" "line \<noteq> []" for line
    using Cons.prems that by blast
  ultimately show ?case using d by (cases "cmdline lpid") force+
qed simp

lemma snap_ring_total:
  assumes "snap_ring_ok e" "snap_layout_ok s"
  shows "\<exists>es src. snap_from_ring e s = Some (es, src) \<and>
    (case src of
       No_source code \<Rightarrow> held es [] = Some [] \<and> code \<noteq> 0 \<and> (\<forall>rows. Show rows \<notin> set es)
     | File_source parts \<Rightarrow> False
     | _ \<Rightarrow> held es [] = Some [Frame_mapping] \<and> (\<forall>rows. Show rows \<notin> set es) \<and> (src \<noteq> Still_searching \<longrightarrow> (\<exists>parts. snap_copy e src = Some parts)))"
proof (cases "sv_size e = None \<or> \<not> sv_shm_ok e \<or> \<not> sv_mapping_ok e")
  case True
  then show ?thesis by (auto simp: snap_from_ring_def split: option.split)
next
  case False
  then obtain n where n: "sv_size e = Some n" "sv_shm_ok e" "sv_mapping_ok e" by auto
  have mem: "468 \<le> n" "n < 2 ^ 30" "int (length (sv_memory e)) = n" "\<forall>m\<in>set (sv_tries e). int (length m) = n"
    "\<forall>k. int (length (sv_copies e k)) = n"
    "\<forall>(k, v)\<in>set (sv_passes e). (\<forall>j. int (length (gv_headers v j)) = n) \<and> 0 \<le> gv_start v \<and> gv_start v \<le> n - 368"
    using assms(1) n(1) by (simp_all add: snap_ring_ok_def)
  obtain off where off: "detect_offset (sv_memory e) (ss_offset s) = Some off" "off = 300 \<or> off = 368"
    using assms(2) mem_read_some [of 300 4 "sv_memory e"] mem by (auto simp: snap_layout_ok_def detect_offset_def int_at_def)
  let ?r = "\<lparr>fr_offset = off, fr_size = n\<rparr>"
  have "\<forall>m\<in>set (sv_tries e). ring_ok ?r m" using mem off(2) by (auto simp: ring_ok_def)
  then obtain hs where hs: "detect_header_loop ?r (sv_tries e) (ss_header_size s) = Some hs" "hs = 0 \<or> 4 \<le> hs \<and> hs \<le> 40"
    using detect_loop_range [of "sv_tries e" ?r "ss_header_size s"] assms(2) by (auto simp: snap_layout_ok_def)
  show ?thesis
  proof (cases "hs = 0")
    case True
    then show ?thesis using n off(1) hs(1) by (simp add: snap_from_ring_def)
  next
    case False
    let ?c = "snap_config_of s ?r hs"
    have c: "config_safe ?c" using False hs(2) off(2) mem by (auto simp: config_safe_def snap_config_of_def)
    have "\<forall>(k, v)\<in>set (sv_passes e). snap_view_ok ?c v"
    proof clarify
      fix k v assume "(k, v) \<in> set (sv_passes e)"
      then have "\<forall>j. int (length (gv_headers v j)) = n" "0 \<le> gv_start v" "gv_start v \<le> n - 368" using mem(6) by blast+
      moreover from this have "length (gv_headers v j) = nat n" for j by (metis nat_int)
      ultimately show "snap_view_ok ?c v" using off(2) by (auto simp: snap_view_ok_def mapped_def in_ring_def snap_config_of_def)
    qed
    then obtain r where r: "snap_passes ?c (sv_passes e) (sv_header e) no_records = Some r" "\<forall>rs. r = Some rs \<longrightarrow> records_ok ?c rs \<and> snap_complete rs"
      using safe_snap_passes [OF c _ no_records_ok] by blast
    have copies: "mapped ?c (sv_copies e k)" for k using mem(5) by (auto simp: mapped_def snap_config_of_def)
    have "\<exists>parts. snap_parts ?c (sv_copies e) rs = Some parts" if "r = Some rs" for rs
      using snap_parts_some [where mems = "sv_copies e", OF c copies, of rs] r(2) that by blast
    then show ?thesis using n off(1) hs(1) False r(1) by (cases r) (auto simp: snap_from_ring_def snap_copy_def)
  qed
qed

lemma snap_file_total:
  "\<exists>es src. snap_from_file e s = Some (es, src) \<and>
    (case src of
       No_source code \<Rightarrow> held es [] = Some [] \<and> code \<noteq> 0 \<and> (\<forall>rows. Show rows \<notin> set es)
     | File_source parts \<Rightarrow> held es [] = Some [File_buffer] \<and> (\<forall>rows. Show rows \<notin> set es)
     | _ \<Rightarrow> False)"
proof (cases "sv_open e (ss_file s)")
  case (Some x)
  obtain bytes k where x: "x = (bytes, k)" by (cases x)
  obtain r where "file_parts bytes = Some r" using file_parts_stay_inside by blast
  then show ?thesis using Some x by (cases r) (simp_all add: snap_from_file_def)
qed (simp add: snap_from_file_def)

text \<open>What has been done before the picture does not matter.\<close>

lemma rest_ok_after:
  "held es [] = Some hs \<Longrightarrow> \<forall>rows. Show rows \<notin> set es \<Longrightarrow> rest_ok es' code (held es' hs) \<Longrightarrow> clean (es @ es') code"
  by (auto simp: clean_def rest_ok_def held_append split: option.splits)

lemma clean_nothing_left: "held es [] = Some [] \<Longrightarrow> \<forall>rows. Show rows \<notin> set es \<Longrightarrow> clean es code"
  by (simp add: clean_def rest_ok_def)

text \<open>
  C12. A run of the snapshot program is clean when its surroundings are sane: the control words of the ring lie
  in it, the glyphs are all installed and small enough or the first one is missing and the path of the
  glyphs is short, the time of the mark is a valid one, and the command line of every process that has one
  begins with a word.  Then, whatever the arguments, the contents of the ring or of the file, the decoded
  frame, and the failures of the system calls and of the allocations of \<open>main\<close>, the program reads and
  writes only inside its buffers; it ends with everything that was taken released exactly once, but for
  the packet of the decoder and the output of the JPEG library, a shown picture leaves both of them behind
  and comes with exit code 0, or it still searches the ring with only the mapping held.
\<close>

theorem snapshot_runs_are_clean:
  assumes "\<And>s. snap_options opts (snap_defaults grid) = Inr s \<Longrightarrow> snap_env_ok e (if sv_low e then s\<lparr>ss_low := True\<rparr> else s)"
  shows "\<exists>es res. snap_main grid argv0 opts e = Some (es, res) \<and>
    (case res of Snap_exit code \<Rightarrow> clean es code | Snap_searching \<Rightarrow> held es [] = Some [Frame_mapping])"
proof (cases "snap_options opts (snap_defaults grid)")
  case (Inl code)
  then show ?thesis by (simp add: snap_main_def clean_nothing_left)
next
  case (Inr s0)
  let ?s = "if sv_low e then s0\<lparr>ss_low := True\<rparr> else s0"
  have env: "snap_env_ok e ?s" by (rule assms [OF Inr])
  have "snap_layout_ok s0" using snap_options_layout [OF Inr] by (simp add: snap_layout_ok_def snap_defaults_def)
  then have layout: "snap_layout_ok ?s" by (simp add: snap_layout_ok_def)
  obtain other where other: "proc_find (base_name argv0) (sv_pid e) (sv_cmdline e) (sv_proc e) = Some other"
  proof -
    have "\<exists>r. proc_scan (base_name argv0) (sv_pid e) (sv_cmdline e) ds = Some r" for ds
      using env unfolding snap_env_ok_def by (intro proc_scan_total) blast
    then show ?thesis using that by (cases "sv_proc e") (auto simp: proc_find_def)
  qed
  have "\<exists>es res. snap_run grid e ?s = Some (es, res) \<and>
    (case res of Snap_exit code \<Rightarrow> clean es code | Snap_searching \<Rightarrow> held es [] = Some [Frame_mapping])"
  proof (cases "ss_file ?s = []")
    case True
    then obtain es src where src: "snap_from_ring e ?s = Some (es, src)" and k: "case src of
       No_source code \<Rightarrow> held es [] = Some [] \<and> code \<noteq> 0 \<and> (\<forall>rows. Show rows \<notin> set es)
     | File_source parts \<Rightarrow> False
     | _ \<Rightarrow> held es [] = Some [Frame_mapping] \<and> (\<forall>rows. Show rows \<notin> set es) \<and> (src \<noteq> Still_searching \<longrightarrow> (\<exists>parts. snap_copy e src = Some parts))"
      using snap_ring_total [OF _ layout] env unfolding snap_env_ok_def by blast
    show ?thesis
    proof (cases src)
      case (Ring_source c rs)
      obtain es' code where "snap_finish grid e ?s src = Some (es', code)" "rest_ok es' code (held es' [Frame_mapping])"
        using snap_finish_clean [OF env, of src "[Frame_mapping]" grid] k Ring_source True by auto
      then show ?thesis using src k Ring_source True rest_ok_after by (auto simp: snap_run_def)
    qed (use src k True in \<open>simp_all add: snap_run_def clean_nothing_left\<close>)
  next
    case False
    obtain es src where src: "snap_from_file e ?s = Some (es, src)" and k: "case src of
       No_source code \<Rightarrow> held es [] = Some [] \<and> code \<noteq> 0 \<and> (\<forall>rows. Show rows \<notin> set es)
     | File_source parts \<Rightarrow> held es [] = Some [File_buffer] \<and> (\<forall>rows. Show rows \<notin> set es)
     | _ \<Rightarrow> False"
      using snap_file_total by blast
    show ?thesis
    proof (cases src)
      case (File_source parts)
      then have copy: "\<exists>p. snap_copy e src = Some p" by (cases parts) (simp add: snap_copy_def)
      have "[File_buffer] = (if ss_file ?s = [] then [Frame_mapping] else [File_buffer])" using False by simp
      then obtain es' code where "snap_finish grid e ?s src = Some (es', code)" "rest_ok es' code (held es' [File_buffer])"
        using snap_finish_clean [OF env copy] by blast
      then show ?thesis using src k File_source False rest_ok_after by (auto simp: snap_run_def)
    qed (use src k False in \<open>simp_all add: snap_run_def clean_nothing_left\<close>)
  qed
  then show ?thesis using Inr other clean_nothing_left by (simp add: snap_main_def)
qed

section \<open>Samples\<close>

definition black_frame :: "nat \<Rightarrow> nat \<Rightarrow> decoded" where
  "black_frame w h = \<lparr>dc_width = w, dc_height = h, dc_data = \<lambda>_ _. 0, dc_linesize = \<lambda>_. w\<rparr>"

definition ring_memory :: "byte list" where
  "ring_memory = replicate 368 0 @ raw_bytes snap_frames @ replicate 107 0"

definition ring_view :: grab_view where
  "ring_view = \<lparr>gv_start = 0, gv_used = 93, gv_finish = 93, gv_headers = \<lambda>_. ring_memory, gv_frames = \<lambda>_. ring_memory\<rparr>"

definition ring_config :: grab_config where
  "ring_config = snap_config_of (snap_defaults False) \<lparr>fr_offset = 368, fr_size = 568\<rparr> 28"

definition sample_env :: snap_env where
  "sample_env = \<lparr>sv_disabled = False, sv_low = False, sv_pid = 7, sv_cmdline = \<lambda>p. if p = 1 then Some ''init'' else None,
     sv_proc = Some [''.'', ''1'', ''self''], sv_size = Some 568, sv_shm_ok = True, sv_mapping_ok = True,
     sv_memory = ring_memory, sv_tries = [], sv_header = raw_header snap_config (snap_frame 2 []), sv_passes = [(3, ring_view)],
     sv_copies = gv_frames ring_view, sv_open = \<lambda>_. Some (picture_file None [7] [8] [5, 1], 16), sv_alloc_file = True,
     sv_alloc_input = True, sv_alloc_picture = True, sv_heap = \<lambda>k. replicate k 0, sv_codec = \<lambda>_. True,
     sv_decode = \<lambda>codec input. Some (if input = picture_file None [7] [8] [5, 1] then black_frame 640 360 else black_frame 1920 1080),
     sv_wm_root = None, sv_junk = \<lambda>_. 0, sv_bmp = \<lambda>_. Some small_bmp, sv_now = noon\<rparr>"

lemma sample_proc: "proc_find (base_name ''/bin/imggrabber'') 7 (\<lambda>p. if p = 1 then Some ''init'' else None) (Some [''.'', ''1'', ''self'']) = Some (-1)"
  by code_simp

lemma ring_config_fields: "gc_header_size ring_config = 28" "gc_ring ring_config = \<lparr>fr_offset = 368, fr_size = 568\<rparr>"
  "gc_resolution ring_config = Res_high"
  by (simp_all add: ring_config_def snap_config_of_def snap_defaults_def)

lemma ring_headers: "raw_header ring_config f = raw_header snap_config f"
  by (simp add: raw_header_def ring_config_fields) (simp add: snap_config_def demo_config_def)

lemma ring_view_shows: "view_shows ring_config 0 snap_frames ring_view"
proof -
  have len: "length (raw_bytes snap_frames) = 93" by (simp add: snap_frames_def snap_frame_length)
  have "shows_from (gc_ring ring_config) ring_memory 0 (raw_bytes snap_frames)"
    unfolding ring_memory_def by (rule shows_from_place [OF refl]) (simp_all add: len ring_config_fields)
  moreover have "length ring_memory = 568" by (simp add: ring_memory_def len)
  moreover have "frame_ok ring_config f" if "f \<in> set snap_frames" for f
    using that snap_frame_ok [of "snd f"]
    by (auto simp: snap_frames_def frame_ok_def ring_headers ring_config_fields snap_frame_length)
  ultimately show ?thesis unfolding view_shows_def Let_def list_all_iff
    by (simp add: ring_view_def data_end_def len ring_config_fields)
qed

lemma ring_kinds: "snap_kind k ring_config f \<longleftrightarrow> snap_kind k snap_config f"
  by (simp add: snap_kind_def snap_selects_def ring_headers ring_config_fields) (simp add: snap_config_def)

lemma snapshot_shows_latest_picture_witness:
  "snap_main False ''/bin/imggrabber'' [] sample_env =
    Some ([Take Shm_file, Take Frame_mapping, Release Shm_file, Take Input_buffer, Take Picture_buffer,
      Take Decoder_packet, Take Decoder_context, Take Decoder_frame, Release Decoder_frame, Release Decoder_context,
      Release Input_buffer, Take Jpeg_encoder, Take Jpeg_buffer,
      Show (map (plane_row 1920 (luma_plane (black_frame 1920 1080)) (chroma_plane (black_frame 1920 1080))) [0..<1080]),
      Release Jpeg_encoder, Release Picture_buffer, Release Frame_mapping], Snap_exit 0)"
proof -
  have c: "snap_config_of (if sv_low sample_env then snap_defaults False\<lparr>ss_low := True\<rparr> else snap_defaults False)
      \<lparr>fr_offset = ss_offset (if sv_low sample_env then snap_defaults False\<lparr>ss_low := True\<rparr> else snap_defaults False), fr_size = the (sv_size sample_env)\<rparr>
      (ss_header_size (if sv_low sample_env then snap_defaults False\<lparr>ss_low := True\<rparr> else snap_defaults False)) = ring_config"
    by (simp add: ring_config_def sample_env_def snap_defaults_def)
  have ok: "config_ok ring_config" by (simp add: config_ok_def ring_config_fields known_header_size_def)
  have other: "[7, 8, 9] \<noteq> picture_file None [7] [8] [5, 1]" by (simp add: picture_file_def nal_unit_def)
  show ?thesis
    using snapshot_shows_latest_picture [of "[]" "snap_defaults False" sample_env "''/bin/imggrabber''" 3 ring_view "[]" 0 snap_frames
        "snap_frame 2 [1, 2, 3, 4, 5, 6, 7]" "snap_frame 4 [8]" "snap_frame 1 [9]" "black_frame 1920 1080", unfolded c]
      ring_view_shows ok sample_proc other
    by (simp add: ring_kinds snap_frames_def snap_kinds snap_frame_length ring_config_fields)
       (simp add: sample_env_def snap_defaults_def ring_view_def snap_size_def black_frame_def)
qed

lemma thumbnail_shows_its_time_witness:
  "\<exists>Y C. snap_main False ''/bin/imggrabber'' [(CHR ''f'', ''clip.h26x''), (CHR ''r'', ''low''), (CHR ''w'', []), (CHR ''t'', ''2024-02-29 12:00:05'')] sample_env =
      Some ([Take File_buffer, Take Input_buffer, Take Picture_buffer, Release File_buffer,
         Take Decoder_packet, Take Decoder_context, Take Decoder_frame, Release Decoder_frame, Release Decoder_context,
         Release Input_buffer] @ glyph_effects 13 @ [Take Jpeg_encoder, Take Jpeg_buffer,
         Show (map (plane_row 640 Y C) [0..<360]), Release Jpeg_encoder, Release Picture_buffer], Snap_exit 0) \<and>
     painted 640 360 410 340 19 2 (glyph_luma 1 (replicate 19 (bmp_picture 1 2 small_bmp))) (luma_plane (black_frame 640 360)) Y"
proof -
  have same: "map (\<lambda>c. bmp_picture 1 2 small_bmp) (time_text noon) = replicate 19 (bmp_picture 1 2 small_bmp)"
    using length_time_text [of noon] by (simp add: map_replicate_const)
  have "tm_ok noon" by (simp add: tm_ok_def noon_def)
  moreover have "unit_ok Nal_sps [7]" "unit_ok Nal_pps [8]" by (simp_all add: unit_ok_def begins_kind_def quiet_bytes_def)
  moreover have "unit_ok Nal_idr [5, 1]" by (simp add: unit_ok_def begins_kind_def quiet_bytes_def)
  moreover have "length (picture_file None [7] [8] [5, 1]) = 16" by (simp add: picture_file_def)
  ultimately show ?thesis
    using thumbnail_shows_its_time [of _ "''clip.h26x''" noon sample_env "''/bin/imggrabber''" None "[7]" "[8]" "[5, 1]" "black_frame 640 360"
        "''/tmp/sd/yi-hack/etc/wm_res/low/wm_540p_''" 1 2, OF refl]
      sample_proc small_bmp_ok [simplified]
    by (simp add: sample_env_def black_frame_def wm_path_def Let_def noon_text [symmetric] same [simplified]) blast
qed

text \<open>A file whose picture cannot be decoded, since the decoder is not there: the packet is left.\<close>

lemma undecoded_run:
  "snap_main False ''/bin/imggrabber'' [(CHR ''w'', []), (CHR ''f'', ''clip.h26x''), (CHR ''r'', ''low'')] (sample_env\<lparr>sv_codec := \<lambda>_. False\<rparr>) =
    Some ([Take File_buffer, Take Input_buffer, Take Picture_buffer, Release File_buffer, Take Decoder_packet,
      Release Input_buffer, Release Picture_buffer], Snap_exit (-11))"
proof -
  have units: "unit_ok Nal_sps [7]" "unit_ok Nal_pps [8]" "unit_ok Nal_idr [5, 1]"
    by (simp_all add: unit_ok_def begins_kind_def quiet_bytes_def)
  have parts: "file_parts (picture_file None [7] [8] [5, 1]) = Some (Some (None, nal_unit [7], nal_unit [8], nal_unit [5, 1]))"
    using picture_file_is_passed_on [OF units, of None] by simp
  have size: "length (picture_file None [7] [8] [5, 1]) = 16" "picture_file None [7] [8] [5, 1] \<noteq> []"
    by (simp_all add: picture_file_def nal_unit_def)
  show ?thesis
    using parts size sample_proc
    by (simp add: snap_main_def snap_option_def snap_defaults_def sample_env_def str_ieq_def snap_run_def snap_from_file_def
        snap_finish_def snap_size_def snap_copy_def snap_decode_def frame_decode_def decoder_effects_def snap_free_file_def snap_unmap_def Let_def)
qed

lemma snapshot_runs_are_clean_witness:
  "snap_main False ''/bin/imggrabber'' [(CHR ''w'', []), (CHR ''f'', ''clip.h26x''), (CHR ''r'', ''low'')] (sample_env\<lparr>sv_codec := \<lambda>_. False\<rparr>) =
    Some ([Take File_buffer, Take Input_buffer, Take Picture_buffer, Release File_buffer, Take Decoder_packet,
      Release Input_buffer, Release Picture_buffer], Snap_exit (-11)) \<and>
   clean [Take File_buffer, Take Input_buffer, Take Picture_buffer, Release File_buffer, Take Decoder_packet,
      Release Input_buffer, Release Picture_buffer] (-11)"
proof -
  let ?opts = "[(CHR ''w'', []), (CHR ''f'', ''clip.h26x''), (CHR ''r'', ''low'')]" and ?e = "sample_env\<lparr>sv_codec := \<lambda>_. False\<rparr>"
  have len: "length ring_memory = 568" by (simp add: ring_memory_def snap_frames_def snap_frame_length)
  have now: "tm_ok noon" by (simp add: tm_ok_def noon_def)
  have word: "first_token (take 511 (first_line ''init'')) = Some ''init''" by code_simp
  have "\<exists>w h. bmp_ok w h small_bmp \<and> 0 < w \<and> 0 < h \<and> even h \<and> w \<le> 12 \<and> h \<le> 20"
    using small_bmp_ok by (intro exI [of _ 1] exI [of _ 2]) simp
  then have mark: "snap_mark_ok ?e s" if "ss_time s = None" "ss_low s" for s
    using that now by (auto simp: snap_mark_ok_def sample_env_def wm_path_def)
  have "\<exists>es res. snap_main False ''/bin/imggrabber'' ?opts ?e = Some (es, res) \<and>
    (case res of Snap_exit code \<Rightarrow> clean es code | Snap_searching \<Rightarrow> held es [] = Some [Frame_mapping])"
    by (rule snapshot_runs_are_clean)
       (use mark word len in \<open>simp add: snap_option_def snap_defaults_def snap_env_ok_def snap_ring_ok_def sample_env_def ring_view_def str_ieq_def\<close>)
  then show ?thesis unfolding undecoded_run by simp
qed

section \<open>What is not released\<close>

text \<open>
  The packet of the decoder and the output of the JPEG library are never released.  When a glyph cannot be
  read, the ones before it, and the memory of the file, are left as well.
\<close>

lemma missing_glyph_leaves_memory:
  assumes "0 < k" "k < 13"
  shows "held (glyph_effects k) [] = Some (map Glyph (rev [1..<k]) @ [Glyph_source, Glyph 0])"
proof -
  let ?takes = "\<lambda>k. concat (map (\<lambda>i. if i = 0 then [Take (Glyph i), Take Glyph_source] else [Take (Glyph i)]) [0..<k])"
  have "held (?takes k) [] = Some (map Glyph (rev [1..<k]) @ [Glyph_source, Glyph 0])"
    using assms(1) by (induction k rule: nat_induct_non_zero) (auto simp: held_append)
  then show ?thesis using assms(2) by (simp add: glyph_effects_def)
qed

section \<open>What is not checked\<close>

text \<open>
  The time of the option \<open>-t\<close> is not checked: a year from 13000 on has no glyph, and the program follows a
  pointer that was never written.
\<close>

lemma unchecked_time_faults:
  assumes "13000 \<le> tm_year t + 1900" "tm_year t + 1900 < 256000" "length (wi_pics wm) = 13"
    "(x + wi_width wm * 19) mod 2 ^ 32 \<le> W" "(y + wi_height wm) mod 2 ^ 32 \<le> H"
  shows "AddWM wm W H x y (Some t) now bg = None"
proof -
  let ?n = "(tm_year t + 1900) sdiv 1000"
  have n: "?n = (tm_year t + 1900) div 1000" using assms(1) by (intro sdiv_pos) simp_all
  then have "13 \<le> ?n" "?n \<le> 255" using assms(1,2) by linarith+
  then have "13 \<le> unat (byte_of ?n)" using byte_of_uint [of ?n] by (simp add: unat_eq_nat_uint)
  then have "picture_at wm (unat (byte_of ?n)) = None" using assms(3) by (simp add: picture_at_def)
  moreover obtain ids where "time_ids t = byte_of ?n # ids" "length ids = 18" by (simp add: time_ids_def)
  ultimately show ?thesis using assms(4,5) by (simp add: AddWM_def watermark_blending_def)
qed

lemma sample_year: "map_option tm_year (scan_time ''20000-1-1 0:0:0'') = Some 18100"
  by code_simp

text \<open>
  Another snapshot is recognised by the last component of the program's name only: processes that were
  started with a path are not seen.
\<close>

lemma started_by_path_is_missed:
  assumes "CHR ''/'' \<notin> set name" "\<forall>p line. cmdline p = Some line \<and> line \<noteq> [] \<longrightarrow>
     (\<exists>first. first_token (take 511 (first_line line)) = Some first \<and> CHR ''/'' \<in> set first)"
  shows "proc_scan name pid cmdline ds = Some (-1)"
proof (induction ds)
  case (Cons d ds)
  obtain lpid rest b where d: "strtol10 d = (lpid, rest, b)" by (metis prod_cases3)
  have "\<exists>first. first_token (take 511 (first_line line)) = Some first \<and> first \<noteq> name" if "cmdline lpid = Some line" "line \<noteq> []" for line
    using assms that by blast
  then show ?case using Cons d by (cases "cmdline lpid") force+
qed simp

text \<open>A process whose command line begins with a null byte, or has only spaces, makes the comparison fault.\<close>

lemma blank_command_line_faults:
  "strtol10 d = (p, [], False) \<Longrightarrow> cmdline p = Some (nul # line) \<Longrightarrow> proc_scan name pid cmdline (d # ds) = None"
  by (simp add: first_token_def nul_def)

end
