(* ===== verification/Speaker.thy ===== *)
theory Speaker
  imports Frame_Ring "HOL-Library.Monad_Syntax"
begin

text \<open>
  \<open>src/speaker/speaker/speaker.c\<close>: the command that switches the loudspeaker, streams sound into the
  fifo of the vendor's process, and decodes stored sound files.  Sound is a list of bytes; the results of
  system calls are arguments.  A call that never returns is \<open>None\<close>.
\<close>

section \<open>Mu-law\<close>

definition exp_lut :: "int list" where
  "exp_lut = [0, 132, 396, 924, 1980, 4092, 8316, 16764]"

definition linear16_from_ulaw :: "byte \<Rightarrow> 16 word" where
  "linear16_from_ulaw b =
     (let u = NOT b; sign = (u AND 0x80 \<noteq> 0); exponent = unat (drop_bit 4 u AND 0x07); mantissa = uint (u AND 0x0F);
          result = exp_lut ! exponent + push_bit (exponent + 3) mantissa
      in word_of_int (if sign then - result else result))"

definition sample_bytes :: "16 word \<Rightarrow> byte list" where
  "sample_bytes w = [ucast w, ucast (drop_bit 8 w)]"

section \<open>The speaker\<close>

datatype speaker_effect =
    Ioctl nat
  | Sem_taken
  | Sem_posted
  | Sem_closed
  | Fifo_opened
  | Fifo_closed
  | Fifo_write "byte list"

text \<open>The device may be missing or refuse to open; the flag is whether it was switched.\<close>

definition switch_speaker :: "bool \<Rightarrow> bool \<Rightarrow> speaker_effect list \<times> bool" where
  "switch_speaker opens on = (if opens then ([Ioctl (if on then 16 else 17)], True) else ([], False))"

section \<open>Streaming\<close>

datatype io_result = Done nat | Interrupted | Io_error

datatype write_end = Written | Write_stopped | Write_failed

text \<open>
  The attempts to write some bytes, each with the stop flag before it; \<open>None\<close> when more attempts would be needed.
\<close>

fun write_all :: "(bool \<times> io_result) list \<Rightarrow> byte list \<Rightarrow> byte list \<times> write_end option" where
  "write_all rs [] = ([], Some Written)"
| "write_all [] (b # bs) = ([], None)"
| "write_all ((stop, r) # rs) (b # bs) =
     (if stop then ([], Some Write_stopped)
      else case r of
        Done n \<Rightarrow>
          if n = 0 then ([], Some Write_failed)
          else (let (out, e) = write_all rs (drop n (b # bs)) in (take n (b # bs) @ out, e))
      | Interrupted \<Rightarrow> write_all rs (b # bs)
      | Io_error \<Rightarrow> ([], Some Write_failed))"

datatype sound_format = Ulaw | Pcm

definition sound_format_of :: "string \<Rightarrow> sound_format option" where
  "sound_format_of s = (if s = ''ulaw'' then Some Ulaw else if s = ''pcm'' then Some Pcm else None)"

text \<open>Mu-law sound has half the sample rate: each sample is doubled.\<close>

definition native_sound :: "sound_format \<Rightarrow> byte list \<Rightarrow> byte list" where
  "native_sound f input =
     (case f of
        Pcm \<Rightarrow> input
      | Ulaw \<Rightarrow> concat (map (\<lambda>b. let s = sample_bytes (linear16_from_ulaw b) in s @ s) input))"

datatype read_result = Read_data "byte list" | Read_end | Read_interrupted | Read_error

text \<open>
  A turn of the loop: the stop flag, what is read, and the attempts to write it.  The result is what was
  written and, when the loop has ended, the return code before the stop flag is looked at again.
\<close>

fun stream_loop :: "sound_format \<Rightarrow> (bool \<times> read_result \<times> (bool \<times> io_result) list) list \<Rightarrow> byte list \<times> int option" where
  "stream_loop f [] = ([], None)"
| "stream_loop f ((stop, r, ws) # ts) =
     (if stop then ([], Some 0)
      else case r of
        Read_end \<Rightarrow> ([], Some 0)
      | Read_interrupted \<Rightarrow> stream_loop f ts
      | Read_error \<Rightarrow> ([], Some 1)
      | Read_data input \<Rightarrow>
          (case write_all ws (native_sound f input) of
             (out, None) \<Rightarrow> (out, None)
           | (out, Some Written) \<Rightarrow> (let (out', rc) = stream_loop f ts in (out @ out', rc))
           | (out, Some Write_stopped) \<Rightarrow> (out, Some 0)
           | (out, Some Write_failed) \<Rightarrow> (out, Some 1)))"

record stream_env =
  st_handlers_ok :: bool
  st_sem_opens :: bool
  st_sem_free :: bool
  st_fifo_opens :: bool
  st_device_opens :: bool
  st_device_opens_again :: bool
  st_turns :: "(bool \<times> read_result \<times> (bool \<times> io_result) list) list"
  st_stopped :: bool

definition stream_pcm :: "stream_env \<Rightarrow> string \<Rightarrow> speaker_effect list \<times> int option" where
  "stream_pcm e format =
     (case sound_format_of format of
        None \<Rightarrow> ([], Some 2)
      | Some f \<Rightarrow>
          if \<not> st_handlers_ok e \<or> \<not> st_sem_opens e then ([], Some 1)
          else if \<not> st_sem_free e then ([Sem_closed], Some 1)
          else if \<not> st_fifo_opens e then ([Sem_taken, Sem_posted, Sem_closed], Some 1)
          else if \<not> snd (switch_speaker (st_device_opens e) True)
          then ([Sem_taken, Fifo_opened, Fifo_closed, Sem_posted, Sem_closed], Some 1)
          else (case stream_loop f (st_turns e) of
              (out, None) \<Rightarrow> ([Sem_taken, Fifo_opened] @ fst (switch_speaker (st_device_opens e) True) @ [Fifo_write out], None)
            | (out, Some rc) \<Rightarrow>
                ([Sem_taken, Fifo_opened] @ fst (switch_speaker (st_device_opens e) True) @ [Fifo_write out] @
                   fst (switch_speaker (st_device_opens_again e) False) @ [Fifo_closed, Sem_posted, Sem_closed],
                 Some (if st_stopped e then 0 else rc))))"

section \<open>Stored sound\<close>

text \<open>
  A file is its bytes, and whether reading at its end is an error; \<open>fread\<close> gives what is there.  Writing to
  the output may fail from some block on.
\<close>

definition fread_at :: "byte list \<Rightarrow> int \<Rightarrow> nat \<Rightarrow> byte list" where
  "fread_at file_bytes pos n = take n (drop (nat pos) file_bytes)"

fun copy_blocks :: "nat \<Rightarrow> byte list \<Rightarrow> byte list \<times> bool" where
  "copy_blocks writable [] = ([], True)"
| "copy_blocks writable (b # bs) =
     (case writable of
        0 \<Rightarrow> ([], False)
      | Suc k \<Rightarrow> (let (out, ok) = copy_blocks k (drop 4096 (b # bs)) in (take 4096 (b # bs) @ out, ok)))"

definition copy_to_eof :: "nat \<Rightarrow> bool \<Rightarrow> byte list \<Rightarrow> byte list \<times> bool" where
  "copy_to_eof writable read_error rest = (let (out, ok) = copy_blocks writable rest in (out, ok \<and> \<not> read_error))"

definition copy_bytes :: "nat \<Rightarrow> byte list \<Rightarrow> nat \<Rightarrow> byte list \<times> bool" where
  "copy_bytes writable rest count =
     (let (out, ok) = copy_blocks writable (take count rest) in (out, ok \<and> count \<le> length rest))"

record wav_state =
  wav_fmt_seen :: bool
  wav_fmt_valid :: bool
  wav_data_offset :: int
  wav_data_size :: u32

definition wav_start :: wav_state where
  "wav_start = \<lparr>wav_fmt_seen = False, wav_fmt_valid = False, wav_data_offset = -1, wav_data_size = 0\<rparr>"

definition ascii :: "string \<Rightarrow> byte list" where
  "ascii s = map of_char s"

definition wav_format_ok :: "byte list \<Rightarrow> bool" where
  "wav_format_ok fmt \<longleftrightarrow> le16 fmt 0 = 1 \<and> le16 fmt 2 = 1 \<and> le32 fmt 4 = 16000 \<and> le16 fmt 14 = 16 \<and> le16 fmt 12 = 2"

text \<open>One chunk: an error, or the state after it.\<close>

definition wav_chunk :: "byte list \<Rightarrow> int \<Rightarrow> byte list \<Rightarrow> wav_state \<Rightarrow> int + wav_state" where
  "wav_chunk file_bytes payload chunk st =
     (let size = le32 chunk 4
      in if take 4 chunk = ascii ''fmt '' then
           (let fmt = fread_at file_bytes payload 16
            in if size < 16 \<or> length fmt < 16 then Inl 1
               else Inr (st\<lparr>wav_fmt_seen := True, wav_fmt_valid := wav_format_ok fmt\<rparr>))
         else if take 4 chunk = ascii ''data'' \<and> wav_data_offset st < 0
         then Inr (st\<lparr>wav_data_offset := payload, wav_data_size := size\<rparr>)
         else Inr st)"

text \<open>The next chunk, in 32 bits: a size of 2^31 and more goes back.\<close>

definition wav_next :: "int \<Rightarrow> byte list \<Rightarrow> int" where
  "wav_next payload chunk =
     (let size = le32 chunk 4 in sint (word_of_int payload + size + (size AND 1) :: u32))"

partial_function (option) wav_chunks :: "byte list \<Rightarrow> int \<Rightarrow> wav_state \<Rightarrow> (int + wav_state) option" where
  [code]: "wav_chunks file_bytes pos st =
     (let chunk = fread_at file_bytes pos 8
      in if length chunk < 8 then Some (Inr st)
         else case wav_chunk file_bytes (pos + 8) chunk st of
           Inl e \<Rightarrow> Some (Inl e)
         | Inr st' \<Rightarrow>
             if wav_next (pos + 8) chunk < 0 then Some (Inl 1)
             else wav_chunks file_bytes (wav_next (pos + 8) chunk) st')"

text \<open>What is written, and the return code.\<close>

definition decode_audio_file :: "nat \<Rightarrow> bool \<Rightarrow> byte list option \<Rightarrow> (byte list \<times> int) option" where
  "decode_audio_file writable read_error input =
     (case input of
        None \<Rightarrow> Some ([], 1)
      | Some b \<Rightarrow>
          let header = fread_at b 0 12
          in if length header < 12 then Some ([], 1)
             else if take 4 header \<noteq> ascii ''RIFF'' \<or> drop 8 header \<noteq> ascii ''WAVE''
             then (let (out, ok) = copy_to_eof writable read_error b in Some (out, if ok then 0 else 1))
             else do {
               r \<leftarrow> wav_chunks b 12 wav_start;
               Some (case r of
                 Inl e \<Rightarrow> ([], e)
               | Inr st \<Rightarrow>
                   if \<not> wav_fmt_seen st \<or> \<not> wav_fmt_valid st \<or> wav_data_offset st < 0 \<or> wav_data_size st = 0 then ([], 1)
                   else (let (out, ok) = copy_bytes writable (drop (nat (wav_data_offset st)) b) (unat (wav_data_size st))
                         in (out, if ok then 0 else 1)))
             })"

section \<open>The program\<close>

datatype speaker_result =
    Switched "speaker_effect list"
  | Streamed "speaker_effect list"
  | Decoded "byte list"
  | Usage

definition speaker_main ::
  "string list \<Rightarrow> bool \<Rightarrow> stream_env \<Rightarrow> nat \<Rightarrow> bool \<Rightarrow> (string \<Rightarrow> byte list option) \<Rightarrow> speaker_result \<times> int option" where
  "speaker_main args device_opens e writable read_error open_file =
     (case args of
        [a] \<Rightarrow>
          if a = ''on'' \<or> a = ''off'' then
            (let (es, ok) = switch_speaker device_opens (a = ''on'') in (Switched es, Some (if ok then 0 else 1)))
          else (Usage, Some 2)
      | [a, b] \<Rightarrow>
          if a = ''stream'' then (let (es, rc) = stream_pcm e b in (Streamed es, rc))
          else if a = ''decode'' then
            (case decode_audio_file writable read_error (open_file b) of
               None \<Rightarrow> (Decoded [], None)
             | Some (out, rc) \<Rightarrow> (Decoded out, Some rc))
          else (Usage, Some 2)
      | _ \<Rightarrow> (Usage, Some 2))"

section \<open>Mu-law is G.711\<close>

text \<open>The formula of the standard, with its bias of 132.\<close>

definition g711 :: "byte \<Rightarrow> int" where
  "g711 b =
     (let u = uint (NOT b); t = (8 * (u mod 16) + 132) * 2 ^ nat (u div 16 mod 8) - 132
      in if u \<ge> 128 then - t else t)"

lemma exp_lut_bias: "e < 8 \<Longrightarrow> exp_lut ! e = 132 * (2 ^ e - 1)"
proof -
  assume "e < 8"
  then have "e = 0 \<or> e = 1 \<or> e = 2 \<or> e = 3 \<or> e = 4 \<or> e = 5 \<or> e = 6 \<or> e = 7" by auto
  then show ?thesis unfolding exp_lut_def by (elim disjE) simp_all
qed

lemma odd_top_bit: "0 \<le> x \<Longrightarrow> x < 256 \<Longrightarrow> odd (x div 128) = (x \<ge> 128)" for x :: int
  by presburger

lemma byte_fields:
  "(u AND 0x80 \<noteq> 0) = (uint u \<ge> 128)" "uint (drop_bit 4 u AND 0x07) = uint u div 16 mod 8" "uint (u AND 0x0F) = uint u mod 16"
  for u :: byte
proof -
  have m: "x AND 15 = x mod 16" "x AND 7 = x mod 8" for x :: int
    using take_bit_eq_mask [of 4 x] take_bit_eq_mask [of 3 x] by (simp_all add: mask_eq_exp_minus_1 take_bit_eq_mod)
  show "uint (u AND 0x0F) = uint u mod 16" by (simp add: uint_and m)
  show "uint (drop_bit 4 u AND 0x07) = uint u div 16 mod 8" by (simp add: uint_and drop_bit_eq_div m uint_div)
  have "(u AND 0x80 \<noteq> 0) = bit u 7"
    using and_exp_eq_0_iff_not_bit [of u 7] by simp
  also have "\<dots> = bit (uint u) 7" by (simp add: bit_uint_iff)
  also have "\<dots> = odd (uint u div 128)" by (simp add: bit_iff_odd)
  also have "\<dots> = (uint u \<ge> 128)"
    using uint_lt2p [of u] by (intro odd_top_bit) simp_all
  finally show "(u AND 0x80 \<noteq> 0) = (uint u \<ge> 128)" .
qed

lemma product_between: "132 \<le> a \<Longrightarrow> a \<le> 252 \<Longrightarrow> 1 \<le> p \<Longrightarrow> p \<le> 128 \<Longrightarrow> 132 \<le> a * p \<and> a * p \<le> 32256" for a p :: int
  using mult_mono [of 132 a 1 p] mult_mono [of a 252 p 128] by simp

lemma g711_bound: "\<bar>g711 b\<bar> \<le> 32124"
proof -
  let ?u = "uint (NOT b)"
  have k: "nat (?u div 16 mod 8) \<le> 7" by simp
  have "(2 :: int) ^ nat (?u div 16 mod 8) \<le> 128" using power_increasing [OF k, of "2 :: int"] by simp
  moreover have "0 \<le> ?u mod 16" "?u mod 16 \<le> 15" by simp_all
  ultimately have "132 \<le> (8 * (?u mod 16) + 132) * 2 ^ nat (?u div 16 mod 8) \<and> (8 * (?u mod 16) + 132) * 2 ^ nat (?u div 16 mod 8) \<le> 32256"
    by (intro product_between) simp_all
  then show ?thesis by (auto simp: g711_def Let_def abs_le_iff)
qed

lemma ulaw_sample: "sint (linear16_from_ulaw b) = g711 b"
proof -
  let ?u = "NOT b"
  have e: "unat (drop_bit 4 ?u AND 0x07) = nat (uint ?u div 16 mod 8)" by (simp add: unat_eq_nat_uint byte_fields(2))
  have x: "exp_lut ! nat (uint ?u div 16 mod 8) = 132 * (2 ^ nat (uint ?u div 16 mod 8) - 1)"
    by (rule exp_lut_bias) (simp add: nat_less_iff)
  have "linear16_from_ulaw b = word_of_int (g711 b)"
    unfolding linear16_from_ulaw_def g711_def Let_def e byte_fields(1,3) x
    by (simp add: push_bit_eq_mult power_add algebra_simps)
  then show ?thesis using g711_bound [of b] by (simp add: sint_sbintrunc' signed_take_bit_int_eq_self)
qed

lemma flip_top_bit: "0 \<le> x \<Longrightarrow> x < 256 \<Longrightarrow> x XOR 128 = (if x \<ge> 128 then x - 128 else x + 128)" for x :: int
proof -
  assume "0 \<le> x" "x < 256"
  then have b: "bit x 7 = (x \<ge> 128)" unfolding bit_iff_odd by simp presburger
  have "x XOR 128 = flip_bit 7 x" by (simp add: flip_bit_eq_xor)
  then show ?thesis using b by (simp add: flip_bit_eq_if set_bit_eq unset_bit_eq)
qed

lemma add_top_bit: "(x + 128) mod 16 = x mod 16 \<and> (x + 128) div 16 mod 8 = x div 16 mod 8" for x :: int
proof -
  have "x + 128 = x + 8 * 16" by simp
  then have "(x + 128) mod 16 = x mod 16" "(x + 128) div 16 = 8 + x div 16"
    by (metis mod_mult_self1, metis div_mult_self1 zero_neq_numeral)
  then show ?thesis by simp
qed

lemma flip_fields:
  fixes x y :: int
  assumes "0 \<le> x" "x < 256" "y = (if x \<ge> 128 then x - 128 else x + 128)"
  shows "y mod 16 = x mod 16 \<and> y div 16 mod 8 = x div 16 mod 8 \<and> (y \<ge> 128) = (\<not> x \<ge> 128)"
proof (cases "x \<ge> 128")
  case True
  then have x: "x = y + 128" "y < 128" using assms(2,3) by simp_all
  show ?thesis using add_top_bit [of y, folded x(1)] x(2) True by (simp only: not_le simp_thms)
next
  case False
  then have y: "y = x + 128" "128 \<le> y" using assms(1,3) by simp_all
  show ?thesis using add_top_bit [of x, folded y(1)] y(2) False by (simp only: not_le simp_thms)
qed

lemma g711_sign: "g711 (b XOR 0x80) = - g711 b"
proof -
  let ?u = "uint (NOT b)"
  have n: "NOT (b XOR 0x80) = NOT b XOR 0x80" by (rule bit_word_eqI) (auto simp: bit_simps)
  have "uint (NOT b XOR 0x80) = (if ?u \<ge> 128 then ?u - 128 else ?u + 128)"
    unfolding uint_xor using flip_top_bit [of ?u] uint_lt2p [of "NOT b"] by simp
  note f = flip_fields [OF _ _ this, folded n]
  have "?u < 256" using uint_lt2p [of "NOT b"] by simp
  then show ?thesis unfolding g711_def Let_def using f by simp
qed

lemma sample_value: "word_of_int (uint (sample_bytes w ! 0) + 256 * uint (sample_bytes w ! 1)) = w"
proof -
  have "w = word_of_int (uint w)" by simp
  also have "uint w = uint w mod 256 + 256 * (uint w div 256)" by simp
  also have "uint w mod 256 = uint (sample_bytes w ! 0)"
    by (simp add: sample_bytes_def unsigned_ucast_eq take_bit_eq_mod)
  also have "uint w div 256 = uint (sample_bytes w ! 1)"
  proof -
    have "uint w div 256 < 256" using uint_lt2p [of w] by simp
    then have "take_bit 8 (uint w div 256) = uint w div 256" by (intro take_bit_int_eq_self) (simp_all add: pos_imp_zdiv_nonneg_iff)
    then show ?thesis by (simp add: sample_bytes_def unsigned_ucast_eq drop_bit_eq_div uint_div)
  qed
  finally show ?thesis by simp
qed

text \<open>
  Mu-law sound is decoded as G.711 says: every one of the 256 codes gives the value of the standard's
  formula, which fits 16 bits, codes that differ in the sign bit give opposite values, and a sample
  reaches the fifo as its two bytes, the low one first.
\<close>

theorem ulaw_is_g711:
  "sint (linear16_from_ulaw b) = g711 b \<and> \<bar>g711 b\<bar> \<le> 32124 \<and>
   sint (linear16_from_ulaw (b XOR 0x80)) = - sint (linear16_from_ulaw b) \<and>
   word_of_int (uint (sample_bytes w ! 0) + 256 * uint (sample_bytes w ! 1)) = w"
  unfolding ulaw_sample g711_sign by (intro conjI refl g711_bound sample_value)

section \<open>Streaming\<close>

text \<open>The sound that is read before the end.\<close>

fun heard :: "(bool \<times> read_result \<times> (bool \<times> io_result) list) list \<Rightarrow> byte list" where
  "heard [] = []"
| "heard ((stop, r, ws) # ts) =
     (case r of Read_data input \<Rightarrow> input @ heard ts | Read_interrupted \<Rightarrow> heard ts | _ \<Rightarrow> [])"

lemma native_sound_append: "native_sound f (a @ b) = native_sound f a @ native_sound f b"
  by (cases f) (simp_all add: native_sound_def)

lemma write_all_prefix: "write_all rs buf = (out, e) \<Longrightarrow> \<exists>rest. buf = out @ rest \<and> (e = Some Written \<longrightarrow> rest = []) \<and>
    (e = Some Write_stopped \<longrightarrow> (\<exists>r. (True, r) \<in> set rs))"
proof (induction rs buf arbitrary: out e rule: write_all.induct)
  case (3 stop r rs b bs)
  show ?case
  proof (cases "\<exists>n. \<not> stop \<and> r = Done n \<and> n \<noteq> 0")
    case True
    then obtain n where n: "\<not> stop" "r = Done n" "n \<noteq> 0" by blast
    obtain out' e' where w: "write_all rs (drop n (b # bs)) = (out', e')" by fastforce
    then have "out = take n (b # bs) @ out'" "e = e'" using 3(3) n by (auto simp: Let_def)
    moreover obtain rest where "drop n (b # bs) = out' @ rest" "e' = Some Written \<longrightarrow> rest = []" "e' = Some Write_stopped \<longrightarrow> (\<exists>r. (True, r) \<in> set rs)"
      using 3(1) [OF n w] by blast
    moreover have "b # bs = take n (b # bs) @ drop n (b # bs)" by simp
    ultimately show ?thesis by (metis append.assoc list.set_intros(2))
  next
    case False
    then consider "stop" | "\<not> stop" "r = Done 0" | "\<not> stop" "r = Interrupted" | "\<not> stop" "r = Io_error" by (cases r) auto
    then show ?thesis
    proof cases
      case 3
      then show ?thesis using "3.IH"(2) "3.prems" by fastforce
    qed (use "3.prems" in auto)
  qed
qed auto

definition no_stop :: "(bool \<times> read_result \<times> (bool \<times> io_result) list) list \<Rightarrow> bool" where
  "no_stop ts \<longleftrightarrow> (\<forall>(stop, r, ws)\<in>set ts. \<not> stop \<and> (\<forall>r. (True, r) \<notin> set ws))"

lemma no_stop_Cons: "no_stop ((stop, r, ws) # ts) \<longleftrightarrow> \<not> stop \<and> (\<forall>r. (True, r) \<notin> set ws) \<and> no_stop ts"
  by (auto simp: no_stop_def)

lemma stream_loop_prefix:
  "stream_loop f ts = (out, rc) \<Longrightarrow> \<exists>rest. native_sound f (heard ts) = out @ rest \<and> (rc = Some 0 \<and> no_stop ts \<longrightarrow> rest = [])"
proof (induction f ts arbitrary: out rc rule: stream_loop.induct)
  case (2 f stop r ws ts)
  consider "stop" | "\<not> stop" "r = Read_end" | "\<not> stop" "r = Read_interrupted" | "\<not> stop" "r = Read_error"
    | input where "\<not> stop" "r = Read_data input" by (cases r) auto
  then show ?case
  proof cases
    case 5
    obtain out1 e where w: "write_all ws (native_sound f input) = (out1, e)" by fastforce
    obtain rest1 where p: "native_sound f input = out1 @ rest1" "e = Some Written \<longrightarrow> rest1 = []"
      "e = Some Write_stopped \<longrightarrow> (\<exists>r. (True, r) \<in> set ws)" using write_all_prefix [OF w] by blast
    show ?thesis
    proof (cases "e = Some Written")
      case True
      obtain out2 rc2 where l: "stream_loop f ts = (out2, rc2)" by fastforce
      then obtain rest where "native_sound f (heard ts) = out2 @ rest" "rc2 = Some 0 \<and> no_stop ts \<longrightarrow> rest = []"
        using 2(1) [OF 5 w [symmetric]] True by blast
      then show ?thesis using 2(3) 5 w True l p by (auto simp: native_sound_append no_stop_Cons)
    next
      case False
      then show ?thesis using 2(3) 5 w p
        by (auto simp: native_sound_append no_stop_Cons split: option.splits write_end.splits)
    qed
  qed (use 2 in \<open>auto simp: no_stop_Cons native_sound_def split: sound_format.splits\<close>)
qed (auto simp: native_sound_def)

text \<open>The semaphore, the fifo and the speaker: which effects are allowed, and what is held after them.\<close>

fun speaker_holds :: "speaker_effect list \<Rightarrow> bool \<times> bool \<times> bool \<Rightarrow> (bool \<times> bool \<times> bool) option" where
  "speaker_holds [] h = Some h"
| "speaker_holds (eff # es) (sem, fifo, on) =
     (case eff of
        Sem_taken \<Rightarrow> if sem then None else speaker_holds es (True, fifo, on)
      | Sem_posted \<Rightarrow> if sem \<and> \<not> fifo \<and> \<not> on then speaker_holds es (False, fifo, on) else None
      | Sem_closed \<Rightarrow> if sem then None else speaker_holds es (sem, fifo, on)
      | Fifo_opened \<Rightarrow> if sem \<and> \<not> fifo then speaker_holds es (sem, True, on) else None
      | Fifo_closed \<Rightarrow> if fifo \<and> \<not> on then speaker_holds es (sem, False, on) else None
      | Fifo_write out \<Rightarrow> if fifo \<and> on then speaker_holds es (sem, fifo, on) else None
      | Ioctl n \<Rightarrow> if n = 16 \<and> sem \<and> fifo then speaker_holds es (sem, fifo, True)
          else if n = 17 \<and> on then speaker_holds es (sem, fifo, False) else None)"

text \<open>
  C14. Sound is streamed whole and the speaker is left as it was: the bytes in the fifo are a beginning of
  what was read, mu-law samples decoded and doubled, and all of it when the command returns 0 and was not
  stopped; whenever the command returns and the device still opens, the speaker was on only while
  the fifo was open and the semaphore held, is off again, the fifo is closed and the semaphore posted,
  whichever step failed.
\<close>

theorem sound_is_streamed:
  "case stream_pcm e format of (es, rc) \<Rightarrow>
     (\<forall>out. Fifo_write out \<in> set es \<longrightarrow> (\<exists>f rest. sound_format_of format = Some f \<and>
        native_sound f (heard (st_turns e)) = out @ rest \<and>
        (rc = Some 0 \<and> \<not> st_stopped e \<and> no_stop (st_turns e) \<longrightarrow> rest = []))) \<and>
     (rc \<noteq> None \<and> st_device_opens_again e \<longrightarrow> speaker_holds es (False, False, False) = Some (False, False, False))"
proof (cases "sound_format_of format")
  case None
  then show ?thesis by (simp add: stream_pcm_def)
next
  case (Some f)
  obtain out rc where loop: "stream_loop f (st_turns e) = (out, rc)" by fastforce
  obtain rest where "native_sound f (heard (st_turns e)) = out @ rest" "rc = Some 0 \<and> no_stop (st_turns e) \<longrightarrow> rest = []"
    using stream_loop_prefix [OF loop] by blast
  then show ?thesis using Some loop by (cases rc) (auto simp: stream_pcm_def switch_speaker_def)
qed

definition sample_stream :: stream_env where
  "sample_stream = \<lparr>st_handlers_ok = True, st_sem_opens = True, st_sem_free = True, st_fifo_opens = True, st_device_opens = True,
     st_device_opens_again = True, st_turns = [(False, Read_data [0xFF], [(False, Interrupted), (False, Done 3), (False, Done 1)]), (False, Read_end, [])],
     st_stopped = False\<rparr>"

lemma sound_is_streamed_witness:
  "stream_pcm sample_stream ''ulaw'' = ([Sem_taken, Fifo_opened, Ioctl 16, Fifo_write [0, 0, 0, 0], Ioctl 17, Fifo_closed, Sem_posted, Sem_closed], Some 0) \<and>
   (\<exists>f. sound_format_of ''ulaw'' = Some f \<and> native_sound f (heard (st_turns sample_stream)) = [0, 0, 0, 0])"
proof -
  have z: "native_sound Ulaw [0xFF] = [0, 0, 0, 0]" by (simp add: native_sound_def linear16_from_ulaw_def sample_bytes_def exp_lut_def)
  have run: "stream_pcm sample_stream ''ulaw'' = ([Sem_taken, Fifo_opened, Ioctl 16, Fifo_write [0, 0, 0, 0], Ioctl 17, Fifo_closed, Sem_posted, Sem_closed], Some 0)"
    by (simp add: stream_pcm_def sound_format_of_def switch_speaker_def z sample_stream_def)
  have "no_stop (st_turns sample_stream)" "\<not> st_stopped sample_stream" by (simp_all add: no_stop_def sample_stream_def)
  then show ?thesis
    using sound_is_streamed [where e = sample_stream and format = "''ulaw''"] unfolding run by simp
qed

section \<open>WAV files\<close>

definition chunk_bytes :: "byte list \<times> byte list \<Rightarrow> byte list" where
  "chunk_bytes c = fst c @ le32_bytes (of_nat (length (snd c))) @ snd c @ (if odd (length (snd c)) then [0] else [])"

definition wav_bytes :: "byte list \<Rightarrow> (byte list \<times> byte list) list \<Rightarrow> byte list" where
  "wav_bytes sz cs = ascii ''RIFF'' @ sz @ ascii ''WAVE'' @ concat (map chunk_bytes cs)"

definition chunks_of :: "string \<Rightarrow> (byte list \<times> byte list) list \<Rightarrow> byte list list" where
  "chunks_of tag cs = map snd (filter (\<lambda>c. fst c = ascii tag) cs)"

text \<open>What the chunks of a file mean: the last format and the first data count.\<close>

definition wav_sound :: "(byte list \<times> byte list) list \<Rightarrow> byte list \<times> int" where
  "wav_sound cs =
     (let fmts = chunks_of ''fmt '' cs; datas = chunks_of ''data'' cs
      in if (\<exists>f\<in>set fmts. length f < 16) \<or> fmts = [] \<or> \<not> wav_format_ok (last fmts) \<or> datas = [] \<or> hd datas = []
         then ([], 1) else (hd datas, 0))"

definition wav_after :: "byte list \<Rightarrow> (byte list \<times> byte list) list \<Rightarrow> wav_state \<Rightarrow> bool" where
  "wav_after b cs st \<longleftrightarrow>
     (let fmts = chunks_of ''fmt '' cs; datas = chunks_of ''data'' cs
      in (wav_fmt_seen st \<longleftrightarrow> fmts \<noteq> []) \<and> (fmts \<noteq> [] \<longrightarrow> (wav_fmt_valid st \<longleftrightarrow> wav_format_ok (last fmts))) \<and>
         (if datas = [] then wav_data_offset st < 0
          else 0 \<le> wav_data_offset st \<and> unat (wav_data_size st) = length (hd datas) \<and>
            take (length (hd datas)) (drop (nat (wav_data_offset st)) b) = hd datas))"

lemma ascii_tags: "length (ascii s) = length s" "ascii ''fmt '' \<noteq> ascii ''data''"
  by (simp_all add: ascii_def)

lemma wav_format_take: "16 \<le> length p \<Longrightarrow> wav_format_ok (take 16 p) = wav_format_ok p"
  by (simp add: wav_format_ok_def le16_def le32_def)

lemma sint_small_nat: "n < 2 ^ 31 \<Longrightarrow> sint (of_nat n :: u32) = int n"
  by (simp add: signed_of_nat signed_take_bit_int_eq_self)

lemma wav_chunk_step:
  assumes b: "b = pre @ chunk_bytes (tag, p) @ post" and tag: "length tag = 4" and len: "length b < 2 ^ 31" and st: "wav_after b done st"
  shows "fread_at b (int (length pre)) 8 = tag @ le32_bytes (of_nat (length p))"
    "wav_next (int (length pre) + 8) (tag @ le32_bytes (of_nat (length p))) = int (length (pre @ chunk_bytes (tag, p)))"
    "if tag = ascii ''fmt '' \<and> length p < 16 then wav_chunk b (int (length pre) + 8) (tag @ le32_bytes (of_nat (length p))) st = Inl 1
     else \<exists>st'. wav_chunk b (int (length pre) + 8) (tag @ le32_bytes (of_nat (length p))) st = Inr st' \<and> wav_after b (done @ [(tag, p)]) st'"
proof -
  let ?c = "tag @ le32_bytes (of_nat (length p))"
  have size: "length p < 2 ^ 31" using len by (simp add: b chunk_bytes_def le32_bytes_def)
  have le: "le32 ?c 4 = of_nat (length p)" using le32_le32_bytes [of tag _ "[]"] tag by simp
  have four: "length (le32_bytes x) = 4" for x by (simp add: le32_bytes_def)
  show "fread_at b (int (length pre)) 8 = ?c" by (simp add: fread_at_def b chunk_bytes_def tag four)
  have at: "nat (int (length pre) + 8) = length pre + 8" by simp
  have rest: "drop (length pre + 8) b = p @ (if odd (length p) then [0] else []) @ post"
    by (simp add: b chunk_bytes_def tag four)
  have un: "unat (of_nat (length p) :: u32) = length p" using size by (simp add: unat_of_nat)
  have "unat ((of_nat (length p) :: u32) AND 1) = length p mod 2"
    using un by (simp add: and_one_eq unat_mod)
  then have pad: "(of_nat (length p) :: u32) AND 1 = of_nat (length p mod 2)" by (metis unat_eq_nat_uint word_of_int_uint of_nat_nat uint_nonnegative of_nat_unat ucast_id)
  have total: "length pre + 8 + length p + length p mod 2 = length (pre @ chunk_bytes (tag, p))"
    by (auto simp: chunk_bytes_def tag four elim: oddE evenE)
  have "word_of_int (int (length pre) + 8) + of_nat (length p) + of_nat (length p mod 2) =
      (of_nat (length (pre @ chunk_bytes (tag, p))) :: u32)"
    unfolding total [symmetric] by simp
  moreover have "length (pre @ chunk_bytes (tag, p)) < 2 ^ 31" using len by (simp add: b)
  ultimately show "wav_next (int (length pre) + 8) ?c = int (length (pre @ chunk_bytes (tag, p)))"
    unfolding wav_next_def Let_def le pad by (simp only: sint_small_nat)
  have old: "chunks_of t (done @ [(tag, p)]) = chunks_of t done @ (if tag = ascii t then [p] else [])" for t
    by (simp add: chunks_of_def)
  have data: "take (length p) (drop (length pre + 8) b) = p" by (simp add: rest)
  have fmt: "fread_at b (int (length pre) + 8) 16 = take 16 p" if "16 \<le> length p"
    using that by (simp add: fread_at_def at rest)
  have tags: "ascii ''fmt '' \<noteq> ascii ''data''" by (rule ascii_tags)
  have small: "(of_nat (length p) :: u32) < 16 \<longleftrightarrow> length p < 16" using un by (simp add: word_less_nat_alt)
  have c4: "take 4 ?c = tag" using tag by simp
  show "if tag = ascii ''fmt '' \<and> length p < 16 then wav_chunk b (int (length pre) + 8) ?c st = Inl 1
     else \<exists>st'. wav_chunk b (int (length pre) + 8) ?c st = Inr st' \<and> wav_after b (done @ [(tag, p)]) st'"
  proof (cases "tag = ascii ''fmt ''")
    case True
    have datas: "chunks_of ''data'' (done @ [(tag, p)]) = chunks_of ''data'' done" unfolding old using True tags by simp
    have fmts: "chunks_of ''fmt '' (done @ [(tag, p)]) = chunks_of ''fmt '' done @ [p]" unfolding old using True by simp
    show ?thesis
    proof (cases "length p < 16")
      case short: True
      then show ?thesis unfolding wav_chunk_def Let_def le c4 small using True by simp
    next
      case long: False
      have "wav_chunk b (int (length pre) + 8) ?c st = Inr (st\<lparr>wav_fmt_seen := True, wav_fmt_valid := wav_format_ok p\<rparr>)"
        unfolding wav_chunk_def Let_def le c4 small using True long fmt by (simp add: wav_format_take)
      moreover have "wav_after b (done @ [(tag, p)]) (st\<lparr>wav_fmt_seen := True, wav_fmt_valid := wav_format_ok p\<rparr>)"
        using st unfolding wav_after_def Let_def datas fmts by simp
      ultimately show ?thesis using long by simp
    qed
  next
    case False
    have fmts: "chunks_of ''fmt '' (done @ [(tag, p)]) = chunks_of ''fmt '' done" unfolding old using False by simp
    have first: "wav_data_offset st < 0 \<longleftrightarrow> chunks_of ''data'' done = []"
      using st by (auto simp: wav_after_def Let_def split: if_splits)
    show ?thesis
    proof (cases "tag = ascii ''data'' \<and> wav_data_offset st < 0")
      case True
      let ?st = "st\<lparr>wav_data_offset := int (length pre) + 8, wav_data_size := of_nat (length p)\<rparr>"
      have datas: "chunks_of ''data'' (done @ [(tag, p)]) = [p]" unfolding old using True first by simp
      have "wav_chunk b (int (length pre) + 8) ?c st = Inr ?st"
        unfolding wav_chunk_def Let_def le c4 if_not_P [OF False] if_P [OF True] ..
      moreover have "wav_after b (done @ [(tag, p)]) ?st"
        using st data un at unfolding wav_after_def Let_def datas fmts by simp
      ultimately show ?thesis using False by simp
    next
      case other: False
      have datas: "chunks_of ''data'' (done @ [(tag, p)]) = chunks_of ''data'' done \<or>
          chunks_of ''data'' done \<noteq> [] \<and> chunks_of ''data'' (done @ [(tag, p)]) = chunks_of ''data'' done @ [p]"
        unfolding old using other first by simp
      have "wav_chunk b (int (length pre) + 8) ?c st = Inr st"
        unfolding wav_chunk_def Let_def le c4 if_not_P [OF False] if_not_P [OF other] ..
      moreover have "wav_after b (done @ [(tag, p)]) st"
        using st datas unfolding wav_after_def Let_def fmts by auto
      ultimately show ?thesis using False by simp
    qed
  qed
qed

lemma wav_chunks_run:
  assumes "b = pre @ concat (map chunk_bytes cs)" "\<forall>c\<in>set cs. length (fst c) = 4" "length b < 2 ^ 31" "wav_after b done st"
  shows "\<exists>r. wav_chunks b (int (length pre)) st = Some r \<and>
    (if \<exists>f\<in>set (chunks_of ''fmt '' cs). length f < 16 then r = Inl 1 else \<exists>st'. r = Inr st' \<and> wav_after b (done @ cs) st')"
  using assms
proof (induction cs arbitrary: pre "done" st)
  case Nil
  then show ?case by (subst wav_chunks.simps) (simp add: fread_at_def chunks_of_def)
next
  case (Cons c cs)
  obtain tag p where c: "c = (tag, p)" by (cases c)
  let ?h = "tag @ le32_bytes (of_nat (length p))"
  have b: "b = pre @ chunk_bytes (tag, p) @ concat (map chunk_bytes cs)" "length tag = 4" using Cons.prems(1,2) by (simp_all add: c)
  note step = wav_chunk_step [OF b Cons.prems(3,4)]
  have h: "length ?h = 8" using b(2) by (simp add: le32_bytes_def)
  have go: "wav_chunks b (int (length pre)) st = (case wav_chunk b (int (length pre) + 8) ?h st of
      Inl e \<Rightarrow> Some (Inl e) | Inr st' \<Rightarrow> wav_chunks b (int (length (pre @ chunk_bytes (tag, p)))) st')"
    by (subst wav_chunks.simps) (simp only: step(1,2) Let_def h, simp split: sum.split)
  have fmts: "chunks_of ''fmt '' (c # cs) = (if tag = ascii ''fmt '' then [p] else []) @ chunks_of ''fmt '' cs"
    by (simp add: chunks_of_def c)
  show ?case
  proof (cases "tag = ascii ''fmt '' \<and> length p < 16")
    case True
    then show ?thesis using step(3) go fmts by simp
  next
    case False
    then obtain st' where st': "wav_chunk b (int (length pre) + 8) ?h st = Inr st'" "wav_after b (done @ [(tag, p)]) st'"
      using step(3) by auto
    have "b = (pre @ chunk_bytes (tag, p)) @ concat (map chunk_bytes cs)" using b(1) by simp
    from Cons.IH [OF this _ Cons.prems(3) st'(2)] Cons.prems(2)
    obtain r where r: "wav_chunks b (int (length (pre @ chunk_bytes (tag, p)))) st' = Some r"
      "if \<exists>f\<in>set (chunks_of ''fmt '' cs). length f < 16 then r = Inl 1
       else \<exists>st''. r = Inr st'' \<and> wav_after b ((done @ [(tag, p)]) @ cs) st''" by auto
    have short: "(\<exists>f\<in>set (chunks_of ''fmt '' (c # cs)). length f < 16) = (\<exists>f\<in>set (chunks_of ''fmt '' cs). length f < 16)"
      unfolding fmts using False by auto
    have run: "wav_chunks b (int (length pre)) st = Some r" using go st'(1) r(1) by simp
    show ?thesis unfolding short run using r(2) by (auto simp: c split: if_splits)
  qed
qed

lemma copy_blocks_all: "length xs \<le> 4096 * w \<Longrightarrow> copy_blocks w xs = (xs, True)"
proof (induction w xs rule: copy_blocks.induct)
  case (2 w b bs)
  then obtain k where w: "w = Suc k" by (cases w) auto
  then have "copy_blocks k (drop 4096 (b # bs)) = (drop 4096 (b # bs), True)" using 2 by simp
  then show ?case unfolding copy_blocks.simps w using append_take_drop_id [of 4096 "b # bs"] by (simp del: append_take_drop_id)
qed simp

text \<open>
  C3. A WAV file is decoded by its meaning: for every list of chunks - in any order, with odd sizes padded,
  with chunks of unknown kinds and with several of a kind - what is written is the payload of the first
  \<open>data\<close> chunk, whole, exactly when the last \<open>fmt\<close> chunk says 16-bit mono PCM at 16000 Hz, no \<open>fmt\<close> chunk is
  too short and the payload is not empty; otherwise nothing is written and the command returns 1.
\<close>

theorem wav_is_decoded:
  assumes sz: "length sz = 4" and tags: "\<forall>c\<in>set cs. length (fst c) = 4" and len: "length (wav_bytes sz cs) < 2 ^ 31"
    and room: "length (wav_bytes sz cs) \<le> 4096 * writable"
  shows "decode_audio_file writable False (Some (wav_bytes sz cs)) = Some (wav_sound cs)"
proof -
  let ?b = "wav_bytes sz cs" and ?pre = "ascii ''RIFF'' @ sz @ ascii ''WAVE''"
  let ?fmts = "chunks_of ''fmt '' cs" and ?datas = "chunks_of ''data'' cs"
  have pre: "length ?pre = 12" "?b = ?pre @ concat (map chunk_bytes cs)" using sz by (simp_all add: ascii_tags wav_bytes_def)
  have head: "fread_at ?b 0 12 = ?pre" using pre by (simp add: fread_at_def)
  have riff: "take 4 ?pre = ascii ''RIFF''" "drop 8 ?pre = ascii ''WAVE''" using sz by (simp_all add: ascii_tags)
  have start: "wav_after ?b [] wav_start" by (simp add: wav_after_def wav_start_def chunks_of_def)
  obtain r where r: "wav_chunks ?b 12 wav_start = Some r"
    "if \<exists>f\<in>set ?fmts. length f < 16 then r = Inl 1 else \<exists>st'. r = Inr st' \<and> wav_after ?b cs st'"
    using wav_chunks_run [OF pre(2) tags len start] unfolding pre(1) of_nat_numeral append_Nil by blast
  have go: "decode_audio_file writable False (Some ?b) = Some (case r of
      Inl e \<Rightarrow> ([], e)
    | Inr st \<Rightarrow> if \<not> wav_fmt_seen st \<or> \<not> wav_fmt_valid st \<or> wav_data_offset st < 0 \<or> wav_data_size st = 0 then ([], 1)
        else (let (out, ok) = copy_bytes writable (drop (nat (wav_data_offset st)) ?b) (unat (wav_data_size st))
              in (out, if ok then 0 else 1)))"
    unfolding decode_audio_file_def option.case Let_def head pre(1) riff r(1) by simp
  show ?thesis
  proof (cases "\<exists>f\<in>set ?fmts. length f < 16")
    case True
    then show ?thesis unfolding go using r(2) by (simp add: wav_sound_def)
  next
    case False
    then obtain st where st: "r = Inr st" "wav_after ?b cs st" using r(2) by auto
    have d: "wav_data_offset st < 0 \<longleftrightarrow> ?datas = []" using st(2) by (auto simp: wav_after_def Let_def split: if_splits)
    have z: "wav_data_size st = 0 \<longleftrightarrow> hd ?datas = []" if "?datas \<noteq> []"
      using st(2) that by (auto simp: wav_after_def Let_def unat_eq_0)
    have f: "wav_fmt_seen st \<longleftrightarrow> ?fmts \<noteq> []" "?fmts \<noteq> [] \<Longrightarrow> wav_fmt_valid st \<longleftrightarrow> wav_format_ok (last ?fmts)"
      using st(2) by (simp_all add: wav_after_def Let_def)
    have copy: "copy_bytes writable (drop (nat (wav_data_offset st)) ?b) (unat (wav_data_size st)) = (hd ?datas, True)" if "?datas \<noteq> []"
    proof -
      have t: "take (length (hd ?datas)) (drop (nat (wav_data_offset st)) ?b) = hd ?datas" "unat (wav_data_size st) = length (hd ?datas)"
        using st(2) that by (simp_all add: wav_after_def Let_def)
      then have "length (hd ?datas) \<le> length (drop (nat (wav_data_offset st)) ?b)" using length_take min.cobounded1 by metis
      moreover have "length (drop (nat (wav_data_offset st)) ?b) \<le> 4096 * writable" using room by simp
      ultimately show ?thesis unfolding copy_bytes_def t by (simp add: copy_blocks_all)
    qed
    show ?thesis unfolding go st(1) using False d z f copy by (auto simp: wav_sound_def Let_def)
  qed
qed

definition sample_format :: "byte list" where
  "sample_format = [1, 0, 1, 0, 0x80, 0x3E, 0, 0, 0, 0x7D, 0, 0, 2, 0, 16, 0]"

lemma wav_is_decoded_witness:
  "decode_audio_file 1 False (Some (wav_bytes [0, 0, 0, 0]
     [(ascii ''LIST'', [7]), (ascii ''data'', [1, 2]), (ascii ''fmt '', sample_format), (ascii ''data'', [9])])) = Some ([1, 2], 0)"
  (is "decode_audio_file 1 False (Some (wav_bytes _ ?cs)) = _")
proof -
  have "wav_format_ok sample_format"
    by (simp add: wav_format_ok_def sample_format_def le16_def le32_def)
  then have "wav_sound ?cs = ([1, 2], 0)"
    by (simp add: wav_sound_def chunks_of_def ascii_def sample_format_def)
  then show ?thesis
    using wav_is_decoded [of "[0, 0, 0, 0]" ?cs 1]
    by (simp add: wav_bytes_def chunk_bytes_def le32_bytes_def ascii_def sample_format_def)
qed

text \<open>
  A chunk that says its size is 2^32 - 8 leads back to itself: the file is read for ever.
\<close>

lemma wav_back: "wav_next 20 (tag @ [0xF8, 0xFF, 0xFF, 0xFF]) = 12" if "length tag = 4"
  using that by (simp add: wav_next_def le32_def nth_append)

lemma wav_chunks_back:
  assumes "wav_chunks b pos st = Some r"
  shows "\<not> (pos = 12 \<and> fread_at b 12 8 = tag @ [0xF8, 0xFF, 0xFF, 0xFF] \<and> length tag = 4 \<and> tag \<noteq> ascii ''fmt '')"
proof (rule wav_chunks.raw_induct [where P = "\<lambda>b pos st r.
    \<not> (pos = 12 \<and> fread_at b 12 8 = tag @ [0xF8, 0xFF, 0xFF, 0xFF] \<and> length tag = 4 \<and> tag \<noteq> ascii ''fmt '')", OF _ assms])
  fix f :: "byte list \<Rightarrow> int \<Rightarrow> wav_state \<Rightarrow> (int + wav_state) option" and b pos st r
  assume ih: "\<And>b pos st r. f b pos st = Some r \<Longrightarrow>
      \<not> (pos = 12 \<and> fread_at b 12 8 = tag @ [0xF8, 0xFF, 0xFF, 0xFF] \<and> length tag = 4 \<and> tag \<noteq> ascii ''fmt '')"
    and run: "(let chunk = fread_at b pos 8
      in if length chunk < 8 then Some (Inr st)
         else case wav_chunk b (pos + 8) chunk st of
           Inl e \<Rightarrow> Some (Inl e)
         | Inr st' \<Rightarrow> if wav_next (pos + 8) chunk < 0 then Some (Inl 1) else f b (wav_next (pos + 8) chunk) st') = Some r"
  show "\<not> (pos = 12 \<and> fread_at b 12 8 = tag @ [0xF8, 0xFF, 0xFF, 0xFF] \<and> length tag = 4 \<and> tag \<noteq> ascii ''fmt '')"
  proof
    assume a: "pos = 12 \<and> fread_at b 12 8 = tag @ [0xF8, 0xFF, 0xFF, 0xFF] \<and> length tag = 4 \<and> tag \<noteq> ascii ''fmt ''"
    then obtain st' where "wav_chunk b 20 (tag @ [0xF8, 0xFF, 0xFF, 0xFF]) st = Inr st'"
      by (cases "tag = ascii ''data'' \<and> wav_data_offset st < 0") (auto simp: wav_chunk_def Let_def)
    then have "f b 12 st' = Some r" using run a by (simp add: Let_def wav_back)
    then show False using ih a by blast
  qed
qed

text \<open>
  C38. A stored file can hang the decoder: when the first chunk is not a \<open>fmt\<close> chunk and says its size is
  2^32 - 8, its end, computed in 32 bits, is its own beginning, and the command never returns.
\<close>

theorem wav_size_can_hang:
  assumes "length sz = 4" "length tag = 4" "tag \<noteq> ascii ''fmt ''"
  shows "decode_audio_file writable read_error (Some (ascii ''RIFF'' @ sz @ ascii ''WAVE'' @ tag @ [0xF8, 0xFF, 0xFF, 0xFF] @ rest)) = None"
proof -
  let ?b = "ascii ''RIFF'' @ sz @ ascii ''WAVE'' @ tag @ [0xF8, 0xFF, 0xFF, 0xFF] @ rest"
  have "fread_at ?b 12 8 = tag @ [0xF8, 0xFF, 0xFF, 0xFF]" using assms by (simp add: fread_at_def ascii_def)
  then have "wav_chunks ?b 12 wav_start = None" using wav_chunks_back [of ?b 12 wav_start] assms(2,3) by (cases "wav_chunks ?b 12 wav_start") blast+
  then show ?thesis using assms by (simp add: decode_audio_file_def fread_at_def ascii_def)
qed

lemma wav_size_can_hang_witness:
  "decode_audio_file 9 False (Some (ascii ''RIFF'' @ [0, 0, 0, 0] @ ascii ''WAVE'' @ ascii ''LIST'' @ [0xF8, 0xFF, 0xFF, 0xFF] @ [])) = None"
  by (rule wav_size_can_hang) (simp_all add: ascii_def)

end
