(* ===== verification/Tz_Offset.thy ===== *)
theory Tz_Offset
  imports Frame_Ring
begin

text \<open>
  \<open>src/set_tz_offset/set_tz_offset/\<close>: the command that tells the vendor's dispatcher the offset of the time
  zone, and writes the offset of the on-screen clock, or its state, into the shared memory of the vendor's
  processes.  The options are as \<open>getopt_long\<close> returns them, the results of system calls are an argument.
  An access outside the mapped memory or a table is \<open>None\<close>.
\<close>

section \<open>Tables\<close>

text \<open>
  For each model of the enumeration the address of the offset and whether it is to be set; the models with
  two kinds of firmware have two rows.
\<close>

definition tz_offset_osd_addr :: "(int \<times> int) list" where
  "tz_offset_osd_addr =
     [(0x4f4, 1), (0x4a0, 1), (0x4f4, 1), (0x4a0, 1), (0x4f4, 1), (0x514, 1), (0x4a0, 1),
      (0x4a0, 1), (0x4a4, 1), (0x4a0, 1), (0x4a0, 1), (0x4a4, 1),
      (0x4e0, 1), (0x56c, 1), (0x4e0, 1), (0x4e0, 1), (0x560, 1), (0x564, 1), (0x4e0, 1), (0x4e0, 1), (0x4e0, 1),
      (0x4e0, 1), (0x56c, 1), (0x570, 1), (0x560, 1), (0x56c, 1), (0x4e0, 1), (0x570, 1), (0x56c, 1), (0x4e0, 1),
      (0x564, 1), (0x4e0, 1), (0x56c, 1), (0x570, 1), (0x4e0, 1), (0x570, 1), (0x000, 0)]"

text \<open>The names that the option accepts, with the place of the model in the enumeration.\<close>

definition tz_models :: "(string \<times> int) list" where
  "tz_models =
     [(''y203c'', 0), (''y23'', 1), (''y25'', 2), (''y30'', 3), (''h201c'', 4), (''h305r'', 5), (''h307'', 6),
      (''y20ga'', 7), (''y25ga'', 9), (''y30qa'', 10), (''y501gc'', 11), (''h30ga'', 12), (''h51ga'', 14), (''h52ga'', 15),
      (''h60ga'', 16), (''q321br_lsx'', 18), (''q705br'', 19), (''qg311r'', 20), (''r30gb'', 21), (''r35gb'', 22),
      (''r37gb'', 23), (''r40ga'', 24), (''y211ba'', 25), (''y211ga'', 26), (''y213ga'', 28), (''y21ga'', 29), (''y28ga'', 31),
      (''y291ga'', 32), (''y29ga'', 34), (''y623'', 35), (''b091qp'', 36)]"

section \<open>Messages\<close>

text \<open>A header of 16 bytes, destination and source first, then the payload; longer than 512 bytes is not sent.\<close>

definition cloud_send_msg :: "u32 \<Rightarrow> byte list \<Rightarrow> byte list option" where
  "cloud_send_msg msg_type payload =
     (let send_buf = le32_bytes 4 @ le32_bytes 4 @ take 2 (le32_bytes msg_type) @ take 2 (le32_bytes 1) @
            le32_bytes (of_nat (length payload)) @ payload
      in if length send_buf > 512 then None else Some send_buf)"

definition cloud_set_tz_offset :: "u32 \<Rightarrow> byte list option" where
  "cloud_set_tz_offset tz_offset = cloud_send_msg 0x8e (le32_bytes tz_offset)"

text \<open>
  The end of the digits is compared with the text of the option, of which \<open>value\<close> is a copy, so a text
  without a number is 0.
\<close>

definition str2int :: "string \<Rightarrow> int" where
  "str2int value = (let (ret, endptr, erange) = strtol10 value in if erange then -1 else ret)"

section \<open>The shared memory\<close>

text \<open>A mapping has whole pages; what lies behind the end of the file reads as zeros and is not written back.\<close>

definition map_pages :: "byte list \<Rightarrow> byte list" where
  "map_pages b = b @ replicate ((4096 - length b mod 4096) mod 4096) 0"

definition put_bytes :: "byte list \<Rightarrow> int \<Rightarrow> byte list \<Rightarrow> byte list option" where
  "put_bytes mem i bs =
     (if 0 \<le> i \<and> nat i + length bs \<le> length mem then Some (take (nat i) mem @ bs @ drop (nat i + length bs) mem) else None)"

text \<open>The file, the state of the display (1 on, 0 off), the address and the value: the return code and the file.\<close>

definition set_tz_offset_osd :: "bool \<Rightarrow> byte list option \<Rightarrow> int \<Rightarrow> int \<Rightarrow> u32 \<Rightarrow> (int \<times> byte list option) option" where
  "set_tz_offset_osd maps info enable addr val =
     (case info of
        None \<Rightarrow> Some (-1, info)
      | Some b \<Rightarrow>
          if b = [] \<or> \<not> maps then Some (-2, info)
          else
            let head = (if enable = 1 then Some (1, 0) else if enable = 0 then Some (0x10, 3) else None)
            in (case Option.bind
                  (case head of None \<Rightarrow> Some (map_pages b)
                   | Some (x, y) \<Rightarrow> Option.bind (put_bytes (map_pages b) 0 [x, 0, 0, 0]) (\<lambda>m. put_bytes m 8 [y, 0, 0, 0]))
                  (\<lambda>m. if addr > 0 then
                      (if nat addr + 4 > length m then None
                       else if le32 m (nat addr) \<noteq> val then put_bytes m addr (le32_bytes val) else Some m)
                    else Some m) of
                None \<Rightarrow> None
              | Some m \<Rightarrow> Some (0, Some (take (length b) m))))"

section \<open>Options\<close>

record tz_settings =
  tz_cmd :: int
  tz_value :: string
  tz_model :: int
  tz_fw :: int
  tz_osd :: int

definition tz_defaults :: tz_settings where
  "tz_defaults = \<lparr>tz_cmd = -1, tz_value = [], tz_model = -1, tz_fw = -1, tz_osd = -1\<rparr>"

definition tz_fw_of :: "string \<Rightarrow> int \<Rightarrow> int" where
  "tz_fw_of arg fw =
     (if strn_ieq 2 ''12'' arg then 12
      else if strn_ieq 2 ''11'' arg then 11
      else case arg of
        [] \<Rightarrow> fw
      | c # _ \<Rightarrow> (let d = int (chr_code c) - 48 in if d < 0 \<or> d > 9 then -1 else d))"

text \<open>\<open>Inl\<close> is the exit code after the usage text.\<close>

definition tz_option :: "char \<Rightarrow> string \<Rightarrow> tz_settings \<Rightarrow> int + tz_settings" where
  "tz_option c arg s =
     (if c = CHR ''v'' then (if length arg < 1023 then Inr (s\<lparr>tz_value := arg\<rparr>) else Inl 1)
      else if c = CHR ''c'' then
        Inr (if str_ieq ''tz_offset'' arg then s\<lparr>tz_cmd := 0\<rparr>
             else if str_ieq ''tz_offset_osd'' arg then s\<lparr>tz_cmd := 1\<rparr>
             else if str_ieq ''osd'' arg then s\<lparr>tz_cmd := 2\<rparr> else s)
      else if c = CHR ''m'' then
        Inr (case find_ieq tz_models arg of Some i \<Rightarrow> s\<lparr>tz_model := i\<rparr> | None \<Rightarrow> s)
      else if c = CHR ''f'' then Inr (s\<lparr>tz_fw := tz_fw_of arg (tz_fw s)\<rparr>)
      else if c = CHR ''o'' then
        Inr (s\<lparr>tz_osd := if str_ieq ''on'' arg then 1 else if str_ieq ''off'' arg then 0 else -1\<rparr>)
      else if c = CHR ''d'' \<or> c = CHR ''?'' then Inr s
      else Inl 0)"

fun tz_options :: "(char \<times> string) list \<Rightarrow> tz_settings \<Rightarrow> int + tz_settings" where
  "tz_options [] s = Inr s"
| "tz_options ((c, arg) # opts) s = (case tz_option c arg s of Inl e \<Rightarrow> Inl e | Inr s' \<Rightarrow> tz_options opts s')"

section \<open>The program\<close>

record tz_env =
  te_queue_opens :: bool
  te_maps :: bool
  te_info :: "byte list option"

text \<open>What is sent, the shared memory afterwards, and the exit code.\<close>

record tz_result =
  tr_sent :: "byte list list"
  tr_info :: "byte list option"
  tr_code :: int

definition tz_two_rows :: "int set" where
  "tz_two_rows = {7, 12, 16, 26, 29, 32}"

text \<open>The row of the table; outside of the table it is \<open>None\<close>.\<close>

definition tz_row :: "int \<Rightarrow> int \<Rightarrow> (int \<times> int) option" where
  "tz_row model fw =
     (let i = (if fw > 10 \<and> model \<in> tz_two_rows then model + 1 else model)
      in if 0 \<le> i \<and> i < int (length tz_offset_osd_addr) then Some (tz_offset_osd_addr ! nat i) else None)"

definition tz_send :: "tz_env \<Rightarrow> string \<Rightarrow> tz_result" where
  "tz_send e value =
     (if \<not> te_queue_opens e then \<lparr>tr_sent = [], tr_info = te_info e, tr_code = -1\<rparr>
      else
        let ivalue = word_of_int (str2int value) * 1000 :: u32
        in if ivalue = -1 then \<lparr>tr_sent = [], tr_info = te_info e, tr_code = -2\<rparr>
           else \<lparr>tr_sent = (case cloud_set_tz_offset ivalue of None \<Rightarrow> [] | Some m \<Rightarrow> [m]), tr_info = te_info e, tr_code = 0\<rparr>)"

definition tz_set_osd :: "tz_env \<Rightarrow> int \<Rightarrow> int \<Rightarrow> u32 \<Rightarrow> tz_result option" where
  "tz_set_osd e enable addr val =
     map_option (\<lambda>(_, info). \<lparr>tr_sent = [], tr_info = info, tr_code = 0\<rparr>) (set_tz_offset_osd (te_maps e) (te_info e) enable addr val)"

definition tz_main :: "(char \<times> string) list \<Rightarrow> tz_env \<Rightarrow> tz_result option" where
  "tz_main opts e =
     (let nothing = (\<lambda>rc. Some \<lparr>tr_sent = [], tr_info = te_info e, tr_code = rc\<rparr>)
      in case tz_options opts tz_defaults of
        Inl rc \<Rightarrow> nothing rc
      | Inr s \<Rightarrow>
          if tz_cmd s = 0 then
            (if tz_value s = [] then nothing 0 else Some (tz_send e (tz_value s)))
          else if tz_cmd s = 1 then
            (if tz_value s = [] \<or> tz_model s = -1 \<or> tz_fw s = -1 then nothing 0
             else case tz_row (tz_model s) (tz_fw s) of
               None \<Rightarrow> None
             | Some (model_addr, to_set) \<Rightarrow>
                 if model_addr > 0 \<and> to_set = 1 then tz_set_osd e (-1) model_addr (word_of_int (str2int (tz_value s))) else nothing 0)
          else if tz_cmd s = 2 then tz_set_osd e (tz_osd s) (-1) (-1)
          else nothing 0)"

section \<open>The settings and the table\<close>

definition tz_fws :: "int set" where
  "tz_fws = {-1..9} \<union> {11, 12}"

definition tz_ok :: "tz_settings \<Rightarrow> bool" where
  "tz_ok s \<longleftrightarrow> tz_cmd s \<in> {-1, 0, 1, 2} \<and> length (tz_value s) < 1023 \<and> tz_model s \<in> insert (-1) (snd ` set tz_models) \<and>
     tz_fw s \<in> tz_fws \<and> tz_osd s \<in> {-1, 0, 1}"

lemma tz_fw_ok: "fw \<in> tz_fws \<Longrightarrow> tz_fw_of arg fw \<in> tz_fws"
  by (auto simp: tz_fw_of_def tz_fws_def Let_def split: list.split)

lemma tz_option_cases:
  assumes "tz_option c arg s = Inr s'"
  shows "s' = s \<or> s' = s\<lparr>tz_value := arg\<rparr> \<and> length arg < 1023 \<or> (\<exists>k\<in>{0, 1, 2}. s' = s\<lparr>tz_cmd := k\<rparr>) \<or>
    (\<exists>i. find_ieq tz_models arg = Some i \<and> s' = s\<lparr>tz_model := i\<rparr>) \<or> s' = s\<lparr>tz_fw := tz_fw_of arg (tz_fw s)\<rparr> \<or>
    (\<exists>k\<in>{-1, 0, 1}. s' = s\<lparr>tz_osd := k\<rparr>)"
  using assms by (cases "find_ieq tz_models arg") (auto simp: tz_option_def split: if_splits)

lemma tz_option_ok:
  assumes "tz_ok s" "tz_option c arg s = Inr s'"
  shows "tz_ok s'"
  using assms(1) tz_option_cases [OF assms(2)] tz_fw_ok [of "tz_fw s" arg] find_ieq_in [of tz_models arg]
  by (elim disjE exE bexE conjE) (auto simp: tz_ok_def simp del: image_iff)

lemma tz_options_ok: "tz_ok s \<Longrightarrow> tz_options opts s = Inr s' \<Longrightarrow> tz_ok s'"
  by (induction opts s rule: tz_options.induct) (auto split: sum.splits dest: tz_option_ok)

lemma tz_defaults_ok: "tz_ok tz_defaults"
  by (simp add: tz_ok_def tz_fws_def tz_defaults_def)

lemma tz_table:
  "length tz_offset_osd_addr = 37" "\<forall>(a, e)\<in>set tz_offset_osd_addr. 0 \<le> a \<and> a + 4 \<le> 4096 \<and> 4 dvd a"
  "\<forall>(a, e)\<in>set (butlast tz_offset_osd_addr). 0 < a \<and> e = 1" "tz_offset_osd_addr ! 36 = (0, 0)"
  by (simp_all add: tz_offset_osd_addr_def)

lemma tz_model_range: "model \<in> snd ` set tz_models \<Longrightarrow> 0 \<le> model \<and> model \<le> 36"
  by (auto simp: tz_models_def)

lemma tz_row_in_page:
  assumes "model \<in> snd ` set tz_models"
  shows "\<exists>a e. tz_row model fw = Some (a, e) \<and> 0 \<le> a \<and> a + 4 \<le> 4096 \<and> 4 dvd a \<and> (if model = 36 then a = 0 else 0 < a \<and> e = 1)"
proof -
  let ?i = "if fw > 10 \<and> model \<in> tz_two_rows then model + 1 else model"
  have i: "0 \<le> ?i" "?i \<le> 36" "?i = 36 \<longleftrightarrow> model = 36"
    using tz_model_range [OF assms] by (auto simp: tz_two_rows_def)
  obtain a e where ae: "tz_offset_osd_addr ! nat ?i = (a, e)" by fastforce
  then have "tz_row model fw = Some (a, e)" using i by (simp add: tz_row_def Let_def tz_table(1))
  moreover have "(a, e) \<in> set tz_offset_osd_addr" using i ae tz_table(1) nth_mem [of "nat ?i" tz_offset_osd_addr] by simp
  then have "0 \<le> a \<and> a + 4 \<le> 4096 \<and> 4 dvd a" using tz_table(2) by blast
  moreover have "0 < a \<and> e = 1" if "model \<noteq> 36"
  proof -
    have n: "nat ?i < length (butlast tz_offset_osd_addr)" using i that by (simp add: tz_table(1))
    then have "(a, e) \<in> set (butlast tz_offset_osd_addr)" using ae nth_mem [OF n] nth_butlast [OF n] by simp
    then show ?thesis using tz_table(3) by blast
  qed
  moreover have "a = 0" if "model = 36" using ae that tz_table(4) by (simp add: tz_two_rows_def)
  ultimately show ?thesis by auto
qed

lemma map_pages_length:
  assumes "b \<noteq> []"
  shows "4096 \<le> length (map_pages b)"
proof (cases "length b mod 4096 = 0")
  case True
  then have "4096 \<le> length b" using assms by (intro dvd_imp_le) auto
  then show ?thesis by (simp add: map_pages_def)
next
  case False
  moreover have "length b mod 4096 \<le> length b" by simp
  ultimately show ?thesis by (simp add: map_pages_def)
qed

lemma put_bytes_ok:
  assumes "0 \<le> i" "nat i + length bs \<le> length mem"
  shows "\<exists>m. put_bytes mem i bs = Some m \<and> length m = length mem \<and> take (length bs) (drop (nat i) m) = bs \<and>
       (\<forall>j. j < nat i \<or> nat i + length bs \<le> j \<and> j < length mem \<longrightarrow> m ! j = mem ! j)"
proof -
  let ?m = "take (nat i) mem @ bs @ drop (nat i + length bs) mem"
  have "?m ! j = mem ! j" if "j < nat i" for j using that assms(2) by (simp add: nth_append)
  moreover have "?m ! j = mem ! j" if "nat i + length bs \<le> j" "j < length mem" for j
    using that assms(2) by (simp add: nth_append less_diff_conv2)
  moreover have "put_bytes mem i bs = Some ?m" "length ?m = length mem" "take (length bs) (drop (nat i) ?m) = bs"
    using assms by (simp_all add: put_bytes_def)
  ultimately show ?thesis by blast
qed

lemma le32_bytes_length [simp]: "length (le32_bytes w) = 4"
  by (simp add: le32_bytes_def)

lemma le32_of_take: "take 4 (drop i m) = le32_bytes w \<Longrightarrow> le32 m i = w"
proof -
  assume t: "take 4 (drop i m) = le32_bytes w"
  have "length (take 4 (drop i m)) = 4" unfolding t by simp
  then have "i + 4 \<le> length m" by simp
  moreover have "m = take i m @ le32_bytes w @ drop (i + 4) m"
    unfolding t [symmetric] by (metis append_take_drop_id add.commute drop_drop)
  ultimately show ?thesis using le32_le32_bytes [of "take i m" w "drop (i + 4) m"] by (simp add: min_def)
qed

lemma osd_state_total:
  assumes "b \<noteq> []" "addr + 4 \<le> 4096"
  shows "set_tz_offset_osd True (Some b) enable addr val \<noteq> None"
proof -
  have len: "4096 \<le> length (map_pages b)" by (rule map_pages_length [OF assms(1)])
  have "\<exists>m. length m = length (map_pages b) \<and>
      (case (if enable = 1 then Some (1, 0) else if enable = 0 then Some (0x10, 3) else None) of None \<Rightarrow> Some (map_pages b)
         | Some (x, y) \<Rightarrow> Option.bind (put_bytes (map_pages b) 0 [x, 0, 0, 0]) (\<lambda>m. put_bytes m 8 [y, 0, 0, 0])) = Some m"
    using len by (auto simp: put_bytes_def)
  then obtain m where m: "length m = length (map_pages b)"
    "(case (if enable = 1 then Some (1, 0) else if enable = 0 then Some (0x10, 3) else None) of None \<Rightarrow> Some (map_pages b)
         | Some (x, y) \<Rightarrow> Option.bind (put_bytes (map_pages b) 0 [x, 0, 0, 0]) (\<lambda>m. put_bytes m 8 [y, 0, 0, 0])) = Some m" by blast
  have "(if addr > 0 then
      (if nat addr + 4 > length m then None else if le32 m (nat addr) \<noteq> val then put_bytes m addr (le32_bytes val) else Some m)
    else Some m) \<noteq> None"
    using len assms(2) m(1) by (auto simp: put_bytes_def)
  then show ?thesis using assms(1) unfolding set_tz_offset_osd_def option.case Let_def m(2) by auto
qed

lemma tz_set_osd_total: "addr + 4 \<le> 4096 \<Longrightarrow> tz_set_osd e enable addr val \<noteq> None"
proof -
  assume a: "addr + 4 \<le> 4096"
  consider "te_info e = None" | b where "te_info e = Some b" "b = [] \<or> \<not> te_maps e" | b where "te_info e = Some b" "b \<noteq> []" "te_maps e"
    by (cases "te_info e") auto
  then show ?thesis
  proof cases
    case 3
    then show ?thesis using osd_state_total [OF 3(2) a, of enable val] by (simp add: tz_set_osd_def)
  qed (simp_all add: tz_set_osd_def set_tz_offset_osd_def)
qed

text \<open>
  C15. The settings stay in their tables: after any options each setting has a value of its type, the row of
  the model and firmware exists, its address is aligned and leaves four bytes in the first page, and no
  run accesses anything outside the table or the mapped memory.
\<close>

theorem tz_settings_are_in_table:
  assumes "tz_options opts tz_defaults = Inr s"
  shows "tz_ok s \<and>
    (tz_model s \<noteq> -1 \<longrightarrow> (\<exists>a e. tz_row (tz_model s) (tz_fw s) = Some (a, e) \<and> 0 \<le> a \<and> a + 4 \<le> 4096 \<and> 4 dvd a)) \<and>
    tz_main opts e \<noteq> None"
proof -
  have ok: "tz_ok s" by (rule tz_options_ok [OF tz_defaults_ok assms])
  then have row: "\<exists>a e. tz_row (tz_model s) (tz_fw s) = Some (a, e) \<and> 0 \<le> a \<and> a + 4 \<le> 4096 \<and> 4 dvd a" if "tz_model s \<noteq> -1"
    using that tz_row_in_page [of "tz_model s" "tz_fw s"] by (auto simp: tz_ok_def)
  moreover have "tz_main opts e \<noteq> None"
    using row tz_set_osd_total by (cases "tz_model s = -1") (auto simp: tz_main_def assms)
  ultimately show ?thesis using ok by blast
qed

definition osd_options :: "(char \<times> string) list" where
  "osd_options = [(CHR ''c'', ''tz_offset_osd''), (CHR ''m'', ''y623''), (CHR ''f'', ''12.0''), (CHR ''v'', show_int (-18000))]"

lemma osd_options_mean:
  "tz_options osd_options tz_defaults = Inr \<lparr>tz_cmd = 1, tz_value = show_int (-18000), tz_model = 35, tz_fw = 12, tz_osd = -1\<rparr>"
  by (simp add: osd_options_def tz_option_def tz_defaults_def tz_models_def find_ieq_def tz_fw_of_def cstr_simps show_int_def show_nat.simps)


lemma tz_settings_are_in_table_witness:
  "\<forall>e. tz_ok \<lparr>tz_cmd = 1, tz_value = show_int (-18000), tz_model = 35, tz_fw = 12, tz_osd = -1\<rparr> \<and> tz_main osd_options e \<noteq> None"
  using tz_settings_are_in_table [OF osd_options_mean] by simp

section \<open>What reaches the vendor's processes\<close>

lemma strtol10_show_int:
  assumes "long_min \<le> n" "n \<le> long_max"
  shows "strtol10 (show_int n) = (n, [], False)"
proof (cases "n < 0")
  case False
  then show ?thesis using strtol10_show_nat [of "nat n"] assms by (simp add: show_int_def)
next
  case True
  let ?d = "show_nat (nat (- n))"
  have digits: "\<forall>c\<in>set ?d. c_isdigit c" by (rule show_nat_digits)
  then have d: "takeWhile c_isdigit ?d = ?d" "dropWhile c_isdigit ?d = []"
    unfolding takeWhile_eq_all_conv dropWhile_eq_Nil_conv by blast+
  have "\<not> c_isspace CHR ''-''" by (simp add: c_isspace_def chr_code_def)
  moreover have "\<not> - int (nat (- n)) > long_max" "\<not> - int (nat (- n)) < long_min" "- int (nat (- n)) = n"
    using True assms by (simp_all add: long_max_def)
  ultimately show ?thesis using True by (simp add: strtol10_def Let_def show_int_def dec_acc_show_nat d)
qed

lemma cloud_message:
  "cloud_set_tz_offset w =
     Some ([4, 0, 0, 0, 4, 0, 0, 0, 0x8e, 0, 1, 0, 4, 0, 0, 0] @ le32_bytes w)"
  by (simp add: cloud_set_tz_offset_def cloud_send_msg_def) (simp add: le32_bytes_def)

lemma sint_of_int: "- (2 ^ 31) \<le> n \<Longrightarrow> n < 2 ^ 31 \<Longrightarrow> sint (word_of_int n :: u32) = n"
  by (simp add: signed_of_int signed_take_bit_int_eq_self)

lemma le32_bytes_le32: "i + 4 \<le> length m \<Longrightarrow> take 4 (drop i m) = le32_bytes (le32 m i)"
proof -
  assume i: "i + 4 \<le> length m"
  have "take 4 (drop i m) = [m ! i, m ! (i + 1), m ! (i + 2), m ! (i + 3)]"
    using i by (intro nth_equalityI) (auto simp: less_Suc_eq numeral_eq_Suc)
  also have "\<dots> = le32_bytes (le32 m i)"
    unfolding le32_bytes_def le32_def by (auto intro!: bit_word_eqI simp: bit_simps byte_high_bits)
  finally show ?thesis .
qed

lemma osd_value_stored:
  assumes "b \<noteq> []" "0 < addr" "addr + 4 \<le> 4096"
  shows "\<exists>m. set_tz_offset_osd True (Some b) (-1) addr val = Some (0, Some (take (length b) m)) \<and>
    length m = length (map_pages b) \<and> take 4 (drop (nat addr) m) = le32_bytes val \<and>
    (\<forall>j. j < nat addr \<or> nat addr + 4 \<le> j \<and> j < length (map_pages b) \<longrightarrow> m ! j = map_pages b ! j)"
proof -
  have len: "4096 \<le> length (map_pages b)" by (rule map_pages_length [OF assms(1)])
  then have room: "nat addr + 4 \<le> length (map_pages b)" using assms by simp
  show ?thesis
  proof (cases "le32 (map_pages b) (nat addr) = val")
    case True
    have "take 4 (drop (nat addr) (map_pages b)) = le32_bytes val"
      using le32_bytes_le32 [OF room] True by simp
    then show ?thesis using assms room True by (intro exI [of _ "map_pages b"]) (simp add: set_tz_offset_osd_def)
  next
    case False
    obtain m where "put_bytes (map_pages b) addr (le32_bytes val) = Some m" "length m = length (map_pages b)"
      "take 4 (drop (nat addr) m) = le32_bytes val"
      "\<forall>j. j < nat addr \<or> nat addr + 4 \<le> j \<and> j < length (map_pages b) \<longrightarrow> m ! j = map_pages b ! j"
      using put_bytes_ok [of addr "le32_bytes val" "map_pages b"] room assms by auto
    then show ?thesis using assms room False by (intro exI [of _ m]) (simp add: set_tz_offset_osd_def)
  qed
qed

lemma strtol10_nothing: "s \<noteq> [] \<Longrightarrow> fst (snd (strtol10 s)) = s \<Longrightarrow> fst (strtol10 s) = 0 \<and> \<not> snd (snd (strtol10 s))"
proof -
  assume s: "s \<noteq> []" "fst (snd (strtol10 s)) = s"
  define t where "t = dropWhile c_isspace s"
  define u where "u = (case t of c # cs \<Rightarrow> if c = CHR ''-'' \<or> c = CHR ''+'' then cs else t | [] \<Rightarrow> t)"
  have "length t \<le> length s" unfolding t_def by (rule length_dropWhile_le)
  moreover have "length u \<le> length t" unfolding u_def by (auto split: list.split)
  moreover have "length (dropWhile c_isdigit u) < length u" if "takeWhile c_isdigit u \<noteq> []"
    using that takeWhile_dropWhile_id [of c_isdigit u] by (metis append_eq_append_conv2 length_append length_greater_0_conv less_add_same_cancel2)
  ultimately have "takeWhile c_isdigit u = []"
    using s(2) unfolding strtol10_def Let_def t_def [symmetric] u_def [symmetric] by (fastforce split: if_splits)
  then show ?thesis unfolding strtol10_def Let_def t_def [symmetric] u_def [symmetric] by simp
qed

definition offset_message :: "byte list" where
  "offset_message = [4, 0, 0, 0, 4, 0, 0, 0, 0x8e, 0, 1, 0, 4, 0, 0, 0]"

lemma tz_send_number:
  assumes "str2int value = n" "- 2147483 \<le> n" "n \<le> 2147483" "te_queue_opens e"
  shows "\<exists>payload. tz_send e value = \<lparr>tr_sent = [offset_message @ payload], tr_info = te_info e, tr_code = 0\<rparr> \<and>
    length payload = 4 \<and> sint (le32 payload 0) = n * 1000"
proof -
  define w where "w = (word_of_int (n * 1000) :: u32)"
  have w: "word_of_int n * 1000 = w" unfolding w_def by simp
  have s: "sint w = n * 1000" unfolding w_def using assms(2,3) by (intro sint_of_int) simp_all
  have "w \<noteq> -1"
  proof
    assume "w = -1"
    then have "n * 1000 = -1" using s by simp
    moreover have "even (n * 1000)" by simp
    ultimately have "even (-1 :: int)" by metis
    then show False by simp
  qed
  then have "tz_send e value = \<lparr>tr_sent = [offset_message @ le32_bytes w], tr_info = te_info e, tr_code = 0\<rparr>"
    unfolding tz_send_def assms(1) w Let_def by (simp add: assms(4) cloud_message offset_message_def)
  moreover have "le32 (le32_bytes w) 0 = w" using le32_le32_bytes [of "[]" w "[]"] by simp
  ultimately show ?thesis using s by (intro exI [of _ "le32_bytes w"]) simp
qed

definition only_at :: "nat \<Rightarrow> int \<Rightarrow> byte list \<Rightarrow> byte list \<Rightarrow> bool" where
  "only_at a n b b' \<longleftrightarrow> length b' = length b \<and> (a + 4 \<le> length b \<longrightarrow> sint (le32 b' a) = n) \<and>
     (\<forall>j<length b. j < a \<or> a + 4 \<le> j \<longrightarrow> b' ! j = b ! j)"

lemma tz_osd_number:
  assumes "b \<noteq> []" "0 < a" "a + 4 \<le> 4096" "te_maps e" "te_info e = Some b" "- 2147483 \<le> n" "n \<le> 2147483"
  shows "\<exists>b'. tz_set_osd e (-1) a (word_of_int n) = Some \<lparr>tr_sent = [], tr_info = Some b', tr_code = 0\<rparr> \<and> only_at (nat a) n b b'"
proof -
  obtain m where m: "set_tz_offset_osd True (Some b) (-1) a (word_of_int n) = Some (0, Some (take (length b) m))"
    "length m = length (map_pages b)" "take 4 (drop (nat a) m) = le32_bytes (word_of_int n)"
    "\<forall>j. j < nat a \<or> nat a + 4 \<le> j \<and> j < length (map_pages b) \<longrightarrow> m ! j = map_pages b ! j"
    using osd_value_stored [of b a "word_of_int n"] assms by blast
  have set: "tz_set_osd e (-1) a (word_of_int n) = Some \<lparr>tr_sent = [], tr_info = Some (take (length b) m), tr_code = 0\<rparr>"
    unfolding tz_set_osd_def assms(5) using m(1) assms(4) by simp
  have at: "sint (le32 (take (length b) m) (nat a)) = n" if "nat a + 4 \<le> length b"
  proof -
    have "take 4 (drop (nat a) (take (length b) m)) = le32_bytes (word_of_int n)"
      using that m(3) by (simp add: drop_take min_absorb1)
    from le32_of_take [OF this] show ?thesis using assms(6,7) by (simp add: sint_of_int)
  qed
  have pages: "length b \<le> length (map_pages b)" "j < length b \<Longrightarrow> map_pages b ! j = b ! j" for j
    by (simp_all add: map_pages_def nth_append)
  have "only_at (nat a) n b (take (length b) m)"
    unfolding only_at_def using m(2,4) pages at by auto
  then show ?thesis using set by blast
qed

text \<open>
  C13. The offset that is given arrives: with any options that select the command and the decimal text of
  \<open>n\<close> seconds, one message goes to the dispatcher, with its type, and its payload is \<open>n\<close> in
  milliseconds; and for the on-screen clock the four bytes at the place of the model and firmware become
  \<open>n\<close> in seconds and every other byte of the shared memory stays, the model that is skipped included.
\<close>

theorem tz_offset_arrives:
  assumes opts: "tz_options opts tz_defaults = Inr s" and val: "tz_value s = show_int n"
    and range: "- 2147483 \<le> n" "n \<le> 2147483"
  shows "(tz_cmd s = 0 \<and> te_queue_opens e \<longrightarrow>
      (\<exists>payload. tz_main opts e = Some \<lparr>tr_sent = [offset_message @ payload], tr_info = te_info e, tr_code = 0\<rparr> \<and>
         length payload = 4 \<and> sint (le32 payload 0) = n * 1000)) \<and>
    (tz_cmd s = 1 \<and> tz_model s \<noteq> -1 \<and> tz_fw s \<noteq> -1 \<and> te_maps e \<and> te_info e = Some b \<and> b \<noteq> [] \<longrightarrow>
      (\<exists>a c b'. tz_row (tz_model s) (tz_fw s) = Some (a, c) \<and> tz_main opts e = Some \<lparr>tr_sent = [], tr_info = Some b', tr_code = 0\<rparr> \<and>
         (if tz_model s = 36 then b' = b else only_at (nat a) n b b')))" (is "(?send \<longrightarrow> ?sent) \<and> (?osd \<longrightarrow> ?set)")
proof -
  have v: "tz_value s \<noteq> []" "str2int (tz_value s) = n"
    using range strtol10_show_int [of n] unfolding val by (simp_all add: str2int_def show_int_def long_min_def long_max_def)
  have ?sent if cmd: ?send
  proof -
    have "tz_main opts e = Some (tz_send e (tz_value s))" using v cmd by (simp add: tz_main_def opts)
    then show ?thesis using tz_send_number [OF v(2) range] cmd by simp
  qed
  moreover have ?set if cmd: ?osd
  proof -
    have "tz_model s \<in> snd ` set tz_models"
      using cmd tz_options_ok [OF tz_defaults_ok opts] by (simp add: tz_ok_def)
    from tz_row_in_page [OF this, of "tz_fw s"] obtain a c where row: "tz_row (tz_model s) (tz_fw s) = Some (a, c)" "a + 4 \<le> 4096"
      "if tz_model s = 36 then a = 0 else 0 < a \<and> c = 1" by blast
    have main: "tz_main opts e = (if a > 0 \<and> c = 1 then tz_set_osd e (-1) a (word_of_int n) else Some \<lparr>tr_sent = [], tr_info = Some b, tr_code = 0\<rparr>)"
      using cmd v row(1) by (simp add: tz_main_def opts)
    show ?thesis
    proof (cases "tz_model s = 36")
      case True
      then show ?thesis using row(1,3) main by simp
    next
      case False
      then have a: "0 < a" "c = 1" using row(3) by simp_all
      obtain b' where "tz_set_osd e (-1) a (word_of_int n) = Some \<lparr>tr_sent = [], tr_info = Some b', tr_code = 0\<rparr>" "only_at (nat a) n b b'"
        using tz_osd_number [of b a e n] a(1) row(2) range cmd by blast
      then show ?thesis using False row(1) main a by simp
    qed
  qed
  ultimately show ?thesis by blast
qed

lemma tz_offset_arrives_witness:
  "\<exists>b'. tz_main osd_options \<lparr>te_queue_opens = True, te_maps = True, te_info = Some (replicate 2048 7)\<rparr> =
      Some \<lparr>tr_sent = [], tr_info = Some b', tr_code = 0\<rparr> \<and> sint (le32 b' 0x570) = -18000 \<and> b' ! 0x574 = 7 \<and> b' ! 0x56f = 7"
proof -
  have row: "tz_row 35 12 = Some (0x570, 1)" by (simp add: tz_row_def tz_two_rows_def tz_offset_osd_addr_def)
  show ?thesis
    using tz_offset_arrives [OF osd_options_mean, where n = "-18000" and b = "replicate 2048 7"
        and e = "\<lparr>te_queue_opens = True, te_maps = True, te_info = Some (replicate 2048 7)\<rparr>"]
    by (auto simp: row only_at_def)
qed

text \<open>
  No value is ever refused: whatever the text of the offset is, a run never ends with the code for
  an invalid value; a text without a number sends the offset 0, and one out of the range of the
  conversion sends minus one second, with exit code 0.
\<close>

theorem invalid_offset_is_sent:
  assumes "tz_options opts tz_defaults = Inr s" "tz_cmd s = 0" "tz_value s \<noteq> []" "te_queue_opens e"
  shows "\<exists>w. tz_main opts e = Some \<lparr>tr_sent = [offset_message @ le32_bytes w], tr_info = te_info e, tr_code = 0\<rparr> \<and>
      (fst (snd (strtol10 (tz_value s))) = tz_value s \<longrightarrow> w = 0) \<and>
      (snd (snd (strtol10 (tz_value s))) \<longrightarrow> w = - 1000)"
proof -
  let ?w = "word_of_int (str2int (tz_value s)) * 1000 :: u32"
  have "?w \<noteq> -1"
  proof
    assume "?w = -1"
    moreover have "even ?w" by simp
    ultimately show False by simp
  qed
  then have "tz_main opts e = Some \<lparr>tr_sent = [offset_message @ le32_bytes ?w], tr_info = te_info e, tr_code = 0\<rparr>"
    using assms by (simp add: tz_main_def tz_send_def cloud_message offset_message_def)
  moreover have "str2int (tz_value s) = 0" if "fst (snd (strtol10 (tz_value s))) = tz_value s"
    using that strtol10_nothing [OF assms(3)] by (auto simp: str2int_def split: prod.splits)
  moreover have "str2int (tz_value s) = -1" if "snd (snd (strtol10 (tz_value s)))"
    using that by (auto simp: str2int_def split: prod.splits)
  ultimately show ?thesis by (intro exI [of _ ?w]) auto
qed

lemma invalid_offset_is_sent_witness:
  "\<forall>e. te_queue_opens e \<longrightarrow> tz_main [(CHR ''c'', ''tz_offset''), (CHR ''v'', ''UTC'')] e =
     Some \<lparr>tr_sent = [[4, 0, 0, 0, 4, 0, 0, 0, 0x8e, 0, 1, 0, 4, 0, 0, 0, 0, 0, 0, 0]], tr_info = te_info e, tr_code = 0\<rparr>"
proof (intro allI impI)
  fix e :: tz_env assume e: "te_queue_opens e"
  have s: "tz_options [(CHR ''c'', ''tz_offset''), (CHR ''v'', ''UTC'')] tz_defaults = Inr (tz_defaults\<lparr>tz_cmd := 0, tz_value := ''UTC''\<rparr>)"
    by (simp add: tz_option_def)
  have n: "strtol10 ''UTC'' = (0, ''UTC'', False)" by (simp add: strtol10_def cstr_simps)
  show "tz_main [(CHR ''c'', ''tz_offset''), (CHR ''v'', ''UTC'')] e =
     Some \<lparr>tr_sent = [[4, 0, 0, 0, 4, 0, 0, 0, 0x8e, 0, 1, 0, 4, 0, 0, 0, 0, 0, 0, 0]], tr_info = te_info e, tr_code = 0\<rparr>"
    using invalid_offset_is_sent [OF s _ _ e] by (auto simp: n le32_bytes_def offset_message_def)
qed

end
