(* ===== verification/Ipc_Tools.thy ===== *)
theory Ipc_Tools
  imports Ipc2file
begin

text \<open>
  \<open>src/ipc_cmd/ipc_cmd/ipc_notify.c\<close> and \<open>ipc_read.c\<close>: the commands that run a program for every message
  of a dispatch queue, and that print the names of the messages.  The start of both is that of the alarm
  consumer.  The options are as \<open>getopt_long\<close> returns them; what is received, and the status of the
  commands that are run, are arguments.
\<close>

section \<open>Start\<close>

text \<open>The number of a queue: 1 to 9.\<close>

definition queue_option :: "string \<Rightarrow> int option" where
  "queue_option optarg =
     (let (v, rest, erange) = strtol10 optarg
      in if erange \<and> (v = long_max \<or> v = long_min) then None
         else if v \<le> 0 \<or> v \<ge> 10 then None
         else if rest = optarg then None
         else Some v)"

text \<open>
  Opening by the number and clearing, for a family of queues: whether each opens, whether each
  \<open>mq_getattr\<close> succeeds, the size of its messages and its messages.
\<close>

record queue_env =
  qe_opens :: "string \<Rightarrow> bool"
  qe_attr :: "nat \<Rightarrow> bool"
  qe_msgsize :: nat
  qe_messages :: "byte list list"

definition tool_init :: "queue_env \<Rightarrow> int \<Rightarrow> int option" where
  "tool_init e queue_number =
     map_option fst (ipc_init (qe_opens e (queue_path queue_number)) (qe_attr e) (qe_msgsize e) (qe_messages e))"

section \<open>Running a program for each message\<close>

definition hex_digits :: string where
  "hex_digits = ''0123456789ABCDEF''"

definition hi_digit :: "byte \<Rightarrow> char" where
  "hi_digit b = hex_digits ! unat (drop_bit 4 b)"

definition lo_digit :: "byte \<Rightarrow> char" where
  "lo_digit b = hex_digits ! unat (b AND 0xF)"

text \<open>\<open>message_buffer\<close> has 1025 characters and is never cleared; writing behind it is the fault \<open>None\<close>.\<close>

fun put_digits :: "string \<Rightarrow> nat \<Rightarrow> byte list \<Rightarrow> string" where
  "put_digits buf i [] = buf"
| "put_digits buf i (b # bs) = put_digits (buf[2 * i := hi_digit b, 2 * i + 1 := lo_digit b]) (i + 1) bs"

definition put_message :: "string \<Rightarrow> byte list \<Rightarrow> string option" where
  "put_message buf msg =
     (let end = 2 * length msg + 1
      in if end < length buf then Some ((put_digits buf 0 msg)[end := CHR 0x00]) else None)"

definition c_text :: "string \<Rightarrow> string" where
  "c_text buf = takeWhile (\<lambda>c. c \<noteq> CHR 0x00) buf"

definition notify_command :: "string \<Rightarrow> string \<Rightarrow> string" where
  "notify_command cmd buf = cmd @ [CHR 0x20, CHR 0x22] @ c_text buf @ [CHR 0x22]"

datatype notify_end = Waiting | Too_long | Fault

text \<open>
  The messages received, or \<open>None\<close> for an error, each with the status of the command run for it, which is
  compared with \<open>E2BIG\<close>, 7.  The result is the commands that were run.
\<close>

fun notify_loop :: "string \<Rightarrow> (byte list option \<times> int) list \<Rightarrow> string \<Rightarrow> string list \<times> notify_end" where
  "notify_loop cmd [] buf = ([], Waiting)"
| "notify_loop cmd ((None, status) # es) buf = notify_loop cmd es buf"
| "notify_loop cmd ((Some msg, status) # es) buf =
     (case put_message buf msg of
        None \<Rightarrow> ([], Fault)
      | Some buf' \<Rightarrow>
          if length (notify_command cmd buf') \<ge> 513 then ([], Too_long)
          else if status = 7 then ([notify_command cmd buf'], Too_long)
          else (let (cs, e) = notify_loop cmd es buf' in (notify_command cmd buf' # cs, e)))"

record notify_options =
  nt_command :: "string option"
  nt_number :: int

text \<open>Without \<open>-n\<close> the number is what the stack held.  \<open>Inl\<close> is the exit code.\<close>

fun notify_parse :: "(char \<times> string) list \<Rightarrow> notify_options \<Rightarrow> int + notify_options" where
  "notify_parse [] s = Inr s"
| "notify_parse ((c, optarg) # opts) s =
     (if c = CHR ''c'' then notify_parse opts (s\<lparr>nt_command := Some optarg\<rparr>)
      else if c = CHR ''n'' then
        (case queue_option optarg of None \<Rightarrow> Inl 1 | Some v \<Rightarrow> notify_parse opts (s\<lparr>nt_number := v\<rparr>))
      else if c = CHR ''d'' \<or> c = CHR ''?'' then notify_parse opts s
      else Inl 0)"

text \<open>\<open>Inr\<close> when the loop is reached; a null command is a fault when the first message comes.\<close>

definition notify_main ::
  "int \<Rightarrow> (char \<times> string) list \<Rightarrow> queue_env \<Rightarrow> (byte list option \<times> int) list \<Rightarrow> (int + string list \<times> notify_end) option" where
  "notify_main junk opts e es =
     (case notify_parse opts \<lparr>nt_command = None, nt_number = junk\<rparr> of
        Inl rc \<Rightarrow> Some (Inl rc)
      | Inr s \<Rightarrow>
          (case tool_init e (nt_number s) of
             None \<Rightarrow> None
           | Some r \<Rightarrow>
               if r \<noteq> 0 then Some (Inl 1)
               else Some (Inr (case nt_command s of
                   Some cmd \<Rightarrow> notify_loop cmd es (replicate 1025 (CHR 0x00))
                 | None \<Rightarrow> ([], if \<forall>ev\<in>set es. fst ev = None then Waiting else Fault)))))"

section \<open>Printing the names of messages\<close>

definition message_name :: "byte list \<Rightarrow> string option" where
  "message_name msg =
     (if has_prefix ipc_motion_start msg then Some ''IPC_MOTION_START''
      else if has_prefix ipc_motion_start_c msg then Some ''IPC_MOTION_START_C''
      else if has_prefix ipc_motion_stop msg then Some ''IPC_MOTION_STOP''
      else if has_prefix ipc_ai_human_detection msg then Some ''IPC_AI_HUMAN_DETECTION''
      else if has_prefix ipc_ai_body_detection_c msg then Some ''IPC_AI_BODY_DETECTION_C''
      else if has_prefix ipc_ai_vehicle_detection_c msg then Some ''IPC_AI_VEHICLE_DETECTION_C''
      else if has_prefix ipc_ai_animal_detection_c msg then Some ''IPC_AI_ANIMAL_DETECTION_C''
      else if has_prefix ipc_baby_crying msg then Some ''IPC_BABY_CRYING''
      else if has_prefix ipc_sound_detection msg then Some ''IPC_SOUND_DETECTION''
      else None)"

fun read_parse :: "(char \<times> string) list \<Rightarrow> int \<Rightarrow> int + int" where
  "read_parse [] n = Inr n"
| "read_parse ((c, optarg) # opts) n =
     (if c = CHR ''n'' then (case queue_option optarg of None \<Rightarrow> Inl 1 | Some v \<Rightarrow> read_parse opts v)
      else if c = CHR ''d'' \<or> c = CHR ''?'' then read_parse opts n
      else Inl 0)"

text \<open>The exit code, or the lines printed for what is received.\<close>

definition read_main :: "(char \<times> string) list \<Rightarrow> queue_env \<Rightarrow> byte list option list \<Rightarrow> (int + string list) option" where
  "read_main opts e received =
     (case read_parse opts (-1) of
        Inl rc \<Rightarrow> Some (Inl rc)
      | Inr n \<Rightarrow>
          if n = -1 then Some (Inl 1)
          else (case tool_init e n of
              None \<Rightarrow> None
            | Some r \<Rightarrow>
                if r \<noteq> 0 then Some (Inl 1)
                else Some (Inr (concat (map (\<lambda>msg. case Option.bind msg message_name of None \<Rightarrow> [] | Some n \<Rightarrow> [n]) received)))))"

section \<open>The text of a message\<close>

definition hex_text :: "byte list \<Rightarrow> string" where
  "hex_text bs = concat (map (\<lambda>b. [hi_digit b, lo_digit b]) bs)"

lemma hex_text_length [simp]: "length (hex_text bs) = 2 * length bs"
  by (induction bs) (simp_all add: hex_text_def)

lemma hex_digit_no_nul: "i < 16 \<Longrightarrow> hex_digits ! i \<noteq> CHR 0x00"
proof -
  have "\<forall>c\<in>set hex_digits. c \<noteq> CHR 0x00" "length hex_digits = 16" by (simp_all add: hex_digits_def)
  then show "i < 16 \<Longrightarrow> hex_digits ! i \<noteq> CHR 0x00" by (metis nth_mem)
qed

lemma digits_no_nul: "hi_digit b \<noteq> CHR 0x00" "lo_digit b \<noteq> CHR 0x00"
proof -
  have "unat b < 2 ^ LENGTH(8)" by (rule unsigned_less)
  then have "unat (drop_bit 4 b) < 16" by (simp add: drop_bit_eq_div unat_div less_mult_imp_div_less)
  then show "hi_digit b \<noteq> CHR 0x00" unfolding hi_digit_def by (rule hex_digit_no_nul)
  have "uint (b AND 0xF) = uint b mod 16"
    using take_bit_eq_mask [of 4 "uint b"] by (simp add: uint_and mask_eq_exp_minus_1 take_bit_eq_mod)
  then have "unat (b AND 0xF) < 16" by (simp add: unat_eq_nat_uint nat_less_iff)
  then show "lo_digit b \<noteq> CHR 0x00" unfolding lo_digit_def by (intro hex_digit_no_nul) simp
qed

lemma hex_text_no_nul: "\<forall>c\<in>set (hex_text bs). c \<noteq> CHR 0x00"
  by (auto simp: hex_text_def digits_no_nul)

lemma put_digits_text:
  "2 * (i + length bs) \<le> length buf \<Longrightarrow> put_digits buf i bs = take (2 * i) buf @ hex_text bs @ drop (2 * (i + length bs)) buf"
proof (induction bs arbitrary: buf i)
  case Nil
  then show ?case by (simp add: hex_text_def)
next
  case (Cons b bs)
  let ?buf = "buf[2 * i := hi_digit b, 2 * i + 1 := lo_digit b]"
  have "take (2 * (i + 1)) ?buf = take (2 * i) buf @ [hi_digit b, lo_digit b]"
    using Cons.prems by (intro nth_equalityI) (auto simp: nth_append nth_list_update less_Suc_eq)
  moreover have "drop (2 * (i + 1 + length bs)) ?buf = drop (2 * (i + length (b # bs))) buf" by simp
  ultimately show ?case using Cons.IH [of "i + 1" ?buf] Cons.prems by (simp add: hex_text_def)
qed

lemma put_message_text:
  assumes "length buf = 1025" "length msg < 512"
  shows "put_message buf msg = Some (hex_text msg @ [buf ! (2 * length msg), CHR 0x00] @ drop (2 * length msg + 2) buf)"
proof -
  have d: "drop (2 * length msg) buf = buf ! (2 * length msg) # buf ! (2 * length msg + 1) # drop (2 * length msg + 2) buf"
    using assms by (simp add: Cons_nth_drop_Suc)
  have "put_digits buf 0 msg = hex_text msg @ buf ! (2 * length msg) # buf ! (2 * length msg + 1) # drop (2 * length msg + 2) buf"
    using put_digits_text [of 0 msg buf] assms d by simp
  then show ?thesis using assms by (simp add: put_message_def list_update_append)
qed

text \<open>The digit that an earlier, longer message has left behind the text of a message.\<close>

definition old_digit :: "byte list list \<Rightarrow> nat \<Rightarrow> string" where
  "old_digit before n = (let longer = filter (\<lambda>m. n < length m) before in if longer = [] then [] else [hi_digit (last longer ! n)])"

definition buffer_after :: "byte list list \<Rightarrow> string \<Rightarrow> bool" where
  "buffer_after before buf \<longleftrightarrow> length buf = 1025 \<and>
     (\<forall>k<512. buf ! (2 * k) = (case old_digit before k of [] \<Rightarrow> CHR 0x00 | c # _ \<Rightarrow> c))"

lemma old_digit_snoc: "old_digit (before @ [m]) k = (if k < length m then [hi_digit (m ! k)] else old_digit before k)"
  by (auto simp: old_digit_def)

lemma hex_text_even: "k < length m \<Longrightarrow> hex_text m ! (2 * k) = hi_digit (m ! k)"
proof (induction m arbitrary: k)
  case (Cons b m)
  then show ?case by (cases k) (simp_all add: hex_text_def)
qed simp

lemma buffer_step:
  assumes "buffer_after before buf" "length msg < 512"
  shows "\<exists>buf'. put_message buf msg = Some buf' \<and> buffer_after (before @ [msg]) buf' \<and>
    c_text buf' = hex_text msg @ old_digit before (length msg)"
proof -
  let ?n = "length msg"
  let ?buf = "hex_text msg @ [buf ! (2 * ?n), CHR 0x00] @ drop (2 * ?n + 2) buf"
  have len: "length buf = 1025" using assms(1) by (simp add: buffer_after_def)
  have at: "buf ! (2 * k) = (case old_digit before k of [] \<Rightarrow> CHR 0x00 | c # _ \<Rightarrow> c)" if "k < 512" for k
    using assms(1) that by (simp add: buffer_after_def)
  have "?buf ! (2 * k) = (case old_digit (before @ [msg]) k of [] \<Rightarrow> CHR 0x00 | c # _ \<Rightarrow> c)" if k: "k < 512" for k
  proof -
    consider "k < ?n" | "k = ?n" | j where "k = ?n + 1 + j" by (metis add.assoc less_imp_Suc_add linorder_neqE_nat Suc_eq_plus1_left add.commute)
    then show ?thesis
    proof cases
      case 1
      then show ?thesis by (simp add: nth_append hex_text_even old_digit_snoc)
    next
      case 2
      then show ?thesis using at [OF k] by (simp add: nth_append old_digit_snoc)
    next
      case 3
      then have "?buf ! (2 * k) = buf ! (2 * k)" using len k by (simp add: nth_append nth_drop)
      then show ?thesis using at [OF k] 3 by (simp add: old_digit_snoc)
    qed
  qed
  then have after: "buffer_after (before @ [msg]) ?buf" using len assms(2) by (simp add: buffer_after_def)
  have no: "\<forall>c\<in>set (old_digit before ?n). c \<noteq> CHR 0x00" by (simp add: old_digit_def Let_def digits_no_nul)
  have "c_text ?buf = hex_text msg @ old_digit before ?n"
  proof (cases "old_digit before ?n")
    case Nil
    then show ?thesis using at [of ?n] assms(2) hex_text_no_nul [of msg] by (simp add: c_text_def takeWhile_append)
  next
    case (Cons c cs)
    then have "cs = []" by (simp add: old_digit_def Let_def split: if_splits)
    then show ?thesis using Cons no at [of ?n] assms(2) hex_text_no_nul [of msg] by (simp add: c_text_def takeWhile_append)
  qed
  then show ?thesis using after put_message_text [OF len assms(2)] by blast
qed

lemma notify_loop_text:
  assumes "buffer_after before buf" "\<forall>m\<in>set msgs. length m < 512 \<and> length cmd + 2 * length m + 4 < 513"
  shows "notify_loop cmd (map (\<lambda>m. (Some m, 0)) msgs) buf =
    (map (\<lambda>i. cmd @ [CHR 0x20, CHR 0x22] @ hex_text (msgs ! i) @ old_digit (before @ take i msgs) (length (msgs ! i)) @ [CHR 0x22]) [0..<length msgs], Waiting)"
  using assms
proof (induction msgs arbitrary: before buf)
  case (Cons m msgs)
  obtain buf' where b: "put_message buf m = Some buf'" "buffer_after (before @ [m]) buf'" "c_text buf' = hex_text m @ old_digit before (length m)"
    using buffer_step [OF Cons.prems(1)] Cons.prems(2) by (metis list.set_intros(1))
  have "length (old_digit before (length m)) \<le> 1" by (simp add: old_digit_def Let_def)
  then have short: "\<not> 513 \<le> length (notify_command cmd buf')"
    using Cons.prems(2) by (simp add: notify_command_def b(3))
  have up: "[0..<length (m # msgs)] = 0 # map Suc [0..<length msgs]" by (simp add: upt_conv_Cons map_Suc_upt del: upt_Suc)
  have rest: "notify_loop cmd (map (\<lambda>m. (Some m, 0)) msgs) buf' =
    (map (\<lambda>i. cmd @ [CHR 0x20, CHR 0x22] @ hex_text (msgs ! i) @ old_digit ((before @ [m]) @ take i msgs) (length (msgs ! i)) @ [CHR 0x22]) [0..<length msgs], Waiting)"
    using Cons.prems(2) by (intro Cons.IH [OF b(2)]) simp
  show ?case unfolding up using short rest by (simp add: b(1,3) notify_command_def comp_def)
qed simp

lemma buffer_start: "buffer_after [] (replicate 1025 (CHR 0x00))"
  by (simp add: buffer_after_def old_digit_def)

text \<open>
  C39. The program that is run for a message gets its bytes as two digits each, in order - and one digit
  too many whenever a longer message came before: the first digit of the byte at that place in the
  latest such message.  So the texts are exact as long as no message is shorter than one before it.  A
  message of 512 bytes, the largest a queue gives, is written behind the buffer.
\<close>

theorem notify_text_has_old_digit:
  assumes "\<forall>m\<in>set msgs. length m < 512 \<and> length cmd + 2 * length m + 4 < 513"
  shows "notify_loop cmd (map (\<lambda>m. (Some m, 0)) msgs) (replicate 1025 (CHR 0x00)) =
      (map (\<lambda>i. cmd @ [CHR 0x20, CHR 0x22] @ hex_text (msgs ! i) @ old_digit (take i msgs) (length (msgs ! i)) @ [CHR 0x22]) [0..<length msgs], Waiting) \<and>
    (\<forall>i<length msgs. (\<forall>j<i. length (msgs ! j) \<le> length (msgs ! i)) \<longrightarrow> old_digit (take i msgs) (length (msgs ! i)) = []) \<and>
    (\<forall>m es status. length m = 512 \<longrightarrow> notify_loop cmd ((Some m, status) # es) (replicate 1025 (CHR 0x00)) = ([], Fault))"
proof (intro conjI allI impI)
  show "notify_loop cmd (map (\<lambda>m. (Some m, 0)) msgs) (replicate 1025 (CHR 0x00)) =
      (map (\<lambda>i. cmd @ [CHR 0x20, CHR 0x22] @ hex_text (msgs ! i) @ old_digit (take i msgs) (length (msgs ! i)) @ [CHR 0x22]) [0..<length msgs], Waiting)"
    using notify_loop_text [OF buffer_start assms] by simp
  show "old_digit (take i msgs) (length (msgs ! i)) = []" if "i < length msgs" "\<forall>j<i. length (msgs ! j) \<le> length (msgs ! i)" for i
  proof -
    have "length m \<le> length (msgs ! i)" if "m \<in> set (take i msgs)" for m
      using that \<open>\<forall>j<i. length (msgs ! j) \<le> length (msgs ! i)\<close> by (auto simp: in_set_conv_nth)
    then show ?thesis by (auto simp: old_digit_def filter_empty_conv not_less)
  qed
  show "notify_loop cmd ((Some m, status) # es) (replicate 1025 (CHR 0x00)) = ([], Fault)" if "length m = 512" for m es status
    using that by (simp add: put_message_def)
qed

lemma notify_text_has_old_digit_witness:
  "fst (notify_loop ''log'' (map (\<lambda>m. (Some m, 0)) [[1, 0xAB], [2], [3, 4]]) (replicate 1025 (CHR 0x00))) =
     [''log \"01AB\"'', ''log \"02A\"'', ''log \"0304\"'']"
  using notify_text_has_old_digit [of "[[1, 0xAB], [2], [3, 4]]" "''log''"]
  by (simp add: hex_text_def old_digit_def hi_digit_def lo_digit_def hex_digits_def upt_rec)

section \<open>The names of messages\<close>

text \<open>The consumer's type of a message by the name that is printed for it.\<close>

definition name_type :: "string \<Rightarrow> ipc_type option" where
  "name_type = map_of
     [(''IPC_MOTION_START'', IPC_MSG_MOTION_START), (''IPC_MOTION_START_C'', IPC_MSG_MOTION_START),
      (''IPC_MOTION_STOP'', IPC_MSG_MOTION_STOP), (''IPC_AI_HUMAN_DETECTION'', IPC_MSG_AI_HUMAN_DETECTION),
      (''IPC_AI_BODY_DETECTION_C'', IPC_MSG_AI_HUMAN_DETECTION), (''IPC_AI_VEHICLE_DETECTION_C'', IPC_MSG_AI_VEHICLE_DETECTION),
      (''IPC_AI_ANIMAL_DETECTION_C'', IPC_MSG_AI_ANIMAL_DETECTION), (''IPC_BABY_CRYING'', IPC_MSG_BABY_CRYING),
      (''IPC_SOUND_DETECTION'', IPC_MSG_SOUND_DETECTION)]"

text \<open>
  The names that are printed agree with the alarm consumer: for every message a name is printed
  exactly when the consumer knows it, and the name is of the type that the consumer raises.
\<close>

theorem names_agree_with_consumer: "Option.bind (message_name msg) name_type = message_type msg \<and>
    (message_name msg = None \<longleftrightarrow> message_type msg = None)"
  by (simp add: message_name_def message_type_def message_table_def has_prefix_def name_type_def)

text \<open>A queue is opened for the numbers 1 to 9 only, by both options.\<close>

lemma queue_option_range: "queue_option s = Some n \<Longrightarrow> 1 \<le> n \<and> n \<le> 9 \<and> fst (strtol10 s) = n"
  by (auto simp: queue_option_def Let_def split: prod.splits if_splits)

lemma read_parse_range: "read_parse opts n = Inr n' \<Longrightarrow> n' = n \<or> 1 \<le> n' \<and> n' \<le> 9"
  by (induction opts n rule: read_parse.induct)
    (auto split: if_splits option.splits dest: queue_option_range)

end
