(* ===== verification/Pcm_Volume.thy ===== *)
theory Pcm_Volume
  imports Speaker Scan
begin

text \<open>
  \<open>src/pcmvol/pcmvol/pcmvol.c\<close>: the filter that scales 16-bit samples on their way from the standard
  input to the standard output.  The options are as \<open>getopt_long\<close> returns them; \<open>strtod\<close> gives the value,
  the text it leaves and whether the range was left; \<open>pow_10\<close> is \<open>pow (10.0, x)\<close>; the reads are an
  argument.  A conversion that C leaves undefined is \<open>None\<close>.
\<close>

section \<open>Options\<close>

record volume_settings =
  vo_gain :: c_double
  vo_gaindb :: c_double
  vo_which :: int

definition volume_defaults :: volume_settings where
  "volume_defaults = \<lparr>vo_gain = Fin 1, vo_gaindb = Fin 0, vo_which = 0\<rparr>"

text \<open>A number in a range, as both options read it.\<close>

definition gain_value :: "(string \<Rightarrow> c_double \<times> string \<times> bool) \<Rightarrow> rat \<Rightarrow> rat \<Rightarrow> string \<Rightarrow> c_double option" where
  "gain_value strtod lo hi optarg =
     (let (v, rest, erange) = strtod optarg
      in if erange then None
         else if rest = optarg then None
         else if fp_lt v (Fin lo) \<or> fp_lt (Fin hi) v then None
         else Some v)"

text \<open>\<open>Inl\<close> is the exit code after the usage text.\<close>

fun volume_options ::
  "(string \<Rightarrow> c_double \<times> string \<times> bool) \<Rightarrow> (char \<times> string) list \<Rightarrow> volume_settings \<Rightarrow> int + volume_settings" where
  "volume_options strtod [] s = Inr s"
| "volume_options strtod ((c, optarg) # opts) s =
     (if c = CHR ''g'' then
        (case gain_value strtod 0 5 optarg of
           None \<Rightarrow> Inl 1
         | Some v \<Rightarrow> volume_options strtod opts (s\<lparr>vo_gain := v, vo_which := vo_which s + 1\<rparr>))
      else if c = CHR ''G'' then
        (case gain_value strtod (-12) 12 optarg of
           None \<Rightarrow> Inl 1
         | Some v \<Rightarrow> volume_options strtod opts (s\<lparr>vo_gaindb := v, vo_which := vo_which s + 2\<rparr>))
      else if c = CHR ''d'' \<or> c = CHR ''?'' then volume_options strtod opts s
      else Inl (-1))"

definition volume_mult :: "(c_double \<Rightarrow> c_double) \<Rightarrow> volume_settings \<Rightarrow> c_double" where
  "volume_mult pow_10 s = (if vo_which s = 2 then pow_10 (fp_over (vo_gaindb s) 20) else vo_gain s)"

section \<open>Samples\<close>

definition volume_sample :: "c_double \<Rightarrow> 16 word \<Rightarrow> 16 word option" where
  "volume_sample mult sample_in =
     map_option (\<lambda>v. word_of_int (if v > 32767 then 32767 else if v < -32768 then -32768 else v))
       (fp_to_int (fp_scale mult (of_int (sint sample_in))))"

fun volume_buffer :: "c_double \<Rightarrow> byte list \<Rightarrow> byte list option" where
  "volume_buffer mult (a # b # bs) = do {
     s \<leftarrow> volume_sample mult (le16 [a, b] 0);
     out \<leftarrow> volume_buffer mult bs;
     Some (sample_bytes s @ out)
   }"
| "volume_buffer mult _ = Some []"

text \<open>
  A read overwrites the beginning of the buffer; all of the buffer is converted, as many bytes as were read
  are written.  Reading nothing, or an error, ends the loop.
\<close>

fun volume_loop :: "c_double \<Rightarrow> byte list \<Rightarrow> byte list list \<Rightarrow> byte list option" where
  "volume_loop mult buffer [] = Some []"
| "volume_loop mult buffer (input # reads) =
     (if input = [] then Some []
      else do {
        out \<leftarrow> volume_buffer mult (input @ drop (length input) buffer);
        rest \<leftarrow> volume_loop mult (input @ drop (length input) buffer) reads;
        Some (take (length input) out @ rest)
      })"

definition volume_main ::
  "(string \<Rightarrow> c_double \<times> string \<times> bool) \<Rightarrow> (c_double \<Rightarrow> c_double) \<Rightarrow> (char \<times> string) list \<Rightarrow> byte list \<Rightarrow> byte list list \<Rightarrow> (byte list \<times> int) option" where
  "volume_main strtod pow_10 opts buffer reads =
     (case volume_options strtod opts volume_defaults of
        Inl rc \<Rightarrow> Some ([], rc)
      | Inr s \<Rightarrow>
          if vo_which s = 0 then Some ([], -1)
          else map_option (\<lambda>out. (out, 0)) (volume_loop (volume_mult pow_10 s) buffer reads))"

section \<open>Scaling\<close>

fun samples :: "byte list \<Rightarrow> 16 word list" where
  "samples (a # b # bs) = le16 [a, b] 0 # samples bs"
| "samples _ = []"

text \<open>A sample scaled: rounded to a double, cut towards zero and kept in 16 bits.\<close>

definition scaled :: "rat \<Rightarrow> 16 word \<Rightarrow> int" where
  "scaled g s = max (-32768) (min 32767 (case fp_to_int (dbl (g * of_int (sint s))) of Some v \<Rightarrow> v | None \<Rightarrow> 0))"

definition volume_of :: "rat \<Rightarrow> byte list \<Rightarrow> byte list" where
  "volume_of g bs = concat (map (\<lambda>s. sample_bytes (word_of_int (scaled g s))) (samples bs))"

lemma sint16: "- 32768 \<le> sint s" "sint s < 32768" for s :: "16 word"
  using sint_ge [of s] sint_lt [of s] by simp_all

lemma abs_product: "0 \<le> g \<Longrightarrow> g \<le> of_int m \<Longrightarrow> \<bar>g * of_int x\<bar> \<le> of_int (m * \<bar>x\<bar>)" for g :: rat and m x :: int
  by (simp add: abs_mult mult_right_mono)

lemma scaled_value:
  fixes s :: "16 word"
  assumes "0 \<le> g" "g \<le> of_int m" "m \<le> 5"
  shows "\<exists>v. fp_to_int (dbl (g * of_int (sint s))) = Some v \<and> \<bar>v\<bar> \<le> m * \<bar>sint s\<bar>"
proof -
  have m: "0 \<le> m" using assms(1,2) by (metis of_int_0_le_iff order_trans)
  have "m * \<bar>sint s\<bar> \<le> 5 * 32768" using sint16 [of s] assms(3) m by (intro mult_mono) auto
  then have b: "m * \<bar>sint s\<bar> \<le> 2 ^ 52" "m * \<bar>sint s\<bar> < 2 ^ 31" by simp_all
  show ?thesis using fp_to_int_within [OF dbl_within [OF abs_product [OF assms(1,2)] b(1)] b(2)] .
qed

lemma volume_sample_scaled:
  assumes "0 \<le> g" "g \<le> 5"
  shows "volume_sample (Fin g) s = Some (word_of_int (scaled g s))"
proof -
  have "g \<le> of_int 5" using assms(2) by simp
  from scaled_value [OF assms(1) this] obtain v where v: "fp_to_int (dbl (g * of_int (sint s))) = Some v" by blast
  have "(if v > 32767 then 32767 else if v < - 32768 then - 32768 else v) = max (- 32768) (min 32767 v)" by simp
  then show ?thesis unfolding volume_sample_def scaled_def fp_scale.simps v by simp
qed

lemma scaled_range: "sint (word_of_int (scaled g s) :: 16 word) = scaled g s"
proof -
  have "sint (word_of_int n :: 16 word) = n" if "- 32768 \<le> n" "n \<le> 32767" for n
    using that by (simp add: signed_of_int signed_take_bit_int_eq_self)
  then show ?thesis unfolding scaled_def by (simp only: max.cobounded1 max.boundedI min.cobounded1)
qed

lemma scaled_bound: "0 \<le> g \<Longrightarrow> g \<le> 1 \<Longrightarrow> \<bar>scaled g s\<bar> \<le> \<bar>sint s\<bar>"
  using scaled_value [of g 1 s] sint16 [of s] by (auto simp: scaled_def)

lemma scaled_one: "scaled 1 s = sint s"
proof -
  define k where "k = sint s"
  have k: "- 32768 \<le> k" "k < 32768" using sint16 [of s] by (simp_all add: k_def)
  have "fp_to_int (dbl (of_int k)) = Some k" using k by (simp add: dbl_of_int)
  then show ?thesis using k by (simp add: scaled_def k_def [symmetric] del: of_int_sint)
qed

lemma volume_buffer_scaled: "0 \<le> g \<Longrightarrow> g \<le> 5 \<Longrightarrow> volume_buffer (Fin g) bs = Some (volume_of g bs)"
  by (induction "Fin g" bs rule: volume_buffer.induct) (simp_all add: volume_sample_scaled volume_of_def)

lemma samples_append: "even (length xs) \<Longrightarrow> samples (xs @ ys) = samples xs @ samples ys"
  by (induction xs rule: samples.induct) simp_all

lemma sample_bytes_length [simp]: "length (sample_bytes w) = 2"
  by (simp add: sample_bytes_def)

lemma volume_of_append: "even (length xs) \<Longrightarrow> volume_of g (xs @ ys) = volume_of g xs @ volume_of g ys"
  by (simp add: volume_of_def samples_append)

lemma volume_of_length: "even (length bs) \<Longrightarrow> length (volume_of g bs) = length bs"
  by (induction bs rule: samples.induct) (simp_all add: volume_of_def)

lemma volume_loop_scaled:
  assumes "0 \<le> g" "g \<le> 5" "\<forall>r\<in>set reads. r \<noteq> [] \<and> even (length r)"
  shows "volume_loop (Fin g) buffer reads = Some (volume_of g (concat reads))"
  using assms(3)
proof (induction reads arbitrary: buffer)
  case Nil
  then show ?case by (simp add: volume_of_def)
next
  case (Cons r reads)
  then show ?case
    by (simp add: volume_buffer_scaled [OF assms(1,2)] volume_of_append volume_of_length)
qed

lemma volume_one: "even (length bs) \<Longrightarrow> volume_of 1 bs = bs"
proof (induction bs rule: samples.induct)
  case (1 a b bs)
  have "sample_bytes (le16 [a, b] 0) = [a, b]"
    unfolding sample_bytes_def le16_def by (auto intro!: bit_word_eqI simp: bit_simps byte_high_bits)
  then show ?case using 1 by (simp add: volume_of_def scaled_one)
qed (simp_all add: volume_of_def)

text \<open>
  C40. The volume of a stream is scaled sample by sample: for every gain from 0 to 5 and any reads, as long as each of
  them ends with a whole sample and each write takes all it is given, what is written is every sample times the gain, rounded as a double, cut towards zero and kept in 16 bits, whatever
  the sizes of the reads and the earlier content of the buffer; a gain of at most 1 makes no sample
  louder, and 1 changes no byte.
\<close>

theorem volume_scales_stream:
  assumes "0 \<le> g" "g \<le> 5" "\<forall>r\<in>set reads. r \<noteq> [] \<and> even (length r)"
  shows "volume_loop (Fin g) buffer reads = Some (volume_of g (concat reads)) \<and>
    length (volume_of g (concat reads)) = length (concat reads) \<and>
    (\<forall>s. sint (word_of_int (scaled g s) :: 16 word) = scaled g s \<and> (g \<le> 1 \<longrightarrow> \<bar>scaled g s\<bar> \<le> \<bar>sint s\<bar>)) \<and>
    (g = 1 \<longrightarrow> volume_of g (concat reads) = concat reads)"
proof -
  have "even (length (concat reads))" using assms(3) by (induction reads) simp_all
  then show ?thesis
    using volume_loop_scaled [OF assms] volume_of_length volume_one scaled_range scaled_bound [OF assms(1)] by simp
qed

lemma volume_scales_stream_witness:
  "volume_loop (Fin 2) (replicate 4096 7) [[0x10, 0, 0xFF, 0x7F], [0, 0x80]] = Some (volume_of 2 [0x10, 0, 0xFF, 0x7F, 0, 0x80]) \<and>
   volume_loop (Fin 1) (replicate 4096 7) [[0x10, 0], [0, 0x80]] = Some [0x10, 0, 0, 0x80]"
  using volume_scales_stream [of 2 "[[0x10, 0, 0xFF, 0x7F], [0, 0x80]]" "replicate 4096 7"]
    volume_scales_stream [of 1 "[[0x10, 0], [0, 0x80]]" "replicate 4096 7"] by simp

text \<open>
  A read that ends within a sample splits it: each half is converted with a byte that is left from before in the
  place of the other one.
\<close>

lemma odd_read_splits_sample:
  assumes "0 \<le> g" "g \<le> 5"
  shows "volume_loop (Fin g) (x # y # rest) [[a], [b]] =
    Some [hd (sample_bytes (word_of_int (scaled g (le16 [a, y] 0)))), hd (sample_bytes (word_of_int (scaled g (le16 [b, y] 0))))]"
  by (simp add: volume_buffer_scaled [OF assms] volume_sample_scaled [OF assms] volume_of_def sample_bytes_def)

section \<open>Gains that are not what was asked for\<close>

text \<open>
  Which gain is used: with \<open>-g\<close> given twice the factor is that of 0 dB, with \<open>-G\<close> given twice it is 1,
  and with both options the decibels are ignored; and NaN, which \<open>strtod\<close> reads, is accepted as a
  gain and makes the conversion of the first sample undefined.
\<close>

lemma gain_is_lost:
  assumes "gain_value strtod 0 5 a = Some x" "gain_value strtod (-12) 12 b = Some y"
  shows "(\<exists>s. volume_options strtod [(CHR ''g'', a), (CHR ''g'', a)] volume_defaults = Inr s \<and> volume_mult pow_10 s = pow_10 (fp_over (Fin 0) 20)) \<and>
    (\<exists>s. volume_options strtod [(CHR ''G'', b), (CHR ''G'', b)] volume_defaults = Inr s \<and> volume_mult pow_10 s = Fin 1) \<and>
    (\<exists>s. volume_options strtod [(CHR ''G'', b), (CHR ''g'', a)] volume_defaults = Inr s \<and> volume_mult pow_10 s = x) \<and>
    volume_sample NaN w = None"
  by (simp add: assms volume_defaults_def volume_mult_def volume_sample_def)

end
