(* ===== verification/Spec2Isabelle.thy ===== *)
theory Spec2Isabelle
  imports Motion_Tuning Motion_Delivery Motion_Events Motion_Levels Motion_Mask Ipc2file Ipc_Cmd
    Reserve Motiond Mqtt_Config Record_Metadata Proccgi Record_Preroll Reset_Hotspot
    Iva_Control Nightvision_Control H264_Setup Ipc_Multiplex Flash_Mount Dispatch_Poll Map_Publisher
    Service_Guard Snap_Scan Snap_File Snap_Decode Watermark Watermark_Time Snap_Program Snap_Shows
    Speaker Tz_Offset Ipc_Tools Pcm_Volume
begin

text \<open>
  A verification of the services that this firmware adds to the camera: the motion detector and its
  consumers, the command that drives the vendor's processes, the MQTT configuration client, the
  library that writes the motion of a clip into the recording, the reader of web forms, the grabber of
  encoded video, the snapshot program, the hooks in the vendor's processes, the guard of recovery workers, and
  the small commands for sound, for the time zone and for debugging.  Paths below are under \<open>src/\<close>.

  The parts and how they interact.  The detector process (\<open>motiond/motiond/motiond.c\<close>) polls the video
  engine's statistics, decides with \<open>motion_tuning.h\<close> and optionally a spatial mask
  (\<open>motion_mask.h\<close>, fed by a map in shared memory) whether there is motion, writes a state file,
  keeps a history of samples (\<open>ipc_cmd/ipc_cmd/motion_metadata_levels.c\<close>) and sends START and STOP
  messages over a message queue (\<open>motion_delivery.h\<close>).  The alarm consumer
  (\<open>ipc_cmd/ipc_cmd/ipc2file.c\<close>) reads such messages, creates and removes alarm files, and records
  the changes in a shared history (\<open>motion_metadata_events.c\<close>).  The library in the recorder
  (\<open>record_metadata.c\<close>) reads both histories when a clip is closed.  \<open>ipc_cmd.c\<close> sends messages to the
  vendor's processes; the MQTT client (\<open>mqtt-config/\<close>) changes configuration files; \<open>proccgi\<close> turns
  web forms into shell variables for the scripts of the web interface.

  The theories.  \<open>Prelude\<close> has C characters and strings, \<open>strtol\<close> and decimal output, \<open>Floats\<close> and
  \<open>Scan\<close> binary64 numbers with exact rounding and the conversions of \<open>sscanf\<close>, \<open>Text_Lines\<close> the
  lines that \<open>fgets\<close> returns.  \<open>Bounded_Log\<close> is the interface of a bounded ring that keeps the latest
  entries, interpreted by both histories; \<open>Bounded_Read\<close> the bounded attempts of their readers;
  \<open>Seqlock\<close> the interleaving of their writer and reader as a step relation.
  \<^item> \<open>Motion_Tuning\<close>: presets, validation and \<open>motion_update\<close>.  A START needs its number of strong
    samples in a row, a STOP its quiet time, and they alternate.
  \<^item> \<open>Motion_Delivery\<close>: the delivery state machine, one \<open>tick\<close> at a time.  The messages of every
    connection follow the recorder's protocol whatever fails, and a working queue is brought to the
    wanted state in two ticks.
  \<^item> \<open>Motion_Events\<close>, \<open>Motion_Levels\<close>: the shared histories.  They refine an unbounded log, survive a
    restart, and a reader accepts stable copies only.
  \<^item> \<open>Motion_Mask\<close>: decoding of motion vectors, the score of a frame and the reader of the map.
  \<^item> \<open>Motiond_Input\<close>, \<open>Reserve\<close>, \<open>Motiond\<close>: the files the detector reads and writes, its options, a
    round of its loop, start and shutdown.  The state file and the wanted message are the detector's
    state after any rounds.
  \<^item> \<open>Ipc2file\<close>: the alarm consumer, from its options to its loop.
  \<^item> \<open>Ipc_Messages\<close>, \<open>Ptz\<close>, \<open>Ipc_Cmd\<close>: the messages by their names in \<open>ipc_cmd.h\<close>, the models that
    can move, and every option of the command with the messages it sends.
  \<^item> \<open>Mqtt_Validate\<close>, \<open>Conf_File\<close>, \<open>Mqtt_Config\<close>: the table of parameters and the check of a value;
    parsing and replacing in configuration files; the message callback and the connection.  Undefined
    behaviour is a value of its own, so the theorems say which messages run into it.
  \<^item> \<open>Mp4_Boxes\<close>, \<open>Record_Metadata\<close>: the movie atom of a clip as bytes, the box that is appended to it,
    and its text.
  \<^item> \<open>Proccgi\<close>: the form reader, with a model of the shell that evaluates its output.
  \<^item> \<open>Record_Preroll\<close>: how much video the recorder's ring of packets holds.
  \<^item> \<open>Reset_Hotspot\<close>: the hook that hides the reset button from the vendor's dispatcher and answers a
    held one with a hotspot, over all \<open>ioctl\<close> calls of the process.
  \<^item> \<open>Writer_Lock\<close>: the lock of the control programs as a step relation of any number of controllers, with
    controllers that are killed, the recovery of \<open>--init\<close> and a detector that comes and goes; controllers exclude
    each other in runs whose recoveries come when nobody holds the lock, and a run in which one does not shows
    that the code needs that; \<open>Arm_Branches\<close> the branch instructions that are written
    over the vendor's code, with what a processor makes of them.
  \<^item> \<open>Motion_Iva\<close>, \<open>Iva_Hook\<close>, \<open>Iva_Control\<close>: the mask of models whose motion is found in software; the
    count by pixels, the hook at the end of a scan, and the control program up to its effect on the hook.
  \<^item> \<open>Nightvision\<close>, \<open>Nightvision_Control\<close>: the light level, the hook and how the vendor's calls are
    patched, and the control program up to its effect on the camera.
  \<^item> \<open>Frame_Ring\<close>, \<open>Sps_Tables\<close>, \<open>H264_Grabber\<close>: the ring of encoded frames in shared memory, the known
    parameter sets, and the loop of the grabber that copies frames to its outputs.  \<open>H264_Delivery\<close>: over
    any passes each finished frame is written once, in order; \<open>H264_Safety\<close>: what a pass may read, and two
    inputs on which it goes wrong; \<open>H264_Setup\<close>: options, outputs, detection of the layout and \<open>main\<close>.
  \<^item> \<open>Ipc_Multiplex\<close>: the mirror of the vendor's messages, which feeds the alarm consumer, as a bounded
    queue that drops when full and never changes what the vendor's process sees.
  \<^item> \<open>Flash_Mount\<close>, \<open>Dispatch_Poll\<close>: the wrapped \<open>mount\<close>, \<open>popen\<close> and \<open>pclose\<close> of the dispatcher.
  \<^item> \<open>Map_Publisher\<close>: the library in the encoder that writes the map that \<open>Motion_Mask\<close> reads.
  \<^item> \<open>Service_Guard\<close>: the time limit on a worker.
  \<^item> \<open>Snap_Scan\<close>, \<open>Snap_File\<close>, \<open>Snap_Decode\<close>: the two sources of a snapshot (\<open>snapshot/snapshot/imggrabber.c\<close>),
    the ring of \<open>Frame_Ring\<close> and a file of units, and how the decoded frame becomes the rows of a picture
    (\<open>convert2jpg.c\<close>).  \<open>Watermark\<close>, \<open>Watermark_Time\<close>: the glyphs (\<open>add_water.c\<close>, \<open>water_mark.c\<close>) and where they
    change the picture.  \<open>Snap_Program\<close>: options, the check for another snapshot, and \<open>main\<close> with everything that is
    taken and released, of the program and of the libraries on its behalf; \<open>Snap_Shows\<close>: what a run shows, and what
    it leaves behind.
  \<^item> \<open>Speaker\<close>: the player of raw, mu-law and stored sound (\<open>speaker/speaker/speaker.c\<close>); the decoding of a file by
    the meaning of its chunks, the streaming, and what is held on every path.
  \<^item> \<open>Tz_Offset\<close>: the time zone command, its table of addresses, its message and the bytes it changes.
  \<^item> \<open>Ipc_Tools\<close>: the programs that print messages or run a command for each (\<open>ipc_read.c\<close>, \<open>ipc_notify.c\<close>).
  \<^item> \<open>Pcm_Volume\<close>: the filter that scales samples (\<open>pcmvol/pcmvol/pcmvol.c\<close>).
  This theory joins the detector process and the alarm consumer.

  How the code is modelled.  Structs are records and enums datatypes under the source's names; a
  handler is one function from the state and the answers of the system (a record of what each call
  returns) to the new state and what it did.  Machine words keep their width where wrap-around or
  bits matter; where a C value provably stays in range it is an integer.  Doubles are exact rationals
  with infinities and NaN, rounded to 53 bits after each operation.  A loop over data is a recursion
  on it; the attempts and retries that the code bounds by a constant have that constant as fuel, so
  no bound is invented; \<open>clear_queue\<close> and the chunks of a stored sound, which may not end, are partial
  functions, and their end is characterised.  The loops of the processes are runs over lists of rounds.  Failures
  of memory allocation are modelled in \<open>main\<close> of the snapshot program; elsewhere, for its glyphs included, an
  allocation succeeds.  Log output and the order of independent system calls are not modelled.

  Not modelled: the RTSP server, which is C++; the variants of the grabber and of the snapshot program with
  semaphores, which the build does not select; the alternative MQTT client, which it does not select either; the
  sockets and TLS of the MQTT client; the decoder and the JPEG library, which are parameters; the prototypes and
  experiments; the vendored packages, scripts and web pages.
\<close>

section \<open>From the detector to the alarm file\<close>

text \<open>The messages sent on the present connection of the detector, oldest first.\<close>

fun sent_since :: "bool list \<Rightarrow> dv_log list \<Rightarrow> bool list" where
  "sent_since acc [] = acc"
| "sent_since acc (Opened q # l) = sent_since [] l"
| "sent_since acc (Sent b # l) = sent_since (acc @ [b]) l"

lemma session_after_sent:
  "session_after (if acc = [] then None else Some (last acc)) l =
     (if sent_since acc l = [] then None else Some (last (sent_since acc l)))"
proof (induction l arbitrary: acc)
  case (Cons x l)
  then show ?case
    using Cons.IH [of "[]"] Cons.IH [of "acc @ [b]" for b] by (cases x) simp_all
qed simp

lemma motiond_message_types:
  "message_type (motiond_message b) =
     Some (if b then IPC_MSG_MOTION_START else IPC_MSG_MOTION_STOP)"
  by (simp add: message_type_def message_table_def motiond_message_def ipc_message_defs)

lemma delivered_session:
  assumes "ar_record_events (mc_args g)" "motiond_rounds g (motiond_begin g b) rounds = (st, l)"
    "\<not> motion_delivery_pending (md_ipc st)"
  shows "session_after None l = Some (d_active (md_detector st))"
proof -
  have en: "v_enabled (md_ipc st)"
    using motiond_rounds_enabled [OF assms(2)] assms(1)
    by (simp add: motiond_begin_def motion_delivery_init_def case_prod_unfold Let_def)
  then have "v_wanted (md_ipc st) = d_active (md_detector st)"
    using motiond_rounds_inv [OF motiond_begin_inv assms(2)] by (simp add: motiond_inv_def)
  then show ?thesis
    using motiond_rounds_conn [OF motiond_begin_conn assms(2)] en assms(3)
    by (auto simp: conn_inv_def motion_delivery_pending_def)
qed

text \<open>
  C1. Motion reaches the alarm file: take the detector process run with event messages enabled, any
  rounds, and nothing left to deliver; take a consumer, with no alarm file at its start, that
  received among its motion messages, last, the messages of the detector's present connection, and
  no alarm of another kind.  Then the two processes read the same bytes as the same states, and the
  alarm file exists exactly when the detector is active.
\<close>

theorem motion_reaches_the_alarm_file:
  assumes "ar_record_events (mc_args g)" "motiond_rounds g (motiond_begin g b) rounds = (st, l)"
    "\<not> motion_delivery_pending (md_ipc st)"
    "list_all motion_only evs" "motion_states evs = earlier @ sent_since [] l"
    "file_motion_start \<notin> ce_files e"
  shows "(\<forall>a. message_type (motiond_message a) =
      Some (if a then IPC_MSG_MOTION_START else IPC_MSG_MOTION_STOP)) \<and>
    (file_motion_start \<in> p_files (consumer_loop (consumer_start e) evs) \<longleftrightarrow>
      d_active (md_detector st))"
proof -
  have "sent_since [] l \<noteq> [] \<and> last (sent_since [] l) = d_active (md_detector st)"
    using delivered_session [OF assms(1-3)] session_after_sent [of "[]" l] by (auto split: if_splits)
  then have "last (False # motion_states evs) = d_active (md_detector st)" by (simp add: assms(5))
  then show ?thesis
    using consumer_follows [OF assms(4,6)] motiond_message_types by (auto simp: follows_def)
qed

section \<open>Witness\<close>

definition moving_report :: string where
  "moving_report = ''Channal[0] Scene:1, Move:1, MovingLevel:3, BinImgRatio:50%, MovingTh:9''"

definition quick_config :: motiond_config where
  "quick_config = a_config\<lparr>mc_sens := (cfgs ! 4)\<lparr>c_confirm_samples := 1, c_level_boost := 0\<rparr>\<rparr>"

definition moving_round :: round_env where
  "moving_round = \<lparr>ro_stats = \<lparr>se_now = 5000, se_reserve_ok = True, se_open_ok = True,
       se_read = Some moving_report, se_later = 5001\<rparr>,
     ro_now = 5001, ro_mask = \<lparr>me_open_ok = False, me_stat_ok = False, me_mmap_ok = False, me_magic = 0,
       me_version = 0, me_attempts = []\<rparr>, ro_wall_ms = None,
     ro_write = \<lparr>we_open = True, we_write = Inr 2, we_close = None, we_rename = None\<rparr>,
     ro_tick = \<lparr>e_fstat_ok = True, e_path_queue = Some 7, e_open = Inr 7, e_attr = Inr 16,
       e_send = (\<lambda>_. None)\<rparr>,
     ro_rewrite = \<lparr>we_open = True, we_write = Inr 2, we_close = None, we_rename = None\<rparr>,
     ro_tel_open = False, ro_tel_written = 0, ro_tel_rename = False\<rparr>"

definition moving_stats :: motion_stats where
  "moving_stats = \<lparr>s_scene = 1, s_move = 1, s_moving_level = 3, s_bin_ratio = Fin 50, s_moving_th = 9\<rparr>"

lemma scan_fifty: "scan_lf ''50%, MovingTh:9'' = Some (Fin 50, ''%, MovingTh:9'')"
proof -
  let ?s = "''50%, MovingTh:9''"
  have d: "dbl 50 = Fin 50" using dbl_of_int [of 50] by simp
  have 1: "scan_sign (skip_space ?s) = (False, ?s)" by code_simp
  have 2: "split_point c_isdigit ?s = (''50'', [], ''%, MovingTh:9'')" by code_simp
  have 3: "\<not> (3 \<le> length ?s \<and> strn_ieq 3 ?s ''inf'')" "\<not> (3 \<le> length ?s \<and> strn_ieq 3 ?s ''nan'')"
    "\<not> (has_prefix ''0x'' ?s \<or> has_prefix ''0X'' ?s)" "dec_acc 0 ''50'' = 50"
    "scan_exponent CHR ''e'' ''%, MovingTh:9'' = Some (0, ''%, MovingTh:9'')" by code_simp+
  show ?thesis
    unfolding scan_lf_def 1 Let_def prod.case if_not_P [OF 3(1)] if_not_P [OF 3(2)] if_not_P [OF 3(3)]
      scan_decimal_def 2
    by (simp del: dec_acc.simps add: 3(4,5) signed_dbl_def pow10_def d)
qed

lemma scan_moving:
  "scan_stats (drop 11 moving_report) = Some moving_stats"
proof -
  have 1: "Option.bind (skip_lit ''Scene:'' (Some (drop 11 moving_report))) scan_d =
      Some (1, '', Move:1, MovingLevel:3, BinImgRatio:50%, MovingTh:9'')"
    and 2: "Option.bind (skip_lit ''Move:'' (map_option skip_space (skip_lit '','' (Some
      '', Move:1, MovingLevel:3, BinImgRatio:50%, MovingTh:9'')))) scan_d =
      Some (1, '', MovingLevel:3, BinImgRatio:50%, MovingTh:9'')"
    and 3: "Option.bind (skip_lit ''MovingLevel:'' (map_option skip_space (skip_lit '','' (Some
      '', MovingLevel:3, BinImgRatio:50%, MovingTh:9'')))) scan_d = Some (3, '', BinImgRatio:50%, MovingTh:9'')"
    and 4: "skip_lit ''BinImgRatio:'' (map_option skip_space (skip_lit '','' (Some
      '', BinImgRatio:50%, MovingTh:9''))) = Some ''50%, MovingTh:9''"
    and 5: "Option.bind (skip_lit ''MovingTh:'' (map_option skip_space (skip_lit '','' (skip_lit ''%''
      (Some (skip_space ''%, MovingTh:9'')))))) scan_d = Some (9, [])"
    by code_simp+
  show ?thesis
    unfolding scan_stats_def 1 option.case prod.case 2 3 4 Option.bind.bind_lunit scan_fifty 5
    by (simp add: moving_stats_def)
qed

lemma read_moving: "read_stats False 0 (ro_stats moving_round) = (0, 0, Some moving_stats)"
proof -
  have 1: "or_else (find_sub ''Channal[0]'' moving_report) (find_sub ''Channel[0]'' moving_report) = Some moving_report"
    "or_else (find_sub ''End Channal[0]'' moving_report) (find_sub ''End Channel[0]'' moving_report) = None"
    "find_sub ''Scene:'' moving_report = Some (drop 11 moving_report)"
    "takeWhile (\<lambda>c. c \<noteq> CHR 0x00) moving_report = moving_report"
    "\<not> length (drop 11 moving_report) \<le> 0" "moving_report \<noteq> []"
    by code_simp+
  have "parse_report moving_report = Inr moving_stats"
    unfolding parse_report_def 1 option.case Let_def if_not_P [OF 1(5)] scan_moving by simp
  then show ?thesis
    by (simp add: read_stats_def moving_round_def 1(4,6))
qed

lemma motiond_begin_fields:
  "md_mask (motiond_begin g b) = initial_mask (mc_args g)" "md_retry (motiond_begin g b) = 0"
  "md_detector (motiond_begin g b) = detector_init"
  "md_ipc (motiond_begin g b) = motion_delivery_init (ar_record_events (mc_args g)) ipc_queue_name"
  by (simp_all add: motiond_begin_def case_prod_unfold Let_def)

lemma moving_tick:
  "motion_delivery_tick (motion_delivery_want (motion_delivery_init True ipc_queue_name) True) 5001 (ro_tick moving_round)
    = ((motion_delivery_init True ipc_queue_name)\<lparr>v_mq := Some 7, v_wanted := True, v_sent := True,
        v_reset_pending := False, v_check_after := 6001\<rparr>, 0, None, [Opened 7, Sent False, Sent True])"
  by (simp add: moving_round_def motion_delivery_tick_def motion_delivery_init_def motion_delivery_want_def
      check_replaced_def Let_def send_pending_def numeral_2_eq_2 motion_delivery_pending_def next_message_def
      message_accepted_def)

lemma moving_run:
  "\<exists>st. motiond_rounds quick_config (motiond_begin quick_config a_begin) [moving_round] =
     (st, [Opened 7, Sent False, Sent True]) \<and> d_active (md_detector st) \<and> \<not> motion_delivery_pending (md_ipc st)"
proof -
  let ?st = "motiond_begin quick_config a_begin"
  have 1: "\<not> mm_enabled (md_mask ?st)" "ar_record_events (mc_args quick_config)"
    "mc_uses_vmalloc quick_config = False" "ro_now moving_round = 5001"
    by (simp_all add: motiond_begin_fields initial_mask_def quick_config_def a_config_def default_args_def moving_round_def)
  have 2: "\<not> stats_bad moving_stats" by (simp add: stats_bad_def moving_stats_def)
  have 3: "motion_update detector_init (mc_sens quick_config) (Some moving_stats) 5001 =
      (\<lparr>d_active = True, d_positives = 1, d_quiet_since = -1\<rparr>, 1)"
  proof -
    have "lit 3 = Fin 3" using rnd53_of_int [of 3] by (simp add: lit_def)
    then have "sample_strong (mc_sens quick_config) moving_stats"
      by (simp add: sample_strong_def quick_config_def cfgs_def mk_cfg_def moving_stats_def)
    then show ?thesis
      by (simp add: motion_update_def 2 detector_init_def Let_def quick_config_def)
  qed
  have 5: "snd (motiond_round quick_config ?st moving_round) = [Opened 7, Sent False, Sent True] \<and>
     md_detector (fst (motiond_round quick_config ?st moving_round)) = \<lparr>d_active = True, d_positives = 1, d_quiet_since = -1\<rparr> \<and>
     \<not> motion_delivery_pending (md_ipc (fst (motiond_round quick_config ?st moving_round)))"
    unfolding motiond_round_def Let_def motiond_begin_fields(2,3,4) 1(3,4) read_moving prod.case spatial_source_def
    by (simp add: 1 2 3 override_def announce_def moving_tick motion_delivery_pending_def case_prod_unfold Let_def)
       (simp add: motion_delivery_init_def)
  then show ?thesis
    by (cases "motiond_round quick_config ?st moving_round") simp
qed

lemma motion_reaches_the_alarm_file_witness:
  "file_motion_start \<in> p_files (consumer_loop (consumer_start quiet_consumer)
     [Received (motiond_message False) 6 True, Received (motiond_message True) 7 True])"
proof -
  obtain st where st: "motiond_rounds quick_config (motiond_begin quick_config a_begin) [moving_round] =
     (st, [Opened 7, Sent False, Sent True])" "d_active (md_detector st)" "\<not> motion_delivery_pending (md_ipc st)"
    using moving_run by blast
  have "ar_record_events (mc_args quick_config)" by (simp add: quick_config_def a_config_def)
  from motion_reaches_the_alarm_file [OF this st(1,3), of "[Received (motiond_message False) 6 True,
      Received (motiond_message True) 7 True]" "[]" quiet_consumer]
  show ?thesis using st(2) by (simp add: motiond_message_types quiet_consumer_def)
qed

end
